(* ===== verification/Prelude.thy ===== *)
theory Prelude
  imports Main "HOL-Library.Word" "HOL-Library.Char_ord" "HOL-Library.List_Lexorder"
    "HOL-Library.Multiset" "HOL-Library.Monad_Syntax"
begin

section \<open>Prelude: C strings, numbers and the Qt list and dictionary operations\<close>

text \<open>
  What the components share. A \<open>const char *\<close> is the list of the bytes from the pointer to
  the end of its buffer; dereferencing it at the end gives the terminating NUL. Where a buffer
  holds bytes beyond a NUL, the list holds them too, and every C function here stops at the
  NUL as the C function does. Numbers printed and read by the C library, the string order of
  \<open>strcmp\<close>, and the interface of \<open>QList::inSort\<close> follow.
\<close>

named_theorems ptr_le "a scan returns a pointer that does not move backwards"
named_theorems cstr_simps "evaluation of C string operations"

subsection \<open>Characters\<close>

abbreviation NUL :: char where "NUL \<equiv> CHR 0x00"
abbreviation LF :: char where "LF \<equiv> CHR 0x0A"
abbreviation CR :: char where "CR \<equiv> CHR 0x0D"
abbreviation TAB :: char where "TAB \<equiv> CHR 0x09"
abbreviation DQ :: char where "DQ \<equiv> CHR 0x22"
abbreviation BSL :: char where "BSL \<equiv> CHR 0x5C"
abbreviation SP :: char where "SP \<equiv> CHR 0x20"

definition code :: "char \<Rightarrow> nat" where
  "code c = of_char c"

definition isspace :: "char \<Rightarrow> bool" where
  "isspace c \<longleftrightarrow> code c = 32 \<or> (9 \<le> code c \<and> code c \<le> 13)"

definition isdigit :: "char \<Rightarrow> bool" where
  "isdigit c \<longleftrightarrow> 48 \<le> code c \<and> code c \<le> 57"

definition isupper :: "char \<Rightarrow> bool" where
  "isupper c \<longleftrightarrow> 65 \<le> code c \<and> code c \<le> 90"

definition islower :: "char \<Rightarrow> bool" where
  "islower c \<longleftrightarrow> 97 \<le> code c \<and> code c \<le> 122"

definition isalnum :: "char \<Rightarrow> bool" where
  "isalnum c \<longleftrightarrow> isdigit c \<or> isupper c \<or> islower c"

definition isascii :: "char \<Rightarrow> bool" where
  "isascii c \<longleftrightarrow> code c < 128"

definition tolower :: "char \<Rightarrow> char" where
  "tolower c = (if isupper c then char_of (code c + 32) else c)"

definition digit_char :: "nat \<Rightarrow> char" where
  "digit_char n = char_of (48 + n)"

text \<open>The value of a digit in a base of at most 36; 99 for a character that is no digit.\<close>

definition digit_val :: "char \<Rightarrow> nat" where
  "digit_val c = (if isdigit c then code c - 48 else if islower c then code c - 87
     else if isupper c then code c - 55 else 99)"

lemma code_char_of [simp]: "n < 256 \<Longrightarrow> code (char_of n) = n"
  by (simp add: code_def of_char_of)

lemma code_lt [simp]: "code c < 256"
  by (simp add: code_def)

lemma code_inj: "code c = code d \<longleftrightarrow> c = d"
  by (simp add: code_def)

lemma isdigit_digit_char [simp]: "n < 10 \<Longrightarrow> isdigit (digit_char n)"
  by (simp add: isdigit_def digit_char_def)

lemma digit_val_digit_char [simp]: "n < 10 \<Longrightarrow> digit_val (digit_char n) = n"
  by (simp add: digit_val_def isdigit_def digit_char_def)

lemma isupper_tolower [simp]: "\<not> isupper (tolower c)"
  by (simp add: tolower_def isupper_def)

lemma tolower_idem [simp]: "tolower (tolower c) = tolower c"
  by (simp add: tolower_def [of "tolower c"])

lemma tolower_code:
  "code (tolower c) = (if 65 \<le> code c \<and> code c \<le> 90 then code c + 32 else code c)"
  by (simp add: tolower_def isupper_def)

lemma char_of_eq: "char_of n = c \<longleftrightarrow> n mod 256 = code c" "c = char_of n \<longleftrightarrow> n mod 256 = code c"
  by (metis code_def char_of_char of_char_of char_of_mod_256 of_char_mod_256)+

lemmas char_eval = isspace_def isdigit_def isupper_def islower_def isalnum_def isascii_def
  tolower_def digit_val_def char_of_eq code_def

subsection \<open>Pointers into a buffer\<close>

text \<open>\<open>*s\<close>; a pointer at the end of its buffer reads the NUL that ends it.\<close>

definition at0 :: "string \<Rightarrow> char" where
  "at0 s = (case s of [] \<Rightarrow> NUL | c # _ \<Rightarrow> c)"

text \<open>The C string at a pointer: the bytes before the first NUL.\<close>

definition cstr :: "string \<Rightarrow> string" where
  "cstr s = takeWhile (\<lambda>c. c \<noteq> NUL) s"

definition no_nul :: "string \<Rightarrow> bool" where
  "no_nul s \<longleftrightarrow> NUL \<notin> set s"

text \<open>\<open>strncmp(s, t, n) == 0\<close>, \<open>strcmp(s, t) == 0\<close> and their caseless versions.\<close>

definition strncmp_eq :: "string \<Rightarrow> string \<Rightarrow> nat \<Rightarrow> bool" where
  "strncmp_eq s t n \<longleftrightarrow> take n (cstr s) = take n (cstr t)"

definition strncasecmp_eq :: "string \<Rightarrow> string \<Rightarrow> nat \<Rightarrow> bool" where
  "strncasecmp_eq s t n \<longleftrightarrow> take n (map tolower (cstr s)) = take n (map tolower (cstr t))"

definition strcmp_eq :: "string \<Rightarrow> string \<Rightarrow> bool" where
  "strcmp_eq s t \<longleftrightarrow> cstr s = cstr t"

definition strcasecmp_eq :: "string \<Rightarrow> string \<Rightarrow> bool" where
  "strcasecmp_eq s t \<longleftrightarrow> map tolower (cstr s) = map tolower (cstr t)"

lemma at0_Nil [simp]: "at0 [] = NUL"
  and at0_Cons [simp]: "at0 (c # s) = c"
  by (simp_all add: at0_def)

lemma at0_append [simp]: "s \<noteq> [] \<Longrightarrow> at0 (s @ t) = at0 s"
  by (cases s) simp_all

lemma cstr_Nil [simp]: "cstr [] = []"
  and cstr_NUL [simp]: "cstr (NUL # s) = []"
  and cstr_Cons [simp]: "c \<noteq> NUL \<Longrightarrow> cstr (c # s) = c # cstr s"
  by (simp_all add: cstr_def)

lemma no_nul_cstr [simp]: "no_nul (cstr s)"
  by (auto simp: no_nul_def cstr_def dest: set_takeWhileD)

lemma cstr_id [simp]: "no_nul s \<Longrightarrow> cstr s = s"
  by (auto simp: no_nul_def cstr_def takeWhile_eq_all_conv)

lemma no_nul_simps [simp]:
  "no_nul []" "no_nul (c # s) \<longleftrightarrow> c \<noteq> NUL \<and> no_nul s" "no_nul (s @ t) \<longleftrightarrow> no_nul s \<and> no_nul t"
  by (auto simp: no_nul_def)

lemma cstr_append [simp]: "no_nul s \<Longrightarrow> cstr (s @ t) = s @ cstr t"
  by (auto simp: no_nul_def cstr_def takeWhile_append)

lemma length_dropWhile [ptr_le]: "length (dropWhile P s) \<le> length s"
  by (rule length_dropWhile_le)

lemma length_tl [ptr_le]: "length (tl s) \<le> length s"
  by simp

lemma takeWhile_stop [simp]:
  "\<forall>c\<in>set a. P c \<Longrightarrow> \<not> P c \<Longrightarrow> takeWhile P (a @ c # b) = a"
  by (simp add: takeWhile_append2)

lemma dropWhile_stop [simp]:
  "\<forall>c\<in>set a. P c \<Longrightarrow> \<not> P c \<Longrightarrow> dropWhile P (a @ c # b) = c # b"
  by (simp add: dropWhile_append2)

lemma takeWhile_all [simp]: "\<forall>c\<in>set a. P c \<Longrightarrow> takeWhile P a = a"
  by (simp add: takeWhile_eq_all_conv)

lemma at0_dropWhile:
  "\<not> P NUL \<Longrightarrow> \<not> P (at0 (dropWhile P s))"
  by (induction s) auto

subsection \<open>Reading a file by lines\<close>

text \<open>\<open>fgets(buf, n, f)\<close>: the rest of the file up to and with the next line feed, but at most
  \<open>n - 1\<close> bytes; \<open>None\<close> at the end of the file.\<close>

definition fgets :: "nat \<Rightarrow> string \<Rightarrow> (string \<times> string) option" where
  "fgets n f = (if f = [] then None
     else let k = min (n - 1) (Suc (length (takeWhile (\<lambda>c. c \<noteq> LF) f)))
          in Some (take k f, drop k f))"

lemma fgets_length: "fgets n f = Some (l, r) \<Longrightarrow> 2 \<le> n \<Longrightarrow> length r < length f"
  by (cases f) (auto simp: fgets_def Let_def split: if_splits)

lemma fgets_line:
  assumes "LF \<notin> set a" "length a + 1 < n"
  shows "fgets n (a @ LF # r) = Some (a @ [LF], r)"
proof -
  have "takeWhile (\<lambda>c. c \<noteq> LF) (a @ LF # r) = a" using assms(1) by (intro takeWhile_stop) auto
  with assms(2) show ?thesis by (simp add: fgets_def)
qed

subsection \<open>Strings of Qt: \<open>lower\<close>, \<open>find\<close>, \<open>right\<close>, \<open>stripWhiteSpace\<close>\<close>

definition lower :: "string \<Rightarrow> string" where
  "lower s = map tolower s"

text \<open>\<open>s.find(c)\<close> and \<open>s.find(c, i)\<close>; \<open>None\<close> for the result \<open>-1\<close>.\<close>

fun find_char :: "char \<Rightarrow> string \<Rightarrow> nat option" where
  "find_char c [] = None"
| "find_char c (x # s) = (if x = c then Some 0 else map_option Suc (find_char c s))"

definition find_char_from :: "char \<Rightarrow> nat \<Rightarrow> string \<Rightarrow> nat option" where
  "find_char_from c i s = map_option (\<lambda>k. k + i) (find_char c (drop i s))"

text \<open>\<open>s.find(t)\<close>: the first position where \<open>t\<close> occurs.\<close>

fun is_prefix :: "string \<Rightarrow> string \<Rightarrow> bool" where
  "is_prefix [] s = True"
| "is_prefix (x # xs) [] = False"
| "is_prefix (x # xs) (y # ys) = (x = y \<and> is_prefix xs ys)"

fun find_str :: "string \<Rightarrow> string \<Rightarrow> nat option" where
  "find_str t [] = (if t = [] then Some 0 else None)"
| "find_str t (x # s) = (if is_prefix t (x # s) then Some 0 else map_option Suc (find_str t s))"

text \<open>\<open>s.findRev(t)\<close>: the last position where \<open>t\<close> occurs.\<close>

fun find_rev :: "string \<Rightarrow> string \<Rightarrow> nat option" where
  "find_rev t [] = (if t = [] then Some 0 else None)"
| "find_rev t (x # s) = (case find_rev t s of Some k \<Rightarrow> Some (Suc k)
     | None \<Rightarrow> if is_prefix t (x # s) then Some 0 else None)"

definition right_str :: "nat \<Rightarrow> string \<Rightarrow> string" where
  "right_str n s = drop (length s - n) s"

lemma is_prefix_iff: "is_prefix t s \<longleftrightarrow> (\<exists>u. s = t @ u)"
  by (induction t s rule: is_prefix.induct) auto

lemma find_str_0: "find_str t s = Some 0 \<longleftrightarrow> is_prefix t s"
  by (cases s; cases t) auto

lemma find_char_None: "find_char c s = None \<longleftrightarrow> c \<notin> set s"
  by (induction s) auto

lemma find_char_Some:
  "find_char c s = Some i \<Longrightarrow> i < length s \<and> s ! i = c \<and> c \<notin> set (take i s)"
proof (induction s arbitrary: i)
  case (Cons x s)
  then show ?case by (cases i) (auto split: if_splits)
qed simp

lemma find_char_append_notin [simp]:
  "c \<notin> set a \<Longrightarrow> find_char c (a @ c # b) = Some (length a)"
  by (induction a) auto

lemma find_char_takeWhile:
  "find_char c s = Some i \<Longrightarrow> i = length (takeWhile (\<lambda>x. x \<noteq> c) s)"
  by (induction s arbitrary: i) (auto split: if_splits)

lemma length_lower [simp]: "length (lower s) = length s"
  by (simp add: lower_def)

lemma lower_idem [simp]: "lower (lower s) = lower s"
  by (simp add: lower_def)

lemma no_upper_lower: "c \<in> set (lower s) \<Longrightarrow> \<not> isupper c"
  by (auto simp: lower_def)

subsection \<open>Early returns\<close>

text \<open>A test of the code that returns early when it fails, in the option monad.\<close>

definition ensure :: "bool \<Rightarrow> unit option" where
  "ensure b = (if b then Some () else None)"

lemma ensure_simps [simp]: "ensure True = Some ()" "ensure False = None"
  by (simp_all add: ensure_def)

lemma ensure_Some [simp]: "ensure b = Some u \<longleftrightarrow> b"
  by (simp add: ensure_def)

lemma ensure_bind_Some [simp]: "Option.bind (ensure b) f = Some x \<longleftrightarrow> b \<and> f () = Some x"
  by (simp add: ensure_def)

subsection \<open>Numbers of the C library\<close>

text \<open>
  \<open>int\<close> has 32 bits and \<open>long\<close> 64 (the LP64 platforms); a conversion to \<open>int\<close> keeps the
  low 32 bits.
\<close>

definition to_int32 :: "int \<Rightarrow> int" where
  "to_int32 x = (x + 2 ^ 31) mod 2 ^ 32 - 2 ^ 31"

definition LONG_MAX :: int where "LONG_MAX = 2 ^ 63 - 1"
definition LONG_MIN :: int where "LONG_MIN = - (2 ^ 63)"
definition ULONG_MAX :: int where "ULONG_MAX = 2 ^ 64 - 1"

fun dec_of_nat :: "nat \<Rightarrow> string" where
  "dec_of_nat n = (if n < 10 then [digit_char n] else dec_of_nat (n div 10) @ [digit_char (n mod 10)])"

declare dec_of_nat.simps [simp del]

definition dec_of_int :: "int \<Rightarrow> string" where
  "dec_of_int i = (if i < 0 then CHR ''-'' # dec_of_nat (nat (- i)) else dec_of_nat (nat i))"

text \<open>\<open>%-ns\<close> and \<open>%nd\<close> of \<open>printf\<close>: the padding to a minimal field width.\<close>

definition pad_right :: "nat \<Rightarrow> string \<Rightarrow> string" where
  "pad_right n s = s @ replicate (n - length s) SP"

definition pad_left :: "nat \<Rightarrow> string \<Rightarrow> string" where
  "pad_left n s = replicate (n - length s) SP @ s"

definition digits_to_nat :: "nat \<Rightarrow> string \<Rightarrow> nat" where
  "digits_to_nat b ds = foldl (\<lambda>a c. a * b + digit_val c) 0 ds"

text \<open>
  What \<open>strtol\<close> and \<open>strtoul\<close> read: white space, a sign, in base 0 a prefix \<open>0x\<close> or \<open>0\<close>,
  then digits. The result is the sign, the magnitude and the pointer behind the digits, or
  \<open>None\<close> if there is no digit.
\<close>

definition strto_scan :: "nat \<Rightarrow> string \<Rightarrow> (bool \<times> nat \<times> string) option" where
  "strto_scan base s =
     (let s1 = dropWhile isspace s;
          neg = (at0 s1 = CHR ''-'');
          s2 = (if at0 s1 = CHR ''-'' \<or> at0 s1 = CHR ''+'' then tl s1 else s1);
          hex = (base = 0 \<and> at0 s2 = CHR ''0'' \<and> tolower (at0 (tl s2)) = CHR ''x''
                 \<and> digit_val (at0 (tl (tl s2))) < 16);
          b = (if base \<noteq> 0 then base else if hex then 16 else if at0 s2 = CHR ''0'' then 8 else 10);
          s3 = (if hex then tl (tl s2) else s2);
          ds = takeWhile (\<lambda>c. digit_val c < b) s3
      in if ds = [] then None
         else Some (neg, digits_to_nat b ds, dropWhile (\<lambda>c. digit_val c < b) s3))"

definition strtol :: "nat \<Rightarrow> string \<Rightarrow> int \<times> string" where
  "strtol base s = (case strto_scan base s of None \<Rightarrow> (0, s)
     | Some (neg, v, r) \<Rightarrow>
         (if neg then max LONG_MIN (- int v) else min LONG_MAX (int v), r))"

definition strtoul :: "nat \<Rightarrow> string \<Rightarrow> int \<times> string" where
  "strtoul base s = (case strto_scan base s of None \<Rightarrow> (0, s)
     | Some (neg, v, r) \<Rightarrow>
         (if int v > ULONG_MAX then ULONG_MAX
          else if neg then (- int v) mod 2 ^ 64 else int v, r))"

definition atol :: "string \<Rightarrow> int" where
  "atol s = fst (strtol 10 s)"

definition atoi :: "string \<Rightarrow> int" where
  "atoi s = to_int32 (atol s)"

lemma to_int32_id [simp]: "- (2 ^ 31) \<le> x \<Longrightarrow> x < 2 ^ 31 \<Longrightarrow> to_int32 x = x"
  by (simp add: to_int32_def)

lemma to_int32_range: "- (2 ^ 31) \<le> to_int32 x \<and> to_int32 x < 2 ^ 31"
  by (simp add: to_int32_def)

lemma dec_of_nat_digits: "\<forall>c\<in>set (dec_of_nat n). isdigit c"
proof (induction n rule: dec_of_nat.induct)
  case (1 n)
  then show ?case by (subst dec_of_nat.simps) auto
qed

lemma dec_of_nat_nonempty [simp]: "dec_of_nat n \<noteq> []"
  by (subst dec_of_nat.simps) simp

lemma digits_to_nat_snoc [simp]: "digits_to_nat b (ds @ [c]) = digits_to_nat b ds * b + digit_val c"
  by (simp add: digits_to_nat_def)

lemma digits_to_nat_dec [simp]: "digits_to_nat 10 (dec_of_nat n) = n"
proof (induction n rule: dec_of_nat.induct)
  case (1 n)
  show ?case
  proof (cases "n < 10")
    case True
    then show ?thesis by (subst dec_of_nat.simps) (simp add: digits_to_nat_def)
  next
    case False
    with 1 have "digits_to_nat 10 (dec_of_nat n) = n div 10 * 10 + n mod 10"
      by (subst dec_of_nat.simps) simp
    then show ?thesis by simp
  qed
qed

lemma isdigit_digit_val: "isdigit c \<longleftrightarrow> digit_val c < 10"
  by (auto simp: digit_val_def isdigit_def islower_def isupper_def)

lemma isdigit_not_space: "isdigit c \<Longrightarrow> \<not> isspace c"
  by (auto simp: isdigit_def isspace_def)

lemma isdigit_neq: "isdigit c \<Longrightarrow> c \<noteq> CHR ''-'' \<and> c \<noteq> CHR ''+'' \<and> c \<noteq> NUL"
  by (auto simp: isdigit_def code_def)

lemma strto_scan_digits:
  assumes ds: "\<forall>c\<in>set ds. isdigit c" "ds \<noteq> []" and r: "\<not> isdigit (at0 r)"
  shows "strto_scan 10 (ds @ r) = Some (False, digits_to_nat 10 ds, r)"
proof -
  have ds': "\<forall>c\<in>set ds. digit_val c < 10"
    using ds by (simp add: isdigit_digit_val)
  obtain d e where de: "ds = d # e" using ds by (cases ds) auto
  with ds have d: "isdigit d" by simp
  have tw: "takeWhile (\<lambda>c. digit_val c < 10) (ds @ r) = ds
      \<and> dropWhile (\<lambda>c. digit_val c < 10) (ds @ r) = r"
    using ds' r by (cases r) (auto simp: takeWhile_append2 dropWhile_append2 isdigit_digit_val)
  have sp: "dropWhile isspace (ds @ r) = ds @ r"
    using de d by (simp add: isdigit_not_space)
  have hd: "at0 (ds @ r) = d" using de by simp
  show ?thesis
    using tw isdigit_neq [OF d] ds unfolding strto_scan_def sp hd Let_def by simp
qed

lemma strto_scan_space [simp]: "isspace c \<Longrightarrow> strto_scan b (c # s) = strto_scan b s"
  by (simp add: strto_scan_def)

lemma strto_scan_dec:
  "\<not> isdigit (at0 r) \<Longrightarrow> strto_scan 10 (dec_of_nat n @ r) = Some (False, n, r)"
  by (simp add: strto_scan_digits dec_of_nat_digits)

lemma strtoul_dec:
  "\<not> isdigit (at0 r) \<Longrightarrow> int n \<le> ULONG_MAX \<Longrightarrow> strtoul 10 (dec_of_nat n @ r) = (int n, r)"
  by (simp add: strtoul_def strto_scan_dec)

lemma strtol_dec:
  "\<not> isdigit (at0 r) \<Longrightarrow> int n \<le> LONG_MAX \<Longrightarrow> strtol 10 (dec_of_nat n @ r) = (int n, r)"
  by (simp add: strtol_def strto_scan_dec)

lemma strto_scan_length:
  assumes "strto_scan b s = Some (neg, v, r)"
  shows "length r \<le> length s"
proof -
  define s1 where "s1 = dropWhile isspace s"
  define s2 where "s2 = (if at0 s1 = CHR ''-'' \<or> at0 s1 = CHR ''+'' then tl s1 else s1)"
  obtain P h where r: "r = dropWhile P (if h then tl (tl s2) else s2)"
    using assms unfolding strto_scan_def Let_def s1_def [symmetric] s2_def [symmetric]
    by (metis (no_types, lifting) option.distinct(1) option.inject prod.inject)
  have "length s1 \<le> length s" by (simp add: s1_def length_dropWhile)
  moreover have "length s2 \<le> length s1" by (simp add: s2_def)
  moreover have "length (if h then tl (tl s2) else s2) \<le> length s2" by simp
  moreover have "length r \<le> length (if h then tl (tl s2) else s2)"
    unfolding r by (rule length_dropWhile)
  ultimately show ?thesis by linarith
qed

lemma strtol_length [ptr_le]: "length (snd (strtol b s)) \<le> length s"
  by (auto simp: strtol_def strto_scan_length split: option.splits)

subsection \<open>\<open>QList::inSort\<close> and \<open>QStrList\<close>\<close>

text \<open>
  \<open>strcmp\<close> as a comparison (the sign is what the callers use); the order of strings is that of
  their bytes. \<open>inSort\<close> is Qt's: the item goes where the comparison says, after the items that
  are smaller. Where items compare equal Qt's documentation does not fix the place, so the code
  that calls \<open>inSort\<close> on cookies takes it as a parameter with the laws of the locale below.
\<close>

definition strcmp :: "string \<Rightarrow> string \<Rightarrow> int" where
  "strcmp s t = (if s < t then -1 else if s = t then 0 else 1)"

fun inSort :: "('a \<Rightarrow> 'a \<Rightarrow> int) \<Rightarrow> 'a \<Rightarrow> 'a list \<Rightarrow> 'a list" where
  "inSort cmp x [] = [x]"
| "inSort cmp x (y # ys) = (if cmp y x < 0 then y # inSort cmp x ys else x # y # ys)"

locale qlist_insort =
  fixes cmp :: "'a \<Rightarrow> 'a \<Rightarrow> int" and ins :: "'a \<Rightarrow> 'a list \<Rightarrow> 'a list"
  assumes ins_split: "\<exists>as bs. xs = as @ bs \<and> ins x xs = as @ x # bs"
    and ins_sorted: "sorted_wrt (\<lambda>a b. cmp a b \<le> 0) xs \<Longrightarrow> sorted_wrt (\<lambda>a b. cmp a b \<le> 0) (ins x xs)"
begin

lemma ins_mset: "mset (ins x xs) = add_mset x (mset xs)"
  using ins_split [of xs x] by auto

lemma ins_set [simp]: "set (ins x xs) = insert x (set xs)"
  using ins_split [of xs x] by auto

lemma ins_filter: "\<not> P x \<Longrightarrow> filter P (ins x xs) = filter P xs"
  using ins_split [of xs x] by auto

lemma ins_distinct: "distinct (map f xs) \<Longrightarrow> f x \<notin> f ` set xs \<Longrightarrow> distinct (map f (ins x xs))"
  using ins_split [of xs x] by auto

lemma ins_nonempty [simp]: "ins x xs \<noteq> []"
  using ins_split [of xs x] by auto

end

text \<open>A comparison by a key: then the linear search of \<open>inSort\<close> keeps the laws.\<close>

locale key_compare =
  fixes cmp :: "'a \<Rightarrow> 'a \<Rightarrow> int" and key :: "'a \<Rightarrow> 'k::linorder"
  assumes cmp_less: "cmp a b < 0 \<longleftrightarrow> key a < key b"
    and cmp_le: "cmp a b \<le> 0 \<longleftrightarrow> key a \<le> key b"
begin

lemma inSort_split: "\<exists>as bs. xs = as @ bs \<and> inSort cmp x xs = as @ x # bs"
proof (induction xs)
  case (Cons y ys)
  then obtain as bs where "ys = as @ bs" "inSort cmp x ys = as @ x # bs" by blast
  then show ?case
    by (cases "cmp y x < 0") (auto intro: exI [of _ "y # as"] exI [of _ "[]"])
qed simp

lemma inSort_set: "set (inSort cmp x xs) = insert x (set xs)"
  using inSort_split [of xs x] by auto

lemma inSort_sorted:
  "sorted_wrt (\<lambda>a b. cmp a b \<le> 0) xs \<Longrightarrow> sorted_wrt (\<lambda>a b. cmp a b \<le> 0) (inSort cmp x xs)"
  by (induction xs) (auto simp: inSort_set cmp_le cmp_less)

end

sublocale key_compare \<subseteq> sorted_list: qlist_insort cmp "inSort cmp"
  by unfold_locales (rule inSort_split, rule inSort_sorted)

interpretation strcmp_order: key_compare strcmp "\<lambda>s. s"
  by unfold_locales (auto simp: strcmp_def)

lemma inSort_strcmp_sorted:
  assumes "sorted xs"
  shows "sorted (inSort strcmp x xs)"
  using strcmp_order.inSort_sorted [of xs x] assms by (simp add: strcmp_order.cmp_le)

end
