(* ===== verification/CookieText.thy ===== *)
theory CookieText
  imports Prelude
begin

section \<open>Cookies and the text they are parsed from\<close>

text \<open>
  \<open>kfm/kcookiejar.cpp\<close>, the part that knows no jar: the cookie itself, the header line that
  sends it back, \<open>parseNameValue\<close>, \<open>stripDomain\<close>, \<open>parseExpire\<close>, \<open>extractDomain\<close> and
  \<open>makeCookies\<close>, which turns the \<open>Set-Cookie\<close> lines of a response into cookies.

  What the code takes from elsewhere is a field of \<open>cookie_env\<close>: \<open>KURL\<close> (kdelibs), the
  number parser \<open>QString::toInt\<close> (Qt), \<open>mktime\<close>, the offset \<open>timezone\<close> and the clock.
\<close>

subsection \<open>\<open>KCookie\<close>\<close>

record KCookie =
  c_host :: string
  c_domain :: string
  c_path :: string
  c_name :: string
  c_value :: string
  expireDate :: int
  protocolVersion :: int

definition mkCookie :: "string \<Rightarrow> string \<Rightarrow> string \<Rightarrow> string \<Rightarrow> string \<Rightarrow> int \<Rightarrow> int \<Rightarrow> KCookie" where
  "mkCookie h d p n v e pv = \<lparr>c_host = h, c_domain = d, c_path = p, c_name = n, c_value = v,
     expireDate = e, protocolVersion = pv\<rparr>"

definition isExpired :: "KCookie \<Rightarrow> int \<Rightarrow> bool" where
  "isExpired c currentDate \<longleftrightarrow> expireDate c \<noteq> 0 \<and> expireDate c < currentDate"

definition getCookieStr :: "KCookie \<Rightarrow> string" where
  "getCookieStr c =
     (if protocolVersion c \<noteq> 0 then
        ''$Version='' @ [DQ] @ dec_of_int (protocolVersion c) @ [DQ] @ ''; ''
        @ c_name c @ ''='' @ [DQ] @ c_value c @ [DQ]
        @ (if c_path c \<noteq> [] then ''; $Path='' @ [DQ] @ c_path c @ [DQ] else [])
        @ (if c_domain c \<noteq> [] then ''; $Domain='' @ [DQ] @ c_domain c @ [DQ] else [])
      else c_name c @ ''='' @ c_value c)"

definition compareItems :: "KCookie \<Rightarrow> KCookie \<Rightarrow> int" where
  "compareItems item1 item2 =
     (let pathLen1 = length (c_path item1); pathLen2 = length (c_path item2)
      in if pathLen1 > pathLen2 then 1 else if pathLen1 < pathLen2 then -1 else 0)"

subsection \<open>\<open>parseNameValue\<close>\<close>

definition is_blank :: "char \<Rightarrow> bool" where
  "is_blank c \<longleftrightarrow> c = SP \<or> c = TAB"

definition pair_end :: "char \<Rightarrow> bool" where
  "pair_end c \<longleftrightarrow> c = NUL \<or> c = CHR '';'' \<or> c = LF"

definition line_end :: "char \<Rightarrow> bool" where
  "line_end c \<longleftrightarrow> c = NUL \<or> c = LF"

text \<open>
  The result is the pointer behind what was parsed, the name and the value. The first loop of
  the code also tests for the end of the pair, but only where the character is a blank, so
  that test never succeeds; the loops that follow stop at the end of the pair.
\<close>

definition parseValue :: "string \<Rightarrow> string \<times> string" where
  "parseValue s =
     (if at0 s = DQ then
        (let t = tl s; v = takeWhile (\<lambda>c. c \<noteq> DQ \<and> \<not> line_end c) t;
             e = dropWhile (\<lambda>c. c \<noteq> DQ \<and> \<not> line_end c) t
         in if at0 e \<noteq> DQ then (e, v)
            else (dropWhile (\<lambda>c. \<not> pair_end c) (tl e), v))
      else (dropWhile (\<lambda>c. \<not> pair_end c) s, takeWhile (\<lambda>c. \<not> pair_end c) s))"

definition parseNameValue :: "string \<Rightarrow> string \<times> string \<times> string" where
  "parseNameValue header =
     (let s1 = dropWhile is_blank header;
          in_name = (\<lambda>c. c \<noteq> CHR ''='' \<and> \<not> is_blank c \<and> \<not> pair_end c);
          name = takeWhile in_name s1;
          s2 = dropWhile in_name s1
      in if pair_end (at0 s2) then (s2, name, [])
         else let s3 = dropWhile (\<lambda>c. c \<noteq> CHR ''='' \<and> \<not> pair_end c) s2
         in if pair_end (at0 s3) then (s3, name, [])
            else let s4 = dropWhile is_blank (tl s3); (e, v) = parseValue s4
            in (e, name, v))"

lemma compareItems_order: "key_compare compareItems (\<lambda>c. length (c_path c))"
  by unfold_locales (auto simp: compareItems_def Let_def)

interpretation cookie_order: key_compare compareItems "\<lambda>c. length (c_path c)"
  by (rule compareItems_order)

lemma pair_end_simps [simp]:
  "pair_end NUL" "pair_end (CHR '';'')" "pair_end LF" "\<not> pair_end (CHR ''='')" "\<not> pair_end DQ"
  "\<not> pair_end SP" "line_end NUL" "line_end LF" "\<not> line_end DQ" "\<not> is_blank NUL"
  "\<not> is_blank (CHR ''='')" "\<not> is_blank (CHR '';'')" "is_blank SP" "\<not> is_blank DQ" "\<not> is_blank LF"
  by (simp_all add: pair_end_def line_end_def is_blank_def)

lemma at0_dropWhile_stop:
  "P NUL \<Longrightarrow> P (at0 (dropWhile (\<lambda>c. \<not> P c) s))"
  by (induction s) auto

lemma parseValue_end: "pair_end (at0 (fst (parseValue s)))"
proof -
  have "line_end (at0 (dropWhile (\<lambda>c. c \<noteq> DQ \<and> \<not> line_end c) t))"
    if "at0 (dropWhile (\<lambda>c. c \<noteq> DQ \<and> \<not> line_end c) t) \<noteq> DQ" for t
    using that by (induction t) (auto split: if_splits)
  then show ?thesis
    by (auto simp: parseValue_def Let_def at0_dropWhile_stop) (auto simp: line_end_def pair_end_def)
qed

lemma parseValue_length: "length (fst (parseValue s)) \<le> length s"
proof -
  have "length (dropWhile P (tl (dropWhile Q (tl s)))) \<le> length s"
    and "length (dropWhile P (tl s)) \<le> length s" for P Q
    by (meson le_trans length_dropWhile length_tl)+
  then show ?thesis
    by (auto simp: parseValue_def Let_def length_dropWhile)
qed

text \<open>Where the parsed part ends: the pointer that \<open>parseNameValue\<close> returns.\<close>

lemma parseNameValue_end: "pair_end (at0 (fst (parseNameValue s)))"
  by (auto simp: parseNameValue_def Let_def split_beta parseValue_end)

lemma parseNameValue_length [ptr_le]: "length (fst (parseNameValue s)) \<le> length s"
proof -
  have "length (dropWhile P (dropWhile Q s)) \<le> length s" for P Q
    by (meson le_trans length_dropWhile)
  moreover have "length (dropWhile R (dropWhile P (dropWhile Q s))) \<le> length s" for P Q R
    by (meson le_trans length_dropWhile)
  moreover have "length (fst (parseValue (dropWhile W (tl (dropWhile R (dropWhile P (dropWhile Q s)))))))
      \<le> length s" for P Q R W
    by (meson le_trans length_dropWhile length_tl parseValue_length)
  ultimately show ?thesis
    by (simp add: parseNameValue_def Let_def split_beta)
qed

lemma parseNameValue_shorter: "(s', r) = parseNameValue s \<Longrightarrow> length s' \<le> length s"
  using parseNameValue_length [of s] by (metis fst_conv)

subsection \<open>\<open>stripDomain\<close>\<close>

definition strip_dots :: "string \<Rightarrow> string" where
  "strip_dots s = rev (dropWhile (\<lambda>c. c = CHR ''.'') (rev s))"

definition stripDomain :: "string \<Rightarrow> string" where
  "stripDomain fqdn =
     (let d = strip_dots fqdn
      in case find_char CHR ''.'' d of
           None \<Rightarrow> d
         | Some dot_pos \<Rightarrow>
             (let r = drop dot_pos d
              in if find_char_from CHR ''.'' 1 r = None then CHR ''.'' # fqdn else r))"

lemma stripDomain_cases:
  "stripDomain h = strip_dots h \<and> CHR ''.'' \<notin> set (strip_dots h)
   \<or> stripDomain h = CHR ''.'' # h \<and> CHR ''.'' \<in> set h
   \<or> (\<exists>a b. strip_dots h = a @ stripDomain h \<and> stripDomain h = CHR ''.'' # b \<and> CHR ''.'' \<in> set b)"
proof (cases "find_char CHR ''.'' (strip_dots h)")
  case None
  then have "stripDomain h = strip_dots h" by (simp add: stripDomain_def)
  with None show ?thesis by (simp add: find_char_None)
next
  case (Some p)
  then have p: "p < length (strip_dots h)" "strip_dots h ! p = CHR ''.''"
    using find_char_Some by blast+
  then have r: "drop p (strip_dots h) = CHR ''.'' # drop (Suc p) (strip_dots h)"
    by (metis Cons_nth_drop_Suc)
  have dh: "CHR ''.'' \<in> set h"
    using p by (metis nth_mem set_dropWhileD set_rev strip_dots_def)
  show ?thesis
  proof (cases "find_char_from CHR ''.'' 1 (drop p (strip_dots h)) = None")
    case True
    with Some dh show ?thesis by (simp add: stripDomain_def Let_def)
  next
    case False
    then have "CHR ''.'' \<in> set (drop (Suc p) (strip_dots h))"
      by (auto simp: find_char_from_def find_char_None)
    moreover have "stripDomain h = drop p (strip_dots h)"
      using False Some by (auto simp: stripDomain_def Let_def)
    ultimately show ?thesis using r append_take_drop_id [of p "strip_dots h"] by metis
  qed
qed

subsection \<open>\<open>parseExpire\<close>\<close>

record tm =
  tm_sec :: int
  tm_min :: int
  tm_hour :: int
  tm_mday :: int
  tm_mon :: int
  tm_year :: int

definition haystack :: string where
  "haystack = ''janfebmaraprmayjunjulaugsepoctnovdec''"

text \<open>
  The scan of the date. Every \<open>ensure\<close> is a test of the code that returns the invalid date 0;
  a year of two digits is moved to 1950 to 2049.
\<close>

definition fix_year :: "int \<Rightarrow> int" where
  "fix_year y0 = (let y1 = (if 0 \<le> y0 \<and> y0 < 50 then y0 + 2000 else y0)
                 in if 50 \<le> y1 \<and> y1 < 100 then y1 + 1900 else y1)"

definition parse_day_month :: "string \<Rightarrow> (int \<times> int \<times> string) option" where
  "parse_day_month dateStr = do {
     let p0 = dropWhile (\<lambda>c. c \<noteq> NUL \<and> c \<noteq> SP) dateStr;
     ensure (at0 p0 \<noteq> NUL);
     let (d, p1) = strtol 10 p0;
     let day = to_int32 d;
     ensure (1 \<le> day \<and> day \<le> 31);
     ensure (at0 p1 \<noteq> NUL);
     ensure (at0 p1 = CHR ''-'');
     let p2 = tl p1;
     ensure (at0 p2 \<noteq> NUL \<and> at0 p2 \<noteq> CHR ''-'');
     ensure (at0 (tl p2) \<noteq> NUL \<and> at0 (tl p2) \<noteq> CHR ''-'');
     ensure (at0 (tl (tl p2)) \<noteq> NUL \<and> at0 (tl (tl p2)) \<noteq> CHR ''-'');
     let monthStr = map tolower (take 3 p2);
     pos \<leftarrow> find_str monthStr haystack;
     let month = int (pos div 3);
     ensure (0 \<le> month \<and> month \<le> 11);
     Some (day, month, drop 3 p2)
   }"

definition parse_clock :: "string \<Rightarrow> (int \<times> int \<times> int) option" where
  "parse_clock p = do {
     let (h, p1) = strtol 10 p;
     let hour = to_int32 h;
     ensure (0 \<le> hour \<and> hour \<le> 23);
     ensure (at0 p1 \<noteq> NUL);
     ensure (at0 p1 = CHR '':'');
     let (m, p2) = strtol 10 (tl p1);
     let minute = to_int32 m;
     ensure (0 \<le> minute \<and> minute \<le> 59);
     ensure (at0 p2 \<noteq> NUL);
     ensure (at0 p2 = CHR '':'');
     let (s, p3) = strtol 10 (tl p2);
     let second = to_int32 s;
     ensure (0 \<le> second \<and> second \<le> 59);
     Some (hour, minute, second)
   }"

definition parse_date :: "string \<Rightarrow> tm option" where
  "parse_date dateStr = do {
     (day, month, p0) \<leftarrow> parse_day_month dateStr;
     let p1 = dropWhile (\<lambda>c. c \<noteq> NUL \<and> c \<noteq> CHR ''-'') p0;
     ensure (at0 p1 \<noteq> NUL);
     ensure (at0 p1 = CHR ''-'');
     let (y, p2) = strtol 10 (tl p1);
     let year = fix_year (to_int32 y);
     ensure (1900 \<le> year \<and> year \<le> 2500);
     ensure (at0 p2 \<noteq> NUL);
     ensure (at0 p2 = SP);
     (hour, minute, second) \<leftarrow> parse_clock (tl p2);
     Some \<lparr>tm_sec = second, tm_min = minute, tm_hour = hour, tm_mday = day,
           tm_mon = month, tm_year = year - 1900\<rparr>
   }"

record kurl =
  url_protocol :: string
  url_host :: string
  url_path :: string

record cookie_env =
  parse_url :: "string \<Rightarrow> kurl"
  toInt :: "string \<Rightarrow> int"
  mktime :: "tm \<Rightarrow> int"
  timezone :: int
  time_now :: int

definition parseExpire :: "cookie_env \<Rightarrow> string \<Rightarrow> int" where
  "parseExpire E dateStr = (case parse_date dateStr of None \<Rightarrow> 0
     | Some tm \<Rightarrow> mktime E tm - timezone E)"

lemma parse_day_month_range:
  "parse_day_month s = Some (d, m, r) \<Longrightarrow> 1 \<le> d \<and> d \<le> 31 \<and> 0 \<le> m \<and> m \<le> 11"
  by (auto simp: parse_day_month_def Let_def split_beta Option.bind_eq_Some_conv)

lemma parse_clock_range:
  "parse_clock s = Some (h, m, x) \<Longrightarrow> h \<in> {0..23} \<and> m \<in> {0..59} \<and> x \<in> {0..59}"
  by (auto simp: parse_clock_def Let_def split_beta Option.bind_eq_Some_conv)

lemma parse_date_range:
  assumes "parse_date s = Some t"
  shows "tm_mday t \<in> {1..31} \<and> tm_mon t \<in> {0..11} \<and> tm_year t \<in> {0..600}
    \<and> tm_hour t \<in> {0..23} \<and> tm_min t \<in> {0..59} \<and> tm_sec t \<in> {0..59}"
  using assms
  by (auto simp: parse_date_def Let_def split_beta Option.bind_eq_Some_conv
      dest!: parse_day_month_range parse_clock_range)

subsection \<open>\<open>extractDomain\<close> and \<open>makeCookies\<close>\<close>

text \<open>The host name, the cookie domain and the path of a URL; \<open>None\<close> for \<open>false\<close>.\<close>

definition extractDomain :: "cookie_env \<Rightarrow> string \<Rightarrow> (string \<times> string \<times> string) option" where
  "extractDomain E url =
     (let k = parse_url E url
      in if \<not> strncmp_eq (url_protocol k) ''http'' 4 then None
         else let fqdn = lower (url_host k)
              in Some (fqdn, stripDomain fqdn, lower (url_path k)))"

text \<open>One attribute of a \<open>Set-Cookie\<close> line, written into the cookie.\<close>

definition set_attr :: "cookie_env \<Rightarrow> string \<Rightarrow> string \<Rightarrow> KCookie \<Rightarrow> KCookie" where
  "set_attr E nm v c =
     (if nm = ''domain'' then c\<lparr>c_domain := lower v\<rparr>
      else if nm = ''max-age'' then
        (let max_age = toInt E v
         in if max_age = 0 then c\<lparr>expireDate := 1\<rparr>
            else c\<lparr>expireDate := time_now E + max_age\<rparr>)
      else if nm = ''expires'' then c\<lparr>expireDate := parseExpire E v\<rparr>
      else if nm = ''path'' then c\<lparr>c_path := v\<rparr>
      else if nm = ''version'' then c\<lparr>protocolVersion := toInt E v\<rparr>
      else c)"

function cookie_attrs :: "cookie_env \<Rightarrow> string \<Rightarrow> KCookie \<Rightarrow> string \<times> KCookie" where
  "cookie_attrs E s c =
     (if at0 s = CHR '';'' \<or> at0 s = SP then
        (case parseNameValue (tl s) of
           (s', nm, v) \<Rightarrow> cookie_attrs E s' (set_attr E (lower nm) v c))
      else (s, c))"
  by pat_completeness auto
termination
proof (relation "measure (\<lambda>(E, s, c). length s)", goal_cases)
  case (2 E s c s' y nm v)
  then have "s \<noteq> []" by auto
  then have "length (tl s) < length s" by (cases s) auto
  with 2 parseNameValue_shorter [of s' _ "tl s"] show ?case by fastforce
qed simp

declare cookie_attrs.simps [simp del]

lemma cookie_attrs_length: "length (fst (cookie_attrs E s c)) \<le> length s"
proof (induction E s c rule: cookie_attrs.induct)
  case (1 E s c)
  obtain s' nm v where p: "parseNameValue (tl s) = (s', nm, v)" by (metis prod_cases3)
  then have "length s' \<le> length s"
    using parseNameValue_length [of "tl s"] length_tl [of s] by simp
  with 1 p show ?case
    by (subst cookie_attrs.simps) (auto intro: le_trans)
qed

lemma cookie_attrs_end:
  "at0 s = CHR '';'' \<or> at0 s = SP \<or> pair_end (at0 s) \<Longrightarrow> line_end (at0 (fst (cookie_attrs E s c)))"
proof (induction E s c rule: cookie_attrs.induct)
  case (1 E s c)
  obtain s' nm v where p: "parseNameValue (tl s) = (s', nm, v)" by (metis prod_cases3)
  then have "pair_end (at0 s')" using parseNameValue_end [of "tl s"] by simp
  with 1 p show ?case
    by (subst cookie_attrs.simps) (auto simp: pair_end_def line_end_def)
qed

text \<open>
  The loop over the header lines. The chain of the code grows at its head and \<open>lastCookie\<close> is
  that head, so the two variables are one list. A pass reads a \<open>Set-Cookie\<close> or \<open>Set-Cookie2\<close>
  line, or skips to the next line.
\<close>

definition next_line :: "string \<Rightarrow> string" where
  "next_line s = (let t = dropWhile (\<lambda>c. \<not> line_end c) s in if at0 t = LF then tl t else t)"

definition head_attrs :: "cookie_env \<Rightarrow> string \<Rightarrow> KCookie list \<Rightarrow> string \<times> KCookie list" where
  "head_attrs E s chain = (case chain of [] \<Rightarrow> (s, [])
     | c # cs \<Rightarrow> (case cookie_attrs E s c of (s', c') \<Rightarrow> (s', c' # cs)))"

lemma strncasecmp_eq_length:
  "strncasecmp_eq s t n \<Longrightarrow> n \<le> length (cstr t) \<Longrightarrow> n \<le> length s"
proof -
  assume "strncasecmp_eq s t n" and n: "n \<le> length (cstr t)"
  then have "length (take n (map tolower (cstr s))) = length (take n (map tolower (cstr t)))"
    by (simp add: strncasecmp_eq_def)
  with n have "n \<le> length (cstr s)" by simp
  also have "length (cstr s) \<le> length s" by (simp add: cstr_def length_takeWhile_le)
  finally show ?thesis .
qed

lemma next_line_length: "at0 (next_line s) \<noteq> NUL \<Longrightarrow> length (next_line s) < length s"
proof -
  assume a: "at0 (next_line s) \<noteq> NUL"
  let ?t = "dropWhile (\<lambda>c. \<not> line_end c) s"
  have "line_end (at0 ?t)" by (induction s) auto
  with a have l: "at0 ?t = LF" by (auto simp: next_line_def Let_def line_end_def)
  have "at0 x = LF \<Longrightarrow> x \<noteq> []" for x by auto
  with l have "?t \<noteq> []" by blast
  with l have "length (next_line s) < length ?t" by (simp add: next_line_def Let_def)
  also have "\<dots> \<le> length s" by (rule length_dropWhile)
  finally show ?thesis .
qed

lemma head_attrs_length: "length (fst (head_attrs E s chain)) \<le> length s"
  using cookie_attrs_length by (auto simp: head_attrs_def split: list.splits prod.splits) (metis fst_conv)

lemma head_attrs_shorter: "(s', r) = head_attrs E s chain \<Longrightarrow> length s' \<le> length s"
  using head_attrs_length [of E s chain] by (metis fst_conv)

function make_chain :: "cookie_env \<Rightarrow> string \<Rightarrow> string \<Rightarrow> KCookie list \<Rightarrow> KCookie list" where
  "make_chain E fqdn s chain =
     (if strncasecmp_eq s ''Set-Cookie: '' 12 then
        (case parseNameValue (drop 12 s) of (s1, nm, v) \<Rightarrow>
           (if nm = [] then make_chain E fqdn s1 chain
            else case head_attrs E s1 (mkCookie fqdn [] [] nm v 0 0 # chain) of (s2, chain') \<Rightarrow>
              (if at0 s2 = NUL then chain' else make_chain E fqdn (tl s2) chain')))
      else if chain \<noteq> [] \<and> strncasecmp_eq s ''Set-Cookie2: '' 13 then
        (case head_attrs E (drop 12 s) chain of (s2, chain') \<Rightarrow>
           (if at0 s2 = NUL then chain' else make_chain E fqdn (tl s2) chain'))
      else let s1 = next_line s
           in if at0 s1 = NUL then chain else make_chain E fqdn s1 chain)"
  by pat_completeness auto
termination
proof (relation "measure (\<lambda>(E, fqdn, s, chain). length s)", goal_cases)
  case (2 E fqdn s chain s1 y nm v)
  then have "12 \<le> length s" by (auto dest: strncasecmp_eq_length)
  moreover from 2 have "length s1 \<le> length (drop 12 s)" using parseNameValue_shorter [of s1 _ "drop 12 s"] by auto
  ultimately show ?case by simp
next
  case (3 E fqdn s chain s1 y nm v s2 chain')
  then have "12 \<le> length s" by (auto dest: strncasecmp_eq_length)
  moreover from 3 have "length s1 \<le> length (drop 12 s)" using parseNameValue_shorter [of s1 _ "drop 12 s"] by auto
  moreover from 3 have "length s2 \<le> length s1" by (auto intro: head_attrs_shorter)
  ultimately show ?case by simp
next
  case (4 E fqdn s chain s2 chain')
  then have "13 \<le> length s" by (auto dest: strncasecmp_eq_length)
  moreover from 4 have "length s2 \<le> length (drop 12 s)"
    using head_attrs_shorter [of s2 _ E "drop 12 s"] by auto
  ultimately show ?case by simp
next
  case (5 E fqdn s chain s1)
  with next_line_length [of s] show ?case by auto
qed simp

declare make_chain.simps [simp del]

definition makeCookies :: "cookie_env \<Rightarrow> string \<Rightarrow> string \<Rightarrow> KCookie list" where
  "makeCookies E url cookie_headers = (case extractDomain E url of None \<Rightarrow> []
     | Some (fqdn, domain, path) \<Rightarrow> make_chain E fqdn cookie_headers [])"

subsection \<open>What the parsers guarantee\<close>

lemma dropWhile_suffix: "\<exists>u. s = u @ dropWhile P s"
  by (metis takeWhile_dropWhile_id)

lemma suffix_dropWhile: "(\<exists>u. s = u @ t) \<Longrightarrow> \<exists>u. s = u @ dropWhile P t"
  by (metis append.assoc takeWhile_dropWhile_id)

lemma suffix_tl: "(\<exists>u. s = u @ t) \<Longrightarrow> \<exists>u. s = u @ tl t"
  by (cases t) (metis list.sel(2), metis append.assoc append_Cons append_Nil list.sel(3))

lemma parseValue_suffix: "(\<exists>u. s = u @ t) \<Longrightarrow> \<exists>u. s = u @ fst (parseValue t)"
  by (auto simp: parseValue_def Let_def intro!: suffix_dropWhile suffix_tl)

lemma parseNameValue_suffix: "\<exists>u. s = u @ fst (parseNameValue s)"
proof -
  have "\<exists>u. s = u @ s" by simp
  then show ?thesis
    by (simp add: parseNameValue_def Let_def split_beta suffix_dropWhile suffix_tl parseValue_suffix)
qed

definition name_char :: "char \<Rightarrow> bool" where
  "name_char c \<longleftrightarrow> c \<noteq> CHR ''='' \<and> \<not> is_blank c \<and> \<not> pair_end c"

lemma parseNameValue_pair:
  assumes n: "list_all name_char n" and v: "parseValue v = (r, w)" "\<not> is_blank (at0 v)"
  shows "parseNameValue (n @ CHR ''='' # v) = (r, n, w)"
proof -
  have bl: "dropWhile is_blank (n @ CHR ''='' # v) = n @ CHR ''='' # v"
    using n by (cases n) (auto simp: name_char_def)
  have tw: "takeWhile name_char (n @ CHR ''='' # v) = n"
    "dropWhile name_char (n @ CHR ''='' # v) = CHR ''='' # v"
    using n by (auto simp: list_all_iff name_char_def takeWhile_append2 dropWhile_append2)
  have nc: "(\<lambda>c. c \<noteq> CHR ''='' \<and> \<not> is_blank c \<and> \<not> pair_end c) = name_char"
    by (auto simp: name_char_def)
  have bv: "dropWhile is_blank v = v" using v by (cases v) auto
  show ?thesis
    unfolding parseNameValue_def nc Let_def bl tw using v bv by simp
qed

lemma parseNameValue_blank [simp]: "is_blank b \<Longrightarrow> parseNameValue (b # s) = parseNameValue s"
  by (simp add: parseNameValue_def)

lemma parseValue_quoted:
  assumes "list_all (\<lambda>c. c \<noteq> DQ \<and> \<not> line_end c) v" "pair_end (at0 r)"
  shows "parseValue (DQ # v @ DQ # r) = (r, v)"
proof -
  let ?q = "\<lambda>c. c \<noteq> DQ \<and> \<not> line_end c"
  have "takeWhile ?q (v @ DQ # r) = v" "dropWhile ?q (v @ DQ # r) = DQ # r"
    using assms by (auto simp: list_all_iff takeWhile_append2 dropWhile_append2)
  moreover have "dropWhile (\<lambda>c. \<not> pair_end c) r = r" using assms by (cases r) auto
  ultimately show ?thesis by (simp add: parseValue_def)
qed

lemma parseValue_plain:
  assumes "list_all (\<lambda>c. \<not> pair_end c) v" "at0 v \<noteq> DQ" "pair_end (at0 r)"
  shows "parseValue (v @ r) = (r, v)"
proof -
  let ?q = "\<lambda>c. \<not> pair_end c"
  have "takeWhile ?q (v @ r) = v" "dropWhile ?q (v @ r) = r"
    using assms by (cases r; auto simp: list_all_iff takeWhile_append2 dropWhile_append2)+
  moreover have "at0 (v @ r) \<noteq> DQ" using assms by (cases v) auto
  ultimately show ?thesis by (simp add: parseValue_def)
qed

text \<open>Values that an unquoted attribute carries unchanged.\<close>

definition plain_value :: "string \<Rightarrow> bool" where
  "plain_value v \<longleftrightarrow> list_all (\<lambda>c. \<not> pair_end c) v \<and> at0 v \<noteq> DQ \<and> \<not> is_blank (at0 v)"

lemma parse_plain_pair:
  assumes "list_all name_char n" "plain_value v" "pair_end (at0 r)"
  shows "parseNameValue (n @ CHR ''='' # v @ r) = (r, n, v)"
proof (rule parseNameValue_pair)
  show "parseValue (v @ r) = (r, v)"
    using assms by (intro parseValue_plain) (auto simp: plain_value_def)
  show "\<not> is_blank (at0 (v @ r))"
    using assms by (cases v) (auto simp: plain_value_def pair_end_def is_blank_def)
qed (rule assms)

text \<open>A property of cookies that the attributes do not touch holds for the whole chain.\<close>

lemma parseNameValue_LF: "parseNameValue s = (e, n, v) \<Longrightarrow> LF \<notin> set n \<and> LF \<notin> set v"
proof -
  have v: "LF \<notin> set (snd (parseValue t))" for t
    by (auto simp: parseValue_def Let_def dest: set_takeWhileD)
  show "parseNameValue s = (e, n, v) \<Longrightarrow> LF \<notin> set n \<and> LF \<notin> set v"
    using v by (auto simp: parseNameValue_def Let_def split_beta split: if_splits dest: set_takeWhileD)
qed

lemma LF_lower [simp]: "LF \<in> set (lower s) \<longleftrightarrow> LF \<in> set s"
proof -
  have "tolower c = LF \<longleftrightarrow> c = LF" for c
    using tolower_code [of c] code_inj [of "tolower c" LF] code_inj [of c LF] by (auto simp: char_eval split: if_splits)
  then have "LF = tolower c \<longleftrightarrow> LF = c" for c by metis
  then show ?thesis by (simp add: lower_def image_iff)
qed

lemma cookie_attrs_invariant:
  assumes "\<And>E n v c. P c \<Longrightarrow> LF \<notin> set n \<Longrightarrow> LF \<notin> set v \<Longrightarrow> P (set_attr E n v c)"
  shows "P c \<Longrightarrow> P (snd (cookie_attrs E s c))"
proof (induction E s c rule: cookie_attrs.induct)
  case (1 E' s c)
  obtain s' nm v where p: "parseNameValue (tl s) = (s', nm, v)" by (metis prod_cases3)
  have "LF \<notin> set (lower nm)" "LF \<notin> set v" using parseNameValue_LF [OF p] by simp_all
  with 1 assms p show ?case by (subst cookie_attrs.simps) auto
qed

lemma head_attrs_invariant:
  assumes "\<And>E n v c. P c \<Longrightarrow> LF \<notin> set n \<Longrightarrow> LF \<notin> set v \<Longrightarrow> P (set_attr E n v c)"
  shows "list_all P cs \<Longrightarrow> head_attrs E s cs = (s', cs') \<Longrightarrow> list_all P cs'"
  using cookie_attrs_invariant [of P, OF assms]
  by (auto simp: head_attrs_def split: list.splits prod.splits) (metis snd_conv)

lemma make_chain_invariant:
  assumes P: "\<And>E n v c. P c \<Longrightarrow> LF \<notin> set n \<Longrightarrow> LF \<notin> set v \<Longrightarrow> P (set_attr E n v c)"
    and new: "\<And>n v. n \<noteq> [] \<Longrightarrow> LF \<notin> set n \<Longrightarrow> LF \<notin> set v \<Longrightarrow> P (mkCookie fqdn [] [] n v 0 0)"
  shows "list_all P chain \<Longrightarrow> list_all P (make_chain E fqdn s chain)"
proof (induction "length s" arbitrary: s chain rule: less_induct)
  case less
  obtain s1 nm v where p: "parseNameValue (drop 12 s) = (s1, nm, v)" by (metis prod_cases3)
  obtain s2 c2 where h: "head_attrs E s1 (mkCookie fqdn [] [] nm v 0 0 # chain) = (s2, c2)" by force
  obtain s3 c3 where g: "head_attrs E (drop 12 s) chain = (s3, c3)" by force
  have l1: "length s1 \<le> length (drop 12 s)" by (rule parseNameValue_shorter [OF p [symmetric]])
  have l2: "length s2 \<le> length s1" by (rule head_attrs_shorter [OF h [symmetric]])
  have l3: "length s3 \<le> length (drop 12 s)" by (rule head_attrs_shorter [OF g [symmetric]])
  consider (set) "strncasecmp_eq s ''Set-Cookie: '' 12" | (set2) "\<not> strncasecmp_eq s ''Set-Cookie: '' 12"
      "chain \<noteq> []" "strncasecmp_eq s ''Set-Cookie2: '' 13"
    | (other) "\<not> strncasecmp_eq s ''Set-Cookie: '' 12"
      "\<not> (chain \<noteq> [] \<and> strncasecmp_eq s ''Set-Cookie2: '' 13)" by blast
  then show ?case
  proof cases
    case set
    then have "12 \<le> length s" by (auto dest: strncasecmp_eq_length)
    with l1 l2 have "length s1 < length s" "length (tl s2) < length s" by simp_all
    moreover have "nm \<noteq> [] \<Longrightarrow> list_all P c2"
      using head_attrs_invariant [of P, OF P _ h] new parseNameValue_LF [OF p] less.prems by simp
    ultimately show ?thesis
      using set p h less by (subst make_chain.simps) auto
  next
    case set2
    then have "13 \<le> length s" by (auto dest: strncasecmp_eq_length)
    with l3 have "length (tl s3) < length s" by simp
    moreover have "list_all P c3" using head_attrs_invariant [of P, OF P _ g] less.prems by simp
    ultimately show ?thesis
      using set2 g less by (subst make_chain.simps) auto
  next
    case other
    with less next_line_length [of s] show ?thesis by (subst make_chain.simps) (auto simp: Let_def)
  qed
qed

definition quotable :: "string \<Rightarrow> bool" where
  "quotable v \<longleftrightarrow> list_all (\<lambda>c. c \<noteq> DQ \<and> \<not> line_end c) v"

lemma parse_quoted_pair:
  assumes "list_all name_char n" "quotable v" "pair_end (at0 r)"
  shows "parseNameValue (n @ CHR ''='' # DQ # v @ DQ # r) = (r, n, v)"
  using assms by (intro parseNameValue_pair parseValue_quoted) (simp_all add: quotable_def)

lemma quotable_dec_of_int: "quotable (dec_of_int i)"
proof -
  have "quotable (dec_of_nat n)" for n
    using dec_of_nat_digits [of n]
    by (auto simp: quotable_def list_all_iff isdigit_def line_end_def code_def)
  then show ?thesis by (auto simp: dec_of_int_def quotable_def line_end_def)
qed

subsection \<open>Properties\<close>

text \<open>\<open>parseNameValue\<close> only moves forward in the header, stops at the end of the text, at
  \<open>;\<close> or at a line feed, and the name it returns holds no delimiter.\<close>

theorem parseNameValue_stops:
  "case parseNameValue s of (e, n, v) \<Rightarrow>
     (\<exists>u. s = u @ e) \<and> at0 e \<in> {NUL, CHR '';'', LF} \<and> list_all name_char n"
proof -
  have "list_all name_char (fst (snd (parseNameValue s)))"
    by (auto simp: parseNameValue_def Let_def split_beta list_all_iff name_char_def
        dest: set_takeWhileD)
  with parseNameValue_suffix [of s] parseNameValue_end [of s] show ?thesis
    by (auto simp: split_beta pair_end_def)
qed

text \<open>what \<open>getCookieStr\<close> prints is what \<open>parseNameValue\<close> reads: a Netscape cookie comes
  back as its name and value, an RFC 2109 cookie as its version and then its name and value.\<close>

theorem getCookieStr_roundtrip:
  assumes "list_all name_char (c_name c)" "pair_end (at0 r)"
    "if protocolVersion c = 0 then plain_value (c_value c) else quotable (c_value c)"
  shows "if protocolVersion c = 0
     then parseNameValue (getCookieStr c @ r) = (r, c_name c, c_value c)
     else \<exists>s t. parseNameValue (getCookieStr c @ r) = (CHR '';'' # s, ''$Version'', dec_of_int (protocolVersion c))
            \<and> parseNameValue s = (t, c_name c, c_value c) \<and> pair_end (at0 t)"
proof (cases "protocolVersion c = 0")
  case True
  with assms show ?thesis by (simp add: getCookieStr_def parse_plain_pair)
next
  case False
  define rest where "rest = (if c_path c \<noteq> [] then ''; $Path='' @ [DQ] @ c_path c @ [DQ] else [])
    @ (if c_domain c \<noteq> [] then ''; $Domain='' @ [DQ] @ c_domain c @ [DQ] else []) @ r"
  have re: "pair_end (at0 rest)" using assms(2) by (auto simp: rest_def)
  define s where "s = c_name c @ CHR ''='' # DQ # c_value c @ DQ # rest"
  have g: "getCookieStr c @ r = ''$Version'' @ CHR ''='' # DQ # dec_of_int (protocolVersion c)
      @ DQ # CHR '';'' # SP # s"
    using False by (simp add: getCookieStr_def s_def rest_def)
  have "parseNameValue (getCookieStr c @ r) = (CHR '';'' # SP # s, ''$Version'', dec_of_int (protocolVersion c))"
    unfolding g by (rule parse_quoted_pair) (simp_all add: quotable_dec_of_int name_char_def pair_end_def is_blank_def)
  moreover have "parseNameValue (SP # s) = (rest, c_name c, c_value c)"
    unfolding s_def using assms False re by (simp add: parse_quoted_pair)
  ultimately show ?thesis using False re by auto
qed

theorem getCookieStr_roundtrip_witness:
  "parseNameValue (getCookieStr (mkCookie [] [] ''/a'' ''id'' ''x y'' 0 0) @ [CR, LF])
     = ([LF], ''id'', ''x y'' @ [CR])
   \<and> parseNameValue (getCookieStr (mkCookie [] [] ''/a'' ''id'' ''x y'' 0 0) @ [LF]) = ([LF], ''id'', ''x y'')"
proof
  show "parseNameValue (getCookieStr (mkCookie [] [] ''/a'' ''id'' ''x y'' 0 0) @ [LF]) = ([LF], ''id'', ''x y'')"
    using getCookieStr_roundtrip [of "mkCookie [] [] ''/a'' ''id'' ''x y'' 0 0" "[LF]"]
    by (simp add: mkCookie_def name_char_def plain_value_def pair_end_def is_blank_def)
qed (simp add: getCookieStr_def mkCookie_def parseNameValue_def parseValue_def pair_end_def is_blank_def)

text \<open>a cookie domain is never a bare top level: what \<open>stripDomain\<close> returns with a leading
  dot holds a second dot.\<close>

theorem stripDomain_not_toplevel:
  "at0 (stripDomain h) = CHR ''.'' \<Longrightarrow> CHR ''.'' \<in> set (tl (stripDomain h))"
proof -
  assume a: "at0 (stripDomain h) = CHR ''.''"
  have "CHR ''.'' \<in> set (stripDomain h)" using a by (cases "stripDomain h") auto
  with stripDomain_cases [of h] show ?thesis by auto
qed

theorem stripDomain_not_toplevel_witness:
  "stripDomain ''kde.org'' = ''.kde.org'' \<and> stripDomain ''www.kde.org.'' = ''.kde.org''
   \<and> CHR ''.'' \<in> set (tl (stripDomain ''kde.org''))"
proof -
  have "stripDomain ''kde.org'' = ''.kde.org'' \<and> stripDomain ''www.kde.org.'' = ''.kde.org''"
    by (simp add: stripDomain_def strip_dots_def find_char_from_def)
  then show ?thesis using stripDomain_not_toplevel [of "''kde.org''"] by simp
qed

subsection \<open>Dates\<close>

definition month_name :: "nat \<Rightarrow> string" where
  "month_name k = take 3 (drop (3 * k) haystack)"

lemma month_cases: "k < 12 \<Longrightarrow> k = 0 \<or> k = 1 \<or> k = 2 \<or> k = 3 \<or> k = 4 \<or> k = 5 \<or> k = 6 \<or> k = 7
    \<or> k = 8 \<or> k = 9 \<or> k = 10 \<or> k = (11::nat)"
  by arith

lemma find_month: "k < 12 \<Longrightarrow> find_str (month_name k) haystack = Some (3 * k)"
  by (drule month_cases) (elim disjE; simp add: month_name_def haystack_def)

lemma month_name_3: "k < 12 \<Longrightarrow> \<exists>a b c. month_name k = [a, b, c]"
  by (drule month_cases) (elim disjE; simp add: month_name_def haystack_def)

text \<open>A number as a date writes it: decimal digits, with leading zeros or not.\<close>

definition digits :: "string \<Rightarrow> bool" where
  "digits ds \<longleftrightarrow> ds \<noteq> [] \<and> list_all isdigit ds"

abbreviation dval :: "string \<Rightarrow> nat" where
  "dval ds \<equiv> digits_to_nat 10 ds"

lemma strtol_digits:
  "digits ds \<Longrightarrow> \<not> isdigit (at0 r) \<Longrightarrow> dval ds < 2 ^ 31 \<Longrightarrow> strtol 10 (ds @ r) = (int (dval ds), r)"
  by (simp add: strtol_def digits_def list_all_iff strto_scan_digits LONG_MAX_def)

lemma strtol_space_digits:
  assumes "digits ds" "\<not> isdigit (at0 r)" "dval ds < 2 ^ 31"
  shows "strtol 10 (SP # ds @ r) = (int (dval ds), r)"
  using strtol_digits [OF assms] assms
  by (simp add: strtol_def isspace_def code_def digits_def list_all_iff strto_scan_digits)

lemma not_isdigit [simp]: "\<not> isdigit (CHR ''-'')" "\<not> isdigit (CHR '':'')" "\<not> isdigit SP"
  by (simp_all add: isdigit_def code_def)

lemma parse_clock_text:
  assumes "digits hh" "digits mm" "digits ss" "\<not> isdigit (at0 r)"
    and "dval hh < 24" "dval mm < 60" "dval ss < 60"
  shows "parse_clock (hh @ CHR '':'' # mm @ CHR '':'' # ss @ r)
    = Some (int (dval hh), int (dval mm), int (dval ss))"
  using assms by (simp add: parse_clock_def strtol_digits)

lemma parse_day_month_text:
  assumes "list_all (\<lambda>c. c \<noteq> SP \<and> c \<noteq> NUL) wday" "digits dd" "1 \<le> dval dd" "dval dd \<le> 31"
    and "map tolower mon = month_name k" "k < 12" "NUL \<notin> set mon" "CHR ''-'' \<notin> set mon"
  shows "parse_day_month (wday @ SP # dd @ CHR ''-'' # mon @ r) = Some (int (dval dd), int k, r)"
proof -
  have w: "dropWhile (\<lambda>c. c \<noteq> NUL \<and> c \<noteq> SP) (wday @ SP # x) = SP # x" for x
    using assms(1) by (simp add: list_all_iff dropWhile_append2)
  obtain a b c where m: "mon = [a, b, c]"
    using month_name_3 [OF assms(6)] assms(5) by (auto simp: map_eq_Cons_conv)
  show ?thesis
    using assms find_month [OF assms(6)]
    by (auto simp: parse_day_month_def w strtol_space_digits m)
qed

text \<open>the expiry date of the two documented formats is read as the instant it names: the
  day, the month by its name in any case, the year with two digits moved to 1950 to 2049, and
  the time of day.\<close>

theorem parse_date_correct:
  assumes "list_all (\<lambda>c. c \<noteq> SP \<and> c \<noteq> NUL) wday" "digits dd" "1 \<le> dval dd" "dval dd \<le> 31"
    and "map tolower mon = month_name k" "k < 12" "NUL \<notin> set mon" "CHR ''-'' \<notin> set mon"
    and "digits yy" "dval yy < 100 \<or> 1900 \<le> dval yy \<and> dval yy \<le> 2500"
    and "digits hh" "digits mm" "digits ss" "\<not> isdigit (at0 r)"
    and "dval hh < 24" "dval mm < 60" "dval ss < 60"
  shows "parse_date (wday @ SP # dd @ CHR ''-'' # mon @ CHR ''-'' # yy @ SP # hh @ CHR '':'' # mm
           @ CHR '':'' # ss @ r)
    = Some \<lparr>tm_sec = int (dval ss), tm_min = int (dval mm), tm_hour = int (dval hh),
        tm_mday = int (dval dd), tm_mon = int k,
        tm_year = (if dval yy < 50 then int (dval yy) + 100
                   else if dval yy < 100 then int (dval yy) else int (dval yy) - 1900)\<rparr>"
proof -
  let ?t = "SP # hh @ CHR '':'' # mm @ CHR '':'' # ss @ r"
  have dm: "parse_day_month (wday @ SP # dd @ CHR ''-'' # mon @ CHR ''-'' # yy @ ?t)
      = Some (int (dval dd), int k, CHR ''-'' # yy @ ?t)"
    using assms by (intro parse_day_month_text)
  have "dval yy < 2 ^ 31" using assms by auto
  then have y: "strtol 10 (yy @ ?t) = (int (dval yy), ?t)" "to_int32 (int (dval yy)) = int (dval yy)"
    using assms by (simp_all add: strtol_digits)
  have c: "parse_clock (hh @ CHR '':'' # mm @ CHR '':'' # ss @ r)
      = Some (int (dval hh), int (dval mm), int (dval ss))"
    using assms by (intro parse_clock_text)
  show ?thesis
    using assms(10) by (auto simp: parse_date_def dm y c fix_year_def)
qed

theorem parse_date_correct_witness:
  "parse_date ''Wednesday, 09-Nov-99 23:12:40 GMT''
   = Some \<lparr>tm_sec = 40, tm_min = 12, tm_hour = 23, tm_mday = 9, tm_mon = 10, tm_year = 99\<rparr>"
  using parse_date_correct [of "''Wednesday,''" "''09''" "''Nov''" 10 "''99''" "''23''" "''12''" "''40''" "'' GMT''"]
  by (simp add: digits_def digits_to_nat_def month_name_def haystack_def char_eval)

text \<open>whatever the text, a date that is accepted has every field in its range, so that the
  \<open>mktime\<close> of the code is called on a normal calendar date.\<close>

theorem parse_date_bounds:
  "case parse_date s of None \<Rightarrow> parseExpire E s = 0
   | Some t \<Rightarrow> tm_mday t \<in> {1..31} \<and> tm_mon t \<in> {0..11} \<and> tm_year t \<in> {0..600}
       \<and> tm_hour t \<in> {0..23} \<and> tm_min t \<in> {0..59} \<and> tm_sec t \<in> {0..59}
       \<and> parseExpire E s = mktime E t - timezone E"
  using parse_date_range by (auto simp: parseExpire_def split: option.splits)

subsection \<open>\<open>makeCookies\<close>\<close>

definition made_for :: "string \<Rightarrow> KCookie \<Rightarrow> bool" where
  "made_for fqdn c \<longleftrightarrow> c_host c = fqdn \<and> c_name c \<noteq> [] \<and> c_domain c = lower (c_domain c)"

lemma set_attr_made_for: "made_for fqdn c \<Longrightarrow> made_for fqdn (set_attr E n v c)"
  by (auto simp: made_for_def set_attr_def Let_def)

lemma makeCookies_made_for:
  "extractDomain E url = Some (fqdn, d, p) \<Longrightarrow> list_all (made_for fqdn) (makeCookies E url h)"
  using make_chain_invariant [of "made_for fqdn" fqdn "[]" E h] set_attr_made_for
  by (simp add: makeCookies_def made_for_def mkCookie_def lower_def)

text \<open>every cookie that \<open>makeCookies\<close> makes belongs to the host of the URL, whatever the
  server sent, has a name and a domain in lower case; a URL that is not HTTP makes none.\<close>

theorem makeCookies_host:
  "case extractDomain E url of None \<Rightarrow> makeCookies E url h = []
   | Some (fqdn, d, p) \<Rightarrow> list_all (\<lambda>c. c_host c = fqdn \<and> c_name c \<noteq> []
        \<and> c_domain c = lower (c_domain c)) (makeCookies E url h)"
  using makeCookies_made_for [of E url _ _ _ h]
  by (auto simp: makeCookies_def made_for_def list_all_iff split: option.splits)

lemma cookie_attrs_plain:
  assumes "list_all name_char n" "plain_value v" "pair_end (at0 r)"
  shows "cookie_attrs E (CHR '';'' # SP # n @ CHR ''='' # v @ r) c
    = cookie_attrs E r (set_attr E (lower n) v c)"
  using assms by (subst cookie_attrs.simps) (simp add: parse_plain_pair)

lemma cookie_attrs_stop: "line_end (at0 s) \<Longrightarrow> cookie_attrs E s c = (s, c)"
  by (subst cookie_attrs.simps) (auto simp: line_end_def)

text \<open>a \<open>Set-Cookie\<close> line with a path and a domain makes exactly the cookie it describes.\<close>

theorem makeCookies_line:
  assumes "extractDomain E url = Some (fqdn, dm, pth)" "list_all name_char n" "n \<noteq> []"
    and "plain_value v" "plain_value p" "plain_value d"
  shows "makeCookies E url (''Set-Cookie: '' @ n @ ''='' @ v @ ''; path='' @ p @ ''; domain='' @ d @ [LF])
    = [mkCookie fqdn (lower d) p n v 0 0]"
proof -
  define r2 where "r2 = ''; domain='' @ d @ [LF]"
  define r1 where "r1 = ''; path='' @ p @ r2"
  let ?c = "mkCookie fqdn [] [] n v 0 0"
  have pv: "parseNameValue (n @ CHR ''='' # v @ r1) = (r1, n, v)"
    using assms by (simp add: parse_plain_pair r1_def)
  have "cookie_attrs E r1 c = cookie_attrs E r2 (set_attr E ''path'' p c)" for c
    using cookie_attrs_plain [of "''path''" p r2 E] assms
    by (simp add: r1_def r2_def name_char_def pair_end_def is_blank_def lower_def tolower_def isupper_def code_def)
  also have "cookie_attrs E r2 c = cookie_attrs E [LF] (set_attr E ''domain'' d c)" for c
    using cookie_attrs_plain [of "''domain''" d "[LF]" E] assms
    by (simp add: r2_def name_char_def pair_end_def is_blank_def lower_def tolower_def isupper_def code_def)
  finally have at: "cookie_attrs E r1 ?c = ([LF], mkCookie fqdn (lower d) p n v 0 0)"
    by (simp add: cookie_attrs_stop set_attr_def mkCookie_def)
  have stop: "make_chain E fqdn [] cs = cs" for cs
    by (subst make_chain.simps) (simp add: strncasecmp_eq_def next_line_def)
  have "make_chain E fqdn (''Set-Cookie: '' @ n @ CHR ''='' # v @ r1) []
      = [mkCookie fqdn (lower d) p n v 0 0]"
    using pv at assms(3) stop
    by (subst make_chain.simps) (simp add: strncasecmp_eq_def head_attrs_def)
  with assms(1) show ?thesis by (simp add: makeCookies_def r1_def r2_def)
qed

theorem makeCookies_line_witness:
  "makeCookies \<lparr>parse_url = \<lambda>u. \<lparr>url_protocol = ''http'', url_host = ''WWW.kde.org'', url_path = ''/''\<rparr>,
       toInt = \<lambda>s. 0, mktime = \<lambda>t. 0, timezone = 0, time_now = 5\<rparr> ''u''
     (''Set-Cookie: id=7; path=/doc; domain=.KDE.org'' @ [LF])
   = [mkCookie ''www.kde.org'' ''.kde.org'' ''/doc'' ''id'' ''7'' 0 0]"
  using makeCookies_line [of "\<lparr>parse_url = \<lambda>u. \<lparr>url_protocol = ''http'', url_host = ''WWW.kde.org'',
       url_path = ''/''\<rparr>, toInt = \<lambda>s. 0, mktime = \<lambda>t. 0, timezone = 0, time_now = 5\<rparr>" "''u''"
       "''www.kde.org''" "''.kde.org''" "''/''" "''id''" "''7''" "''/doc''" "''.KDE.org''"]
  by (simp add: extractDomain_def mkCookie_def strncmp_eq_def lower_def char_eval
      stripDomain_def strip_dots_def find_char_from_def name_char_def plain_value_def pair_end_def
      is_blank_def)

end
