(* ===== verification/CookieJar.thy ===== *)
theory CookieJar
  imports CookieText
begin

section \<open>The cookie jar\<close>

text \<open>
  \<open>KCookieJar\<close> of \<open>kfm/kcookiejar.cpp\<close>: the dictionary of cookie lists by domain, the sorted
  list of domains, the advices, and the operations on them. \<open>cookieList->inSort\<close> is the
  parameter \<open>ins\<close> of the operations that use it, with the laws \<open>qlist_insort\<close> of the prelude.
\<close>

datatype KCookieAdvice = KCookieDunno | KCookieAccept | KCookieReject | KCookieAsk

record KCookieList =
  cookies :: "KCookie list"
  advice :: KCookieAdvice

record KCookieJar =
  cookieDomains :: "string \<rightharpoonup> KCookieList"
  domainList :: "string list"
  globalAdvice :: KCookieAdvice
  configChanged :: bool
  cookiesChanged :: bool

definition newKCookieJar :: KCookieJar where
  "newKCookieJar = \<lparr>cookieDomains = Map.empty, domainList = [], globalAdvice = KCookieDunno,
     configChanged = False, cookiesChanged = False\<rparr>"

subsection \<open>\<open>findCookies\<close>\<close>

fun findCookies_loop :: "string \<Rightarrow> string \<Rightarrow> string \<Rightarrow> KCookie list \<Rightarrow> int \<Rightarrow> nat \<Rightarrow> string
    \<Rightarrow> int \<times> nat \<times> string" where
  "findCookies_loop fqdn domain path [] protVersion cookieCount cookieStr
     = (protVersion, cookieCount, cookieStr)"
| "findCookies_loop fqdn domain path (cookie # rest) protVersion cookieCount cookieStr =
     (if c_domain cookie \<noteq> [] \<and> domain \<noteq> c_domain cookie then
        findCookies_loop fqdn domain path rest protVersion cookieCount cookieStr
      else if c_domain cookie = [] \<and> fqdn \<noteq> c_host cookie then
        findCookies_loop fqdn domain path rest protVersion cookieCount cookieStr
      else if c_path cookie \<noteq> [] \<and> find_str (c_path cookie) path \<noteq> Some 0 then
        findCookies_loop fqdn domain path rest protVersion cookieCount cookieStr
      else
        let pv = (if cookieCount = 0 then protocolVersion cookie else protVersion)
        in if pv = 0 then
             findCookies_loop fqdn domain path rest pv (Suc cookieCount)
               (cookieStr @ (if cookieCount = 0 then ''Cookie: '' else ''; '') @ getCookieStr cookie)
           else
             findCookies_loop fqdn domain path rest pv (Suc cookieCount)
               (cookieStr @ ''Cookie: '' @ getCookieStr cookie @ [CR, LF]))"

definition findCookies :: "cookie_env \<Rightarrow> string \<Rightarrow> KCookieJar \<Rightarrow> string" where
  "findCookies E url jar = (case extractDomain E url of None \<Rightarrow> []
     | Some (fqdn, domain, path) \<Rightarrow>
         (case cookieDomains jar domain of None \<Rightarrow> []
          | Some cookieList \<Rightarrow>
              (case findCookies_loop fqdn domain path (cookies cookieList) 1 0 [] of
                 (protVersion, cookieCount, cookieStr) \<Rightarrow>
                   (if protVersion = 0 \<and> cookieCount > 0 then cookieStr @ [CR, LF] else cookieStr))))"

subsection \<open>\<open>addCookie\<close>, \<open>cookieAdvice\<close>, \<open>eatCookie\<close>\<close>

definition same_cookie :: "KCookie \<Rightarrow> KCookie \<Rightarrow> bool" where
  "same_cookie a b \<longleftrightarrow> c_name a = c_name b \<and> c_domain a = c_domain b \<and> c_path a = c_path b"

text \<open>The list for the domain of a cookie, made and entered into the list of domains if new.\<close>

definition ensureDomain :: "string \<Rightarrow> KCookieJar \<Rightarrow> KCookieJar" where
  "ensureDomain domain jar = (case cookieDomains jar domain of
       None \<Rightarrow> jar\<lparr>cookieDomains := (cookieDomains jar)(domain \<mapsto> \<lparr>cookies = [], advice = KCookieDunno\<rparr>),
                  domainList := inSort strcmp domain (domainList jar)\<rparr>
     | Some _ \<Rightarrow> jar)"

definition setCookies :: "string \<Rightarrow> KCookie list \<Rightarrow> KCookieJar \<Rightarrow> KCookieJar" where
  "setCookies domain cs jar = jar\<lparr>cookieDomains := (cookieDomains jar)
     (domain := map_option (\<lambda>cl. cl\<lparr>cookies := cs\<rparr>) (cookieDomains jar domain))\<rparr>"

definition cookiesOf :: "KCookieJar \<Rightarrow> string \<Rightarrow> KCookie list" where
  "cookiesOf jar domain = (case cookieDomains jar domain of None \<Rightarrow> [] | Some cl \<Rightarrow> cookies cl)"

definition addCookie :: "(KCookie \<Rightarrow> KCookie list \<Rightarrow> KCookie list) \<Rightarrow> int \<Rightarrow> KCookie \<Rightarrow> KCookieJar
    \<Rightarrow> KCookieJar" where
  "addCookie ins now cookie jar =
     (let domain = stripDomain (c_host cookie);
          jar1 = ensureDomain domain jar;
          old = cookiesOf jar1 domain;
          kept = filter (\<lambda>k. \<not> same_cookie k cookie) old;
          jar2 = (setCookies domain kept jar1)
                   \<lparr>cookiesChanged := (cookiesChanged jar \<or> list_ex (\<lambda>k. same_cookie k cookie) old)\<rparr>
      in if \<not> isExpired cookie now
         then (setCookies domain (ins cookie kept) jar2)\<lparr>cookiesChanged := True\<rparr>
         else jar2)"

definition cookieAdvice :: "KCookie \<Rightarrow> KCookieJar \<Rightarrow> KCookieAdvice" where
  "cookieAdvice cookie jar =
     (let domain = stripDomain (c_host cookie)
      in if c_domain cookie \<noteq> [] \<and> c_domain cookie \<noteq> domain \<and> c_domain cookie \<noteq> c_host cookie
         then KCookieReject
         else if find_char DQ (c_name cookie) \<noteq> None \<or> find_char DQ (c_value cookie) \<noteq> None
         then KCookieReject
         else case cookieDomains jar domain of
                Some cookieList \<Rightarrow> advice cookieList
              | None \<Rightarrow> globalAdvice jar)"

text \<open>\<open>removeRef\<close> takes the cookie itself out of its list: the first equal one.\<close>

definition removeDomain :: "string \<Rightarrow> KCookieJar \<Rightarrow> KCookieJar" where
  "removeDomain domain jar = jar\<lparr>cookieDomains := (cookieDomains jar)(domain := None),
     domainList := remove1 domain (domainList jar)\<rparr>"

definition eatCookie :: "KCookie \<Rightarrow> KCookieJar \<Rightarrow> KCookieJar" where
  "eatCookie cookie jar =
     (let domain = stripDomain (c_host cookie)
      in case cookieDomains jar domain of None \<Rightarrow> jar
         | Some cookieList \<Rightarrow>
             (let cs = remove1 cookie (cookies cookieList);
                  jar1 = setCookies domain cs jar
              in if cs = [] \<and> advice cookieList = KCookieDunno then removeDomain domain jar1 else jar1))"

subsection \<open>Advices\<close>

definition getDomainAdvice :: "string \<Rightarrow> KCookieJar \<Rightarrow> KCookieAdvice" where
  "getDomainAdvice domain jar = (case cookieDomains jar domain of
     Some cookieList \<Rightarrow> advice cookieList | None \<Rightarrow> KCookieDunno)"

definition setDomainAdvice :: "string \<Rightarrow> KCookieAdvice \<Rightarrow> KCookieJar \<Rightarrow> KCookieJar" where
  "setDomainAdvice domain adv jar = (case cookieDomains jar domain of
       Some cookieList \<Rightarrow>
         (let jar1 = jar\<lparr>configChanged := (advice cookieList \<noteq> adv),
                cookieDomains := (cookieDomains jar)(domain \<mapsto> cookieList\<lparr>advice := adv\<rparr>)\<rparr>
          in if cookies cookieList = [] \<and> adv = KCookieDunno then removeDomain domain jar1 else jar1)
     | None \<Rightarrow>
         (if adv \<noteq> KCookieDunno then
            jar\<lparr>configChanged := True,
                cookieDomains := (cookieDomains jar)(domain \<mapsto> \<lparr>cookies = [], advice = adv\<rparr>),
                domainList := inSort strcmp domain (domainList jar)\<rparr>
          else jar))"

definition setCookieAdvice :: "KCookie \<Rightarrow> KCookieAdvice \<Rightarrow> KCookieJar \<Rightarrow> KCookieJar" where
  "setCookieAdvice cookie adv jar = setDomainAdvice (stripDomain (c_host cookie)) adv jar"

definition setGlobalAdvice :: "KCookieAdvice \<Rightarrow> KCookieJar \<Rightarrow> KCookieJar" where
  "setGlobalAdvice adv jar = jar\<lparr>configChanged := (globalAdvice jar \<noteq> adv), globalAdvice := adv\<rparr>"

definition getDomainList :: "KCookieJar \<Rightarrow> string list" where
  "getDomainList jar = domainList jar"

definition getCookieList :: "string \<Rightarrow> KCookieJar \<Rightarrow> KCookieList option" where
  "getCookieList domain jar = cookieDomains jar domain"

subsection \<open>The invariant of the jar\<close>

text \<open>
  The list of domains is the sorted domain of the dictionary; every cookie list is in the order
  of \<open>compareItems\<close>, holds a cookie at most once by name, domain and path, and only cookies
  whose host has the domain of the list.
\<close>

definition cookie_id :: "KCookie \<Rightarrow> string \<times> string \<times> string" where
  "cookie_id c = (c_name c, c_domain c, c_path c)"

definition list_ok :: "string \<Rightarrow> KCookie list \<Rightarrow> bool" where
  "list_ok d cs \<longleftrightarrow> sorted_wrt (\<lambda>a b. compareItems a b \<le> 0) cs \<and> distinct (map cookie_id cs)
     \<and> list_all (\<lambda>c. stripDomain (c_host c) = d) cs"

definition domains_ok :: "KCookieJar \<Rightarrow> bool" where
  "domains_ok jar \<longleftrightarrow> sorted (domainList jar) \<and> distinct (domainList jar)
     \<and> set (domainList jar) = dom (cookieDomains jar)"

definition jar_ok :: "KCookieJar \<Rightarrow> bool" where
  "jar_ok jar \<longleftrightarrow> domains_ok jar \<and> (\<forall>d. list_ok d (cookiesOf jar d))"

named_theorems jar_simps "what an operation does to the lists and advices of a jar"

lemma same_cookie_id: "same_cookie a b \<longleftrightarrow> cookie_id a = cookie_id b"
  by (simp add: same_cookie_def cookie_id_def)

lemma list_ok_Nil [simp]: "list_ok d []"
  by (simp add: list_ok_def)

lemma list_ok_filter: "list_ok d cs \<Longrightarrow> list_ok d (filter P cs)"
  by (auto simp: list_ok_def sorted_wrt_filter distinct_map_filter list_all_iff)

lemma list_ok_remove1: "list_ok d cs \<Longrightarrow> list_ok d (remove1 c cs)"
proof -
  assume ok: "list_ok d cs"
  then have "distinct cs" by (simp add: list_ok_def distinct_map)
  then have "remove1 c cs = filter (\<lambda>x. c \<noteq> x) cs"
    by (simp add: distinct_remove1_removeAll removeAll_filter_not_eq)
  with ok show ?thesis by (simp add: list_ok_filter)
qed

subsection \<open>What the operations do to the lists and to the list of domains\<close>

lemma cookiesOf_fields [jar_simps]:
  "cookiesOf (j\<lparr>cookiesChanged := b\<rparr>) = cookiesOf j" "cookiesOf (j\<lparr>configChanged := b\<rparr>) = cookiesOf j"
  "cookiesOf (j\<lparr>globalAdvice := a\<rparr>) = cookiesOf j" "cookiesOf (j\<lparr>domainList := l\<rparr>) = cookiesOf j"
  by (simp_all add: cookiesOf_def fun_eq_iff)

lemma cookiesOf_ensureDomain [jar_simps]: "cookiesOf (ensureDomain d j) = cookiesOf j"
  by (auto simp: ensureDomain_def cookiesOf_def fun_eq_iff split: option.splits)

lemma ensureDomain_known [jar_simps]: "cookieDomains (ensureDomain d j) d \<noteq> None"
  by (auto simp: ensureDomain_def split: option.splits)

lemma cookiesOf_setCookies [jar_simps]:
  "cookieDomains j d \<noteq> None \<Longrightarrow> cookiesOf (setCookies d cs j) = (cookiesOf j)(d := cs)"
  by (auto simp: setCookies_def cookiesOf_def fun_eq_iff split: option.splits)

lemma setCookies_known [jar_simps]:
  "cookieDomains (setCookies d cs j) e = None \<longleftrightarrow> cookieDomains j e = None"
  by (auto simp: setCookies_def)

lemma cookiesOf_removeDomain [jar_simps]: "cookiesOf (removeDomain d j) = (cookiesOf j)(d := [])"
  by (auto simp: removeDomain_def cookiesOf_def fun_eq_iff)

lemma cookiesOf_addCookie [jar_simps]:
  "cookiesOf (addCookie ins now c j) = (cookiesOf j)(stripDomain (c_host c) :=
     (let kept = filter (\<lambda>k. \<not> same_cookie k c) (cookiesOf j (stripDomain (c_host c)))
      in if isExpired c now then kept else ins c kept))"
  by (simp add: addCookie_def Let_def jar_simps)

lemma cookiesOf_eatCookie [jar_simps]:
  "cookiesOf (eatCookie c j) = (cookiesOf j)(stripDomain (c_host c) :=
     remove1 c (cookiesOf j (stripDomain (c_host c))))"
proof (cases "cookieDomains j (stripDomain (c_host c))")
  case None
  then show ?thesis by (auto simp: eatCookie_def cookiesOf_def fun_eq_iff)
next
  case (Some cl)
  then have "cookies cl = cookiesOf j (stripDomain (c_host c))" by (simp add: cookiesOf_def)
  with Some show ?thesis by (simp add: eatCookie_def Let_def jar_simps)
qed

lemma cookiesOf_setDomainAdvice [jar_simps]: "cookiesOf (setDomainAdvice d a j) = cookiesOf j"
proof (rule ext)
  show "cookiesOf (setDomainAdvice d a j) e = cookiesOf j e" for e
    by (auto simp: setDomainAdvice_def removeDomain_def cookiesOf_def Let_def split: option.splits)
qed

lemma cookiesOf_setGlobalAdvice [jar_simps]: "cookiesOf (setGlobalAdvice a j) = cookiesOf j"
  by (simp add: setGlobalAdvice_def jar_simps)

lemma domains_ok_fields [jar_simps]:
  "domains_ok (j\<lparr>cookiesChanged := b\<rparr>) = domains_ok j" "domains_ok (j\<lparr>configChanged := b\<rparr>) = domains_ok j"
  "domains_ok (j\<lparr>globalAdvice := a\<rparr>) = domains_ok j"
  by (simp_all add: domains_ok_def)

lemma domains_ok_enter:
  assumes "domains_ok j" "cookieDomains j d = None"
  shows "domains_ok (j\<lparr>cookieDomains := (cookieDomains j)(d \<mapsto> cl), domainList := inSort strcmp d (domainList j)\<rparr>)"
proof -
  have "d \<notin> set (domainList j)" using assms by (auto simp: domains_ok_def)
  moreover have "distinct (map (\<lambda>x. x) (inSort strcmp d (domainList j)))"
    using assms calculation by (intro strcmp_order.sorted_list.ins_distinct) (auto simp: domains_ok_def)
  ultimately show ?thesis
    using assms by (auto simp: domains_ok_def inSort_strcmp_sorted)
qed

lemma domains_ok_ensureDomain: "domains_ok j \<Longrightarrow> domains_ok (ensureDomain d j)"
  by (auto simp: ensureDomain_def domains_ok_enter split: option.splits)

lemma domains_ok_setCookies: "domains_ok j \<Longrightarrow> domains_ok (setCookies d cs j)"
  by (auto simp: domains_ok_def setCookies_def dom_def)

lemma domains_ok_removeDomain: "domains_ok j \<Longrightarrow> domains_ok (removeDomain d j)"
  by (auto simp: domains_ok_def removeDomain_def sorted_remove1)

lemma domains_ok_addCookie: "domains_ok j \<Longrightarrow> domains_ok (addCookie ins now c j)"
  by (auto simp: addCookie_def Let_def jar_simps domains_ok_setCookies domains_ok_ensureDomain)

lemma domains_ok_eatCookie: "domains_ok j \<Longrightarrow> domains_ok (eatCookie c j)"
  by (auto simp: eatCookie_def Let_def domains_ok_setCookies domains_ok_removeDomain split: option.splits)

lemma domains_ok_setDomainAdvice:
  assumes "domains_ok j"
  shows "domains_ok (setDomainAdvice d a j)"
proof (cases "cookieDomains j d")
  case None
  with domains_ok_enter [OF assms None] assms show ?thesis
    by (simp add: setDomainAdvice_def domains_ok_def)
next
  case (Some cl)
  have "domains_ok (j\<lparr>configChanged := b, cookieDomains := (cookieDomains j)(d \<mapsto> x)\<rparr>)" for b x
    using assms Some by (auto simp: domains_ok_def)
  with Some show ?thesis by (simp add: setDomainAdvice_def Let_def domains_ok_removeDomain)
qed

subsection \<open>The invariant is kept\<close>

text \<open>
  The client side of \<open>inSort\<close>: any insertion with Qt's contract for \<open>compareItems\<close> keeps the
  lists of the jar in order.
\<close>

locale cookie_insort = qlist_insort compareItems ins
  for ins :: "KCookie \<Rightarrow> KCookie list \<Rightarrow> KCookie list"
begin

lemma list_ok_ins:
  assumes "list_ok (stripDomain (c_host c)) cs" "cookie_id c \<notin> cookie_id ` set cs"
  shows "list_ok (stripDomain (c_host c)) (ins c cs)"
  using assms ins_sorted [of cs c] ins_distinct [of cookie_id cs c]
  by (auto simp: list_ok_def list_all_iff)

lemma addCookie_ok:
  assumes "jar_ok j"
  shows "jar_ok (addCookie ins now c j)"
proof -
  let ?d = "stripDomain (c_host c)"
  let ?kept = "filter (\<lambda>k. \<not> same_cookie k c) (cookiesOf j ?d)"
  have "list_ok ?d ?kept" using assms by (simp add: jar_ok_def list_ok_filter)
  moreover have "cookie_id c \<notin> cookie_id ` set ?kept" by (auto simp: same_cookie_id)
  ultimately have "list_ok ?d (ins c ?kept)" by (rule list_ok_ins)
  with assms show ?thesis
    by (simp add: jar_ok_def domains_ok_addCookie cookiesOf_addCookie Let_def list_ok_filter)
qed

lemma addCookie_set:
  "set (cookiesOf (addCookie ins now c j) d) \<subseteq>
     (if d = stripDomain (c_host c) then insert c (set (cookiesOf j d)) else set (cookiesOf j d))"
  by (auto simp: cookiesOf_addCookie Let_def)

end

interpretation qt_insort: cookie_insort "inSort compareItems"
  by unfold_locales

lemma setDomainAdvice_ok: "jar_ok j \<Longrightarrow> jar_ok (setDomainAdvice d a j)"
  by (simp add: jar_ok_def jar_simps domains_ok_setDomainAdvice)

lemma setGlobalAdvice_ok: "jar_ok j \<Longrightarrow> jar_ok (setGlobalAdvice a j)"
  by (simp add: jar_ok_def jar_simps setGlobalAdvice_def)

lemma eatCookie_ok: "jar_ok j \<Longrightarrow> jar_ok (eatCookie c j)"
  by (simp add: jar_ok_def cookiesOf_eatCookie domains_ok_eatCookie list_ok_remove1)

lemma newKCookieJar_ok: "jar_ok newKCookieJar"
  by (simp add: jar_ok_def domains_ok_def newKCookieJar_def cookiesOf_def)

lemmas jar_ok_intros = setDomainAdvice_ok setGlobalAdvice_ok eatCookie_ok newKCookieJar_ok

subsection \<open>\<open>findCookies\<close> against its specification\<close>

text \<open>
  The cookies that may go to a URL, in the order of the jar, and the header they make: one
  line for Netscape cookies, one line each otherwise, as the first cookie decides.
\<close>

definition sendable :: "string \<Rightarrow> string \<Rightarrow> string \<Rightarrow> KCookie \<Rightarrow> bool" where
  "sendable fqdn domain path c \<longleftrightarrow>
     (if c_domain c \<noteq> [] then c_domain c = domain else c_host c = fqdn) \<and> is_prefix (c_path c) path"

definition sentCookies :: "cookie_env \<Rightarrow> string \<Rightarrow> KCookieJar \<Rightarrow> KCookie list" where
  "sentCookies E url jar = (case extractDomain E url of None \<Rightarrow> []
     | Some (fqdn, domain, path) \<Rightarrow> filter (sendable fqdn domain path) (cookiesOf jar domain))"

definition cookie_header :: "KCookie list \<Rightarrow> string" where
  "cookie_header cs = (case cs of [] \<Rightarrow> []
     | c # rest \<Rightarrow>
        (if protocolVersion c = 0
         then ''Cookie: '' @ getCookieStr c @ concat (map (\<lambda>c. ''; '' @ getCookieStr c) rest) @ [CR, LF]
         else concat (map (\<lambda>c. ''Cookie: '' @ getCookieStr c @ [CR, LF]) cs)))"

lemma findCookies_loop_filter:
  "findCookies_loop f d p cs pv n s = findCookies_loop f d p (filter (sendable f d p) cs) pv n s"
  by (induction cs arbitrary: pv n s) (auto simp: sendable_def find_str_0 Let_def)

lemma findCookies_loop_tail:
  assumes "list_all (sendable f d p) cs"
  shows "findCookies_loop f d p cs pv (Suc n) s = (pv, Suc n + length cs, s @ concat (map (\<lambda>c.
     (if pv = 0 then ''; '' @ getCookieStr c else ''Cookie: '' @ getCookieStr c @ [CR, LF])) cs))"
  using assms
  by (induction cs arbitrary: n s) (auto simp: sendable_def find_str_0 Let_def split: if_splits)

lemma findCookies_loop_all:
  assumes "list_all (sendable f d p) cs"
  shows "(case findCookies_loop f d p cs 1 0 [] of (pv, n, s) \<Rightarrow>
     (if pv = 0 \<and> n > 0 then s @ [CR, LF] else s)) = cookie_header cs"
proof (cases cs)
  case Nil
  then show ?thesis by (simp add: cookie_header_def)
next
  case (Cons c rest)
  then have c: "sendable f d p c" and rest: "list_all (sendable f d p) rest"
    using assms by simp_all
  have "findCookies_loop f d p cs 1 0 [] = findCookies_loop f d p rest (protocolVersion c) (Suc 0)
      (if protocolVersion c = 0 then ''Cookie: '' @ getCookieStr c
       else ''Cookie: '' @ getCookieStr c @ [CR, LF])"
    using c by (auto simp: Cons sendable_def find_str_0 Let_def)
  then show ?thesis
    by (simp add: findCookies_loop_tail [OF rest] cookie_header_def Cons)
qed

lemma findCookies_header: "findCookies E url jar = cookie_header (sentCookies E url jar)"
proof (cases "extractDomain E url")
  case None
  then show ?thesis by (simp add: findCookies_def sentCookies_def cookie_header_def)
next
  case (Some t)
  then obtain f d p where t: "extractDomain E url = Some (f, d, p)" by (cases t) auto
  show ?thesis
  proof (cases "cookieDomains jar d")
    case None
    with t show ?thesis
      by (simp add: findCookies_def sentCookies_def cookiesOf_def cookie_header_def)
  next
    case (Some cl)
    then have cs: "cookies cl = cookiesOf jar d" by (simp add: cookiesOf_def)
    have "list_all (sendable f d p) (filter (sendable f d p) (cookiesOf jar d))"
      by (simp add: list_all_iff)
    then show ?thesis
      using t Some findCookies_loop_all [of f d p "filter (sendable f d p) (cookiesOf jar d)"]
      by (simp add: findCookies_def sentCookies_def cs findCookies_loop_filter [of f d p "cookiesOf jar d"])
  qed
qed

text \<open>C1: \<open>findCookies\<close> computes the header of exactly the cookies that its specification
  selects: those of the URL's domain that match its host or domain and whose path is a prefix
  of the URL's path, in the order of the jar.\<close>

theorem findCookies_correct: "findCookies E url jar = cookie_header (sentCookies E url jar)"
  by (rule findCookies_header)

lemma sentCookies_lower:
  "c \<in> set (sentCookies E url jar) \<Longrightarrow> list_all (\<lambda>x. \<not> isupper x) (c_path c)"
proof -
  assume c: "c \<in> set (sentCookies E url jar)"
  then obtain f d p where t: "extractDomain E url = Some (f, d, p)"
    by (cases "extractDomain E url") (auto simp: sentCookies_def)
  with c have "is_prefix (c_path c) p" by (simp add: sentCookies_def sendable_def)
  moreover have "list_all (\<lambda>x. \<not> isupper x) p"
    using t by (auto simp: extractDomain_def Let_def list_all_iff split: if_splits dest: no_upper_lower)
  ultimately show ?thesis by (auto simp: is_prefix_iff list_all_iff)
qed

text \<open>two kinds of cookies are kept in the jar but never sent: a cookie whose path holds an
  upper case letter, because \<open>extractDomain\<close> puts the URL's path in lower case and the cookie's
  path is taken as it came, and a cookie whose domain is its own host name, which
  \<open>cookieAdvice\<close> accepts, because \<open>findCookies\<close> compares it with the stripped domain.\<close>

theorem findCookies_never_sent:
  assumes "jar_ok jar"
    and "list_ex isupper (c_path c) \<or> c_domain c \<noteq> [] \<and> c_domain c = c_host c \<and> stripDomain (c_host c) \<noteq> c_host c"
  shows "c \<notin> set (sentCookies E url jar)"
proof
  assume sent: "c \<in> set (sentCookies E url jar)"
  then obtain f d p where "c \<in> set (cookiesOf jar d)" "sendable f d p c"
    by (auto simp: sentCookies_def split: option.splits)
  moreover then have "stripDomain (c_host c) = d"
    using assms(1) by (auto simp: jar_ok_def list_ok_def list_all_iff)
  ultimately show False
    using assms(2) sentCookies_lower [OF sent] by (auto simp: sendable_def list_all_iff list_ex_iff)
qed

lemma jar_ok_single:
  "jar_ok (addCookie (inSort compareItems) now c newKCookieJar)"
  by (rule qt_insort.addCookie_ok) (rule newKCookieJar_ok)

theorem findCookies_never_sent_witness:
  "let c = mkCookie ''www.kde.org'' ''.kde.org'' ''/Doc'' ''id'' ''7'' 0 0;
       jar = addCookie (inSort compareItems) 5 c newKCookieJar;
       E = \<lparr>parse_url = \<lambda>u. \<lparr>url_protocol = ''http'', url_host = ''www.kde.org'', url_path = ''/Doc''\<rparr>,
            toInt = \<lambda>s. 0, mktime = \<lambda>t. 0, timezone = 0, time_now = 5\<rparr>
   in cookieAdvice c jar \<noteq> KCookieReject \<and> c \<in> set (cookiesOf jar ''.kde.org'') \<and> c \<notin> set (sentCookies E ''u'' jar)"
proof -
  let ?c = "mkCookie ''www.kde.org'' ''.kde.org'' ''/Doc'' ''id'' ''7'' 0 0"
  let ?j = "addCookie (inSort compareItems) 5 ?c newKCookieJar"
  have d: "stripDomain ''www.kde.org'' = ''.kde.org''"
    by (simp add: stripDomain_def strip_dots_def find_char_from_def)
  have "list_ex isupper (c_path ?c)" by (simp add: mkCookie_def char_eval)
  then have "?c \<notin> set (sentCookies E ''u'' ?j)" for E
    using findCookies_never_sent [OF jar_ok_single] by blast
  moreover have "cookiesOf ?j ''.kde.org'' = [?c]"
    using d by (simp add: cookiesOf_addCookie mkCookie_def isExpired_def cookiesOf_def newKCookieJar_def)
  moreover have "cookieAdvice ?c ?j \<noteq> KCookieReject"
    using d by (simp add: cookieAdvice_def mkCookie_def addCookie_def ensureDomain_def setCookies_def
        newKCookieJar_def cookiesOf_def isExpired_def)
  ultimately show ?thesis by simp
qed

text \<open>no cookie is withheld because it has expired: setting the expiry dates of the cookies
  of a domain to anything leaves every answer of \<open>findCookies\<close> as it was.\<close>

theorem findCookies_ignores_expiry:
  "findCookies E url (setCookies d (map (\<lambda>c. c\<lparr>expireDate := when c\<rparr>) (cookiesOf jar d)) jar)
   = findCookies E url jar"
proof -
  let ?f = "\<lambda>c. c\<lparr>expireDate := when c\<rparr>"
  have str: "getCookieStr (?f c) = getCookieStr c" "protocolVersion (?f c) = protocolVersion c"
    "sendable f e p (?f c) = sendable f e p c" for c f e p
    by (simp_all add: getCookieStr_def sendable_def)
  have comp: "sendable f e p \<circ> ?f = sendable f e p" for f e p by (auto simp: str)
  have head: "cookie_header (map ?f cs) = cookie_header cs" for cs
    by (cases cs) (simp_all add: cookie_header_def str o_def)
  have "cookiesOf (setCookies d (map ?f (cookiesOf jar d)) jar) e
      = (if e = d then map ?f (cookiesOf jar d) else cookiesOf jar e)" for e
    by (cases "cookieDomains jar d") (auto simp: setCookies_def cookiesOf_def)
  then have "sentCookies E url (setCookies d (map ?f (cookiesOf jar d)) jar)
      \<in> {sentCookies E url jar, map ?f (sentCookies E url jar)}"
    by (auto simp: sentCookies_def filter_map comp split: option.splits)
  then show ?thesis by (auto simp: findCookies_header head)
qed

subsection \<open>Adding a cookie\<close>

lemma getDomainAdvice_addCookie:
  "getDomainAdvice e (addCookie ins now c j) = getDomainAdvice e j"
proof -
  have fields: "getDomainAdvice e (k\<lparr>cookiesChanged := b\<rparr>) = getDomainAdvice e k" for k b
    by (simp add: getDomainAdvice_def)
  have "getDomainAdvice e (setCookies d cs k) = getDomainAdvice e k" for d cs k
    by (auto simp: getDomainAdvice_def setCookies_def split: option.splits)
  moreover have "getDomainAdvice e (ensureDomain d k) = getDomainAdvice e k" for d k
    by (auto simp: getDomainAdvice_def ensureDomain_def split: option.splits)
  ultimately show ?thesis by (simp add: addCookie_def Let_def fields)
qed

text \<open>adding a cookie replaces the cookie of the same name, domain and path, if there was
  one; an expired cookie only takes it away. No other cookie, list or advice changes, and the
  invariant of the jar is kept.\<close>

theorem addCookie_replaces:
  assumes "cookie_insort ins" "jar_ok jar" and d: "d = stripDomain (c_host c)"
  shows "set (cookiesOf (addCookie ins now c jar) d)
      = (if isExpired c now then {} else {c}) \<union> {k \<in> set (cookiesOf jar d). \<not> same_cookie k c}
    \<and> (\<forall>e. e \<noteq> d \<longrightarrow> cookiesOf (addCookie ins now c jar) e = cookiesOf jar e)
    \<and> (\<forall>e. getDomainAdvice e (addCookie ins now c jar) = getDomainAdvice e jar)
    \<and> jar_ok (addCookie ins now c jar)"
proof -
  have "set (ins c cs) = insert c (set cs)" for cs
    using qlist_insort.ins_set [OF cookie_insort.axioms [OF assms(1)]] .
  moreover have "jar_ok (addCookie ins now c jar)"
    using assms cookie_insort.addCookie_ok by blast
  ultimately show ?thesis
    by (auto simp: cookiesOf_addCookie Let_def d getDomainAdvice_addCookie)
qed

theorem addCookie_replaces_witness:
  "let c = mkCookie ''www.kde.org'' [] ''/'' ''id'' ''7'' 0 0;
       jar = addCookie (inSort compareItems) 5 c newKCookieJar
   in set (cookiesOf (addCookie (inSort compareItems) 5 (c\<lparr>expireDate := 1\<rparr>) jar) ''.kde.org'') = {}"
proof -
  have d: "stripDomain ''www.kde.org'' = ''.kde.org''"
    by (simp add: stripDomain_def strip_dots_def find_char_from_def)
  let ?c = "mkCookie ''www.kde.org'' [] ''/'' ''id'' ''7'' 0 0"
  have "cookiesOf (addCookie (inSort compareItems) 5 ?c newKCookieJar) ''.kde.org'' = [?c]"
    using d by (simp add: cookiesOf_addCookie mkCookie_def isExpired_def cookiesOf_def newKCookieJar_def)
  then have empty: "{k \<in> set (cookiesOf (addCookie (inSort compareItems) 5 ?c newKCookieJar) ''.kde.org'').
      \<not> same_cookie k (?c\<lparr>expireDate := 1\<rparr>)} = {}"
    by (simp add: same_cookie_def)
  have "isExpired (?c\<lparr>expireDate := 1\<rparr>) 5" "c_host (?c\<lparr>expireDate := 1\<rparr>) = ''www.kde.org''"
    by (simp_all add: isExpired_def mkCookie_def)
  then show ?thesis
    using addCookie_replaces [where c = "?c\<lparr>expireDate := 1\<rparr>" and now = 5,
        OF qt_insort.cookie_insort_axioms jar_ok_single [of 5 ?c] refl, THEN conjunct1] d
    unfolding Let_def by (simp only: empty if_True Un_empty)
qed

text \<open>the cookies for a URL are sent in the order of growing path length, the shortest path
  first. (The comment of \<open>addCookie\<close> says the list is sorted longest path first.)\<close>

theorem sentCookies_shortest_path_first:
  assumes "jar_ok jar"
  shows "sorted (map (\<lambda>c. length (c_path c)) (sentCookies E url jar))"
proof -
  have "sorted (map (\<lambda>c. length (c_path c)) (filter P (cookiesOf jar d)))" for P d
    using assms by (simp add: jar_ok_def list_ok_def sorted_map cookie_order.cmp_le sorted_wrt_filter)
  then show ?thesis by (simp add: sentCookies_def split: option.splits)
qed

theorem sentCookies_shortest_path_first_witness:
  "let a = mkCookie ''www.kde.org'' [] ''/'' ''id'' ''7'' 0 0; b = a\<lparr>c_path := ''/doc''\<rparr>;
       jar = addCookie (inSort compareItems) 5 a (addCookie (inSort compareItems) 5 b newKCookieJar);
       E = \<lparr>parse_url = \<lambda>u. \<lparr>url_protocol = ''http'', url_host = ''www.kde.org'', url_path = ''/doc''\<rparr>,
            toInt = \<lambda>s. 0, mktime = \<lambda>t. 0, timezone = 0, time_now = 5\<rparr>
   in sorted (map (\<lambda>c. length (c_path c)) (sentCookies E ''u'' jar)) \<and> sentCookies E ''u'' jar = [a, b]"
proof -
  have d: "stripDomain ''www.kde.org'' = ''.kde.org''"
    by (simp add: stripDomain_def strip_dots_def find_char_from_def)
  let ?a = "mkCookie ''www.kde.org'' [] ''/'' ''id'' ''7'' 0 0"
  let ?b = "?a\<lparr>c_path := ''/doc''\<rparr>"
  let ?j = "addCookie (inSort compareItems) 5 ?a (addCookie (inSort compareItems) 5 ?b newKCookieJar)"
  have "cookiesOf ?j ''.kde.org'' = [?a, ?b]"
    using d by (simp add: cookiesOf_addCookie mkCookie_def isExpired_def cookiesOf_def newKCookieJar_def
        same_cookie_def compareItems_def)
  moreover have "lower ''www.kde.org'' = ''www.kde.org''" "lower ''/doc'' = ''/doc''"
    by (simp_all add: lower_def char_eval)
  ultimately show ?thesis
    using d sentCookies_shortest_path_first [OF qt_insort.addCookie_ok [OF jar_ok_single [of 5 ?b]], of _ _ 5 ?a]
    by (simp add: sentCookies_def extractDomain_def strncmp_eq_def sendable_def mkCookie_def)
qed

end
