(* ===== verification/CookieFile.thy ===== *)
theory CookieFile
  imports CookieJar
begin

section \<open>The cookie file and the cookie configuration\<close>

text \<open>
  \<open>saveCookies\<close>, \<open>loadCookies\<close>, \<open>saveConfig\<close> and \<open>loadConfig\<close> of \<open>kfm/kcookiejar.cpp\<close>. A
  file system is a map from names to contents; whether the system calls that can fail for
  other reasons succeed is an argument. The entries of \<open>KConfig\<close> (kdelibs) that the jar uses
  are the fields of \<open>cookie_config\<close>.
\<close>

definition READ_BUFFER_SIZE :: nat where "READ_BUFFER_SIZE = 8192"

subsection \<open>\<open>saveCookies\<close>\<close>

definition cookie_line :: "KCookie \<Rightarrow> string" where
  "cookie_line c = pad_right 20 (c_host c) @ [SP] @ pad_right 20 ([DQ] @ c_domain c @ [DQ]) @ [SP]
     @ pad_right 12 ([DQ] @ c_path c @ [DQ]) @ [SP]
     @ pad_left 9 (dec_of_nat (nat (expireDate c mod 2 ^ 64))) @ [SP, SP, SP]
     @ pad_left 2 (dec_of_int (protocolVersion c)) @ [SP] @ pad_right 10 (c_name c) @ [SP]
     @ [DQ] @ c_value c @ [DQ, LF]"

definition file_magic :: string where
  "file_magic = ''# KDE Cookie File'' @ [LF]"

definition file_head :: string where
  "file_head = file_magic @ ''#'' @ [LF]
     @ pad_right 20 ''# Host'' @ [SP] @ pad_right 20 ''Domain'' @ [SP] @ pad_right 12 ''Path'' @ [SP]
     @ pad_right 9 ''Exp.date'' @ [SP] @ pad_right 4 ''Prot'' @ [SP] @ pad_right 10 ''Name'' @ [SP]
     @ ''Value'' @ [LF]"

text \<open>The inner loop: the text for one list, and the list without its expired cookies.\<close>

fun save_list :: "int \<Rightarrow> string \<Rightarrow> bool \<Rightarrow> KCookie list \<Rightarrow> string \<times> KCookie list" where
  "save_list curTime domain domainPrinted [] = ([], [])"
| "save_list curTime domain domainPrinted (c # cs) =
     (if isExpired c curTime then save_list curTime domain domainPrinted cs
      else if expireDate c \<noteq> 0 then
        (case save_list curTime domain True cs of (txt, kept) \<Rightarrow>
          ((if domainPrinted then [] else ''['' @ domain @ '']'' @ [LF]) @ cookie_line c @ txt, c # kept))
      else (case save_list curTime domain domainPrinted cs of (txt, kept) \<Rightarrow> (txt, c # kept)))"

fun save_domains :: "int \<Rightarrow> string list \<Rightarrow> KCookieJar \<Rightarrow> string \<times> KCookieJar" where
  "save_domains curTime [] jar = ([], jar)"
| "save_domains curTime (d # ds) jar =
     (case save_list curTime d False (cookiesOf jar d) of (txt, kept) \<Rightarrow>
       (case save_domains curTime ds (setCookies d kept jar) of (txt', jar') \<Rightarrow> (txt @ txt', jar')))"

record io_outcome =
  rename_ok :: bool
  create_ok :: bool
  fdopen_ok :: bool
  fclose_ok :: bool

type_synonym files = "string \<rightharpoonup> string"

definition rename_file :: "bool \<Rightarrow> string \<Rightarrow> string \<Rightarrow> files \<Rightarrow> files" where
  "rename_file ok f g fs = (case fs f of Some x \<Rightarrow> if ok then (fs(f := None))(g \<mapsto> x) else fs | None \<Rightarrow> fs)"

definition saveCookies :: "io_outcome \<Rightarrow> int \<Rightarrow> string \<Rightarrow> KCookieJar \<Rightarrow> files
    \<Rightarrow> bool \<times> KCookieJar \<times> files" where
  "saveCookies io curTime filename jar fs =
     (let backupFile = filename @ ''.bak'';
          fs1 = rename_file (rename_ok io) filename backupFile fs
      in if \<not> (create_ok io \<and> fs1 filename = None) then (False, jar, fs1)
         else if \<not> fdopen_ok io then (False, jar, fs1(filename \<mapsto> []))
         else case save_domains curTime (domainList jar) jar of (txt, jar') \<Rightarrow>
                (fclose_ok io, jar', fs1(filename \<mapsto> file_head @ txt)))"

subsection \<open>\<open>loadCookies\<close>\<close>

definition field_gap :: "char \<Rightarrow> bool" where
  "field_gap c \<longleftrightarrow> c = SP \<or> c = TAB \<or> c = LF"

text \<open>The field at the pointer and the pointer to the next field.\<close>

definition parseField :: "string \<Rightarrow> string \<times> string" where
  "parseField buffer =
     (let quoted = (at0 buffer = DQ);
          start = (if quoted then tl buffer else buffer);
          inside = (\<lambda>c. c \<noteq> NUL \<and> (if quoted then c \<noteq> DQ else \<not> field_gap c));
          result = takeWhile inside start;
          e = dropWhile inside start
      in if at0 e = NUL then (result, e) else (result, dropWhile field_gap (tl e)))"

definition load_line :: "(KCookie \<Rightarrow> KCookie list \<Rightarrow> KCookie list) \<Rightarrow> int \<Rightarrow> string \<Rightarrow> KCookieJar
    \<Rightarrow> KCookieJar" where
  "load_line ins curTime line0 jar =
     (if at0 line0 = CHR ''#'' \<or> at0 line0 = CHR ''['' then jar
      else
        let (host, line1) = parseField line0;
            (domain, line2) = parseField line1;
            (path, line3) = parseField line2;
            (expStr, line4) = parseField line3;
            expDate = to_int32 (fst (strtoul 10 expStr));
            (verStr, line5) = parseField line4;
            protVer = to_int32 (fst (strtoul 10 verStr));
            (name, line6) = parseField line5;
            (val, line7) = parseField line6
        in if expDate = 0 \<or> expDate < curTime then jar
           else if domain \<noteq> [] \<and> host \<noteq> domain \<and> stripDomain host \<noteq> domain then jar
           else addCookie ins curTime (mkCookie host domain path name val expDate protVer) jar)"

function load_lines :: "(KCookie \<Rightarrow> KCookie list \<Rightarrow> KCookie list) \<Rightarrow> int \<Rightarrow> string \<Rightarrow> KCookieJar
    \<Rightarrow> KCookieJar" where
  "load_lines ins curTime f jar = (case fgets READ_BUFFER_SIZE f of None \<Rightarrow> jar
     | Some (line, f') \<Rightarrow> load_lines ins curTime f' (load_line ins curTime line jar))"
  by pat_completeness auto
termination
  by (relation "measure (\<lambda>(ins, t, f, jar). length f)")
    (auto simp: READ_BUFFER_SIZE_def dest!: fgets_length)

declare load_lines.simps [simp del]

definition loadCookies :: "(KCookie \<Rightarrow> KCookie list \<Rightarrow> KCookie list) \<Rightarrow> int \<Rightarrow> string \<Rightarrow> files
    \<Rightarrow> KCookieJar \<Rightarrow> bool \<times> KCookieJar" where
  "loadCookies ins curTime filename fs jar = (case fs filename of None \<Rightarrow> (False, jar)
     | Some f \<Rightarrow>
         (case fgets READ_BUFFER_SIZE f of
            None \<Rightarrow> (True, jar)
          | Some (line, f') \<Rightarrow>
              (let err = (\<not> strcmp_eq line file_magic)
               in if \<not> err then (err, load_lines ins curTime f' jar) else (err, jar))))"

subsection \<open>The configuration\<close>

record cookie_config =
  CookieGlobalAdvice :: "string option"
  CookieDomainAdvice :: "string list"

definition adviceToStr :: "KCookieAdvice \<Rightarrow> string" where
  "adviceToStr adv = (case adv of KCookieAccept \<Rightarrow> ''Accept'' | KCookieReject \<Rightarrow> ''Reject''
     | KCookieAsk \<Rightarrow> ''Ask'' | KCookieDunno \<Rightarrow> ''Dunno'')"

definition strToAdvice :: "string \<Rightarrow> KCookieAdvice" where
  "strToAdvice str =
     (if strcasecmp_eq str ''Accept'' then KCookieAccept
      else if strcasecmp_eq str ''Reject'' then KCookieReject
      else if strcasecmp_eq str ''Ask'' then KCookieAsk
      else KCookieDunno)"

definition domain_setting :: "KCookieJar \<Rightarrow> string \<Rightarrow> string list" where
  "domain_setting jar domain =
     (let adv = getDomainAdvice domain jar
      in if adv \<noteq> KCookieDunno then [domain @ '':'' @ adviceToStr adv] else [])"

definition saveConfig :: "KCookieJar \<Rightarrow> cookie_config \<Rightarrow> cookie_config" where
  "saveConfig jar cfg =
     (if \<not> configChanged jar then cfg
      else \<lparr>CookieGlobalAdvice = Some (adviceToStr (globalAdvice jar)),
            CookieDomainAdvice = concat (map (domain_setting jar) (domainList jar))\<rparr>)"

text \<open>
  The reset loop walks the list of domains by index while \<open>setDomainAdvice\<close> may remove the
  current entry: then the entry after it becomes the current one, and \<open>next()\<close> goes past it.
\<close>

fun reset_loop :: "nat \<Rightarrow> nat \<Rightarrow> KCookieJar \<Rightarrow> KCookieJar" where
  "reset_loop 0 i jar = jar"
| "reset_loop (Suc n) i jar =
     (if i < length (domainList jar)
      then reset_loop n (Suc i) (setDomainAdvice (domainList jar ! i) KCookieDunno jar)
      else jar)"

definition load_setting :: "string \<Rightarrow> KCookieJar \<Rightarrow> KCookieJar" where
  "load_setting strVal jar = (case find_char CHR '':'' strVal of
       Some sepPos \<Rightarrow>
         (if sepPos \<le> 0 then jar
          else setDomainAdvice (take sepPos strVal) (strToAdvice (drop (sepPos + 1) strVal)) jar)
     | None \<Rightarrow> jar)"

definition loadConfig :: "cookie_config \<Rightarrow> KCookieJar \<Rightarrow> KCookieJar" where
  "loadConfig cfg jar =
     (let jar1 = reset_loop (length (domainList jar)) 0 jar;
          val = (case CookieGlobalAdvice cfg of Some v \<Rightarrow> v | None \<Rightarrow> ''Ask'');
          jar2 = jar1\<lparr>globalAdvice := strToAdvice val\<rparr>
      in foldl (\<lambda>j v. load_setting v j) jar2 (CookieDomainAdvice cfg))"

subsection \<open>A cookie line is read back\<close>

text \<open>
  The cookies that the format of the file can hold: no field with a line feed or a double
  quote, the unquoted fields without white space, the numbers within an \<open>int\<close>, and a line that
  fits into the buffer.
\<close>

definition storable_text :: "string \<Rightarrow> bool" where
  "storable_text s \<longleftrightarrow> list_all (\<lambda>c. c \<noteq> NUL \<and> c \<noteq> DQ \<and> c \<noteq> LF) s"

definition bare_word :: "string \<Rightarrow> bool" where
  "bare_word s \<longleftrightarrow> s \<noteq> [] \<and> hd s \<noteq> DQ \<and> list_all (\<lambda>c. c \<noteq> NUL \<and> \<not> field_gap c) s"

definition storable :: "KCookie \<Rightarrow> bool" where
  "storable c \<longleftrightarrow> bare_word (c_host c) \<and> hd (c_host c) \<notin> {CHR ''#'', CHR ''[''}
     \<and> bare_word (c_name c) \<and> storable_text (c_domain c) \<and> storable_text (c_path c) \<and> storable_text (c_value c)
     \<and> (c_domain c = [] \<or> c_domain c = c_host c \<or> c_domain c = stripDomain (c_host c))
     \<and> 0 < expireDate c \<and> expireDate c < 2 ^ 31 \<and> 0 \<le> protocolVersion c \<and> protocolVersion c < 2 ^ 31
     \<and> length (cookie_line c) < READ_BUFFER_SIZE"

lemma gap_simps [simp]: "field_gap SP" "field_gap TAB" "field_gap LF"
  by (simp_all add: field_gap_def)

lemma dropWhile_gap [simp]:
  assumes "\<not> field_gap (at0 r)"
  shows "dropWhile field_gap (replicate k SP @ r) = r"
proof -
  have "dropWhile field_gap r = r" using assms by (cases r) auto
  then show ?thesis by (induction k) simp_all
qed

lemma dropWhile_gap_SP [simp]:
  assumes "\<not> field_gap (at0 r)"
  shows "dropWhile field_gap (replicate k SP @ SP # r) = r"
  using dropWhile_gap [OF assms, of "Suc k"] by (simp add: replicate_app_Cons_same)

lemma bare_word_chars: "bare_word w \<Longrightarrow> \<forall>c\<in>set w. c \<noteq> NUL \<and> \<not> field_gap c"
  by (simp add: bare_word_def list_all_iff)

lemma bare_word_quote: "bare_word w \<Longrightarrow> at0 (w @ t) \<noteq> DQ"
  by (cases w) (simp_all add: bare_word_def)

lemma parseField_bare:
  assumes w: "bare_word w" and r: "\<not> field_gap (at0 r)"
  shows "parseField (w @ replicate k SP @ SP # r) = (w, r)"
proof -
  let ?P = "\<lambda>c. c \<noteq> NUL \<and> \<not> field_gap c"
  have eq: "replicate k SP @ SP # r = SP # replicate k SP @ r" by (simp add: replicate_app_Cons_same)
  have "takeWhile ?P (w @ SP # replicate k SP @ r) = w"
    "dropWhile ?P (w @ SP # replicate k SP @ r) = SP # replicate k SP @ r"
    using bare_word_chars [OF w] by (intro takeWhile_stop dropWhile_stop; simp)+
  then show ?thesis
    using bare_word_quote [OF w] dropWhile_gap [OF r] unfolding parseField_def eq Let_def by simp
qed

lemma parseField_quoted:
  assumes "storable_text w" "\<not> field_gap (at0 r)"
  shows "parseField (DQ # w @ DQ # replicate k SP @ SP # r) = (w, r)"
proof -
  have "\<forall>c\<in>set w. c \<noteq> NUL \<and> c \<noteq> DQ" using assms(1) by (auto simp: storable_text_def list_all_iff)
  then show ?thesis using assms(2) by (simp add: parseField_def)
qed

lemma parseField_quoted_last:
  "storable_text w \<Longrightarrow> parseField (DQ # w @ [DQ, LF]) = (w, [])"
  by (auto simp: parseField_def storable_text_def list_all_iff)

lemma isdigit_not_gap: "isdigit c \<Longrightarrow> \<not> field_gap c \<and> c \<noteq> DQ \<and> c \<noteq> NUL \<and> c \<noteq> LF"
  by (auto simp: isdigit_def field_gap_def code_def)

lemma bare_dec: "bare_word (dec_of_nat n)"
  using dec_of_nat_digits [of n] hd_in_set [OF dec_of_nat_nonempty [of n]]
  by (auto simp: bare_word_def list_all_iff isdigit_not_gap)

lemma at0_dec [simp]: "\<not> field_gap (at0 (dec_of_nat n @ r))"
  using bare_dec [of n] by (cases "dec_of_nat n") (auto simp: bare_word_def)

lemma at0_bare: "bare_word w \<Longrightarrow> \<not> field_gap (at0 (w @ r))"
  by (cases w) (auto simp: bare_word_def)

lemma pad_right_gap: "pad_right n s @ SP # r = s @ replicate (n - length s) SP @ SP # r"
  by (simp add: pad_right_def)

lemma pad_quoted_gap:
  "pad_right n (DQ # s @ [DQ]) @ SP # r = DQ # s @ DQ # replicate (n - (2 + length s)) SP @ SP # r"
  by (simp add: pad_right_def)

lemma pad_left_gap:
  "replicate k SP @ SP # pad_left n s @ r = replicate (k + (n - length s)) SP @ SP # s @ r"
  by (simp add: pad_left_def replicate_add replicate_app_Cons_same)

lemma parseField_bare_SP:
  assumes "bare_word w" "\<not> field_gap (at0 r)"
  shows "parseField (w @ SP # r) = (w, r)"
  using parseField_bare [OF assms, of 0] by simp


lemma cookie_line_fields:
  assumes "storable c"
  defines "e \<equiv> dec_of_nat (nat (expireDate c))" and "v \<equiv> dec_of_nat (nat (protocolVersion c))"
  shows "\<exists>k1 k2 k3 k4 k5. cookie_line c =
     c_host c @ replicate k1 SP @ SP # DQ # c_domain c @ DQ # replicate k2 SP @ SP #
     DQ # c_path c @ DQ # replicate k3 SP @ SP # e @ replicate k4 SP @ SP #
     v @ SP # c_name c @ replicate k5 SP @ SP # DQ # c_value c @ [DQ, LF]"
proof -
  have e: "expireDate c mod 18446744073709551616 = expireDate c"
    and v: "dec_of_int (protocolVersion c) = v"
    using assms(1) by (simp_all add: storable_def v_def dec_of_int_def)
  have pad: "SP # SP # SP # pad_left n s @ r = replicate (2 + (n - length s)) SP @ SP # s @ r" for n s r
    using pad_left_gap [of 2 n s r] by (simp add: eval_nat_numeral)
  let ?k2 = "20 - (2 + length (c_domain c))" and ?k3 = "12 - (2 + length (c_path c)) + (9 - length e)"
  have "cookie_line c =
     c_host c @ replicate (20 - length (c_host c)) SP @ SP # DQ # c_domain c @ DQ # replicate ?k2 SP @ SP #
     DQ # c_path c @ DQ # replicate ?k3 SP @ SP # e @ replicate (2 + (2 - length v)) SP @ SP #
     v @ SP # c_name c @ replicate (10 - length (c_name c)) SP @ SP # DQ # c_value c @ [DQ, LF]"
    by (simp add: cookie_line_def e v pad_right_gap [of _ "c_host c"]
        pad_right_gap [of _ "c_name c"] pad_quoted_gap pad pad_left_gap e_def)
  then show ?thesis by blast
qed

lemma strtoul_dec_int:
  "0 \<le> i \<Longrightarrow> i < 2 ^ 31 \<Longrightarrow> to_int32 (fst (strtoul 10 (dec_of_nat (nat i)))) = i"
  using strtoul_dec [of "[]" "nat i"] by (simp add: ULONG_MAX_def isdigit_def code_def)

lemma parsed_cookie: "mkCookie (c_host c) (c_domain c) (c_path c) (c_name c) (c_value c)
    (expireDate c) (protocolVersion c) = c"
  by (simp add: mkCookie_def)

lemma load_line_cookie:
  assumes c: "storable c"
  shows "load_line ins now (cookie_line c) jar = (if isExpired c now then jar else addCookie ins now c jar)"
proof -
  define e where "e = dec_of_nat (nat (expireDate c))"
  define v where "v = dec_of_nat (nat (protocolVersion c))"
  obtain k1 k2 k3 k4 k5 where line: "cookie_line c =
     c_host c @ replicate k1 SP @ SP # DQ # c_domain c @ DQ # replicate k2 SP @ SP #
     DQ # c_path c @ DQ # replicate k3 SP @ SP # e @ replicate k4 SP @ SP #
     v @ SP # c_name c @ replicate k5 SP @ SP # DQ # c_value c @ [DQ, LF]"
    using cookie_line_fields [OF c] by (auto simp: e_def v_def)
  have host: "bare_word (c_host c)" and nm: "bare_word (c_name c)" and ev: "bare_word e" "bare_word v"
    and quot: "storable_text (c_domain c)" "storable_text (c_path c)" "storable_text (c_value c)"
    using c by (simp_all add: storable_def e_def v_def bare_dec)
  have first: "at0 (cookie_line c) \<noteq> CHR ''#''" "at0 (cookie_line c) \<noteq> CHR ''[''"
    using c unfolding line by (cases "c_host c"; simp add: storable_def bare_word_def)+
  have nums: "to_int32 (fst (strtoul 10 e)) = expireDate c" "to_int32 (fst (strtoul 10 v)) = protocolVersion c"
    "expireDate c \<noteq> 0"
    using c by (simp_all add: storable_def e_def v_def strtoul_dec_int)
  have dom: "\<not> (c_domain c \<noteq> [] \<and> c_host c \<noteq> c_domain c \<and> stripDomain (c_host c) \<noteq> c_domain c)"
    using c by (auto simp: storable_def)
  have gaps: "\<not> field_gap (at0 (DQ # r))" "\<not> field_gap (at0 (e @ r))" "\<not> field_gap (at0 (v @ r))"
    "\<not> field_gap (at0 (c_name c @ r))" for r
    using at0_bare [OF nm] at0_bare [OF ev(1)] at0_bare [OF ev(2)] by (simp_all add: field_gap_def)
  note fields = parseField_bare [OF host] parseField_bare [OF nm] parseField_bare [OF ev(1)]
    parseField_bare_SP [OF ev(2)] parseField_quoted [OF quot(1)] parseField_quoted [OF quot(2)]
    parseField_quoted_last [OF quot(3)]
  have "load_line ins now (cookie_line c) jar = (if expireDate c = 0 \<or> expireDate c < now then jar
      else addCookie ins now c jar)"
    using first dom unfolding load_line_def
    by (simp only: line fields gaps Let_def case_prod_conv nums parsed_cookie if_False de_Morgan_disj simp_thms)
  then show ?thesis using nums(3) by (simp add: isExpired_def)
qed


subsection \<open>The whole file is read back\<close>

lemma load_lines_Nil [simp]: "load_lines ins now [] jar = jar"
  by (subst load_lines.simps) (simp add: fgets_def)

lemma load_lines_line:
  assumes "LF \<notin> set a" "length a + 1 < READ_BUFFER_SIZE"
  shows "load_lines ins now (a @ LF # r) jar = load_lines ins now r (load_line ins now (a @ [LF]) jar)"
  by (subst load_lines.simps) (simp add: fgets_line [OF assms])

lemma bare_word_LF: "bare_word w \<Longrightarrow> LF \<notin> set w"
  using bare_word_chars by fastforce

lemma storable_text_LF: "storable_text w \<Longrightarrow> LF \<notin> set w"
  by (auto simp: storable_text_def list_all_iff)

lemma storable_line:
  assumes c: "storable c"
  shows "\<exists>a. cookie_line c = a @ [LF] \<and> LF \<notin> set a \<and> length a + 1 < READ_BUFFER_SIZE"
proof -
  obtain k1 k2 k3 k4 k5 where line: "cookie_line c =
     (c_host c @ replicate k1 SP @ SP # DQ # c_domain c @ DQ # replicate k2 SP @ SP #
     DQ # c_path c @ DQ # replicate k3 SP @ SP # dec_of_nat (nat (expireDate c)) @ replicate k4 SP @ SP #
     dec_of_nat (nat (protocolVersion c)) @ SP # c_name c @ replicate k5 SP @ SP # DQ # c_value c @ [DQ]) @ [LF]"
    using cookie_line_fields [OF c] by auto
  have "LF \<notin> set (c_host c)" "LF \<notin> set (c_name c)" "LF \<notin> set (c_domain c)" "LF \<notin> set (c_path c)"
    "LF \<notin> set (c_value c)" "LF \<notin> set (dec_of_nat n)" for n
    using c bare_dec [of n] by (simp_all add: storable_def bare_word_LF storable_text_LF)
  then have "LF \<notin> set (butlast (cookie_line c))" unfolding line butlast_snoc by auto
  moreover have "length (butlast (cookie_line c)) + 1 < READ_BUFFER_SIZE"
    using c line by (simp add: storable_def)
  moreover have "cookie_line c = butlast (cookie_line c) @ [LF]" unfolding line butlast_snoc by (rule refl)
  ultimately show ?thesis by blast
qed

lemma load_lines_cookie:
  assumes "storable c"
  shows "load_lines ins now (cookie_line c @ r) jar
    = load_lines ins now r (if isExpired c now then jar else addCookie ins now c jar)"
proof -
  obtain a where a: "cookie_line c = a @ [LF]" "LF \<notin> set a" "length a + 1 < READ_BUFFER_SIZE"
    using storable_line [OF assms] by blast
  then show ?thesis
    using load_lines_line [OF a(2,3), of ins now r jar] load_line_cookie [OF assms, of ins now jar] by simp
qed

lemma strip_dots_chars: "set (strip_dots h) \<subseteq> set h \<and> length (strip_dots h) \<le> length h"
  using set_dropWhileD [of _ "\<lambda>c. c = CHR ''.''" "rev h"] length_dropWhile [of "\<lambda>c. c = CHR ''.''" "rev h"]
  by (auto simp: strip_dots_def)

lemma stripDomain_chars: "set (stripDomain h) \<subseteq> insert CHR ''.'' (set h) \<and> length (stripDomain h) \<le> Suc (length h)"
proof -
  consider "stripDomain h = strip_dots h" | "stripDomain h = CHR ''.'' # h"
    | a where "strip_dots h = a @ stripDomain h"
    using stripDomain_cases [of h] by blast
  then show ?thesis
  proof cases
    case 3
    have "set (stripDomain h) \<subseteq> set (strip_dots h)" "length (stripDomain h) \<le> length (strip_dots h)"
      unfolding 3 by auto
    then show ?thesis using strip_dots_chars [of h] by fastforce
  qed (use strip_dots_chars [of h] in auto)
qed

lemma load_lines_domain:
  assumes "storable c"
  shows "load_lines ins now (''['' @ stripDomain (c_host c) @ '']'' @ LF # r) jar = load_lines ins now r jar"
proof -
  let ?a = "''['' @ stripDomain (c_host c) @ '']''"
  have "LF \<notin> set (c_host c)" "length (cookie_line c) < READ_BUFFER_SIZE"
    using assms by (simp_all add: storable_def bare_word_LF)
  moreover have "length (c_host c) + 10 \<le> length (cookie_line c)"
    by (simp add: cookie_line_def pad_right_def pad_left_def)
  ultimately have "LF \<notin> set ?a" "length ?a + 1 < READ_BUFFER_SIZE"
    using stripDomain_chars [of "c_host c"] by auto
  from load_lines_line [OF this, of ins now r jar] show ?thesis by (simp add: load_line_def)
qed

definition persistent :: "int \<Rightarrow> KCookie list \<Rightarrow> KCookie list" where
  "persistent now cs = filter (\<lambda>c. expireDate c \<noteq> 0 \<and> \<not> isExpired c now) cs"

lemma persistent_later: "now \<le> later \<Longrightarrow> c \<in> set (persistent later cs) \<Longrightarrow> c \<in> set (persistent now cs)"
  by (auto simp: persistent_def isExpired_def)

abbreviation add_all where
  "add_all ins now j cs \<equiv> foldl (\<lambda>j c. addCookie ins now c j) j cs"

lemma save_list_kept: "snd (save_list now d b cs) = filter (\<lambda>c. \<not> isExpired c now) cs"
  by (induction cs arbitrary: b) (simp_all add: split_beta)

lemma load_saved_list:
  assumes "now \<le> later" "\<forall>c\<in>set (persistent now cs). storable c \<and> stripDomain (c_host c) = d"
  shows "load_lines ins later (fst (save_list now d b cs) @ r) jar
    = load_lines ins later r (add_all ins later jar (persistent later cs))"
  using assms(2)
proof (induction cs arbitrary: b jar)
  case (Cons c cs)
  show ?case
  proof (cases "isExpired c now")
    case True
    then have "isExpired c later" using assms(1) by (auto simp: isExpired_def)
    with True Cons show ?thesis by (simp add: persistent_def)
  next
    case False
    show ?thesis
    proof (cases "expireDate c = 0")
      case True
      with False Cons show ?thesis by (simp add: persistent_def split_beta)
    next
      case exp: False
      with False Cons.prems have c: "storable c" "stripDomain (c_host c) = d" by (simp_all add: persistent_def)
      have IH: "load_lines ins later (fst (save_list now d True cs) @ r) jar
          = load_lines ins later r (add_all ins later jar (persistent later cs))" for jar
        using Cons exp False by (simp add: persistent_def)
      have head: "load_lines ins later ((if b then [] else ''['' @ d @ '']'' @ [LF]) @ t) jar
          = load_lines ins later t jar" for t
        using load_lines_domain [OF c(1), of ins later t jar] c(2) by simp
      show ?thesis
        using exp False by (simp add: split_beta head [simplified] load_lines_cookie [OF c(1)] IH persistent_def)
    qed
  qed
qed (simp add: persistent_def)


lemma cookiesOf_setCookies_other: "e \<noteq> d \<Longrightarrow> cookiesOf (setCookies d cs j) e = cookiesOf j e"
  by (simp add: setCookies_def cookiesOf_def)

lemma load_saved_domains:
  assumes "now \<le> later" "distinct ds"
    and "\<forall>d\<in>set ds. \<forall>c\<in>set (persistent now (cookiesOf jar d)). storable c \<and> stripDomain (c_host c) = d"
  shows "load_lines ins later (fst (save_domains now ds jar) @ r) j
    = load_lines ins later r (add_all ins later j (concat (map (\<lambda>d. persistent later (cookiesOf jar d)) ds)))"
  using assms(2,3)
proof (induction ds arbitrary: jar j)
  case (Cons d ds)
  let ?jar = "setCookies d (snd (save_list now d False (cookiesOf jar d))) jar"
  have same: "cookiesOf ?jar e = cookiesOf jar e" if "e \<in> set ds" for e
    using that Cons.prems(1) by (metis cookiesOf_setCookies_other distinct.simps(2))
  then have maps: "map (\<lambda>d. persistent later (cookiesOf ?jar d)) ds = map (\<lambda>d. persistent later (cookiesOf jar d)) ds"
    by simp
  have "load_lines ins later (fst (save_domains now ds ?jar) @ r) j
    = load_lines ins later r (add_all ins later j (concat (map (\<lambda>d. persistent later (cookiesOf jar d)) ds)))" for j
    unfolding maps [symmetric] using Cons.prems same by (intro Cons.IH) auto
  then show ?case
    using Cons.prems by (simp add: split_beta load_saved_list [OF assms(1)])
qed simp

lemma load_file_head:
  "\<exists>rest. fgets READ_BUFFER_SIZE (file_head @ t) = Some (file_magic, rest)
    \<and> load_lines ins now rest jar = load_lines ins now t jar"
proof -
  let ?l2 = "''#''" and ?l3 = "pad_right 20 ''# Host'' @ [SP] @ pad_right 20 ''Domain'' @ [SP] @ pad_right 12 ''Path'' @ [SP]
     @ pad_right 9 ''Exp.date'' @ [SP] @ pad_right 4 ''Prot'' @ [SP] @ pad_right 10 ''Name'' @ [SP] @ ''Value''"
  have head: "file_head @ t = ''# KDE Cookie File'' @ LF # ?l2 @ LF # ?l3 @ LF # t"
    by (simp add: file_head_def file_magic_def)
  have l2: "load_lines ins now (?l2 @ LF # r) jar = load_lines ins now r jar" for r
    by (subst load_lines_line) (simp_all add: READ_BUFFER_SIZE_def load_line_def)
  have l3: "load_lines ins now (?l3 @ LF # r) jar = load_lines ins now r jar" for r
    by (subst load_lines_line) (simp_all add: READ_BUFFER_SIZE_def load_line_def pad_right_def)
  have "fgets READ_BUFFER_SIZE (file_head @ t) = Some (file_magic, ?l2 @ LF # ?l3 @ LF # t)"
    unfolding head by (subst fgets_line) (simp_all add: READ_BUFFER_SIZE_def file_magic_def)
  then show ?thesis using l2 l3 by auto
qed

lemma cookiesOf_new [simp]: "cookiesOf newKCookieJar d = []"
  by (simp add: cookiesOf_def newKCookieJar_def)

lemma add_all_distinct:
  assumes "cookie_insort ins" "\<forall>c\<in>set cs. \<not> isExpired c now"
    and "distinct (map (\<lambda>c. (stripDomain (c_host c), cookie_id c)) cs)"
  shows "set (cookiesOf (add_all ins now newKCookieJar cs) d) = {c \<in> set cs. stripDomain (c_host c) = d}"
  using assms(2,3)
proof (induction cs arbitrary: d rule: rev_induct)
  case (snoc c cs)
  have ins: "set (ins c l) = insert c (set l)" for l
    using qlist_insort.ins_set [OF cookie_insort.axioms [OF assms(1)]] .
  have IH: "set (cookiesOf (add_all ins now newKCookieJar cs) d) = {c \<in> set cs. stripDomain (c_host c) = d}" for d
    using snoc by simp
  have "\<not> same_cookie k c" if "k \<in> set cs" "stripDomain (c_host k) = stripDomain (c_host c)" for k
    using snoc.prems(2) that by (fastforce simp: same_cookie_id image_iff)
  then show ?case
    using snoc.prems(1) by (auto simp: cookiesOf_addCookie Let_def ins IH)
qed simp


lemma distinct_domains:
  assumes "\<forall>d. list_ok d (f d)" "distinct ds"
  shows "distinct (map (\<lambda>c. (stripDomain (c_host c), cookie_id c)) (concat (map (\<lambda>d. filter P (f d)) ds)))"
  using assms(2)
proof (induction ds)
  case (Cons d ds)
  have dom: "stripDomain (c_host c) = e" if "c \<in> set (f e)" for c e
    using assms(1) that by (auto simp: list_ok_def list_all_iff)
  have "distinct (map cookie_id (filter P (f d)))"
    using assms(1) list_ok_filter [of d "f d" P] by (simp add: list_ok_def)
  then have "distinct (map (\<lambda>c. (stripDomain (c_host c), cookie_id c)) (filter P (f d)))"
    unfolding distinct_map by (auto simp: inj_on_def)
  moreover have "(\<lambda>c. (stripDomain (c_host c), cookie_id c)) ` {c \<in> set (f d). P c}
      \<inter> (\<lambda>c. (stripDomain (c_host c), cookie_id c)) ` (\<Union>e\<in>set ds. {c \<in> set (f e). P c}) = {}"
    using Cons.prems dom by auto
  ultimately show ?case using Cons by simp
qed simp

lemma jar_ok_member:
  assumes "jar_ok jar" "c \<in> set (cookiesOf jar d)"
  shows "stripDomain (c_host c) = d \<and> d \<in> set (domainList jar)"
proof -
  have "list_ok d (cookiesOf jar d)" "set (domainList jar) = dom (cookieDomains jar)"
    using assms(1) by (simp_all add: jar_ok_def domains_ok_def)
  moreover have "cookieDomains jar d \<noteq> None" using assms(2) by (cases "cookieDomains jar d") (auto simp: cookiesOf_def)
  then have "d \<in> dom (cookieDomains jar)" by blast
  ultimately show ?thesis using assms(2) by (simp add: list_ok_def list_all_iff)
qed

lemma load_saved_cookies:
  assumes "jar_ok jar" "now \<le> later" "\<forall>d. \<forall>c\<in>set (persistent now (cookiesOf jar d)). storable c"
  shows "snd (loadCookies ins later f (fs(f \<mapsto> file_head @ fst (save_domains now (domainList jar) jar))) j)
    = add_all ins later j (concat (map (\<lambda>d. persistent later (cookiesOf jar d)) (domainList jar)))"
proof -
  let ?txt = "fst (save_domains now (domainList jar) jar)"
  have ok: "\<forall>d\<in>set (domainList jar). \<forall>c\<in>set (persistent now (cookiesOf jar d)). storable c \<and> stripDomain (c_host c) = d"
    using assms by (auto simp: persistent_def jar_ok_def list_ok_def list_all_iff)
  have dist: "distinct (domainList jar)" using assms(1) by (simp add: jar_ok_def domains_ok_def)
  obtain rest where "fgets READ_BUFFER_SIZE (file_head @ ?txt) = Some (file_magic, rest)"
    "load_lines ins later rest j = load_lines ins later ?txt j"
    using load_file_head by blast
  then show ?thesis
    using load_saved_domains [OF assms(2) dist ok, of ins "[]" j]
    by (simp add: loadCookies_def strcmp_eq_def)
qed

text \<open>C4: the cookie file round trip: the cookies that a new jar loads from the file that
  \<open>saveCookies\<close> wrote are, domain by domain, exactly the persistent cookies of the saved jar that
  have not expired in between, if the format can hold them.\<close>

theorem cookie_file_roundtrip:
  assumes "cookie_insort ins" "jar_ok jar" "now \<le> later"
    and "\<forall>d. \<forall>c\<in>set (persistent now (cookiesOf jar d)). storable c"
    and "saveCookies io now f jar fs = (True, jar', fs')"
  shows "set (cookiesOf (snd (loadCookies ins later f fs' newKCookieJar)) d)
    = {c \<in> set (cookiesOf jar d). expireDate c \<noteq> 0 \<and> \<not> isExpired c later}"
proof -
  let ?cs = "concat (map (\<lambda>d. persistent later (cookiesOf jar d)) (domainList jar))"
  obtain fs1 where fs': "fs' = fs1(f \<mapsto> file_head @ fst (save_domains now (domainList jar) jar))"
    using assms(5) by (auto simp: saveCookies_def Let_def split: if_splits prod.splits)
  have "distinct (map (\<lambda>c. (stripDomain (c_host c), cookie_id c)) ?cs)"
    unfolding persistent_def
    using assms(2) by (intro distinct_domains) (simp_all add: jar_ok_def domains_ok_def)
  moreover have "\<forall>c\<in>set ?cs. \<not> isExpired c later" by (auto simp: persistent_def)
  ultimately have "set (cookiesOf (snd (loadCookies ins later f fs' newKCookieJar)) d)
      = {c \<in> set ?cs. stripDomain (c_host c) = d}"
    unfolding fs' load_saved_cookies [OF assms(2,3,4)] by (intro add_all_distinct [OF assms(1)])
  moreover note jar_ok_member [OF assms(2)]
  ultimately show ?thesis by (auto simp: persistent_def)
qed

text \<open>\<open>saveCookies\<close> never loses the file that was there: whatever fails, its contents
  are afterwards under its own name or under that of the backup, and no other file is touched.\<close>

theorem saveCookies_keeps_old_file:
  assumes "saveCookies io now f jar fs = (ok, jar', fs')" "fs f = Some old"
  shows "(fs' f = Some old \<and> \<not> ok \<or> fs' (f @ ''.bak'') = Some old)
    \<and> (\<forall>g. g \<noteq> f \<and> g \<noteq> f @ ''.bak'' \<longrightarrow> fs' g = fs g)"
  using assms by (auto simp: saveCookies_def rename_file_def Let_def split: if_splits prod.splits)


text \<open>A jar for the witnesses: one persistent cookie of \<open>www.kde.org\<close>.\<close>

definition sample_cookie :: KCookie where
  "sample_cookie = mkCookie ''www.kde.org'' [] ''/'' ''id'' ''a b'' 2000 0"

definition sample_jar :: KCookieJar where
  "sample_jar = addCookie (inSort compareItems) 5 sample_cookie newKCookieJar"

lemma sample_domain: "stripDomain ''www.kde.org'' = ''.kde.org''"
  by (simp add: stripDomain_def strip_dots_def find_char_from_def)

lemma sample_jar_cookies: "cookiesOf sample_jar d = (if d = ''.kde.org'' then [sample_cookie] else [])"
  using sample_domain
  by (simp add: sample_jar_def cookiesOf_addCookie sample_cookie_def mkCookie_def isExpired_def)

lemma dec_2000: "dec_of_nat 2000 = ''2000''"
  by (simp add: dec_of_nat.simps digit_char_def char_of_eq code_def)

lemma sample_storable: "storable sample_cookie"
  by (simp add: storable_def sample_cookie_def mkCookie_def bare_word_def storable_text_def field_gap_def
      cookie_line_def pad_right_def pad_left_def dec_of_int_def dec_2000 READ_BUFFER_SIZE_def dec_of_nat.simps [of 0])

theorem cookie_file_roundtrip_witness:
  "let io = \<lparr>rename_ok = True, create_ok = True, fdopen_ok = True, fclose_ok = True\<rparr>;
       fs' = snd (snd (saveCookies io 6 ''cookies'' sample_jar Map.empty))
   in set (cookiesOf (snd (loadCookies (inSort compareItems) 7 ''cookies'' fs' newKCookieJar)) ''.kde.org'')
      = {sample_cookie}"
proof -
  let ?io = "\<lparr>rename_ok = True, create_ok = True, fdopen_ok = True, fclose_ok = True\<rparr>"
  obtain j' fs' where saved: "saveCookies ?io 6 ''cookies'' sample_jar Map.empty = (True, j', fs')"
    by (cases "save_domains 6 (domainList sample_jar) sample_jar") (auto simp: saveCookies_def rename_file_def)
  have "jar_ok sample_jar" by (simp add: sample_jar_def jar_ok_single)
  moreover have "\<forall>d. \<forall>c\<in>set (persistent 6 (cookiesOf sample_jar d)). storable c"
    by (auto simp: persistent_def sample_jar_cookies sample_storable)
  ultimately have "set (cookiesOf (snd (loadCookies (inSort compareItems) 7 ''cookies'' fs' newKCookieJar)) ''.kde.org'')
      = {c \<in> set (cookiesOf sample_jar ''.kde.org''). expireDate c \<noteq> 0 \<and> \<not> isExpired c 7}"
    by (intro cookie_file_roundtrip [OF qt_insort.cookie_insort_axioms _ _ _ saved]) simp_all
  moreover have "expireDate sample_cookie \<noteq> 0 \<and> \<not> isExpired sample_cookie 7"
    by (simp add: sample_cookie_def mkCookie_def isExpired_def)
  ultimately show ?thesis using saved by (auto simp: sample_jar_cookies)
qed

theorem saveCookies_keeps_old_file_witness:
  "snd (snd (saveCookies \<lparr>rename_ok = True, create_ok = True, fdopen_ok = False, fclose_ok = True\<rparr> 6 ''c''
     sample_jar [''c'' \<mapsto> ''old''])) ''c.bak'' = Some ''old''"
  using saveCookies_keeps_old_file [of "\<lparr>rename_ok = True, create_ok = True, fdopen_ok = False, fclose_ok = True\<rparr>"
      6 "''c''" sample_jar "[''c'' \<mapsto> ''old'']"]
  by (simp add: saveCookies_def rename_file_def)

subsection \<open>The configuration is read back\<close>

lemma strToAdvice_adviceToStr [simp]: "strToAdvice (adviceToStr a) = a"
  by (cases a) (simp_all add: strToAdvice_def adviceToStr_def strcasecmp_eq_def char_eval)

lemma load_setting_saved:
  assumes "d \<noteq> []" "CHR '':'' \<notin> set d"
  shows "load_setting (d @ '':'' @ adviceToStr a) j = setDomainAdvice d a j"
  using assms by (simp add: load_setting_def)

lemma getDomainAdvice_setDomainAdvice:
  "getDomainAdvice e (setDomainAdvice d a j) = (if e = d then a else getDomainAdvice e j)"
  by (auto simp: getDomainAdvice_def setDomainAdvice_def removeDomain_def Let_def split: option.splits)

lemma globalAdvice_setDomainAdvice [simp]: "globalAdvice (setDomainAdvice d a j) = globalAdvice j"
  by (auto simp: setDomainAdvice_def removeDomain_def Let_def split: option.splits)

lemma load_settings_saved:
  assumes "\<forall>d\<in>set ds. d \<noteq> [] \<and> CHR '':'' \<notin> set d"
  shows "globalAdvice (foldl (\<lambda>j v. load_setting v j) j (concat (map (domain_setting jar) ds))) = globalAdvice j
    \<and> getDomainAdvice e (foldl (\<lambda>j v. load_setting v j) j (concat (map (domain_setting jar) ds))) =
    (if e \<in> set ds \<and> getDomainAdvice e jar \<noteq> KCookieDunno then getDomainAdvice e jar else getDomainAdvice e j)"
  using assms
proof (induction ds arbitrary: j)
  case (Cons d ds)
  then show ?case
    by (auto simp: domain_setting_def Let_def load_setting_saved [simplified] getDomainAdvice_setDomainAdvice)
qed simp

text \<open>the configuration round trip: a new jar that loads what \<open>saveConfig\<close> wrote answers
  for every domain and globally with the advice of the saved jar.\<close>

theorem config_roundtrip:
  assumes "domains_ok jar" "configChanged jar" "\<forall>d\<in>set (domainList jar). d \<noteq> [] \<and> CHR '':'' \<notin> set d"
  shows "globalAdvice (loadConfig (saveConfig jar cfg) newKCookieJar) = globalAdvice jar
    \<and> getDomainAdvice d (loadConfig (saveConfig jar cfg) newKCookieJar) = getDomainAdvice d jar"
proof -
  have "d \<notin> set (domainList jar) \<Longrightarrow> getDomainAdvice d jar = KCookieDunno"
    using assms(1) by (auto simp: domains_ok_def getDomainAdvice_def split: option.splits)
  then show ?thesis
    using assms(2) load_settings_saved [OF assms(3)]
    by (auto simp: loadConfig_def saveConfig_def newKCookieJar_def getDomainAdvice_def)
qed

text \<open>a change of a domain's advice is lost when the global advice is set afterwards to
  what it was: \<open>configChanged\<close> is assigned, and \<open>saveConfig\<close> then leaves the old settings.\<close>

theorem config_lost_update:
  assumes "globalAdvice jar = a"
  shows "saveConfig (setGlobalAdvice a (setDomainAdvice d b jar)) cfg = cfg
    \<and> getDomainAdvice d (setGlobalAdvice a (setDomainAdvice d b jar)) = b"
proof -
  have "getDomainAdvice d (j\<lparr>configChanged := x, globalAdvice := y\<rparr>) = getDomainAdvice d j" for j x y
    by (simp add: getDomainAdvice_def)
  then show ?thesis
    using assms by (simp add: saveConfig_def setGlobalAdvice_def getDomainAdvice_setDomainAdvice)
qed

theorem config_lost_update_witness:
  "saveConfig (setGlobalAdvice KCookieDunno (setDomainAdvice ''.kde.org'' KCookieReject newKCookieJar))
     \<lparr>CookieGlobalAdvice = None, CookieDomainAdvice = []\<rparr> = \<lparr>CookieGlobalAdvice = None, CookieDomainAdvice = []\<rparr>"
  using config_lost_update [of newKCookieJar KCookieDunno] by (simp add: newKCookieJar_def)

theorem config_roundtrip_witness:
  "getDomainAdvice ''.kde.org'' (loadConfig (saveConfig (setDomainAdvice ''.kde.org'' KCookieReject newKCookieJar)
     \<lparr>CookieGlobalAdvice = None, CookieDomainAdvice = []\<rparr>) newKCookieJar) = KCookieReject"
proof -
  let ?j = "setDomainAdvice ''.kde.org'' KCookieReject newKCookieJar"
  have "domains_ok ?j" using newKCookieJar_ok domains_ok_setDomainAdvice by (simp add: jar_ok_def)
  moreover have "configChanged ?j" "\<forall>d\<in>set (domainList ?j). d \<noteq> [] \<and> CHR '':'' \<notin> set d"
    by (simp_all add: setDomainAdvice_def newKCookieJar_def)
  ultimately show ?thesis
    using config_roundtrip by (simp add: getDomainAdvice_setDomainAdvice)
qed

text \<open>loading a configuration does not reset every advice: of two domains that hold no
  cookie the second keeps its advice, although the configuration names neither.\<close>

theorem loadConfig_skips_reset:
  assumes "domains_ok jar" "domainList jar = [a, b]" "cookiesOf jar a = []"
    and "CookieDomainAdvice cfg = []"
  shows "getDomainAdvice b (loadConfig cfg jar) = getDomainAdvice b jar"
proof -
  obtain cl where a: "cookieDomains jar a = Some cl" "cookies cl = []" and ab: "a \<noteq> b"
    using assms(1-3) by (auto simp: domains_ok_def cookiesOf_def split: option.splits)
  then have "reset_loop 2 0 jar = setDomainAdvice a KCookieDunno jar"
    using assms(2) by (simp add: numeral_2_eq_2 setDomainAdvice_def removeDomain_def Let_def)
  moreover have "getDomainAdvice b (j\<lparr>globalAdvice := y\<rparr>) = getDomainAdvice b j" for j y
    by (simp add: getDomainAdvice_def)
  ultimately show ?thesis
    using ab assms(2,4) by (simp add: loadConfig_def Let_def getDomainAdvice_setDomainAdvice numeral_2_eq_2)
qed

theorem loadConfig_skips_reset_witness:
  "getDomainAdvice ''b'' (loadConfig \<lparr>CookieGlobalAdvice = None, CookieDomainAdvice = []\<rparr>
     (setDomainAdvice ''b'' KCookieAccept (setDomainAdvice ''a'' KCookieAccept newKCookieJar))) = KCookieAccept"
proof -
  let ?j = "setDomainAdvice ''b'' KCookieAccept (setDomainAdvice ''a'' KCookieAccept newKCookieJar)"
  have "domains_ok ?j" using newKCookieJar_ok domains_ok_setDomainAdvice by (simp add: jar_ok_def)
  moreover have "domainList ?j = [''a'', ''b'']"
    by (simp add: setDomainAdvice_def newKCookieJar_def strcmp_def less_char_def)
  moreover have "cookiesOf ?j ''a'' = []" by (simp add: cookiesOf_setDomainAdvice)
  ultimately show ?thesis
    using loadConfig_skips_reset [of ?j "''a''" "''b''" "\<lparr>CookieGlobalAdvice = None, CookieDomainAdvice = []\<rparr>"]
    by (simp add: getDomainAdvice_setDomainAdvice)
qed

end
