(* ===== verification/CookieSession.thy ===== *)
theory CookieSession
  imports CookieFile
begin

section \<open>Cookies in a session of the file manager\<close>

text \<open>
  How the jar is used: the question window of \<open>kfm/kcookiewin.cpp\<close>, the handler \<open>slotCookie\<close>
  of \<open>kfm/kfmman.cpp\<close>, and what \<open>kfm/kfmgui.cpp\<close> and \<open>kfm/kfmview.cpp\<close> do when the user
  changes the configuration or closes a view. The answers of the user are a list that the
  windows read from.
\<close>

datatype win_scope = This_cookie | This_domain | All_cookies

datatype win_answer = Closed | Accept_button win_scope | Reject_button win_scope

record session =
  ss_jar :: "KCookieJar option"
  ss_config :: cookie_config
  ss_files :: files

definition b0Pressed :: "win_scope \<Rightarrow> KCookie \<Rightarrow> KCookieJar \<Rightarrow> KCookieJar \<times> KCookieAdvice" where
  "b0Pressed scope cookie jar = (case scope of
       This_domain \<Rightarrow> (setCookieAdvice cookie KCookieAccept jar, KCookieAccept)
     | All_cookies \<Rightarrow> (setGlobalAdvice KCookieAccept jar, KCookieAccept)
     | This_cookie \<Rightarrow> (jar, KCookieAccept))"

definition b1Pressed :: "win_scope \<Rightarrow> KCookie \<Rightarrow> KCookieJar \<Rightarrow> KCookieJar \<times> KCookieAdvice" where
  "b1Pressed scope cookie jar = (case scope of
       This_domain \<Rightarrow> (setCookieAdvice cookie KCookieReject jar, KCookieReject)
     | All_cookies \<Rightarrow> (setGlobalAdvice KCookieReject jar, KCookieReject)
     | This_cookie \<Rightarrow> (jar, KCookieReject))"

text \<open>\<open>kw->exec()\<close>: a window closed without a button returns 0, which is \<open>KCookieDunno\<close>.\<close>

definition win_exec :: "win_answer list \<Rightarrow> KCookie \<Rightarrow> KCookieJar \<Rightarrow> KCookieJar \<times> KCookieAdvice \<times> win_answer list" where
  "win_exec answers cookie jar = (case answers of
       Accept_button scope # rest \<Rightarrow> (case b0Pressed scope cookie jar of (j, a) \<Rightarrow> (j, a, rest))
     | Reject_button scope # rest \<Rightarrow> (case b1Pressed scope cookie jar of (j, a) \<Rightarrow> (j, a, rest))
     | Closed # rest \<Rightarrow> (jar, KCookieDunno, rest)
     | [] \<Rightarrow> (jar, KCookieDunno, []))"

fun slotCookie_loop :: "(KCookie \<Rightarrow> KCookie list \<Rightarrow> KCookie list) \<Rightarrow> int \<Rightarrow> KCookie list \<Rightarrow> KCookieAdvice
    \<Rightarrow> win_answer list \<Rightarrow> KCookieJar \<Rightarrow> cookie_config \<Rightarrow> KCookieJar \<times> cookie_config \<times> win_answer list" where
  "slotCookie_loop ins now [] userAdvice answers jar cfg = (jar, cfg, answers)"
| "slotCookie_loop ins now (cookie # next_cookie) userAdvice answers jar cfg =
     (let advice = cookieAdvice cookie jar;
          ask = (advice = KCookieAsk \<or> advice = KCookieDunno);
          (jar1, userAdvice1, answers1, cfg1) =
            (if ask \<and> userAdvice = KCookieDunno
             then (case win_exec answers cookie jar of (j, a, rest) \<Rightarrow> (j, a, rest, saveConfig j cfg))
             else (jar, userAdvice, answers, cfg));
          advice1 = (if ask then userAdvice1 else advice)
      in slotCookie_loop ins now next_cookie userAdvice1 answers1
           (if advice1 = KCookieAccept then addCookie ins now cookie jar1 else jar1) cfg1)"

definition slotCookie :: "(KCookie \<Rightarrow> KCookie list \<Rightarrow> KCookie list) \<Rightarrow> cookie_env \<Rightarrow> string \<Rightarrow> string
    \<Rightarrow> win_answer list \<Rightarrow> session \<Rightarrow> session \<times> win_answer list" where
  "slotCookie ins E url cookie_str answers s = (case ss_jar s of None \<Rightarrow> (s, answers)
     | Some jar \<Rightarrow>
         (case slotCookie_loop ins (time_now E) (makeCookies E url cookie_str) KCookieDunno answers jar (ss_config s) of
            (jar', cfg', rest) \<Rightarrow> (s\<lparr>ss_jar := Some jar', ss_config := cfg'\<rparr>, rest)))"

text \<open>\<open>KfmView\<close> closing, and the cookie part of \<open>KfmGui::slotConfigure\<close>.\<close>

definition closeView :: "io_outcome \<Rightarrow> int \<Rightarrow> string \<Rightarrow> session \<Rightarrow> session" where
  "closeView io now cookieFile s = (case ss_jar s of None \<Rightarrow> s
     | Some jar \<Rightarrow> (case saveCookies io now cookieFile jar (ss_files s) of
         (ok, jar', fs') \<Rightarrow> s\<lparr>ss_jar := Some jar', ss_files := fs'\<rparr>))"

definition reloadConfig :: "(KCookie \<Rightarrow> KCookie list \<Rightarrow> KCookie list) \<Rightarrow> io_outcome \<Rightarrow> int \<Rightarrow> string \<Rightarrow> bool
    \<Rightarrow> session \<Rightarrow> session" where
  "reloadConfig ins io now cookieFile cookiesEnabled s =
     (let s1 = (case ss_jar s of None \<Rightarrow> s
              | Some jar \<Rightarrow> (case saveCookies io now cookieFile jar (ss_files s) of
                  (ok, jar', fs') \<Rightarrow> s\<lparr>ss_jar := None, ss_files := fs'\<rparr>))
      in if cookiesEnabled
         then s1\<lparr>ss_jar := Some (snd (loadCookies ins now cookieFile (ss_files s1)
                (loadConfig (ss_config s1) newKCookieJar)))\<rparr>
         else s1)"

text \<open>\<open>findCookies\<close> as \<open>KFMJob\<close> calls it: no jar, no cookies.\<close>

definition requestCookies :: "cookie_env \<Rightarrow> string \<Rightarrow> session \<Rightarrow> string" where
  "requestCookies E url s = (case ss_jar s of None \<Rightarrow> [] | Some jar \<Rightarrow> findCookies E url jar)"

subsection \<open>Sessions as a state machine\<close>

text \<open>
  What can happen: a server sends cookies, the user answers, edits advices or eats a cookie,
  views close, the configuration is changed, and other programs write the files. The time, the
  environment and the outcome of every system call may differ from step to step.
\<close>

inductive session_step :: "(KCookie \<Rightarrow> KCookie list \<Rightarrow> KCookie list) \<Rightarrow> session \<Rightarrow> session \<Rightarrow> bool"
  for ins where
  step_cookie: "session_step ins s (fst (slotCookie ins E url hdr answers s))"
| step_close: "session_step ins s (closeView io now f s)"
| step_reload: "session_step ins s (reloadConfig ins io now f enabled s)"
| step_domain_advice: "ss_jar s = Some j \<Longrightarrow> session_step ins s (s\<lparr>ss_jar := Some (setDomainAdvice d a j)\<rparr>)"
| step_global_advice: "ss_jar s = Some j \<Longrightarrow> session_step ins s (s\<lparr>ss_jar := Some (setGlobalAdvice a j)\<rparr>)"
| step_eat: "ss_jar s = Some j \<Longrightarrow> session_step ins s (s\<lparr>ss_jar := Some (eatCookie c j)\<rparr>)"
| step_config: "session_step ins s (s\<lparr>ss_config := cfg\<rparr>)"
| step_files: "session_step ins s (s\<lparr>ss_files := fs\<rparr>)"

inductive session_reachable :: "(KCookie \<Rightarrow> KCookie list \<Rightarrow> KCookie list) \<Rightarrow> session \<Rightarrow> bool" for ins where
  start: "ss_jar s = None \<Longrightarrow> session_reachable ins s"
| step: "session_reachable ins s \<Longrightarrow> session_step ins s s' \<Longrightarrow> session_reachable ins s'"

text \<open>A cookie that may be kept: its domain is absent, its host or the host's own domain.\<close>

definition cookie_safe :: "KCookie \<Rightarrow> bool" where
  "cookie_safe c \<longleftrightarrow> c_domain c = [] \<or> c_domain c = c_host c \<or> c_domain c = stripDomain (c_host c)"

definition jar_safe :: "KCookieJar \<Rightarrow> bool" where
  "jar_safe jar \<longleftrightarrow> jar_ok jar \<and> (\<forall>d. list_all cookie_safe (cookiesOf jar d))"

definition session_ok :: "session \<Rightarrow> bool" where
  "session_ok s \<longleftrightarrow> (case ss_jar s of None \<Rightarrow> True | Some jar \<Rightarrow> jar_safe jar)"

text \<open>What the session relies on: a store of cookies whose operations keep its invariant.\<close>

locale cookie_store =
  fixes ok :: "'s \<Rightarrow> bool" and add :: "'c \<Rightarrow> 's \<Rightarrow> 's" and good :: "'c \<Rightarrow> bool"
  assumes add_ok: "ok s \<Longrightarrow> good c \<Longrightarrow> ok (add c s)"
begin

lemma add_list_ok: "ok s \<Longrightarrow> list_all good cs \<Longrightarrow> ok (foldl (\<lambda>s c. add c s) s cs)"
  by (induction cs arbitrary: s) (simp_all add: add_ok)

lemma add_if_ok: "ok s \<Longrightarrow> (b \<Longrightarrow> good c) \<Longrightarrow> ok (if b then add c s else s)"
  by (simp add: add_ok)

end

lemma addCookie_safe:
  assumes ins: "cookie_insort ins" and jar: "jar_safe jar" and c: "cookie_safe c"
  shows "jar_safe (addCookie ins now c jar)"
proof -
  have "list_all cookie_safe (cookiesOf (addCookie ins now c jar) d)" for d
  proof -
    have "set (cookiesOf (addCookie ins now c jar) d) \<subseteq> insert c (set (cookiesOf jar d))"
      using cookie_insort.addCookie_set [OF ins, of now c jar d] by (auto split: if_splits)
    moreover have "list_all cookie_safe (cookiesOf jar d)" using jar by (simp add: jar_safe_def)
    ultimately show ?thesis using c unfolding list_all_iff by blast
  qed
  moreover have "jar_ok (addCookie ins now c jar)"
    using cookie_insort.addCookie_ok [OF ins] jar by (simp add: jar_safe_def)
  ultimately show ?thesis by (simp add: jar_safe_def)
qed

interpretation qt_store: cookie_store jar_safe "addCookie (inSort compareItems) now" cookie_safe for now
  by unfold_locales (rule addCookie_safe [OF qt_insort.cookie_insort_axioms])

lemma jar_safe_setDomainAdvice: "jar_safe j \<Longrightarrow> jar_safe (setDomainAdvice d a j)"
  by (simp add: jar_safe_def setDomainAdvice_ok cookiesOf_setDomainAdvice)

lemma jar_safe_setGlobalAdvice: "jar_safe j \<Longrightarrow> jar_safe (setGlobalAdvice a j)"
  by (simp add: jar_safe_def setGlobalAdvice_ok cookiesOf_setGlobalAdvice)

lemma jar_safe_eatCookie: "jar_safe j \<Longrightarrow> jar_safe (eatCookie c j)"
  by (auto simp: jar_safe_def eatCookie_ok cookiesOf_eatCookie list_all_iff dest: notin_set_remove1)

lemma jar_safe_new: "jar_safe newKCookieJar"
  by (simp add: jar_safe_def newKCookieJar_ok)

lemmas jar_safe_intros = jar_safe_setDomainAdvice jar_safe_setGlobalAdvice jar_safe_eatCookie jar_safe_new

lemma jar_safe_loadConfig: "jar_safe j \<Longrightarrow> jar_safe (loadConfig cfg j)"
proof -
  assume j: "jar_safe j"
  have reset: "jar_safe j \<Longrightarrow> jar_safe (reset_loop n i j)" for n i j
    by (induction n i j rule: reset_loop.induct) (simp_all add: jar_safe_setDomainAdvice)
  have setting: "jar_safe j \<Longrightarrow> jar_safe (load_setting v j)" for v j
    by (simp add: load_setting_def jar_safe_setDomainAdvice split: option.splits)
  have "jar_safe j \<Longrightarrow> jar_safe (foldl (\<lambda>j v. load_setting v j) j vs)" for vs j
    by (induction vs arbitrary: j) (simp_all add: setting)
  moreover have "jar_safe (j\<lparr>globalAdvice := a\<rparr>) = jar_safe j" for a j
    by (simp add: jar_safe_def jar_ok_def jar_simps)
  ultimately show ?thesis using j by (simp add: loadConfig_def Let_def reset)
qed

lemma jar_safe_load_line: "cookie_insort ins \<Longrightarrow> jar_safe j \<Longrightarrow> jar_safe (load_line ins now l j)"
  by (auto simp: load_line_def Let_def cookie_safe_def mkCookie_def intro!: addCookie_safe split: prod.splits)

lemma jar_safe_load_lines: "cookie_insort ins \<Longrightarrow> jar_safe j \<Longrightarrow> jar_safe (load_lines ins now f j)"
proof (induction ins now f j rule: load_lines.induct)
  case (1 ins now f j)
  then show ?case by (subst load_lines.simps) (auto simp: jar_safe_load_line split: option.splits)
qed

lemma jar_safe_loadCookies: "cookie_insort ins \<Longrightarrow> jar_safe j \<Longrightarrow> jar_safe (snd (loadCookies ins now f fs j))"
  by (auto simp: loadCookies_def Let_def jar_safe_load_lines split: option.splits)

lemma jar_safe_setCookies: "jar_safe j \<Longrightarrow> jar_safe (setCookies d (filter P (cookiesOf j d)) j)"
proof -
  assume j: "jar_safe j"
  have "cookiesOf (setCookies d (filter P (cookiesOf j d)) j) e
      = (if e = d then filter P (cookiesOf j d) else cookiesOf j e)" for e
    by (cases "cookieDomains j d") (auto simp: setCookies_def cookiesOf_def)
  with j show ?thesis
    by (auto simp: jar_safe_def jar_ok_def domains_ok_setCookies list_ok_filter list_all_iff)
qed

lemma jar_safe_save_domains: "jar_safe j \<Longrightarrow> jar_safe (snd (save_domains now ds j))"
proof (induction ds arbitrary: j)
  case (Cons d ds)
  then show ?case using save_list_kept jar_safe_setCookies by (simp add: split_beta)
qed simp

lemma jar_safe_saveCookies: "jar_safe j \<Longrightarrow> jar_safe (fst (snd (saveCookies io now f j fs)))"
  by (auto simp: saveCookies_def Let_def split_beta jar_safe_save_domains)


sublocale cookie_insort \<subseteq> store: cookie_store jar_safe "addCookie ins now" cookie_safe for now
  by unfold_locales (rule addCookie_safe [OF cookie_insort_axioms])

lemma cookieAdvice_safe: "cookieAdvice c j \<noteq> KCookieReject \<Longrightarrow> cookie_safe c"
  by (auto simp: cookieAdvice_def cookie_safe_def Let_def split: if_splits)

lemma win_exec_safe: "jar_safe j \<Longrightarrow> jar_safe (fst (win_exec answers c j))"
  by (auto simp: win_exec_def b0Pressed_def b1Pressed_def setCookieAdvice_def jar_safe_intros
      split: list.splits win_answer.splits win_scope.splits)

context cookie_insort
begin

lemma slotCookie_loop_safe:
  "jar_safe j \<Longrightarrow> jar_safe (fst (slotCookie_loop ins now cs ua answers j cfg))"
proof (induction cs arbitrary: ua answers j cfg)
  case (Cons c cs)
  let ?j1 = "if (cookieAdvice c j = KCookieAsk \<or> cookieAdvice c j = KCookieDunno) \<and> ua = KCookieDunno
    then fst (win_exec answers c j) else j"
  have "jar_safe ?j1" using Cons.prems win_exec_safe by simp
  then have "cookieAdvice c j \<noteq> KCookieReject \<Longrightarrow> jar_safe (addCookie ins now c ?j1)" and "jar_safe ?j1"
    using cookieAdvice_safe store.add_ok by blast+
  then show ?case
    using Cons.IH by (auto simp: Let_def split_beta)
qed simp

lemma slotCookie_ok: "session_ok s \<Longrightarrow> session_ok (fst (slotCookie ins E url hdr answers s))"
  using slotCookie_loop_safe
  by (auto simp: slotCookie_def session_ok_def split_beta split: option.splits)

lemma closeView_ok: "session_ok s \<Longrightarrow> session_ok (closeView io now f s)"
  by (auto simp: closeView_def session_ok_def split_beta jar_safe_saveCookies split: option.splits)

lemma reloadConfig_ok: "session_ok (reloadConfig ins io now f True s)"
  by (simp add: reloadConfig_def session_ok_def Let_def jar_safe_loadCookies [OF cookie_insort_axioms]
      jar_safe_loadConfig jar_safe_new)

lemma reloadConfig_off_ok: "session_ok (reloadConfig ins io now f False s)"
  by (auto simp: reloadConfig_def session_ok_def Let_def split_beta split: option.splits)

lemma session_step_ok: "session_step ins s s' \<Longrightarrow> session_ok s \<Longrightarrow> session_ok s'"
proof (induction rule: session_step.induct)
  case (step_reload s io now f enabled)
  then show ?case by (cases enabled) (simp_all add: reloadConfig_ok reloadConfig_off_ok)
qed (simp_all add: slotCookie_ok closeView_ok, simp_all add: session_ok_def jar_safe_intros)

lemma session_reachable_ok: "session_reachable ins s \<Longrightarrow> session_ok s"
  by (induction rule: session_reachable.induct) (auto simp: session_ok_def intro: session_step_ok [unfolded session_ok_def])

end

inductive_cases session_stepE: "session_step ins s s'"

text \<open>C2: the invariant of a session: whatever servers send, the user answers, other programs
  write and the system fails, in every reachable session the jar is well formed and no cookie
  in it claims a domain other than its host's.\<close>

theorem session_invariant:
  assumes "cookie_insort ins" "session_reachable ins s" "ss_jar s = Some jar"
  shows "jar_ok jar \<and> (\<forall>d. list_all (\<lambda>c. cookie_safe c \<and> stripDomain (c_host c) = d) (cookiesOf jar d))"
  using cookie_insort.session_reachable_ok [OF assms(1,2)] assms(3)
  by (auto simp: session_ok_def jar_safe_def jar_ok_def list_ok_def list_all_iff)

text \<open>The cookies that a request for a URL may tell: those set by a host of the URL's domain, for this host alone or for the whole domain, with a path
  that the URL's path begins with.\<close>

definition visible :: "string \<Rightarrow> string \<Rightarrow> string \<Rightarrow> KCookie \<Rightarrow> bool" where
  "visible fqdn domain path c \<longleftrightarrow> stripDomain (c_host c) = domain \<and>
     (c_domain c = [] \<and> c_host c = fqdn \<or> c_domain c \<noteq> [] \<and> c_domain c = domain) \<and> is_prefix (c_path c) path"

lemma findCookies_visible:
  assumes "jar_ok jar" "extractDomain E url = Some (fqdn, domain, path)"
  shows "findCookies E url jar = cookie_header (filter (visible fqdn domain path) (cookiesOf jar domain))"
proof -
  have "sendable fqdn domain path c = visible fqdn domain path c" if "c \<in> set (cookiesOf jar domain)" for c
    using jar_ok_member [OF assms(1) that] by (auto simp: sendable_def visible_def)
  then have "sentCookies E url jar = filter (visible fqdn domain path) (cookiesOf jar domain)"
    using assms(2) by (auto simp: sentCookies_def intro: filter_cong)
  then show ?thesis by (simp add: findCookies_header)
qed

text \<open>C3: No cookie leaks. In a reachable session the header that \<open>findCookies\<close> makes for a URL that has a host and a domain is that of exactly the cookies in the jar that were
  set by a host of the URL's domain, either without a domain and by the very host of the URL, or for the whole domain, and whose path the URL's path begins
  with. What else a jar holds makes no difference: two reachable sessions, whatever happened in them, that agree on these cookies send the same header.\<close>

theorem session_no_leak:
  assumes "cookie_insort ins" "session_reachable ins s" "ss_jar s = Some jar" "session_reachable ins s2" "ss_jar s2 = Some jar2"
    and "extractDomain E url = Some (fqdn, domain, path)"
  shows "findCookies E url jar = cookie_header (filter (visible fqdn domain path) (cookiesOf jar domain)) \<and>
    (filter (visible fqdn domain path) (cookiesOf jar2 domain) = filter (visible fqdn domain path) (cookiesOf jar domain) \<longrightarrow>
       findCookies E url jar2 = findCookies E url jar)"
proof -
  have "session_ok s" "session_ok s2" by (rule cookie_insort.session_reachable_ok [OF assms(1)], fact)+
  then have "jar_ok jar" "jar_ok jar2" using assms(3,5) by (simp_all add: session_ok_def jar_safe_def)
  then show ?thesis using findCookies_visible assms(6) by simp
qed

lemma slotCookie_loop_rejects:
  assumes "\<forall>c\<in>set cs. cookieAdvice c j = KCookieReject"
  shows "slotCookie_loop ins now cs ua answers j cfg = (j, cfg, answers)"
  using assms by (induction cs) (simp_all add: Let_def)

lemma cookieAdvice_domain_reject:
  "getDomainAdvice (stripDomain (c_host c)) j = KCookieReject \<Longrightarrow> cookieAdvice c j = KCookieReject"
  by (auto simp: cookieAdvice_def getDomainAdvice_def Let_def split: option.splits)

text \<open>a host whose domain is rejected can change nothing: \<open>slotCookie\<close> leaves the whole
  session as it was and asks the user nothing, whatever the header text.\<close>

theorem slotCookie_rejected_domain:
  assumes "ss_jar s = Some jar" "extractDomain E url = Some (fqdn, domain, path)"
    and "getDomainAdvice (stripDomain fqdn) jar = KCookieReject"
  shows "slotCookie ins E url hdr answers s = (s, answers)"
proof -
  have "\<forall>c\<in>set (makeCookies E url hdr). cookieAdvice c jar = KCookieReject"
    using makeCookies_made_for [OF assms(2), of hdr] assms(3)
    by (auto simp: list_all_iff made_for_def intro!: cookieAdvice_domain_reject)
  from slotCookie_loop_rejects [OF this] show ?thesis
    using assms(1) by (simp add: slotCookie_def)
qed

lemma win_exec_answers:
  "win_exec (a # rest) c j = (j', u, r) \<Longrightarrow> r = rest \<and> (a \<noteq> Closed \<longrightarrow> u \<noteq> KCookieDunno)"
  by (auto simp: win_exec_def b0Pressed_def b1Pressed_def split: win_answer.splits win_scope.splits)

lemma slotCookie_loop_answered:
  "ua \<noteq> KCookieDunno \<Longrightarrow> snd (snd (slotCookie_loop ins now cs ua answers j cfg)) = answers"
  by (induction cs arbitrary: j) (simp_all add: Let_def)

lemma slotCookie_loop_asks:
  assumes "a \<noteq> Closed"
  shows "snd (snd (slotCookie_loop ins now cs KCookieDunno (a # rest) j cfg)) \<in> {a # rest, rest}"
proof (induction cs arbitrary: j)
  case (Cons c cs)
  obtain j' u r where w: "win_exec (a # rest) c j = (j', u, r)" by (cases "win_exec (a # rest) c j") auto
  with win_exec_answers [OF w] assms have "r = rest" "u \<noteq> KCookieDunno" by auto
  with Cons.IH w show ?case by (auto simp: Let_def slotCookie_loop_answered)
qed simp

text \<open>however many cookies a response holds, the user who answers with a button is asked
  at most once for it.\<close>

theorem slotCookie_asks_once:
  assumes "a \<noteq> Closed"
  shows "snd (slotCookie ins E url hdr (a # rest) s) \<in> {a # rest, rest}"
  using slotCookie_loop_asks [OF assms]
  by (auto simp: slotCookie_def split_beta split: option.splits)


text \<open>An environment and a session for the witnesses: a page of \<open>www.kde.org\<close>.\<close>

definition sample_env :: cookie_env where
  "sample_env = \<lparr>parse_url = \<lambda>u. \<lparr>url_protocol = ''http'', url_host = ''www.kde.org'', url_path = ''/''\<rparr>,
     toInt = \<lambda>s. 0, mktime = \<lambda>t. 0, timezone = 0, time_now = 5\<rparr>"

definition sample_config :: cookie_config where
  "sample_config = \<lparr>CookieGlobalAdvice = Some ''Ask'', CookieDomainAdvice = [''.evil.com:Reject'']\<rparr>"

definition sample_files :: files where
  "sample_files = [''cookies'' \<mapsto> file_head @ fst (save_domains 5 (domainList sample_jar) sample_jar)]"

definition loaded_jar :: KCookieJar where
  "loaded_jar = addCookie (inSort compareItems) 5 sample_cookie (loadConfig sample_config newKCookieJar)"

definition sample_session :: session where
  "sample_session = \<lparr>ss_jar = Some loaded_jar, ss_config = sample_config, ss_files = sample_files\<rparr>"

lemma sample_extract: "extractDomain sample_env u = Some (''www.kde.org'', ''.kde.org'', ''/'')"
  by (simp add: extractDomain_def sample_env_def sample_domain lower_def char_eval strncmp_eq_def Let_def)

lemma sample_loaded: "snd (loadCookies (inSort compareItems) 5 ''cookies'' sample_files j)
  = addCookie (inSort compareItems) 5 sample_cookie j"
proof -
  have "jar_ok sample_jar" by (simp add: sample_jar_def jar_ok_single)
  moreover have "domainList sample_jar = [''.kde.org'']"
    by (simp add: sample_jar_def addCookie_def Let_def ensureDomain_def setCookies_def newKCookieJar_def
        sample_cookie_def mkCookie_def sample_domain isExpired_def)
  moreover have keep: "persistent 5 (cookiesOf sample_jar d) = cookiesOf sample_jar d" for d
    by (simp add: sample_jar_cookies persistent_def sample_cookie_def mkCookie_def isExpired_def)
  moreover have "\<forall>d. \<forall>c\<in>set (persistent 5 (cookiesOf sample_jar d)). storable c"
    unfolding keep by (simp add: sample_jar_cookies sample_storable)
  ultimately show ?thesis
    using load_saved_cookies [of sample_jar 5 5 "inSort compareItems" "''cookies''" Map.empty j]
    by (simp add: sample_files_def sample_jar_cookies)
qed

lemma sample_reachable: "session_reachable (inSort compareItems) sample_session"
proof -
  let ?s0 = "\<lparr>ss_jar = None, ss_config = sample_config, ss_files = sample_files\<rparr>"
  have "session_reachable (inSort compareItems) (reloadConfig (inSort compareItems) io 5 ''cookies'' True ?s0)" for io
    by (rule session_reachable.step [OF session_reachable.start step_reload]) simp
  then show ?thesis
    by (simp add: reloadConfig_def sample_session_def sample_loaded loaded_jar_def)
qed

lemma sample_config_jar:
  "getDomainAdvice ''.evil.com'' loaded_jar = KCookieReject" "cookiesOf loaded_jar ''.kde.org'' = [sample_cookie]"
proof -
  have dom: "stripDomain (c_host sample_cookie) = ''.kde.org''"
    by (simp add: sample_cookie_def mkCookie_def sample_domain)
  have new: "loadConfig sample_config newKCookieJar
      = setDomainAdvice ''.evil.com'' KCookieReject (newKCookieJar\<lparr>globalAdvice := KCookieAsk\<rparr>)"
    by (simp add: loadConfig_def sample_config_def newKCookieJar_def load_setting_def strToAdvice_def
        strcasecmp_eq_def char_eval)
  have "\<not> isExpired sample_cookie 5" by (simp add: isExpired_def sample_cookie_def mkCookie_def)
  then show "cookiesOf loaded_jar ''.kde.org'' = [sample_cookie]"
    by (simp add: loaded_jar_def cookiesOf_addCookie dom new cookiesOf_setDomainAdvice cookiesOf_fields)
  show "getDomainAdvice ''.evil.com'' loaded_jar = KCookieReject"
    by (simp add: loaded_jar_def getDomainAdvice_addCookie new getDomainAdvice_setDomainAdvice)
qed

theorem session_invariant_witness:
  "jar_ok loaded_jar \<and> list_all cookie_safe (cookiesOf loaded_jar ''.kde.org'')"
  using session_invariant [OF qt_insort.cookie_insort_axioms sample_reachable]
  by (auto simp: sample_session_def list_all_iff)

theorem session_no_leak_witness:
  "findCookies sample_env ''u'' loaded_jar = ''Cookie: '' @ getCookieStr sample_cookie @ [CR, LF]
   \<and> findCookies sample_env ''u'' (setDomainAdvice ''.evil.com'' KCookieAccept loaded_jar) = findCookies sample_env ''u'' loaded_jar"
proof -
  let ?jar2 = "setDomainAdvice ''.evil.com'' KCookieAccept loaded_jar"
  have h: "stripDomain (c_host sample_cookie) = ''.kde.org''"
    by (simp add: sample_cookie_def mkCookie_def sample_domain)
  have v: "visible ''www.kde.org'' ''.kde.org'' ''/'' sample_cookie"
    using h by (simp add: visible_def) (simp add: sample_cookie_def mkCookie_def)
  have r2: "session_reachable (inSort compareItems) (sample_session\<lparr>ss_jar := Some ?jar2\<rparr>)"
    by (rule session_reachable.step [OF sample_reachable step_domain_advice]) (simp add: sample_session_def)
  have "findCookies sample_env ''u'' loaded_jar = cookie_header (filter (visible ''www.kde.org'' ''.kde.org'' ''/'') (cookiesOf loaded_jar ''.kde.org'')) \<and>
    (filter (visible ''www.kde.org'' ''.kde.org'' ''/'') (cookiesOf ?jar2 ''.kde.org'') =
       filter (visible ''www.kde.org'' ''.kde.org'' ''/'') (cookiesOf loaded_jar ''.kde.org'') \<longrightarrow>
     findCookies sample_env ''u'' ?jar2 = findCookies sample_env ''u'' loaded_jar)"
    by (rule session_no_leak [OF qt_insort.cookie_insort_axioms sample_reachable _ r2 _ sample_extract]) (simp_all add: sample_session_def)
  moreover have "filter (visible ''www.kde.org'' ''.kde.org'' ''/'') (cookiesOf loaded_jar ''.kde.org'') = [sample_cookie]"
    using v by (simp add: sample_config_jar)
  moreover have "protocolVersion sample_cookie = 0" by (simp add: sample_cookie_def mkCookie_def)
  ultimately show ?thesis by (simp add: cookiesOf_setDomainAdvice cookie_header_def)
qed

theorem slotCookie_rejected_domain_witness:
  "slotCookie (inSort compareItems) (sample_env\<lparr>parse_url := \<lambda>u. \<lparr>url_protocol = ''http'',
     url_host = ''ads.evil.com'', url_path = ''/''\<rparr>\<rparr>) ''u'' ''Set-Cookie: id=7'' [] sample_session = (sample_session, [])"
proof -
  let ?E = "sample_env\<lparr>parse_url := \<lambda>u. \<lparr>url_protocol = ''http'', url_host = ''ads.evil.com'', url_path = ''/''\<rparr>\<rparr>"
  have d: "stripDomain ''ads.evil.com'' = ''.evil.com''"
    by (simp add: stripDomain_def strip_dots_def find_char_from_def)
  have "extractDomain ?E ''u'' = Some (''ads.evil.com'', ''.evil.com'', ''/'')"
    by (simp add: extractDomain_def d lower_def char_eval strncmp_eq_def Let_def)
  then show ?thesis
    using slotCookie_rejected_domain [of sample_session loaded_jar] d sample_config_jar(1)
    by (simp add: sample_session_def)
qed

theorem slotCookie_asks_once_witness:
  "snd (slotCookie (inSort compareItems) sample_env ''u'' ''Set-Cookie: id=7'' [Accept_button This_cookie, Closed]
     sample_session) \<in> {[Accept_button This_cookie, Closed], [Closed]}"
  using slotCookie_asks_once [of "Accept_button This_cookie"] by blast

end
