(* ===== verification/HttpSlave.thy ===== *)
theory HttpSlave
  imports Prelude "HOL-Library.Signed_Division" "HOL-Library.Sublist"
begin

section \<open>The HTTP slave\<close>

text \<open>
  \<open>kfm/kioslave/http.cpp\<close>: the encoding of passwords, the lists for content negotiation, the test
  for hosts that need no proxy, the request and the reading of the answer's header. \<open>char\<close> is
  signed. \<open>None\<close> is undefined behaviour (an access outside of an array). Classes of kdelibs and
  Qt (\<open>KURL\<close>, \<open>KLocale::splitLocale\<close>, \<open>QRegExp\<close>, \<open>QString::setNum\<close>) and the socket are
  parameters.
\<close>

definition MAX_HTTP_HEADER_SIZE :: nat where "MAX_HTTP_HEADER_SIZE = 4096"

subsection \<open>Base 64\<close>

definition tbl :: string where
  "tbl = ''ABCDEFGHIJKLMNOPQRSTUVWXYZabcdefghijklmnopqrstuvwxyz0123456789+/''"

text \<open>A \<open>char\<close> as an \<open>int\<close>; \<open>>>\<close> on it is \<open>div\<close>, \<open>&\<close> with \<open>2\<^sup>n - 1\<close> is \<open>mod\<close>.\<close>

definition schar :: "char \<Rightarrow> int" where
  "schar c = (if code c < 128 then int (code c) else int (code c) - 256)"

definition tbl_at :: "int \<Rightarrow> char option" where
  "tbl_at i = (if 0 \<le> i \<and> i < 64 then Some (tbl ! nat i) else None)"

text \<open>
  Three characters at a time. In the last group \<open>s[1]\<close> or \<open>s[2]\<close> is the terminating NUL; when the
  group has one character only, \<open>s[2]\<close> is the byte \<open>g\<close> behind the NUL, which is not part of the
  string.
\<close>

function base64_loop :: "char \<Rightarrow> string \<Rightarrow> string option" where
  "base64_loop g [] = Some []"
| "base64_loop g (c # r) =
     (let s0 = schar c; s1 = schar (at0 r); s2 = schar (if r = [] then g else at0 (tl r))
      in Option.bind (tbl_at (s0 div 4)) (\<lambda>a.
         Option.bind (tbl_at ((s0 mod 4) * 16 + s1 div 16)) (\<lambda>b.
         Option.bind (tbl_at ((s1 mod 16) * 4 + s2 div 64)) (\<lambda>d.
         Option.bind (tbl_at (s2 mod 64)) (\<lambda>e.
         map_option (\<lambda>rest. a # b # d # e # rest) (base64_loop g (drop 2 r)))))))"
  by pat_completeness auto
termination
  by (relation "measure (\<lambda>(g, s). length s)") auto

definition base64_encode_line :: "char \<Rightarrow> string \<Rightarrow> string option" where
  "base64_encode_line g s =
     (let len = length s; i = 3 * ((len + 2) div 3)
      in map_option (\<lambda>p.
           (if i = len + 1 then take (length p - 1) p @ ''=''
            else if i = len + 2 then take (length p - 2) p @ ''==''
            else p)) (base64_loop g s))"

text \<open>A pointer that may be \<open>NULL\<close> is an option; the outer option of the result is the read outside of the table.\<close>

definition create_generic_auth :: "char \<Rightarrow> string \<Rightarrow> string option \<Rightarrow> string option \<Rightarrow> string option option" where
  "create_generic_auth g pre user passwd =
     (case (user, passwd) of
        (Some user, Some passwd) \<Rightarrow> map_option (\<lambda>t2. Some (pre @ '': Basic '' @ t2 @ [CR, LF])) (base64_encode_line g (user @ '':'' @ passwd))
      | _ \<Rightarrow> Some None)"

definition create_www_auth :: "char \<Rightarrow> string option \<Rightarrow> string option \<Rightarrow> string option option" where
  "create_www_auth g user passwd = create_generic_auth g ''Authorization'' user passwd"

subsection \<open>Content negotiation\<close>

definition list_sep :: "char \<Rightarrow> bool" where
  "list_sep c \<longleftrightarrow> c \<in> {CHR '';'', CHR '','', CHR '':'', SP}"

text \<open>The words that the loops cut from the front of the string.\<close>

function list_words :: "string \<Rightarrow> string list" where
  "list_words str = (if str = [] then []
     else takeWhile (\<lambda>c. \<not> list_sep c) str # list_words (tl (dropWhile (\<lambda>c. \<not> list_sep c) str)))"
  by pat_completeness auto
termination
proof (relation "measure length", goal_cases)
  case (2 str)
  then have "0 < length str" by simp
  with length_dropWhile [of "\<lambda>c. \<not> list_sep c" str]
  have "length (dropWhile (\<lambda>c. \<not> list_sep c) str) - 1 < length str" by linarith
  then show ?case by simp
qed simp

declare list_words.simps [simp del]

definition add_language :: "(string \<Rightarrow> string \<times> string \<times> string) \<Rightarrow> string \<Rightarrow> string list \<Rightarrow> string list" where
  "add_language splitLocale lang lst =
     (if lang = ''C'' then lst
      else if lang = ''*'' \<and> ''*'' \<notin> set lst then lst @ [''*'']
      else case splitLocale lang of (lng, ct, chset) \<Rightarrow>
        (let lst1 = (if lng \<noteq> [] \<and> ct \<noteq> [] \<and> lng @ ''-'' @ ct \<notin> set lst then lst @ [lng @ ''-'' @ ct] else lst)
         in if lng \<noteq> [] \<and> lng @ ''-'' @ ct \<notin> set lst1 then lst1 @ [lng] else lst1))"

text \<open>The header value: every entry behind the first has a quality lower by 0.01 than the one
  before; \<open>setNum\<close> prints a number of hundredths.\<close>

fun quality_list :: "(int \<Rightarrow> string) \<Rightarrow> int \<Rightarrow> string list \<Rightarrow> string" where
  "quality_list setNum q [] = []"
| "quality_list setNum q (l # ls) = '', '' @ l @ '';q='' @ setNum (q - 1) @ quality_list setNum (q - 1) ls"

definition accept_value :: "(int \<Rightarrow> string) \<Rightarrow> string \<Rightarrow> string list \<Rightarrow> string" where
  "accept_value setNum deflt lst = (case (if deflt \<in> set lst then lst else lst @ [deflt]) of
     [] \<Rightarrow> [] | l # ls \<Rightarrow> l @ quality_list setNum 100 ls)"

definition PrepareLanguageList :: "(string \<Rightarrow> string \<times> string \<times> string) \<Rightarrow> (int \<Rightarrow> string) \<Rightarrow> string \<Rightarrow> string" where
  "PrepareLanguageList splitLocale setNum str =
     (let lst = foldl (\<lambda>lst lang. add_language splitLocale lang lst) [] (list_words str)
      in if lst = [] then [] else accept_value setNum ''en'' lst)"

definition add_charset :: "string \<Rightarrow> string list \<Rightarrow> string list" where
  "add_charset chset lst =
     (if chset = ''*'' \<and> ''*'' \<notin> set lst then lst @ [''*'']
      else if chset \<noteq> [] \<and> chset \<notin> set lst then lst @ [chset]
      else lst)"

definition PrepareCharsetList :: "(int \<Rightarrow> string) \<Rightarrow> string \<Rightarrow> string" where
  "PrepareCharsetList setNum str =
     (let lst = foldl (\<lambda>lst chset. add_charset chset lst) [] (list_words str)
      in if lst = [] then [] else accept_value setNum ''iso-8859-1'' lst)"

subsection \<open>Hosts without a proxy\<close>

text \<open>
  The pointers \<open>nptr\<close> and \<open>hptr\<close> are the reversed prefixes that end at them: \<open>np\<close> and \<open>hp\<close> hold
  \<open>*nptr\<close> and \<open>*hptr\<close> at their heads. \<open>*hptr\<close> before the start of the host is undefined.
\<close>

definition np_sep :: "char \<Rightarrow> bool" where
  "np_sep c \<longleftrightarrow> c = CHR '','' \<or> c = SP"

text \<open>The two inner loops: back over the rest of the entry, then over separators.\<close>

definition next_entry :: "string \<Rightarrow> string" where
  "next_entry np = dropWhile np_sep (tl (dropWhile (\<lambda>c. \<not> np_sep c) (tl np)))"

function revmatch_loop :: "string \<Rightarrow> string \<Rightarrow> string \<Rightarrow> bool option" where
  "revmatch_loop shptr hp [] = Some False"
| "revmatch_loop shptr hp (n # np) =
     (case hp of [] \<Rightarrow> None
      | h # hp' \<Rightarrow>
          (if h \<noteq> n then revmatch_loop shptr shptr (next_entry (n # np))
           else if np = [] \<or> np_sep (hd np) then Some True
           else revmatch_loop shptr hp' np))"
  by pat_completeness auto
termination
proof (relation "measure (\<lambda>(s, h, n). length n)", goal_cases)
  case (2 shptr hp n np)
  have "length (next_entry (n # np)) \<le> length np"
    unfolding next_entry_def list.sel
    by (meson le_trans length_dropWhile length_tl)
  then show ?case by simp
qed auto

definition revmatch :: "string \<Rightarrow> string \<Rightarrow> bool option" where
  "revmatch host nplist = revmatch_loop (rev host) (rev host) (rev nplist)"

subsection \<open>The state of the slave\<close>

text \<open>The methods of \<open>KURL\<close> that are used.\<close>

record http_url =
  u_url :: string
  u_protocol :: string
  u_host :: string
  u_port :: nat
  u_httpPath :: string
  u_searchPart :: "string option"
  u_user :: string
  u_passwd :: string

text \<open>
  The members of the class; \<open>hsize\<close> is \<open>size\<close>, \<open>hurl\<close> is \<open>url\<close>. The socket, the stream and the SSL
  objects are the outside of the model.
\<close>

record KProtocolHTTP =
  agent_strings :: "string list"
  noProxyForStr :: string
  use_proxy :: bool
  proxy_user :: string
  proxy_pass :: string
  post_data :: string
  Cookies :: string
  connected :: bool
  hsize :: int
  bytesleft :: int
  bytesRead :: int
  assumeHTML :: bool
  languages :: string
  charsets :: string
  hurl :: string
  m_bEOF :: bool
  m_bUseSSL :: bool

text \<open>
  The constructor reads \<open>kfmrc\<close>: \<open>readEntry\<close> has the group, the key and the default;
  \<open>readBoolEntry\<close> and \<open>readNumEntry\<close> interpret an entry as kdelibs does.
\<close>

definition read_agents :: "string \<Rightarrow> (string \<Rightarrow> string \<Rightarrow> string) \<Rightarrow> int \<Rightarrow> string list" where
  "read_agents default_agent readEntry cnt =
     (if cnt = -1 \<or> cnt = 0 then [default_agent]
      else map (\<lambda>i. readEntry (''Entry'' @ dec_of_nat i) '':'') [0 ..< nat cnt])"

definition new_http :: "string \<Rightarrow> (string \<Rightarrow> string \<Rightarrow> string \<Rightarrow> string) \<Rightarrow> bool \<Rightarrow> int
    \<Rightarrow> (string \<Rightarrow> string \<times> string \<times> string) \<Rightarrow> (int \<Rightarrow> string) \<Rightarrow> KProtocolHTTP" where
  "new_http default_agent readEntry assume cnt splitLocale setNum =
     (let proxy = ''Browser Settings/Proxy''; http = ''Browser Settings/HTTP'';
          up = (readEntry proxy ''UseProxy'' [] = ''Yes'')
      in \<lparr>agent_strings = read_agents default_agent (readEntry ''Browser Settings/UserAgent'') cnt,
          noProxyForStr = readEntry proxy ''NoProxyFor'' [],
          use_proxy = up,
          proxy_user = (if up then readEntry proxy ''Proxy-User'' [] else []),
          proxy_pass = (if up then readEntry proxy ''Proxy-Pass'' [] else []),
          post_data = [], Cookies = [], connected = False, hsize = 0, bytesleft = 0, bytesRead = 0,
          assumeHTML = assume,
          languages = PrepareLanguageList splitLocale setNum (readEntry http ''AcceptLanguages'' []),
          charsets = PrepareCharsetList setNum (readEntry http ''AcceptCharsets'' []),
          hurl = [], m_bEOF = False, m_bUseSSL = False\<rparr>)"

definition Size :: "KProtocolHTTP \<Rightarrow> int" where
  "Size h = hsize h"

definition SetData :: "string \<Rightarrow> KProtocolHTTP \<Rightarrow> KProtocolHTTP" where
  "SetData d h = h\<lparr>post_data := d\<rparr>"

definition SetCookies :: "string \<Rightarrow> KProtocolHTTP \<Rightarrow> KProtocolHTTP" where
  "SetCookies c h = h\<lparr>Cookies := c\<rparr>"

definition Close :: "KProtocolHTTP \<Rightarrow> KProtocolHTTP" where
  "Close h = h\<lparr>connected := False\<rparr>"

definition atEOF :: "KProtocolHTTP \<Rightarrow> bool" where
  "atEOF h \<longleftrightarrow> bytesleft h = 0 \<or> m_bEOF h"

definition UNKNOWN_SIZE :: int where "UNKNOWN_SIZE = 0xFFFFFFF"

text \<open>
  \<open>Read\<close>: the result of \<open>_read\<close> is the number \<open>nbytes\<close> (\<open>-1\<close> is an error of SSL) and whether the
  stream reported its end; \<open>None\<close> as result of the function is \<open>FAIL\<close>. The third component is the
  progress message, sent when \<open>elapsed\<close> milliseconds have passed since the last one and formed
  from the seconds \<open>secs\<close> since the start; \<open>kbs\<close> prints a rate in kb/s, \<open>hms\<close> a duration.
\<close>

definition info_str :: "(int \<Rightarrow> string) \<Rightarrow> (int \<Rightarrow> string) \<Rightarrow> int \<Rightarrow> KProtocolHTTP \<Rightarrow> string" where
  "info_str kbs hms secs0 h =
     (let secs = (if secs0 = 0 then 1 else secs0);
          bytesPerSec = bytesRead h sdiv secs
      in (if bytesPerSec < 1000 then dec_of_int bytesPerSec @ '' bytes/s'' else kbs bytesPerSec @ '' kb/s'')
         @ (if hsize h \<noteq> UNKNOWN_SIZE \<and> bytesPerSec > 0
            then ''  '' @ hms (bytesleft h sdiv bytesPerSec) else []))"

definition Read :: "(int \<Rightarrow> string) \<Rightarrow> (int \<Rightarrow> string) \<Rightarrow> int \<Rightarrow> int \<Rightarrow> int \<Rightarrow> bool \<Rightarrow> KProtocolHTTP
    \<Rightarrow> int option \<times> KProtocolHTTP \<times> string option" where
  "Read kbs hms elapsed secs nbytes ended h =
     (if atEOF h then (Some 0, h, None)
      else let h1 = h\<lparr>m_bEOF := (if nbytes = 0 then ended else m_bEOF h),
                      bytesRead := bytesRead h + nbytes, bytesleft := bytesleft h - nbytes\<rparr>;
               msg = (if 1000 \<le> elapsed then Some (info_str kbs hms secs h1) else None)
           in if m_bEOF h1 \<and> hsize h1 \<noteq> UNKNOWN_SIZE \<and> bytesleft h1 > 0 then (None, h1, msg)
              else (Some nbytes, h1, msg))"

subsection \<open>The request\<close>

text \<open>
  The user agent: the first entry \<open>pattern:agent\<close> whose pattern matches the host at its start
  (\<open>agent_match\<close> is \<open>QRegExp\<close> in wildcard mode), otherwise the default.
\<close>

fun find_agent :: "(string \<Rightarrow> string \<Rightarrow> bool) \<Rightarrow> string \<Rightarrow> string list \<Rightarrow> string option" where
  "find_agent agent_match host [] = None"
| "find_agent agent_match host (a # as) =
     (if a = '':'' then find_agent agent_match host as
      else case find_char CHR '':'' a of
          None \<Rightarrow> find_agent agent_match host as
        | Some i \<Rightarrow>
            (if i < 1 then find_agent agent_match host as
             else if agent_match (take i a) host then Some (drop (Suc i) a)
             else find_agent agent_match host as))"

abbreviation crlf :: string where "crlf \<equiv> [CR, LF]"

definition request_target :: "bool \<Rightarrow> http_url \<Rightarrow> string" where
  "request_target do_proxy u =
     (if do_proxy then ''http://'' @ u_host u @ '':'' @ dec_of_nat (if u_port u = 0 then 80 else u_port u) else [])
     @ (if at0 (u_httpPath u) \<noteq> CHR ''/'' then ''/'' else []) @ u_httpPath u
     @ (case u_searchPart u of None \<Rightarrow> [] | Some q \<Rightarrow> ''?'' @ q)"

text \<open>Adding \<open>NULL\<close> to a \<open>QString\<close> adds nothing.\<close>

definition plus_text :: "string option \<Rightarrow> string" where
  "plus_text p = (case p of None \<Rightarrow> [] | Some t \<Rightarrow> t)"

definition auth_headers :: "char \<Rightarrow> KProtocolHTTP \<Rightarrow> http_url \<Rightarrow> bool \<Rightarrow> string option" where
  "auth_headers g h u do_proxy = do {
     a \<leftarrow> (if u_user u \<noteq> [] then map_option plus_text (create_www_auth g (Some (u_user u)) (Some (u_passwd u))) else Some []);
     b \<leftarrow> (if do_proxy \<and> proxy_user h \<noteq> [] \<and> proxy_pass h \<noteq> []
          then map_option plus_text (create_generic_auth g ''Proxy-authorization'' (Some (proxy_user h)) (Some (proxy_pass h))) else Some []);
     Some (a @ b)
   }"

definition http_request :: "string \<Rightarrow> (string \<Rightarrow> string \<Rightarrow> bool) \<Rightarrow> char \<Rightarrow> KProtocolHTTP \<Rightarrow> http_url \<Rightarrow> bool
    \<Rightarrow> bool \<Rightarrow> string option" where
  "http_request default_agent agent_match g h u do_proxy reload0 =
     (let post = (post_data h \<noteq> []);
          reload = (reload0 \<or> post);
          agent = (case find_agent agent_match (u_host u) (agent_strings h) of Some a \<Rightarrow> a | None \<Rightarrow> default_agent);
          command =
            (if post then ''POST '' else ''GET '') @ request_target do_proxy u @ '' HTTP/1.0'' @ crlf
            @ ''Connection: close'' @ crlf
            @ ''User-Agent: '' @ agent @ crlf
            @ (if reload then ''Pragma: no-cache'' @ crlf @ ''Cache-control: no-cache'' @ crlf else [])
            @ (if charsets h \<noteq> [] then ''Accept-Charset: '' @ charsets h @ crlf else [])
            @ (if languages h \<noteq> [] then ''Accept-Language: '' @ languages h @ crlf else [])
            @ ''Host: '' @ u_host u @ (if u_port u \<noteq> 0 then '':'' @ dec_of_nat (u_port u) else []) @ crlf
            @ Cookies h
            @ (if post then ''Content-Type: application/x-www-form-urlencoded'' @ crlf
                 @ ''Content-Length: '' @ dec_of_nat (length (post_data h)) @ crlf else [])
      in map_option (\<lambda>auth. command @ auth @ crlf @ post_data h) (auth_headers g h u do_proxy))"

subsection \<open>The answer\<close>

text \<open>
  \<open>_gets\<close>: one character at a time up to a line feed. Behind the end of the input \<open>_read\<close> leaves
  the last character in place, so the buffer is filled; then, as after any line without a line
  feed in its first \<open>sz\<close> characters, the NUL is written behind the buffer.
\<close>

definition http_gets :: "nat \<Rightarrow> string \<Rightarrow> (string \<times> string) option" where
  "http_gets sz inp = (case find_char LF inp of None \<Rightarrow> None
     | Some i \<Rightarrow> if i < sz then Some (take i inp, drop (Suc i) inp) else None)"

lemma http_gets_length: "http_gets sz inp = Some (l, r) \<Longrightarrow> length r < length inp"
  by (auto simp: http_gets_def split: option.splits if_splits dest: find_char_Some)

datatype http_signal = Sig_cookie string string | Sig_redirection string | Sig_mimeType string
  | Sig_error string string

definition chop_line :: "string \<Rightarrow> string" where
  "chop_line l = rev (dropWhile (\<lambda>c. c = LF \<or> c = CR) (rev (cstr l)))"

definition cookie_sig :: "string \<Rightarrow> string \<Rightarrow> http_signal list" where
  "cookie_sig url Cookie = (if Cookie \<noteq> [] then [Sig_cookie url Cookie] else [])"

text \<open>
  The loop of \<open>ProcessHeader\<close>; the result is the return value, the slave, the signals and what is
  left of the input. \<open>resolve\<close> is the construction of the redirected URL from the current one and
  the text of \<open>Location\<close> (\<open>None\<close> if it is malformed). After \<open>Close\<close> only the bytes that the stream
  holds in its buffer can still be read: \<open>buffered\<close> is their number.
\<close>

function header_loop :: "(string \<Rightarrow> string option) \<Rightarrow> (string \<Rightarrow> nat) \<Rightarrow> string \<Rightarrow> string \<Rightarrow> string
    \<Rightarrow> http_signal list \<Rightarrow> KProtocolHTTP \<Rightarrow> (bool \<times> KProtocolHTTP \<times> http_signal list \<times> string) option" where
  "header_loop resolve buffered inp mType Cookie sigs h =
     (case http_gets MAX_HTTP_HEADER_SIZE inp of None \<Rightarrow> None
      | Some (line, inp1) \<Rightarrow>
          (let buffer = chop_line line
           in if buffer = [] then
                Some (True, h\<lparr>bytesleft := hsize h\<rparr>, sigs @ [Sig_mimeType mType] @ cookie_sig (hurl h) Cookie, inp1)
              else if strncasecmp_eq buffer ''Set-Cookie'' 10 then
                header_loop resolve buffered inp1 mType (Cookie @ buffer @ [LF]) sigs h
              else if strncasecmp_eq buffer ''Content-Length: '' 16 then
                header_loop resolve buffered inp1 mType Cookie sigs (h\<lparr>hsize := atol (drop 16 buffer)\<rparr>)
              else if strncasecmp_eq buffer ''Content-Type: '' 14 then
                header_loop resolve buffered inp1 (drop 14 buffer) Cookie sigs h
              else if strncmp_eq buffer ''HTTP/1.0 '' 9 then
                (if at0 (drop 9 buffer) = CHR ''4'' \<or> at0 (drop 9 buffer) = CHR ''5''
                 then header_loop resolve buffered (take (buffered inp1) inp1) mType Cookie
                        (sigs @ [Sig_error ''CouldNotRead'' (drop 9 buffer)]) (Close h)
                 else header_loop resolve buffered inp1 mType Cookie sigs h)
              else if strncasecmp_eq buffer ''Location: '' 10 then
                (case resolve (drop 10 buffer) of
                   Some u2 \<Rightarrow> Some (True, (Close h)\<lparr>bytesleft := 0\<rparr>,
                                    sigs @ cookie_sig (hurl h) Cookie @ [Sig_redirection u2], inp1)
                 | None \<Rightarrow> Some (False, Close h, sigs @ [Sig_error ''MalformedURL'' (drop 10 buffer)], inp1))
              else header_loop resolve buffered inp1 mType Cookie sigs h))"
  by pat_completeness auto
termination
  by (relation "measure (\<lambda>(r, b, inp, m, k, s, h). length inp)")
    (auto dest!: http_gets_length)

declare header_loop.simps [simp del]

definition ProcessHeader :: "(string \<Rightarrow> string option) \<Rightarrow> (string \<Rightarrow> nat) \<Rightarrow> string \<Rightarrow> KProtocolHTTP
    \<Rightarrow> (bool \<times> KProtocolHTTP \<times> http_signal list \<times> string) option" where
  "ProcessHeader resolve buffered inp h =
     header_loop resolve buffered inp (if assumeHTML h then ''text/html'' else []) [] []
       (h\<lparr>hsize := UNKNOWN_SIZE\<rparr>)"

text \<open>
  \<open>OpenHTTP\<close>. The network: whether \<open>socket\<close>, the lookup of a host, \<open>connect\<close> to the proxy or to the
  host and its port, and the opening of the stream succeed, and what the peer answers to a request.
  The result holds the request that was written too.
\<close>

record network =
  net_socket :: bool
  net_lookup :: "string \<Rightarrow> bool"
  net_proxy :: bool
  net_connect :: "string \<Rightarrow> nat \<Rightarrow> bool"
  net_stream :: "bool \<Rightarrow> bool"
  net_answer :: "string \<Rightarrow> string"
  net_resolve :: "string \<Rightarrow> string option"
  net_buffered :: "string \<Rightarrow> nat"

definition use_ssl :: "http_url \<Rightarrow> bool" where
  "use_ssl u \<longleftrightarrow> strncasecmp_eq (u_protocol u) ''https'' 5"

definition http_port :: "http_url \<Rightarrow> nat" where
  "http_port u = (if u_port u = 0 then (if use_ssl u then 443 else 80) else u_port u)"

text \<open>The connection: the slave after it, or the error.\<close>

definition http_connect :: "network \<Rightarrow> http_url \<Rightarrow> bool \<Rightarrow> KProtocolHTTP
    \<Rightarrow> (http_signal \<times> KProtocolHTTP) + KProtocolHTTP" where
  "http_connect net u do_proxy h =
     (let h1 = (if do_proxy then h else h\<lparr>m_bUseSSL := use_ssl u\<rparr>)
      in if do_proxy \<and> \<not> net_proxy net then Inl (Sig_error ''CouldNotConnect'' ''Could not connect to proxy'', h1)
         else if \<not> do_proxy \<and> \<not> net_lookup net (u_host u) then Inl (Sig_error ''UnknownHost'' ''Unknown host'', h1)
         else if \<not> do_proxy \<and> \<not> net_connect net (u_host u) (http_port u)
              then Inl (Sig_error ''CouldNotConnect'' ''Could not connect host'', h1)
         else let h2 = h1\<lparr>connected := True\<rparr>
              in if \<not> net_stream net (m_bUseSSL h2)
                 then Inl (Sig_error ''CouldNotConnect'' ''Could not fdopen socket'', h2)
                 else Inr h2)"

datatype open_mode = READ | WRITE | OVERWRITE

type_synonym open_result = "bool \<times> KProtocolHTTP \<times> string option \<times> http_signal list \<times> string"

definition OpenHTTP :: "string \<Rightarrow> (string \<Rightarrow> string \<Rightarrow> bool) \<Rightarrow> char \<Rightarrow> network \<Rightarrow> http_url \<Rightarrow> open_mode \<Rightarrow> bool
    \<Rightarrow> KProtocolHTTP \<Rightarrow> open_result option" where
  "OpenHTTP default_agent agent_match g net u mode reload h =
     (let h1 = h\<lparr>hurl := u_url u, bytesRead := 0\<rparr>
      in if mode \<noteq> READ then
           Some (False, h1, None, [Sig_error ''NotImplemented'' ''HTTP currently only supports reading''], [])
         else let h2 = (if connected h1 then Close h1 else h1)
         in if \<not> net_socket net then
           Some (False, h2, None, [Sig_error ''CouldNotCreateSocket'' ''Could not create socket''], [])
         else do {
           do_proxy \<leftarrow> (if use_proxy h2 \<and> noProxyForStr h2 \<noteq> []
                        then map_option Not (revmatch (u_host u) (noProxyForStr h2)) else Some (use_proxy h2));
           (case http_connect net u do_proxy h2 of
              Inl (e, h3) \<Rightarrow> Some (False, h3, None, [e], [])
            | Inr h3 \<Rightarrow> do {
                command \<leftarrow> http_request default_agent agent_match g h3 u do_proxy reload;
                (ok, h4, sigs, rest) \<leftarrow> ProcessHeader (net_resolve net) (net_buffered net) (net_answer net command) h3;
                Some (ok, h4, Some command, sigs, rest)
              })
         })"

definition Open :: "string \<Rightarrow> (string \<Rightarrow> string \<Rightarrow> bool) \<Rightarrow> char \<Rightarrow> network \<Rightarrow> http_url \<Rightarrow> open_mode
    \<Rightarrow> KProtocolHTTP \<Rightarrow> open_result option" where
  "Open default_agent agent_match g net u mode h = OpenHTTP default_agent agent_match g net u mode False h"

definition ReOpen :: "string \<Rightarrow> (string \<Rightarrow> string \<Rightarrow> bool) \<Rightarrow> char \<Rightarrow> network \<Rightarrow> http_url \<Rightarrow> open_mode
    \<Rightarrow> KProtocolHTTP \<Rightarrow> open_result option" where
  "ReOpen default_agent agent_match g net u mode h = OpenHTTP default_agent agent_match g net u mode True h"

subsection \<open>Base 64: lemmas\<close>

text \<open>The reader of the other side (RFC 2045), for the statements.\<close>

definition b64_val :: "char \<Rightarrow> nat" where
  "b64_val c = (case find_char c tbl of Some i \<Rightarrow> i | None \<Rightarrow> 0)"

fun base64_decode :: "string \<Rightarrow> string" where
  "base64_decode (a # b # c # d # r) =
     char_of (b64_val a * 4 + b64_val b div 16) #
     (if c = CHR ''='' then []
      else char_of (b64_val b mod 16 * 16 + b64_val c div 4) #
        (if d = CHR ''='' then [] else char_of (b64_val c mod 4 * 64 + b64_val d) # base64_decode r))"
| "base64_decode _ = []"

lemma tbl_values: "\<forall>i\<in>set [0 ..< 64]. b64_val (tbl ! i) = i \<and> tbl ! i \<noteq> CHR ''=''"
  by code_simp

lemma tbl_value [simp]: "i < 64 \<Longrightarrow> b64_val (tbl ! i) = i" "i < 64 \<Longrightarrow> tbl ! i \<noteq> CHR ''=''"
  using tbl_values by auto

lemma tbl_at_int: "tbl_at (int n) = (if n < 64 then Some (tbl ! n) else None)"
  by (simp add: tbl_at_def)

lemma schar_ascii: "code c < 128 \<Longrightarrow> schar c = int (code c)"
  by (simp add: schar_def)

lemma char_of_code [simp]: "char_of (code c) = c"
  by (simp add: code_def)

lemma ascii_NUL [simp]: "code NUL < 128"
  by (simp add: code_def)

text \<open>One group of three ASCII characters.\<close>

definition enc3 :: "char \<Rightarrow> char \<Rightarrow> char \<Rightarrow> string" where
  "enc3 x y z = [tbl ! (code x div 4), tbl ! (code x mod 4 * 16 + code y div 16),
     tbl ! (code y mod 16 * 4 + code z div 64), tbl ! (code z mod 64)]"

lemma group_bounds:
  assumes "code x < 128"
  shows "code x div 4 < 32" "code x div 16 < 8" "code x div 64 < 2"
    "code x mod 4 < 4" "code x mod 16 < 16" "code x mod 64 < 64"
  using assms by (simp_all add: less_mult_imp_div_less)

lemma tbl_at_group:
  assumes "code x < 128" "code y < 128" "code z < 128"
  shows "tbl_at (schar x div 4) = Some (tbl ! (code x div 4))"
    "tbl_at (schar x mod 4 * 16 + schar y div 16) = Some (tbl ! (code x mod 4 * 16 + code y div 16))"
    "tbl_at (schar y mod 16 * 4 + schar z div 64) = Some (tbl ! (code y mod 16 * 4 + code z div 64))"
    "tbl_at (schar z mod 64) = Some (tbl ! (code z mod 64))"
proof -
  have lt: "code x div 4 < 64" "code x mod 4 * 16 + code y div 16 < 64"
    "code y mod 16 * 4 + code z div 64 < 64" "code z mod 64 < 64"
    using group_bounds[OF assms(1)] group_bounds[OF assms(2)] group_bounds[OF assms(3)] by linarith+
  have eqs: "schar x div 4 = int (code x div 4)"
    "schar x mod 4 * 16 + schar y div 16 = int (code x mod 4 * 16 + code y div 16)"
    "schar y mod 16 * 4 + schar z div 64 = int (code y mod 16 * 4 + code z div 64)"
    "schar z mod 64 = int (code z mod 64)"
    using assms by (simp_all add: schar_ascii zdiv_int zmod_int)
  show "tbl_at (schar x div 4) = Some (tbl ! (code x div 4))"
    "tbl_at (schar x mod 4 * 16 + schar y div 16) = Some (tbl ! (code x mod 4 * 16 + code y div 16))"
    "tbl_at (schar y mod 16 * 4 + schar z div 64) = Some (tbl ! (code y mod 16 * 4 + code z div 64))"
    "tbl_at (schar z mod 64) = Some (tbl ! (code z mod 64))"
    unfolding eqs tbl_at_int using lt by simp_all
qed

lemma base64_loop_three:
  "code x < 128 \<Longrightarrow> code y < 128 \<Longrightarrow> code z < 128 \<Longrightarrow>
    base64_loop g (x # y # z # r) = map_option (\<lambda>rest. enc3 x y z @ rest) (base64_loop g r)"
  by (simp add: tbl_at_group enc3_def)

lemma base64_loop_two:
  "code x < 128 \<Longrightarrow> code y < 128 \<Longrightarrow> base64_loop g [x, y] = Some (enc3 x y NUL)"
  by (simp add: tbl_at_group enc3_def)

lemma base64_loop_one:
  "code x < 128 \<Longrightarrow> code g < 128 \<Longrightarrow> base64_loop g [x] = Some (enc3 x NUL g)"
  by (simp add: tbl_at_group enc3_def)

lemma decode_enc3:
  assumes "code x < 128" "code y < 128" "code z < 128"
  shows "base64_decode (enc3 x y z @ r) = x # y # z # base64_decode r"
    "base64_decode (take 3 (enc3 x y z) @ ''='') = [x, y]"
    "base64_decode (take 2 (enc3 x y z) @ ''=='') = [x]"
proof -
  define a b c d where "a = code x div 4" and "b = code x mod 4 * 16 + code y div 16"
    and "c = code y mod 16 * 4 + code z div 64" and "d = code z mod 64"
  have lt [simp]: "a < 64" "b < 64" "c < 64" "d < 64"
    unfolding a_def b_def c_def d_def
    using group_bounds[OF assms(1)] group_bounds[OF assms(2)] group_bounds[OF assms(3)] by linarith+
  have "b div 16 = code x mod 4" "b mod 16 = code y div 16" "c div 4 = code y mod 16" "c mod 4 = code z div 64"
    unfolding b_def c_def using group_bounds[OF assms(2)] group_bounds[OF assms(3)] by simp_all
  then have "a * 4 + b div 16 = code x" "b mod 16 * 16 + c div 4 = code y" "c mod 4 * 64 + d = code z"
    by (simp_all add: a_def d_def)
  then have ch [simp]: "char_of (a * 4 + b div 16) = x" "char_of (b mod 16 * 16 + c div 4) = y"
    "char_of (c mod 4 * 64 + d) = z"
    by simp_all
  have e: "enc3 x y z = [tbl ! a, tbl ! b, tbl ! c, tbl ! d]"
    by (simp add: enc3_def a_def b_def c_def d_def)
  show "base64_decode (enc3 x y z @ r) = x # y # z # base64_decode r"
    "base64_decode (take 3 (enc3 x y z) @ ''='') = [x, y]"
    "base64_decode (take 2 (enc3 x y z) @ ''=='') = [x]"
    unfolding e by simp_all
qed

lemma length_enc3 [simp]: "length (enc3 x y z) = 4"
  by (simp add: enc3_def)

lemma base64_line_small:
  "base64_encode_line g [] = Some []"
  "code x < 128 \<Longrightarrow> code g < 128 \<Longrightarrow> base64_encode_line g [x] = Some (take 2 (enc3 x NUL g) @ ''=='')"
  "code x < 128 \<Longrightarrow> code y < 128 \<Longrightarrow> base64_encode_line g [x, y] = Some (take 3 (enc3 x y NUL) @ ''='')"
  by (simp_all add: base64_encode_line_def base64_loop_one base64_loop_two Let_def
    del: base64_loop.simps(2))

lemma five_div: "(5 + n) div 3 = Suc (Suc (Suc n) div (3 :: nat))"
  using div_add_self2[of 3 "n + 2"] by (simp add: add.commute)

lemma base64_line_three:
  assumes "code x < 128" "code y < 128" "code z < 128" "r = [] \<or> length p > 2"
    "base64_loop g r = Some p" "base64_encode_line g r = Some q"
  shows "base64_encode_line g (x # y # z # r) = Some (enc3 x y z @ q)"
proof -
  have 3: "3 * ((length (x # y # z # r) + 2) div 3) = 3 * ((length r + 2) div 3) + 3"
    by (simp add: five_div)
  have "base64_loop g (x # y # z # r) = Some (enc3 x y z @ p)"
    using assms by (simp add: base64_loop_three del: base64_loop.simps(2))
  with assms 3 show ?thesis
    by (cases "r = []")
      (auto simp: base64_encode_line_def Let_def simp del: base64_loop.simps(2))
qed

lemma base64_encode_ascii:
  assumes "\<forall>c\<in>set s. code c < 128" "code g < 128"
  shows "\<exists>p q. base64_loop g s = Some p \<and> length p = 4 * ((length s + 2) div 3) \<and>
    base64_encode_line g s = Some q \<and> length q = 4 * ((length s + 2) div 3) \<and> base64_decode q = s"
  using assms(1)
proof (induction "length s" arbitrary: s rule: less_induct)
  case less
  consider "s = []" | x where "s = [x]" | x y where "s = [x, y]" | x y z r where "s = x # y # z # r"
    by (metis list.exhaust)
  then show ?case
  proof cases
    case 4
    with less obtain p q where *: "base64_loop g r = Some p" "length p = 4 * ((length r + 2) div 3)"
      "base64_encode_line g r = Some q" "length q = 4 * ((length r + 2) div 3)" "base64_decode q = r"
      by (metis length_Cons less_Suc_eq list.set_intros(2))
    have "r = [] \<or> length p > 2"
      using *(2) div_le_mono[of 3 "length r + 2" 3] by (cases r) auto
    with 4 less.prems * show ?thesis
      by (simp add: base64_loop_three base64_line_three[where p = p] decode_enc3 five_div del: base64_loop.simps(2))
  qed (use less.prems assms(2) in \<open>simp_all add: base64_loop_one base64_loop_two base64_line_small decode_enc3
         del: base64_loop.simps(2)\<close>)
qed

text \<open>An ASCII text is encoded without undefined behaviour into four characters for three, and the
  receiver decodes it to the text. (The byte behind the text is read when the last group has one
  character; it must be ASCII too, but does not change the result.)\<close>

theorem base64_roundtrip:
  assumes "\<forall>c\<in>set s. code c < 128" "code g < 128"
  shows "\<exists>p. base64_encode_line g s = Some p \<and> length p = 4 * ((length s + 2) div 3) \<and> base64_decode p = s"
  using base64_encode_ascii[OF assms] by blast

lemma base64_roundtrip_witness:
  "\<exists>p. base64_encode_line NUL ''user:pw'' = Some p \<and> length p = 12 \<and> base64_decode p = ''user:pw''"
  using base64_roundtrip[of "''user:pw''" NUL] by (simp add: code_def)

lemma base64_loop_bad: "3 * k < length s \<Longrightarrow> 128 \<le> code (s ! (3 * k)) \<Longrightarrow> base64_loop g s = None"
proof (induction k arbitrary: s)
  case 0
  then obtain c r where s: "s = c # r" "128 \<le> code c" by (cases s) auto
  then have "schar c div 4 < 0" by (simp add: schar_def del: code_lt) (use code_lt[of c] in linarith)
  then have "tbl_at (schar c div 4) = None" by (simp add: tbl_at_def)
  then show ?case by (simp add: s Let_def)
next
  case (Suc k)
  then obtain x y z r where s: "s = x # y # z # r"
    by (cases s rule: base64_decode.cases; cases s; cases "tl s"; cases "tl (tl s)") auto
  with Suc have "base64_loop g r = None" by simp
  then show ?case by (auto simp: s Let_def bind_eq_None_conv)
qed

text \<open>The table is indexed with a signed \<open>char\<close>: a user name or password in which the first character
  of a group of three is not ASCII reads in front of the table.\<close>

theorem base64_not_ascii:
  assumes "3 * k < length (user @ '':'' @ passwd)" "128 \<le> code ((user @ '':'' @ passwd) ! (3 * k))"
  shows "create_www_auth g (Some user) (Some passwd) = None"
  using base64_loop_bad[OF assms]
  by (simp add: create_www_auth_def create_generic_auth_def base64_encode_line_def Let_def)

lemma base64_not_ascii_witness: "create_www_auth NUL (Some ''me'') (Some [CHR 0xE9, CHR 0xE9]) = None"
  using base64_not_ascii[of 1 "''me''" "[CHR 0xE9, CHR 0xE9]" NUL] by (simp add: code_def)

subsection \<open>Hosts without a proxy: lemmas\<close>

fun join_entries :: "string list \<Rightarrow> string" where
  "join_entries [] = []"
| "join_entries [e] = e"
| "join_entries (e # es) = e @ '','' @ join_entries es"

lemma rev_join_snoc:
  "rev (join_entries (es @ [e])) = rev e @ (if es = [] then [] else CHR '','' # rev (join_entries es))"
  by (induction es rule: join_entries.induct) auto

definition np_word :: "string \<Rightarrow> bool" where
  "np_word e \<longleftrightarrow> e \<noteq> [] \<and> (\<forall>c\<in>set e. \<not> np_sep c)"

text \<open>One entry of the list, reversed, against the rest \<open>hp\<close> of the reversed host.\<close>

lemma revmatch_entry:
  assumes "re \<noteq> []" "\<forall>c\<in>set re. \<not> np_sep c" "tail = [] \<or> np_sep (hd tail)"
  shows "revmatch_loop sh hp (re @ tail) =
    (if prefix re hp then Some True else if prefix hp re then None
     else revmatch_loop sh sh (dropWhile np_sep tail))"
  using assms
proof (induction re arbitrary: hp)
  case (Cons n re)
  show ?case
  proof (cases hp)
    case (Cons h hp')
    have skip: "next_entry (n # re @ tail) = dropWhile np_sep tail"
    proof -
      have "dropWhile (\<lambda>c. \<not> np_sep c) (re @ tail) = tail"
        using Cons.prems by (cases tail) (auto simp: dropWhile_append)
      then have "next_entry (n # re @ tail) = dropWhile np_sep (tl tail)"
        by (simp only: next_entry_def list.sel)
      with Cons.prems show ?thesis
        by (cases tail) simp_all
    qed
    have last: "re @ tail = [] \<or> np_sep (hd (re @ tail)) \<longleftrightarrow> re = []"
      using Cons.prems by (cases re) auto
    have "re \<noteq> [] \<Longrightarrow> revmatch_loop sh hp' (re @ tail) =
      (if prefix re hp' then Some True else if prefix hp' re then None
       else revmatch_loop sh sh (dropWhile np_sep tail))"
      using Cons.IH Cons.prems by simp
    with last show ?thesis
      unfolding Cons append.simps revmatch_loop.simps list.case skip by (cases "h = n") auto
  qed simp
qed simp

lemma revmatch_entries:
  assumes "\<forall>e\<in>set es. np_word e"
  shows "revmatch_loop (rev host) (rev host) (rev (join_entries es)) =
    (case find (\<lambda>e. suffix e host \<or> suffix host e) (rev es) of
       None \<Rightarrow> Some False | Some e \<Rightarrow> if suffix e host then Some True else None)"
  using assms
proof (induction es rule: rev_induct)
  case (snoc e es)
  define tail where "tail = (if es = [] then [] else CHR '','' # rev (join_entries es))"
  have "\<not> np_sep (hd (rev (join_entries es)))" if ne: "es \<noteq> []"
  proof -
    obtain ys y where es: "es = ys @ [y]" "np_word y"
      using ne snoc.prems by (cases es rule: rev_cases) auto
    then have "hd (rev y) \<in> set y" by (cases y rule: rev_cases) (auto simp: np_word_def)
    with es show ?thesis by (auto simp: rev_join_snoc np_word_def hd_append)
  qed
  moreover have "rev (join_entries es) \<noteq> []" if "es \<noteq> []"
    using that snoc.prems by (cases es rule: rev_cases) (auto simp: rev_join_snoc np_word_def)
  ultimately have "dropWhile np_sep tail = rev (join_entries es)"
    by (cases "rev (join_entries es)") (auto simp: tail_def np_sep_def)
  moreover have "tail = [] \<or> np_sep (hd tail)"
    by (simp add: tail_def np_sep_def)
  ultimately show ?case
    using snoc revmatch_entry[of "rev e" tail "rev host" "rev host"]
    by (simp add: rev_join_snoc suffix_to_prefix np_word_def flip: tail_def)
qed simp

text \<open>The test for hosts that need no proxy. The entries of the list are tried from the last to the
  first: an entry that is a suffix of the host is a match, with no regard to the dots between the parts of a
  name; but when the host itself is a proper suffix of an entry, the test reads in front of the
  host's first character. With no such entry there is no match.\<close>

theorem revmatch_correct:
  assumes "\<forall>e\<in>set es. np_word e"
  shows "revmatch host (join_entries es) =
    (case find (\<lambda>e. suffix e host \<or> suffix host e) (rev es) of
       None \<Rightarrow> Some False | Some e \<Rightarrow> if suffix e host then Some True else None)"
  unfolding revmatch_def by (rule revmatch_entries[OF assms])

lemma revmatch_correct_witness:
  "revmatch ''cuzco.inka.de'' ''inka.de,hadiko.de'' = Some True \<and> revmatch ''de'' ''inka.de'' = None"
  using revmatch_correct[of "[''inka.de'', ''hadiko.de'']" "''cuzco.inka.de''"]
    revmatch_correct[of "[''inka.de'']" "''de''"]
  by (simp add: np_word_def np_sep_def suffix_to_prefix)

subsection \<open>Content negotiation: lemmas\<close>

text \<open>A language with a country is listed with its country only; the language alone is never
  added, although the source wants it added "anyway".\<close>

theorem add_language_country:
  assumes "splitLocale lang = (lng, ct, chset)" "lng \<noteq> []" "ct \<noteq> []" "lang \<noteq> ''C''" "lang \<noteq> ''*''"
  shows "set (add_language splitLocale lang lst) = insert (lng @ ''-'' @ ct) (set lst)"
  using assms by (auto simp: add_language_def)

lemma add_language_country_witness:
  "set (add_language (\<lambda>l. (take 2 l, drop 3 l, [])) ''en_US'' []) = {''en-US''}"
  using add_language_country[of "\<lambda>l. (take 2 l, drop 3 l, [])" "''en_US''" "''en''" "''US''" "[]" "[]"] by simp

subsection \<open>The answer: lemmas\<close>

lemma http_gets_line: "LF \<notin> set l \<Longrightarrow> length l < sz \<Longrightarrow> http_gets sz (l @ LF # r) = Some (l, r)"
  by (simp add: http_gets_def)

lemma http_gets_long: "LF \<notin> set (take sz inp) \<Longrightarrow> http_gets sz inp = None"
proof (cases "find_char LF inp")
  case (Some i)
  assume *: "LF \<notin> set (take sz inp)"
  have "\<not> i < sz"
  proof
    assume "i < sz"
    with find_char_Some[OF Some] have "LF \<in> set (take sz inp)"
      by (metis in_set_conv_nth length_take min_less_iff_conj nth_take)
    with * show False ..
  qed
  then show ?thesis using Some by (simp add: http_gets_def)
qed (simp add: http_gets_def)

lemma chop_line_cr: "no_nul l \<Longrightarrow> CR \<notin> set l \<Longrightarrow> LF \<notin> set l \<Longrightarrow> chop_line (l @ [CR]) = l"
  by (cases l rule: rev_cases) (auto simp: chop_line_def)

lemma strncasecmp_at:
  assumes "strncasecmp_eq l k n" "i < n" "i < length (cstr k)"
  shows "i < length (cstr l)" "tolower (cstr l ! i) = tolower (cstr k ! i)"
proof -
  have eq: "take n (map tolower (cstr l)) = take n (map tolower (cstr k))"
    using assms(1) by (simp add: strncasecmp_eq_def)
  then have "length (take n (map tolower (cstr l))) = length (take n (map tolower (cstr k)))" by simp
  with assms show l: "i < length (cstr l)" by simp
  have "take n (map tolower (cstr l)) ! i = take n (map tolower (cstr k)) ! i" using eq by simp
  with l assms show "tolower (cstr l ! i) = tolower (cstr k ! i)" by simp
qed

abbreviation (input) is_set_cookie :: "string \<Rightarrow> bool" where
  "is_set_cookie l \<equiv> strncasecmp_eq l ''Set-Cookie'' 10"
abbreviation (input) is_length :: "string \<Rightarrow> bool" where
  "is_length l \<equiv> strncasecmp_eq l ''Content-Length: '' 16"
abbreviation (input) is_type :: "string \<Rightarrow> bool" where
  "is_type l \<equiv> strncasecmp_eq l ''Content-Type: '' 14"

lemma headers_exclusive:
  "is_set_cookie l \<Longrightarrow> \<not> is_length l" "is_set_cookie l \<Longrightarrow> \<not> is_type l" "is_length l \<Longrightarrow> \<not> is_type l"
  using strncasecmp_at(2)[of l "''Set-Cookie''" 10 0] strncasecmp_at(2)[of l "''Content-Length: ''" 16 0]
    strncasecmp_at(2)[of l "''Content-Type: ''" 14 0] strncasecmp_at(2)[of l "''Content-Length: ''" 16 8]
    strncasecmp_at(2)[of l "''Content-Type: ''" 14 8]
  by (auto simp: tolower_def isupper_def code_def)

text \<open>A line of a header that is neither a redirection nor an error status.\<close>

definition plain_line :: "string \<Rightarrow> bool" where
  "plain_line l \<longleftrightarrow> l \<noteq> [] \<and> no_nul l \<and> CR \<notin> set l \<and> LF \<notin> set l \<and> length l < 4095 \<and>
     \<not> strncasecmp_eq l ''Location: '' 10 \<and>
     \<not> (strncmp_eq l ''HTTP/1.0 '' 9 \<and> (at0 (drop 9 l) = CHR ''4'' \<or> at0 (drop 9 l) = CHR ''5''))"

definition wire :: "string list \<Rightarrow> string" where
  "wire ls = concat (map (\<lambda>l. l @ crlf) ls)"

lemma header_loop_line:
  assumes "plain_line l"
  shows "header_loop resolve buffered (l @ crlf @ r) m c sigs h =
    header_loop resolve buffered r (if is_type l then drop 14 l else m)
      (if is_set_cookie l then c @ l @ [LF] else c) sigs
      (if is_length l then h\<lparr>hsize := atol (drop 16 l)\<rparr> else h)"
proof -
  have g: "http_gets MAX_HTTP_HEADER_SIZE (l @ CR # LF # r) = Some (l @ [CR], r)"
    using assms http_gets_line[of "l @ [CR]" 4096 r] by (simp add: plain_line_def MAX_HTTP_HEADER_SIZE_def)
  have c: "chop_line (l @ [CR]) = l" "l \<noteq> []"
    using assms by (simp_all add: plain_line_def chop_line_cr)
  show ?thesis
    using assms headers_exclusive[of l]
    by (simp add: header_loop.simps[of _ _ "l @ CR # LF # r"] g c plain_line_def Let_def)
qed

lemma header_loop_blank:
  "header_loop resolve buffered (crlf @ r) m c sigs h =
    Some (True, h\<lparr>bytesleft := hsize h\<rparr>, sigs @ [Sig_mimeType m] @ cookie_sig (hurl h) c, r)"
proof -
  have "http_gets MAX_HTTP_HEADER_SIZE (crlf @ r) = Some ([CR], r)"
    using http_gets_line[of "[CR]" 4096 r] by (simp add: MAX_HTTP_HEADER_SIZE_def)
  moreover have "chop_line [CR] = []" by (simp add: chop_line_def)
  ultimately show ?thesis by (subst header_loop.simps) simp
qed

text \<open>The value of the last line of the header with a property.\<close>

definition last_field :: "(string \<Rightarrow> bool) \<Rightarrow> (string \<Rightarrow> 'a) \<Rightarrow> 'a \<Rightarrow> string list \<Rightarrow> 'a" where
  "last_field P f d ls = (case filter P ls of [] \<Rightarrow> d | x # xs \<Rightarrow> f (last (x # xs)))"

lemma last_field_simps [simp]:
  "last_field P f d [] = d"
  "last_field P f d (l # ls) = last_field P f (if P l then f l else d) ls"
  by (auto simp: last_field_def split: list.splits)

lemma header_loop_lines:
  assumes "\<forall>l\<in>set ls. plain_line l"
  shows "header_loop resolve buffered (wire ls @ r) m c sigs h =
    header_loop resolve buffered r (last_field is_type (drop 14) m ls)
      (c @ concat (map (\<lambda>l. l @ [LF]) (filter is_set_cookie ls))) sigs
      (h\<lparr>hsize := last_field is_length (\<lambda>l. atol (drop 16 l)) (hsize h) ls\<rparr>)"
  using assms
proof (induction ls arbitrary: m c h)
  case (Cons l ls)
  have eq: "wire (l # ls) @ r = l @ crlf @ (wire ls @ r)" by (simp add: wire_def)
  have l: "plain_line l" and ls: "\<forall>l\<in>set ls. plain_line l" using Cons.prems by simp_all
  show ?case
    unfolding eq header_loop_line[OF l] Cons.IH[OF ls] by simp
qed (simp add: wire_def)

text \<open>C7: An answer is read up to the blank line of its header and not further: the rest is left for \<open>Read\<close>. The size is the one of the last
  \<open>Content-Length\<close> (unknown without one), the type the one of the last \<open>Content-Type\<close>, and the lines that begin with \<open>Set-Cookie\<close>, in their order, are
  handed over for the URL. Each line of the header (\<open>plain_line\<close>) ends in CR LF, is not empty and shorter than 4095 characters, holds no CR, LF or NUL, and is neither
  a \<open>Location\<close> nor an HTTP/1.0 status from 400 to 599.\<close>

theorem ProcessHeader_plain:
  assumes "\<forall>l\<in>set ls. plain_line l"
  shows "ProcessHeader resolve buffered (wire ls @ crlf @ body) h =
    (let sz = last_field is_length (\<lambda>l. atol (drop 16 l)) UNKNOWN_SIZE ls
     in Some (True, h\<lparr>hsize := sz, bytesleft := sz\<rparr>,
          Sig_mimeType (last_field is_type (drop 14) (if assumeHTML h then ''text/html'' else []) ls)
            # cookie_sig (hurl h) (concat (map (\<lambda>l. l @ [LF]) (filter is_set_cookie ls))), body))"
  unfolding ProcessHeader_def header_loop_lines[OF assms] header_loop_blank by (simp add: Let_def)

text \<open>A header line of 4096 characters or more, and an answer that ends before the blank line of its header,
  make \<open>_gets\<close> write behind its buffer.\<close>

theorem ProcessHeader_overflow:
  assumes "\<forall>l\<in>set ls. plain_line l" "LF \<notin> set (take 4096 r)"
  shows "ProcessHeader resolve buffered (wire ls @ r) h = None"
proof -
  have "http_gets MAX_HTTP_HEADER_SIZE r = None"
    using http_gets_long[OF assms(2)] by (simp add: MAX_HTTP_HEADER_SIZE_def)
  then show ?thesis
    unfolding ProcessHeader_def header_loop_lines[OF assms(1)] by (subst header_loop.simps) simp
qed

lemma ProcessHeader_plain_witness:
  "\<exists>h' g. ProcessHeader (\<lambda>_. None) length (wire [''HTTP/1.0 200 OK'', ''Content-Length: 2''] @ crlf @ ''ok'')
     (new_http [] (\<lambda>g k d. d) False 0 (\<lambda>l. (l, [], [])) (\<lambda>_. [])) = Some (True, h', g, ''ok'')"
proof -
  have "\<forall>l\<in>set [''HTTP/1.0 200 OK'', ''Content-Length: 2'']. plain_line l"
    by (simp add: plain_line_def strncasecmp_eq_def strncmp_eq_def tolower_def isupper_def code_def)
  from ProcessHeader_plain[OF this] show ?thesis
    unfolding Let_def by blast
qed

lemma ProcessHeader_overflow_witness:
  "ProcessHeader (\<lambda>_. None) length (wire [''HTTP/1.0 200 OK''] @ ''Content-Type: text'')
     (new_http [] (\<lambda>g k d. d) False 0 (\<lambda>l. (l, [], [])) (\<lambda>_. [])) = None"
proof -
  have "\<forall>l\<in>set [''HTTP/1.0 200 OK'']. plain_line l"
    by (simp add: plain_line_def strncasecmp_eq_def strncmp_eq_def tolower_def isupper_def code_def)
  from ProcessHeader_overflow[OF this, of "''Content-Type: text''"] show ?thesis
    by simp
qed

subsection \<open>The request: lemmas\<close>

text \<open>A block of complete header lines.\<close>

definition hdr_block :: "string \<Rightarrow> bool" where
  "hdr_block b \<longleftrightarrow> (\<exists>ls. b = wire ls \<and> (\<forall>l\<in>set ls. l \<noteq> [] \<and> LF \<notin> set l))"

lemma hdr_block_Nil [simp]: "hdr_block []"
  by (auto simp: hdr_block_def wire_def intro: exI[of _ "[]"])

lemma hdr_block_line [intro]: "l \<noteq> [] \<Longrightarrow> LF \<notin> set l \<Longrightarrow> hdr_block (l @ crlf)"
  unfolding hdr_block_def by (rule exI[of _ "[l]"]) (simp add: wire_def)

lemma hdr_block_append [intro]: "hdr_block a \<Longrightarrow> hdr_block b \<Longrightarrow> hdr_block (a @ b)"
  unfolding hdr_block_def
proof (elim exE conjE)
  fix la lb
  assume "a = wire la" "\<forall>l\<in>set la. l \<noteq> [] \<and> LF \<notin> set l" "b = wire lb" "\<forall>l\<in>set lb. l \<noteq> [] \<and> LF \<notin> set l"
  then show "\<exists>ls. a @ b = wire ls \<and> (\<forall>l\<in>set ls. l \<noteq> [] \<and> LF \<notin> set l)"
    by (intro exI[of _ "la @ lb"]) (auto simp: wire_def)
qed

lemma hdr_block_first: "hdr_block (l @ crlf @ b)" if "l \<noteq> []" "LF \<notin> set l" "hdr_block b"
  using hdr_block_append[OF hdr_block_line[OF that(1,2)] that(3)] by simp

lemma tbl_no_LF: "LF \<notin> set tbl"
  by (simp add: tbl_def)

lemma tbl_at_set: "tbl_at i = Some c \<Longrightarrow> c \<noteq> LF"
proof -
  have "length tbl = 64" by (simp add: tbl_def)
  then show "tbl_at i = Some c \<Longrightarrow> c \<noteq> LF"
    using tbl_no_LF by (auto simp: tbl_at_def split: if_splits) (metis nat_less_iff nth_mem of_nat_numeral)
qed

lemma base64_loop_no_LF: "base64_loop g s = Some p \<Longrightarrow> LF \<notin> set p"
proof (induction g s arbitrary: p rule: base64_loop.induct)
  case (2 g c r)
  then show ?case
    by (auto simp: Let_def bind_eq_Some_conv dest: tbl_at_set)
qed simp

lemma base64_line_no_LF: "base64_encode_line g s = Some p \<Longrightarrow> LF \<notin> set p"
proof -
  assume "base64_encode_line g s = Some p"
  then obtain z where z: "base64_loop g s = Some z"
    "p = take (length z - 1) z @ ''='' \<or> p = take (length z - 2) z @ ''=='' \<or> p = z"
    by (auto simp: base64_encode_line_def Let_def split: if_splits)
  from base64_loop_no_LF[OF z(1)] z(2) show "LF \<notin> set p"
    by (auto dest: in_set_takeD)
qed

lemma create_generic_auth_block:
  "create_generic_auth g pre user passwd = Some a \<Longrightarrow> LF \<notin> set pre \<Longrightarrow> hdr_block (plus_text a)"
proof (cases a)
  case (Some x)
  assume "create_generic_auth g pre user passwd = Some a" "LF \<notin> set pre"
  then obtain t where "x = (pre @ '': Basic '' @ t) @ crlf" "LF \<notin> set t"
    using Some by (auto simp: create_generic_auth_def split: option.splits dest: base64_line_no_LF)
  then show "hdr_block (plus_text a)"
    using \<open>LF \<notin> set pre\<close> Some by (auto simp: plus_text_def simp del: append_assoc)
qed (simp add: plus_text_def hdr_block_def wire_def exI[of _ "[]"])

text \<open>The parts of the request that the caller and the configuration give are free of line feeds.\<close>

definition clean_request :: "string \<Rightarrow> KProtocolHTTP \<Rightarrow> http_url \<Rightarrow> bool" where
  "clean_request default_agent h u \<longleftrightarrow> LF \<notin> set default_agent \<and> (\<forall>a\<in>set (agent_strings h). LF \<notin> set a) \<and>
     LF \<notin> set (charsets h) \<and> LF \<notin> set (languages h) \<and>
     LF \<notin> set (u_host u) \<and> LF \<notin> set (u_httpPath u) \<and> (\<forall>q. u_searchPart u = Some q \<longrightarrow> LF \<notin> set q)"

lemma dec_no_LF [simp]: "LF \<notin> set (dec_of_nat n)"
  using dec_of_nat_digits[of n] by (auto simp: isdigit_def code_def)

lemma find_agent_no_LF: "find_agent am host as = Some a \<Longrightarrow> \<forall>x\<in>set as. LF \<notin> set x \<Longrightarrow> LF \<notin> set a"
  by (induction as) (auto split: if_splits option.splits dest: in_set_dropD)

lemma request_target_no_LF: "clean_request d h u \<Longrightarrow> LF \<notin> set (request_target do_proxy u)"
  by (auto simp: request_target_def clean_request_def split: option.splits)

lemma auth_headers_block: "auth_headers g h u do_proxy = Some a \<Longrightarrow> hdr_block a"
  by (auto simp: auth_headers_def bind_eq_Some_conv create_www_auth_def split: if_splits
      dest!: create_generic_auth_block intro!: hdr_block_append)

text \<open>The lines of the request up to the cookies, and the two lines of a form.\<close>

definition content_lines :: "string \<Rightarrow> string" where
  "content_lines d = (if d \<noteq> [] then ''Content-Type: application/x-www-form-urlencoded'' @ crlf
     @ ''Content-Length: '' @ dec_of_nat (length d) @ crlf else [])"

lemma content_lines_block: "hdr_block (content_lines d)"
  using hdr_block_first[of "''Content-Type: application/x-www-form-urlencoded''"
      "(''Content-Length: '' @ dec_of_nat (length d)) @ crlf"]
    hdr_block_line[of "''Content-Length: '' @ dec_of_nat (length d)"]
  by (simp add: content_lines_def)

lemma http_request_parts:
  assumes "http_request d am g h u do_proxy reload = Some cmd" "clean_request d h u"
  shows "\<exists>a b. hdr_block a \<and> hdr_block b \<and> auth_headers g h u do_proxy = Some b \<and>
    cmd = a @ Cookies h @ content_lines (post_data h) @ b @ crlf @ post_data h"
proof -
  define agent where "agent = (case find_agent am (u_host u) (agent_strings h) of Some a \<Rightarrow> a | None \<Rightarrow> d)"
  define post where "post = (post_data h \<noteq> [])"
  define l1 where "l1 = (if post then ''POST '' else ''GET '') @ request_target do_proxy u @ '' HTTP/1.0''"
  define l6 where "l6 = ''Host: '' @ u_host u @ (if u_port u \<noteq> 0 then '':'' @ dec_of_nat (u_port u) else [])"
  define c3 where "c3 = (if reload \<or> post then ''Pragma: no-cache'' @ crlf @ ''Cache-control: no-cache'' @ crlf else [])"
  define c4 where "c4 = (if charsets h \<noteq> [] then (''Accept-Charset: '' @ charsets h) @ crlf else [])"
  define c5 where "c5 = (if languages h \<noteq> [] then (''Accept-Language: '' @ languages h) @ crlf else [])"
  from assms(1) obtain b where b: "auth_headers g h u do_proxy = Some b"
    and cmd: "cmd = (l1 @ crlf) @ (''Connection: close'' @ crlf) @ ((''User-Agent: '' @ agent) @ crlf) @ c3 @ c4 @ c5
      @ (l6 @ crlf) @ Cookies h @ content_lines (post_data h) @ b @ crlf @ post_data h"
    by (auto simp: http_request_def Let_def l1_def agent_def post_def c3_def c4_def c5_def l6_def content_lines_def)
  have "hdr_block (l1 @ crlf)"
    using request_target_no_LF[OF assms(2)] by (intro hdr_block_line) (auto simp: l1_def)
  moreover have "hdr_block (''Connection: close'' @ crlf)"
    by (intro hdr_block_line) auto
  moreover have "hdr_block ((''User-Agent: '' @ agent) @ crlf)"
    using assms(2)
    by (intro hdr_block_line) (auto simp: agent_def clean_request_def dest: find_agent_no_LF split: option.splits)
  moreover have "hdr_block c3"
    using hdr_block_append[OF hdr_block_line[of "''Pragma: no-cache''"] hdr_block_line[of "''Cache-control: no-cache''"]]
    by (simp add: c3_def)
  moreover have "hdr_block c4" "hdr_block c5"
    using assms(2) by (auto simp: c4_def c5_def clean_request_def simp del: append_assoc append.simps)
  moreover have "hdr_block (l6 @ crlf)"
    using assms(2) by (intro hdr_block_line) (auto simp: l6_def clean_request_def)
  ultimately have "hdr_block ((l1 @ crlf) @ (''Connection: close'' @ crlf) @ ((''User-Agent: '' @ agent) @ crlf)
      @ c3 @ c4 @ c5 @ (l6 @ crlf))"
    by (simp only: hdr_block_append)
  with b cmd auth_headers_block[OF b] show ?thesis
    by (intro exI[of _ "(l1 @ crlf) @ (''Connection: close'' @ crlf) @ ((''User-Agent: '' @ agent) @ crlf)
      @ c3 @ c4 @ c5 @ (l6 @ crlf)"] exI[of _ b]) simp
qed

text \<open>When the cookie lines are lines of a header, the server that reads header lines up to the first empty one finds the posted data behind it.\<close>

lemma http_request_wire:
  assumes "http_request d am g h u do_proxy reload = Some cmd" "clean_request d h u" "Cookies h = wire lc" "\<forall>l\<in>set lc. l \<noteq> [] \<and> LF \<notin> set l"
  shows "\<exists>ls. cmd = wire ls @ crlf @ post_data h \<and> (\<forall>l\<in>set ls. l \<noteq> [] \<and> LF \<notin> set l) \<and> set lc \<subseteq> set ls \<and>
    (post_data h \<noteq> [] \<longrightarrow> ''Content-Length: '' @ dec_of_nat (length (post_data h)) \<in> set ls)"
proof -
  obtain a b where parts: "hdr_block a" "hdr_block b"
    "cmd = a @ Cookies h @ content_lines (post_data h) @ b @ crlf @ post_data h"
    using http_request_parts[OF assms(1,2)] by blast
  define cl where "cl = (if post_data h \<noteq> [] then [''Content-Type: application/x-www-form-urlencoded'',
    ''Content-Length: '' @ dec_of_nat (length (post_data h))] else [])"
  have cl: "content_lines (post_data h) = wire cl" "\<forall>l\<in>set cl. l \<noteq> [] \<and> LF \<notin> set l"
    by (auto simp: content_lines_def wire_def cl_def)
  obtain la lb where l: "a = wire la" "b = wire lb"
    "\<forall>l\<in>set la. l \<noteq> [] \<and> LF \<notin> set l" "\<forall>l\<in>set lb. l \<noteq> [] \<and> LF \<notin> set l"
    using parts(1,2) unfolding hdr_block_def by blast
  have "wire (la @ lc @ cl @ lb) = a @ Cookies h @ content_lines (post_data h) @ b"
    by (simp add: wire_def l(1-2) assms(3) cl(1))
  then have "cmd = wire (la @ lc @ cl @ lb) @ crlf @ post_data h"
    using parts(3) by simp
  moreover have "\<forall>l\<in>set (la @ lc @ cl @ lb). l \<noteq> [] \<and> LF \<notin> set l"
    using l(3,4) assms(4) cl(2) by (simp only: set_append ball_Un simp_thms)
  moreover have "post_data h \<noteq> [] \<longrightarrow> ''Content-Length: '' @ dec_of_nat (length (post_data h)) \<in> set (la @ lc @ cl @ lb)"
    by (simp add: cl_def)
  moreover have "set lc \<subseteq> set (la @ lc @ cl @ lb)" by auto
  ultimately show ?thesis by blast
qed

definition sample_http :: KProtocolHTTP where
  "sample_http = new_http ''agent'' (\<lambda>g k d. d) False 0 (\<lambda>l. (l, [], [])) (\<lambda>_. [])"

definition sample_url :: http_url where
  "sample_url = \<lparr>u_url = ''http://h/'', u_protocol = ''http'', u_host = ''h'', u_port = 0,
     u_httpPath = ''/'', u_searchPart = None, u_user = [], u_passwd = []\<rparr>"

lemma sample_lists:
  "PrepareLanguageList f g [] = []" "PrepareCharsetList g [] = []"
  by (simp_all add: PrepareLanguageList_def PrepareCharsetList_def list_words.simps)

lemmas sample_defs = sample_http_def sample_url_def new_http_def read_agents_def sample_lists Let_def

subsection \<open>Reading and the end of the stream\<close>

lemma header_loop_eof:
  "header_loop resolve buffered inp m c sigs h = Some (ok, h', g, r) \<Longrightarrow> m_bEOF h' = m_bEOF h"
proof (induction resolve buffered inp m c sigs h rule: header_loop.induct)
  case (1 resolve buffered inp m c sigs h)
  from 1(7) show ?case
    by (subst (asm) header_loop.simps)
      (auto simp: Let_def Close_def split: option.splits if_splits prod.splits dest: 1(1-6)[OF _ refl refl])
qed

lemma OpenHTTP_eof:
  assumes "OpenHTTP d am g net u mode reload h = Some (ok, h', cmd, sigs, rest)"
  shows "m_bEOF h' = m_bEOF h"
proof -
  define h2 where "h2 = (if connected h then Close (h\<lparr>hurl := u_url u, bytesRead := 0\<rparr>)
    else h\<lparr>hurl := u_url u, bytesRead := 0\<rparr>)"
  have h2: "m_bEOF h2 = m_bEOF h" by (simp add: h2_def Close_def)
  have conn: "m_bEOF h3 = m_bEOF h" if "http_connect net u p h2 = Inr h3" for p h3
    using that h2 by (auto simp: http_connect_def Let_def split: if_splits)
  have conn': "m_bEOF h3 = m_bEOF h" if "http_connect net u p h2 = Inl (e, h3)" for p h3 e
    using that h2 by (auto simp: http_connect_def Let_def split: if_splits)
  show ?thesis
  proof (cases "mode \<noteq> READ \<or> \<not> net_socket net")
    case True
    then show ?thesis
      using assms by (auto simp: OpenHTTP_def Let_def Close_def split: if_splits)
  next
    case False
    with assms obtain p where p: "(case http_connect net u p h2 of
              Inl (e, h3) \<Rightarrow> Some (False, h3, None, [e], [])
            | Inr h3 \<Rightarrow> do {
                command \<leftarrow> http_request d am g h3 u p reload;
                (ok, h4, sigs, rest) \<leftarrow> ProcessHeader (net_resolve net) (net_buffered net) (net_answer net command) h3;
                Some (ok, h4, Some command, sigs, rest)
              }) = Some (ok, h', cmd, sigs, rest)"
      by (auto simp: OpenHTTP_def Let_def bind_eq_Some_conv h2_def)
    then show ?thesis
      by (auto simp: bind_eq_Some_conv ProcessHeader_def conn conn' split: sum.splits prod.splits
          dest!: header_loop_eof)
  qed
qed

text \<open>The end of a stream is remembered: a slave that has met the end of its first document reads
  nothing of any document it is told to open later, although opening it succeeds.\<close>

theorem http_eof_is_sticky:
  assumes "m_bEOF h" "OpenHTTP d am g net u mode reload h = Some (ok, h', cmd, sigs, rest)"
  shows "Read kbs hms elapsed secs nbytes ended h' = (Some 0, h', None)"
  using OpenHTTP_eof[OF assms(2)] assms(1) by (simp add: Read_def atEOF_def)

definition sample_net :: network where
  "sample_net = \<lparr>net_socket = True, net_lookup = (\<lambda>_. True), net_proxy = False, net_connect = (\<lambda>_ _. True),
     net_stream = (\<lambda>_. True), net_answer = (\<lambda>_. crlf @ ''text''), net_resolve = (\<lambda>_. None),
     net_buffered = length\<rparr>"

lemma http_eof_is_sticky_witness:
  "\<exists>h' cmd sigs. OpenHTTP ''agent'' (\<lambda>p h. True) NUL sample_net sample_url READ False (sample_http\<lparr>m_bEOF := True\<rparr>)
     = Some (True, h', cmd, sigs, ''text'') \<and>
   Read (\<lambda>_. []) (\<lambda>_. []) 0 0 4 True h' = (Some 0, h', None)"
proof -
  have ok: "\<exists>h' cmd sigs. OpenHTTP ''agent'' (\<lambda>p h. True) NUL sample_net sample_url READ False (sample_http\<lparr>m_bEOF := True\<rparr>)
     = Some (True, h', cmd, sigs, ''text'')"
    using header_loop_blank[of "\<lambda>_. None" length "''text''"]
    by (simp add: OpenHTTP_def http_connect_def http_request_def auth_headers_def ProcessHeader_def sample_net_def
        sample_defs)
  then obtain h' cmd sigs where eq: "OpenHTTP ''agent'' (\<lambda>p h. True) NUL sample_net sample_url READ False
      (sample_http\<lparr>m_bEOF := True\<rparr>) = Some (True, h', cmd, sigs, ''text'')" by blast
  have "m_bEOF (sample_http\<lparr>m_bEOF := True\<rparr>)" by simp
  from http_eof_is_sticky[OF this eq] eq show ?thesis by blast
qed

text \<open>A sequence of reads: each gives its chunk's size and whether the stream has ended.\<close>

fun read_all :: "(int \<times> bool) list \<Rightarrow> KProtocolHTTP \<Rightarrow> int option list \<times> KProtocolHTTP" where
  "read_all [] h = ([], h)"
| "read_all ((n, e) # cs) h =
     (case Read (\<lambda>_. []) (\<lambda>_. []) 0 0 n e h of (r, h1, _) \<Rightarrow>
        case read_all cs h1 of (rs, h2) \<Rightarrow> (r # rs, h2))"

text \<open>However the reads go, the bytes read and the bytes left add up to what they were, and
  once the end is reached (all bytes read, or the stream ended) nothing more is read.\<close>

theorem Read_accounts:
  assumes "read_all cs h = (rs, h')"
  shows "bytesRead h' + bytesleft h' = bytesRead h + bytesleft h \<and> (atEOF h \<longrightarrow> h' = h \<and> set rs \<subseteq> {Some 0})"
  using assms
proof (induction cs arbitrary: h rs)
  case (Cons c cs)
  obtain n e where c: "c = (n, e)" by (cases c)
  obtain r h1 m where r: "Read (\<lambda>_. []) (\<lambda>_. []) 0 0 n e h = (r, h1, m)" by (cases "Read (\<lambda>_. []) (\<lambda>_. []) 0 0 n e h")
  obtain rs' where rs: "rs = r # rs'" "read_all cs h1 = (rs', h')"
    using Cons.prems by (simp add: c r split: prod.splits)
  have "bytesRead h1 + bytesleft h1 = bytesRead h + bytesleft h" "atEOF h \<longrightarrow> h1 = h \<and> r = Some 0"
    using r by (auto simp: Read_def Let_def split: if_splits)
  with Cons.IH[OF rs(2)] rs(1) show ?case by auto
qed simp

lemma Read_accounts_witness:
  "read_all [(4, False), (0, True)] (sample_http\<lparr>bytesleft := 4, hsize := 4\<rparr>) = ([Some 4, Some 0],
     sample_http\<lparr>bytesleft := 0, hsize := 4, bytesRead := 4\<rparr>) \<and>
   bytesRead (sample_http\<lparr>bytesleft := 0, hsize := 4, bytesRead := 4\<rparr>) = 4"
proof -
  have eq: "read_all [(4, False), (0, True)] (sample_http\<lparr>bytesleft := 4, hsize := 4\<rparr>) = ([Some 4, Some 0],
     sample_http\<lparr>bytesleft := 0, hsize := 4, bytesRead := 4\<rparr>)"
    by (simp add: Read_def atEOF_def sample_defs)
  from Read_accounts[OF eq] eq show ?thesis by (simp add: sample_defs)
qed

end
