(* ===== verification/CookieWire.thy ===== *)
theory CookieWire
  imports CookieSession HttpSlave
begin

section \<open>Cookies on the wire\<close>

text \<open>
  The way of a cookie through the programs: from the header of an answer into the jar (\<open>kcookiejar.cpp\<close>, \<open>kfmman.cpp\<close>), and from the jar
  into the header of a request (\<open>findCookies\<close>, \<open>kioslave/http.cpp\<close>). No text that a server sends can end the header of a request early; a cookie
  file can.
\<close>

subsection \<open>Cookies without line feeds\<close>












subsection \<open>Cookie files\<close>

text \<open>A line of the file is closed when none of its fields holds a line feed, that is, when each quoted field ends before the end of the line.\<close>

fun fields :: "nat \<Rightarrow> string \<Rightarrow> string list" where
  "fields 0 l = []"
| "fields (Suc n) l = (case parseField l of (f, r) \<Rightarrow> f # fields n r)"

definition closed_line :: "string \<Rightarrow> bool" where
  "closed_line l \<longleftrightarrow> (\<forall>f\<in>set (fields 7 l). LF \<notin> set f)"







subsection \<open>Requests of a session\<close>










lemma sample_jar_ok: "jar_ok loaded_jar"
  using cookie_insort.session_reachable_ok [OF qt_insort.cookie_insort_axioms sample_reachable]
  by (simp add: session_ok_def jar_safe_def sample_session_def)

lemma sample_request_cookies: "requestCookies sample_env ''u'' sample_session = ''Cookie: '' @ getCookieStr sample_cookie @ [CR, LF]"
proof -
  have "stripDomain (c_host sample_cookie) = ''.kde.org''" by (simp add: sample_cookie_def mkCookie_def sample_domain)
  then have "visible ''www.kde.org'' ''.kde.org'' ''/'' sample_cookie"
    by (simp add: visible_def) (simp add: sample_cookie_def mkCookie_def)
  moreover have "protocolVersion sample_cookie = 0" by (simp add: sample_cookie_def mkCookie_def)
  ultimately show ?thesis
    by (simp add: requestCookies_def sample_session_def findCookies_visible [OF sample_jar_ok sample_extract] sample_config_jar cookie_header_def)
qed


subsection \<open>A cookie file with an open quote\<close>

text \<open>A name that starts with a quote and an empty value: the line that is saved for the cookie is read as one quoted name, and the value is the end of the line.\<close>

definition quoted_cookie :: KCookie where
  "quoted_cookie = mkCookie ''www.kde.org'' [] [] [DQ, CHR ''a''] [] 2000 0"

lemma quoted_cookie_served:
  "makeCookies (sample_env\<lparr>mktime := \<lambda>t. 2000\<rparr>) ''u'' (''Set-Cookie: '' @ [DQ] @ ''a=; expires=Friday, 01-Jan-1999 00:00:00 GMT'') = [quoted_cookie]"
  unfolding quoted_cookie_def by code_simp

theorem quoted_cookie_ends_header:
  "\<not> closed_line (cookie_line quoted_cookie) \<and>
   findCookies sample_env ''u'' (load_line (inSort compareItems) 5 (cookie_line quoted_cookie) newKCookieJar)
     = ''Cookie: a         ='' @ [LF] @ [CR, LF]"
  by code_simp

end
