(* ===== verification/MagicBase.thy ===== *)
theory MagicBase
  imports Prelude
begin

section \<open>File types by content: the data\<close>

text \<open>
  The data of \<open>kfm/kmimemagic.cpp\<close>: the union \<open>VALUETYPE\<close> as its 64 bytes on a little-endian
  machine, the entries of the magic file, the table of known words, and the object's state with
  the static variable \<open>accuracy\<close>. \<open>unsigned long\<close> is a word of 64 bits.
\<close>

unbundle bit_operations_syntax

abbreviation (input) "DECLINED \<equiv> (999 :: int)"
abbreviation (input) "ERROR \<equiv> (998 :: 64 word)"

definition MIME_BINARY_UNKNOWN :: string where "MIME_BINARY_UNKNOWN = ''application/octet-stream''"
definition MIME_BINARY_UNREADABLE :: string where "MIME_BINARY_UNREADABLE = ''application/x-unreadable''"
definition MIME_BINARY_ZEROSIZE :: string where "MIME_BINARY_ZEROSIZE = ''application/x-zerosize''"
definition MIME_TEXT_UNKNOWN :: string where "MIME_TEXT_UNKNOWN = ''text/plain''"
definition MIME_APPL_TROFF :: string where "MIME_APPL_TROFF = ''application/x-troff''"
definition MIME_APPL_TAR :: string where "MIME_APPL_TAR = ''application/x-tar''"
definition MIME_TEXT_FORTRAN :: string where "MIME_TEXT_FORTRAN = ''text/x-fortran''"

definition HOWMANY :: nat where "HOWMANY = 1024"
definition MAXDESC :: nat where "MAXDESC = 50"
definition MAXstring :: nat where "MAXstring = 64"
definition BUFSIZ :: nat where "BUFSIZ = 8192"

subsection \<open>\<open>VALUETYPE\<close>\<close>

type_synonym VALUETYPE = string

definition zero_value :: VALUETYPE where
  "zero_value = replicate MAXstring NUL"

definition val_b :: "VALUETYPE \<Rightarrow> 64 word" where
  "val_b p = word_of_nat (code (p ! 0))"

definition val_h :: "VALUETYPE \<Rightarrow> 64 word" where
  "val_h p = word_of_nat (code (p ! 0) + 256 * code (p ! 1))"

definition val_l :: "VALUETYPE \<Rightarrow> 64 word" where
  "val_l p = word_of_nat (foldr (\<lambda>c a. code c + 256 * a) (take 8 p) 0)"

fun le_bytes :: "nat \<Rightarrow> nat \<Rightarrow> string" where
  "le_bytes 0 n = []"
| "le_bytes (Suc k) n = char_of (n mod 256) # le_bytes k (n div 256)"

definition set_h :: "64 word \<Rightarrow> VALUETYPE \<Rightarrow> VALUETYPE" where
  "set_h v p = le_bytes 2 (unat v) @ drop 2 p"

definition set_l :: "64 word \<Rightarrow> VALUETYPE \<Rightarrow> VALUETYPE" where
  "set_l v p = le_bytes 8 (unat v) @ drop 8 p"

subsection \<open>The entries of the magic file\<close>

datatype magic_type = NOTYPE | BYTE | SHORT | LONG | STRING | DATE
  | BESHORT | BELONG | BEDATE | LESHORT | LELONG | LEDATE

record magic =
  m_lineno :: nat
  m_indir :: bool
  m_unsigned :: bool
  m_cont_level :: nat
  m_in_type :: magic_type
  m_in_offset :: int
  m_offset :: int
  m_reln :: char
  m_type :: magic_type
  m_vallen :: nat
  m_value :: VALUETYPE
  m_mask :: "64 word"
  m_nospflag :: bool
  m_desc :: string

definition new_magic :: "nat \<Rightarrow> magic" where
  "new_magic lineno = \<lparr>m_lineno = lineno, m_indir = False, m_unsigned = False, m_cont_level = 0,
     m_in_type = NOTYPE, m_in_offset = 0, m_offset = 0, m_reln = NUL, m_type = NOTYPE, m_vallen = 0,
     m_value = zero_value, m_mask = 0, m_nospflag = False, m_desc = []\<rparr>"

text \<open>
  \<open>signextend\<close>: the extension of the sign from a byte or a short; the \<open>long\<close> case is the
  identity. The second component is the variable \<open>accuracy\<close>, which \<open>error()\<close> sets to 0.
\<close>

definition signextend :: "magic \<Rightarrow> 64 word \<Rightarrow> int \<Rightarrow> 64 word \<times> int" where
  "signextend m v accuracy =
     (if m_unsigned m then (v, accuracy)
      else case m_type m of
          BYTE \<Rightarrow> (signed_take_bit 7 v, accuracy)
        | SHORT \<Rightarrow> (signed_take_bit 15 v, accuracy)
        | BESHORT \<Rightarrow> (signed_take_bit 15 v, accuracy)
        | LESHORT \<Rightarrow> (signed_take_bit 15 v, accuracy)
        | NOTYPE \<Rightarrow> (ERROR, 0)
        | _ \<Rightarrow> (v, accuracy))"

definition isodigit :: "char \<Rightarrow> bool" where
  "isodigit c \<longleftrightarrow> CHR ''0'' \<le> c \<and> c \<le> CHR ''7''"

subsection \<open>Known words\<close>

abbreviation (input) "L_HTML \<equiv> (0x001 :: 16 word)"
abbreviation (input) "L_C \<equiv> (0x002 :: 16 word)"
abbreviation (input) "L_MAKE \<equiv> (0x004 :: 16 word)"
abbreviation (input) "L_PLI \<equiv> (0x008 :: 16 word)"
abbreviation (input) "L_MACH \<equiv> (0x010 :: 16 word)"
abbreviation (input) "L_ENG \<equiv> (0x020 :: 16 word)"
abbreviation (input) "L_PAS \<equiv> (0x040 :: 16 word)"
abbreviation (input) "L_JAVA \<equiv> (0x080 :: 16 word)"
abbreviation (input) "L_CPP \<equiv> (0x100 :: 16 word)"
abbreviation (input) "L_MAIL \<equiv> (0x200 :: 16 word)"
abbreviation (input) "L_NEWS \<equiv> (0x400 :: 16 word)"

abbreviation (input) "P_HTML \<equiv> (0 :: nat)"
abbreviation (input) "P_C \<equiv> (1 :: nat)"
abbreviation (input) "P_JAVA \<equiv> (7 :: nat)"
abbreviation (input) "P_CPP \<equiv> (8 :: nat)"

text \<open>The name of a type, its number of key words, and ten times its weight.\<close>

record asc_type =
  at_type :: string
  kwords :: nat
  weight10 :: nat

definition types :: "asc_type list" where
  "types = map (\<lambda>(t, k, w). \<lparr>at_type = t, kwords = k, weight10 = w\<rparr>)
    [(''text/html'', 6, 20), (''text/x-c'', 9, 13), (''text/x-makefile'', 4, 19), (''text/x-pli'', 1, 30),
     (''text/x-assembler'', 6, 21), (''text/english'', 2, 2), (''text/x-pascal'', 1, 10),
     (''text/x-java'', 14, 10), (''text/x-c++'', 14, 10), (''message/rfc822'', 4, 19), (''message/news'', 3, 20)]"

definition NTYPES :: nat where "NTYPES = 11"

definition names_code :: "(string \<times> 16 word) list" where
  "names_code = [
     (''<html>'', L_HTML), (''<HTML>'', L_HTML), (''<head>'', L_HTML), (''<HEAD>'', L_HTML),
     (''<title>'', L_HTML), (''<TITLE>'', L_HTML), (''<h1>'', L_HTML), (''<H1>'', L_HTML),
     (''<!--'', L_HTML), (''<!DOCTYPE HTML'', L_HTML), (''/*'', L_C OR L_CPP OR L_JAVA),
     (''//'', L_CPP OR L_JAVA), (''#include'', L_C OR L_CPP), (''char'', L_C OR L_CPP OR L_JAVA),
     (''The'', L_ENG), (''the'', L_ENG), (''double'', L_C OR L_CPP OR L_JAVA),
     (''extern'', L_C OR L_CPP), (''float'', L_C OR L_CPP OR L_JAVA),
     (''real'', L_C OR L_CPP OR L_JAVA), (''struct'', L_C OR L_CPP), (''union'', L_C OR L_CPP)]"

definition names_more :: "(string \<times> 16 word) list" where
  "names_more = [
     (''implements'', L_JAVA), (''package'', L_JAVA), (''super'', L_JAVA), (''import'', L_JAVA),
     (''this'', L_CPP OR L_JAVA), (''class'', L_CPP OR L_JAVA), (''public'', L_CPP OR L_JAVA),
     (''private'', L_CPP OR L_JAVA), (''CFLAGS'', L_MAKE), (''LDFLAGS'', L_MAKE),
     (''all:'', L_MAKE), (''.PRECIOUS'', L_MAKE), (''.ascii'', L_MACH), (''.asciiz'', L_MACH),
     (''.byte'', L_MACH), (''.even'', L_MACH), (''.globl'', L_MACH), (''clr'', L_MACH),
     (''(input'', L_PAS), (''dcl'', L_PLI), (''Received:'', L_MAIL), (''>From'', L_MAIL),
     (''Return-Path:'', L_MAIL), (''Cc:'', L_MAIL), (''Newsgroups:'', L_NEWS),
     (''Path:'', L_NEWS), (''Organization:'', L_NEWS)]"

definition names :: "(string \<times> 16 word) list" where
  "names = names_code @ names_more"

subsection \<open>The object\<close>

record KMimeMagicResult =
  Content :: string
  Encoding :: string
  Accuracy :: int

record KMimeMagic =
  magicfile :: "string option"
  magic_list :: "magic list"
  followLinks :: bool
  resultBuf :: string
  magicResult :: KMimeMagicResult
  accuracy :: int

definition new_result :: KMimeMagicResult where
  "new_result = \<lparr>Content = [], Encoding = [], Accuracy = 100\<rparr>"

text \<open>An object for the examples: no rules yet.\<close>

definition sample_magic :: KMimeMagic where
  "sample_magic = \<lparr>magicfile = None, magic_list = [], followLinks = False, resultBuf = [],
     magicResult = new_result, accuracy = 100\<rparr>"

end
