(* ===== verification/MagicParse.thy ===== *)
theory MagicParse
  imports MagicBase
begin

section \<open>The magic file is read\<close>

text \<open>
  \<open>getstr\<close>, \<open>getvalue\<close>, \<open>parse\<close>, \<open>parse_line\<close>, \<open>apprentice\<close> and \<open>buff_apprentice\<close> of
  \<open>kfm/kmimemagic.cpp\<close>. A line is the array it is read into, with the bytes that earlier lines
  left behind its NUL, because the code can read them. \<open>parse\<close> is cut at its comments into one
  definition for each field.
\<close>

subsection \<open>Strings with escapes\<close>

definition hextoint :: "char \<Rightarrow> int" where
  "hextoint c =
     (if \<not> isascii c then -1
      else if isdigit c then int (code c) - 48
      else if CHR ''a'' \<le> c \<and> c \<le> CHR ''f'' then int (code c) + 10 - 97
      else if CHR ''A'' \<le> c \<and> c \<le> CHR ''F'' then int (code c) + 10 - 65
      else -1)"

definition octal_escape :: "char \<Rightarrow> string \<Rightarrow> nat \<times> string" where
  "octal_escape c s =
     (let val = code c - 48
      in if isodigit (at0 s) then
           (let val = 8 * val + (code (at0 s) - 48); s = tl s
            in if isodigit (at0 s) then (8 * val + (code (at0 s) - 48), tl s) else (val, s))
         else (val, s))"

definition hex_escape :: "string \<Rightarrow> int \<times> string" where
  "hex_escape s =
     (let c = hextoint (at0 s)
      in if c \<ge> 0 then
           (let s = tl s; c2 = hextoint (at0 s)
            in if c2 \<ge> 0 then
                 (let s = tl s; c3 = hextoint (at0 s)
                  in if c3 \<ge> 0 then (16 * (16 * c + c2) + c3, tl s) else (16 * c + c2, s))
               else (c, s))
         else (int (code CHR ''x''), s))"

text \<open>The character that the text behind a backslash stands for; \<open>None\<close> at the end of the line.\<close>

definition escape :: "string \<Rightarrow> (char \<times> string) option" where
  "escape s =
     (let c = at0 s; r = tl s
      in if c = NUL then None
         else if c = CHR ''n'' then Some (char_of (10::nat), r)
         else if c = CHR ''r'' then Some (char_of (13::nat), r)
         else if c = CHR ''b'' then Some (char_of (8::nat), r)
         else if c = CHR ''t'' then Some (char_of (9::nat), r)
         else if c = CHR ''f'' then Some (char_of (12::nat), r)
         else if c = CHR ''v'' then Some (char_of (11::nat), r)
         else if isodigit c then (case octal_escape c r of (v, r') \<Rightarrow> Some (char_of v, r'))
         else if c = CHR ''x'' then (case hex_escape r of (v, r') \<Rightarrow> Some (char_of (nat (v mod 256)), r'))
         else Some (c, r))"

lemma escape_length: "escape s = Some (c, r) \<Longrightarrow> length r \<le> length s"
  by (auto simp: escape_def octal_escape_def hex_escape_def Let_def split: if_splits)

function getstr :: "string \<Rightarrow> string \<Rightarrow> nat \<Rightarrow> int \<Rightarrow> string \<times> string \<times> int" where
  "getstr s p plen acc =
     (let c = at0 s; r = tl s
      in if c = NUL \<or> isspace c then (r, p, acc)
         else if plen - 1 \<le> length p then (r, p, 0)
         else if c = BSL then
           (case escape r of None \<Rightarrow> (tl r, p, acc) | Some (ch, r') \<Rightarrow> getstr r' (p @ [ch]) plen acc)
         else getstr r (p @ [c]) plen acc)"
  by pat_completeness auto
termination
proof (relation "measure (\<lambda>(s, p, plen, acc). length s)", goal_cases)
  case (2 s p plen acc c r x ch r')
  then have "s \<noteq> []" by auto
  with 2 escape_length [of r ch r'] show ?case by (cases s) auto
next
  case (3 s p plen acc c r)
  then show ?case by (cases s) auto
qed simp

declare getstr.simps [simp del]

subsection \<open>The parts of \<open>parse\<close>\<close>

text \<open>The pointer \<open>l\<close>, the new entry, and \<open>accuracy\<close>.\<close>

record parse_state =
  ps_l :: string
  ps_m :: magic
  ps_accuracy :: int

definition eatab :: "string \<Rightarrow> string" where
  "eatab l = dropWhile (\<lambda>c. isascii c \<and> isspace c) l"

definition upd_m :: "(magic \<Rightarrow> magic) \<Rightarrow> parse_state \<Rightarrow> parse_state" where
  "upd_m f st = st\<lparr>ps_m := f (ps_m st)\<rparr>"

definition getvalue :: "parse_state \<Rightarrow> parse_state" where
  "getvalue st =
     (let m = ps_m st
      in if m_type m = STRING then
           (case getstr (ps_l st) [] MAXstring (ps_accuracy st) of (l, s, acc) \<Rightarrow>
             \<lparr>ps_l = l, ps_m = m\<lparr>m_value := s @ NUL # drop (Suc (length s)) (m_value m), m_vallen := length s\<rparr>,
              ps_accuracy = acc\<rparr>)
         else if m_reln m \<noteq> CHR ''x'' then
           (case strtol 0 (ps_l st) of (n, l) \<Rightarrow>
             (case signextend m (word_of_int n) (ps_accuracy st) of (v, acc) \<Rightarrow>
               \<lparr>ps_l = l, ps_m = m\<lparr>m_value := set_l v (m_value m)\<rparr>, ps_accuracy = acc\<rparr>))
         else st)"

definition parse_level :: "nat \<Rightarrow> string \<Rightarrow> int \<Rightarrow> parse_state" where
  "parse_level lineno l acc =
     (let n = length (takeWhile (\<lambda>c. c = CHR ''>'') l);
          l1 = drop n l;
          m = (new_magic lineno)\<lparr>m_cont_level := n\<rparr>
      in if n \<noteq> 0 \<and> at0 l1 = CHR ''('' then \<lparr>ps_l = tl l1, ps_m = m\<lparr>m_indir := True\<rparr>, ps_accuracy = acc\<rparr>
         else \<lparr>ps_l = l1, ps_m = m, ps_accuracy = acc\<rparr>)"

definition parse_offset :: "parse_state \<Rightarrow> parse_state" where
  "parse_offset st = (case strtol 0 (ps_l st) of (n, t) \<Rightarrow>
     \<lparr>ps_l = t, ps_m = (ps_m st)\<lparr>m_offset := to_int32 n\<rparr>,
      ps_accuracy = (if ps_l st = t then 0 else ps_accuracy st)\<rparr>)"

definition parse_in_type :: "parse_state \<Rightarrow> parse_state" where
  "parse_in_type st =
     (let l = ps_l st; st1 = upd_m (\<lambda>m. m\<lparr>m_in_type := LONG, m_in_offset := 0\<rparr>) st
      in if at0 l = CHR ''.'' then
           (let st2 = st1\<lparr>ps_l := tl (tl l)\<rparr>
            in if at0 (tl l) = CHR ''l'' then st2
               else if at0 (tl l) = CHR ''s'' then upd_m (\<lambda>m. m\<lparr>m_in_type := SHORT\<rparr>) st2
               else if at0 (tl l) = CHR ''b'' then upd_m (\<lambda>m. m\<lparr>m_in_type := BYTE\<rparr>) st2
               else st2\<lparr>ps_accuracy := 0\<rparr>)
         else st1)"

definition parse_in_offset :: "parse_state \<Rightarrow> parse_state" where
  "parse_in_offset st =
     (let s = ps_l st;
          l = (if at0 s = CHR ''+'' \<or> at0 s = CHR ''-'' then tl s else s);
          (off, t) = (if isdigit (at0 l)
                      then (case strtol 0 l of (n, t) \<Rightarrow> (if at0 s = CHR ''-'' then - n else n, t))
                      else (m_in_offset (ps_m st), l))
      in \<lparr>ps_l = tl t, ps_m = (ps_m st)\<lparr>m_in_offset := off\<rparr>,
          ps_accuracy = (if at0 t \<noteq> CHR '')'' then 0 else ps_accuracy st)\<rparr>)"

definition parse_indirect :: "parse_state \<Rightarrow> parse_state" where
  "parse_indirect st = (if m_indir (ps_m st) then parse_in_offset (parse_in_type st) else st)"

definition parse_unsigned :: "parse_state \<Rightarrow> parse_state" where
  "parse_unsigned st =
     (let l = eatab (dropWhile (\<lambda>c. isascii c \<and> isdigit c) (ps_l st))
      in if at0 l = CHR ''u'' then upd_m (\<lambda>m. m\<lparr>m_unsigned := True\<rparr>) (st\<lparr>ps_l := tl l\<rparr>)
         else st\<lparr>ps_l := l\<rparr>)"

definition type_words :: "(string \<times> magic_type) list" where
  "type_words = [(''byte'', BYTE), (''short'', SHORT), (''long'', LONG), (''string'', STRING), (''date'', DATE),
     (''beshort'', BESHORT), (''belong'', BELONG), (''bedate'', BEDATE),
     (''leshort'', LESHORT), (''lelong'', LELONG), (''ledate'', LEDATE)]"

text \<open>The tests are made in this order; \<open>None\<close> is the early return.\<close>

definition parse_type :: "parse_state \<Rightarrow> parse_state option" where
  "parse_type st = (case find (\<lambda>(w, t). strncmp_eq (ps_l st) w (length w)) type_words of
       Some (w, t) \<Rightarrow> Some (upd_m (\<lambda>m. m\<lparr>m_type := t\<rparr>) (st\<lparr>ps_l := drop (length w) (ps_l st)\<rparr>))
     | None \<Rightarrow> None)"

definition parse_mask :: "parse_state \<Rightarrow> parse_state" where
  "parse_mask st =
     (let m = ps_m st
      in if at0 (ps_l st) = CHR ''&'' then
           (case strtol 0 (tl (ps_l st)) of (n, l) \<Rightarrow>
             (case signextend m (word_of_int n) (ps_accuracy st) of (v, acc) \<Rightarrow>
               \<lparr>ps_l = eatab l, ps_m = m\<lparr>m_mask := v\<rparr>, ps_accuracy = acc\<rparr>))
         else \<lparr>ps_l = eatab (ps_l st), ps_m = m\<lparr>m_mask := - 1\<rparr>, ps_accuracy = ps_accuracy st\<rparr>)"

text \<open>The relation; \<open>True\<close> is the jump to \<open>GetDesc\<close>.\<close>

definition parse_reln :: "parse_state \<Rightarrow> bool \<times> parse_state" where
  "parse_reln st =
     (let l = ps_l st; c = at0 l;
          take_reln = upd_m (\<lambda>m. m\<lparr>m_reln := c\<rparr>) (st\<lparr>ps_l := tl l\<rparr>)
      in if c \<in> {CHR ''>'', CHR ''<'', CHR ''&'', CHR ''^'', CHR ''=''} then (False, take_reln)
         else if c = CHR ''!'' \<and> m_type (ps_m st) \<noteq> STRING then (False, take_reln)
         else if c = CHR ''x'' \<and> isascii (at0 (tl l)) \<and> isspace (at0 (tl l)) then (True, take_reln)
         else (False, upd_m (\<lambda>m. m\<lparr>m_reln := CHR ''=''\<rparr>) st))"

definition parse_value :: "parse_state \<Rightarrow> parse_state" where
  "parse_value st = (case parse_reln st of (getdesc, st1) \<Rightarrow>
     if getdesc then st1 else getvalue (st1\<lparr>ps_l := eatab (ps_l st1)\<rparr>))"

definition parse_desc :: "parse_state \<Rightarrow> parse_state" where
  "parse_desc st =
     (let l = eatab (ps_l st);
          (nosp, l1) = (if at0 l = char_of (8::nat) then (True, tl l)
                        else if at0 l = BSL \<and> at0 (tl l) = CHR ''b'' then (True, tl (tl l))
                        else (False, l))
      in st\<lparr>ps_l := l1, ps_m := (ps_m st)\<lparr>m_nospflag := nosp, m_desc := take MAXDESC (cstr l1)\<rparr>\<rparr>)"

text \<open>The entry is appended before it is parsed, and stays when its type is unknown.\<close>

definition parse :: "string \<Rightarrow> nat \<Rightarrow> KMimeMagic \<Rightarrow> int \<times> KMimeMagic" where
  "parse l lineno k =
     (let st = parse_unsigned (parse_indirect (parse_offset (parse_level lineno l (accuracy k))))
      in case parse_type st of
           None \<Rightarrow> (-1, k\<lparr>magic_list := magic_list k @ [ps_m st], accuracy := 0\<rparr>)
         | Some st1 \<Rightarrow>
             (let st2 = parse_desc (parse_value (parse_mask st1))
              in (0, k\<lparr>magic_list := magic_list k @ [ps_m st2], accuracy := ps_accuracy st2\<rparr>)))"

subsection \<open>Lines and files\<close>

definition parse_line :: "string \<Rightarrow> nat \<Rightarrow> nat \<Rightarrow> KMimeMagic \<Rightarrow> bool \<times> nat \<times> KMimeMagic" where
  "parse_line line rule lineno k =
     (let n = length (cstr line);
          line1 = (if at0 line \<noteq> NUL then line[n - 1 := NUL] else line);
          l = dropWhile (\<lambda>c. c \<noteq> NUL \<and> isspace c) line1
      in if at0 l = NUL then (False, rule, k)
         else if at0 l = CHR ''#'' then (False, rule, k)
         else case parse l lineno k of (ret, k') \<Rightarrow> (ret \<noteq> 0, Suc rule, k'))"

text \<open>The array after \<open>parse_line\<close>: only its newline is overwritten.\<close>

definition store :: "string \<Rightarrow> string \<Rightarrow> string" where
  "store s arr = s @ NUL # drop (Suc (length s)) arr"

function apprentice_lines :: "string \<Rightarrow> string \<Rightarrow> nat \<Rightarrow> nat \<Rightarrow> nat \<Rightarrow> KMimeMagic \<Rightarrow> nat \<times> KMimeMagic" where
  "apprentice_lines f arr rule lineno errs k = (case fgets BUFSIZ f of
       None \<Rightarrow> (errs, k)
     | Some (text, f') \<Rightarrow>
         (let line = store text arr;
              arr' = line[length (cstr line) - 1 := NUL]
          in case parse_line line rule lineno k of (err, rule', k') \<Rightarrow>
               apprentice_lines f' arr' rule' (Suc lineno) (if err then Suc errs else errs) k'))"
  by pat_completeness auto
termination
  by (relation "measure (\<lambda>(f, arr, rule, lineno, errs, k). length f)")
    (auto simp: BUFSIZ_def dest!: fgets_length)

declare apprentice_lines.simps [simp del]

definition apprentice :: "(string \<rightharpoonup> string) \<Rightarrow> string \<Rightarrow> KMimeMagic \<Rightarrow> int \<times> KMimeMagic" where
  "apprentice fs arr k = (case magicfile k of None \<Rightarrow> (-1, k)
     | Some fname \<Rightarrow>
         (case fs fname of None \<Rightarrow> (-1, k\<lparr>accuracy := 0\<rparr>)
          | Some f \<Rightarrow> (case apprentice_lines f arr 0 1 0 k of (errs, k') \<Rightarrow>
              (if errs \<noteq> 0 then -1 else 0, k'))))"

text \<open>One round of \<open>buff_apprentice\<close>: the line array and the number of bytes it takes.\<close>

definition buff_line :: "string \<Rightarrow> string \<Rightarrow> string \<times> nat" where
  "buff_line start arr =
     (let n = min (BUFSIZ - 1) (length start);
          line = store (take n start) arr
      in case find_char LF (cstr line) of
           Some e \<Rightarrow> (line[Suc e := NUL], Suc e)
         | None \<Rightarrow> (store (cstr line @ [LF]) line, n))"

function buff_lines :: "string \<Rightarrow> string \<Rightarrow> nat \<Rightarrow> nat \<Rightarrow> nat \<Rightarrow> KMimeMagic \<Rightarrow> nat \<times> KMimeMagic" where
  "buff_lines start arr rule lineno errs k =
     (case buff_line start arr of (line, n) \<Rightarrow>
       (let arr' = line[length (cstr line) - 1 := NUL]
        in case parse_line line rule lineno k of (err, rule', k') \<Rightarrow>
             (let errs' = (if err then Suc errs else errs)
              in if length start \<le> n then (errs', k')
                 else buff_lines (drop n start) arr' rule' (Suc lineno) errs' k')))"
  by pat_completeness auto
termination
  by (relation "measure (\<lambda>(start, arr, rule, lineno, errs, k). length start)")
    (auto simp: buff_line_def Let_def BUFSIZ_def min_def split: option.splits if_splits)

declare buff_lines.simps [simp del]

definition buff_apprentice :: "string \<Rightarrow> string \<Rightarrow> KMimeMagic \<Rightarrow> int \<times> KMimeMagic" where
  "buff_apprentice buff arr k =
     (case buff_lines (cstr buff @ [NUL]) arr 0 1 0 k of (errs, k') \<Rightarrow> (if errs \<noteq> 0 then -1 else 0, k'))"

subsection \<open>Entries are well formed\<close>

definition entry_ok :: "magic \<Rightarrow> bool" where
  "entry_ok m \<longleftrightarrow> length (m_value m) = MAXstring \<and> m_vallen m < MAXstring
     \<and> length (m_desc m) \<le> MAXDESC \<and> no_nul (m_desc m)
     \<and> - (2 ^ 31) \<le> m_offset m \<and> m_offset m < 2 ^ 31"

lemma getstr_bounded:
  "length p \<le> plen - 1 \<Longrightarrow> length (fst (snd (getstr s p plen acc))) \<le> plen - 1"
proof (induction s p plen acc rule: getstr.induct)
  case (1 s p plen acc)
  show ?case
  proof (cases "at0 s = NUL \<or> isspace (at0 s) \<or> plen - 1 \<le> length p")
    case True
    then show ?thesis using "1.prems" by (subst getstr.simps) (auto simp: Let_def)
  next
    case False
    then show ?thesis
      using "1.prems" "1.IH" [OF refl refl] by (subst getstr.simps) (auto simp: Let_def split: option.splits)
  qed
qed

lemma length_set_l [simp]: "length (set_l v p) = 8 + (length p - 8)"
proof -
  have "length (le_bytes k n) = k" for k n by (induction k arbitrary: n) simp_all
  then show ?thesis by (simp add: set_l_def)
qed

definition state_ok :: "parse_state \<Rightarrow> bool" where
  "state_ok st \<longleftrightarrow> entry_ok (ps_m st)"

lemma state_ok_simps [simp]:
  "state_ok (st\<lparr>ps_l := l\<rparr>) = state_ok st" "state_ok (st\<lparr>ps_accuracy := a\<rparr>) = state_ok st"
  by (simp_all add: state_ok_def)

lemma entry_ok_updates [simp]:
  "entry_ok (m\<lparr>m_indir := b\<rparr>) = entry_ok m" "entry_ok (m\<lparr>m_unsigned := b\<rparr>) = entry_ok m"
  "entry_ok (m\<lparr>m_cont_level := n\<rparr>) = entry_ok m" "entry_ok (m\<lparr>m_in_type := t\<rparr>) = entry_ok m"
  "entry_ok (m\<lparr>m_in_offset := i\<rparr>) = entry_ok m" "entry_ok (m\<lparr>m_reln := c\<rparr>) = entry_ok m"
  "entry_ok (m\<lparr>m_type := t\<rparr>) = entry_ok m" "entry_ok (m\<lparr>m_mask := w\<rparr>) = entry_ok m"
  by (simp_all add: entry_ok_def)

lemma upd_m_ok: "state_ok st \<Longrightarrow> (\<And>m. entry_ok m \<Longrightarrow> entry_ok (f m)) \<Longrightarrow> state_ok (upd_m f st)"
  by (simp add: upd_m_def state_ok_def)

lemma new_magic_ok: "entry_ok (new_magic lineno)"
  by (simp add: entry_ok_def new_magic_def zero_value_def MAXstring_def)

lemma parse_level_ok: "state_ok (parse_level lineno l acc)"
  using new_magic_ok by (simp add: parse_level_def Let_def state_ok_def)

lemma parse_offset_ok: "state_ok st \<Longrightarrow> state_ok (parse_offset st)"
  using to_int32_range by (auto simp: parse_offset_def state_ok_def entry_ok_def split: prod.splits)

lemma parse_in_type_ok: "state_ok st \<Longrightarrow> state_ok (parse_in_type st)"
  by (auto simp: parse_in_type_def Let_def intro!: upd_m_ok)

lemma parse_in_offset_ok: "state_ok st \<Longrightarrow> state_ok (parse_in_offset st)"
  by (simp add: parse_in_offset_def Let_def state_ok_def split_beta)

lemma parse_indirect_ok: "state_ok st \<Longrightarrow> state_ok (parse_indirect st)"
  by (simp add: parse_indirect_def parse_in_type_ok parse_in_offset_ok)

lemma parse_unsigned_ok: "state_ok st \<Longrightarrow> state_ok (parse_unsigned st)"
  by (auto simp: parse_unsigned_def Let_def intro!: upd_m_ok)

lemma parse_type_ok: "state_ok st \<Longrightarrow> parse_type st = Some st' \<Longrightarrow> state_ok st'"
  by (auto simp: parse_type_def intro!: upd_m_ok split: option.splits prod.splits)

lemma parse_mask_ok: "state_ok st \<Longrightarrow> state_ok (parse_mask st)"
  by (simp add: parse_mask_def Let_def state_ok_def split_beta)

lemma getvalue_ok: "state_ok st \<Longrightarrow> state_ok (getvalue st)"
proof -
  assume st: "state_ok st"
  have "length (fst (snd (getstr (ps_l st) [] MAXstring (ps_accuracy st)))) < MAXstring"
    using getstr_bounded [of "[]" MAXstring "ps_l st" "ps_accuracy st"] by (simp add: MAXstring_def)
  with st show ?thesis
    by (auto simp: getvalue_def Let_def state_ok_def entry_ok_def MAXstring_def split: prod.splits)
qed

lemma parse_value_ok: "state_ok st \<Longrightarrow> state_ok (parse_value st)"
  by (auto simp: parse_value_def parse_reln_def Let_def intro!: upd_m_ok getvalue_ok)

lemma parse_desc_ok: "state_ok st \<Longrightarrow> state_ok (parse_desc st)"
  by (auto simp: parse_desc_def Let_def state_ok_def entry_ok_def no_nul_def split_beta
      dest!: in_set_takeD) (metis no_nul_cstr no_nul_def)+

definition conf_ok :: "KMimeMagic \<Rightarrow> bool" where
  "conf_ok k \<longleftrightarrow> list_all entry_ok (magic_list k)"

lemma parse_ok: "conf_ok k \<Longrightarrow> conf_ok (snd (parse l lineno k))"
proof -
  assume k: "conf_ok k"
  let ?st = "parse_unsigned (parse_indirect (parse_offset (parse_level lineno l (accuracy k))))"
  have st: "state_ok ?st"
    by (intro parse_unsigned_ok parse_indirect_ok parse_offset_ok parse_level_ok)
  show ?thesis
  proof (cases "parse_type ?st")
    case None
    with k st show ?thesis by (simp add: parse_def Let_def conf_ok_def state_ok_def)
  next
    case (Some st1)
    then have "state_ok (parse_desc (parse_value (parse_mask st1)))"
      using parse_type_ok [OF st] by (intro parse_desc_ok parse_value_ok parse_mask_ok)
    with k Some show ?thesis by (simp add: parse_def Let_def conf_ok_def state_ok_def)
  qed
qed

lemma parse_line_ok: "conf_ok k \<Longrightarrow> conf_ok (snd (snd (parse_line line rule lineno k)))"
  using parse_ok by (auto simp: parse_line_def Let_def split_beta)

lemma apprentice_lines_ok: "conf_ok k \<Longrightarrow> conf_ok (snd (apprentice_lines f arr rule lineno errs k))"
proof (induction f arr rule lineno errs k rule: apprentice_lines.induct)
  case (1 f arr rule lineno errs k)
  show ?case
  proof (cases "fgets BUFSIZ f")
    case None
    then show ?thesis using "1.prems" by (subst apprentice_lines.simps) simp
  next
    case (Some r)
    obtain l f' where r: "r = (l, f')" by (cases r)
    obtain err rule' k' where pl: "parse_line (store l arr) rule lineno k = (err, rule', k')"
      using prod_cases3 by blast
    have "conf_ok k'" using parse_line_ok [OF "1.prems", of "store l arr" rule lineno] pl by simp
    with Some r pl show ?thesis
      using "1.IH" [OF Some r [symmetric] refl refl pl [symmetric] refl] by (subst apprentice_lines.simps) (simp add: Let_def)
  qed
qed

lemma buff_lines_ok: "conf_ok k \<Longrightarrow> conf_ok (snd (buff_lines start arr rule lineno errs k))"
proof (induction start arr rule lineno errs k rule: buff_lines.induct)
  case (1 start arr rule lineno errs k)
  obtain line n where bl: "buff_line start arr = (line, n)" by force
  obtain err rule' k' where pl: "parse_line line rule lineno k = (err, rule', k')"
    using prod_cases3 by blast
  have "conf_ok k'" using parse_line_ok [OF "1.prems", of line rule lineno] pl by simp
  with bl pl show ?case
    using "1.IH" [OF bl [symmetric] refl pl [symmetric] refl refl] by (subst buff_lines.simps) (simp add: Let_def)
qed

text \<open>whatever a magic file or a buffer holds, every entry that is read from it is well
  formed: its value stays within the 64 bytes of the union, its description within its array,
  its offset within an \<open>int\<close>.\<close>

theorem magic_entries_ok:
  assumes "conf_ok k"
  shows "conf_ok (snd (apprentice fs arr k)) \<and> conf_ok (snd (buff_apprentice buff arr k))"
proof -
  have "conf_ok (k\<lparr>accuracy := a\<rparr>)" for a using assms by (simp add: conf_ok_def)
  then show ?thesis
    using assms apprentice_lines_ok [OF assms] buff_lines_ok [OF assms]
    by (auto simp: apprentice_def buff_apprentice_def split: option.splits prod.splits) (metis snd_conv)+
qed


theorem magic_entries_ok_witness:
  "conf_ok (snd (apprentice [''magic'' \<mapsto> ''0 byte 1 x''] [] (sample_magic\<lparr>magicfile := Some ''magic''\<rparr>)))"
proof -
  have "conf_ok (sample_magic\<lparr>magicfile := Some ''magic''\<rparr>)"
    unfolding conf_ok_def sample_magic_def by simp
  then show ?thesis by (rule magic_entries_ok [THEN conjunct1])
qed

subsection \<open>A numeric entry is read as it was written\<close>

lemma dec_of_nat_hd: "0 < n \<Longrightarrow> hd (dec_of_nat n) \<noteq> CHR ''0''"
proof (induction n rule: dec_of_nat.induct)
  case (1 n)
  show ?case
  proof (cases "n < 10")
    case True
    then show ?thesis using "1.prems" by (subst dec_of_nat.simps) (simp add: digit_char_def char_of_eq code_def)
  next
    case False
    then have "hd (dec_of_nat (n div 10)) \<noteq> CHR ''0''" using 1 by simp
    then show ?thesis using False by (subst dec_of_nat.simps) simp
  qed
qed

lemma dec_of_nat_0: "dec_of_nat 0 = ''0''"
  by (subst dec_of_nat.simps) (simp add: digit_char_def char_of_eq code_def)

lemma strto_scan_0_dec: "strto_scan 0 (dec_of_nat n @ TAB # r) = Some (False, n, TAB # r)"
proof (cases "n = 0")
  case True
  have c: "\<not> isspace CHR ''0''" "digit_val CHR ''0'' = 0" "digit_val TAB = 99"
    by (simp_all add: isspace_def digit_val_def isdigit_def islower_def isupper_def code_def)
  have "tolower TAB = TAB" by (simp add: tolower_def isupper_def code_def)
  with True c show ?thesis
    unfolding strto_scan_def Let_def by (simp add: dec_of_nat_0 digits_to_nat_def)
next
  case False
  obtain d ds where d: "dec_of_nat n = d # ds" by (cases "dec_of_nat n") auto
  have "isdigit d" using dec_of_nat_digits [of n] by (simp add: d)
  then have "\<not> isspace d" "d \<noteq> CHR ''-''" "d \<noteq> CHR ''+''"
    using isdigit_not_space [of d] isdigit_neq [of d] by auto
  moreover have "d \<noteq> CHR ''0''" using dec_of_nat_hd [of n] False by (simp add: d)
  ultimately have "strto_scan 0 (dec_of_nat n @ TAB # r) = strto_scan 10 (dec_of_nat n @ TAB # r)"
    by (simp add: strto_scan_def d)
  then show ?thesis using strto_scan_dec [of "TAB # r" n] by (simp add: char_eval)
qed

lemma strtol_0_dec: "int n \<le> LONG_MAX \<Longrightarrow> strtol 0 (dec_of_nat n @ TAB # r) = (int n, TAB # r)"
  by (simp add: strtol_def strto_scan_0_dec)

lemma at0_dec_digit: "isdigit (at0 (dec_of_nat n @ r))"
  using dec_of_nat_digits [of n] by (cases "dec_of_nat n") auto

lemma eatab_TAB [simp]: "eatab (TAB # s) = eatab s"
  by (simp add: eatab_def char_eval)

lemma eatab_id: "\<not> isspace (at0 s) \<Longrightarrow> eatab s = s"
  by (cases s) (simp_all add: eatab_def)

lemma parse_type_word:
  assumes "(w, t) \<in> set type_words"
  shows "parse_type \<lparr>ps_l = w @ TAB # r, ps_m = m, ps_accuracy = acc\<rparr>
    = Some \<lparr>ps_l = TAB # r, ps_m = m\<lparr>m_type := t\<rparr>, ps_accuracy = acc\<rparr>"
proof -
  have "\<forall>(w, t)\<in>set type_words. find (\<lambda>(w', t'). strncmp_eq (w @ TAB # r) w' (length w')) type_words = Some (w, t)"
    by (simp add: type_words_def strncmp_eq_def)
  with assms have "find (\<lambda>(w', t'). strncmp_eq (w @ TAB # r) w' (length w')) type_words = Some (w, t)" by blast
  then show ?thesis by (simp add: parse_type_def upd_m_def)
qed


text \<open>The text of an entry and the entry that it stands for.\<close>

definition entry_text :: "nat \<Rightarrow> nat \<Rightarrow> bool \<Rightarrow> string \<Rightarrow> char \<Rightarrow> nat \<Rightarrow> string \<Rightarrow> string" where
  "entry_text level off uns w rel n desc =
     replicate level CHR ''>'' @ dec_of_nat off @ TAB # (if uns then ''u'' else []) @ w @ TAB # rel
       # dec_of_nat n @ TAB # desc"

definition entry_of :: "nat \<Rightarrow> nat \<Rightarrow> nat \<Rightarrow> bool \<Rightarrow> magic_type \<Rightarrow> char \<Rightarrow> nat \<Rightarrow> string \<Rightarrow> magic" where
  "entry_of lineno level off uns t rel n desc =
     (let m = (new_magic lineno)\<lparr>m_cont_level := level, m_offset := int off, m_unsigned := uns, m_type := t,
                m_mask := - 1, m_reln := rel\<rparr>
      in m\<lparr>m_value := set_l (fst (signextend m (word_of_int (int n)) 0)) zero_value, m_desc := desc\<rparr>)"

definition desc_text :: "string \<Rightarrow> bool" where
  "desc_text s \<longleftrightarrow> length s \<le> MAXDESC \<and> no_nul s \<and> LF \<notin> set s
     \<and> (s \<noteq> [] \<longrightarrow> \<not> isspace (hd s) \<and> hd s \<noteq> char_of (8::nat) \<and> hd s \<noteq> BSL)"

lemma parse_head:
  assumes "off < 2 ^ 31" "\<not> isspace (at0 x)"
  shows "parse_indirect (parse_offset (parse_level lineno (replicate level CHR ''>'' @ dec_of_nat off @ TAB # x) acc))
    = \<lparr>ps_l = TAB # x, ps_m = (new_magic lineno)\<lparr>m_cont_level := level, m_offset := int off\<rparr>, ps_accuracy = acc\<rparr>"
proof -
  let ?d = "dec_of_nat off @ TAB # x"
  have "isdigit (at0 ?d)" by (rule at0_dec_digit)
  then have d: "at0 ?d \<noteq> CHR ''>''" "at0 ?d \<noteq> CHR ''(''" by (auto simp: isdigit_def code_def)
  have "takeWhile (\<lambda>c. c = CHR ''>'') (replicate level CHR ''>'' @ ?d) = replicate level CHR ''>''"
    using d(1) by (cases "dec_of_nat off") (simp_all add: takeWhile_append2)
  then have "parse_level lineno (replicate level CHR ''>'' @ ?d) acc
      = \<lparr>ps_l = ?d, ps_m = (new_magic lineno)\<lparr>m_cont_level := level\<rparr>, ps_accuracy = acc\<rparr>"
    using d(2) by (simp add: parse_level_def)
  moreover have "strtol 0 ?d = (int off, TAB # x)"
    using assms(1) by (intro strtol_0_dec) (simp add: LONG_MAX_def)
  moreover have "?d \<noteq> TAB # x" using dec_of_nat_nonempty [of off] by (metis append_self_conv2 same_append_eq)
  ultimately show ?thesis
    using assms(1) by (simp add: parse_offset_def parse_indirect_def new_magic_def)
qed

lemma parse_numeric_value:
  assumes "t \<notin> {STRING, NOTYPE}" "rel \<in> {CHR ''>'', CHR ''<'', CHR ''&'', CHR ''^'', CHR ''='', CHR ''!''}"
    and "int n \<le> LONG_MAX" "m_type m = t" "m_value m = zero_value"
  shows "parse_value (parse_mask \<lparr>ps_l = TAB # rel # dec_of_nat n @ TAB # x, ps_m = m, ps_accuracy = acc\<rparr>)
    = \<lparr>ps_l = TAB # x, ps_m = m\<lparr>m_mask := - 1, m_reln := rel,
        m_value := set_l (fst (signextend m (word_of_int (int n)) 0)) zero_value\<rparr>, ps_accuracy = acc\<rparr>"
proof -
  have rel: "\<not> isspace rel" "rel \<noteq> CHR ''x''" using assms(2) by (auto simp: isspace_def code_def)
  have "\<not> isspace (at0 (dec_of_nat n @ TAB # x))" using at0_dec_digit isdigit_not_space by blast
  then have val: "eatab (dec_of_nat n @ TAB # x) = dec_of_nat n @ TAB # x" by (rule eatab_id)
  have sign: "signextend (m\<lparr>m_mask := - 1, m_reln := c\<rparr>) v a = (fst (signextend m v 0), a)" for c v a
    using assms(1,4) by (cases t) (simp_all add: signextend_def)
  have rels: "rel \<in> {CHR ''>'', CHR ''<'', CHR ''&'', CHR ''^'', CHR ''=''} \<or> rel = CHR ''!''"
    using assms(2) by auto
  show ?thesis
    using assms rel rels
    by (auto simp: parse_mask_def parse_value_def parse_reln_def eatab_id Let_def upd_m_def val getvalue_def
        strtol_0_dec sign)
qed


lemma parse_desc_text:
  assumes "desc_text desc"
  shows "parse_desc \<lparr>ps_l = TAB # desc @ NUL # x, ps_m = m, ps_accuracy = acc\<rparr>
    = \<lparr>ps_l = desc @ NUL # x, ps_m = m\<lparr>m_nospflag := False, m_desc := desc\<rparr>, ps_accuracy = acc\<rparr>"
proof -
  have hd: "\<not> isspace (at0 (desc @ NUL # x))" "at0 (desc @ NUL # x) \<noteq> char_of (8::nat)" "at0 (desc @ NUL # x) \<noteq> BSL"
    using assms by (cases desc; simp add: desc_text_def char_eval)+
  have "take MAXDESC (cstr (desc @ NUL # x)) = desc" using assms by (simp add: desc_text_def)
  with hd show ?thesis by (simp add: parse_desc_def eatab_id Let_def)
qed

text \<open>the magic file round trip for numeric entries: a line that states the level, offset,
  type, relation, value and description of an entry adds exactly this entry to the rules, and
  counts no error, whatever the line array held before.\<close>

theorem parse_line_entry:
  assumes "(w, t) \<in> set type_words" "t \<noteq> STRING" "off < 2 ^ 31" "int n \<le> LONG_MAX"
    and "rel \<in> {CHR ''>'', CHR ''<'', CHR ''&'', CHR ''^'', CHR ''='', CHR ''!''}" "desc_text desc"
  shows "parse_line (store (entry_text level off uns w rel n desc @ [LF]) arr) rule lineno k
    = (False, Suc rule, k\<lparr>magic_list := magic_list k @ [entry_of lineno level off uns t rel n desc]\<rparr>)"
proof -
  define rest where "rest = NUL # drop (Suc (Suc (length (entry_text level off uns w rel n desc)))) arr"
  let ?x = "(if uns then ''u'' else []) @ w @ TAB # rel # dec_of_nat n @ TAB # desc @ NUL # rest"
  have w: "no_nul w" "w \<noteq> []" "hd w \<noteq> CHR ''u''" "\<not> isspace (hd w)" "\<not> isdigit (hd w)" "t \<noteq> NOTYPE"
    using assms(1) by (auto simp: type_words_def char_eval)
  have digits: "no_nul (dec_of_nat i)" for i
    using dec_of_nat_digits [of i] isdigit_neq by (auto simp: no_nul_def)
  have nn: "no_nul (entry_text level off uns w rel n desc)"
    using w digits assms(5,6) by (auto simp: entry_text_def desc_text_def no_nul_def)
  let ?T = "entry_text level off uns w rel n desc"
  have T: "?T \<noteq> []" "\<not> isspace (at0 ?T)" "at0 ?T \<noteq> CHR ''#''" "at0 ?T \<noteq> NUL"
    using at0_dec_digit [of off "TAB # x" for x] isdigit_not_space
    by (cases level; auto simp: entry_text_def isspace_def isdigit_def code_def)+
  have "store (?T @ [LF]) arr = ?T @ LF # rest" by (simp add: store_def rest_def)
  moreover have "cstr (?T @ LF # rest) = ?T @ [LF]" using nn by (simp add: rest_def)
  ultimately have line: "parse_line (store (?T @ [LF]) arr) rule lineno k
      = (case parse (?T @ NUL # rest) lineno k of (ret, k') \<Rightarrow> (ret \<noteq> 0, Suc rule, k'))"
    using T by (cases ?T) (simp_all add: parse_line_def list_update_append)
  have x: "\<not> isspace (at0 ?x)" using w by (cases w; cases uns) (auto simp: char_eval)
  have TT: "?T @ NUL # rest = replicate level CHR ''>'' @ dec_of_nat off @ TAB # ?x"
    by (simp add: entry_text_def)
  let ?m = "(new_magic lineno)\<lparr>m_cont_level := level, m_offset := int off, m_unsigned := uns\<rparr>"
  have "parse_unsigned \<lparr>ps_l = TAB # ?x, ps_m = (new_magic lineno)\<lparr>m_cont_level := level, m_offset := int off\<rparr>,
        ps_accuracy = accuracy k\<rparr>
      = \<lparr>ps_l = w @ TAB # rel # dec_of_nat n @ TAB # desc @ NUL # rest, ps_m = ?m, ps_accuracy = accuracy k\<rparr>"
  proof -
    have "eatab ?x = ?x" using x by (rule eatab_id)
    then show ?thesis
      using w by (cases w; cases uns) (simp_all add: parse_unsigned_def upd_m_def char_eval new_magic_def)
  qed
  then have st: "parse_unsigned (parse_indirect (parse_offset (parse_level lineno (?T @ NUL # rest) (accuracy k))))
      = \<lparr>ps_l = w @ TAB # rel # dec_of_nat n @ TAB # desc @ NUL # rest, ps_m = ?m, ps_accuracy = accuracy k\<rparr>"
    unfolding TT using parse_head [OF assms(3) x] by simp
  have "m_type (?m\<lparr>m_type := t\<rparr>) = t" "m_value (?m\<lparr>m_type := t\<rparr>) = zero_value" "t \<notin> {STRING, NOTYPE}"
    using assms(2) w by (simp_all add: new_magic_def)
  note val = parse_numeric_value [OF this(3) assms(5,4) this(1,2), of "desc @ NUL # rest" "accuracy k"]
  have se: "signextend (m\<lparr>m_type := t, m_mask := a, m_reln := c\<rparr>) v z = signextend (m\<lparr>m_type := t\<rparr>) v z" for m a c v z
    by (simp add: signextend_def split: magic_type.splits)
  have entry: "entry_of lineno level off uns t rel n desc = ?m\<lparr>m_type := t, m_mask := - 1, m_reln := rel,
      m_value := set_l (fst (signextend (?m\<lparr>m_type := t\<rparr>) (word_of_int (int n)) 0)) zero_value,
      m_nospflag := False, m_desc := desc\<rparr>"
    unfolding entry_of_def Let_def se by (simp add: new_magic_def)
  have "parse (?T @ NUL # rest) lineno k
      = (0, k\<lparr>magic_list := magic_list k @ [entry_of lineno level off uns t rel n desc], accuracy := accuracy k\<rparr>)"
    unfolding parse_def Let_def st parse_type_word [OF assms(1)] option.case val parse_desc_text [OF assms(6)] entry
    by simp
  then show ?thesis by (simp add: line)
qed


theorem parse_line_entry_witness:
  "snd (parse_line (store (''>'' @ ''4'' @ [TAB] @ ''beshort'' @ [TAB] @ ''=258'' @ [TAB] @ ''image/gif'' @ [LF]) ''stale'') 0 7 sample_magic)
     = (1, sample_magic\<lparr>magic_list := [entry_of 7 1 4 False BESHORT CHR ''='' 258 ''image/gif'']\<rparr>)"
proof -
  have d: "dec_of_nat 4 = ''4''" "dec_of_nat 258 = ''258''"
    by (simp_all add: dec_of_nat.simps digit_char_def char_of_eq code_def)
  have "entry_text 1 4 False ''beshort'' CHR ''='' 258 ''image/gif''
      = ''>'' @ ''4'' @ [TAB] @ ''beshort'' @ [TAB] @ ''=258'' @ [TAB] @ ''image/gif''"
    by (simp add: entry_text_def d)
  moreover have "desc_text ''image/gif''" "(''beshort'', BESHORT) \<in> set type_words"
    by (simp_all add: desc_text_def type_words_def MAXDESC_def isspace_def code_def char_of_eq)
  ultimately show ?thesis
    using parse_line_entry [of "''beshort''" BESHORT 4 258 "CHR ''=''" "''image/gif''" 1 False "''stale''" 0 7 sample_magic]
    by (simp add: LONG_MAX_def sample_magic_def)
qed

lemma parse_line_last_char:
  assumes "no_nul s" "c \<noteq> NUL" "d \<noteq> NUL"
  shows "parse_line (store (s @ [c]) arr) rule lineno k = parse_line (store (s @ [d]) arr) rule lineno k"
proof -
  have "(store (s @ [x]) arr)[length s := NUL] = s @ NUL # NUL # drop (Suc (Suc (length s))) arr" for x
    by (simp add: store_def list_update_append)
  moreover have "cstr (store (s @ [x]) arr) = s @ [x]" if "x \<noteq> NUL" for x
    using assms(1) that by (simp add: store_def)
  moreover have "at0 (store (s @ [x]) arr) \<noteq> NUL" if "x \<noteq> NUL" for x
    using assms(1) that by (cases s) (simp_all add: store_def)
  ultimately show ?thesis using assms(2,3) by (simp add: parse_line_def Let_def)
qed

text \<open>a last line without a line feed loses its last character: \<open>apprentice\<close> reads the same
  rules from the file as if that character were the line feed.\<close>

theorem apprentice_last_line:
  assumes "no_nul s" "LF \<notin> set s" "c \<noteq> NUL" "c \<noteq> LF" "length s + 1 < BUFSIZ" "fs f = Some (s @ [c])" "magicfile k = Some f"
  shows "apprentice fs arr k = apprentice (fs(f \<mapsto> s @ [LF])) arr k"
proof -
  have "takeWhile (\<lambda>x. x \<noteq> LF) (s @ [c]) = s @ [c]" using assms(2,4) by (intro takeWhile_all) auto
  then have "fgets BUFSIZ (s @ [c]) = Some (s @ [c], [])"
    using assms(5) by (simp add: fgets_def BUFSIZ_def)
  moreover have "fgets BUFSIZ (s @ [LF]) = Some (s @ [LF], [])"
    using fgets_line [OF assms(2,5), of "[]"] by simp
  moreover have "apprentice_lines [] a rl l e j = (e, j)" for a rl l e j
    by (subst apprentice_lines.simps) (simp add: fgets_def)
  ultimately have "apprentice_lines (s @ [c]) arr 0 1 0 k = apprentice_lines (s @ [LF]) arr 0 1 0 k"
    using parse_line_last_char [OF assms(1,3), of LF arr]
    by (subst (1 2) apprentice_lines.simps) (simp add: Let_def split: prod.splits)
  then show ?thesis using assms(6,7) by (simp add: apprentice_def)
qed

theorem apprentice_last_line_witness:
  "apprentice [''m'' \<mapsto> ''0 byte 1 text/a''] [] (sample_magic\<lparr>magicfile := Some ''m''\<rparr>)
    = apprentice ([''m'' \<mapsto> ''0 byte 1 text/a''](''m'' \<mapsto> ''0 byte 1 text/'' @ [LF])) [] (sample_magic\<lparr>magicfile := Some ''m''\<rparr>)"
  by (rule apprentice_last_line [where c = "CHR ''a''"]) (simp_all add: BUFSIZ_def)

end
