(* ===== verification/MagicMatch.thy ===== *)
theory MagicMatch
  imports MagicBase
begin

section \<open>The entries of the magic file against the data\<close>

text \<open>
  \<open>mconvert\<close>, \<open>mget\<close>, \<open>mcheck\<close>, \<open>mprint\<close> and \<open>match\<close> of \<open>kfm/kmimemagic.cpp\<close> on a
  little-endian machine. The data is the whole array \<open>s\<close>, of which \<open>nbytes\<close> bytes hold the file.
  A copy from outside the array is undefined behaviour: the result is then \<open>None\<close>. \<open>vsprintf\<close>
  and \<open>ctime\<close> are parameters.
\<close>

datatype printf_arg = PStr string | PLong "64 word"

record magic_env =
  vsprintf :: "string \<Rightarrow> printf_arg \<Rightarrow> string"
  ctime :: "64 word \<Rightarrow> string"

text \<open>For the examples: a \<open>vsprintf\<close> that knows no conversions.\<close>

definition sample_printf :: magic_env where
  "sample_printf = \<lparr>vsprintf = \<lambda>fmt arg. fmt, ctime = \<lambda>t. []\<rparr>"

subsection \<open>\<open>mconvert\<close> and \<open>mget\<close>\<close>

definition int_of_bytes :: "char \<Rightarrow> char \<Rightarrow> char \<Rightarrow> char \<Rightarrow> 64 word" where
  "int_of_bytes a b c d = signed_take_bit 31
     (push_bit 24 (word_of_nat (code a)) OR push_bit 16 (word_of_nat (code b))
      OR push_bit 8 (word_of_nat (code c)) OR word_of_nat (code d))"

definition short_of_bytes :: "char \<Rightarrow> char \<Rightarrow> 64 word" where
  "short_of_bytes a b = push_bit 8 (word_of_nat (code a)) OR word_of_nat (code b)"

definition mconvert :: "VALUETYPE \<Rightarrow> magic \<Rightarrow> int \<Rightarrow> bool \<times> VALUETYPE \<times> int" where
  "mconvert p m acc =
     (if m_type m = BYTE then (True, p, acc)
      else if m_type m = STRING then
        (let p1 = p[MAXstring - 1 := NUL]
         in (True, case find_char LF (cstr p1) of Some rt \<Rightarrow> p1[rt := NUL] | None \<Rightarrow> p1, acc))
      else if m_type m \<in> {SHORT, BESHORT} then (True, set_h (short_of_bytes (p ! 0) (p ! 1)) p, acc)
      else if m_type m \<in> {LONG, DATE, BELONG, BEDATE} then
        (True, set_l (int_of_bytes (p ! 0) (p ! 1) (p ! 2) (p ! 3)) p, acc)
      else if m_type m = LESHORT then (True, set_h (short_of_bytes (p ! 1) (p ! 0)) p, acc)
      else if m_type m \<in> {LELONG, LEDATE} then
        (True, set_l (int_of_bytes (p ! 3) (p ! 2) (p ! 1) (p ! 0)) p, acc)
      else (False, p, 0))"

definition memcpy_from :: "string \<Rightarrow> int \<Rightarrow> nat \<Rightarrow> string option" where
  "memcpy_from s offset n =
     (if 0 \<le> offset \<and> nat offset + n \<le> length s then Some (take n (drop (nat offset) s)) else None)"

definition mget_first :: "string \<Rightarrow> magic \<Rightarrow> int \<Rightarrow> VALUETYPE option" where
  "mget_first s m nbytes =
     (let offset = m_offset m
      in if offset + int MAXstring > nbytes then
           (let have_n = to_int32 (nbytes - offset)
            in if have_n > 0
               then map_option (\<lambda>x. x @ drop (length x) zero_value) (memcpy_from s offset (nat have_n))
               else Some zero_value)
         else memcpy_from s offset MAXstring)"

definition indirect_offset :: "VALUETYPE \<Rightarrow> magic \<Rightarrow> int" where
  "indirect_offset p m = (case m_in_type m of
       BYTE \<Rightarrow> sint (val_b p + word_of_int (m_in_offset m))
     | SHORT \<Rightarrow> sint (val_h p + word_of_int (m_in_offset m))
     | LONG \<Rightarrow> sint (val_l p + word_of_int (m_in_offset m))
     | _ \<Rightarrow> m_offset m)"

definition mget :: "string \<Rightarrow> magic \<Rightarrow> int \<Rightarrow> int \<Rightarrow> (bool \<times> VALUETYPE \<times> int) option" where
  "mget s m nbytes acc = (case mget_first s m nbytes of None \<Rightarrow> None
     | Some p0 \<Rightarrow>
         (case mconvert p0 m acc of (ok, p, acc1) \<Rightarrow>
           if \<not> ok then Some (False, p, acc1)
           else if m_indir m then
             (let offset = indirect_offset p m
              in if offset + int MAXstring > nbytes then Some (False, p, acc1)
                 else map_option (\<lambda>p1. mconvert p1 m acc1) (memcpy_from s offset MAXstring))
           else Some (True, p, acc1)))"

subsection \<open>\<open>mcheck\<close>\<close>

fun strdiff :: "nat \<Rightarrow> string \<Rightarrow> string \<Rightarrow> int" where
  "strdiff 0 a b = 0"
| "strdiff (Suc len) a b =
     (let v = int (code (at0 b)) - int (code (at0 a)) in if v \<noteq> 0 then v else strdiff len (tl a) (tl b))"

definition mvalue :: "VALUETYPE \<Rightarrow> magic \<Rightarrow> 64 word" where
  "mvalue p m = (case m_type m of
       BYTE \<Rightarrow> val_b p
     | SHORT \<Rightarrow> val_h p | BESHORT \<Rightarrow> val_h p | LESHORT \<Rightarrow> val_h p
     | STRING \<Rightarrow> word_of_int (strdiff (m_vallen m) (m_value m) p)
     | _ \<Rightarrow> val_l p)"

definition relates :: "magic \<Rightarrow> 64 word \<Rightarrow> 64 word \<Rightarrow> bool option" where
  "relates m v l =
     (if m_reln m = CHR ''x'' then Some True
      else if m_reln m = CHR ''!'' then Some (v \<noteq> l)
      else if m_reln m = CHR ''='' then Some (v = l)
      else if m_reln m = CHR ''>'' then Some (if m_unsigned m then l < v else sint l < sint v)
      else if m_reln m = CHR ''<'' then Some (if m_unsigned m then v < l else sint v < sint l)
      else if m_reln m = CHR ''&'' then Some (v AND l = l)
      else if m_reln m = CHR ''^'' then Some (v AND l \<noteq> l)
      else None)"

definition mcheck :: "VALUETYPE \<Rightarrow> magic \<Rightarrow> int \<Rightarrow> bool \<times> int" where
  "mcheck p m acc =
     (if m_value m ! 0 = CHR ''x'' \<and> m_value m ! 1 = NUL then (True, 0)
      else if m_type m = NOTYPE then (False, 0)
      else
        let l = (if m_type m = STRING then 0 else val_l (m_value m))
        in case signextend m (mvalue p m) acc of (v, acc1) \<Rightarrow>
             (case relates m (v AND m_mask m) l of Some b \<Rightarrow> (b, acc1) | None \<Rightarrow> (False, 0)))"

subsection \<open>\<open>mprint\<close> and \<open>match\<close>\<close>

definition resultBufPrintf :: "magic_env \<Rightarrow> string \<Rightarrow> printf_arg \<Rightarrow> KMimeMagic \<Rightarrow> KMimeMagic" where
  "resultBufPrintf E str arg k = k\<lparr>resultBuf := resultBuf k @ cstr (vsprintf E str arg)\<rparr>"

definition mprint :: "magic_env \<Rightarrow> VALUETYPE \<Rightarrow> magic \<Rightarrow> KMimeMagic \<Rightarrow> KMimeMagic" where
  "mprint E p m k =
     (if m_type m = STRING then
        resultBufPrintf E (m_desc m) (PStr (cstr (if m_reln m = CHR ''='' then m_value m else p))) k
      else if m_type m \<in> {DATE, BEDATE, LEDATE} then
        resultBufPrintf E (m_desc m) (PStr (takeWhile (\<lambda>c. c \<noteq> LF) (cstr (ctime E (val_l p))))) k
      else if m_type m = NOTYPE then k\<lparr>accuracy := 0\<rparr>
      else (case signextend m (mvalue p m) (accuracy k) of (v, acc) \<Rightarrow>
              resultBufPrintf E (m_desc m) (PLong (v AND m_mask m)) (k\<lparr>accuracy := acc\<rparr>)))"

text \<open>\<open>mget(...) && mcheck(...)\<close>.\<close>

definition test_entry :: "string \<Rightarrow> int \<Rightarrow> magic \<Rightarrow> int \<Rightarrow> (bool \<times> VALUETYPE \<times> int) option" where
  "test_entry s nbytes m acc = (case mget s m nbytes acc of None \<Rightarrow> None
     | Some (ok, p, acc1) \<Rightarrow>
         (if ok then (case mcheck p m acc1 of (b, acc2) \<Rightarrow> Some (b, p, acc2)) else Some (False, p, acc1)))"

text \<open>The continuations behind a matching entry, up to the next entry of level 0.\<close>

fun match_conts :: "magic_env \<Rightarrow> string \<Rightarrow> int \<Rightarrow> magic list \<Rightarrow> nat \<Rightarrow> bool \<Rightarrow> KMimeMagic \<Rightarrow> KMimeMagic option" where
  "match_conts E s nbytes [] cont_level need_separator k = Some k"
| "match_conts E s nbytes (m # ms) cont_level need_separator k =
     (if m_cont_level m = 0 then Some k
      else if cont_level \<ge> m_cont_level m then
        (case test_entry s nbytes m (accuracy k) of None \<Rightarrow> None
         | Some (matched, p, acc) \<Rightarrow>
             (let k1 = k\<lparr>accuracy := acc\<rparr>
              in if matched then
                   (let sep = (need_separator \<and> \<not> m_nospflag m \<and> at0 (m_desc m) \<noteq> NUL);
                        k2 = (if sep then k1\<lparr>resultBuf := resultBuf k1 @ [SP]\<rparr> else k1);
                        need = (if at0 (m_desc m) \<noteq> NUL then True else need_separator)
                    in match_conts E s nbytes ms (Suc (m_cont_level m)) need (mprint E p m k2))
                 else match_conts E s nbytes ms (m_cont_level m) need_separator k1))
      else match_conts E s nbytes ms cont_level need_separator k)"

function match_rules :: "magic_env \<Rightarrow> string \<Rightarrow> int \<Rightarrow> magic list \<Rightarrow> KMimeMagic \<Rightarrow> (bool \<times> KMimeMagic) option" where
  "match_rules E s nbytes [] k = Some (False, k)"
| "match_rules E s nbytes (m # ms) k =
     (case test_entry s nbytes m (accuracy k) of None \<Rightarrow> None
      | Some (matched, p, acc) \<Rightarrow>
          (let k1 = k\<lparr>accuracy := acc\<rparr>
           in if \<not> matched then match_rules E s nbytes (dropWhile (\<lambda>m. m_cont_level m \<noteq> 0) ms) k1
              else map_option (Pair True)
                     (match_conts E s nbytes ms 1 (at0 (m_desc m) \<noteq> NUL) (mprint E p m k1))))"
  by pat_completeness auto
termination
  by (relation "measure (\<lambda>(E, s, n, ms, k). length ms)") (auto simp: le_imp_less_Suc length_dropWhile)

definition softmagic :: "magic_env \<Rightarrow> string \<Rightarrow> int \<Rightarrow> KMimeMagic \<Rightarrow> (bool \<times> KMimeMagic) option" where
  "softmagic E s nbytes k = match_rules E s nbytes (magic_list k) k"

subsection \<open>The union\<close>

lemma code_char_of_mod [simp]: "code (char_of n) = n mod 256"
  by (simp add: code_def of_char_of)

lemma foldr_le_bytes: "foldr (\<lambda>c a. code c + 256 * a) (le_bytes k n) 0 = n mod 256 ^ k"
proof (induction k arbitrary: n)
  case (Suc k)
  have "n mod 256 + 256 * (n div 256 mod 256 ^ k) = n mod 256 ^ Suc k"
    by (simp add: mod_mult2_eq)
  then show ?case by (simp add: Suc)
qed simp

lemma length_le_bytes [simp]: "length (le_bytes k n) = k"
  by (induction k arbitrary: n) simp_all

lemma val_l_set_l [simp]: "val_l (set_l v p) = v"
proof -
  have "unat v < 256 ^ 8" using unsigned_less [of v, where ?'a = nat] by simp
  then have "unat v mod 256 ^ 8 = unat v" by (rule mod_less)
  then show ?thesis by (simp add: val_l_def set_l_def foldr_le_bytes)
qed

lemma val_h_low: "val_h (char_of (unat v mod 256) # char_of (unat v div 256 mod 256) # r) = take_bit 16 v"
proof -
  have "unat v mod 256 + 256 * (unat v div 256 mod 256) = unat (take_bit 16 v)"
    using mod_mult2_eq [of "unat v" 256 256] by (simp add: unsigned_take_bit_eq take_bit_eq_mod [of 16 "unat v"])
  then have "(word_of_nat (unat v mod 256 + 256 * (unat v div 256 mod 256)) :: 64 word)
      = word_of_nat (unat (take_bit 16 v))"
    by (rule arg_cong)
  then show ?thesis by (simp add: val_h_def)
qed

lemma val_h_set_h: "val_h (set_h v p) = take_bit 16 v"
  using val_h_low [of v "drop 2 p"] by (simp add: set_h_def numeral_2_eq_2)

lemma val_h_set_l: "val_h (set_l v p) = take_bit 16 v"
proof -
  have "le_bytes 8 n = char_of (n mod 256) # char_of (n div 256 mod 256) # le_bytes 6 (n div 256 div 256)" for n
    using le_bytes.simps(2) [of 7 n] le_bytes.simps(2) [of 6 "n div 256"] by simp
  then show ?thesis using val_h_low [of v] by (simp add: set_l_def)
qed

lemma length_zero_value [simp]: "length zero_value = 64"
  by (simp add: zero_value_def MAXstring_def)

subsection \<open>What \<open>mget\<close> reads\<close>

text \<open>The 64 bytes from an offset of the file, with zeros behind its end.\<close>

definition window :: "string \<Rightarrow> nat \<Rightarrow> nat \<Rightarrow> VALUETYPE" where
  "window s n off = map (\<lambda>i. if off + i < n then s ! (off + i) else NUL) [0..<MAXstring]"

lemma window_nth: "i < 64 \<Longrightarrow> window s n off ! i = (if off + i < n then s ! (off + i) else NUL)"
  by (simp add: window_def MAXstring_def)

lemma length_window [simp]: "length (window s n off) = 64"
  by (simp add: window_def MAXstring_def)

text \<open>no read outside of the data: for an entry with an offset that is not negative, the
  first copy of \<open>mget\<close> stays in the array and yields the bytes of the file at the offset, with
  zeros behind the end of the file.\<close>

theorem mget_first_window:
  assumes "0 \<le> m_offset m" "m_offset m < 2 ^ 31" "n \<le> length s" "n < 2 ^ 31"
  shows "mget_first s m (int n) = Some (window s n (nat (m_offset m)))"
proof -
  define o' where "o' = nat (m_offset m)"
  have o: "m_offset m = int o'" using assms(1) by (simp add: o'_def)
  show ?thesis
  proof (cases "o' + 64 > n")
    case short: True
    have have_n: "to_int32 (int n - int o') = int n - int o'"
      using assms o by (intro to_int32_id) auto
    show ?thesis
    proof (cases "o' < n")
      case True
      then have "memcpy_from s (int o') (n - o') = Some (take (n - o') (drop o' s))"
        using assms(3) by (simp add: memcpy_from_def)
      moreover have "take (n - o') (drop o' s) @ drop (n - o') zero_value = window s n o'"
        using True short assms(3)
        by (auto intro!: nth_equalityI simp: window_nth nth_append zero_value_def MAXstring_def)
      ultimately show ?thesis
        using True short assms(3) by (simp add: mget_first_def o have_n MAXstring_def nat_diff_distrib flip: of_nat_diff)
    next
      case False
      then have "zero_value = window s n o'"
        by (auto intro!: nth_equalityI simp: window_nth zero_value_def MAXstring_def)
      with False short show ?thesis by (simp add: mget_first_def o have_n MAXstring_def)
    qed
  next
    case False
    then have "take 64 (drop o' s) = window s n o'"
      using assms(3) by (auto intro!: nth_equalityI simp: window_nth)
    with False assms(3) show ?thesis by (simp add: mget_first_def o memcpy_from_def MAXstring_def)
  qed
qed

lemma mget_direct:
  assumes "0 \<le> m_offset m" "m_offset m < 2 ^ 31" "n \<le> length s" "n < 2 ^ 31" "\<not> m_indir m"
  shows "mget s m (int n) acc = Some (mconvert (window s n (nat (m_offset m))) m acc)"
  using mget_first_window [OF assms(1-4)] assms(5)
  by (cases "mconvert (window s n (nat (m_offset m))) m acc") (simp add: mget_def)

subsection \<open>Numbers\<close>

definition be32 :: "string \<Rightarrow> nat \<Rightarrow> int" where
  "be32 s i = (let n = int (code (s ! i)) * 2 ^ 24 + int (code (s ! (i + 1))) * 2 ^ 16
     + int (code (s ! (i + 2))) * 2 ^ 8 + int (code (s ! (i + 3)))
   in if n < 2 ^ 31 then n else n - 2 ^ 32)"

lemma or_low_bits:
  fixes a b :: "64 word"
  assumes "take_bit n b = b"
  shows "push_bit n a OR b = push_bit n a + b"
proof -
  have "\<not> bit (push_bit n a) i \<or> \<not> bit b i" for i
  proof -
    have "bit b i \<Longrightarrow> i < n" using assms bit_take_bit_iff [of n b i] by auto
    then show ?thesis by (auto simp: bit_push_bit_iff)
  qed
  then show ?thesis by (rule disjunctive_add [symmetric])
qed

lemma take_bit_code: "8 \<le> n \<Longrightarrow> take_bit n (word_of_nat (code c) :: 64 word) = word_of_nat (code c)"
proof -
  assume "8 \<le> n"
  then have "code c < 2 ^ n" using code_lt [of c] power_increasing [of 8 n "2::nat"] by (simp del: code_lt)
  then have "take_bit n (code c) = code c" by (simp add: take_bit_nat_eq_self)
  then show ?thesis by (metis take_bit_of_nat)
qed

lemma bytes_or:
  "push_bit 24 (word_of_nat (code a)) OR push_bit 16 (word_of_nat (code b))
     OR push_bit 8 (word_of_nat (code c)) OR (word_of_nat (code d) :: 64 word)
   = word_of_nat (code a * 2 ^ 24 + code b * 2 ^ 16 + code c * 2 ^ 8 + code d)"
proof -
  have "push_bit 8 (word_of_nat (code c)) OR (word_of_nat (code d) :: 64 word)
      = word_of_nat (code c * 2 ^ 8 + code d)"
    by (subst or_low_bits) (simp_all add: take_bit_code push_bit_eq_mult)
  moreover have "push_bit 16 (word_of_nat (code b)) OR (word_of_nat (code c * 2 ^ 8 + code d) :: 64 word)
      = word_of_nat (code b * 2 ^ 16 + (code c * 2 ^ 8 + code d))"
  proof (subst or_low_bits)
    have "code c * 2 ^ 8 + code d < 2 ^ 16" using code_lt [of c] code_lt [of d] by (simp del: code_lt)
    then have "take_bit 16 (code c * 2 ^ 8 + code d) = code c * 2 ^ 8 + code d" by (rule take_bit_nat_eq_self)
    then show "take_bit 16 (word_of_nat (code c * 2 ^ 8 + code d) :: 64 word) = word_of_nat (code c * 2 ^ 8 + code d)"
      by (metis take_bit_of_nat)
  qed (simp add: push_bit_eq_mult)
  moreover have "push_bit 24 (word_of_nat (code a)) OR (word_of_nat (code b * 2 ^ 16 + (code c * 2 ^ 8 + code d)) :: 64 word)
      = word_of_nat (code a * 2 ^ 24 + (code b * 2 ^ 16 + (code c * 2 ^ 8 + code d)))"
  proof (subst or_low_bits)
    have "code b * 2 ^ 16 + (code c * 2 ^ 8 + code d) < 2 ^ 24"
      using code_lt [of b] code_lt [of c] code_lt [of d] by (simp del: code_lt)
    then have "take_bit 24 (code b * 2 ^ 16 + (code c * 2 ^ 8 + code d)) = code b * 2 ^ 16 + (code c * 2 ^ 8 + code d)"
      by (rule take_bit_nat_eq_self)
    then show "take_bit 24 (word_of_nat (code b * 2 ^ 16 + (code c * 2 ^ 8 + code d)) :: 64 word)
        = word_of_nat (code b * 2 ^ 16 + (code c * 2 ^ 8 + code d))"
      by (metis take_bit_of_nat)
  qed (simp add: push_bit_eq_mult)
  ultimately show ?thesis by (simp add: add.assoc or.assoc)
qed

lemma int_of_bytes_be32:
  "int_of_bytes (s ! i) (s ! (i + 1)) (s ! (i + 2)) (s ! (i + 3)) = word_of_int (be32 s i)"
proof -
  define n where "n = code (s ! i) * 2 ^ 24 + code (s ! (i + 1)) * 2 ^ 16 + code (s ! (i + 2)) * 2 ^ 8 + code (s ! (i + 3))"
  have n: "n < 2 ^ 32"
    using code_lt [of "s ! i"] code_lt [of "s ! (i + 1)"] code_lt [of "s ! (i + 2)"] code_lt [of "s ! (i + 3)"]
    unfolding n_def by (simp del: code_lt)
  have "int_of_bytes (s ! i) (s ! (i + 1)) (s ! (i + 2)) (s ! (i + 3)) = signed_take_bit 31 (word_of_nat n)"
    by (simp only: int_of_bytes_def bytes_or n_def)
  also have "\<dots> = word_of_int (signed_take_bit 31 (int n))"
    by (metis of_int_of_nat_eq signed_take_bit_of_int)
  also have "signed_take_bit 31 (int n) = be32 s i"
  proof -
    have be: "be32 s i = (if int n < 2 ^ 31 then int n else int n - 2 ^ 32)"
      by (simp add: be32_def n_def Let_def)
    have "int n < 4294967296" using n by simp
    then have "(int n + 2147483648) mod 4294967296 = (if int n < 2147483648 then int n + 2147483648 else int n - 2147483648)"
      by (smt (verit) mod_pos_pos_trivial minus_mod_self2 of_nat_0_le_iff)
    then show ?thesis by (simp add: be signed_take_bit_eq_take_bit_shift take_bit_eq_mod)
  qed
  finally show ?thesis .
qed


lemma int_of_le_bytes:
  "int_of_bytes (p ! 3) (p ! 2) (p ! 1) (p ! 0) = word_of_int (be32 (rev (take 4 p)) 0)" if "4 \<le> length p"
  using int_of_bytes_be32 [of "rev (take 4 p)" 0] that
  by (simp add: rev_nth numeral_eq_Suc take_Suc_conv_app_nth)

lemma be32_range: "- (2 ^ 31) \<le> be32 s i \<and> be32 s i < 2 ^ 31"
  using code_lt [of "s ! i"] code_lt [of "s ! (i + 1)"] code_lt [of "s ! (i + 2)"] code_lt [of "s ! (i + 3)"]
  by (simp add: be32_def Let_def del: code_lt)

lemma sint_word_of_int:
  "- (2 ^ 63) \<le> x \<Longrightarrow> x < 2 ^ 63 \<Longrightarrow> sint (word_of_int x :: 64 word) = x"
  by (simp add: sint_sbintrunc' signed_take_bit_int_eq_self)

lemma word_of_int_eq:
  assumes "- (2 ^ 63) \<le> x" "x < 2 ^ 63" "- (2 ^ 63) \<le> y" "y < 2 ^ 63"
  shows "(word_of_int x :: 64 word) = word_of_int y \<longleftrightarrow> x = y"
  using sint_word_of_int [OF assms(1,2)] sint_word_of_int [OF assms(3,4)] by metis

lemma belong_equal_word:
  assumes "m_type m \<in> {LONG, BELONG}" "m_reln m = CHR ''=''" "\<not> m_indir m" "m_mask m = - 1"
    and "m_value m = set_l (word_of_int x) zero_value" "- (2 ^ 63) \<le> x" "x < 2 ^ 63" "x mod 2 ^ 16 \<noteq> 120"
    and "m_offset m = int i" "i + 4 \<le> n" "n \<le> length s" "n < 2 ^ 31"
  shows "\<exists>p. test_entry s (int n) m acc = Some (be32 s i = x, p, acc)"
proof -
  let ?w = "window s n i"
  have bytes: "?w ! 0 = s ! i" "?w ! Suc 0 = s ! Suc i" "?w ! 2 = s ! (i + 2)" "?w ! 3 = s ! (i + 3)"
    using assms(10) by (simp_all add: window_nth)
  have get: "mget s m (int n) acc = Some (True, set_l (word_of_int (be32 s i)) ?w, acc)"
    using assms mget_direct [of m n s acc] int_of_bytes_be32 [of s i]
    by (auto simp: mconvert_def bytes)
  have boink: "\<not> (m_value m ! 0 = CHR ''x'' \<and> m_value m ! 1 = NUL)"
  proof
    assume "m_value m ! 0 = CHR ''x'' \<and> m_value m ! 1 = NUL"
    then have "val_h (m_value m) = 120" by (simp add: val_h_def code_def)
    moreover have "val_h (m_value m) = take_bit 16 (word_of_int x)"
      using assms(5) by (simp add: val_h_set_l)
    ultimately have "(word_of_int (x mod 2 ^ 16) :: 64 word) = word_of_int 120"
      by (metis take_bit_eq_mod take_bit_of_int of_int_numeral)
    moreover have "- (2 ^ 63) \<le> x mod 2 ^ 16 \<and> x mod 2 ^ 16 < 2 ^ 63"
      using pos_mod_bound [of "2 ^ 16" x] pos_mod_sign [of "2 ^ 16" x] by (simp del: pos_mod_bound pos_mod_sign)
    ultimately show False using assms(8) word_of_int_eq [of "x mod 2 ^ 16" 120] by simp
  qed
  show ?thesis
    using assms be32_range [of s i] boink get
    by (auto simp: test_entry_def mcheck_def mvalue_def relates_def signextend_def word_of_int_eq)
qed

text \<open>what a \<open>belong\<close> or \<open>long\<close> entry with the relation \<open>=\<close> tests: that the four bytes of
  the file at the offset, read as a signed big-endian number, are the value of the entry. A value
  from \<open>2\<^sup>3\<^sup>1\<close> on, such as \<open>0xcafebabe\<close>, therefore never matches, because \<open>strtol\<close> reads it as a
  positive \<open>long\<close> of 64 bits.\<close>

theorem belong_equal:
  assumes "m_type m \<in> {LONG, BELONG}" "m_reln m = CHR ''=''" "\<not> m_indir m" "m_mask m = - 1"
    and "m_value m = set_l (word_of_int x) zero_value" "- (2 ^ 63) \<le> x" "x < 2 ^ 63" "x mod 2 ^ 16 \<noteq> 120"
    and "m_offset m = int i" "i + 4 \<le> n" "n \<le> length s" "n < 2 ^ 31"
  shows "\<exists>p. test_entry s (int n) m acc = Some (be32 s i = x, p, acc)"
  using assms by (rule belong_equal_word)


text \<open>An entry for the witnesses: \<open>0 belong 0xcafebabe\<close>, the magic of Java's class files.\<close>

definition class_entry :: magic where
  "class_entry = (new_magic 1)\<lparr>m_type := BELONG, m_reln := CHR ''='', m_mask := - 1,
     m_value := set_l (word_of_int 0xcafebabe) zero_value, m_desc := ''application/x-java''\<rparr>"

definition class_file :: string where
  "class_file = map char_of [0xca, 0xfe, 0xba, 0xbe, 0, 0, 0, 0x2d :: nat]"

theorem mget_first_window_witness:
  "mget_first class_file class_entry (int 8) = Some (window class_file 8 0)"
  using mget_first_window [of class_entry 8 class_file]
  by (simp add: class_entry_def new_magic_def class_file_def)

theorem belong_equal_witness:
  "\<exists>p. test_entry class_file 8 class_entry 100 = Some (False, p, 100)"
proof -
  have "be32 class_file 0 \<noteq> 0xcafebabe" using be32_range [of class_file 0] by auto
  then show ?thesis
    using belong_equal [of class_entry "0xcafebabe" 0 8 class_file 100]
    by (simp add: class_entry_def new_magic_def class_file_def)
qed

text \<open>an entry whose numeric value is 120 matches every file, whatever its relation, offset
  and type: \<open>mcheck\<close> takes the first two bytes of the union for the string \<open>"x"\<close>. The answer's
  accuracy becomes 0.\<close>

theorem value_120_matches_all:
  assumes "m_type m \<noteq> STRING" "m_type m \<noteq> NOTYPE" "m_value m = set_l 120 zero_value" "\<not> m_indir m"
    and "0 \<le> m_offset m" "m_offset m < 2 ^ 31" "n \<le> length s" "n < 2 ^ 31"
  shows "\<exists>p. test_entry s (int n) m acc = Some (True, p, 0)"
proof -
  have "set_l 120 zero_value ! 0 = CHR ''x'' \<and> set_l 120 zero_value ! 1 = NUL"
    using le_bytes.simps(2) [of 7 120] le_bytes.simps(2) [of 6 0] by (simp add: set_l_def char_of_eq code_def)
  then have check: "mcheck p m a = (True, 0)" for p a using assms(3) by (simp add: mcheck_def)
  obtain p a where "mconvert (window s n (nat (m_offset m))) m acc = (True, p, a)"
    using assms(1,2) by (cases "m_type m") (auto simp: mconvert_def)
  then have "mget s m (int n) acc = Some (True, p, a)"
    using mget_direct [of m n s acc] assms by simp
  then show ?thesis by (simp add: test_entry_def check)
qed

theorem value_120_matches_all_witness:
  "\<exists>p. test_entry ''abc'' (int 3) ((new_magic 1)\<lparr>m_type := BYTE, m_reln := CHR ''='', m_mask := - 1,
     m_value := set_l 120 zero_value\<rparr>) 100 = Some (True, p, 0)"
  by (rule value_120_matches_all) (simp_all add: new_magic_def)

definition holds_under :: "VALUETYPE \<Rightarrow> magic \<Rightarrow> int \<Rightarrow> char \<Rightarrow> bool" where
  "holds_under p m acc c = fst (mcheck p (m\<lparr>m_reln := c\<rparr>) acc)"

text \<open>the relations of \<open>mcheck\<close> are consistent: of \<open><\<close>, \<open>=\<close> and \<open>>\<close> exactly one holds
  for an entry and a value, \<open>!\<close> is the negation of \<open>=\<close>, \<open>^\<close> that of \<open>&\<close>, and \<open>x\<close> holds
  always.\<close>

theorem mcheck_relations:
  assumes "\<not> (m_value m ! 0 = CHR ''x'' \<and> m_value m ! 1 = NUL)" "m_type m \<noteq> NOTYPE"
    and "holds = holds_under p m acc"
  shows "(holds CHR ''='' \<and> \<not> holds CHR ''<'' \<and> \<not> holds CHR ''>''
      \<or> \<not> holds CHR ''='' \<and> holds CHR ''<'' \<and> \<not> holds CHR ''>''
      \<or> \<not> holds CHR ''='' \<and> \<not> holds CHR ''<'' \<and> holds CHR ''>'')
    \<and> (holds CHR ''!'' \<longleftrightarrow> \<not> holds CHR ''='') \<and> (holds CHR ''^'' \<longleftrightarrow> \<not> holds CHR ''&'') \<and> holds CHR ''x''"
proof -
  let ?l = "if m_type m = STRING then 0 else val_l (m_value m)"
  let ?v = "fst (signextend m (mvalue p m) acc) AND m_mask m"
  have se: "signextend (m\<lparr>m_reln := c\<rparr>) v a = signextend m v a" and mv: "mvalue p (m\<lparr>m_reln := c\<rparr>) = mvalue p m" for c v a
    by (cases "m_type m"; simp add: signextend_def mvalue_def)+
  have holds: "holds c \<longleftrightarrow> relates (m\<lparr>m_reln := c\<rparr>) ?v ?l = Some True" for c
    using assms(1,2) unfolding assms(3) holds_under_def mcheck_def
    by (auto simp: Let_def split_beta se mv split: option.splits)
  define v where "v = ?v"
  define l where "l = ?l"
  note h = holds [folded v_def l_def]
  have eq: "holds CHR ''='' \<longleftrightarrow> v = l" "holds CHR ''!'' \<longleftrightarrow> v \<noteq> l" "holds CHR ''x''"
    "holds CHR ''^'' \<longleftrightarrow> \<not> holds CHR ''&''"
    and lt: "holds CHR ''<'' \<longleftrightarrow> (if m_unsigned m then v < l else sint v < sint l)"
    "holds CHR ''>'' \<longleftrightarrow> (if m_unsigned m then l < v else sint l < sint v)"
    unfolding h relates_def by simp_all
  have "holds CHR ''='' \<or> holds CHR ''<'' \<or> holds CHR ''>''"
    unfolding eq lt by (metis neq_iff signed_word_eqI)
  moreover have "\<not> (holds CHR ''<'' \<and> holds CHR ''>'')" "\<not> (holds CHR ''='' \<and> holds CHR ''<'')"
    "\<not> (holds CHR ''='' \<and> holds CHR ''>'')"
    unfolding eq lt by (auto split: if_splits)
  ultimately show ?thesis using eq by blast
qed

theorem mcheck_relations_witness:
  "fst (mcheck class_file (class_entry\<lparr>m_reln := CHR ''!''\<rparr>) 100)
     \<longleftrightarrow> \<not> fst (mcheck class_file (class_entry\<lparr>m_reln := CHR ''=''\<rparr>) 100)"
proof -
  have "val_h (m_value class_entry) \<noteq> 120"
    by (simp add: class_entry_def val_h_set_l)
  then have "\<not> (m_value class_entry ! 0 = CHR ''x'' \<and> m_value class_entry ! 1 = NUL)"
    by (auto simp: val_h_def code_def)
  then show ?thesis
    using mcheck_relations [OF _ _ refl, of class_entry class_file 100]
    by (simp add: class_entry_def new_magic_def holds_under_def)
qed


lemma strdiff_zero:
  "len \<le> length a \<Longrightarrow> len \<le> length b \<Longrightarrow> strdiff len a b = 0 \<longleftrightarrow> take len a = take len b"
proof (induction len arbitrary: a b)
  case (Suc len)
  then obtain x a' y b' where "a = x # a'" "b = y # b'" by (cases a; cases b) auto
  with Suc show ?case by (auto simp: Let_def code_inj)
qed simp

lemma strdiff_range: "- 255 \<le> strdiff len a b \<and> strdiff len a b \<le> 255"
proof (induction len arbitrary: a b)
  case (Suc len)
  have "code (at0 a) < 256" "code (at0 b) < 256" by (rule code_lt)+
  then have "- 255 \<le> int (code (at0 b)) - int (code (at0 a))" "int (code (at0 b)) - int (code (at0 a)) \<le> 255"
    by linarith+
  with Suc show ?case by (simp add: Let_def)
qed simp

text \<open>what a \<open>string\<close> entry with the relation \<open>=\<close> tests: that the file has the bytes of the
  value at the offset, when the value has no line feed.\<close>

theorem string_equal:
  assumes "m_type m = STRING" "m_reln m = CHR ''=''" "\<not> m_indir m" "m_mask m = - 1"
    and "m_value m = v @ NUL # r" "m_vallen m = length v" "v \<noteq> ''x''" "no_nul v" "LF \<notin> set v"
    and "m_offset m = int i" "i + length v \<le> n" "length v < 63" "n \<le> length s" "n < 2 ^ 31"
  shows "\<exists>p. test_entry s (int n) m acc = Some (take (length v) (drop i s) = v, p, acc)"
proof -
  define w where "w = (window s n i)[63 := NUL]"
  define p where "p = (case find_char LF (cstr w) of Some rt \<Rightarrow> w[rt := NUL] | None \<Rightarrow> w)"
  have "mconvert (window s n i) m acc = (True, p, acc)"
    unfolding p_def w_def mconvert_def using assms(1) by (simp add: Let_def MAXstring_def)
  then have get: "mget s m (int n) acc = Some (True, p, acc)"
    using assms mget_direct [of m n s acc] by simp
  have boink: "\<not> (m_value m ! 0 = CHR ''x'' \<and> m_value m ! 1 = NUL)"
    using assms(5,7,8) by (cases v; cases "tl v") auto
  have lw: "length w = 64" "length p = 64" by (simp_all add: w_def p_def split: option.splits)
  have tw: "take (length v) w = take (length v) (drop i s)"
    using assms(11-13) by (intro nth_equalityI) (auto simp: w_def window_nth)
  have "take (length v) w = v \<longleftrightarrow> take (length v) p = v"
  proof (cases "find_char LF (cstr w)")
    case (Some rt)
    then have rt: "rt < length (cstr w)" "cstr w ! rt = LF" using find_char_Some by blast+
    then have "w ! rt = LF" using takeWhile_nth [of rt "\<lambda>c. c \<noteq> NUL" w] by (simp add: cstr_def)
    moreover have "rt < 64" using rt(1) lw(1) length_takeWhile_le [of "\<lambda>c. c \<noteq> NUL" w] by (simp add: cstr_def)
    ultimately have "rt < length v \<Longrightarrow> take (length v) w \<noteq> v \<and> take (length v) p \<noteq> v"
      using assms(8,9) lw Some
      by (metis (no_types, lifting) length_list_update nth_list_update_eq nth_mem nth_take no_nul_def option.simps(5) p_def)
    moreover have "length v \<le> rt \<Longrightarrow> take (length v) p = take (length v) w"
      using Some by (simp add: p_def)
    ultimately show ?thesis by (cases "rt < length v") auto
  qed (simp add: p_def)
  moreover have "strdiff (length v) (m_value m) p = 0 \<longleftrightarrow> v = take (length v) p"
    using assms(5,12) lw by (subst strdiff_zero) auto
  moreover have "(word_of_int (strdiff (length v) (m_value m) p) :: 64 word) = 0 \<longleftrightarrow> strdiff (length v) (m_value m) p = 0"
    using strdiff_range [of "length v" "m_value m" p] word_of_int_eq [of "strdiff (length v) (m_value m) p" 0] by auto
  ultimately show ?thesis
    using assms(1,2,4,6) boink get tw
    by (auto simp: test_entry_def mcheck_def mvalue_def relates_def signextend_def)
qed


theorem string_equal_witness:
  "\<exists>p. test_entry ''xGIF89a'' (int 7) ((new_magic 1)\<lparr>m_type := STRING, m_reln := CHR ''='', m_mask := - 1,
     m_offset := 1, m_vallen := 3, m_value := ''GIF'' @ NUL # replicate 60 NUL\<rparr>) 100
   = Some (take (length ''GIF'') (drop 1 ''xGIF89a'') = ''GIF'', p, 100)"
  by (rule string_equal) (simp_all add: new_magic_def)

lemma sint_high: "2 ^ 63 \<le> x \<Longrightarrow> x < 2 ^ 64 \<Longrightarrow> sint (word_of_int x :: 64 word) < 0"
proof -
  assume x: "2 ^ 63 \<le> x" "x < 2 ^ 64"
  have "x + 2 ^ 63 = x - 2 ^ 63 + 2 ^ 64" by simp
  then have "(x + 2 ^ 63) mod 2 ^ 64 = (x - 2 ^ 63) mod 2 ^ 64"
    by (simp only: mod_add_self2)
  also have "\<dots> = x - 2 ^ 63" using x by (intro mod_pos_pos_trivial) auto
  finally have "(x + 2 ^ 63) mod 2 ^ 64 = x - 2 ^ 63" .
  moreover have "sint (word_of_int x :: 64 word) = (x + 2 ^ 63) mod 2 ^ 64 - 2 ^ 63" by (simp add: int_word_sint)
  ultimately have "sint (word_of_int x :: 64 word) = x - 2 ^ 63 - 2 ^ 63" by (simp only:)
  then show ?thesis using x by simp
qed

text \<open>an indirect entry can read outside of the data: \<open>mget\<close> tests only the upper end of the
  second copy. With an indirection through a \<open>long\<close>, any file whose eight bytes at the offset make
  a negative number takes the copy to an address before the buffer.\<close>

theorem mget_indirect_unsafe:
  assumes "m_type m = BYTE" "m_indir m" "m_in_type m = LONG" "m_in_offset m = 0"
    and "m_offset m = int i" "i + 8 \<le> n" "n \<le> length s" "n < 2 ^ 31" "64 \<le> n" "128 \<le> code (s ! (i + 7))"
  shows "mget s m (int n) acc = None"
proof -
  let ?w = "window s n i"
  have w: "take 8 ?w = take 7 ?w @ [s ! (i + 7)]"
    using assms(6) take_Suc_conv_app_nth [of 7 ?w] by (simp add: window_nth)
  define lo where "lo = foldr (\<lambda>c a. code c + 256 * a) (take 7 ?w) 0"
  have bound: "foldr (\<lambda>c a. code c + 256 * a) cs 0 < 256 ^ length cs" for cs
  proof (induction cs)
    case (Cons c cs)
    have "code c < 256" by (rule code_lt)
    with Cons have "code c + 256 * foldr (\<lambda>c a. code c + 256 * a) cs 0 < 256 + 256 * (256 ^ length cs - 1)"
      by (simp add: add_less_le_mono less_Suc_eq_le [symmetric] del: code_lt)
    then show ?case by (simp add: right_diff_distrib')
  qed simp
  have snoc: "foldr (\<lambda>c a. code c + 256 * a) cs b = foldr (\<lambda>c a. code c + 256 * a) cs 0 + 256 ^ length cs * b" for cs b
    by (induction cs) (simp_all add: algebra_simps)
  have "lo < 256 ^ 7" using bound [of "take 7 ?w"] by (simp add: lo_def)
  have val: "val_l ?w = word_of_nat (lo + 256 ^ 7 * code (s ! (i + 7)))"
    using snoc [of "take 7 ?w" "code (s ! (i + 7))"] by (simp add: val_l_def w lo_def)
  have "lo + 256 ^ 7 * code (s ! (i + 7)) < 2 ^ 64"
    using \<open>lo < 256 ^ 7\<close> code_lt [of "s ! (i + 7)"] by (simp del: code_lt)
  moreover have "2 ^ 63 \<le> lo + 256 ^ 7 * code (s ! (i + 7))" using assms(10) by simp
  ultimately have "sint (val_l ?w) < 0"
    unfolding val using sint_high [of "int (lo + 256 ^ 7 * code (s ! (i + 7)))"] by (simp del: of_nat_add of_nat_mult)
  then have neg: "indirect_offset ?w m < 0" using assms(3,4) by (simp add: indirect_offset_def)
  have "mget_first s m (int n) = Some ?w" using mget_first_window [of m n s] assms by simp
  moreover have "indirect_offset ?w m + 64 \<le> int n" using neg assms(9) by linarith
  ultimately show ?thesis
    using assms(1,2) neg by (simp add: mget_def mconvert_def memcpy_from_def MAXstring_def Let_def)
qed


theorem mget_indirect_unsafe_witness:
  "mget (replicate 100 (char_of (255::nat))) ((new_magic 1)\<lparr>m_type := BYTE, m_indir := True, m_in_type := LONG\<rparr>)
     (int 70) 100 = None"
  by (rule mget_indirect_unsafe [of _ 0]) (simp_all add: new_magic_def code_def)

subsection \<open>Which entries are tested\<close>

text \<open>
  The magic file as a list of groups: an entry and the continuations behind it. The first entry
  of the list opens a group whatever its level.
\<close>

function entry_groups :: "magic list \<Rightarrow> (magic \<times> magic list) list" where
  "entry_groups [] = []"
| "entry_groups (m # ms) = (m, takeWhile (\<lambda>m. m_cont_level m \<noteq> 0) ms)
     # entry_groups (dropWhile (\<lambda>m. m_cont_level m \<noteq> 0) ms)"
  by pat_completeness auto
termination
  by (relation "measure length") (auto simp: le_imp_less_Suc length_dropWhile)

definition safe_entry :: "magic \<Rightarrow> bool" where
  "safe_entry m \<longleftrightarrow> \<not> m_indir m \<and> 0 \<le> m_offset m \<and> m_offset m < 2 ^ 31"

definition entry_holds :: "string \<Rightarrow> int \<Rightarrow> magic \<Rightarrow> bool" where
  "entry_holds s n m = (case test_entry s n m 0 of Some (b, p, acc) \<Rightarrow> b | None \<Rightarrow> False)"

lemma mconvert_acc: "fst (mconvert p m a) = fst (mconvert p m b) \<and> fst (snd (mconvert p m a)) = fst (snd (mconvert p m b))"
  by (auto simp: mconvert_def Let_def)

lemma mcheck_acc: "fst (mcheck p m a) = fst (mcheck p m b)"
proof -
  have "fst (signextend m v a) = fst (signextend m v b)" for v
    by (auto simp: signextend_def split: magic_type.splits)
  then show ?thesis by (auto simp: mcheck_def Let_def split_beta split: option.splits)
qed

lemma test_entry_safe:
  assumes "safe_entry m" "n \<le> length s" "n < 2 ^ 31"
  shows "\<exists>p acc'. test_entry s (int n) m acc = Some (entry_holds s (int n) m, p, acc')"
proof -
  let ?w = "window s n (nat (m_offset m))"
  have get: "mget s m (int n) a = Some (mconvert ?w m a)" for a
    using assms mget_direct [of m n s a] by (simp add: safe_entry_def)
  have "test_entry s (int n) m a = Some (fst (mconvert ?w m a) \<and> fst (mcheck (fst (snd (mconvert ?w m a))) m (snd (snd (mconvert ?w m a)))),
      fst (snd (mconvert ?w m a)), if fst (mconvert ?w m a) then snd (mcheck (fst (snd (mconvert ?w m a))) m (snd (snd (mconvert ?w m a))))
        else snd (snd (mconvert ?w m a)))" for a
    by (simp add: test_entry_def get split_beta)
  then show ?thesis
    using mconvert_acc [of ?w m acc 0] mcheck_acc [of "fst (snd (mconvert ?w m 0))" m]
    by (auto simp: entry_holds_def)
qed

lemma match_conts_group:
  "match_conts E s n ms l need k = match_conts E s n (takeWhile (\<lambda>m. m_cont_level m \<noteq> 0) ms) l need k"
  by (induction ms arbitrary: l need k) (auto simp: Let_def split: option.splits)

lemma k_update: "k\<lparr>accuracy := a, accuracy := b\<rparr> = k\<lparr>accuracy := b\<rparr>"
  by simp

lemma match_conts_defined:
  assumes "\<forall>m\<in>set ms. safe_entry m" "n \<le> length s" "n < 2 ^ 31"
  shows "match_conts E s (int n) ms l need k \<noteq> None"
  using assms(1)
proof (induction ms arbitrary: l need k)
  case (Cons m ms)
  obtain p acc where t: "test_entry s (int n) m (accuracy k) = Some (entry_holds s (int n) m, p, acc)"
    using test_entry_safe [of m n s "accuracy k"] Cons.prems assms(2,3) by auto
  then show ?case using Cons by (simp add: Let_def)
qed simp

text \<open>C5: For entries without an indirection, whose offsets are not negative (below 2^31, as the length of the data), \<open>match\<close> is defined for every buffer, also for
  entries that lie behind the end of the data, and finds the first group whose entry holds: without one it prints nothing and returns 0, otherwise it prints that entry and then the
  continuations of its group, and those only, and returns 1.\<close>

theorem match_first_group:
  assumes "\<forall>m\<in>set ms. \<not> m_indir m \<and> 0 \<le> m_offset m \<and> m_offset m < 2 ^ 31" "n \<le> length s" "n < 2 ^ 31"
  shows "case find (\<lambda>(h, cs). entry_holds s (int n) h) (entry_groups ms) of
      None \<Rightarrow> (\<exists>a. match_rules E s (int n) ms k = Some (False, k\<lparr>accuracy := a\<rparr>))
    | Some (h, cs) \<Rightarrow> (\<exists>p a b k'. test_entry s (int n) h a = Some (True, p, b) \<and>
        match_conts E s (int n) cs 1 (at0 (m_desc h) \<noteq> NUL) (mprint E p h (k\<lparr>accuracy := b\<rparr>)) = Some k' \<and>
        match_rules E s (int n) ms k = Some (True, k'))"
  using assms(1)
proof (induction ms arbitrary: k rule: entry_groups.induct)
  case 1
  show ?case by (auto intro!: exI [of _ "accuracy k"])
next
  case (2 m ms)
  let ?rest = "dropWhile (\<lambda>m. m_cont_level m \<noteq> 0) ms"
  have rest: "\<forall>m\<in>set ?rest. \<not> m_indir m \<and> 0 \<le> m_offset m \<and> m_offset m < 2 ^ 31"
    using "2.prems" by (auto dest: set_dropWhileD)
  have conts: "\<forall>m\<in>set (takeWhile (\<lambda>m. m_cont_level m \<noteq> 0) ms). safe_entry m"
    using "2.prems" by (auto simp: safe_entry_def dest: set_takeWhileD)
  obtain p acc where t: "test_entry s (int n) m (accuracy k) = Some (entry_holds s (int n) m, p, acc)"
    using test_entry_safe [of m n s "accuracy k"] "2.prems" assms(2,3) by (auto simp: safe_entry_def)
  show ?case
  proof (cases "entry_holds s (int n) m")
    case True
    obtain k' where "match_conts E s (int n) (takeWhile (\<lambda>m. m_cont_level m \<noteq> 0) ms) 1 (at0 (m_desc m) \<noteq> NUL)
        (mprint E p m (k\<lparr>accuracy := acc\<rparr>)) = Some k'"
      using match_conts_defined [OF conts assms(2,3)] by fastforce
    with True t show ?thesis by (auto simp: match_conts_group [of E s "int n" ms])
  next
    case False
    with t have "match_rules E s (int n) (m # ms) k = match_rules E s (int n) ?rest (k\<lparr>accuracy := acc\<rparr>)" by simp
    moreover have "find (\<lambda>(h, cs). entry_holds s (int n) h) (entry_groups (m # ms))
        = find (\<lambda>(h, cs). entry_holds s (int n) h) (entry_groups ?rest)"
      using False by simp
    ultimately show ?thesis
      using "2.IH" [OF rest, of "k\<lparr>accuracy := acc\<rparr>"] by (simp only: k_update)
  qed
qed

text \<open>An entry that holds for \<open>class_file\<close>, with a continuation.\<close>

definition version_entries :: "magic list" where
  "version_entries = [(new_magic 2)\<lparr>m_type := BELONG, m_offset := 4, m_reln := CHR ''='', m_mask := - 1,
     m_value := set_l (word_of_int 45) zero_value, m_desc := ''application/x-java''\<rparr>, (new_magic 3)\<lparr>m_cont_level := 1, m_type := BYTE\<rparr>]"

theorem match_first_group_witness:
  "\<exists>a k'. match_rules sample_printf class_file (int 8) [class_entry] sample_magic = Some (False, sample_magic\<lparr>accuracy := a\<rparr>) \<and>
     match_rules sample_printf class_file (int 8) (class_entry # version_entries) sample_magic = Some (True, k')"
proof -
  have "be32 class_file 0 \<noteq> 0xcafebabe" using be32_range [of class_file 0] by auto
  then have no: "\<not> entry_holds class_file (int 8) class_entry"
    using belong_equal_word [of class_entry "0xcafebabe" 0 8 class_file 0]
    by (auto simp: class_entry_def new_magic_def class_file_def entry_holds_def)
  have "be32 class_file 4 = 45" by code_simp
  then have yes: "entry_holds class_file (int 8) (hd version_entries)"
    using belong_equal_word [of "hd version_entries" 45 4 8 class_file 0]
    by (auto simp: version_entries_def new_magic_def class_file_def entry_holds_def)
  have s: "\<forall>m\<in>set (class_entry # version_entries). \<not> m_indir m \<and> 0 \<le> m_offset m \<and> m_offset m < 2 ^ 31"
    by (simp add: class_entry_def version_entries_def new_magic_def)
  obtain h t where v: "version_entries = h # t" "m_cont_level h = 0" "entry_holds class_file (int 8) h"
    using yes by (simp add: version_entries_def new_magic_def)
  have g: "entry_groups (class_entry # version_entries) = (class_entry, []) # (h, takeWhile (\<lambda>m. m_cont_level m \<noteq> 0) t)
      # entry_groups (dropWhile (\<lambda>m. m_cont_level m \<noteq> 0) t)"
    using v(2) by (simp add: v(1))
  have "\<exists>k'. match_rules sample_printf class_file (int 8) (class_entry # version_entries) sample_magic = Some (True, k')"
    using match_first_group [OF s, of 8 class_file sample_printf sample_magic] no v(3)
    unfolding g by (auto simp: class_file_def)
  moreover have "\<exists>a. match_rules sample_printf class_file (int 8) [class_entry] sample_magic = Some (False, sample_magic\<lparr>accuracy := a\<rparr>)"
    using match_first_group [of "[class_entry]" 8 class_file sample_printf sample_magic] s no by (simp add: class_file_def)
  ultimately show ?thesis by blast
qed

subsection \<open>Continuations\<close>

text \<open>
  The reference for the counter \<open>cont_level\<close>: a continuation belongs to the nearest entry before
  it with a smaller level, and is tested if this entry is exactly one level below and has
  matched. \<open>past\<close> are the levels and results of the entries before it, the last one first.
\<close>

definition controlled :: "(nat \<times> bool) list \<Rightarrow> nat \<Rightarrow> bool" where
  "controlled past level = (case find (\<lambda>(l, ok). l < level) past of
     Some (l, ok) \<Rightarrow> ok \<and> level = Suc l | None \<Rightarrow> False)"

fun conts_ref :: "magic_env \<Rightarrow> string \<Rightarrow> int \<Rightarrow> magic list \<Rightarrow> (nat \<times> bool) list \<Rightarrow> bool \<Rightarrow> KMimeMagic \<Rightarrow> KMimeMagic option" where
  "conts_ref E s nbytes [] past need k = Some k"
| "conts_ref E s nbytes (m # ms) past need k =
     (if m_cont_level m = 0 then Some k
      else if controlled past (m_cont_level m) then
        (case test_entry s nbytes m (accuracy k) of None \<Rightarrow> None
         | Some (matched, p, acc) \<Rightarrow>
             (let k1 = k\<lparr>accuracy := acc\<rparr>; printed = (at0 (m_desc m) \<noteq> NUL)
              in if matched then
                   conts_ref E s nbytes ms ((m_cont_level m, True) # past) (printed \<or> need)
                     (mprint E p m (if need \<and> \<not> m_nospflag m \<and> printed then k1\<lparr>resultBuf := resultBuf k1 @ [SP]\<rparr> else k1))
                 else conts_ref E s nbytes ms ((m_cont_level m, False) # past) need k1))
      else conts_ref E s nbytes ms ((m_cont_level m, False) # past) need k)"

lemma match_conts_ref:
  assumes "\<forall>level. 0 < level \<longrightarrow> controlled past level = (level \<le> cont_level)"
  shows "match_conts E s n ms cont_level need k = conts_ref E s n ms past need k"
  using assms
proof (induction ms arbitrary: cont_level past need k)
  case (Cons m ms)
  let ?l = "m_cont_level m"
  show ?case
  proof (cases "?l = 0")
    case False
    have lower: "controlled ((?l, b) # past) level = (level \<le> cont_level)" if "0 < level" "level \<le> ?l" for b level
      using that Cons.prems by (simp add: controlled_def)
    have upper: "controlled ((?l, b) # past) level = (b \<and> level = Suc ?l)" if "?l < level" for b level
      using that by (simp add: controlled_def)
    have known: "\<forall>level. 0 < level \<longrightarrow> controlled ((?l, b) # past) level = (level \<le> (if b then Suc ?l else ?l))"
      if "?l \<le> cont_level" for b
    proof (intro allI impI)
      fix level :: nat
      assume "0 < level"
      then show "controlled ((?l, b) # past) level = (level \<le> (if b then Suc ?l else ?l))"
        using that lower [of level b] upper [of level b] by (cases "level \<le> ?l") auto
    qed
    have unknown: "\<forall>level. 0 < level \<longrightarrow> controlled ((?l, False) # past) level = (level \<le> cont_level)"
      if "\<not> ?l \<le> cont_level" for level
      using that lower upper by (metis le_trans nat_le_linear not_le)
    have here: "controlled past ?l = (?l \<le> cont_level)" using Cons.prems False by simp
    show ?thesis
      using False here Cons.IH [OF known [of True]] Cons.IH [OF known [of False]] Cons.IH [OF unknown]
      by (auto simp: Let_def split: option.splits prod.splits)
  qed simp
qed simp

text \<open>C6: the one counter of \<open>match\<close> decides which continuations are tested exactly as the tree
  of the entries does: each one under the nearest entry before it with a smaller level.\<close>

theorem match_conts_tree:
  "match_conts E s n ms 1 need k = conts_ref E s n ms [(0, True)] need k"
  by (rule match_conts_ref) (auto simp: controlled_def)

end
