(* ===== verification/MagicAscii.thy ===== *)
theory MagicAscii
  imports MagicBase Complex_Main
begin

section \<open>Text files and tar archives\<close>

text \<open>
  \<open>ascmagic\<close>, \<open>is_tar\<close> and \<open>from_oct\<close> of \<open>kfm/kmimemagic.cpp\<close>. The weights and percentages are
  rational numbers where the code has \<open>double\<close>. The array \<open>nbuf\<close> has \<open>HOWMANY + 1\<close> bytes; a write
  behind it is undefined behaviour, and the result is then \<open>None\<close>.
\<close>

subsection \<open>Tar archives\<close>

definition RECORDSIZE :: nat where "RECORDSIZE = 512"
definition TMAGIC :: string where "TMAGIC = ''ustar  ''"

text \<open>The offsets of the fields \<open>chksum\<close> and \<open>magic\<close> of the header, and the length of the first.\<close>

definition chksum_at :: nat where "chksum_at = 148"
definition chksum_len :: nat where "chksum_len = 8"
definition magic_at :: nat where "magic_at = 257"

fun from_oct_skip :: "nat \<Rightarrow> string \<Rightarrow> (nat \<times> string) option" where
  "from_oct_skip digs [] = Some (digs, [])"
| "from_oct_skip digs (c # s) =
     (if isspace c then (if digs \<le> 1 then None else from_oct_skip (digs - 1) s) else Some (digs, c # s))"

fun from_oct_scan :: "nat \<Rightarrow> int \<Rightarrow> string \<Rightarrow> nat \<times> int \<times> string" where
  "from_oct_scan 0 value s = (0, value, s)"
| "from_oct_scan (Suc digs) value s =
     (if isodigit (at0 s) then from_oct_scan digs (8 * value + (int (code (at0 s)) - 48)) (tl s)
      else (Suc digs, value, s))"

definition from_oct :: "nat \<Rightarrow> string \<Rightarrow> int" where
  "from_oct digs s = (case from_oct_skip digs s of None \<Rightarrow> -1
     | Some (digs1, s1) \<Rightarrow>
         (case from_oct_scan digs1 0 s1 of (digs2, value, s2) \<Rightarrow>
           if digs2 > 0 \<and> at0 s2 \<noteq> NUL \<and> \<not> isspace (at0 s2) then -1 else value))"

definition is_tar :: "string \<Rightarrow> nat \<Rightarrow> nat" where
  "is_tar buf nbytes =
     (if nbytes < RECORDSIZE then 0
      else
        let recsum = from_oct chksum_len (drop chksum_at buf);
            sum = sum_list (map (\<lambda>c. int (code c)) (take RECORDSIZE buf));
            sum = sum - sum_list (map (\<lambda>c. int (code c)) (take chksum_len (drop chksum_at buf)));
            sum = sum + int (code SP) * int chksum_len
        in if sum \<noteq> recsum then 0
           else if strcmp_eq (drop magic_at buf) TMAGIC then 2
           else 1)"

subsection \<open>Known words in the text\<close>

definition strtok_delim :: "char \<Rightarrow> bool" where
  "strtok_delim c \<longleftrightarrow> c \<in> {SP, TAB, LF, CR, char_of (12::nat), CHR '','', CHR '';''}"

text \<open>The tokens that repeated calls of \<open>strtok\<close> yield.\<close>

function strtok_all :: "string \<Rightarrow> string list" where
  "strtok_all s = (let t = dropWhile strtok_delim s
     in if t = [] then [] else takeWhile (\<lambda>c. \<not> strtok_delim c) t
          # strtok_all (dropWhile (\<lambda>c. \<not> strtok_delim c) t))"
  by pat_completeness auto
termination
proof (relation "measure length", goal_cases)
  case (2 s t)
  from 2 have "t \<noteq> []" by simp
  then obtain c r where t: "t = c # r" by (metis list.exhaust)
  with 2 have "\<not> strtok_delim c" by (metis hd_dropWhile list.sel(1))
  then have "length (dropWhile (\<lambda>c. \<not> strtok_delim c) t) < length t"
    using t by (simp add: le_imp_less_Suc length_dropWhile)
  also have "length t \<le> length s" using 2 by (simp add: length_dropWhile)
  finally show ?case by simp
qed simp

declare strtok_all.simps [simp del]

record ascii_counts =
  typecount :: "nat list"
  typeset :: "16 word"
  jonly :: nat
  conly :: nat
  jconly :: nat
  cppcomm :: nat
  ccomm :: nat
  tokencount :: nat

definition no_counts :: ascii_counts where
  "no_counts = \<lparr>typecount = replicate NTYPES 0, typeset = 0, jonly = 0, conly = 0, jconly = 0,
     cppcomm = 0, ccomm = 0, tokencount = 0\<rparr>"

abbreviation (input) "L_ANYC \<equiv> L_C OR L_CPP OR L_JAVA"

text \<open>One comparison of a token with an entry of the table.\<close>

definition count_name :: "string \<Rightarrow> ascii_counts \<Rightarrow> string \<times> 16 word \<Rightarrow> ascii_counts" where
  "count_name token n p =
     (if fst p = token then
        \<lparr>typecount = map (\<lambda>i. typecount n ! i + (if push_bit i 1 AND snd p \<noteq> 0 then 1 else 0)) [0..<NTYPES],
         typeset = typeset n OR snd p,
         jonly = jonly n + (if snd p = L_JAVA then 1 else 0),
         conly = conly n + (if snd p AND L_ANYC = L_C OR L_CPP then 1 else 0),
         jconly = jconly n + (if snd p AND L_ANYC = L_CPP OR L_JAVA then 1 else 0),
         cppcomm = cppcomm n + (if token = ''//'' then 1 else 0),
         ccomm = ccomm n + (if token = ''/*'' then 1 else 0),
         tokencount = tokencount n + 1\<rparr>
      else n)"

definition count_tokens :: "(string \<times> 16 word) list \<Rightarrow> string list \<Rightarrow> ascii_counts" where
  "count_tokens table tokens = foldl (\<lambda>n token. foldl (count_name token) n table) no_counts tokens"

definition pct_of :: "ascii_counts \<Rightarrow> nat \<Rightarrow> rat" where
  "pct_of n i = of_nat (typecount n ! i) / of_nat (kwords (types ! i)) * (of_nat (weight10 (types ! i)) / 10)"

text \<open>The loop for the best type: \<open>mostaccurate\<close>, \<open>maxpct\<close> and \<open>pctsum\<close>.\<close>

fun best_type :: "ascii_counts \<Rightarrow> nat list \<Rightarrow> nat option \<Rightarrow> rat \<Rightarrow> rat \<Rightarrow> nat option \<times> rat" where
  "best_type n [] best maxpct pctsum = (best, pctsum)"
| "best_type n (i # is) best maxpct pctsum =
     (if typecount n ! i \<noteq> 0 then
        (let pct = pct_of n i
         in if pct > maxpct then best_type n is (Some i) pct (pctsum + pct)
            else best_type n is best maxpct (pctsum + pct))
      else best_type n is best maxpct pctsum)"

definition found :: "string \<Rightarrow> int \<Rightarrow> KMimeMagic \<Rightarrow> KMimeMagic" where
  "found t acc k = k\<lparr>resultBuf := resultBuf k @ t, accuracy := acc\<rparr>"

text \<open>The choice between C, C++ and Java; the type and the accuracy, or the accuracy alone.\<close>

definition c_family :: "ascii_counts \<Rightarrow> nat option \<times> int" where
  "c_family n =
     (if typeset n AND L_ANYC \<noteq> 0 then
        if typeset n AND NOT L_ANYC = 0 then
          (let acc = (if jonly n \<noteq> 0 \<and> conly n \<noteq> 0 then 0 else 40)
           in if jonly n \<noteq> 0 then (Some P_JAVA, acc)
              else if jconly n \<noteq> 0 then
                (Some (if typecount n ! P_JAVA > typecount n ! P_CPP then P_JAVA else P_CPP), acc)
              else if conly n \<noteq> 0 then (Some (if cppcomm n \<noteq> 0 then P_CPP else P_C), acc)
              else if ccomm n \<noteq> 0 then (Some P_C, acc)
              else (None, acc))
        else (None, 40)
      else (None, 70))"

definition troff_like :: "string \<Rightarrow> bool" where
  "troff_like buf \<longleftrightarrow> at0 buf = CHR ''.'' \<and>
     (let tp = dropWhile (\<lambda>c. isascii c \<and> isspace c) (tl buf)
      in isascii (at0 tp) \<and> (isalnum (at0 tp) \<or> at0 tp = BSL) \<and>
         isascii (at0 (tl tp)) \<and> (isalnum (at0 (tl tp)) \<or> at0 tp = DQ))"

definition fortran_like :: "string \<Rightarrow> bool" where
  "fortran_like buf \<longleftrightarrow> (at0 buf = CHR ''c'' \<or> at0 buf = CHR ''C'') \<and>
     isascii (at0 (tl buf)) \<and> isspace (at0 (tl buf))"

definition ascii_guess :: "ascii_counts \<Rightarrow> string \<Rightarrow> nat \<Rightarrow> KMimeMagic \<Rightarrow> bool \<times> KMimeMagic" where
  "ascii_guess n buf nbytes k = (case c_family n of
       (Some i, acc) \<Rightarrow> (True, found (at_type (types ! i)) acc k)
     | (None, acc) \<Rightarrow>
         (case best_type n [0..<NTYPES] None 0 0 of
            (Some i, pctsum) \<Rightarrow> (True, found (at_type (types ! i)) \<lfloor>pct_of n i / pctsum * 60\<rfloor> k)
          | (None, pctsum) \<Rightarrow>
              (if is_tar buf nbytes \<noteq> 0 then (True, found MIME_APPL_TAR 90 k)
               else if \<not> list_all isascii (take nbytes buf) then (False, k\<lparr>accuracy := acc\<rparr>)
               else (True, found MIME_TEXT_UNKNOWN 90 k))))"

definition ascmagic :: "string \<Rightarrow> nat \<Rightarrow> KMimeMagic \<Rightarrow> (bool \<times> KMimeMagic) option" where
  "ascmagic buf nbytes k =
     (let k = k\<lparr>accuracy := 70\<rparr>
      in if troff_like buf then Some (True, found MIME_APPL_TROFF 70 k)
         else if fortran_like buf then Some (True, found MIME_TEXT_FORTRAN 70 k)
         else if \<not> (nbytes \<le> length buf \<and> nbytes < HOWMANY + 1) then None
         else Some (ascii_guess (count_tokens names (strtok_all (cstr (take nbytes buf)))) buf nbytes k))"

subsection \<open>Tar headers are recognised by their checksum\<close>

text \<open>The header with blanks in its field \<open>chksum\<close>, and its checksum.\<close>

definition blanked :: "string \<Rightarrow> string" where
  "blanked h = take chksum_at h @ replicate chksum_len SP @ drop (chksum_at + chksum_len) h"

definition checksum :: "string \<Rightarrow> nat" where
  "checksum h = sum_list (map code (blanked h))"

fun oct_of_nat :: "nat \<Rightarrow> string" where
  "oct_of_nat n = (if n < 8 then [digit_char n] else oct_of_nat (n div 8) @ [digit_char (n mod 8)])"

declare oct_of_nat.simps [simp del]

lemma isodigit_digit: "d < 8 \<Longrightarrow> isodigit (digit_char d) \<and> code (digit_char d) = d + 48"
  by (simp add: isodigit_def digit_char_def less_eq_char_def code_def)

lemma oct_digits: "list_all isodigit (oct_of_nat n)"
proof (induction n rule: oct_of_nat.induct)
  case (1 n)
  then show ?case by (subst oct_of_nat.simps) (simp add: isodigit_digit)
qed

lemma oct_nonempty [simp]: "oct_of_nat n \<noteq> []"
  by (subst oct_of_nat.simps) simp

lemma oct_length: "n < 8 ^ k \<Longrightarrow> 0 < k \<Longrightarrow> length (oct_of_nat n) \<le> k"
proof (induction n arbitrary: k rule: oct_of_nat.induct)
  case (1 n)
  show ?case
  proof (cases "n < 8")
    case True
    then show ?thesis using "1.prems" by (subst oct_of_nat.simps) simp
  next
    case False
    with "1.prems" obtain j where k: "k = Suc j" "0 < j" by (cases k; cases "k - 1") auto
    then have "n div 8 < 8 ^ j" using "1.prems" by (simp add: less_mult_imp_div_less mult.commute)
    with "1.IH" [OF False, of j] False k show ?thesis by (subst oct_of_nat.simps) simp
  qed
qed

definition oct_value :: "int \<Rightarrow> string \<Rightarrow> int" where
  "oct_value v ds = foldl (\<lambda>a c. 8 * a + (int (code c) - 48)) v ds"

lemma oct_value_of_nat: "oct_value 0 (oct_of_nat n) = int n"
proof (induction n rule: oct_of_nat.induct)
  case (1 n)
  show ?case
  proof (cases "n < 8")
    case True
    then show ?thesis by (subst oct_of_nat.simps) (simp add: oct_value_def isodigit_digit)
  next
    case False
    have "int n = 8 * int (n div 8) + int (n mod 8)" by presburger
    with False 1 show ?thesis
      by (subst oct_of_nat.simps) (simp add: oct_value_def isodigit_digit)
  qed
qed

lemma from_oct_scan_digits:
  assumes "list_all isodigit ds" "length ds < digs" "\<not> isodigit (at0 r)"
  shows "from_oct_scan digs v (ds @ r) = (digs - length ds, oct_value v ds, r)"
  using assms
proof (induction ds arbitrary: digs v)
  case Nil
  then show ?case by (cases digs) (simp_all add: oct_value_def)
next
  case (Cons d ds)
  then show ?case by (cases digs) (simp_all add: oct_value_def)
qed

lemma from_oct_skip_blanks:
  "k < digs \<Longrightarrow> s \<noteq> [] \<Longrightarrow> \<not> isspace (hd s) \<Longrightarrow> from_oct_skip digs (replicate k SP @ s) = Some (digs - k, s)"
proof (induction k arbitrary: digs)
  case 0
  then show ?case by (cases s) simp_all
qed (simp add: char_eval)

lemma from_oct_field:
  assumes "n < 8 ^ 6"
  shows "from_oct 8 (pad_left 6 (oct_of_nat n) @ [NUL, SP] @ r) = int n"
proof -
  let ?ds = "oct_of_nat n"
  have len: "length ?ds \<le> 6" using oct_length [OF assms] by simp
  have "isodigit (hd ?ds)" using oct_digits [of n] hd_in_set [of ?ds] by (simp add: list_all_iff)
  then have "\<not> isspace (hd ?ds)" by (auto simp: isodigit_def isspace_def less_eq_char_def code_def)
  then have "from_oct_skip 8 (replicate (6 - length ?ds) SP @ ?ds @ [NUL, SP] @ r)
      = Some (2 + length ?ds, ?ds @ [NUL, SP] @ r)"
    using len by (subst from_oct_skip_blanks) simp_all
  moreover have "from_oct_scan (2 + length ?ds) 0 (?ds @ [NUL, SP] @ r) = (2, int n, [NUL, SP] @ r)"
    using oct_digits by (subst from_oct_scan_digits) (simp_all add: oct_value_of_nat isodigit_def less_eq_char_def)
  ultimately show ?thesis by (simp add: from_oct_def pad_left_def)
qed

lemma sum_blanked:
  assumes "RECORDSIZE \<le> length buf"
  shows "int (checksum (take RECORDSIZE buf)) =
    sum_list (map (\<lambda>c. int (code c)) (take RECORDSIZE buf))
    - sum_list (map (\<lambda>c. int (code c)) (take chksum_len (drop chksum_at buf))) + int (code SP) * int chksum_len"
proof -
  have split: "take RECORDSIZE buf = take chksum_at buf @ take chksum_len (drop chksum_at buf)
      @ drop (chksum_at + chksum_len) (take RECORDSIZE buf)"
  proof -
    have "take RECORDSIZE buf = take (chksum_at + chksum_len) (take RECORDSIZE buf) @ drop (chksum_at + chksum_len) (take RECORDSIZE buf)"
      by (rule append_take_drop_id [symmetric])
    moreover have "take (chksum_at + chksum_len) (take RECORDSIZE buf) = take chksum_at buf @ take chksum_len (drop chksum_at buf)"
      using take_add [of chksum_at chksum_len buf] by (simp add: RECORDSIZE_def chksum_at_def chksum_len_def)
    ultimately show ?thesis by simp
  qed
  have sum: "int (sum_list (map code l)) = sum_list (map (\<lambda>c. int (code c)) l)" for l
    by (induction l) simp_all
  show ?thesis
    unfolding checksum_def sum blanked_def
    by (subst (2) split) (simp add: RECORDSIZE_def chksum_at_def chksum_len_def sum_list_replicate)
qed

text \<open>\<open>is_tar\<close> accepts a block exactly if the number in its checksum field is the sum of
  its 512 bytes, the checksum field counted as blanks.\<close>

theorem is_tar_checksum:
  assumes "nbytes \<le> length buf"
  shows "is_tar buf nbytes \<noteq> 0 \<longleftrightarrow> RECORDSIZE \<le> nbytes
    \<and> from_oct chksum_len (drop chksum_at buf) = int (checksum (take RECORDSIZE buf))"
  using assms sum_blanked [of buf] by (auto simp: is_tar_def Let_def)

text \<open>a header as \<open>tar\<close> writes it, with the checksum in octal, is recognised, and as POSIX
  or V7 by its magic field.\<close>

theorem is_tar_recognises:
  assumes "length pre = 148" "length post = 356"
  shows "is_tar (pre @ pad_left 6 (oct_of_nat (checksum (pre @ replicate 8 SP @ post))) @ [NUL, SP] @ post) 512
    = (if strcmp_eq (drop 101 post) TMAGIC then 2 else 1)"
proof -
  define c where "c = checksum (pre @ replicate 8 SP @ post)"
  define h where "h = pre @ pad_left 6 (oct_of_nat c) @ [NUL, SP] @ post"
  have "sum_list (map code l) \<le> 255 * length l" for l
  proof (induction l)
    case (Cons x l)
    have "code x < 256" by (rule code_lt)
    with Cons show ?case by (simp del: code_lt)
  qed simp
  from this [of "blanked (pre @ replicate 8 SP @ post)"] have c: "c < 8 ^ 6"
    using assms by (simp add: c_def checksum_def blanked_def chksum_at_def chksum_len_def)
  then have "length (oct_of_nat c) \<le> 6" by (rule oct_length) simp
  then have len: "length (pad_left 6 (oct_of_nat c)) = 6" by (simp add: pad_left_def)
  then have "length h = 512" "drop 148 h = pad_left 6 (oct_of_nat c) @ [NUL, SP] @ post" "drop 257 h = drop 101 post"
    using assms by (simp_all add: h_def)
  moreover have "blanked h = blanked (pre @ replicate 8 SP @ post)"
    using assms len by (simp add: blanked_def h_def chksum_at_def chksum_len_def)
  ultimately have "int (checksum h) = from_oct 8 (drop 148 h)" "length h = 512" "drop 257 h = drop 101 post"
    using from_oct_field [OF c, of post] by (simp_all add: c_def checksum_def)
  then show ?thesis
    using sum_blanked [of h] unfolding h_def [symmetric, unfolded c_def]
    by (simp add: is_tar_def Let_def RECORDSIZE_def chksum_at_def chksum_len_def magic_at_def)
qed


theorem is_tar_checksum_witness:
  "is_tar (replicate 512 CHR ''a'') 512 \<noteq> 0 \<longleftrightarrow>
     from_oct chksum_len (drop chksum_at (replicate 512 CHR ''a'')) = int (checksum (take RECORDSIZE (replicate 512 CHR ''a'')))"
  using is_tar_checksum [of 512 "replicate 512 CHR ''a''"] by (simp add: RECORDSIZE_def)

theorem is_tar_recognises_witness:
  "is_tar (replicate 148 CHR ''a'' @ pad_left 6 (oct_of_nat (checksum (replicate 148 CHR ''a'' @ replicate 8 SP @ replicate 356 NUL)))
     @ [NUL, SP] @ replicate 356 NUL) 512 = 1"
  using is_tar_recognises [of "replicate 148 CHR ''a''" "replicate 356 NUL"]
  by (simp add: strcmp_eq_def TMAGIC_def cstr_def numeral_eq_Suc)

subsection \<open>What \<open>ascmagic\<close> answers\<close>










lemma ascmagic_defined: "nbytes \<le> HOWMANY \<Longrightarrow> nbytes \<le> length buf \<Longrightarrow> \<exists>r. ascmagic buf nbytes k = Some r"
  by (simp add: ascmagic_def Let_def del: split_paired_Ex)



lemma strtok_all_delim: "t \<in> set (strtok_all s) \<Longrightarrow> c \<in> set t \<Longrightarrow> \<not> strtok_delim c"
proof (induction s rule: strtok_all.induct)
  case (1 s)
  let ?t = "dropWhile strtok_delim s"
  show ?case
  proof (cases "?t = []")
    case True
    with "1.prems"(1) show ?thesis by (subst (asm) strtok_all.simps) simp
  next
    case False
    with "1.prems"(1) have "t = takeWhile (\<lambda>c. \<not> strtok_delim c) ?t
        \<or> t \<in> set (strtok_all (dropWhile (\<lambda>c. \<not> strtok_delim c) ?t))"
      by (subst (asm) strtok_all.simps) (auto simp: Let_def split: if_splits)
    with "1.IH" [OF refl False] "1.prems"(2) show ?thesis by (auto dest: set_takeWhileD)
  qed
qed


lemma count_name_skip: "fst p \<noteq> token \<Longrightarrow> count_name token n p = n"
  by (simp add: count_name_def)

lemma count_token_filter:
  "w \<noteq> token \<Longrightarrow> foldl (count_name token) n table = foldl (count_name token) n (filter (\<lambda>p. fst p \<noteq> w) table)"
  by (induction table arbitrary: n) (auto simp: count_name_skip)

text \<open>one word of the table can never be counted: \<open><!DOCTYPE HTML\<close> has a blank, and the
  tokens have none. The table without it gives the same counts for every text.\<close>

theorem doctype_never_counted:
  "count_tokens names (strtok_all s) = count_tokens (filter (\<lambda>p. fst p \<noteq> ''<!DOCTYPE HTML'') names) (strtok_all s)"
proof -
  have "''<!DOCTYPE HTML'' \<noteq> t" if "t \<in> set (strtok_all s)" for t
    using strtok_all_delim [OF that, of SP] by (auto simp: strtok_delim_def)
  then have "foldl (\<lambda>n token. foldl (count_name token) n names) n ts
      = foldl (\<lambda>n token. foldl (count_name token) n (filter (\<lambda>p. fst p \<noteq> ''<!DOCTYPE HTML'') names)) n ts"
    if "set ts \<subseteq> set (strtok_all s)" for n ts
    using that
  proof (induction ts arbitrary: n)
    case (Cons t ts)
    then have "foldl (count_name t) n names = foldl (count_name t) n (filter (\<lambda>p. fst p \<noteq> ''<!DOCTYPE HTML'') names)" for n
      by (intro count_token_filter) auto
    with Cons show ?case by simp
  qed simp
  then show ?thesis by (simp add: count_tokens_def)
qed

text \<open>data that is ASCII without a known word, and neither troff, Fortran nor a tar archive,
  is plain text, with accuracy 90.\<close>

theorem ascmagic_plain:
  assumes "nbytes \<le> HOWMANY" "nbytes \<le> length buf" "\<not> troff_like buf" "\<not> fortran_like buf"
    and "set (strtok_all (cstr (take nbytes buf))) \<inter> fst ` set names = {}"
    and "is_tar buf nbytes = 0" "list_all isascii (take nbytes buf)"
  shows "ascmagic buf nbytes k = Some (True, k\<lparr>resultBuf := resultBuf k @ MIME_TEXT_UNKNOWN, accuracy := 90\<rparr>)"
proof -
  have skip: "foldl (count_name t) n table = n" if "t \<notin> fst ` set table" for t n table
    using that by (induction table arbitrary: n) (auto simp: count_name_skip)
  have "foldl (\<lambda>n token. foldl (count_name token) n names) n ts = n"
    if "set ts \<subseteq> set (strtok_all (cstr (take nbytes buf)))" for n ts
    using that
  proof (induction ts arbitrary: n)
    case (Cons t ts)
    with assms(5) have "t \<notin> fst ` set names" by auto
    with Cons skip show ?case by simp
  qed simp
  then have counts: "count_tokens names (strtok_all (cstr (take nbytes buf))) = no_counts"
    by (simp add: count_tokens_def)
  have best: "best_type no_counts is b m s = (b, s)" if "set is \<subseteq> {..<NTYPES}" for "is" b m s
    using that by (induction "is") (auto simp: no_counts_def)
  have "best_type no_counts [0..<NTYPES] None 0 0 = (None, 0)" by (rule best) auto
  moreover have "c_family no_counts = (None, 70)" by (simp add: c_family_def no_counts_def)
  ultimately have "ascii_guess no_counts buf nbytes k' = (True, found MIME_TEXT_UNKNOWN 90 k')" for k'
    using assms(6,7) by (simp add: ascii_guess_def)
  then show ?thesis
    using assms(1-4) by (simp add: ascmagic_def Let_def counts found_def)
qed

theorem ascmagic_plain_witness:
  "ascmagic (''plain'' @ [NUL]) 5 sample_magic = Some (True, sample_magic\<lparr>resultBuf := ''text/plain'', accuracy := 90\<rparr>)"
proof -
  have tok: "strtok_all ''plain'' = [''plain'']"
    by (subst strtok_all.simps; subst strtok_all.simps) (simp add: strtok_delim_def char_eval)
  have "''plain'' \<notin> fst ` set names" by (simp add: names_def names_code_def names_more_def)
  then show ?thesis
    using ascmagic_plain [of 5 "''plain'' @ [NUL]" sample_magic] tok
    by (simp add: sample_magic_def HOWMANY_def troff_like_def fortran_like_def is_tar_def RECORDSIZE_def char_eval MIME_TEXT_UNKNOWN_def)
qed

end
