(* ===== verification/MagicFind.thy ===== *)
theory MagicFind
  imports MagicParse MagicMatch MagicAscii
begin

section \<open>The type of a buffer or a file\<close>

text \<open>
  The object \<open>KMimeMagic\<close> of \<open>kfm/kmimemagic.cpp\<close>: \<open>finishResult\<close>, \<open>process\<close>, \<open>tryit\<close>,
  \<open>fsmagic\<close>, \<open>findBufferType\<close>, \<open>findFileType\<close> and the merging of configurations. The file
  system is a parameter. \<open>process\<close> calls itself along symbolic links; its first argument bounds
  their number. \<open>None\<close> is undefined behaviour, or links beyond the bound.
\<close>

subsection \<open>\<open>finishResult\<close>\<close>

datatype rsl_states = rsl_leading_space | rsl_type | rsl_subtype | rsl_separator | rsl_encoding

record rsl =
  rsl_state :: rsl_states
  type_pos :: nat
  type_len :: nat
  encoding_pos :: nat
  encoding_len :: nat

text \<open>The loop; \<open>None\<close> is its early return of \<open>DECLINED\<close>.\<close>

fun finish_loop :: "nat \<Rightarrow> string \<Rightarrow> rsl \<Rightarrow> rsl option" where
  "finish_loop cur_pos [] r = Some r"
| "finish_loop cur_pos (c # s) r =
     (if isspace c then
        (case rsl_state r of
           rsl_leading_space \<Rightarrow> finish_loop (Suc cur_pos) s r
         | rsl_type \<Rightarrow> None
         | rsl_subtype \<Rightarrow> finish_loop (Suc cur_pos) s (r\<lparr>rsl_state := rsl_separator\<rparr>)
         | rsl_separator \<Rightarrow> finish_loop (Suc cur_pos) s r
         | rsl_encoding \<Rightarrow> Some r)
      else if rsl_state r = rsl_type \<and> c = CHR ''/'' then
        finish_loop (Suc cur_pos) s (r\<lparr>type_len := Suc (type_len r), rsl_state := rsl_subtype\<rparr>)
      else
        (case rsl_state r of
           rsl_leading_space \<Rightarrow>
             finish_loop (Suc cur_pos) s (r\<lparr>rsl_state := rsl_type, type_pos := cur_pos, type_len := 1\<rparr>)
         | rsl_separator \<Rightarrow>
             finish_loop (Suc cur_pos) s (r\<lparr>rsl_state := rsl_encoding, encoding_pos := cur_pos, encoding_len := 1\<rparr>)
         | rsl_encoding \<Rightarrow> finish_loop (Suc cur_pos) s (r\<lparr>encoding_len := Suc (encoding_len r)\<rparr>)
         | _ \<Rightarrow> finish_loop (Suc cur_pos) s (r\<lparr>type_len := Suc (type_len r)\<rparr>)))"

definition mid_str :: "nat \<Rightarrow> nat \<Rightarrow> string \<Rightarrow> string" where
  "mid_str i n s = take n (drop i s)"

definition finishResult :: "KMimeMagic \<Rightarrow> int \<times> KMimeMagic" where
  "finishResult k =
     (case finish_loop 0 (resultBuf k) \<lparr>rsl_state = rsl_leading_space, type_pos = 0, type_len = 0,
          encoding_pos = 0, encoding_len = 0\<rparr> of
        None \<Rightarrow> (DECLINED, k)
      | Some r \<Rightarrow>
          (if rsl_state r \<notin> {rsl_subtype, rsl_separator, rsl_encoding} then (DECLINED, k)
           else
             let m1 = (magicResult k)\<lparr>Content := mid_str (type_pos r) (type_len r) (resultBuf k)\<rparr>;
                 m2 = (if rsl_state r = rsl_encoding
                       then m1\<lparr>Encoding := mid_str (encoding_pos r) (encoding_len r) (resultBuf k)\<rparr> else m1);
                 k' = k\<lparr>magicResult := m2\<rparr>
             in (if Content m2 = [] \<or> rsl_state r = rsl_encoding \<and> Encoding m2 = [] then -1 else 0, k')))"

subsection \<open>Buffers and files\<close>

definition add_result :: "string \<Rightarrow> KMimeMagic \<Rightarrow> KMimeMagic" where
  "add_result t k = k\<lparr>resultBuf := resultBuf k @ t\<rparr>"

definition tryit :: "magic_env \<Rightarrow> string \<Rightarrow> nat \<Rightarrow> KMimeMagic \<Rightarrow> KMimeMagic option" where
  "tryit E buf nb k = (case softmagic E buf (int nb) k of None \<Rightarrow> None
     | Some (found1, k1) \<Rightarrow>
         (if found1 then Some k1
          else case ascmagic buf nb k1 of None \<Rightarrow> None
               | Some (found2, k2) \<Rightarrow>
                   Some (if found2 then k2 else (add_result MIME_BINARY_UNKNOWN k2)\<lparr>accuracy := 0\<rparr>)))"

text \<open>What the calls of the system say about a path.\<close>

datatype file_kind = S_IFDIR | S_IFCHR | S_IFBLK | S_IFIFO | S_IFLNK | S_IFSOCK | S_IFREG | S_IFOTHER

record file_system =
  fs_lstat :: "string \<rightharpoonup> file_kind \<times> nat"
  fs_stat_ok :: "string \<Rightarrow> bool"
  fs_readlink :: "string \<rightharpoonup> string"
  fs_open :: "string \<Rightarrow> bool"
  fs_read :: "string \<rightharpoonup> string"

text \<open>The path that a link stands for: a relative one is taken from the directory of the link.\<close>

definition link_path :: "string \<Rightarrow> string \<Rightarrow> string" where
  "link_path fn target =
     (if at0 target = CHR ''/'' then target
      else case find_rev ''/'' fn of None \<Rightarrow> target | Some i \<Rightarrow> take (Suc i) fn @ target)"

text \<open>The branches of \<open>fsmagic\<close>: a result, a link to follow, or \<open>None\<close> to go on with the contents.\<close>

datatype fs_answer = Fs_done string | Fs_follow string

definition fsmagic :: "file_system \<Rightarrow> string \<Rightarrow> bool \<Rightarrow> int \<Rightarrow> fs_answer option \<times> int" where
  "fsmagic fs fn follow acc =
     (let regular = (\<lambda>len. if len = (0::nat) then Some (Fs_done MIME_BINARY_ZEROSIZE) else None)
      in case fs_lstat fs fn of
        None \<Rightarrow> (Some (Fs_done []), acc)
      | Some (kind, len) \<Rightarrow>
          (case kind of
             S_IFDIR \<Rightarrow> (Some (Fs_done ''inode/directory''), acc)
           | S_IFCHR \<Rightarrow> (Some (Fs_done ''inode/chardevice''), acc)
           | S_IFBLK \<Rightarrow> (Some (Fs_done ''inode/blockdevice''), acc)
           | S_IFIFO \<Rightarrow> (Some (Fs_done ''inode/fifo''), acc)
           | S_IFSOCK \<Rightarrow> (Some (Fs_done ''inode/socket''), acc)
           | S_IFREG \<Rightarrow> (regular len, acc)
           | S_IFOTHER \<Rightarrow> (regular len, 0)
           | S_IFLNK \<Rightarrow>
               (case fs_readlink fs fn of
                  None \<Rightarrow> (Some (Fs_done (''inode/link'' @ [LF] @ ''unreadable'')), acc)
                | Some target \<Rightarrow>
                    (if target = [] then (Some (Fs_done (''inode/link'' @ [LF] @ ''unreadable'')), acc)
                     else if \<not> fs_stat_ok fs (link_path fn target)
                     then (Some (Fs_done (''inode/link'' @ [LF] @ ''broken'')), acc)
                     else if follow then (Some (Fs_follow (link_path fn target)), acc)
                     else (Some (Fs_done ''inode/link''), acc)))))"

fun process :: "nat \<Rightarrow> magic_env \<Rightarrow> file_system \<Rightarrow> string \<Rightarrow> string \<Rightarrow> KMimeMagic \<Rightarrow> KMimeMagic option" where
  "process 0 E fs buf0 fn k = None"
| "process (Suc links) E fs buf0 fn k = (case fsmagic fs fn (followLinks k) (accuracy k) of
       (Some (Fs_done t), acc) \<Rightarrow> Some (add_result [LF] (add_result t (k\<lparr>accuracy := acc\<rparr>)))
     | (Some (Fs_follow fn'), acc) \<Rightarrow>
         map_option (add_result [LF]) (process links E fs buf0 fn' (k\<lparr>accuracy := acc\<rparr>))
     | (None, acc) \<Rightarrow>
         (if \<not> fs_open fs fn then Some (add_result MIME_BINARY_UNREADABLE (k\<lparr>accuracy := 0\<rparr>))
          else case fs_read fs fn of
                 None \<Rightarrow> Some (add_result MIME_BINARY_UNREADABLE (k\<lparr>accuracy := 0\<rparr>))
               | Some data \<Rightarrow>
                   (let nbytes = min HOWMANY (length data)
                    in if nbytes = 0 then Some (add_result [LF] (add_result MIME_BINARY_ZEROSIZE (k\<lparr>accuracy := acc\<rparr>)))
                       else map_option (add_result [LF])
                              (tryit E (store (take nbytes data) buf0) nbytes (k\<lparr>accuracy := acc\<rparr>)))))"

text \<open>\<open>resultBuf\<close>, the result and \<open>accuracy\<close> at the start of a request, and its end.\<close>

definition start_request :: "KMimeMagic \<Rightarrow> KMimeMagic" where
  "start_request k = k\<lparr>resultBuf := [], magicResult := (magicResult k)\<lparr>Content := [], Encoding := []\<rparr>, accuracy := 100\<rparr>"

definition end_request :: "KMimeMagic \<Rightarrow> KMimeMagic" where
  "end_request k = (let k' = snd (finishResult k) in k'\<lparr>magicResult := (magicResult k')\<lparr>Accuracy := accuracy k'\<rparr>\<rparr>)"

definition findBufferType :: "magic_env \<Rightarrow> string \<Rightarrow> string \<Rightarrow> nat \<Rightarrow> KMimeMagic \<Rightarrow> KMimeMagic option" where
  "findBufferType E buf0 buffer nbytes0 k =
     (let k1 = start_request k; nbytes = min HOWMANY nbytes0
      in if length buffer < nbytes then None
         else if nbytes = 0 then Some (end_request (add_result [LF] (add_result MIME_BINARY_ZEROSIZE k1)))
         else map_option (\<lambda>k2. end_request (add_result [LF] k2))
                (tryit E (store (take nbytes buffer) buf0) (Suc nbytes) k1))"

definition refineResult :: "string \<Rightarrow> KMimeMagicResult \<Rightarrow> KMimeMagicResult" where
  "refineResult filename r =
     (if Content r = [] then r
      else if Content r = ''text/x-c'' \<or> Content r = ''text/x-c++'' then
        r\<lparr>Content := Content r @ (if right_str 2 filename = ''.h'' then ''hdr'' else ''src'')\<rparr>
      else r)"

definition refine :: "string \<Rightarrow> KMimeMagic \<Rightarrow> KMimeMagic" where
  "refine filename k = k\<lparr>magicResult := refineResult filename (magicResult k)\<rparr>"

definition findBufferFileType :: "magic_env \<Rightarrow> string \<Rightarrow> string \<Rightarrow> nat \<Rightarrow> string \<Rightarrow> KMimeMagic \<Rightarrow> KMimeMagic option" where
  "findBufferFileType E buf0 buffer nbytes fn k = map_option (refine fn) (findBufferType E buf0 buffer nbytes k)"

text \<open>\<open>newfn.findRev(QRegExp("@[0-9]*$"))\<close>.\<close>

definition revision_pos :: "string \<Rightarrow> nat option" where
  "revision_pos fn =
     (let digits = takeWhile isdigit (rev fn)
      in case drop (length digits) (rev fn) of
           [] \<Rightarrow> None
         | c # rest \<Rightarrow> (if c = CHR ''@'' then Some (length rest) else None))"

lemma revision_pos_less: "revision_pos fn = Some i \<Longrightarrow> i < length fn"
proof -
  assume r: "revision_pos fn = Some i"
  then obtain rest where d: "drop (length (takeWhile isdigit (rev fn))) (rev fn) = CHR ''@'' # rest" and i: "i = length rest"
    by (auto simp: revision_pos_def Let_def split: list.splits if_splits)
  have "length (CHR ''@'' # rest) \<le> length (rev fn)" unfolding d [symmetric] by simp
  with i show ?thesis by simp
qed

function findFileType :: "nat \<Rightarrow> magic_env \<Rightarrow> file_system \<Rightarrow> string \<Rightarrow> string \<Rightarrow> KMimeMagic \<Rightarrow> KMimeMagic option" where
  "findFileType links E fs buf0 fn k =
     map_option (\<lambda>k2. refine fn (end_request k2))
       (case revision_pos fn of
          Some i \<Rightarrow> findFileType links E fs buf0 (take i fn) (start_request k)
        | None \<Rightarrow> process links E fs buf0 fn (start_request k))"
  by pat_completeness auto
termination
  by (relation "measure (\<lambda>(links, E, fs, buf0, fn, k). length fn)") (auto dest: revision_pos_less)

declare findFileType.simps [simp del]

subsection \<open>Configurations\<close>

definition new_KMimeMagic :: "(string \<rightharpoonup> string) \<Rightarrow> string \<Rightarrow> string option \<Rightarrow> int \<Rightarrow> KMimeMagic" where
  "new_KMimeMagic fs arr configfile acc = snd (apprentice fs arr
     \<lparr>magicfile = configfile, magic_list = [], followLinks = False, resultBuf = [], magicResult = new_result, accuracy = acc\<rparr>)"

definition mergeConfig :: "(string \<rightharpoonup> string) \<Rightarrow> string \<Rightarrow> string option \<Rightarrow> KMimeMagic \<Rightarrow> bool \<times> KMimeMagic" where
  "mergeConfig fs arr configfile k = (case configfile of None \<Rightarrow> (False, k)
     | Some f \<Rightarrow> (case apprentice fs arr (k\<lparr>magicfile := Some f\<rparr>) of (result, k') \<Rightarrow>
         if result = -1 then (False, k'\<lparr>magicfile := magicfile k\<rparr>) else (True, k')))"

definition mergeBufConfig :: "string \<Rightarrow> string \<Rightarrow> KMimeMagic \<Rightarrow> bool \<times> KMimeMagic" where
  "mergeBufConfig arr configbuf k = (case buff_apprentice configbuf arr k of (result, k') \<Rightarrow> (result \<noteq> -1, k'))"

definition setFollowLinks :: "bool \<Rightarrow> KMimeMagic \<Rightarrow> KMimeMagic" where
  "setFollowLinks enable k = k\<lparr>followLinks := enable\<rparr>"

subsection \<open>\<open>finishResult\<close> against its specification\<close>

definition first_word :: "string \<Rightarrow> string" where
  "first_word s = takeWhile (\<lambda>c. \<not> isspace c) (dropWhile isspace s)"

definition after_word :: "string \<Rightarrow> string" where
  "after_word s = dropWhile (\<lambda>c. \<not> isspace c) (dropWhile isspace s)"

lemma finish_blanks:
  "list_all isspace b \<Longrightarrow> rsl_state r \<in> {rsl_leading_space, rsl_separator} \<Longrightarrow>
    finish_loop i (b @ s) r = finish_loop (i + length b) s r"
  by (induction b arbitrary: i) auto

lemma finish_subtype:
  "list_all (\<lambda>c. \<not> isspace c) w \<Longrightarrow> rsl_state r = rsl_subtype \<Longrightarrow>
    finish_loop i (w @ s) r = finish_loop (i + length w) s (r\<lparr>type_len := type_len r + length w\<rparr>)"
  by (induction w arbitrary: i r) auto

lemma finish_encoding:
  "list_all (\<lambda>c. \<not> isspace c) w \<Longrightarrow> rsl_state r = rsl_encoding \<Longrightarrow>
    finish_loop i (w @ s) r = finish_loop (i + length w) s (r\<lparr>encoding_len := encoding_len r + length w\<rparr>)"
  by (induction w arbitrary: i r) auto

lemma finish_type:
  "list_all (\<lambda>c. \<not> isspace c) w \<Longrightarrow> rsl_state r = rsl_type \<Longrightarrow>
    finish_loop i (w @ s) r = finish_loop (i + length w) s (r\<lparr>type_len := type_len r + length w,
      rsl_state := if CHR ''/'' \<in> set w then rsl_subtype else rsl_type\<rparr>)"
proof (induction w arbitrary: i r)
  case Nil
  then show ?case by (cases r) simp
next
  case (Cons c w)
  show ?case
  proof (cases "c = CHR ''/''")
    case True
    with Cons.prems finish_subtype [of w "r\<lparr>type_len := Suc (type_len r), rsl_state := rsl_subtype\<rparr>" "Suc i" s]
    moreover have "r\<lparr>rsl_state := x, type_len := y\<rparr> = r\<lparr>type_len := y, rsl_state := x\<rparr>" for x y
      by (cases r) simp
    ultimately show ?thesis by simp
  next
    case False
    with Cons show ?thesis by simp
  qed
qed

lemma word_split: "s = takeWhile isspace s @ first_word s @ after_word s"
  by (simp add: first_word_def after_word_def)

lemma first_word_chars: "list_all (\<lambda>c. \<not> isspace c) (first_word s)"
  by (auto simp: first_word_def list_all_iff dest: set_takeWhileD)

lemma blanks: "list_all isspace (takeWhile isspace s)"
  by (auto simp: list_all_iff dest: set_takeWhileD)

lemma after_word_start: "after_word s = [] \<or> isspace (hd (after_word s))"
  by (metis after_word_def hd_dropWhile)

lemma first_word_Nil: "first_word s = [] \<Longrightarrow> dropWhile isspace s = [] \<and> after_word s = []"
proof -
  assume w: "first_word s = []"
  have "dropWhile isspace s = []"
  proof (rule ccontr)
    assume ne: "dropWhile isspace s \<noteq> []"
    then have "\<not> isspace (hd (dropWhile isspace s))" by (rule hd_dropWhile)
    with ne w show False by (cases "dropWhile isspace s") (simp_all add: first_word_def)
  qed
  then show ?thesis unfolding after_word_def by (simp only: dropWhile.simps simp_thms)
qed

lemma mid_str_word: "mid_str (length a) (length w) (a @ w @ c) = w"
  by (simp add: mid_str_def)

lemma finish_stop: "rsl_state r \<in> {rsl_subtype, rsl_type, rsl_encoding} \<Longrightarrow> s = [] \<or> isspace (hd s) \<Longrightarrow>
    rsl_state r = rsl_encoding \<or> s = [] \<Longrightarrow> finish_loop i s r = Some r"
  by (cases s) auto

text \<open>The second word.\<close>

lemma finish_second:
  assumes "rsl_state r = rsl_subtype" "s = [] \<or> isspace (hd s)"
  shows "\<exists>r'. finish_loop i s r = Some r' \<and> type_pos r' = type_pos r \<and> type_len r' = type_len r \<and>
    (if first_word s = [] then rsl_state r' \<in> {rsl_subtype, rsl_separator}
     else rsl_state r' = rsl_encoding \<and> encoding_pos r' = i + length (takeWhile isspace s)
       \<and> encoding_len r' = length (first_word s))"
proof (cases s)
  case Nil
  then show ?thesis using assms by (simp add: first_word_def)
next
  case (Cons c t)
  then have c: "isspace c" using assms(2) by simp
  define r1 where "r1 = r\<lparr>rsl_state := rsl_separator\<rparr>"
  define j where "j = Suc i + length (takeWhile isspace t)"
  have same: "first_word s = first_word t" "after_word s = after_word t"
    "i + length (takeWhile isspace s) = j"
    using c Cons by (simp_all add: first_word_def after_word_def j_def)
  have "finish_loop i s r = finish_loop (Suc i) (takeWhile isspace t @ first_word t @ after_word t) r1"
    using c Cons assms(1) word_split [of t] by (simp add: r1_def)
  also have "\<dots> = finish_loop j (first_word t @ after_word t) r1"
    using finish_blanks [OF blanks, of r1 "Suc i" t] by (simp add: r1_def j_def)
  finally have loop: "finish_loop i s r = \<dots>" .
  show ?thesis
  proof (cases "first_word t")
    case Nil
    with loop first_word_Nil [OF Nil] same show ?thesis by (simp add: r1_def)
  next
    case (Cons d v)
    then have dv: "\<not> isspace d" "list_all (\<lambda>c. \<not> isspace c) v" using first_word_chars [of t] by simp_all
    define r2 where "r2 = r1\<lparr>rsl_state := rsl_encoding, encoding_pos := j, encoding_len := 1\<rparr>"
    have "finish_loop j (first_word t @ after_word t) r1 = finish_loop (Suc j) (v @ after_word t) r2"
      using Cons dv(1) by (simp add: r1_def r2_def)
    also have "\<dots> = finish_loop (Suc j + length v) (after_word t) (r2\<lparr>encoding_len := Suc (length v)\<rparr>)"
      using finish_encoding [OF dv(2), of r2 "Suc j" "after_word t"] by (simp add: r2_def)
    also have "\<dots> = Some (r2\<lparr>encoding_len := Suc (length v)\<rparr>)"
      using after_word_start [of t] by (intro finish_stop) (simp_all add: r2_def)
    finally show ?thesis using loop Cons same by (simp add: r2_def r1_def)
  qed
qed

lemma finish_words:
  "finishResult k =
    (let b = resultBuf k; w = first_word b; e = first_word (after_word b)
     in if CHR ''/'' \<in> set (tl w)
        then (0, k\<lparr>magicResult := (magicResult k)\<lparr>Content := w,
                Encoding := if e = [] then Encoding (magicResult k) else e\<rparr>\<rparr>)
        else (DECLINED, k))"
proof -
  define b where "b = resultBuf k"
  define r0 where "r0 = \<lparr>rsl_state = rsl_leading_space, type_pos = 0, type_len = 0, encoding_pos = 0, encoding_len = 0\<rparr>"
  define p where "p = length (takeWhile isspace b)"
  define w where "w = first_word b"
  define rest where "rest = after_word b"
  have b: "b = takeWhile isspace b @ w @ rest" unfolding w_def rest_def by (rule word_split)
  have "finish_loop 0 (takeWhile isspace b @ w @ rest) r0 = finish_loop p (w @ rest) r0"
    using finish_blanks [OF blanks, of r0 0 b "w @ rest"] by (simp add: r0_def p_def)
  then have lead: "finish_loop 0 b r0 = finish_loop p (w @ rest) r0" using b by simp
  have rest: "rest = [] \<or> isspace (hd rest)" unfolding rest_def by (rule after_word_start)
  show ?thesis
  proof (cases w)
    case Nil
    then have "rest = []" using first_word_Nil [of b] by (simp add: w_def rest_def)
    then have "finish_loop 0 b r0 = Some r0" using lead Nil by simp
    then show ?thesis
      using Nil by (simp add: finishResult_def b_def [symmetric] r0_def [symmetric] w_def [symmetric]) (simp add: r0_def)
  next
    case (Cons c v)
    then have cv: "\<not> isspace c" "list_all (\<lambda>c. \<not> isspace c) v" using first_word_chars [of b] by (simp_all add: w_def)
    define r1 where "r1 = r0\<lparr>rsl_state := rsl_type, type_pos := p, type_len := 1\<rparr>"
    define r2 where "r2 = r1\<lparr>type_len := length w, rsl_state := if CHR ''/'' \<in> set v then rsl_subtype else rsl_type\<rparr>"
    have "finish_loop p (w @ rest) r0 = finish_loop (Suc p) (v @ rest) r1"
      using cv(1) Cons by (simp add: r1_def r0_def)
    also have "\<dots> = finish_loop (p + length w) rest r2"
      using finish_type [OF cv(2), of r1 "Suc p" rest] Cons by (simp add: r1_def r2_def)
    finally have loop: "finish_loop 0 b r0 = finish_loop (p + length w) rest r2" using lead by simp
    show ?thesis
    proof (cases "CHR ''/'' \<in> set v")
      case False
      have "finish_loop 0 b r0 = None \<or> (\<exists>r. finish_loop 0 b r0 = Some r \<and> rsl_state r = rsl_type)"
        using loop rest False by (cases rest) (simp_all add: r2_def)
      then show ?thesis
        using False Cons by (auto simp: finishResult_def b_def [symmetric] r0_def [symmetric] w_def [symmetric])
    next
      case True
      then have "rsl_state r2 = rsl_subtype" by (simp add: r2_def)
      from finish_second [OF this rest, of "p + length w"] obtain r' where r': "finish_loop 0 b r0 = Some r'"
        "type_pos r' = p" "type_len r' = length w"
        "if first_word rest = [] then rsl_state r' \<in> {rsl_subtype, rsl_separator}
         else rsl_state r' = rsl_encoding \<and> encoding_pos r' = p + length w + length (takeWhile isspace rest)
           \<and> encoding_len r' = length (first_word rest)"
        using loop by (auto simp: r2_def r1_def)
      have content: "mid_str p (length w) b = w"
        using b mid_str_word [of "takeWhile isspace b" w rest] by (simp add: p_def)
      have "b = (takeWhile isspace b @ w @ takeWhile isspace rest) @ first_word rest @ after_word rest"
        using b word_split [of rest] by simp
      then have enc: "mid_str (p + length w + length (takeWhile isspace rest)) (length (first_word rest)) b = first_word rest"
        using mid_str_word [of "takeWhile isspace b @ w @ takeWhile isspace rest" "first_word rest" "after_word rest"]
        by (simp add: p_def add.assoc)
      show ?thesis
        using r' content enc Cons True
        by (auto simp: finishResult_def b_def [symmetric] r0_def [symmetric] w_def [symmetric] rest_def [symmetric]
            Let_def split: if_splits)
    qed
  qed
qed


text \<open>\<open>finishResult\<close> finds the words of the result buffer: the first one becomes the content
  if it has a slash behind its first character, the second one, if there is one, the encoding;
  without such a slash the result is declined and left as it was.\<close>

theorem finishResult_words:
  "finishResult k =
    (let b = resultBuf k; w = first_word b; e = first_word (after_word b)
     in if CHR ''/'' \<in> set (tl w)
        then (0, k\<lparr>magicResult := (magicResult k)\<lparr>Content := w,
                Encoding := if e = [] then Encoding (magicResult k) else e\<rparr>\<rparr>)
        else (DECLINED, k))"
  by (rule finish_words)

subsection \<open>Which requests are defined\<close>

lemma match_rules_defined:
  assumes "\<forall>m\<in>set ms. safe_entry m" "n \<le> length s" "n < 2 ^ 31"
  shows "match_rules E s (int n) ms k \<noteq> None"
  using assms(1)
proof (induction ms arbitrary: k rule: entry_groups.induct)
  case (2 m ms)
  let ?rest = "dropWhile (\<lambda>m. m_cont_level m \<noteq> 0) ms"
  have rest: "\<forall>m\<in>set ?rest. safe_entry m" using "2.prems" by (auto dest: set_dropWhileD)
  obtain p acc where t: "test_entry s (int n) m (accuracy k) = Some (entry_holds s (int n) m, p, acc)"
    using test_entry_safe [of m n s "accuracy k"] "2.prems" assms(2,3) by auto
  have "match_conts E s (int n) ms l need k' \<noteq> None" for l need k'
    using match_conts_defined [OF _ assms(2,3)] "2.prems" by auto
  with t "2.IH" [OF rest, of "k\<lparr>accuracy := acc\<rparr>"] show ?case by (auto simp: Let_def)
qed simp

lemma tryit_defined:
  assumes "\<forall>m\<in>set (magic_list k). safe_entry m" "n \<le> length s" "n \<le> HOWMANY"
  shows "tryit E s n k \<noteq> None"
proof -
  have n: "n < 2 ^ 31" using assms(3) by (simp add: HOWMANY_def)
  obtain b k1 where soft: "softmagic E s (int n) k = Some (b, k1)"
    using match_rules_defined [OF assms(1,2) n, of E k] by (auto simp: softmagic_def)
  moreover obtain c k2 where "ascmagic s n k1 = Some (c, k2)"
    using ascmagic_defined [OF assms(3,2), of k1] by auto
  ultimately show ?thesis by (simp add: tryit_def)
qed

lemma length_store: "length s < length arr \<Longrightarrow> length (store s arr) = length arr"
  by (simp add: store_def)

text \<open>every buffer of fewer than \<open>HOWMANY\<close> bytes gets an answer, for all rules that cannot
  read outside of the data.\<close>

theorem findBufferType_defined:
  assumes "\<forall>m\<in>set (magic_list k). safe_entry m" "n < HOWMANY" "n \<le> length buffer" "length buf0 = HOWMANY + 1"
  shows "findBufferType E buf0 buffer n k \<noteq> None"
proof -
  have "magic_list (start_request k) = magic_list k" by (simp add: start_request_def)
  moreover have "length (store (take n buffer) buf0) = HOWMANY + 1" using assms(2,4) by (subst length_store) auto
  ultimately have "tryit E (store (take n buffer) buf0) (Suc n) (start_request k) \<noteq> None"
    using assms(1,2) by (intro tryit_defined) auto
  then show ?thesis using assms(2,3) by (simp add: findBufferType_def Let_def min_def)
qed

theorem findBufferType_defined_witness:
  "findBufferType sample_printf (replicate 1025 NUL) ''abc'' 3 (sample_magic\<lparr>magic_list := [class_entry]\<rparr>) \<noteq> None"
  by (rule findBufferType_defined)
    (simp_all add: sample_magic_def safe_entry_def class_entry_def new_magic_def HOWMANY_def)

text \<open>a buffer of \<open>HOWMANY\<close> bytes or more overruns the copy in \<open>ascmagic\<close>: the terminating NUL
  is counted as a byte of data, and the NUL behind that is written past the end of \<open>nbuf\<close>. It
  happens for all data that no rule matches and that does not look like troff or Fortran.\<close>

theorem findBufferType_overrun:
  assumes "HOWMANY \<le> n" "HOWMANY \<le> length buffer" "length buf0 = HOWMANY + 1"
    and "softmagic E (store (take HOWMANY buffer) buf0) (int (Suc HOWMANY)) (start_request k) = Some (False, k1)"
    and "\<not> troff_like (store (take HOWMANY buffer) buf0)" "\<not> fortran_like (store (take HOWMANY buffer) buf0)"
  shows "findBufferType E buf0 buffer n k = None"
proof -
  have "ascmagic (store (take HOWMANY buffer) buf0) (Suc HOWMANY) k1 = None"
    using assms(5,6) by (simp add: ascmagic_def Let_def)
  then show ?thesis
    using assms by (simp add: findBufferType_def Let_def tryit_def min_def HOWMANY_def)
qed

theorem findBufferType_overrun_witness:
  "findBufferType sample_printf (replicate 1025 NUL) (replicate 2000 CHR ''a'') 2000 sample_magic = None"
proof -
  have first: "at0 (store (take HOWMANY (replicate 2000 CHR ''a'')) b) = CHR ''a''" for b
    by (simp add: store_def HOWMANY_def) (simp add: numeral_eq_Suc)?
  have "softmagic sample_printf s n (start_request sample_magic) = Some (False, start_request sample_magic)" for s n
    by (simp add: softmagic_def start_request_def sample_magic_def)
  then show ?thesis
    using first by (intro findBufferType_overrun) (simp_all add: HOWMANY_def troff_like_def fortran_like_def)
qed


subsection \<open>Files: links and revisions\<close>

text \<open>At most \<open>d\<close> links lead from a path to a file that is not a link, or is not followed.\<close>

fun link_chain :: "file_system \<Rightarrow> nat \<Rightarrow> string \<Rightarrow> bool" where
  "link_chain fs 0 fn = (case fst (fsmagic fs fn True 0) of Some (Fs_follow fn') \<Rightarrow> False | _ \<Rightarrow> True)"
| "link_chain fs (Suc d) fn = (case fst (fsmagic fs fn True 0) of Some (Fs_follow fn') \<Rightarrow> link_chain fs d fn' | _ \<Rightarrow> True)"

lemma fsmagic_follow: "fst (fsmagic fs fn follow acc) = Some (Fs_follow fn') \<Longrightarrow> fst (fsmagic fs fn True 0) = Some (Fs_follow fn')"
  by (auto simp: fsmagic_def Let_def split: option.splits file_kind.splits if_splits)

text \<open>\<open>process\<close> returns for every path from which finitely many links are followed: a bound
  of one more than their number is enough.\<close>

theorem process_links:
  assumes "\<forall>m\<in>set (magic_list k). safe_entry m" "length buf0 = HOWMANY + 1" "link_chain fs d fn" "d < links"
  shows "process links E fs buf0 fn k \<noteq> None"
  using assms(1,3,4)
proof (induction d arbitrary: links fn k)
  case 0
  then obtain l where l: "links = Suc l" by (cases links) auto
  obtain ans acc where ans: "fsmagic fs fn (followLinks k) (accuracy k) = (ans, acc)" by force
  have no: "ans \<noteq> Some (Fs_follow fn')" for fn'
    using fsmagic_follow [of fs fn "followLinks k" "accuracy k" fn'] ans "0.prems"(2) by auto
  have "tryit E (store (take (min HOWMANY (length data)) data) buf0) (min HOWMANY (length data)) (k\<lparr>accuracy := a\<rparr>) \<noteq> None" for data a
    using "0.prems"(1) assms(2) by (intro tryit_defined) (auto simp: length_store)
  with no show ?case
    by (cases ans) (auto simp: l ans Let_def split: option.splits fs_answer.splits)
next
  case (Suc d)
  then obtain l where l: "links = Suc l" "d < l" by (cases links) auto
  obtain ans acc where ans: "fsmagic fs fn (followLinks k) (accuracy k) = (ans, acc)" by force
  have data: "tryit E (store (take (min HOWMANY (length data)) data) buf0) (min HOWMANY (length data)) (k\<lparr>accuracy := a\<rparr>) \<noteq> None" for data a
    using Suc.prems(1) assms(2) by (intro tryit_defined) (auto simp: length_store)
  show ?case
  proof (cases "\<exists>fn'. ans = Some (Fs_follow fn')")
    case True
    then obtain fn' where f: "ans = Some (Fs_follow fn')" by blast
    then have "link_chain fs d fn'"
      using fsmagic_follow [of fs fn "followLinks k" "accuracy k" fn'] ans Suc.prems(2) by simp
    then have "process l E fs buf0 fn' (k\<lparr>accuracy := acc\<rparr>) \<noteq> None"
      using Suc.prems(1) l(2) by (intro Suc.IH) simp_all
    then show ?thesis by (simp add: l ans f)
  next
    case False
    with data show ?thesis
      by (cases ans) (auto simp: l ans Let_def split: option.splits fs_answer.splits)
  qed
qed

text \<open>a C header with a revision suffix is taken for a source file: the request for the name
  without the suffix finds \<open>text/x-chdr\<close>, but the outer call sets the content back to what the
  buffer says and refines it by the full name.\<close>

theorem revision_header_as_source:
  assumes "process links E fs buf0 fn (start_request k) = Some k2" "first_word (resultBuf k2) = ''text/x-c''"
    and "right_str 2 fn = ''.h''" "revision_pos fn = None" "list_all isdigit ds"
  shows "map_option (\<lambda>r. Content (magicResult r)) (findFileType links E fs buf0 fn k) = Some ''text/x-chdr''
    \<and> map_option (\<lambda>r. Content (magicResult r)) (findFileType links E fs buf0 (fn @ ''@'' @ ds) k) = Some ''text/x-csrc''"
proof -
  have e: "Content (magicResult (end_request j)) = ''text/x-c'' \<and> resultBuf (end_request j) = resultBuf j"
    if "first_word (resultBuf j) = ''text/x-c''" for j
    using that finish_words [of j] by (simp add: end_request_def Let_def)
  have r: "resultBuf (refine f j) = resultBuf j" for f j by (simp add: refine_def)
  have inner: "findFileType links E fs buf0 fn j = Some (refine fn (end_request k2))"
    if "start_request j = start_request k" for j
    using assms(1,4) that by (subst findFileType.simps) simp
  have "start_request (start_request k) = start_request k" by (simp add: start_request_def)
  note again = inner [OF this]
  have "\<forall>c\<in>set (rev ds). isdigit c" using assms(5) by (simp add: list_all_iff)
  moreover have "\<not> isdigit CHR ''@''" by (simp add: isdigit_def code_def)
  ultimately have tw: "takeWhile isdigit (rev ds @ CHR ''@'' # rev fn) = rev ds" by (rule takeWhile_stop)
  then have "revision_pos (fn @ ''@'' @ ds) = Some (length fn)"
    by (simp add: revision_pos_def)
  then have outer: "findFileType links E fs buf0 (fn @ ''@'' @ ds) k
      = Some (refine (fn @ ''@'' @ ds) (end_request (refine fn (end_request k2))))"
    using again by (subst findFileType.simps) simp
  have "right_str 2 (fn @ ''@'' @ ds) \<noteq> ''.h''"
  proof
    assume h: "right_str 2 (fn @ ''@'' @ ds) = ''.h''"
    then have "last (fn @ ''@'' @ ds) = CHR ''h''"
      by (metis append_take_drop_id last.simps last_appendR list.discI right_str_def)
    then have "isdigit CHR ''h'' \<or> CHR ''@'' = CHR ''h''"
      using assms(5) last_in_set [of ds] by (cases "ds = []") (auto simp: list_all_iff)
    then show False by (simp add: isdigit_def code_def)
  qed
  then show ?thesis
    using inner [OF refl] outer e [of k2] e [of "refine fn (end_request k2)"] assms(2,3)
    by (simp add: r refine_def refineResult_def)
qed

text \<open>A rule that takes everything for C, and a file system with one file and a link to it.\<close>

definition any_entry :: magic where
  "any_entry = (new_magic 1)\<lparr>m_type := BYTE, m_reln := CHR ''x'', m_mask := - 1, m_desc := ''text/x-c''\<rparr>"

definition sample_fs :: file_system where
  "sample_fs = \<lparr>fs_lstat = [''a.h'' \<mapsto> (S_IFREG, 3), ''l'' \<mapsto> (S_IFLNK, 3)], fs_stat_ok = (\<lambda>f. True),
     fs_readlink = [''l'' \<mapsto> ''a.h''], fs_open = (\<lambda>f. True), fs_read = [''a.h'' \<mapsto> ''abc'']\<rparr>"

lemma any_entry_matches:
  assumes "n \<le> length s" "n < 2 ^ 31"
  shows "test_entry s (int n) any_entry acc = Some (True, window s n 0, acc)"
proof -
  have "mget s any_entry (int n) acc = Some (True, window s n 0, acc)"
    using mget_direct [of any_entry n s acc] assms by (simp add: any_entry_def new_magic_def mconvert_def)
  moreover have "mcheck p any_entry acc = (True, acc)" for p
    by (simp add: mcheck_def any_entry_def new_magic_def relates_def signextend_def zero_value_def MAXstring_def)
  ultimately show ?thesis by (simp add: test_entry_def)
qed

lemma sample_process:
  "process 1 sample_printf sample_fs (replicate 1025 NUL) ''a.h'' (start_request (sample_magic\<lparr>magic_list := [any_entry]\<rparr>))
    = Some ((start_request (sample_magic\<lparr>magic_list := [any_entry]\<rparr>))\<lparr>resultBuf := ''text/x-c'' @ [LF]\<rparr>)"
proof -
  let ?k = "start_request (sample_magic\<lparr>magic_list := [any_entry]\<rparr>)"
  have k: "magic_list ?k = [any_entry]" "resultBuf ?k = []" by (simp_all add: start_request_def)
  have "length (store ''abc'' (replicate 1025 NUL)) = 1025" by (subst length_store) simp_all
  then have t: "test_entry (store ''abc'' (replicate 1025 NUL)) (int 3) any_entry acc
      = Some (True, window (store ''abc'' (replicate 1025 NUL)) 3 0, acc)" for acc
    by (intro any_entry_matches) simp_all
  have "mprint sample_printf p any_entry j = j\<lparr>resultBuf := resultBuf j @ ''text/x-c''\<rparr>" for p j
    by (simp add: mprint_def any_entry_def new_magic_def signextend_def resultBufPrintf_def sample_printf_def)
  then have "softmagic sample_printf (store ''abc'' (replicate 1025 NUL)) (int 3) ?k = Some (True, ?k\<lparr>resultBuf := ''text/x-c''\<rparr>)"
    unfolding softmagic_def k(1) using t by (simp add: k(2))
  then have "tryit sample_printf (store ''abc'' (replicate 1025 NUL)) 3 ?k = Some (?k\<lparr>resultBuf := ''text/x-c''\<rparr>)"
    by (simp add: tryit_def)
  then show ?thesis
    by (simp add: sample_fs_def fsmagic_def HOWMANY_def add_result_def flip: numeral_3_eq_3)
qed

theorem process_links_witness:
  "process 2 sample_printf sample_fs (replicate 1025 NUL) ''l'' (sample_magic\<lparr>magic_list := [any_entry], followLinks := True\<rparr>) \<noteq> None"
proof (rule process_links [of _ _ _ 1])
  show "link_chain sample_fs 1 ''l''"
    unfolding One_nat_def by (simp add: fsmagic_def sample_fs_def link_path_def)
qed (simp_all add: safe_entry_def any_entry_def new_magic_def HOWMANY_def)

theorem revision_header_as_source_witness:
  "map_option (\<lambda>r. Content (magicResult r)) (findFileType 1 sample_printf sample_fs (replicate 1025 NUL) ''a.h@12''
     (sample_magic\<lparr>magic_list := [any_entry]\<rparr>)) = Some ''text/x-csrc''"
proof -
  have w: "first_word (''text/x-c'' @ [LF]) = ''text/x-c''"
    by (simp add: first_word_def isspace_def code_def)
  have "revision_pos ''a.h'' = None" by (simp add: revision_pos_def isdigit_def code_def)
  moreover have "list_all isdigit ''12''" by (simp add: isdigit_def code_def)
  moreover have "right_str 2 ''a.h'' = ''.h''" by (simp add: right_str_def)
  ultimately show ?thesis
    using revision_header_as_source [OF sample_process _ _ _ _, of "''12''"] w by simp
qed

end
