(* ===== verification/HtmlCache.thy ===== *)
theory HtmlCache
  imports CookieFile
begin

section \<open>The cache for pages and images\<close>

text \<open>
  \<open>kfm/htmlcache.cpp\<close>: the class \<open>HTMLCache\<close> with its static lists and its instances (one per view),
  and the jobs that load a URL into a file. Objects are numbers: an instance by its place in the
  order of creation, a job by the \<open>fileId\<close> of its file. The signal \<open>urlLoaded\<close> of an instance is an
  entry of the log \<open>loaded\<close>. A job ends by itself, with an error, or because it is cancelled; the
  first and the last emit \<open>finished\<close> from \<open>KIOJob::done\<close> and delete the job.
  \<open>KURL\<close>, the clock and \<open>KFMPaths::CachePath\<close> are the fields of \<open>cache_env\<close>.
\<close>

subsection \<open>State\<close>

definition MAX_JOBS :: nat where "MAX_JOBS = 4"

record cache_job =
  j_url :: string
  j_dest :: string
  j_owner :: nat
  j_connected :: bool

record cache_instance =
  waitingURLList :: "string list"
  todoURLList :: "string list"
  instanceJobList :: "nat list"

text \<open>
  \<open>static_cur\<close> is the current item of \<open>staticJobList\<close> (Qt's lists have one), \<open>cache_jobs\<close> the jobs
  that exist.
\<close>

record html_cache =
  staticJobList :: "nat list"
  static_cur :: "nat option"
  urlDict :: "string \<rightharpoonup> string"
  instanceList :: "nat list"
  inst_of :: "nat \<Rightarrow> cache_instance"
  cache_jobs :: "nat \<rightharpoonup> cache_job"
  fileId :: nat
  bCacheEnabled :: bool
  bSaveCacheEnabled :: bool
  cfiles :: files
  loaded :: "(nat \<times> string \<times> string) list"

record cache_env =
  cachePath :: string
  clock :: nat
  url_filename :: "string \<Rightarrow> string"
  dest_path :: "string \<Rightarrow> string"

definition new_instance :: cache_instance where
  "new_instance = \<lparr>waitingURLList = [], todoURLList = [], instanceJobList = []\<rparr>"

definition InitStatic :: "files \<Rightarrow> html_cache" where
  "InitStatic fs = \<lparr>staticJobList = [], static_cur = None, urlDict = Map.empty, instanceList = [],
     inst_of = (\<lambda>_. new_instance), cache_jobs = Map.empty, fileId = 0, bCacheEnabled = True,
     bSaveCacheEnabled = True, cfiles = fs, loaded = []\<rparr>"

definition upd_inst :: "nat \<Rightarrow> (cache_instance \<Rightarrow> cache_instance) \<Rightarrow> html_cache \<Rightarrow> html_cache" where
  "upd_inst i f s = s\<lparr>inst_of := (inst_of s)(i := f (inst_of s i))\<rparr>"

definition new_HTMLCache :: "nat \<Rightarrow> html_cache \<Rightarrow> html_cache" where
  "new_HTMLCache i s = upd_inst i (\<lambda>_. new_instance) (s\<lparr>instanceList := instanceList s @ [i]\<rparr>)"

text \<open>
  \<open>removeRef\<close> of \<open>QList\<close> with the current item: the one behind the removed item, the last one if
  there is none behind it, none if the item is not found.
\<close>

fun position :: "nat \<Rightarrow> nat list \<Rightarrow> nat option" where
  "position j [] = None"
| "position j (x # xs) = (if x = j then Some 0 else map_option Suc (position j xs))"

definition static_remove :: "nat \<Rightarrow> html_cache \<Rightarrow> html_cache" where
  "static_remove j s =
     (let xs = remove1 j (staticJobList s)
      in s\<lparr>staticJobList := xs, static_cur := (case position j (staticJobList s) of None \<Rightarrow> None
           | Some i \<Rightarrow> if i < length xs then Some i else if xs = [] then None else Some (length xs - 1))\<rparr>)"

subsection \<open>Requests\<close>

definition job_has_url :: "html_cache \<Rightarrow> string \<Rightarrow> nat \<Rightarrow> bool" where
  "job_has_url s url j \<longleftrightarrow> (case cache_jobs s j of None \<Rightarrow> False | Some jb \<Rightarrow> j_url jb = url)"

definition dest_url :: "cache_env \<Rightarrow> string \<Rightarrow> nat \<Rightarrow> string" where
  "dest_url E url n = ''file:'' @ cachePath E @ ''/'' @ dec_of_nat (clock E) @ ''.'' @ dec_of_nat n @ url_filename E url"

definition start_job :: "cache_env \<Rightarrow> nat \<Rightarrow> string \<Rightarrow> html_cache \<Rightarrow> html_cache" where
  "start_job E i url s =
     (let n = fileId s
      in upd_inst i (\<lambda>c. c\<lparr>instanceJobList := instanceJobList c @ [n]\<rparr>)
           (s\<lparr>fileId := Suc n, staticJobList := staticJobList s @ [n], static_cur := Some (length (staticJobList s)),
              cache_jobs := (cache_jobs s)(n \<mapsto> \<lparr>j_url = url, j_dest = dest_url E url n, j_owner = i,
                                                 j_connected = True\<rparr>)\<rparr>))"

definition slotURLRequest :: "cache_env \<Rightarrow> nat \<Rightarrow> string \<Rightarrow> html_cache \<Rightarrow> html_cache" where
  "slotURLRequest E i url s =
     (case (if bCacheEnabled s then urlDict s url else None) of
        Some f \<Rightarrow> s\<lparr>loaded := loaded s @ [(i, url, f)]\<rparr>
      | None \<Rightarrow>
          (case find (job_has_url s url) (staticJobList s) of
             Some j \<Rightarrow> s\<lparr>static_cur := position j (staticJobList s)\<rparr>
           | None \<Rightarrow>
               (let s1 = upd_inst i (\<lambda>c. c\<lparr>waitingURLList := waitingURLList c @ [url]\<rparr>) (s\<lparr>static_cur := None\<rparr>)
                in if length (instanceJobList (inst_of s1 i)) = MAX_JOBS
                   then upd_inst i (\<lambda>c. c\<lparr>todoURLList := todoURLList c @ [url]\<rparr>) s1
                   else start_job E i url s1)))"

definition waitsForURL :: "nat \<Rightarrow> string \<Rightarrow> html_cache \<Rightarrow> bool" where
  "waitsForURL i url s \<longleftrightarrow> url \<in> set (waitingURLList (inst_of s i))"

text \<open>\<open>urlLoaded( HTMLCacheJob * )\<close> of one instance, and the loop that tells all instances.\<close>

definition urlLoaded :: "cache_env \<Rightarrow> cache_job \<Rightarrow> nat \<Rightarrow> html_cache \<Rightarrow> html_cache" where
  "urlLoaded E jb i s =
     (if waitsForURL i (j_url jb) s
      then upd_inst i (\<lambda>c. c\<lparr>waitingURLList := remove1 (j_url jb) (waitingURLList c)\<rparr>)
             (s\<lparr>loaded := loaded s @ [(i, j_url jb, dest_path E (j_dest jb))]\<rparr>)
      else s)"

definition tell_all :: "cache_env \<Rightarrow> cache_job \<Rightarrow> html_cache \<Rightarrow> html_cache" where
  "tell_all E jb s = foldl (\<lambda>s i. urlLoaded E jb i s) s (instanceList s)"

definition enter_file :: "cache_job \<Rightarrow> html_cache \<Rightarrow> html_cache" where
  "enter_file jb s = (case cfiles s (drop 5 (j_dest jb)) of
       Some content \<Rightarrow> (if content \<noteq> [] then s\<lparr>urlDict := (urlDict s)(j_url jb \<mapsto> drop 5 (j_dest jb))\<rparr> else s)
     | None \<Rightarrow> s)"

definition next_todo :: "cache_env \<Rightarrow> nat \<Rightarrow> html_cache \<Rightarrow> html_cache" where
  "next_todo E i s = (case todoURLList (inst_of s i) of [] \<Rightarrow> s
     | url # rest \<Rightarrow> slotURLRequest E i url (upd_inst i (\<lambda>c. c\<lparr>todoURLList := rest\<rparr>) s))"

definition slotJobFinished :: "cache_env \<Rightarrow> nat \<Rightarrow> nat \<Rightarrow> cache_job \<Rightarrow> html_cache \<Rightarrow> html_cache" where
  "slotJobFinished E i j jb s =
     (let s1 = tell_all E jb (enter_file jb s);
          s2 = static_remove j s1;
          s3 = upd_inst i (\<lambda>c. c\<lparr>instanceJobList := remove1 j (instanceJobList c)\<rparr>) s2
      in next_todo E i s3)"

text \<open>
  The end of a job: \<open>done\<close>, also at the end of \<open>cancel\<close>, emits \<open>finished\<close>, which reaches the owner
  if it is still connected, and deletes the job. An error disconnects the owner first.
\<close>

definition job_done :: "cache_env \<Rightarrow> nat \<Rightarrow> html_cache \<Rightarrow> html_cache" where
  "job_done E j s = (case cache_jobs s j of None \<Rightarrow> s
     | Some jb \<Rightarrow>
         (let s1 = (if j_connected jb then slotJobFinished E (j_owner jb) j jb s else s)
          in s1\<lparr>cache_jobs := (cache_jobs s1)(j := None)\<rparr>))"

definition disconnect :: "nat \<Rightarrow> html_cache \<Rightarrow> html_cache" where
  "disconnect j s = s\<lparr>cache_jobs := (cache_jobs s)
     (j := map_option (\<lambda>jb. jb\<lparr>j_connected := False\<rparr>) (cache_jobs s j))\<rparr>"

definition slotError :: "cache_env \<Rightarrow> nat \<Rightarrow> html_cache \<Rightarrow> html_cache" where
  "slotError E j s = (case cache_jobs s j of None \<Rightarrow> s
     | Some jb \<Rightarrow> if j_connected jb then slotJobFinished E (j_owner jb) j jb (disconnect j s) else s)"

definition slotCancelURLRequest :: "cache_env \<Rightarrow> nat \<Rightarrow> string \<Rightarrow> html_cache \<Rightarrow> html_cache" where
  "slotCancelURLRequest E i url s =
     (let s1 = upd_inst i (\<lambda>c. c\<lparr>waitingURLList := remove1 url (waitingURLList c)\<rparr>) s
      in if list_ex (\<lambda>p. waitsForURL p url s1) (instanceList s1) then s1
         else case find (job_has_url s1 url) (staticJobList s1) of
                None \<Rightarrow> s1\<lparr>static_cur := None\<rparr>
              | Some j \<Rightarrow> static_remove j (job_done E j s1))"

subsection \<open>Instances\<close>

definition stop_job :: "cache_env \<Rightarrow> nat \<Rightarrow> html_cache \<Rightarrow> html_cache" where
  "stop_job E j s = job_done E j (disconnect j (static_remove j s))"

definition stop :: "cache_env \<Rightarrow> nat \<Rightarrow> html_cache \<Rightarrow> html_cache" where
  "stop E i s =
     upd_inst i (\<lambda>c. c\<lparr>instanceJobList := []\<rparr>)
       (foldl (\<lambda>s j. stop_job E j s) s (instanceJobList (inst_of s i)))"

text \<open>A view stops its cache before it deletes it.\<close>

definition delete_HTMLCache :: "nat \<Rightarrow> html_cache \<Rightarrow> html_cache" where
  "delete_HTMLCache i s = s\<lparr>instanceList := remove1 i (instanceList s)\<rparr>"

text \<open>\<open>quit\<close>: the loop goes to the item behind the current one after every \<open>cancel\<close>.\<close>

fun quit_loop :: "nat \<Rightarrow> cache_env \<Rightarrow> html_cache \<Rightarrow> html_cache" where
  "quit_loop 0 E s = s"
| "quit_loop (Suc n) E s = (case static_cur s of None \<Rightarrow> s
     | Some i \<Rightarrow>
         (if i < length (staticJobList s)
          then let s1 = job_done E (staticJobList s ! i) s;
                   nxt = (case static_cur s1 of None \<Rightarrow> None
                          | Some k \<Rightarrow> if Suc k < length (staticJobList s1) then Some (Suc k) else None)
               in quit_loop n E (s1\<lparr>static_cur := nxt\<rparr>)
          else s))"

definition quit :: "cache_env \<Rightarrow> html_cache \<Rightarrow> html_cache" where
  "quit E s =
     (let first = (if staticJobList s = [] then None else Some 0);
          s1 = quit_loop (Suc (length (staticJobList s))) E (s\<lparr>static_cur := first\<rparr>)
      in s1\<lparr>staticJobList := [], static_cur := None\<rparr>)"

definition slotCheckinURL :: "cache_env \<Rightarrow> bool \<Rightarrow> string \<Rightarrow> string \<Rightarrow> html_cache \<Rightarrow> html_cache" where
  "slotCheckinURL E fopen_ok url data s =
     (let tmp = cachePath E @ ''/'' @ dec_of_nat (clock E) @ ''.'' @ dec_of_nat (fileId s);
          s1 = s\<lparr>fileId := Suc (fileId s)\<rparr>
      in if \<not> fopen_ok then s1
         else s1\<lparr>cfiles := (cfiles s1)(tmp \<mapsto> data), urlDict := (urlDict s1)(url \<mapsto> tmp)\<rparr>)"

definition isCached :: "string \<Rightarrow> html_cache \<Rightarrow> string option" where
  "isCached url s = urlDict s url"

definition enableCache :: "bool \<Rightarrow> html_cache \<Rightarrow> html_cache" where
  "enableCache b s = s\<lparr>bCacheEnabled := b\<rparr>"

definition enableSaveCache :: "bool \<Rightarrow> html_cache \<Rightarrow> html_cache" where
  "enableSaveCache b s = s\<lparr>bSaveCacheEnabled := b\<rparr>"

subsection \<open>The index on disk\<close>

text \<open>
  The iteration over the dictionary is the list \<open>it\<close> of its entries in some order. The picture of a
  file and its date are parameters of the page for the user.
\<close>

definition index_row :: "(string \<Rightarrow> string) \<Rightarrow> (string \<Rightarrow> string) \<Rightarrow> string \<times> string \<Rightarrow> string" where
  "index_row pixmap modified e = (case e of (url, f) \<Rightarrow>
     if length f < 1024 then
       ''<tr><td><a href='' @ [DQ] @ f @ [DQ] @ ''><img border=0 src='' @ [DQ] @ pixmap f @ [DQ] @ ''></a></td> ''
       @ ''<td><a href='' @ [DQ] @ url @ [DQ] @ ''>'' @ [LF] @ url @ [LF] @ ''</a></td>''
       @ ''<td>'' @ modified f @ ''</td></tr>'' @ [LF]
     else [])"

definition index_html :: "(string \<Rightarrow> string) \<Rightarrow> (string \<Rightarrow> string) \<Rightarrow> (string \<times> string) list \<Rightarrow> string" where
  "index_html pixmap modified it =
     ''<HTML><HEAD><TITLE>KFM Cache</TITLE></HEAD><BODY><H2>Contents of the cache</H2>'' @ [LF]
     @ ''<p>Use the icons for drag and drop actions, since they refere to the cache files ''
     @ ''on your hard disk, while you should use the textual links for browsing</p><hr>'' @ [LF]
     @ ''<table>'' @ [LF] @ concat (map (index_row pixmap modified) it) @ ''</table></BODY></HTML>'' @ [LF]"

definition index_txt :: "(string \<times> string) list \<Rightarrow> string" where
  "index_txt it = concat (map (\<lambda>(url, f). url @ [LF] @ f @ [LF]) it)"

definition save_cache :: "cache_env \<Rightarrow> (string \<Rightarrow> bool) \<Rightarrow> (string \<Rightarrow> string) \<Rightarrow> (string \<Rightarrow> string)
    \<Rightarrow> (string \<times> string) list \<Rightarrow> html_cache \<Rightarrow> html_cache" where
  "save_cache E fopen_ok pixmap modified it s =
     (let html = cachePath E @ ''/index.html''; txt = cachePath E @ ''/index.txt''
      in if \<not> bSaveCacheEnabled s then s
         else if \<not> fopen_ok html then s
         else let s1 = s\<lparr>cfiles := (cfiles s)(html \<mapsto> index_html pixmap modified it)\<rparr>
              in if \<not> fopen_ok txt then s1
                 else s1\<lparr>cfiles := (cfiles s1)(txt \<mapsto> index_txt it)\<rparr>)"

definition chop_lf :: "string \<Rightarrow> string" where
  "chop_lf l = (let s = cstr l in if right_str 1 s = [LF] then take (length s - 1) s else s)"

function load_index :: "files \<Rightarrow> string \<Rightarrow> (string \<rightharpoonup> string) \<Rightarrow> (string \<rightharpoonup> string)" where
  "load_index fs f dict = (case fgets 2048 f of None \<Rightarrow> dict
     | Some (l1, f1) \<Rightarrow>
         (case fgets 2048 f1 of None \<Rightarrow> dict
          | Some (l2, f2) \<Rightarrow>
              load_index fs f2 (if fs (chop_lf l2) = None then dict else dict(chop_lf l1 \<mapsto> chop_lf l2))))"
  by pat_completeness auto
termination
  by (relation "measure (\<lambda>(fs, f, d). length f)") (auto dest!: fgets_length)

declare load_index.simps [simp del]

text \<open>
  Then the files of the directory that are not in the dictionary are removed; \<open>names\<close> is the
  directory's listing (\<open>None\<close> if it cannot be opened), \<open>is_dir\<close> that it is a directory and no link.
\<close>

definition sweep_file :: "cache_env \<Rightarrow> (string \<rightharpoonup> string) \<Rightarrow> files \<Rightarrow> string \<Rightarrow> files" where
  "sweep_file E dict fs d =
     (let name = cachePath E @ ''/'' @ d
      in if d \<in> {''.'', ''..'', ''index.txt'', ''index.html''} then fs
         else if name \<in> ran dict then fs
         else fs(name := None))"

definition load_cache :: "cache_env \<Rightarrow> string list option \<Rightarrow> bool \<Rightarrow> html_cache \<Rightarrow> html_cache" where
  "load_cache E names is_dir s =
     (let dict = (case cfiles s (cachePath E @ ''/index.txt'') of None \<Rightarrow> urlDict s
                  | Some f \<Rightarrow> load_index (cfiles s) f (urlDict s));
          s1 = s\<lparr>urlDict := dict\<rparr>
      in case names of None \<Rightarrow> s1
         | Some ds \<Rightarrow> if \<not> is_dir then s1
                      else s1\<lparr>cfiles := foldl (sweep_file E dict) (cfiles s1) ds\<rparr>)"

text \<open>\<open>clear\<close>: \<open>unlink_ok\<close> is whether a file can be removed.\<close>

definition clear_cache :: "cache_env \<Rightarrow> bool \<Rightarrow> (string \<Rightarrow> bool) \<Rightarrow> (string \<Rightarrow> bool) \<Rightarrow> (string \<Rightarrow> string)
    \<Rightarrow> (string \<Rightarrow> string) \<Rightarrow> (string \<times> string) list \<Rightarrow> html_cache \<Rightarrow> html_cache" where
  "clear_cache E is_dir unlink_ok fopen_ok pixmap modified it s =
     (if \<not> is_dir then s
      else
        let step = (\<lambda>(fs, todie) (url, f). if fs f \<noteq> None \<and> unlink_ok f then (fs(f := None), todie @ [url]) else (fs, todie));
            (fs1, todie) = foldl step (cfiles s, []) it;
            s1 = s\<lparr>cfiles := fs1, urlDict := urlDict s |` (- set todie)\<rparr>
        in save_cache E fopen_ok pixmap modified (filter (\<lambda>(url, f). url \<notin> set todie) it) s1)"

subsection \<open>What the operations change\<close>

named_theorems cache_frame "fields that an operation of the cache leaves as they were"

lemma upd_inst_simps [simp, cache_frame]:
  "staticJobList (upd_inst i f s) = staticJobList s" "static_cur (upd_inst i f s) = static_cur s"
  "urlDict (upd_inst i f s) = urlDict s" "instanceList (upd_inst i f s) = instanceList s"
  "cache_jobs (upd_inst i f s) = cache_jobs s" "fileId (upd_inst i f s) = fileId s"
  "bCacheEnabled (upd_inst i f s) = bCacheEnabled s" "cfiles (upd_inst i f s) = cfiles s"
  "loaded (upd_inst i f s) = loaded s"
  "inst_of (upd_inst i f s) k = (if k = i then f (inst_of s i) else inst_of s k)"
  by (simp_all add: upd_inst_def)

lemma urlLoaded_simps [simp, cache_frame]:
  "staticJobList (urlLoaded E jb i s) = staticJobList s" "static_cur (urlLoaded E jb i s) = static_cur s"
  "urlDict (urlLoaded E jb i s) = urlDict s" "instanceList (urlLoaded E jb i s) = instanceList s"
  "cache_jobs (urlLoaded E jb i s) = cache_jobs s" "fileId (urlLoaded E jb i s) = fileId s"
  "bCacheEnabled (urlLoaded E jb i s) = bCacheEnabled s" "cfiles (urlLoaded E jb i s) = cfiles s"
  "instanceJobList (inst_of (urlLoaded E jb i s) k) = instanceJobList (inst_of s k)"
  "todoURLList (inst_of (urlLoaded E jb i s) k) = todoURLList (inst_of s k)"
  by (simp_all add: urlLoaded_def)

lemma foldl_urlLoaded:
  "staticJobList (foldl (\<lambda>s i. urlLoaded E jb i s) s is) = staticJobList s"
  "static_cur (foldl (\<lambda>s i. urlLoaded E jb i s) s is) = static_cur s"
  "urlDict (foldl (\<lambda>s i. urlLoaded E jb i s) s is) = urlDict s"
  "instanceList (foldl (\<lambda>s i. urlLoaded E jb i s) s is) = instanceList s"
  "cache_jobs (foldl (\<lambda>s i. urlLoaded E jb i s) s is) = cache_jobs s"
  "fileId (foldl (\<lambda>s i. urlLoaded E jb i s) s is) = fileId s"
  "bCacheEnabled (foldl (\<lambda>s i. urlLoaded E jb i s) s is) = bCacheEnabled s"
  "instanceJobList (inst_of (foldl (\<lambda>s i. urlLoaded E jb i s) s is) k) = instanceJobList (inst_of s k)"
  "todoURLList (inst_of (foldl (\<lambda>s i. urlLoaded E jb i s) s is) k) = todoURLList (inst_of s k)"
  by (induction "is" arbitrary: s) simp_all

lemma tell_all_frame [simp]:
  "staticJobList (tell_all E jb s) = staticJobList s" "static_cur (tell_all E jb s) = static_cur s"
  "urlDict (tell_all E jb s) = urlDict s" "instanceList (tell_all E jb s) = instanceList s"
  "cache_jobs (tell_all E jb s) = cache_jobs s" "fileId (tell_all E jb s) = fileId s"
  "bCacheEnabled (tell_all E jb s) = bCacheEnabled s"
  "instanceJobList (inst_of (tell_all E jb s) k) = instanceJobList (inst_of s k)"
  "todoURLList (inst_of (tell_all E jb s) k) = todoURLList (inst_of s k)"
  by (simp_all add: tell_all_def foldl_urlLoaded)

lemma enter_file_simps [simp]:
  "staticJobList (enter_file jb s) = staticJobList s" "instanceList (enter_file jb s) = instanceList s"
  "cache_jobs (enter_file jb s) = cache_jobs s" "fileId (enter_file jb s) = fileId s"
  "inst_of (enter_file jb s) = inst_of s" "bCacheEnabled (enter_file jb s) = bCacheEnabled s"
  "loaded (enter_file jb s) = loaded s" "cfiles (enter_file jb s) = cfiles s"
  by (simp_all add: enter_file_def split: option.splits)

lemma static_remove_simps [simp]:
  "staticJobList (static_remove j s) = remove1 j (staticJobList s)" "instanceList (static_remove j s) = instanceList s"
  "cache_jobs (static_remove j s) = cache_jobs s" "fileId (static_remove j s) = fileId s"
  "inst_of (static_remove j s) = inst_of s" "urlDict (static_remove j s) = urlDict s"
  "bCacheEnabled (static_remove j s) = bCacheEnabled s" "loaded (static_remove j s) = loaded s"
  "cfiles (static_remove j s) = cfiles s"
  by (simp_all add: static_remove_def Let_def)

lemma disconnect_simps [simp]:
  "staticJobList (disconnect j s) = staticJobList s" "instanceList (disconnect j s) = instanceList s"
  "fileId (disconnect j s) = fileId s" "inst_of (disconnect j s) = inst_of s"
  "urlDict (disconnect j s) = urlDict s" "bCacheEnabled (disconnect j s) = bCacheEnabled s"
  "loaded (disconnect j s) = loaded s" "cfiles (disconnect j s) = cfiles s"
  "cache_jobs (disconnect j s) = (cache_jobs s)(j := map_option (\<lambda>jb. jb\<lparr>j_connected := False\<rparr>) (cache_jobs s j))"
  by (simp_all add: disconnect_def)

subsection \<open>The invariant\<close>

text \<open>
  The jobs that run for an instance. The job \<open>X\<close> is one that has just ended and is not deleted yet.
\<close>

definition running :: "html_cache \<Rightarrow> nat set" where
  "running s = {j. \<exists>jb. cache_jobs s j = Some jb \<and> j_connected jb}"

definition cache_inv :: "nat set \<Rightarrow> html_cache \<Rightarrow> bool" where
  "cache_inv X s \<longleftrightarrow>
     distinct (staticJobList s) \<and> set (staticJobList s) = running s - X \<and>
     (\<forall>i. distinct (instanceJobList (inst_of s i)) \<and> length (instanceJobList (inst_of s i)) \<le> MAX_JOBS \<and>
        set (instanceJobList (inst_of s i)) = {j \<in> running s - X. \<exists>jb. cache_jobs s j = Some jb \<and> j_owner jb = i}) \<and>
     inj_on (\<lambda>j. map_option j_url (cache_jobs s j)) (running s - X) \<and>
     dom (cache_jobs s) \<subseteq> {..<fileId s} \<and> X \<subseteq> {..<fileId s} \<and> distinct (instanceList s)"

lemma find_job_None:
  assumes "find (job_has_url s url) (staticJobList s) = None" "j \<in> set (staticJobList s)" "cache_jobs s j = Some jb"
  shows "j_url jb \<noteq> url"
  using assms by (auto simp: find_None_iff job_has_url_def)

lemma start_job_inv:
  assumes inv: "cache_inv X s" and few: "length (instanceJobList (inst_of s i)) \<noteq> MAX_JOBS"
    and new: "find (job_has_url s url) (staticJobList s) = None"
  shows "cache_inv X (start_job E i url s)"
proof -
  define n where "n = fileId s"
  define t where "t = start_job E i url s"
  have fresh: "cache_jobs s n = None" "n \<notin> X" "n \<notin> running s"
    using inv by (auto simp: cache_inv_def n_def running_def)
  have jobs: "cache_jobs t = (cache_jobs s)(n \<mapsto> \<lparr>j_url = url, j_dest = dest_url E url n, j_owner = i, j_connected = True\<rparr>)"
    by (simp add: t_def start_job_def Let_def n_def)
  have run: "running t = insert n (running s)"
    using fresh by (auto simp: running_def jobs)
  have static: "staticJobList t = staticJobList s @ [n]" "fileId t = Suc n" "instanceList t = instanceList s"
    by (simp_all add: t_def start_job_def Let_def n_def)
  have inst: "instanceJobList (inst_of t k) = (if k = i then instanceJobList (inst_of s i) @ [n] else instanceJobList (inst_of s k))" for k
    by (simp add: t_def start_job_def Let_def n_def)
  have "inj_on (\<lambda>j. map_option j_url (cache_jobs t j)) (running t - X)"
  proof -
    have "inj_on (\<lambda>j. map_option j_url (cache_jobs t j)) (running s - X)"
      using inv fresh by (auto simp: cache_inv_def inj_on_def jobs)
    moreover have "\<forall>j\<in>running s - X. map_option j_url (cache_jobs t j) \<noteq> map_option j_url (cache_jobs t n)"
    proof
      fix j assume j: "j \<in> running s - X"
      then obtain jb where "cache_jobs s j = Some jb" by (auto simp: running_def)
      moreover have "j \<in> set (staticJobList s)" using inv j by (simp add: cache_inv_def)
      ultimately show "map_option j_url (cache_jobs t j) \<noteq> map_option j_url (cache_jobs t n)"
        using find_job_None[OF new] fresh by (auto simp: jobs)
    qed
    ultimately show ?thesis
      using fresh by (auto simp: run insert_Diff_if)
  qed
  moreover have "\<forall>k. distinct (instanceJobList (inst_of t k)) \<and> length (instanceJobList (inst_of t k)) \<le> MAX_JOBS \<and>
      set (instanceJobList (inst_of t k)) = {j \<in> running t - X. \<exists>jb. cache_jobs t j = Some jb \<and> j_owner jb = k}"
  proof
    fix k
    have *: "distinct (instanceJobList (inst_of s k))" "length (instanceJobList (inst_of s k)) \<le> MAX_JOBS"
      "set (instanceJobList (inst_of s k)) = {j \<in> running s - X. \<exists>jb. cache_jobs s j = Some jb \<and> j_owner jb = k}"
      using inv by (auto simp: cache_inv_def)
    show "distinct (instanceJobList (inst_of t k)) \<and> length (instanceJobList (inst_of t k)) \<le> MAX_JOBS \<and>
      set (instanceJobList (inst_of t k)) = {j \<in> running t - X. \<exists>jb. cache_jobs t j = Some jb \<and> j_owner jb = k}"
      using * few fresh by (auto simp: inst run jobs)
  qed
  moreover have "distinct (staticJobList t)" "set (staticJobList t) = running t - X"
    using inv fresh by (auto simp: cache_inv_def static run)
  moreover have "dom (cache_jobs t) \<subseteq> {..<fileId t}" "X \<subseteq> {..<fileId t}" "distinct (instanceList t)"
    using inv by (auto simp: cache_inv_def static jobs n_def)
  ultimately show ?thesis
    unfolding cache_inv_def t_def[symmetric] by blast
qed

lemma cache_inv_cong:
  assumes "cache_inv X s" "staticJobList t = staticJobList s" "cache_jobs t = cache_jobs s" "fileId t = fileId s"
    "instanceList t = instanceList s" "\<And>k. instanceJobList (inst_of t k) = instanceJobList (inst_of s k)"
  shows "cache_inv X t"
  using assms by (simp add: cache_inv_def running_def)

lemma slotURLRequest_inv:
  assumes "cache_inv X s"
  shows "cache_inv X (slotURLRequest E i url s)"
proof -
  define s1 where "s1 = upd_inst i (\<lambda>c. c\<lparr>waitingURLList := waitingURLList c @ [url]\<rparr>) (s\<lparr>static_cur := None\<rparr>)"
  have s1: "cache_inv X s1"
    by (rule cache_inv_cong[OF assms]) (simp_all add: s1_def)
  have same: "find (job_has_url s1 url) (staticJobList s1) = find (job_has_url s url) (staticJobList s)"
    by (simp add: s1_def job_has_url_def[abs_def])
  show ?thesis
    unfolding slotURLRequest_def s1_def[symmetric] Let_def
    using s1 assms start_job_inv[OF s1, of i url E] same
    by (auto split: option.splits intro: cache_inv_cong[OF assms] cache_inv_cong[OF s1])
qed

lemma next_todo_inv: "cache_inv X s \<Longrightarrow> cache_inv X (next_todo E i s)"
  unfolding next_todo_def
  by (auto split: list.splits intro!: slotURLRequest_inv intro: cache_inv_cong)

lemma end_of_job_inv:
  assumes inv: "cache_inv {} s" and jb: "cache_jobs s j = Some jb" "j_connected jb"
    and t: "t = s \<or> t = disconnect j s"
  shows "cache_inv {j} (upd_inst (j_owner jb) (\<lambda>c. c\<lparr>instanceJobList := remove1 j (instanceJobList c)\<rparr>)
    (static_remove j (tell_all E jb (enter_file jb t))))"
proof -
  define u where "u = upd_inst (j_owner jb) (\<lambda>c. c\<lparr>instanceJobList := remove1 j (instanceJobList c)\<rparr>)
    (static_remove j (tell_all E jb (enter_file jb t)))"
  have jobs: "\<And>k. k \<noteq> j \<Longrightarrow> cache_jobs u k = cache_jobs s k"
    and run: "running u - {j} = running s - {j}"
    and owner: "map_option j_owner (cache_jobs u j) = Some (j_owner jb)"
    and domu: "dom (cache_jobs u) = dom (cache_jobs s)"
    using t jb by (auto simp: u_def running_def split: if_splits)
  have static: "staticJobList u = remove1 j (staticJobList s)" "fileId u = fileId s" "instanceList u = instanceList s"
    using t by (auto simp: u_def)
  have inst: "instanceJobList (inst_of u k) =
    (if k = j_owner jb then remove1 j (instanceJobList (inst_of s k)) else instanceJobList (inst_of s k))" for k
    using t by (auto simp: u_def)
  have "distinct (instanceJobList (inst_of u k)) \<and> length (instanceJobList (inst_of u k)) \<le> MAX_JOBS \<and>
      set (instanceJobList (inst_of u k)) = {i \<in> running u - {j}. \<exists>jb. cache_jobs u i = Some jb \<and> j_owner jb = k}" for k
  proof -
    have *: "distinct (instanceJobList (inst_of s k))" "length (instanceJobList (inst_of s k)) \<le> MAX_JOBS"
      "set (instanceJobList (inst_of s k)) = {i \<in> running s. \<exists>jb. cache_jobs s i = Some jb \<and> j_owner jb = k}"
      using inv by (auto simp: cache_inv_def)
    have "set (instanceJobList (inst_of u k)) = {i \<in> running s - {j}. \<exists>jb. cache_jobs s i = Some jb \<and> j_owner jb = k}"
      using * jb by (auto simp: inst)
    also have "\<dots> = {i \<in> running u - {j}. \<exists>jb. cache_jobs u i = Some jb \<and> j_owner jb = k}"
      unfolding run using jobs by auto
    finally show ?thesis
      using * by (auto simp: inst length_remove1)
  qed
  moreover have "inj_on (\<lambda>i. map_option j_url (cache_jobs u i)) (running u - {j})"
    using inv jobs unfolding run by (auto simp: cache_inv_def inj_on_def)
  moreover have "distinct (staticJobList u)" "set (staticJobList u) = running u - {j}"
    unfolding run using inv by (auto simp: cache_inv_def static)
  moreover have "dom (cache_jobs u) \<subseteq> {..<fileId u}" "{j} \<subseteq> {..<fileId u}" "distinct (instanceList u)"
    using inv jb by (auto simp: cache_inv_def static domu)
  ultimately show ?thesis
    unfolding cache_inv_def u_def[symmetric] by blast
qed

text \<open>A job that has ended stays as it is while the next request starts.\<close>

lemma slotURLRequest_old_job:
  "k < fileId s \<Longrightarrow> cache_jobs (slotURLRequest E i url s) k = cache_jobs s k"
  by (auto simp: slotURLRequest_def start_job_def Let_def split: option.splits)

lemma next_todo_old_job: "k < fileId s \<Longrightarrow> cache_jobs (next_todo E i s) k = cache_jobs s k"
  by (auto simp: next_todo_def slotURLRequest_old_job split: list.splits)

lemma job_done_inv:
  assumes inv: "cache_inv {} s"
  shows "cache_inv {} (job_done E j s)"
proof (cases "cache_jobs s j")
  case (Some jb)
  show ?thesis
  proof (cases "j_connected jb")
    case True
    define t where "t = slotJobFinished E (j_owner jb) j jb s"
    have t: "cache_inv {j} t"
      unfolding t_def slotJobFinished_def Let_def
      by (intro next_todo_inv end_of_job_inv[OF inv Some True]) simp
    have "job_done E j s = t\<lparr>cache_jobs := (cache_jobs t)(j := None)\<rparr>"
      using Some True by (simp add: job_done_def t_def Let_def)
    moreover have "cache_inv {} (t\<lparr>cache_jobs := (cache_jobs t)(j := None)\<rparr>)"
    proof -
      have run: "running (t\<lparr>cache_jobs := (cache_jobs t)(j := None)\<rparr>) = running t - {j}"
        by (auto simp: running_def)
      show ?thesis
        using t unfolding cache_inv_def run
        by (auto simp: inj_on_def split: if_splits)
    qed
    ultimately show ?thesis by simp
  next
    case False
    have run: "running (s\<lparr>cache_jobs := (cache_jobs s)(j := None)\<rparr>) = running s"
      using Some False by (auto simp: running_def)
    have "cache_inv {} (s\<lparr>cache_jobs := (cache_jobs s)(j := None)\<rparr>)"
      using inv Some False unfolding cache_inv_def run by (auto simp: inj_on_def running_def)
    then show ?thesis
      using Some False by (simp add: job_done_def)
  qed
qed (use inv in \<open>simp add: job_done_def\<close>)

lemma slotError_inv:
  assumes inv: "cache_inv {} s"
  shows "cache_inv {} (slotError E j s)"
proof (cases "\<exists>jb. cache_jobs s j = Some jb \<and> j_connected jb")
  case True
  then obtain jb where jb: "cache_jobs s j = Some jb" "j_connected jb" by blast
  define u where "u = upd_inst (j_owner jb) (\<lambda>c. c\<lparr>instanceJobList := remove1 j (instanceJobList c)\<rparr>)
    (static_remove j (tell_all E jb (enter_file jb (disconnect j s))))"
  define t where "t = next_todo E (j_owner jb) u"
  have u: "cache_inv {j} u"
    unfolding u_def by (rule end_of_job_inv[OF inv jb]) simp
  then have t: "cache_inv {j} t"
    unfolding t_def by (rule next_todo_inv)
  have "j < fileId u" using u by (auto simp: cache_inv_def)
  then have "cache_jobs t j = cache_jobs u j" by (simp add: t_def next_todo_old_job)
  then have "j \<notin> running t" using jb by (auto simp: running_def u_def)
  then have "running t - {j} = running t" by simp
  then have "cache_inv {} t"
    using t unfolding cache_inv_def by simp
  moreover have "slotError E j s = t"
    using jb by (simp add: slotError_def slotJobFinished_def t_def u_def Let_def)
  ultimately show ?thesis by simp
qed (use inv in \<open>auto simp: slotError_def split: option.splits\<close>)

lemma cache_inv_static:
  "cache_inv {} s \<Longrightarrow> cache_inv {} (s\<lparr>static_cur := c\<rparr>)"
  by (erule cache_inv_cong) simp_all

lemma static_remove_gone:
  "j \<notin> set (staticJobList s) \<Longrightarrow> cache_inv {} s \<Longrightarrow> cache_inv {} (static_remove j s)"
  by (elim cache_inv_cong) (simp_all add: remove1_idem)

lemma job_done_gone:
  assumes "cache_inv {} s"
  shows "j \<notin> set (staticJobList (job_done E j s))"
proof -
  have "cache_jobs (job_done E j s) j = None"
    by (auto simp: job_done_def Let_def split: option.splits)
  with job_done_inv[OF assms, of E j] show ?thesis
    by (auto simp: cache_inv_def running_def)
qed

lemma slotCancelURLRequest_inv:
  assumes "cache_inv {} s"
  shows "cache_inv {} (slotCancelURLRequest E i url s)"
proof -
  define s1 where "s1 = upd_inst i (\<lambda>c. c\<lparr>waitingURLList := remove1 url (waitingURLList c)\<rparr>) s"
  have s1: "cache_inv {} s1"
    by (rule cache_inv_cong[OF assms]) (simp_all add: s1_def)
  show ?thesis
    unfolding slotCancelURLRequest_def s1_def[symmetric] Let_def
    using s1 job_done_gone[OF s1] job_done_inv[OF s1]
    by (auto split: option.splits intro: cache_inv_static static_remove_gone)
qed

lemma stop_jobs:
  assumes "distinct js" "distinct (staticJobList s)"
  shows "staticJobList (foldl (\<lambda>s j. stop_job E j s) s js) = filter (\<lambda>j. j \<notin> set js) (staticJobList s)"
    "cache_jobs (foldl (\<lambda>s j. stop_job E j s) s js) = cache_jobs s |` (- set js)"
    "fileId (foldl (\<lambda>s j. stop_job E j s) s js) = fileId s"
    "instanceList (foldl (\<lambda>s j. stop_job E j s) s js) = instanceList s"
    "inst_of (foldl (\<lambda>s j. stop_job E j s) s js) = inst_of s"
proof -
  have one: "staticJobList (stop_job E j s) = remove1 j (staticJobList s)"
    "cache_jobs (stop_job E j s) = (cache_jobs s)(j := None)" "fileId (stop_job E j s) = fileId s"
    "instanceList (stop_job E j s) = instanceList s" "inst_of (stop_job E j s) = inst_of s" for j s
    by (auto simp: stop_job_def job_done_def Let_def split: option.splits)
  show "fileId (foldl (\<lambda>s j. stop_job E j s) s js) = fileId s"
    "instanceList (foldl (\<lambda>s j. stop_job E j s) s js) = instanceList s"
    "inst_of (foldl (\<lambda>s j. stop_job E j s) s js) = inst_of s"
    by (induction js arbitrary: s) (simp_all add: one)
  show "cache_jobs (foldl (\<lambda>s j. stop_job E j s) s js) = cache_jobs s |` (- set js)"
    by (induction js arbitrary: s) (auto simp: one restrict_map_def fun_eq_iff)
  show "staticJobList (foldl (\<lambda>s j. stop_job E j s) s js) = filter (\<lambda>j. j \<notin> set js) (staticJobList s)"
    using assms(2)
  proof (induction js arbitrary: s)
    case (Cons j js)
    then have "distinct (staticJobList (stop_job E j s))" by (simp add: one)
    with Cons.IH[of "stop_job E j s"] Cons.prems show ?case
      by (auto simp: one distinct_remove1_removeAll removeAll_filter_not_eq intro!: filter_cong)
  qed simp
qed

lemma stop_inv:
  assumes inv: "cache_inv {} s"
  shows "cache_inv {} (stop E i s)"
proof -
  define js where "js = instanceJobList (inst_of s i)"
  define t where "t = stop E i s"
  have d: "distinct js" and js: "set js = {j \<in> running s. \<exists>jb. cache_jobs s j = Some jb \<and> j_owner jb = i}"
    using inv by (auto simp: cache_inv_def js_def)
  have "distinct (staticJobList s)" using inv by (simp add: cache_inv_def)
  note f = stop_jobs[OF d this, of E]
  have static: "staticJobList t = filter (\<lambda>j. j \<notin> set js) (staticJobList s)" "fileId t = fileId s"
    "instanceList t = instanceList s" "cache_jobs t = cache_jobs s |` (- set js)"
    by (simp_all add: t_def stop_def f flip: js_def)
  have inst: "instanceJobList (inst_of t k) = (if k = i then [] else instanceJobList (inst_of s k))" for k
    by (simp add: t_def stop_def f flip: js_def)
  have run: "running t = running s - set js"
    by (auto simp: running_def static restrict_map_def split: if_splits)
  have "distinct (instanceJobList (inst_of t k)) \<and> length (instanceJobList (inst_of t k)) \<le> MAX_JOBS \<and>
      set (instanceJobList (inst_of t k)) = {i \<in> running t - {}. \<exists>jb. cache_jobs t i = Some jb \<and> j_owner jb = k}" for k
  proof -
    have *: "distinct (instanceJobList (inst_of s k))" "length (instanceJobList (inst_of s k)) \<le> MAX_JOBS"
      "set (instanceJobList (inst_of s k)) = {i \<in> running s. \<exists>jb. cache_jobs s i = Some jb \<and> j_owner jb = k}"
      using inv by (auto simp: cache_inv_def)
    show ?thesis
      using * by (auto simp: inst run static js restrict_map_def)
  qed
  moreover have "inj_on (\<lambda>i. map_option j_url (cache_jobs t i)) (running t - {})"
    using inv by (auto simp: cache_inv_def inj_on_def run static)
  moreover have "distinct (staticJobList t)" "set (staticJobList t) = running t - {}"
    using inv by (auto simp: cache_inv_def static run)
  moreover have "dom (cache_jobs t) \<subseteq> {..<fileId t}" "{} \<subseteq> {..<fileId t}" "distinct (instanceList t)"
    using inv by (auto simp: cache_inv_def static)
  ultimately show ?thesis
    unfolding cache_inv_def t_def[symmetric] by blast
qed

subsection \<open>The cache as a state machine\<close>

text \<open>
  What can happen: views come and go, request and cancel URLs; jobs end or fail; the cache is read,
  written, cleared, switched on and off; and the files change, because jobs and other programs write
  them. \<open>quit\<close> is the end of the program and not a step.
\<close>

inductive cache_step :: "html_cache \<Rightarrow> html_cache \<Rightarrow> bool" where
  step_new: "i \<notin> set (instanceList s) \<Longrightarrow> instanceJobList (inst_of s i) = [] \<Longrightarrow> cache_step s (new_HTMLCache i s)"
| step_delete: "cache_step s (delete_HTMLCache i (stop E i s))"
| step_request: "cache_step s (slotURLRequest E i url s)"
| step_cancel: "cache_step s (slotCancelURLRequest E i url s)"
| step_done: "cache_step s (job_done E j s)"
| step_error: "cache_step s (slotError E j s)"
| step_stop: "cache_step s (stop E i s)"
| step_checkin: "cache_step s (slotCheckinURL E ok url data s)"
| step_enable: "cache_step s (enableCache b s)"
| step_save: "cache_step s (save_cache E op px md it s)"
| step_load: "cache_step s (load_cache E names d s)"
| step_clear: "cache_step s (clear_cache E d ul op px md it s)"
| step_cfiles: "cache_step s (s\<lparr>cfiles := fs\<rparr>)"

inductive cache_reachable :: "html_cache \<Rightarrow> bool" where
  cache_start: "cache_reachable (InitStatic fs)"
| cache_next: "cache_reachable s \<Longrightarrow> cache_step s s' \<Longrightarrow> cache_reachable s'"

lemma slotCheckinURL_inv: "cache_inv {} s \<Longrightarrow> cache_inv {} (slotCheckinURL E ok url data s)"
  by (auto simp: slotCheckinURL_def cache_inv_def running_def Let_def less_Suc_eq)

lemma save_cache_frame [simp]:
  "staticJobList (save_cache E op px md it s) = staticJobList s" "cache_jobs (save_cache E op px md it s) = cache_jobs s"
  "fileId (save_cache E op px md it s) = fileId s" "instanceList (save_cache E op px md it s) = instanceList s"
  "inst_of (save_cache E op px md it s) = inst_of s"
  by (simp_all add: save_cache_def Let_def)

lemma clear_cache_inv: "cache_inv {} s \<Longrightarrow> cache_inv {} (clear_cache E d ul op px md it s)"
  by (erule cache_inv_cong) (simp_all add: clear_cache_def Let_def split: prod.splits)

lemma load_cache_inv: "cache_inv {} s \<Longrightarrow> cache_inv {} (load_cache E names d s)"
  by (erule cache_inv_cong) (simp_all add: load_cache_def Let_def split: option.splits)

lemma cache_step_inv: "cache_step s s' \<Longrightarrow> cache_inv {} s \<Longrightarrow> cache_inv {} s'"
proof (induction rule: cache_step.induct)
  case (step_new i s)
  have "cache_inv {} (s\<lparr>instanceList := instanceList s @ [i]\<rparr>)"
    using step_new by (simp add: cache_inv_def running_def)
  then show ?case
    using step_new unfolding new_HTMLCache_def
    by (elim cache_inv_cong) (simp_all add: new_instance_def)
next
  case (step_delete s i E)
  have "cache_inv {} (stop E i s)" by (rule stop_inv) fact
  then show ?case
    by (simp add: delete_HTMLCache_def cache_inv_def running_def)
qed (auto intro: slotURLRequest_inv slotCancelURLRequest_inv job_done_inv slotError_inv stop_inv slotCheckinURL_inv
      clear_cache_inv load_cache_inv cache_inv_cong simp: enableCache_def)

lemma cache_reachable_inv: "cache_reachable s \<Longrightarrow> cache_inv {} s"
proof (induction rule: cache_reachable.induct)
  case (cache_start fs)
  show ?case by (simp add: cache_inv_def InitStatic_def running_def new_instance_def)
qed (rule cache_step_inv)

text \<open>C34: In every state that the views, the network and the user can bring about, no view has more than
  \<open>MAX_JOBS\<close> jobs, the jobs of a view are exactly the connected jobs it owns, the static list holds
  each running job once and no other, and no URL is loaded by two jobs at the same time.\<close>

theorem html_cache_invariant:
  assumes "cache_reachable s"
  shows "(\<forall>i. length (instanceJobList (inst_of s i)) \<le> MAX_JOBS \<and>
      set (instanceJobList (inst_of s i)) = {j \<in> running s. \<exists>jb. cache_jobs s j = Some jb \<and> j_owner jb = i}) \<and>
    distinct (staticJobList s) \<and> set (staticJobList s) = running s \<and>
    distinct (map (\<lambda>j. map_option j_url (cache_jobs s j)) (staticJobList s))"
  using cache_reachable_inv[OF assms] by (auto simp: cache_inv_def distinct_map)

subsection \<open>Two views and one URL\<close>

lemma loaded_urlLoaded:
  "(k, u, f) \<in> set (loaded (urlLoaded E jb i s)) \<Longrightarrow>
    (k, u, f) \<in> set (loaded s) \<or> (k = i \<and> waitsForURL i (j_url jb) s \<and> u = j_url jb)"
  by (auto simp: urlLoaded_def split: if_splits)

lemma waitsForURL_urlLoaded: "waitsForURL k u (urlLoaded E jb i s) \<Longrightarrow> waitsForURL k u s"
  by (auto simp: urlLoaded_def waitsForURL_def split: if_splits dest: subsetD[OF set_remove1_subset])

lemma loaded_foldl:
  "(k, u, f) \<in> set (loaded (foldl (\<lambda>s i. urlLoaded E jb i s) s is)) \<Longrightarrow>
    (k, u, f) \<in> set (loaded s) \<or> waitsForURL k (j_url jb) s"
proof (induction "is" arbitrary: s)
  case (Cons i "is")
  then have "(k, u, f) \<in> set (loaded (urlLoaded E jb i s)) \<or> waitsForURL k (j_url jb) (urlLoaded E jb i s)"
    by simp
  then show ?case
    by (auto dest: loaded_urlLoaded waitsForURL_urlLoaded)
qed simp

lemma loaded_request:
  "(k, u, f) \<in> set (loaded (slotURLRequest E i url s)) \<Longrightarrow> (k, u, f) \<in> set (loaded s) \<or> k = i"
  by (auto simp: slotURLRequest_def start_job_def Let_def split: option.splits if_splits)

lemma loaded_next_todo:
  "(k, u, f) \<in> set (loaded (next_todo E i s)) \<Longrightarrow> (k, u, f) \<in> set (loaded s) \<or> k = i"
  by (auto simp: next_todo_def split: list.splits dest: loaded_request)

lemma loaded_job_done:
  assumes "(k, u, f) \<in> set (loaded (job_done E j s))" "cache_jobs s j = Some jb" "k \<noteq> j_owner jb"
  shows "(k, u, f) \<in> set (loaded s) \<or> waitsForURL k (j_url jb) s"
  using assms
  by (auto simp: job_done_def slotJobFinished_def Let_def tell_all_def waitsForURL_def split: if_splits
      dest!: loaded_next_todo loaded_foldl)

text \<open>A view that requests a URL which is being loaded for another view is never told that it is
  there: the request is dropped without a note that the view waits, and the end of the job emits nothing
  for it. (The header file says that one job may serve several widgets.)\<close>

theorem second_view_not_served:
  assumes "cache_reachable s" "cache_jobs s j = Some jb" "j_connected jb"
    "\<not> (bCacheEnabled s \<and> urlDict s (j_url jb) \<noteq> None)" "k \<noteq> j_owner jb" "\<not> waitsForURL k (j_url jb) s"
    "(k, u, f) \<in> set (loaded (job_done E' j (slotURLRequest E k (j_url jb) s)))"
  shows "(k, u, f) \<in> set (loaded s)"
proof -
  have "j \<in> set (staticJobList s)"
    using cache_reachable_inv[OF assms(1)] assms(2,3) by (auto simp: cache_inv_def running_def)
  moreover have "job_has_url s (j_url jb) j" using assms(2) by (simp add: job_has_url_def)
  ultimately obtain i where "find (job_has_url s (j_url jb)) (staticJobList s) = Some i"
    by (cases "find (job_has_url s (j_url jb)) (staticJobList s)") (auto simp: find_None_iff)
  then have eq: "slotURLRequest E k (j_url jb) s = s\<lparr>static_cur := position i (staticJobList s)\<rparr>"
    using assms(4) by (auto simp: slotURLRequest_def)
  show ?thesis
    using loaded_job_done[OF assms(7), of jb] assms(2,5,6) by (simp add: eq waitsForURL_def)
qed

subsection \<open>Cancelled jobs\<close>

lemma slotURLRequest_dict [simp]: "urlDict (slotURLRequest E i url s) = urlDict s"
  by (simp add: slotURLRequest_def start_job_def Let_def split: option.splits)

lemma next_todo_dict [simp]: "urlDict (next_todo E i s) = urlDict s"
  by (simp add: next_todo_def split: list.splits)

lemma job_done_dict:
  "cache_jobs s j = Some jb \<Longrightarrow> j_connected jb \<Longrightarrow> urlDict (job_done E j s) = urlDict (enter_file jb s)"
  by (simp add: job_done_def slotJobFinished_def Let_def)

text \<open>Cancelling a request enters what has been loaded so far into the cache, as if the document
  were complete: the next request for the URL is answered with the truncated file.\<close>

theorem cancelled_job_is_cached:
  assumes "cache_reachable s" "cache_jobs s j = Some jb" "j_connected jb"
    "waitingURLList (inst_of s i) = [j_url jb]" "\<forall>k\<in>set (instanceList s). k \<noteq> i \<longrightarrow> \<not> waitsForURL k (j_url jb) s"
    "cfiles s (drop 5 (j_dest jb)) = Some part" "part \<noteq> []"
  shows "isCached (j_url jb) (slotCancelURLRequest E i (j_url jb) s) = Some (drop 5 (j_dest jb))"
proof -
  let ?u = "j_url jb"
  define s1 where "s1 = upd_inst i (\<lambda>c. c\<lparr>waitingURLList := remove1 ?u (waitingURLList c)\<rparr>) s"
  have s1: "cache_inv {} s1"
    by (rule cache_inv_cong[OF cache_reachable_inv[OF assms(1)]]) (simp_all add: s1_def)
  have nobody: "\<not> list_ex (\<lambda>p. waitsForURL p ?u s1) (instanceList s1)"
    using assms(4,5) by (auto simp: list_ex_iff waitsForURL_def s1_def)
  have "j \<in> running s1" using assms(2,3) by (auto simp: running_def s1_def)
  then have j: "j \<in> set (staticJobList s1)" "job_has_url s1 ?u j"
    using s1 assms(2) by (auto simp: cache_inv_def job_has_url_def s1_def)
  then obtain i' where i': "find (job_has_url s1 ?u) (staticJobList s1) = Some i'"
    by (cases "find (job_has_url s1 ?u) (staticJobList s1)") (auto simp: find_None_iff)
  then have "i' \<in> set (staticJobList s1)" "job_has_url s1 ?u i'"
    by (auto simp: find_Some_iff)
  then have "i' = j"
    using s1 j assms(2) by (auto simp: cache_inv_def inj_on_def job_has_url_def split: option.splits)
  then have "slotCancelURLRequest E i ?u s = static_remove j (job_done E j s1)"
    using nobody i' by (simp add: slotCancelURLRequest_def Let_def flip: s1_def)
  moreover have "urlDict (job_done E j s1) ?u = Some (drop 5 (j_dest jb))"
    using assms(2,3,6,7) by (simp add: job_done_dict s1_def enter_file_def)
  ultimately show ?thesis by (simp add: isCached_def)
qed

subsection \<open>The queue\<close>

definition waits :: "html_cache \<Rightarrow> nat \<Rightarrow> string \<Rightarrow> nat" where
  "waits s i url = count (mset (waitingURLList (inst_of s i))) url"

lemma waits_waitsForURL: "waitsForURL i url s \<longleftrightarrow> 0 < waits s i url"
  by (simp add: waits_def waitsForURL_def)

lemma waits_urlLoaded:
  "waits (urlLoaded E jb i s) k url = waits s k url - (if k = i \<and> url = j_url jb then 1 else 0)"
proof (cases "j_url jb \<in> set (waitingURLList (inst_of s i))")
  case False
  then have "waits s i (j_url jb) = 0" by (simp add: waits_def)
  with False show ?thesis by (cases "k = i \<and> url = j_url jb") (auto simp: urlLoaded_def waitsForURL_def)
qed (auto simp: waits_def urlLoaded_def waitsForURL_def)

lemma waits_foldl:
  "waits (foldl (\<lambda>s i. urlLoaded E jb i s) s is) k url =
    waits s k url - (if url = j_url jb then count (mset is) k else 0)"
  by (induction "is" arbitrary: s) (auto simp: waits_urlLoaded)

lemma waits_tell_all:
  assumes "distinct (instanceList s)"
  shows "waits s k url - (if url = j_url jb then 1 else 0) \<le> waits (tell_all E jb s) k url"
proof -
  have "count (mset (instanceList s)) k \<le> 1"
    using assms by (simp add: distinct_count_atmost_1)
  then show ?thesis by (auto simp: tell_all_def waits_foldl intro: diff_le_mono2)
qed

lemma waits_request: "waits s k u \<le> waits (slotURLRequest E i url s) k u"
  by (simp add: waits_def slotURLRequest_def start_job_def Let_def split: option.splits)

lemma waits_next_todo: "waits s k u \<le> waits (next_todo E i s) k u"
proof (cases "todoURLList (inst_of s i)")
  case (Cons url rest)
  have "waits s k u = waits (upd_inst i (\<lambda>c. c\<lparr>todoURLList := rest\<rparr>) s) k u"
    by (simp add: waits_def)
  then show ?thesis
    using waits_request Cons by (simp add: next_todo_def)
qed (simp add: next_todo_def)

text \<open>The state in which the next queued request is taken up when the job \<open>j\<close> has ended.\<close>

definition ended :: "cache_env \<Rightarrow> nat \<Rightarrow> cache_job \<Rightarrow> html_cache \<Rightarrow> html_cache" where
  "ended E j jb s = upd_inst (j_owner jb) (\<lambda>c. c\<lparr>instanceJobList := remove1 j (instanceJobList c)\<rparr>)
    (static_remove j (tell_all E jb (enter_file jb s)))"

lemma job_done_ended:
  "cache_jobs s j = Some jb \<Longrightarrow> j_connected jb \<Longrightarrow>
    job_done E j s = (next_todo E (j_owner jb) (ended E j jb s))
      \<lparr>cache_jobs := (cache_jobs (next_todo E (j_owner jb) (ended E j jb s)))(j := None)\<rparr>"
  by (simp add: job_done_def slotJobFinished_def ended_def Let_def)

lemma waits_ended:
  assumes "distinct (instanceList s)"
  shows "waits s k url - (if url = j_url jb then 1 else 0) \<le> waits (ended E j jb s) k url"
proof -
  have "waits (ended E j jb s) k url = waits (tell_all E jb (enter_file jb s)) k url"
    by (simp add: waits_def ended_def)
  moreover have "waits (enter_file jb s) k url = waits s k url" by (simp add: waits_def)
  ultimately show ?thesis using waits_tell_all[of "enter_file jb s" k url jb E] assms by simp
qed

lemma waits_job_done:
  assumes "cache_inv {} s" "cache_jobs s j = Some jb" "j_connected jb"
  shows "waits s k url - (if url = j_url jb then 1 else 0) \<le> waits (job_done E j s) k url"
proof -
  have "waits (job_done E j s) k url = waits (next_todo E (j_owner jb) (ended E j jb s)) k url"
    by (simp add: job_done_ended[OF assms(2,3)] waits_def)
  with waits_ended[of s k url jb E j] waits_next_todo[of "ended E j jb s" k url E "j_owner jb"] assms(1)
  show ?thesis by (simp add: cache_inv_def)
qed

text \<open>A request that had to wait in \<open>todoURLList\<close> is entered twice into the list of the URLs that
  the view waits for, once when it is made and once when it is taken from the queue; one entry is left
  when its job has ended. The view goes on waiting for a document that it has.\<close>

theorem queued_request_waits_on:
  assumes "cache_reachable s" "cache_jobs s j = Some jb" "j_connected jb" "j_owner jb = i"
    "todoURLList (inst_of s i) = url # rest" "waitsForURL i url s" "j_url jb \<noteq> url"
    "\<not> bCacheEnabled s" "find (job_has_url s url) (staticJobList s) = None"
  shows "let s1 = job_done E j s; s2 = job_done E' (fileId s) s1
    in (\<exists>jb'. cache_jobs s1 (fileId s) = Some jb' \<and> j_url jb' = url) \<and> waitsForURL i url s2"
proof -
  have inv: "cache_inv {} s" by (rule cache_reachable_inv) fact
  define u where "u = upd_inst i (\<lambda>c. c\<lparr>todoURLList := rest\<rparr>) (ended E j jb s)"
  define s1 where "s1 = job_done E j s"
  define n where "n = fileId s"
  have "j \<noteq> n" using inv assms(2) by (auto simp: cache_inv_def n_def)
  have "length (instanceJobList (inst_of s i)) \<le> MAX_JOBS" "j \<in> set (instanceJobList (inst_of s i))"
    using inv assms(2-4) by (auto simp: cache_inv_def running_def)
  then have few: "length (instanceJobList (inst_of u i)) \<noteq> MAX_JOBS"
    using assms(4) by (simp add: u_def ended_def length_remove1 MAX_JOBS_def)
  have "find (job_has_url u url) (staticJobList u) = None"
    using assms(9) by (auto simp: find_None_iff u_def ended_def job_has_url_def dest: notin_set_remove1)
  then have req: "slotURLRequest E i url u =
      start_job E i url (upd_inst i (\<lambda>c. c\<lparr>waitingURLList := waitingURLList c @ [url]\<rparr>) (u\<lparr>static_cur := None\<rparr>))"
    using assms(8) few by (simp add: slotURLRequest_def u_def ended_def)
  have next_eq: "next_todo E i (ended E j jb s) = slotURLRequest E i url u"
    using assms(4,5) by (simp add: next_todo_def u_def ended_def)
  have job: "cache_jobs s1 n = Some \<lparr>j_url = url, j_dest = dest_url E url n, j_owner = i, j_connected = True\<rparr>"
    using \<open>j \<noteq> n\<close> assms(2-4)
    by (simp add: s1_def job_done_ended next_eq req start_job_def Let_def n_def) (simp add: u_def ended_def n_def)
  have "waits s1 i url = Suc (waits (ended E j jb s) i url)"
    using assms(2-4) by (simp add: s1_def job_done_ended next_eq req start_job_def Let_def waits_def)
      (simp add: u_def)
  moreover have "0 < waits (ended E j jb s) i url"
    using waits_ended[of s i url jb E j] inv assms(6,7) by (simp add: cache_inv_def waits_waitsForURL)
  ultimately have "2 \<le> waits s1 i url" by simp
  moreover have "cache_inv {} s1" unfolding s1_def by (rule job_done_inv[OF inv])
  ultimately have "0 < waits (job_done E' n s1) i url"
    using waits_job_done[of s1 n _ i url E', OF _ job] by simp
  then show ?thesis
    using job by (simp add: Let_def waits_waitsForURL flip: s1_def n_def)
qed

subsection \<open>The end of the program\<close>

fun every_second :: "'a list \<Rightarrow> 'a list" where
  "every_second [] = []"
| "every_second [x] = [x]"
| "every_second (x # y # zs) = x # every_second zs"

lemma split_short: "length zs \<le> 1 \<Longrightarrow> every_second (x # zs) = [x]"
  by (cases zs) auto

lemma position_nth:
  "distinct xs \<Longrightarrow> c < length xs \<Longrightarrow> position (xs ! c) xs = Some c"
  by (induction xs arbitrary: c) (auto simp: nth_Cons' split: if_splits)

lemma remove1_nth:
  assumes "distinct xs" "c < length xs"
  shows "remove1 (xs ! c) xs = take c xs @ drop (Suc c) xs"
proof -
  have "xs = take c xs @ xs ! c # drop (Suc c) xs" by (simp add: id_take_nth_drop assms(2))
  moreover from this assms(1) have "xs ! c \<notin> set (take c xs)"
    by (metis distinct_append disjoint_iff list.set_intros(1))
  ultimately show ?thesis by (metis remove1.simps(2) remove1_append)
qed

text \<open>The end of a job when no request is queued.\<close>

lemma job_done_no_todo:
  assumes "cache_jobs s j = Some jb" "j_connected jb" "\<forall>i. todoURLList (inst_of s i) = []"
  shows "staticJobList (job_done E j s) = remove1 j (staticJobList s)"
    "static_cur (job_done E j s) = static_cur (static_remove j s)"
    "cache_jobs (job_done E j s) = (cache_jobs s)(j := None)"
    "todoURLList (inst_of (job_done E j s) i) = []"
  using assms by (simp_all add: job_done_def slotJobFinished_def next_todo_def static_remove_def Let_def cong: option.case_cong split: option.splits)

lemma quit_loop_no_todo:
  assumes "cache_inv {} s" "\<forall>i. todoURLList (inst_of s i) = []" "static_cur s = Some c"
    "length (staticJobList s) - c \<le> n"
  shows "cache_jobs (quit_loop n E s) =
    (\<lambda>j. if j \<in> set (every_second (drop c (staticJobList s))) then None else cache_jobs s j)"
  using assms
proof (induction n arbitrary: s c)
  case (Suc n)
  let ?xs = "staticJobList s"
  show ?case
  proof (cases "c < length ?xs")
    case True
    define j where "j = ?xs ! c"
    define t where "t = job_done E j s"
    have d: "distinct ?xs" using Suc.prems(1) by (simp add: cache_inv_def)
    have "j \<in> running s" using Suc.prems(1) True by (auto simp: cache_inv_def j_def)
    then obtain jb where jb: "cache_jobs s j = Some jb" "j_connected jb" by (auto simp: running_def)
    note fin = job_done_no_todo[OF jb Suc.prems(2), of E, folded t_def]
    have xs: "staticJobList t = take c ?xs @ drop (Suc c) ?xs"
      using d True by (simp add: fin j_def remove1_nth)
    have len: "length (staticJobList t) = length ?xs - 1" using True by (simp add: xs)
    have split: "drop c ?xs = j # drop (Suc c) ?xs" by (simp add: Cons_nth_drop_Suc True j_def)
    have pos: "position j ?xs = Some c" by (simp add: j_def position_nth d True)
    have t: "cache_inv {} t" unfolding t_def by (rule job_done_inv) fact
    have step: "quit_loop (Suc n) E s = quit_loop n E (t\<lparr>static_cur := (case static_cur t of None \<Rightarrow> None
        | Some k \<Rightarrow> if Suc k < length (staticJobList t) then Some (Suc k) else None)\<rparr>)"
      using Suc.prems(3) True by (simp add: Let_def flip: t_def j_def)
    show ?thesis
    proof (cases "Suc (Suc c) < length ?xs")
      case more: True
      then have "quit_loop (Suc n) E s = quit_loop n E (t\<lparr>static_cur := Some (Suc c)\<rparr>)"
        using len pos fin(1) unfolding step by (simp add: fin(2) static_remove_def Let_def)
      moreover have "cache_jobs (quit_loop n E (t\<lparr>static_cur := Some (Suc c)\<rparr>)) =
          (\<lambda>i. if i \<in> set (every_second (drop (Suc c) (staticJobList t))) then None else cache_jobs t i)"
        using Suc.IH[of "t\<lparr>static_cur := Some (Suc c)\<rparr>" "Suc c"] cache_inv_static[OF t] fin(4) Suc.prems(4) len
        by (simp cong: if_cong)
      moreover have "drop (Suc c) (staticJobList t) = drop (Suc (Suc c)) ?xs"
        using True by (simp add: xs)
      moreover have "every_second (drop c ?xs) = j # every_second (drop (Suc (Suc c)) ?xs)"
        using more unfolding split by (simp flip: Cons_nth_drop_Suc)
      ultimately show ?thesis by (auto simp: fin(3) fun_eq_iff)
    next
      case False
      then have "quit_loop (Suc n) E s = quit_loop n E (t\<lparr>static_cur := None\<rparr>)"
        using len pos fin(1) True unfolding step by (auto simp: fin(2) static_remove_def Let_def)
      moreover have "quit_loop n E (t\<lparr>static_cur := None\<rparr>) = t\<lparr>static_cur := None\<rparr>"
        by (cases n) simp_all
      moreover have "every_second (drop c ?xs) = [j]"
        using False split_short[of "drop (Suc c) ?xs" j] unfolding split by simp
      ultimately show ?thesis by (auto simp: fin(3) fun_eq_iff)
    qed
  qed (use Suc.prems in simp)
qed simp

text \<open>At the end of the program, when no request is queued, \<open>quit\<close> cancels the first, the third, the fifth
  job and so on: \<open>cancel\<close> removes the job from the list that the loop is walking, and the loop steps over the
  one behind it. The others keep running. (The header file says that all running jobs are deleted.)\<close>

theorem quit_skips_jobs:
  assumes "cache_reachable s" "\<forall>i. todoURLList (inst_of s i) = []"
  shows "cache_jobs (quit E s) j =
      (if j \<in> set (every_second (staticJobList s)) then None else cache_jobs s j)"
proof -
  have inv: "cache_inv {} s" by (rule cache_reachable_inv) fact
  show ?thesis
  proof (cases "staticJobList s")
    case Nil
    then show ?thesis by (simp add: quit_def)
  next
    case (Cons x xs)
    then show ?thesis
      using quit_loop_no_todo[OF cache_inv_static[OF inv, of "Some 0"], of 0 "Suc (length (staticJobList s))" E] assms(2)
      by (simp add: quit_def Let_def)
  qed
qed

subsection \<open>The index on disk: lemmas\<close>

definition index_word :: "string \<Rightarrow> bool" where
  "index_word w \<longleftrightarrow> no_nul w \<and> LF \<notin> set w \<and> length w < 2047"

lemma fgets_index_word:
  "index_word w \<Longrightarrow> fgets 2048 (w @ LF # r) = Some (w @ [LF], r)"
  using fgets_line[of w 2048 r] by (simp add: index_word_def)

lemma chop_lf_word: "index_word w \<Longrightarrow> chop_lf (w @ [LF]) = w"
  by (simp add: index_word_def chop_lf_def right_str_def)

lemma load_index_entry:
  assumes "index_word url" "index_word f" "fs f \<noteq> None"
  shows "load_index fs (url @ [LF] @ f @ [LF] @ r) dict = load_index fs r (dict(url \<mapsto> f))"
  using assms by (subst load_index.simps) (auto simp: fgets_index_word chop_lf_word)

lemma load_index_entries:
  assumes "\<forall>(url, f)\<in>set it. index_word url \<and> index_word f \<and> fs f \<noteq> None"
  shows "load_index fs (index_txt it) dict = dict ++ map_of (rev it)"
  using assms
proof (induction it arbitrary: dict)
  case Nil
  then show ?case by (subst load_index.simps) (simp add: index_txt_def fgets_def)
next
  case (Cons e it)
  obtain url f where e: "e = (url, f)" by (cases e)
  have "index_txt (e # it) = url @ [LF] @ f @ [LF] @ index_txt it"
    by (simp add: index_txt_def e)
  moreover have "load_index fs (url @ [LF] @ f @ [LF] @ index_txt it) dict = load_index fs (index_txt it) (dict(url \<mapsto> f))"
    using Cons.prems by (intro load_index_entry) (auto simp: e)
  moreover have "\<forall>(url, f)\<in>set it. index_word url \<and> index_word f \<and> fs f \<noteq> None"
    using Cons.prems by simp
  moreover have "dict(url \<mapsto> f) ++ map_of (rev it) = dict ++ map_of (rev (e # it))"
    by (simp only: e rev.simps map_of_append map_of.simps fst_conv snd_conv map_add_assoc)
      (rule ext, simp add: map_add_def split: option.splits)
  ultimately show ?case
    using Cons.IH[of "dict(url \<mapsto> f)"] by (simp only:)
qed

text \<open>C35: The index round trip: a cache that loads the index that was saved knows exactly the URLs and files
  of the saved one, in whatever order the dictionary was written, if the files still exist and no URL
  or name holds a line feed or is longer than the line buffer.\<close>

theorem cache_index_roundtrip:
  assumes "bSaveCacheEnabled s" "fopen_ok (cachePath E @ ''/index.html'')" "fopen_ok (cachePath E @ ''/index.txt'')"
    "distinct (map fst it)" "map_of it = urlDict s"
    "\<forall>(url, f)\<in>set it. index_word url \<and> index_word f \<and> cfiles s f \<noteq> None"
  shows "urlDict (load_cache E names d (InitStatic (cfiles (save_cache E fopen_ok pixmap modified it s)))) = urlDict s"
proof -
  define fs where "fs = cfiles (save_cache E fopen_ok pixmap modified it s)"
  have fs: "fs (cachePath E @ ''/index.txt'') = Some (index_txt it)" "\<And>f. cfiles s f \<noteq> None \<Longrightarrow> fs f \<noteq> None"
    using assms(1-3) by (auto simp: fs_def save_cache_def Let_def)
  have "map_of (rev it) = map_of it"
    using assms(4) map_of_eq_Some_iff[of it] map_of_eq_Some_iff[of "rev it"]
    by (intro ext) (metis distinct_rev not_None_eq rev_map set_rev)
  moreover have "load_index fs (index_txt it) Map.empty = map_of (rev it)"
    using assms(6) fs(2) by (subst load_index_entries) auto
  ultimately show ?thesis
    using assms(5) fs(1) unfolding fs_def[symmetric]
    by (simp add: load_cache_def InitStatic_def Let_def split: option.splits)
qed

lemma sweep_files:
  "foldl (sweep_file E dict) fs ds name =
    (if \<exists>d\<in>set ds. name = cachePath E @ ''/'' @ d \<and> d \<notin> {''.'', ''..'', ''index.txt'', ''index.html''} \<and> name \<notin> ran dict
     then None else fs name)"
  by (induction ds arbitrary: fs) (auto simp: sweep_file_def Let_def)

text \<open>Loading the cache removes files of its directory only, never the index and never a file that the
  index names; and of the listed files those that are left are in the dictionary. When the directory
  cannot be read, or is a link, no file is removed.\<close>

theorem load_cache_sweeps:
  fixes E names is_dir s
  defines "s' \<equiv> load_cache E names is_dir s"
  shows "(\<forall>name. cfiles s' name \<noteq> cfiles s name \<longrightarrow>
      is_dir \<and> (\<exists>ds d. names = Some ds \<and> d \<in> set ds \<and> name = cachePath E @ ''/'' @ d \<and>
        d \<notin> {''index.txt'', ''index.html''} \<and> name \<notin> ran (urlDict s'))) \<and>
    (is_dir \<longrightarrow> (\<forall>ds d. names = Some ds \<longrightarrow> d \<in> set ds \<longrightarrow> cfiles s' (cachePath E @ ''/'' @ d) \<noteq> None \<longrightarrow>
      d \<in> {''.'', ''..'', ''index.txt'', ''index.html''} \<or> cachePath E @ ''/'' @ d \<in> ran (urlDict s')))"
  unfolding s'_def load_cache_def Let_def
  by (auto simp: sweep_files split: option.splits if_splits)

subsection \<open>Witnesses\<close>

definition sample_env :: cache_env where
  "sample_env = \<lparr>cachePath = ''/c'', clock = 7, url_filename = (\<lambda>_. ''''), dest_path = drop 5\<rparr>"

text \<open>Two views; the first loads \<open>u\<close>. And a view with four jobs and a queued request, the cache switched off.\<close>

definition two_views :: html_cache where
  "two_views = slotURLRequest sample_env 0 ''u''
     (new_HTMLCache 1 (new_HTMLCache 0 (InitStatic (\<lambda>_. Some ''x''))))"

definition full_view :: html_cache where
  "full_view = foldl (\<lambda>s url. slotURLRequest sample_env 0 url s)
     (enableCache False (new_HTMLCache 0 (InitStatic Map.empty))) [''a'', ''b'', ''c'', ''d'', ''e'']"

lemma reach_requests:
  "cache_reachable s \<Longrightarrow> cache_reachable (foldl (\<lambda>s url. slotURLRequest E i url s) s us)"
  by (induction us arbitrary: s) (auto intro: cache_next step_request)

lemma two_views_reachable: "cache_reachable two_views"
  unfolding two_views_def
  by (rule cache_next[OF cache_next[OF cache_next[OF cache_start step_new] step_new] step_request])
    (simp_all add: InitStatic_def new_HTMLCache_def new_instance_def)

lemma full_view_reachable: "cache_reachable full_view"
  unfolding full_view_def
  by (rule reach_requests, rule cache_next[OF cache_next[OF cache_start step_new] step_enable])
    (simp_all add: InitStatic_def new_instance_def)

lemmas cache_run = slotURLRequest_def start_job_def new_HTMLCache_def InitStatic_def new_instance_def
  enableCache_def upd_inst_def job_has_url_def waitsForURL_def MAX_JOBS_def Let_def

lemma two_views_facts:
  "cache_jobs two_views 0 = Some \<lparr>j_url = ''u'', j_dest = dest_url sample_env ''u'' 0, j_owner = 0, j_connected = True\<rparr>"
  "urlDict two_views = Map.empty" "waitingURLList (inst_of two_views 0) = [''u'']"
  "waitingURLList (inst_of two_views (Suc 0)) = []" "instanceList two_views = [0, 1]"
  "cfiles two_views = (\<lambda>_. Some ''x'')" "loaded two_views = []" "staticJobList two_views = [0]"
  "todoURLList (inst_of two_views i) = []" "instanceJobList (inst_of two_views 0) = [0]"
  by (simp_all add: two_views_def cache_run)

lemma full_view_facts:
  "cache_jobs full_view 0 = Some \<lparr>j_url = ''a'', j_dest = dest_url sample_env ''a'' 0, j_owner = 0, j_connected = True\<rparr>"
  "todoURLList (inst_of full_view 0) = [''e'']" "staticJobList full_view = [0, 1, 2, 3]"
  "waitingURLList (inst_of full_view 0) = [''a'', ''b'', ''c'', ''d'', ''e'']"
  "find (job_has_url full_view ''e'') (staticJobList full_view) = None"
  "\<not> bCacheEnabled full_view" "instanceJobList (inst_of full_view 0) = [0, 1, 2, 3]" "fileId full_view = 4"
  by (simp_all add: full_view_def cache_run numeral_2_eq_2 numeral_3_eq_3)

theorem html_cache_invariant_witness:
  "distinct (staticJobList full_view) \<and> length (instanceJobList (inst_of full_view 0)) \<le> 4"
  using html_cache_invariant[OF full_view_reachable] by (simp add: MAX_JOBS_def)

theorem second_view_not_served_witness:
  "(1, ''u'', ''/c/7.0'') \<notin> set (loaded (job_done sample_env 0 (slotURLRequest sample_env 1 ''u'' two_views)))"
  using second_view_not_served[OF two_views_reachable two_views_facts(1), of 1 "''u''" "''/c/7.0''" sample_env sample_env]
  by (auto simp: two_views_facts waitsForURL_def)

theorem cancelled_job_is_cached_witness:
  "isCached ''u'' (slotCancelURLRequest sample_env 0 ''u'' two_views) = Some (drop 5 (dest_url sample_env ''u'' 0))"
  using cancelled_job_is_cached[OF two_views_reachable two_views_facts(1), of 0 "''x''" sample_env]
  by (simp add: two_views_facts waitsForURL_def)

theorem queued_request_waits_on_witness:
  "waitsForURL 0 ''e'' (job_done sample_env 4 (job_done sample_env 0 full_view))"
proof -
  have "j_owner \<lparr>j_url = ''a'', j_dest = dest_url sample_env ''a'' 0, j_owner = 0, j_connected = True\<rparr> = 0"
    "waitsForURL 0 ''e'' full_view"
    "j_url \<lparr>j_url = ''a'', j_dest = dest_url sample_env ''a'' 0, j_owner = 0, j_connected = True\<rparr> \<noteq> ''e''"
    by (simp_all add: full_view_facts(4) waitsForURL_def)
  note * = queued_request_waits_on[OF full_view_reachable full_view_facts(1) _ this(1) full_view_facts(2) this(2,3)
      full_view_facts(6,5), of sample_env sample_env]
  show ?thesis using * by (simp add: full_view_facts(8) Let_def)
qed

theorem quit_skips_jobs_witness:
  "cache_jobs (quit sample_env two_views) 0 = None"
  using quit_skips_jobs[OF two_views_reachable, of sample_env 0] by (simp add: two_views_facts)

definition one_entry :: html_cache where
  "one_entry = (InitStatic [''/c/7.0'' \<mapsto> ''data''])\<lparr>urlDict := [''http://h/'' \<mapsto> ''/c/7.0'']\<rparr>"

theorem cache_index_roundtrip_witness:
  "urlDict (load_cache sample_env None False (InitStatic (cfiles
     (save_cache sample_env (\<lambda>_. True) (\<lambda>_. ''p'') (\<lambda>_. ''m'') [(''http://h/'', ''/c/7.0'')] one_entry))))
   = [''http://h/'' \<mapsto> ''/c/7.0'']"
  using cache_index_roundtrip[of one_entry "\<lambda>_. True" sample_env "[(''http://h/'', ''/c/7.0'')]" None False "\<lambda>_. ''p''" "\<lambda>_. ''m''"]
  by (simp add: one_entry_def InitStatic_def index_word_def no_nul_def)

theorem load_cache_sweeps_witness:
  "cfiles (load_cache sample_env (Some [''junk'']) True (InitStatic [''/c/junk'' \<mapsto> ''x''])) ''/c/junk'' = None \<and>
   cfiles (load_cache sample_env (Some [''junk'']) False (InitStatic [''/c/junk'' \<mapsto> ''x''])) ''/c/junk'' = Some ''x''"
proof -
  let ?s = "InitStatic [''/c/junk'' \<mapsto> ''x'']" and ?n = "''/c/junk''"
  have *: "urlDict (load_cache sample_env (Some [''junk'']) True ?s) = Map.empty"
    "cachePath sample_env @ ''/'' @ ''junk'' = ?n" "cfiles ?s ?n = Some ''x''"
    by (simp_all add: load_cache_def sample_env_def InitStatic_def Let_def)
  have "cfiles (load_cache sample_env (Some [''junk'']) True ?s) ?n = None"
  proof (rule ccontr)
    assume "cfiles (load_cache sample_env (Some [''junk'']) True ?s) ?n \<noteq> None"
    with load_cache_sweeps[of sample_env "Some [''junk'']" True ?s, THEN conjunct2, rule_format, of "[''junk'']" "''junk''"] *
    show False by simp
  qed
  moreover have "cfiles (load_cache sample_env (Some [''junk'']) False ?s) ?n = Some ''x''"
    using load_cache_sweeps[of sample_env "Some [''junk'']" False ?s, THEN conjunct1, rule_format, of ?n] *(3) by metis
  ultimately show ?thesis ..
qed

end
