(* ===== verification/UrlCompletion.thy ===== *)
theory UrlCompletion
  imports Prelude
begin

section \<open>The completion of file names in kfm\<close>

text \<open>
  \<open>kfm/kURLcompletion.cpp\<close>: completion (\<open>make_completion\<close>) and rotation (\<open>make_rotation\<close>) of the path in the line of the location bar. The
  file system is a parameter: what \<open>readdir\<close> lists of a directory, if it can be opened, and which paths are directories; so is the path of a \<open>file:\<close> URL
  as \<open>KURL\<close> computes it. \<open>setText\<close> and the beeps are a log. The line answers \<open>setText\<close> by calling \<open>edited\<close> with the new text.
\<close>

subsection \<open>State\<close>

datatype completion_event = SetText string | Beep

text \<open>\<open>current\<close> is the place of Qt's list iterator in \<open>possibilityList\<close>; \<open>completed_dir\<close> is not set by the constructor.\<close>

record completion =
  directory :: string
  possibilityList :: "string list"
  current :: "nat option"
  new_guess :: bool
  self_update :: bool
  completed_dir :: bool
  the_text :: string
  qual_dir :: string
  events :: "completion_event list"

record dir_env =
  opendir :: "string \<Rightarrow> string list option"
  is_dir :: "string \<Rightarrow> bool"
  url_path :: "string \<Rightarrow> string"

definition new_completion :: "string \<Rightarrow> bool \<Rightarrow> completion" where
  "new_completion dir garbage = \<lparr>directory = dir, possibilityList = [], current = None, new_guess = True, self_update = False,
     completed_dir = garbage, the_text = [], qual_dir = [], events = []\<rparr>"

definition edited :: "string \<Rightarrow> completion \<Rightarrow> completion" where
  "edited t s = (let s = s\<lparr>the_text := t\<rparr> in if self_update s then s else s\<lparr>new_guess := True\<rparr>)"

definition beep :: "completion \<Rightarrow> completion" where
  "beep s = s\<lparr>events := events s @ [Beep]\<rparr>"

text \<open>\<open>emit setText\<close>: the line shows the text and reports the edit.\<close>

definition emit_text :: "string \<Rightarrow> completion \<Rightarrow> completion" where
  "emit_text t s = (edited t (s\<lparr>self_update := True, events := events s @ [SetText t]\<rparr>))\<lparr>self_update := False\<rparr>"

subsection \<open>Which texts are completed\<close>

text \<open>\<open>is_fileurl\<close>: \<open>None\<close> for another protocol, else the full path and whether the text is ambiguous.\<close>

definition is_fileurl :: "string \<Rightarrow> string \<Rightarrow> (string \<times> bool) option" where
  "is_fileurl dir url =
     (let starts_with_file = (take 5 url = ''file:'')
      in if \<not> starts_with_file \<and> find_str '':/'' url \<noteq> None then None
         else let ambigous = (\<not> starts_with_file \<and> take 1 url \<noteq> ''/'');
                  u = (if starts_with_file then drop 5 url else url);
                  d = (if right_str 1 dir \<noteq> ''/'' then dir @ ''/'' else dir)
              in Some (if at0 u \<noteq> CHR ''/'' then d @ u else u, ambigous))"

definition CompleteDir :: "dir_env \<Rightarrow> string \<Rightarrow> bool \<times> string" where
  "CompleteDir env dir = (if is_dir env dir then (True, if right_str 1 dir \<noteq> ''/'' then dir @ ''/'' else dir) else (False, dir))"

subsection \<open>The list of possibilities\<close>

text \<open>The overlap of two names.\<close>

fun overlap :: "string \<Rightarrow> string \<Rightarrow> string" where
  "overlap (a # s) (b # t) = (if a = b then a # overlap s t else [])"
| "overlap _ _ = []"

text \<open>\<open>inSort\<close> makes the new item the current one.\<close>

definition insert_name :: "string \<Rightarrow> completion \<Rightarrow> completion" where
  "insert_name n s = s\<lparr>possibilityList := inSort strcmp n (possibilityList s),
     current := Some (length (takeWhile (\<lambda>y. strcmp y n < 0) (possibilityList s)))\<rparr>"

text \<open>The loop over the entries: the list, the largest overlap, whether there was a match and a second one.\<close>

fun scan_entries :: "string \<Rightarrow> string list \<Rightarrow> string \<Rightarrow> bool \<Rightarrow> bool \<Rightarrow> completion \<Rightarrow> string \<times> bool \<times> completion" where
  "scan_entries guess [] mx anymatch multiple s = (mx, anymatch, s)"
| "scan_entries guess (d_name # eps) mx anymatch multiple s =
     (if d_name = ''.'' \<or> d_name = ''..'' then scan_entries guess eps mx anymatch multiple s
      else if strncmp_eq d_name guess (length guess)
      then let s = insert_name d_name s
        in if anymatch then scan_entries guess eps (overlap mx d_name) True True (if multiple then s else beep s)
           else scan_entries guess eps d_name True multiple s
      else scan_entries guess eps mx anymatch multiple s)"

text \<open>\<open>dir\<close> always holds a slash here. A list that is cleared has no current item.\<close>

definition GetList :: "dir_env \<Rightarrow> string \<Rightarrow> completion \<Rightarrow> string \<times> completion" where
  "GetList env dir s =
     (let pos = (case find_rev ''/'' dir of None \<Rightarrow> length dir | Some p \<Rightarrow> p);
          q = (if take pos dir = [] then ''/'' else take pos dir);
          guess = drop (pos + 1) dir;
          s = s\<lparr>qual_dir := q, possibilityList := [], current := None\<rparr>
      in case opendir env q of
           None \<Rightarrow> (dir, beep s)
         | Some eps \<Rightarrow> (case scan_entries guess eps [] False False s of
             (mx, anymatch, s) \<Rightarrow>
               let q = (if right_str 1 q \<noteq> ''/'' then q @ ''/'' else q)
               in (q @ (if anymatch then mx else guess), s\<lparr>qual_dir := q\<rparr>)))"

subsection \<open>The two slots\<close>

definition make_completion :: "dir_env \<Rightarrow> completion \<Rightarrow> completion" where
  "make_completion env s =
     (let dir = (if take 5 (the_text s) = ''file:'' then url_path env (the_text s) else the_text s)
      in case is_fileurl (directory s) dir of
           None \<Rightarrow> s
         | Some (dir, ambigous) \<Rightarrow>
             let (m, s) = (if completed_dir s \<or> new_guess s then GetList env dir s else (dir, s));
                 (m, s) = (if length (possibilityList s) \<noteq> 1 then (m, beep (s\<lparr>completed_dir := False\<rparr>))
                   else case CompleteDir env m of (b, m) \<Rightarrow> (m, s\<lparr>completed_dir := b\<rparr>));
                 s = s\<lparr>new_guess := False\<rparr>
             in if \<not> ambigous \<or> possibilityList s \<noteq> [] then emit_text m s else s)"

text \<open>\<open>next\<close> of the list: behind the last item there is none. \<open>last\<close> goes to the last item.\<close>

definition next_item :: "completion \<Rightarrow> completion" where
  "next_item s = (let n = length (possibilityList s)
     in s\<lparr>current := (case current s of None \<Rightarrow> None | Some i \<Rightarrow> if i + 1 < n then Some (i + 1) else None)\<rparr>)"

definition make_rotation :: "dir_env \<Rightarrow> completion \<Rightarrow> completion" where
  "make_rotation env s =
     (case is_fileurl (directory s) (the_text s) of
        None \<Rightarrow> s
      | Some (dir, ambigous) \<Rightarrow>
          let s = (if new_guess s then (let s = snd (GetList env dir s) in s\<lparr>current := (if possibilityList s = [] then None else Some (length (possibilityList s) - 1))\<rparr>) else s);
              (m, s) = (if possibilityList s \<noteq> []
                then let s = next_item s; s = (if current s = None then s\<lparr>current := Some 0\<rparr> else s)
                  in (qual_dir s @ possibilityList s ! the (current s), s)
                else (dir, beep s));
              (b, m) = CompleteDir env m;
              s = s\<lparr>completed_dir := b, new_guess := (b \<and> length (possibilityList s) = 1)\<rparr>
          in if \<not> ambigous \<or> possibilityList s \<noteq> [] then emit_text m s else s)"

subsection \<open>The largest overlap\<close>

lemma overlap_prefix: "is_prefix (overlap a b) a" "is_prefix (overlap a b) b"
  by (induction a b rule: overlap.induct) simp_all

lemma overlap_greatest: "is_prefix p a \<Longrightarrow> is_prefix p b \<Longrightarrow> is_prefix p (overlap a b)"
proof (induction a b arbitrary: p rule: overlap.induct)
  case (1 a s b t)
  then show ?case by (cases p) auto
qed (auto simp: is_prefix_iff)

lemma is_prefix_trans: "is_prefix a b \<Longrightarrow> is_prefix b c \<Longrightarrow> is_prefix a c"
  by (auto simp: is_prefix_iff)

text \<open>\<open>p\<close> is the longest text that all the names begin with.\<close>

definition longest_common :: "string \<Rightarrow> string list \<Rightarrow> bool" where
  "longest_common p ns \<longleftrightarrow> (\<forall>n\<in>set ns. is_prefix p n) \<and> (\<forall>r. (\<forall>n\<in>set ns. is_prefix r n) \<longrightarrow> is_prefix r p)"

definition candidates :: "string \<Rightarrow> string list \<Rightarrow> string list" where
  "candidates guess eps = filter (\<lambda>n. n \<noteq> ''.'' \<and> n \<noteq> ''..'' \<and> is_prefix guess n) eps"

lemma longest_common_single: "longest_common n [n]"
  by (auto simp: longest_common_def is_prefix_iff)

lemma longest_common_snoc: "longest_common p ns \<Longrightarrow> longest_common (overlap p n) (ns @ [n])"
  using overlap_prefix overlap_greatest is_prefix_trans unfolding longest_common_def by fastforce

lemma strncmp_prefix: "no_nul n \<Longrightarrow> no_nul g \<Longrightarrow> strncmp_eq n g (length g) \<longleftrightarrow> is_prefix g n"
  by (auto simp: strncmp_eq_def is_prefix_iff) (metis append_take_drop_id)

lemma scan_entries_spec:
  assumes "\<forall>n\<in>set eps. no_nul n" "no_nul guess" "scan_entries guess eps mx am mu s = (mx', am', s')"
    "am \<longleftrightarrow> seen \<noteq> []" "am \<Longrightarrow> longest_common mx seen" "sorted (possibilityList s)" "mset (possibilityList s) = mset seen"
  shows "(am' \<longleftrightarrow> seen @ candidates guess eps \<noteq> []) \<and> (am' \<longrightarrow> longest_common mx' (seen @ candidates guess eps)) \<and>
    sorted (possibilityList s') \<and> mset (possibilityList s') = mset (seen @ candidates guess eps) \<and>
    qual_dir s' = qual_dir s \<and> the_text s' = the_text s \<and> directory s' = directory s"
  using assms
proof (induction eps arbitrary: mx am mu s seen)
  case (Cons n eps)
  show ?case
  proof (cases "n \<noteq> ''.'' \<and> n \<noteq> ''..'' \<and> is_prefix guess n")
    case True
    have m: "strncmp_eq n guess (length guess)" using True Cons.prems(1,2) by (simp add: strncmp_prefix)
    define s1 where "s1 = (if am \<and> \<not> mu then beep (insert_name n s) else insert_name n s)"
    define mx1 where "mx1 = (if am then overlap mx n else n)"
    have "scan_entries guess eps mx1 True (am \<or> mu) s1 = (mx', am', s')"
      using Cons.prems(3) True m by (simp add: s1_def mx1_def Let_def split: if_splits)
    moreover have "longest_common mx1 (seen @ [n])"
      using Cons.prems(4,5) longest_common_snoc[of mx seen n] longest_common_single[of n] by (cases am) (simp_all add: mx1_def)
    moreover have "possibilityList s1 = inSort strcmp n (possibilityList s)" "qual_dir s1 = qual_dir s" "the_text s1 = the_text s" "directory s1 = directory s"
      by (simp_all add: s1_def insert_name_def beep_def)
    moreover have "sorted (inSort strcmp n (possibilityList s))" using Cons.prems(6) by (rule inSort_strcmp_sorted)
    moreover have "mset (inSort strcmp n (possibilityList s)) = mset (seen @ [n])"
      using Cons.prems(7) by (simp add: strcmp_order.sorted_list.ins_mset)
    ultimately show ?thesis using Cons.IH[of mx1 True "am \<or> mu" s1 "seen @ [n]"] Cons.prems(1,2) True by (simp add: candidates_def)
  next
    case False
    then have "scan_entries guess eps mx am mu s = (mx', am', s')"
      using Cons.prems(1-3) strncmp_prefix[of n guess] by (auto split: if_splits)
    then show ?thesis using Cons.IH[of mx am mu s seen] Cons.prems False by (auto simp: candidates_def)
  qed
qed (auto simp: candidates_def)

text \<open>The second match rings the bell.\<close>

lemma scan_entries_events:
  assumes "\<forall>n\<in>set eps. no_nul n" "no_nul guess" "mu \<longrightarrow> am"
  shows "events (snd (snd (scan_entries guess eps mx am mu s))) =
    events s @ (if \<not> mu \<and> 2 \<le> (if am then 1 else 0) + length (candidates guess eps) then [Beep] else [])"
  using assms
proof (induction eps arbitrary: mx am mu s)
  case (Cons n eps)
  have "strncmp_eq n guess (length guess) \<longleftrightarrow> is_prefix guess n" using Cons.prems(1,2) by (simp add: strncmp_prefix)
  then show ?case
    using Cons by (auto simp: candidates_def insert_name_def beep_def Let_def)
qed (auto simp: candidates_def)

text \<open>The path that is completed: the directory with its slash, and the name begun.\<close>

lemma find_rev_slash: "CHR ''/'' \<notin> set g \<Longrightarrow> find_rev ''/'' (d @ CHR ''/'' # g) = Some (length d)"
proof (induction d)
  case Nil
  then have "find_rev ''/'' g = None" by (induction g) auto
  then show ?case by simp
qed simp

lemma GetList_longest:
  assumes "opendir env (if d = [] then ''/'' else d) = Some eps" "\<forall>n\<in>set eps. no_nul n" "no_nul g" "CHR ''/'' \<notin> set g"
    "right_str 1 d \<noteq> ''/''"
  shows "\<exists>p s'. GetList env (d @ ''/'' @ g) s = (d @ ''/'' @ p, s') \<and>
    (if candidates g eps = [] then p = g else longest_common p (candidates g eps)) \<and>
    sorted (possibilityList s') \<and> mset (possibilityList s') = mset (candidates g eps) \<and> qual_dir s' = d @ ''/'' \<and>
    events s' = events s @ (if 2 \<le> length (candidates g eps) then [Beep] else [])"
proof -
  define q where "q = (if d = [] then ''/'' else d)"
  define s0 where "s0 = s\<lparr>qual_dir := q, possibilityList := [], current := None\<rparr>"
  obtain mx am s1 where sc: "scan_entries g eps [] False False s0 = (mx, am, s1)" by (metis prod_cases3)
  have spec: "(am \<longleftrightarrow> candidates g eps \<noteq> []) \<and> (am \<longrightarrow> longest_common mx (candidates g eps)) \<and>
    sorted (possibilityList s1) \<and> mset (possibilityList s1) = mset (candidates g eps) \<and> qual_dir s1 = qual_dir s0"
    using scan_entries_spec[OF assms(2,3) sc, of "[]"] by (simp add: s0_def)
  have ev: "events s1 = events s @ (if 2 \<le> length (candidates g eps) then [Beep] else [])"
    using scan_entries_events[OF assms(2,3), of False False "[]" s0] sc by (simp add: s0_def)
  have fr: "find_rev ''/'' (d @ ''/'' @ g) = Some (length d)" using find_rev_slash[OF assms(4), of d] by simp
  have td: "take (length d) (d @ ''/'' @ g) = d" "drop (length d + 1) (d @ ''/'' @ g) = g" by simp_all
  have "(if right_str 1 q \<noteq> ''/'' then q @ ''/'' else q) = d @ ''/''"
    using assms(5) by (auto simp: q_def right_str_def)
  then have "GetList env (d @ ''/'' @ g) s = (d @ ''/'' @ (if am then mx else g), s1\<lparr>qual_dir := d @ ''/''\<rparr>)"
    using assms(1)[folded q_def] sc
    by (simp only: GetList_def Let_def fr option.case td q_def[symmetric] s0_def[symmetric] prod.case append_assoc)
  moreover have "if candidates g eps = [] then (if am then mx else g) = g else longest_common (if am then mx else g) (candidates g eps)"
    using spec by (cases am) simp_all
  ultimately show ?thesis using spec ev
    by (intro exI[of _ "if am then mx else g"] exI[of _ "s1\<lparr>qual_dir := d @ ''/''\<rparr>"] conjI) simp_all
qed

text \<open>What is shown for a name.\<close>

definition shown :: "dir_env \<Rightarrow> string \<Rightarrow> string \<Rightarrow> string" where
  "shown env q x = snd (CompleteDir env (q @ x))"

definition plain_path :: "string \<Rightarrow> bool" where
  "plain_path u \<longleftrightarrow> at0 u = CHR ''/'' \<and> find_str '':/'' u = None"

lemma plain_fileurl: "plain_path u \<Longrightarrow> is_fileurl dir u = Some (u, False)"
  by (cases u) (auto simp: plain_path_def is_fileurl_def)

lemma longest_common_unique: "longest_common p ns \<Longrightarrow> longest_common q ns \<Longrightarrow> p = q"
  unfolding longest_common_def is_prefix_iff by (metis append.assoc append_self_conv append_is_Nil_conv)

text \<open>C27: Completing an absolute path without \<open>:/\<close>, and without a second slash in front of the name begun, after it was edited: the list then holds exactly the
  names of the directory that begin like the name begun, sorted. Of a single name the line shows all, with a slash behind it when it is a directory; of several their
  longest common beginning, and the bell rings twice; when there is none the line stays as it is, and the bell rings once. The names hold no NUL, and the
  directory can be opened.\<close>

theorem completion_longest:
  assumes "opendir env (if d = [] then ''/'' else d) = Some eps" "\<forall>n\<in>set eps. no_nul n" "no_nul g" "CHR ''/'' \<notin> set g" "right_str 1 d \<noteq> ''/''"
    and "new_guess s" "the_text s = d @ ''/'' @ g" "plain_path (d @ ''/'' @ g)" "cs = candidates g eps" "s' = make_completion env s"
  shows "possibilityList s' = sort cs \<and> \<not> new_guess s' \<and>
    (case cs of [] \<Rightarrow> the_text s' = d @ ''/'' @ g \<and> \<not> completed_dir s' \<and> events s' = events s @ [Beep, SetText (the_text s')]
     | [x] \<Rightarrow> the_text s' = d @ ''/'' @ x @ (if is_dir env (d @ ''/'' @ x) \<and> right_str 1 (d @ ''/'' @ x) \<noteq> ''/'' then ''/'' else []) \<and>
         completed_dir s' = is_dir env (d @ ''/'' @ x) \<and> events s' = events s @ [SetText (the_text s')]
     | _ \<Rightarrow> (\<exists>p. longest_common p cs \<and> the_text s' = d @ ''/'' @ p) \<and> \<not> completed_dir s' \<and> events s' = events s @ [Beep, Beep, SetText (the_text s')])"
proof -
  let ?u = "d @ ''/'' @ g"
  obtain p s1 where gl: "GetList env ?u s = (d @ ''/'' @ p, s1)" "if cs = [] then p = g else longest_common p cs" "sorted (possibilityList s1)"
    "mset (possibilityList s1) = mset cs" "events s1 = events s @ (if 2 \<le> length cs then [Beep] else [])"
    using GetList_longest[OF assms(1-5), of s] unfolding assms(9) by blast
  have L: "possibilityList s1 = sort cs" by (rule properties_for_sort[symmetric]) (use gl in auto)
  have nf: "take 5 ?u \<noteq> ''file:''" using assms(8) by (cases ?u) (auto simp: plain_path_def)
  have f: "is_fileurl (directory s) ?u = Some (?u, False)" using assms(8) by (rule plain_fileurl)
  define m where "m = (if length cs = 1 then snd (CompleteDir env (d @ ''/'' @ p)) else d @ ''/'' @ p)"
  define b where "b = (length cs = 1 \<and> fst (CompleteDir env (d @ ''/'' @ p)))"
  have "s' = emit_text m ((if length cs = 1 then s1\<lparr>completed_dir := b\<rparr> else beep (s1\<lparr>completed_dir := b\<rparr>))\<lparr>new_guess := False\<rparr>)"
  proof -
    have len: "length (possibilityList s1) = length cs" by (simp add: L)
    show ?thesis unfolding assms(10) make_completion_def assms(7) if_not_P[OF nf] Let_def f option.case prod.case
      using assms(6) len by (simp only: gl(1) simp_thms if_True prod.case m_def b_def) (simp add: split_beta)
  qed
  then have s': "possibilityList s' = sort cs" "\<not> new_guess s'" "the_text s' = m" "completed_dir s' = b"
    "events s' = events s1 @ (if length cs = 1 then [] else [Beep]) @ [SetText m]"
    by (simp_all add: emit_text_def edited_def beep_def Let_def L)
  show ?thesis
  proof (cases cs rule: remdups_adj.cases)
    case 1
    then show ?thesis using s' gl(2,5) by (simp add: m_def b_def)
  next
    case (2 x)
    then have "p = x" using gl(2) longest_common_unique longest_common_single by fastforce
    then show ?thesis using 2 s' gl(5) by (simp add: m_def b_def CompleteDir_def)
  next
    case (3 x y xs)
    then show ?thesis using s' gl(2,5) by (auto simp: m_def b_def)
  qed
qed

definition some_dir :: dir_env where
  "some_dir = \<lparr>opendir = (\<lambda>d. if d = ''/home'' then Some [''.'', ''main.cpp'', ''main.h'', ''doc'', ''..''] else None), is_dir = (\<lambda>d. d = ''/home/doc''), url_path = id\<rparr>"

theorem completion_longest_witness:
  "the_text (make_completion some_dir (edited ''/home/ma'' (new_completion [] False))) = ''/home/main.'' \<and>
   the_text (make_completion some_dir (edited ''/home/d'' (new_completion [] False))) = ''/home/doc/''"
proof -
  let ?L = "[''.'', ''main.cpp'', ''main.h'', ''doc'', ''..'']"
  have e: "opendir some_dir (if ''/home'' = [] then ''/'' else ''/home'') = Some ?L" "right_str 1 ''/home'' \<noteq> ''/''" "\<forall>n\<in>set ?L. no_nul n"
    by (simp_all add: some_dir_def right_str_def)
  have s: "new_guess (edited t (new_completion [] False))" "the_text (edited t (new_completion [] False)) = t" for t
    by (simp_all add: edited_def new_completion_def Let_def)
  have c: "candidates ''ma'' ?L = [''main.cpp'', ''main.h'']" "candidates ''d'' ?L = [''doc'']" by (simp_all add: candidates_def)
  have p: "plain_path (''/home'' @ ''/'' @ ''ma'')" "plain_path (''/home'' @ ''/'' @ ''d'')" by code_simp+
  from completion_longest[OF e(1,3) _ _ e(2) s(1) s(2) p(1) refl refl] obtain q where
    q: "longest_common q (candidates ''ma'' ?L)" "the_text (make_completion some_dir (edited (''/home'' @ ''/'' @ ''ma'') (new_completion [] False))) = ''/home'' @ ''/'' @ q"
    by (auto simp: c)
  have "longest_common ''main.'' (candidates ''ma'' ?L)"
    using longest_common_snoc[OF longest_common_single, of "''main.cpp''" "''main.h''"] by (simp add: c)
  then have "q = ''main.''" using q(1) longest_common_unique by blast
  moreover have "the_text (make_completion some_dir (edited (''/home'' @ ''/'' @ ''d'') (new_completion [] False))) = ''/home/doc/''"
    using completion_longest[OF e(1,3) _ _ e(2) s(1) s(2) p(2) refl refl] by (simp add: c some_dir_def right_str_def)
  ultimately show ?thesis using q(2) by simp
qed

subsection \<open>Rotation\<close>

text \<open>The state in which the \<open>i\<close>-th possibility is shown.\<close>

definition rotating :: "dir_env \<Rightarrow> string \<Rightarrow> string list \<Rightarrow> nat \<Rightarrow> completion \<Rightarrow> bool" where
  "rotating env q L i s \<longleftrightarrow> possibilityList s = L \<and> qual_dir s = q \<and> current s = Some i \<and> \<not> new_guess s \<and> the_text s = shown env q (L ! i)"

lemma show_item:
  assumes "possibilityList s = L" "qual_dir s = q" "current s = Some i" "i < length L" "2 \<le> length L"
    "(b, m) = CompleteDir env (q @ L ! i)"
  shows "rotating env q L i (emit_text m (s\<lparr>completed_dir := b, new_guess := (b \<and> length L = 1)\<rparr>))"
  using assms by (simp add: rotating_def emit_text_def edited_def Let_def shown_def) (metis snd_conv)

lemma rotate_next:
  assumes "rotating env q L i s" "i < length L" "2 \<le> length L" "\<forall>x\<in>set L. plain_path (shown env q x)"
  shows "rotating env q L (if i + 1 < length L then i + 1 else 0) (make_rotation env s)"
proof -
  define j where "j = (if i + 1 < length L then i + 1 else 0)"
  have s: "possibilityList s = L" "qual_dir s = q" "current s = Some i" "\<not> new_guess s" "the_text s = shown env q (L ! i)" "L \<noteq> []"
    using assms(1,3) by (auto simp: rotating_def)
  have f: "is_fileurl (directory s) (the_text s) = Some (shown env q (L ! i), False)"
    using assms(2,4) s(5) by (simp add: plain_fileurl)
  define s1 where "s1 = s\<lparr>current := Some j\<rparr>"
  have n: "(if current (next_item s) = None then (next_item s)\<lparr>current := Some 0\<rparr> else next_item s) = s1"
    using s by (auto simp: next_item_def s1_def j_def Let_def)
  obtain b m where bm: "CompleteDir env (q @ L ! j) = (b, m)" by fastforce
  have "possibilityList (next_item s) = L" using s(1) by (simp add: next_item_def Let_def)
  then have "make_rotation env s = emit_text m (s1\<lparr>completed_dir := b, new_guess := (b \<and> length L = 1)\<rparr>)"
    using s f bm n by (simp add: make_rotation_def Let_def s1_def)
  moreover have "j < length L" using s(6) by (simp add: j_def)
  ultimately show ?thesis unfolding j_def[symmetric]
     using show_item[of s1 L q j b m env] s bm assms(3) by (simp add: s1_def)
qed

lemma rotate_first:
  assumes "GetList env u s = (m0, s')" "possibilityList s' = L" "qual_dir s' = q" "2 \<le> length L" "new_guess s" "the_text s = u" "plain_path u"
  shows "rotating env q L 0 (make_rotation env s)"
proof -
  have f: "is_fileurl (directory s) (the_text s) = Some (u, False)" using assms(6,7) by (simp add: plain_fileurl)
  define s1 where "s1 = s'\<lparr>current := Some 0\<rparr>"
  have ne: "L \<noteq> []" using assms(4) by auto
  obtain b m where bm: "CompleteDir env (q @ L ! 0) = (b, m)" by fastforce
  have "make_rotation env s = emit_text m (s1\<lparr>completed_dir := b, new_guess := (b \<and> length L = 1)\<rparr>)"
    using f ne assms(1-3,5) bm by (simp add: make_rotation_def Let_def next_item_def s1_def)
  then show ?thesis using show_item[of s1 L q 0 b m env] assms(2-4) bm ne by (simp add: s1_def)
qed

text \<open>C28: Pressing the key for rotation again and again, after the line was edited, shows all the names of the directory that begin like the name begun, in their
  sorted order and from the start again after the last: the \<open>k\<close>-th press shows the name number \<open>k\<close>, counted in a circle, with a slash behind a directory. There are at
  least two such names, the line and what is shown for them are absolute paths without \<open>:/\<close>, there is no second slash in front of the name, and the names hold no NUL.\<close>

theorem rotation_cycles:
  assumes "opendir env (if d = [] then ''/'' else d) = Some eps" "\<forall>n\<in>set eps. no_nul n" "no_nul g" "CHR ''/'' \<notin> set g" "right_str 1 d \<noteq> ''/''"
    and "L = sort (candidates g eps)" "2 \<le> length L" "\<forall>x\<in>set L. plain_path (shown env (d @ ''/'') x)"
    and "new_guess s" "the_text s = d @ ''/'' @ g" "plain_path (d @ ''/'' @ g)"
  shows "the_text ((make_rotation env ^^ Suc k) s) = shown env (d @ ''/'') (L ! (k mod length L))"
proof -
  obtain p s' where gl: "GetList env (d @ ''/'' @ g) s = (d @ ''/'' @ p, s')" "sorted (possibilityList s')"
    "mset (possibilityList s') = mset (candidates g eps)" "qual_dir s' = d @ ''/''"
    using GetList_longest[OF assms(1-5), of s] by blast
  have L: "possibilityList s' = L" unfolding assms(6) by (rule properties_for_sort[symmetric]) (use gl in auto)
  have "rotating env (d @ ''/'') L (k mod length L) ((make_rotation env ^^ Suc k) s)"
  proof (induction k)
    case 0
    then show ?case using rotate_first[OF gl(1) L gl(4) assms(7,9,10,11)] by simp
  next
    case (Suc k)
    have lt: "k mod length L < length L" using assms(7) by (intro mod_less_divisor) linarith
    have "rotating env (d @ ''/'') L (if k mod length L + 1 < length L then k mod length L + 1 else 0) ((make_rotation env ^^ Suc (Suc k)) s)"
      using rotate_next[OF Suc lt assms(7,8)] by simp
    moreover have "(if k mod length L + 1 < length L then k mod length L + 1 else 0) = Suc k mod length L"
      using lt by (auto simp: mod_Suc)
    ultimately show ?case by simp
  qed
  then show ?thesis by (simp add: rotating_def)
qed

theorem rotation_cycles_witness:
  "map (\<lambda>k. the_text ((make_rotation some_dir ^^ Suc k) (edited ''/home/'' (new_completion [] False)))) [0, 1, 2, 3]
   = [''/home/doc/'', ''/home/main.cpp'', ''/home/main.h'', ''/home/doc/'']"
proof -
  let ?L = "sort (candidates [] [''.'', ''main.cpp'', ''main.h'', ''doc'', ''..''])"
  have L: "?L = [''doc'', ''main.cpp'', ''main.h'']" by code_simp
  have e: "opendir some_dir (if ''/home'' = [] then ''/'' else ''/home'') = Some [''.'', ''main.cpp'', ''main.h'', ''doc'', ''..'']"
    "right_str 1 ''/home'' \<noteq> ''/''" by (simp_all add: some_dir_def right_str_def)
  have p: "\<forall>x\<in>set ?L. plain_path (shown some_dir (''/home'' @ ''/'') x)" unfolding L by code_simp
  have s: "new_guess (edited ''/home/'' (new_completion [] False))" "the_text (edited ''/home/'' (new_completion [] False)) = ''/home'' @ ''/'' @ []"
    by (simp_all add: edited_def new_completion_def Let_def)
  have u: "plain_path (''/home'' @ ''/'' @ [])" by code_simp
  have "the_text ((make_rotation some_dir ^^ Suc k) (edited ''/home/'' (new_completion [] False))) = shown some_dir (''/home'' @ ''/'') (?L ! (k mod length ?L))" for k
    by (rule rotation_cycles[OF e(1) _ _ _ e(2) refl _ p s u]) (simp_all add: L)
  moreover have "map (\<lambda>k. shown some_dir (''/home'' @ ''/'') (?L ! (k mod length ?L))) [0, 1, 2, 3]
    = [''/home/doc/'', ''/home/main.cpp'', ''/home/main.h'', ''/home/doc/'']"
    unfolding L by code_simp
  ultimately show ?thesis by (simp only: list.map)
qed

end
