(* ===== verification/FtpControl.thy ===== *)
theory FtpControl
  imports Prelude
begin

section \<open>The FTP slave of kfm: the control connection\<close>

text \<open>
  \<open>kfm/kioslave/ftp.cpp\<close>, the part that talks on the control connection: the buffer \<open>netbuf\<close> and \<open>readline\<close>, the replies of the
  server (\<open>readresp\<close>) and commands (\<open>ftpSendCmd\<close>). The operating system is an oracle: what a call answers depends on the calls made
  before. What \<open>read\<close> returns on the control connection is a list, with \<open>None\<close> for an error; at its end the server has closed the
  connection. An access outside of a buffer, or through a pointer that is not valid, is \<open>None\<close>.
\<close>

subsection \<open>State\<close>

text \<open>The pointers of \<open>netbuf\<close> are offsets into its array. \<open>calloc\<close> leaves both null, so they are equal.\<close>

record netbuf =
  cput :: nat
  cget :: nat
  cavail :: int
  cleft :: int
  nb_buf :: string

definition FTP_BUFSIZ :: nat where "FTP_BUFSIZ = 1024"

definition calloc_netbuf :: netbuf where
  "calloc_netbuf = \<lparr>cput = 0, cget = 0, cavail = 0, cleft = 0, nb_buf = replicate FTP_BUFSIZ NUL\<rparr>"

datatype ctl_ptr = Uninit | Null | Freed | Live netbuf

datatype os_call = GetServByName | GetHostByName string | Socket | SetSockOpt int | ConnectTo int string | Calloc
  | GetSockName int | Bind int | Listen int | SelectFd int | AcceptOn int | WriteTo int string | CloseFd int | Shutdown int | FdOpen int
  | WriteData int string

datatype kio_error = NoError | CouldNotConnect | CouldNotLogin | CouldNotMkdir | FileDoesNotExist | NotADirectory

text \<open>The members of the class, and the world it acts on: the oracle \<open>os\<close>, the calls made, the own address that \<open>getsockname\<close> tells, what each server to be
  connected sends, what arrives on the data connection, and the redirections signalled. \<open>ftplib_lastresp\<close> points to \<open>rspbuf\<close>.\<close>

record ftp =
  os :: "nat \<Rightarrow> os_call \<Rightarrow> int"
  own_addr :: "nat \<Rightarrow> nat list"
  calls :: "os_call list"
  servers :: "string option list list"
  ctl_in :: "string option list"
  data_in :: "string option list"
  dirfile :: "string option"
  pasv :: int
  sData :: int
  sControl :: int
  sDatal :: int
  nControl :: ctl_ptr
  rspbuf :: string
  fsize :: int
  fbytesleft :: int
  lastKError :: kio_error
  redirections :: "string list"

definition call :: "os_call \<Rightarrow> ftp \<Rightarrow> int \<times> ftp" where
  "call c s = (os s (length (calls s)) c, s\<lparr>calls := calls s @ [c]\<rparr>)"

definition close_fd :: "int \<Rightarrow> ftp \<Rightarrow> ftp" where
  "close_fd fd s = snd (call (CloseFd fd) s)"

definition lastresp0 :: "ftp \<Rightarrow> ftp" where
  "lastresp0 s = s\<lparr>rspbuf := (rspbuf s)[0 := NUL]\<rparr>"

subsection \<open>Reading a line\<close>

text \<open>\<open>read\<close> with room for \<open>k\<close> bytes: the rest of a longer packet is there for the next call.\<close>

fun read_in :: "nat \<Rightarrow> string option list \<Rightarrow> string option \<times> string option list" where
  "read_in k [] = (Some [], [])"
| "read_in k (None # r) = (None, r)"
| "read_in k (Some t # r) = (Some (take k t), if length t \<le> k then r else Some (drop k t) # r)"

text \<open>\<open>memccpy\<close> copies up to and with the first line feed.\<close>

definition upto_lf :: "string \<Rightarrow> string" where
  "upto_lf t = (case find_char LF t of None \<Rightarrow> t | Some i \<Rightarrow> take (Suc i) t)"

text \<open>Storing \<open>t\<close> and the NUL behind it at \<open>n\<close>.\<close>

definition put_str :: "nat \<Rightarrow> string \<Rightarrow> string \<Rightarrow> string option" where
  "put_str n t buf = (if n + length t < length buf then Some (take n buf @ t @ [NUL] @ drop (n + length t + 1) buf) else None)"

text \<open>The first half of the loop's body: what is available is copied. The result is the number of bytes, whether the line feed was found, and the buffers.\<close>

definition take_avail :: "int \<Rightarrow> nat \<Rightarrow> netbuf \<Rightarrow> string \<Rightarrow> (nat \<times> bool \<times> netbuf \<times> string) option" where
  "take_avail mx n nb buf =
     (if cavail nb > 0
      then let x = (if mx \<ge> cavail nb then cavail nb else mx - 1) in
        if x < 0 \<or> int (cget nb) + x > int (length (nb_buf nb)) then None
        else let src = take (nat x) (drop (cget nb) (nb_buf nb)); t = upto_lf src; k = length t in
          do { buf \<leftarrow> put_str n t buf;
               Some (k, LF \<in> set src, nb\<lparr>cget := cget nb + k, cavail := cavail nb - int k\<rparr>, buf) }
      else Some (0, False, nb, buf))"

definition rewind :: "netbuf \<Rightarrow> netbuf" where
  "rewind nb = (if cput nb = cget nb then nb\<lparr>cput := 0, cget := 0, cavail := 0, cleft := int FTP_BUFSIZ\<rparr> else nb)"

definition store_read :: "string \<Rightarrow> netbuf \<Rightarrow> netbuf option" where
  "store_read t nb = (if cput nb + length t \<le> length (nb_buf nb)
     then Some (nb\<lparr>cput := cput nb + length t, cavail := cavail nb + int (length t), cleft := cleft nb - int (length t),
       nb_buf := take (cput nb) (nb_buf nb) @ t @ drop (cput nb + length t) (nb_buf nb)\<rparr>)
     else None)"

fun packets_size :: "string option list \<Rightarrow> nat" where
  "packets_size [] = 0"
| "packets_size (None # r) = Suc (packets_size r)"
| "packets_size (Some t # r) = Suc (length t + packets_size r)"

lemma read_in_size:
  "read_in k inp = (Some t, inp') \<Longrightarrow> packets_size inp' < packets_size inp \<or> (inp' = inp \<and> t = [])"
proof (induction k inp rule: read_in.induct)
  case (3 k t r)
  then show ?case by (cases k) (auto split: if_splits)
qed auto

lemma read_in_less: "read_in k inp = (Some (c # t), inp') \<Longrightarrow> packets_size inp' < packets_size inp"
  using read_in_size[of k inp "c # t" inp'] by auto

text \<open>The loop: \<open>mx\<close> is the room left in \<open>buf\<close>, \<open>n\<close> the number of bytes stored (\<open>retval\<close>).\<close>

function readline_loop :: "int \<Rightarrow> bool \<Rightarrow> nat \<Rightarrow> netbuf \<Rightarrow> string option list \<Rightarrow> string
    \<Rightarrow> (int \<times> netbuf \<times> string option list \<times> string) option" where
  "readline_loop mx eof n nb inp buf =
     (case take_avail mx n nb buf of None \<Rightarrow> None
      | Some (k, found, nb, buf) \<Rightarrow>
          (if found then Some (int (n + k), nb, inp, buf)
           else if mx - int k = 1 then map_option (\<lambda>buf. (int (n + k), nb, inp, buf)) (put_str (n + k) [] buf)
           else if eof then Some (if n + k = 0 then - 1 else int (n + k), rewind nb, inp, buf)
           else (case read_in (nat (cleft (rewind nb))) inp of
               (None, inp) \<Rightarrow> Some (- 1, rewind nb, inp, buf)
             | (Some t, inp) \<Rightarrow> (case store_read t (rewind nb) of None \<Rightarrow> None
                 | Some nb \<Rightarrow> readline_loop (mx - int k) (t = []) (n + k) nb inp buf))))"
  by pat_completeness auto

termination readline_loop
proof (relation "measure (\<lambda>(mx, eof, n, nb, inp, buf). 2 * packets_size inp + (if eof then 0 else 1))", goal_cases)
  case (2 mx eof n nb inp buf x k y found z nb' buf' w inp' t nb'')
  then have "read_in (nat (cleft (rewind nb'))) inp = (Some t, inp')" by simp
  from read_in_size[OF this] read_in_less[of _ inp _ _ inp'] 2 show ?case by (cases t) auto
qed simp

declare readline_loop.simps [simp del]

definition readline :: "ftp \<Rightarrow> (int \<times> ftp) option" where
  "readline s = (case nControl s of
     Live nb \<Rightarrow> (case readline_loop 256 False 0 nb (ctl_in s) (rspbuf s) of
         None \<Rightarrow> None
       | Some (r, nb, inp, buf) \<Rightarrow> Some (r, s\<lparr>ctl_in := inp, nControl := Live nb, rspbuf := buf\<rparr>))
   | _ \<Rightarrow> None)"

subsection \<open>Every line read uses up input\<close>

lemma read_in_sum: "read_in k inp = (Some t, inp') \<Longrightarrow> packets_size inp' + length t \<le> packets_size inp"
  by (induction k inp rule: read_in.induct) (auto split: if_splits)

lemma upto_lf_length: "length (upto_lf t) \<le> length t"
  by (auto simp: upto_lf_def split: option.splits)

lemma upto_lf_pos: "LF \<in> set t \<Longrightarrow> 0 < length (upto_lf t)"
  by (cases t) (auto simp: upto_lf_def split: option.splits)

lemma take_avail_sum:
  assumes "take_avail mx n nb buf = Some (k, found, nb', buf')"
  shows "nat (cavail nb') + k = nat (cavail nb) \<and> (found \<longrightarrow> 0 < k)"
proof (cases "cavail nb > 0")
  case True
  define x where "x = (if mx \<ge> cavail nb then cavail nb else mx - 1)"
  define t where "t = take (nat x) (drop (cget nb) (nb_buf nb))"
  have "k = length (upto_lf t)" "nb' = nb\<lparr>cget := cget nb + k, cavail := cavail nb - int k\<rparr>" "found = (LF \<in> set t)"
    using assms True by (auto simp: take_avail_def x_def[symmetric] t_def[symmetric] Let_def split: if_splits bind_splits)
  moreover have "length (upto_lf t) \<le> nat x" using upto_lf_length[of t] by (simp add: t_def)
  moreover have "x \<le> cavail nb" by (simp add: x_def)
  ultimately show ?thesis using True upto_lf_pos[of t] by auto
next
  case False
  then show ?thesis using assms by (auto simp: take_avail_def)
qed

lemma rewind_avail: "nat (cavail (rewind nb)) \<le> nat (cavail nb)"
  by (simp add: rewind_def)

lemma readline_loop_uses:
  "readline_loop mx eof n nb inp buf = Some (r, nb', inp', buf') \<Longrightarrow> 0 < n \<or> mx \<noteq> 1 \<Longrightarrow> r \<noteq> - 1 \<Longrightarrow>
   0 < r \<and> nat (cavail nb') + packets_size inp' + nat r \<le> nat (cavail nb) + packets_size inp + n"
proof (induction mx eof n nb inp buf rule: readline_loop.induct)
  case (1 mx eof n nb inp buf)
  obtain k found nb1 buf1 where t: "take_avail mx n nb buf = Some (k, found, nb1, buf1)"
    using 1(2) by (cases "take_avail mx n nb buf") (auto simp: readline_loop.simps[of mx])
  note sum = take_avail_sum[OF t] rewind_avail[of nb1]
  show ?case
  proof (cases "found \<or> mx - int k = 1 \<or> eof")
    case True
    then show ?thesis
      using 1(2-4) sum by (subst (asm) readline_loop.simps) (auto simp: t split: if_splits)
  next
    case False
    obtain i inp1 where rd: "read_in (nat (cleft (rewind nb1))) inp = (i, inp1)" by fastforce
    obtain u where u: "i = Some u"
      using 1(2,4) False rd by (subst (asm) readline_loop.simps) (auto simp: t split: option.splits)
    obtain nb2 where st: "store_read u (rewind nb1) = Some nb2"
      using 1(2) False rd u by (subst (asm) readline_loop.simps) (auto simp: t split: option.splits)
    have rest: "readline_loop (mx - int k) (u = []) (n + k) nb2 inp1 buf1 = Some (r, nb', inp', buf')"
      using 1(2) False rd u st by (subst (asm) readline_loop.simps) (auto simp: t)
    have "nat (cavail nb2) \<le> nat (cavail (rewind nb1)) + length u"
      using st by (auto simp: store_read_def split: if_splits)
    moreover have "packets_size inp1 + length u \<le> packets_size inp" using read_in_sum rd u by metis
    moreover have "0 < r \<and> nat (cavail nb') + packets_size inp' + nat r \<le> nat (cavail nb2) + packets_size inp1 + (n + k)"
      using False rd u st rest 1(4) by (intro 1(1)[OF t refl refl refl]) (auto)
    ultimately show ?thesis using sum by simp
  qed
qed

definition ctl_size :: "ftp \<Rightarrow> nat" where
  "ctl_size s = (case nControl s of Live nb \<Rightarrow> nat (cavail nb) + packets_size (ctl_in s) | _ \<Rightarrow> 0)"

lemma readline_uses:
  assumes "readline s = Some (r, s')" "r \<noteq> - 1"
  shows "ctl_size s' < ctl_size s"
proof -
  obtain nb where nb: "nControl s = Live nb" using assms by (cases "nControl s") (auto simp: readline_def)
  obtain nb' inp' buf' where "readline_loop 256 False 0 nb (ctl_in s) (rspbuf s) = Some (r, nb', inp', buf')"
    "s' = s\<lparr>ctl_in := inp', nControl := Live nb', rspbuf := buf'\<rparr>"
    using assms(1) by (auto simp: readline_def nb split: option.splits)
  then show ?thesis using readline_loop_uses[of 256 False 0 nb _ _ r] assms(2) by (force simp: ctl_size_def nb)
qed

subsection \<open>Replies and commands\<close>

text \<open>The loop for a reply of several lines ends with the line that begins with the same number and a blank.\<close>

function reply_lines :: "string \<Rightarrow> ftp \<Rightarrow> (bool \<times> ftp) option" where
  "reply_lines match s =
     (case readline s of None \<Rightarrow> None
      | Some (r, s) \<Rightarrow> if r = - 1 then Some (False, s)
          else if strncmp_eq (rspbuf s) match 4 then Some (True, s) else reply_lines match s)"
  by pat_completeness auto

termination reply_lines
  by (relation "measure (\<lambda>(m, s). ctl_size s)") (auto dest: readline_uses)

declare reply_lines.simps [simp del]

definition readresp :: "char \<Rightarrow> ftp \<Rightarrow> (bool \<times> ftp) option" where
  "readresp c s = do {
     (r, s) \<leftarrow> readline s;
     if r = - 1 then Some (False, s)
     else do {
       (ok, s) \<leftarrow> (if at0 (drop 3 (rspbuf s)) = CHR ''-'' then reply_lines (take 3 (rspbuf s) @ [SP]) s else Some (True, s));
       Some (ok \<and> at0 (rspbuf s) = c, s) } }"

definition ftpSendCmd :: "string \<Rightarrow> char \<Rightarrow> ftp \<Rightarrow> (bool \<times> ftp) option" where
  "ftpSendCmd cmd expresp s =
     (let (r, s) = call (WriteTo (sControl s) (cstr cmd @ [CR, LF])) s
      in if r \<le> 0 then Some (False, s) else readresp expresp s)"

end
