(* ===== verification/FtpSlave.thy ===== *)
theory FtpSlave
  imports FtpControl
begin

section \<open>The FTP slave of kfm: sessions, directories and transfers\<close>

text \<open>
  The rest of \<open>kfm/kioslave/ftp.cpp\<close>: the connection, the login, the data connections, and the methods that the slave calls. \<open>KURL\<close> is a
  parameter: the parts of the URL that are used, \<open>decodeURL\<close>, \<open>cd\<close> and \<open>url\<close>. Strings that end in a NUL are cut there when they are sent.
\<close>

subsection \<open>Opening the control connection\<close>

text \<open>\<open>free\<close> of a pointer that was never set, or was freed before, is a fault.\<close>

definition free_ctl :: "ftp \<Rightarrow> ftp option" where
  "free_ctl s = (case nControl s of Live nb \<Rightarrow> Some (s\<lparr>nControl := Freed\<rparr>) | Null \<Rightarrow> Some s | _ \<Rightarrow> None)"

text \<open>\<open>connect\<close> reaches the next server.\<close>

definition connected_to :: "ftp \<Rightarrow> ftp" where
  "connected_to s = s\<lparr>ctl_in := (case servers s of [] \<Rightarrow> [] | c # _ \<Rightarrow> c), servers := tl (servers s)\<rparr>"

definition greeting :: "ftp \<Rightarrow> (bool \<times> ftp) option" where
  "greeting s = do {
     (ok, s) \<leftarrow> readresp (CHR ''2'') s;
     if ok then Some (True, s) else map_option (Pair False) (free_ctl (close_fd (sControl s) s)) }"

definition ftpOpen :: "string \<Rightarrow> nat \<Rightarrow> ftp \<Rightarrow> (bool \<times> ftp) option" where
  "ftpOpen host port s =
     (let s = lastresp0 s;
          (pse, s) = (if port \<noteq> 0 then (1, s) else call GetServByName s)
      in if pse = 0 then Some (False, s)
      else let (phe, s) = call (GetHostByName host) s
      in if phe = 0 then Some (False, s)
      else let (fd, s) = call Socket s; s = s\<lparr>sControl := fd\<rparr>
      in if fd = - 1 then Some (False, s)
      else let (r, s) = call (SetSockOpt fd) s
      in if r = - 1 then Some (False, close_fd fd s)
      else let (r, s) = call (ConnectTo fd host) s
      in if r = - 1 then Some (False, close_fd fd s)
      else let (r, s) = call Calloc (connected_to s)
      in if r = 0 then Some (False, close_fd fd (s\<lparr>nControl := Null\<rparr>))
      else greeting (s\<lparr>nControl := Live calloc_netbuf\<rparr>))"

subsection \<open>The login\<close>

text \<open>The directory in the reply to \<open>pwd\<close>, the text between the double quotes: the reply with a NUL in the place of the second one, and the directory.\<close>

definition pwd_reply :: "string \<Rightarrow> (string \<times> string) option" where
  "pwd_reply buf =
     (let p = dropWhile (\<lambda>c. c = SP \<or> c = TAB) (dropWhile isdigit (cstr buf))
      in if at0 p \<noteq> DQ then None
         else case find_char DQ (tl p) of None \<Rightarrow> None
           | Some i \<Rightarrow> Some (buf[length (cstr buf) - length p + 1 + i := NUL], take i (tl p)))"

text \<open>The result of \<open>ftpLogin\<close> has the text assigned to \<open>redirect\<close>; \<open>want\<close> tells whether the pointer is given.\<close>

definition login_pwd :: "ftp \<Rightarrow> (bool \<times> string \<times> ftp) option" where
  "login_pwd s = do {
     (ok, s) \<leftarrow> ftpSendCmd ''pwd'' (CHR ''2'') s;
     if \<not> ok then Some (False, [], s)
     else case pwd_reply (rspbuf s) of None \<Rightarrow> Some (True, [], s) | Some (buf, dir) \<Rightarrow> Some (True, dir, s\<lparr>rspbuf := buf\<rparr>) }"

definition ftpLogin :: "string \<Rightarrow> string \<Rightarrow> bool \<Rightarrow> ftp \<Rightarrow> (bool \<times> string \<times> ftp) option" where
  "ftpLogin user pass want s =
     (let s = lastresp0 s
      in do {
        (ok, s) \<leftarrow> ftpSendCmd (''user '' @ user) (CHR ''3'') s;
        if \<not> ok then Some (at0 (rspbuf s) = CHR ''2'', [], s)
        else do {
          (ok, s) \<leftarrow> ftpSendCmd (''pass '' @ pass) (CHR ''2'') s;
          if \<not> ok then Some (False, [], s)
          else do {
            (ok, s) \<leftarrow> ftpSendCmd ''syst'' (CHR ''2'') s;
            s \<leftarrow> (if ok \<and> strncmp_eq (rspbuf s) ''215 Windows_NT version'' 22
              then map_option snd (ftpSendCmd ''site dirstyle'' (CHR ''2'') s) else Some s);
            if \<not> want then Some (True, [], s) else login_pwd s } } })"

subsection \<open>The data connection\<close>

text \<open>\<open>own_addr\<close> gives six bytes: the address and the port.\<close>

definition port_cmd :: "nat list \<Rightarrow> string" where
  "port_cmd a = ''port '' @ concat (map (\<lambda>i. (if i = 0 then [] else '','') @ dec_of_nat (a ! i mod 256)) [0..<6])"

definition ftpPort :: "ftp \<Rightarrow> (bool \<times> ftp) option" where
  "ftpPort s =
     (let (r, s) = call (GetSockName (sControl s)) (s\<lparr>pasv := 0\<rparr>)
      in if r < 0 then Some (False, s)
      else let (fd, s) = call Socket s; s = s\<lparr>sDatal := fd\<rparr>
      in if fd = - 1 then Some (False, s)
      else let (r, s) = call (SetSockOpt fd) s
      in if r = - 1 then Some (False, close_fd fd s)
      else let (r, s) = call (SetSockOpt fd) s
      in if r = - 1 then Some (False, close_fd fd s)
      else let (r, s) = call (Bind fd) s
      in if r = - 1 then Some (False, (close_fd fd s)\<lparr>sDatal := - 1\<rparr>)
      else let (r, s) = call (Listen fd) s
      in if r < 0 then Some (False, (close_fd fd s)\<lparr>sDatal := - 1\<rparr>)
      else let (r, s) = call (GetSockName fd) s
      in if r < 0 then Some (False, s)
      else ftpSendCmd (port_cmd (own_addr s (length (calls s)))) (CHR ''2'') s)"

text \<open>\<open>%d\<close> of \<open>sscanf\<close>, and the format \<open>%*[^(](%d,%d,%d,%d,%d,%d)\<close>: the numbers converted.\<close>

definition scan_d :: "string \<Rightarrow> (int \<times> string) option" where
  "scan_d s = (if strto_scan 10 s = None then None else Some (strtol 10 s))"

fun scan_ds :: "nat \<Rightarrow> string \<Rightarrow> int list" where
  "scan_ds 0 s = []"
| "scan_ds (Suc n) s = (case scan_d s of None \<Rightarrow> []
     | Some (v, r) \<Rightarrow> v # (if at0 r = CHR '','' then scan_ds n (tl r) else []))"

definition scan_pasv :: "string \<Rightarrow> int list" where
  "scan_pasv s = (let r = dropWhile (\<lambda>c. c \<noteq> CHR ''('') (cstr s)
     in if at0 (cstr s) = CHR ''('' \<or> r = [] then [] else scan_ds 6 (tl r))"

text \<open>The address is the four bytes and the two of the port.\<close>

definition byte_str :: "int list \<Rightarrow> string" where
  "byte_str ns = map (\<lambda>n. char_of (nat (n mod 256))) ns"

definition ftpPasv :: "ftp \<Rightarrow> (bool \<times> ftp) option" where
  "ftpPasv s =
     (let s = s\<lparr>pasv := 1\<rparr>;
          s = (if sDatal s \<noteq> - 1 then close_fd (sDatal s) s else s);
          (fd, s) = call Socket s; s = s\<lparr>sDatal := fd\<rparr>;
          (r, s) = call (SetSockOpt fd) s
      in if r = - 1 then Some (False, close_fd (sData s) s)
      else if fd < 0 then Some (False, close_fd fd s)
      else do {
        (ok, s) \<leftarrow> ftpSendCmd ''PASV'' (CHR ''2'') s;
        if \<not> ok then ftpPort (close_fd fd s)
        else let ns = scan_pasv (rspbuf s)
        in if length ns \<noteq> 6 then ftpPort (close_fd fd s)
        else let (r, s) = call (ConnectTo fd (byte_str ns)) s
        in if r = - 1 then Some (False, close_fd fd s)
        else let (_, s) = call (SetSockOpt fd) s; (_, s) = call (SetSockOpt fd) s
        in Some (True, s) })"

definition accept_connect :: "ftp \<Rightarrow> int \<times> ftp" where
  "accept_connect s =
     (if pasv s = 1 then (sDatal s, s)
      else let (r, s) = call (SelectFd (sDatal s)) s
      in if r = 0 then (- 2, close_fd (sDatal s) s)
      else let (fd, s) = call (AcceptOn (sDatal s)) s
      in if fd > 0 then (fd, s) else (- 2, close_fd (sDatal s) s))"

subsection \<open>Commands on files and directories\<close>

definition simple_cmd :: "string \<Rightarrow> ftp \<Rightarrow> (bool \<times> ftp) option" where
  "simple_cmd cmd s = ftpSendCmd cmd (CHR ''2'') (lastresp0 s)"

definition ftpMkdir :: "string \<Rightarrow> ftp \<Rightarrow> (bool \<times> ftp) option" where
  "ftpMkdir path s = simple_cmd (''mkd '' @ path) s"

definition ftpChdir :: "string \<Rightarrow> ftp \<Rightarrow> (bool \<times> ftp) option" where
  "ftpChdir path s = simple_cmd (''cwd '' @ path) s"

definition ftpRmdir :: "string \<Rightarrow> ftp \<Rightarrow> (bool \<times> ftp) option" where
  "ftpRmdir path s = simple_cmd (''RMD '' @ path) s"

definition ftpDelete :: "string \<Rightarrow> ftp \<Rightarrow> (bool \<times> ftp) option" where
  "ftpDelete fnm s = simple_cmd (''DELE '' @ fnm) s"

definition ftpRename :: "string \<Rightarrow> string \<Rightarrow> ftp \<Rightarrow> (bool \<times> ftp) option" where
  "ftpRename src dst s = do {
     (ok, s) \<leftarrow> ftpSendCmd (''RNFR '' @ src) (CHR ''3'') (lastresp0 s);
     if ok then ftpSendCmd (''RNTO '' @ dst) (CHR ''2'') s else Some (False, s) }"

text \<open>\<open>SIZE\<close>; the number is read from the fifth character of the reply. \<open>FAIL\<close> is \<open>-1\<close>.\<close>

definition fail_with :: "kio_error \<Rightarrow> ftp \<Rightarrow> ftp" where
  "fail_with e s = s\<lparr>lastKError := e\<rparr>"

definition ftpSize :: "string \<Rightarrow> char \<Rightarrow> ftp \<Rightarrow> (int \<times> ftp) option" where
  "ftpSize path mode s = do {
     (ok, s) \<leftarrow> ftpSendCmd (''type '' @ [mode]) (CHR ''2'') (lastresp0 s);
     if \<not> ok then Some (- 1, fail_with CouldNotConnect s)
     else do {
       (ok, s) \<leftarrow> ftpSendCmd (''SIZE '' @ path) (CHR ''2'') s;
       Some (if ok then atol (cstr (drop 4 (rspbuf s))) else - 1, s) } }"

definition ftpQuit :: "ftp \<Rightarrow> ftp option" where
  "ftpQuit s =
     (if sControl s \<ge> 0 then do {
        (_, s) \<leftarrow> ftpSendCmd ''quit'' (CHR ''2'') (lastresp0 s);
        s \<leftarrow> free_ctl s;
        Some ((close_fd (sControl s) s)\<lparr>sControl := - 1\<rparr>) }
      else Some s)"

text \<open>For the command \<open>list\<close> the slave first changes to the directory and then lists without a path.\<close>

definition change_to :: "string \<Rightarrow> string option \<Rightarrow> ftp \<Rightarrow> (bool \<times> string option \<times> ftp) option" where
  "change_to command path s =
     (if command = ''list''
      then map_option (\<lambda>(ok, s). (ok, None, s)) (ftpSendCmd (case path of Some p \<Rightarrow> ''cwd '' @ p | None \<Rightarrow> command) (CHR ''2'') s)
      else Some (True, path, s))"

definition request_data :: "string \<Rightarrow> string option \<Rightarrow> ftp \<Rightarrow> (bool \<times> ftp) option" where
  "request_data command path s = do {
     (ok, s) \<leftarrow> ftpSendCmd (case path of Some p \<Rightarrow> command @ '' '' @ p | None \<Rightarrow> command) (CHR ''1'') s;
     if \<not> ok then Some (False, fail_with CouldNotConnect s)
     else let (fd, s) = accept_connect s; s = s\<lparr>sData := fd\<rparr>
       in Some (if fd < 0 then (False, fail_with CouldNotConnect s) else (True, s)) }"

definition OpenConnection :: "string \<Rightarrow> string option \<Rightarrow> char \<Rightarrow> ftp \<Rightarrow> (bool \<times> ftp) option" where
  "OpenConnection command path mode s = do {
     (ok, s) \<leftarrow> ftpSendCmd (''type '' @ [mode]) (CHR ''2'') (lastresp0 s);
     if \<not> ok then Some (False, fail_with CouldNotConnect s)
     else do {
       (ok, s) \<leftarrow> ftpPasv s;
       if \<not> ok then Some (False, fail_with CouldNotConnect s)
       else do {
         (ok, path, s) \<leftarrow> change_to command path s;
         if \<not> ok then Some (False, fail_with NotADirectory s) else request_data command path s } } }"

definition CloseConnection :: "ftp \<Rightarrow> ftp" where
  "CloseConnection s =
     (let s = (if sData s \<noteq> - 1 then (close_fd (sData s) (snd (call (Shutdown (sData s)) s)))\<lparr>sData := - 1\<rparr> else s)
      in if sDatal s \<noteq> - 1 then (close_fd (sDatal s) s)\<lparr>sDatal := - 1\<rparr> else s)"

subsection \<open>The methods of the slave\<close>

text \<open>What is used of a URL.\<close>

record ftp_url =
  fu_host :: string
  fu_port :: nat
  fu_user :: string
  fu_passwd :: string
  fu_path :: string
  fu_hasPath :: bool

definition FTP_LOGIN :: string where "FTP_LOGIN = ''anonymous''"
definition FTP_PASSWD :: string where "FTP_PASSWD = ''kfm-user@nowhere.org''"

definition new_ftp :: "(nat \<Rightarrow> os_call \<Rightarrow> int) \<Rightarrow> (nat \<Rightarrow> nat list) \<Rightarrow> string option list list \<Rightarrow> string option list \<Rightarrow> string \<Rightarrow> ftp" where
  "new_ftp answers addr ctl dat garbage = \<lparr>os = answers, own_addr = addr, calls = [], servers = ctl, ctl_in = [], data_in = dat,
     dirfile = None, pasv = 0, sData = - 1, sControl = - 1, sDatal = - 1, nControl = Uninit, rspbuf = garbage, fsize = 0, fbytesleft = 0,
     lastKError = NoError, redirections = []\<rparr>"

definition user_of :: "(string \<Rightarrow> string) \<Rightarrow> ftp_url \<Rightarrow> string \<times> string" where
  "user_of decodeURL u = (if cstr (fu_user u) \<noteq> [] then (fu_user u, decodeURL (fu_passwd u)) else (FTP_LOGIN, FTP_PASSWD))"

text \<open>\<open>Connect\<close>: success, and the URL, which the directory of the user may change.\<close>

definition Connect :: "(string \<Rightarrow> string) \<Rightarrow> (string \<Rightarrow> ftp_url \<Rightarrow> ftp_url) \<Rightarrow> ftp_url \<Rightarrow> ftp \<Rightarrow> (bool \<times> ftp_url \<times> ftp) option" where
  "Connect decodeURL cd url s = do {
     (ok, s) \<leftarrow> ftpOpen (fu_host url) (fu_port url) s;
     if \<not> ok then Some (False, url, fail_with CouldNotConnect s)
     else let (user, passwd) = user_of decodeURL url
     in do {
       (ok, redirect, s) \<leftarrow> ftpLogin user passwd (\<not> fu_hasPath url) s;
       let url = (if ok \<and> redirect \<noteq> [] then cd (if right_str 1 redirect \<noteq> ''/'' then redirect @ ''/'' else redirect) url else url);
       Some (if ok then (True, url, s) else (False, url, fail_with CouldNotLogin s)) } }"

text \<open>The text that a stream on the data connection delivers.\<close>

fun stream_text :: "string option list \<Rightarrow> string" where
  "stream_text [] = []"
| "stream_text (None # r) = []"
| "stream_text (Some t # r) = (if t = [] then [] else t @ stream_text r)"

text \<open>\<open>OpenDir\<close>; \<open>url_of\<close> prints a URL without its password.\<close>

definition OpenDir :: "(string \<Rightarrow> string) \<Rightarrow> (string \<Rightarrow> ftp_url \<Rightarrow> ftp_url) \<Rightarrow> (ftp_url \<Rightarrow> string) \<Rightarrow> ftp_url \<Rightarrow> ftp \<Rightarrow> (bool \<times> ftp_url \<times> ftp) option" where
  "OpenDir decodeURL cd url_of url0 s = do {
     (ok, url, s) \<leftarrow> Connect decodeURL cd url0 s;
     if \<not> ok then Some (False, url, s)
     else do {
       let s = (if fu_path url0 \<noteq> fu_path url \<or> fu_hasPath url0 \<noteq> fu_hasPath url
         then s\<lparr>redirections := redirections s @ [url_of (url\<lparr>fu_passwd := []\<rparr>)]\<rparr> else s);
       (ok, s) \<leftarrow> OpenConnection ''list'' (Some (fu_path url)) (CHR ''A'') s;
       if \<not> ok then Some (False, url, s)
       else let (f, s) = call (FdOpen (sData s)) s
         in if f = 0 then Some (False, url, s\<lparr>dirfile := None\<rparr>)
            else Some (True, url, s\<lparr>dirfile := Some (stream_text (data_in s)), data_in := []\<rparr>) } }"

definition CloseDir :: "ftp \<Rightarrow> ftp option" where
  "CloseDir s = (case dirfile s of None \<Rightarrow> Some s
     | Some _ \<Rightarrow> ftpQuit (CloseConnection ((close_fd (sData s) s)\<lparr>dirfile := None\<rparr>)))"

text \<open>Opening a file. The size in the reply to \<open>retr\<close> stands behind the last opening parenthesis.\<close>

definition reply_size :: "string \<Rightarrow> int \<Rightarrow> int" where
  "reply_size buf sz = (if length (cstr buf) > 4 \<and> sz = - 1 \<and> CHR ''('' \<in> set (cstr buf)
     then atol (rev (takeWhile (\<lambda>c. c \<noteq> CHR ''('') (rev (cstr buf)))) else sz)"

definition FTP_Open :: "(string \<Rightarrow> string) \<Rightarrow> (string \<Rightarrow> ftp_url \<Rightarrow> ftp_url) \<Rightarrow> ftp_url \<Rightarrow> bool \<Rightarrow> bool \<Rightarrow> ftp \<Rightarrow> (bool \<times> ftp_url \<times> ftp) option" where
  "FTP_Open decodeURL cd url rd wr s = do {
     (ok, url, s) \<leftarrow> Connect decodeURL cd url s;
     if \<not> ok then Some (False, url, s)
     else if rd then do {
       (sz, s) \<leftarrow> ftpSize (fu_path url) (CHR ''I'') s;
       (ok, s) \<leftarrow> OpenConnection ''retr'' (Some (fu_path url)) (CHR ''I'') (s\<lparr>fsize := sz\<rparr>);
       if \<not> ok then Some (False, url, fail_with FileDoesNotExist s)
       else let sz = reply_size (rspbuf s) (fsize s) in Some (True, url, s\<lparr>fsize := sz, fbytesleft := sz\<rparr>) }
     else if wr then do {
       (ok, s) \<leftarrow> OpenConnection ''stor'' (Some (fu_path url)) (CHR ''I'') s;
       Some (ok, url, s) }
     else Some (False, url, s) }"

definition FTP_Close :: "ftp \<Rightarrow> ftp option" where
  "FTP_Close s = ftpQuit (CloseConnection s)"

text \<open>The destructor.\<close>

definition delete_ftp :: "ftp \<Rightarrow> ftp option" where
  "delete_ftp s = do { s \<leftarrow> CloseDir s; FTP_Close s }"

text \<open>\<open>path()[strlen(path()) - 1]\<close> of an empty path is in front of it.\<close>

definition FTP_Delete :: "(string \<Rightarrow> string) \<Rightarrow> (string \<Rightarrow> ftp_url \<Rightarrow> ftp_url) \<Rightarrow> ftp_url \<Rightarrow> ftp \<Rightarrow> (bool \<times> ftp_url \<times> ftp) option" where
  "FTP_Delete decodeURL cd url s = do {
     (ok, url, s) \<leftarrow> Connect decodeURL cd url s;
     if \<not> ok then Some (False, url, s)
     else do {
       ensure (fu_path url \<noteq> []);
       (ok, s) \<leftarrow> (if last (fu_path url) = CHR ''/'' then ftpRmdir (fu_path url) s else ftpDelete (fu_path url) s);
       s \<leftarrow> FTP_Close s;
       Some (ok, url, s) } }"

definition FTP_atEOF :: "ftp \<Rightarrow> bool" where
  "FTP_atEOF s \<longleftrightarrow> fbytesleft s \<le> 0"

text \<open>\<open>Read\<close>: the result of \<open>read\<close>, and the bytes it stored.\<close>

definition FTP_Read :: "nat \<Rightarrow> ftp \<Rightarrow> int \<times> string \<times> ftp" where
  "FTP_Read len s = (case read_in len (data_in s) of
     (None, d) \<Rightarrow> (- 1, [], s\<lparr>data_in := d, fbytesleft := fbytesleft s + 1\<rparr>)
   | (Some t, d) \<Rightarrow> (int (length t), t, s\<lparr>data_in := d, fbytesleft := fbytesleft s - int (length t)\<rparr>))"

definition FTP_Write :: "string \<Rightarrow> ftp \<Rightarrow> int \<times> ftp" where
  "FTP_Write t s = call (WriteData (sData s) t) s"

definition FTP_MkDir :: "(string \<Rightarrow> string) \<Rightarrow> (string \<Rightarrow> ftp_url \<Rightarrow> ftp_url) \<Rightarrow> ftp_url \<Rightarrow> ftp \<Rightarrow> (bool \<times> ftp_url \<times> ftp) option" where
  "FTP_MkDir decodeURL cd url s = do {
     (ok, url, s) \<leftarrow> Connect decodeURL cd url s;
     if \<not> ok then Some (False, url, s)
     else do {
       (ok, s) \<leftarrow> ftpMkdir (fu_path url) s;
       if \<not> ok then Some (False, url, fail_with CouldNotMkdir s)
       else do { s \<leftarrow> ftpQuit s; Some (True, url, s) } } }"

subsection \<open>Directory entries\<close>

text \<open>\<open>strtok\<close>: the token, and the text behind the character that ends it.\<close>

definition strtok :: "string \<Rightarrow> string \<Rightarrow> (string \<times> string) option" where
  "strtok sep s = (let t = dropWhile (\<lambda>c. c \<in> set sep) s
     in if t = [] then None else Some (takeWhile (\<lambda>c. c \<notin> set sep) t, tl (dropWhile (\<lambda>c. c \<notin> set sep) t)))"

definition stripWhiteSpace :: "string \<Rightarrow> string" where
  "stripWhiteSpace s = rev (dropWhile isspace (rev (dropWhile isspace s)))"

record dir_entry =
  de_name :: string
  de_date :: string
  de_access :: string
  de_owner :: string
  de_group :: string
  de_size :: int
  de_isdir :: bool

definition link_name :: "string \<Rightarrow> string" where
  "link_name n = (case find_rev '' -> '' n of None \<Rightarrow> n | Some i \<Rightarrow> take i n)"

definition parse_entry :: "string \<Rightarrow> dir_entry option" where
  "parse_entry buffer = do {
     (acc, r) \<leftarrow> strtok '' '' (cstr buffer);
     (junk, r) \<leftarrow> strtok '' '' r;
     (owner, r) \<leftarrow> strtok '' '' r;
     (group, r) \<leftarrow> strtok '' '' r;
     (sz, r) \<leftarrow> strtok '' '' r;
     (d1, r) \<leftarrow> strtok '' '' r;
     (d2, r) \<leftarrow> strtok '' '' r;
     (d3, r) \<leftarrow> strtok '' '' r;
     (name, r) \<leftarrow> strtok [CR, LF] r;
     let name = (if at0 acc = CHR ''l'' then link_name name else name);
     let isdir = (at0 acc = CHR ''d'');
     Some \<lparr>de_name = stripWhiteSpace name @ (if isdir then ''/'' else []), de_date = d1 @ '' '' @ d2 @ '' '' @ d3, de_access = acc,
       de_owner = owner, de_group = group, de_size = atoi sz, de_isdir = isdir\<rparr> }"

function read_dir :: "string \<Rightarrow> (dir_entry \<times> string) option" where
  "read_dir f = (case fgets 1024 f of None \<Rightarrow> None
     | Some (l, r) \<Rightarrow> (case parse_entry l of Some e \<Rightarrow> Some (e, r) | None \<Rightarrow> read_dir r))"
  by pat_completeness auto

termination read_dir
  by (relation "measure length") (auto dest: fgets_length)

declare read_dir.simps [simp del]

text \<open>A null \<open>dirfile\<close> is a fault.\<close>

definition ReadDir :: "ftp \<Rightarrow> (dir_entry option \<times> ftp) option" where
  "ReadDir s = (case dirfile s of None \<Rightarrow> None
     | Some f \<Rightarrow> Some (case read_dir f of None \<Rightarrow> (None, s\<lparr>dirfile := Some []\<rparr>) | Some (e, r) \<Rightarrow> (Some e, s\<lparr>dirfile := Some r\<rparr>)))"

end
