(* ===== verification/KioFile.thy ===== *)
theory KioFile
  imports FtpSlave
begin

unbundle bit_operations_syntax

section \<open>The slave for local files of kfm\<close>

text \<open>
  \<open>kfm/kioslave/file.cpp\<close>: the methods of \<open>KProtocolFILE\<close> on a file system, and the directory entries with their access strings and their
  order. The file system maps paths to contents and modes; what \<open>stat\<close>, \<open>readdir\<close>, the user data base and the clock tell of a
  directory is given. A stream writes through to its file. Two slaves act on one file system, so a method has the slave and the file system.
\<close>

subsection \<open>Files\<close>

datatype file_error = NoFileError | CouldNotRead | CouldNotWrite | FileExists | CouldNotMkdirHere

text \<open>\<open>disk_free\<close> is the number of bytes that can still be written.\<close>

record file_sys =
  content :: "string \<Rightarrow> string option"
  directory :: "string \<Rightarrow> bool"
  fmode :: "string \<Rightarrow> 32 word"
  readable :: "string \<Rightarrow> bool"
  writable_at :: "string \<Rightarrow> bool"
  disk_free :: nat

record stream =
  st_path :: string
  st_pos :: nat
  st_eof :: bool

record file_prot =
  fp_file :: "stream option"
  fp_size :: int
  fp_error :: file_error

definition new_file_prot :: file_prot where
  "new_file_prot = \<lparr>fp_file = None, fp_size = 0, fp_error = NoFileError\<rparr>"

text \<open>\<open>fopen\<close>: for reading, and for writing, which empties the file or makes it.\<close>

definition fopen_rb :: "string \<Rightarrow> file_sys \<Rightarrow> stream option" where
  "fopen_rb path fs = (if content fs path \<noteq> None \<and> readable fs path then Some \<lparr>st_path = path, st_pos = 0, st_eof = False\<rparr> else None)"

definition fopen_wb :: "string \<Rightarrow> file_sys \<Rightarrow> (stream \<times> file_sys) option" where
  "fopen_wb path fs = (if writable_at fs path \<and> \<not> directory fs path
     then Some (\<lparr>st_path = path, st_pos = 0, st_eof = False\<rparr>, fs\<lparr>content := (content fs)(path \<mapsto> [])\<rparr>) else None)"

text \<open>\<open>fread\<close> sets the end mark when less is there than was asked for; \<open>fwrite\<close> writes less when the disk is full, and fills a gap with NULs.\<close>

definition fread :: "nat \<Rightarrow> stream \<Rightarrow> file_sys \<Rightarrow> string \<times> stream" where
  "fread n st fs = (let c = (case content fs (st_path st) of None \<Rightarrow> [] | Some c \<Rightarrow> c); t = take n (drop (st_pos st) c)
     in (t, st\<lparr>st_pos := st_pos st + length t, st_eof := (st_eof st \<or> length t < n)\<rparr>))"

definition write_over :: "nat \<Rightarrow> string \<Rightarrow> string \<Rightarrow> string" where
  "write_over n t c = take n (c @ replicate (n - length c) NUL) @ t @ drop (n + length t) c"

definition fwrite :: "string \<Rightarrow> stream \<Rightarrow> file_sys \<Rightarrow> nat \<times> stream \<times> file_sys" where
  "fwrite t st fs = (let t = take (disk_free fs) t; c = (case content fs (st_path st) of None \<Rightarrow> [] | Some c \<Rightarrow> c)
     in (length t, st\<lparr>st_pos := st_pos st + length t\<rparr>,
         fs\<lparr>content := (content fs)(st_path st \<mapsto> write_over (st_pos st) t c), disk_free := disk_free fs - length t\<rparr>))"

definition FILE_Close :: "file_prot \<Rightarrow> file_prot" where
  "FILE_Close p = p\<lparr>fp_file := None\<rparr>"

definition FILE_Open :: "string \<Rightarrow> bool \<Rightarrow> bool \<Rightarrow> bool \<Rightarrow> file_prot \<Rightarrow> file_sys \<Rightarrow> bool \<times> file_prot \<times> file_sys" where
  "FILE_Open path rd wr ovr p fs =
     (let p = (FILE_Close p)\<lparr>fp_size := 0\<rparr>
      in if rd then (case fopen_rb path fs of
             None \<Rightarrow> (False, p\<lparr>fp_error := CouldNotRead\<rparr>, fs)
           | Some st \<Rightarrow> (True, p\<lparr>fp_file := Some st, fp_size := int (length (the (content fs path)))\<rparr>, fs))
         else if wr then
           if \<not> ovr \<and> (content fs path \<noteq> None \<or> directory fs path) then (False, p\<lparr>fp_error := FileExists\<rparr>, fs)
           else (case fopen_wb path fs of
               None \<Rightarrow> (False, p\<lparr>fp_error := CouldNotWrite\<rparr>, fs)
             | Some (st, fs) \<Rightarrow> (True, p\<lparr>fp_file := Some st\<rparr>, fs))
         else (True, p, fs))"

text \<open>A method that uses a null stream is a fault.\<close>

definition FILE_Read :: "nat \<Rightarrow> file_prot \<Rightarrow> file_sys \<Rightarrow> (int \<times> string \<times> file_prot) option" where
  "FILE_Read n p fs = (case fp_file p of None \<Rightarrow> None
     | Some st \<Rightarrow> let (t, st) = fread n st fs in Some (int (length t), t, p\<lparr>fp_file := Some st\<rparr>))"

definition FILE_Write :: "string \<Rightarrow> file_prot \<Rightarrow> file_sys \<Rightarrow> (int \<times> file_prot \<times> file_sys) option" where
  "FILE_Write t p fs = (case fp_file p of None \<Rightarrow> None
     | Some st \<Rightarrow> let (n, st, fs) = fwrite t st fs in Some (int n, p\<lparr>fp_file := Some st\<rparr>, fs))"

definition FILE_Size :: "file_prot \<Rightarrow> int" where
  "FILE_Size p = (if fp_file p = None then - 1 else fp_size p)"

text \<open>\<open>FAIL\<close> is not zero, so a slave without a stream is at the end.\<close>

definition FILE_atEOF :: "file_prot \<Rightarrow> bool" where
  "FILE_atEOF p = (case fp_file p of None \<Rightarrow> True | Some st \<Rightarrow> st_eof st)"

definition FILE_Delete :: "string \<Rightarrow> file_sys \<Rightarrow> bool \<times> file_sys" where
  "FILE_Delete path fs =
     (if directory fs path
      then if writable_at fs path then (True, fs\<lparr>directory := (directory fs)(path := False)\<rparr>) else (False, fs)
      else if content fs path \<noteq> None \<and> writable_at fs path then (True, fs\<lparr>content := (content fs)(path := None)\<rparr>) else (False, fs))"

definition FILE_MkDir :: "string \<Rightarrow> file_prot \<Rightarrow> file_sys \<Rightarrow> bool \<times> file_prot \<times> file_sys" where
  "FILE_MkDir path p fs =
     (if directory fs path \<or> content fs path \<noteq> None \<or> \<not> writable_at fs path then (False, p\<lparr>fp_error := CouldNotMkdirHere\<rparr>, fs)
      else (True, p, fs\<lparr>directory := (directory fs)(path := True), fmode := (fmode fs)(path := 0x1C0)\<rparr>))"

definition FILE_GetPermissions :: "string \<Rightarrow> file_sys \<Rightarrow> int" where
  "FILE_GetPermissions path fs = sint (fmode fs path)"

definition FILE_SetPermissions :: "string \<Rightarrow> int \<Rightarrow> file_sys \<Rightarrow> file_sys" where
  "FILE_SetPermissions path perms fs = (if perms = - 1 then fs else fs\<lparr>fmode := (fmode fs)(path := word_of_int perms AND 0xFFF)\<rparr>)"

subsection \<open>Directory entries\<close>

text \<open>The bits of a mode, in octal 4000, 2000, 1000 and down to 1.\<close>

abbreviation (input) "S_ISUID \<equiv> 0x800 :: 32 word"
abbreviation (input) "S_ISGID \<equiv> 0x400 :: 32 word"
abbreviation (input) "S_ISVTX \<equiv> 0x200 :: 32 word"
abbreviation (input) "S_IRUSR \<equiv> 0x100 :: 32 word"
abbreviation (input) "S_IWUSR \<equiv> 0x80 :: 32 word"
abbreviation (input) "S_IXUSR \<equiv> 0x40 :: 32 word"
abbreviation (input) "S_IRGRP \<equiv> 0x20 :: 32 word"
abbreviation (input) "S_IWGRP \<equiv> 0x10 :: 32 word"
abbreviation (input) "S_IXGRP \<equiv> 0x8 :: 32 word"
abbreviation (input) "S_IROTH \<equiv> 0x4 :: 32 word"
abbreviation (input) "S_IWOTH \<equiv> 0x2 :: 32 word"
abbreviation (input) "S_IXOTH \<equiv> 0x1 :: 32 word"

definition xbit :: "32 word \<Rightarrow> 32 word \<Rightarrow> 32 word \<Rightarrow> char \<Rightarrow> char \<Rightarrow> char" where
  "xbit md x sp small big =
     (if md AND (x OR sp) = x OR sp then small
      else if md AND (x OR sp) = sp then big
      else if md AND (x OR sp) = x then CHR ''x''
      else CHR ''-'')"

definition rwbit :: "32 word \<Rightarrow> 32 word \<Rightarrow> char \<Rightarrow> char" where
  "rwbit md b c = (if md AND b = b then c else CHR ''-'')"

definition access_bits :: "32 word \<Rightarrow> string" where
  "access_bits md =
     [rwbit md S_IRUSR (CHR ''r''), rwbit md S_IWUSR (CHR ''w''), xbit md S_IXUSR S_ISUID (CHR ''s'') (CHR ''S''),
      rwbit md S_IRGRP (CHR ''r''), rwbit md S_IWGRP (CHR ''w''), xbit md S_IXGRP S_ISGID (CHR ''s'') (CHR ''S''),
      rwbit md S_IROTH (CHR ''r''), rwbit md S_IWOTH (CHR ''w''), xbit md S_IXOTH S_ISVTX (CHR ''t'') (CHR ''T'')]"

text \<open>What the system tells of an entry: \<open>stat\<close> (\<open>None\<close> when it fails), \<open>lstat\<close>, the names of owner and group if they have one, and the time.\<close>

datatype file_type = Regular | Directory | Symlink | Other

record stat_buf =
  st_type :: file_type
  st_mode :: "32 word"
  st_size :: int
  st_uid :: int
  st_gid :: int
  st_hour :: int
  st_min :: int
  st_mday :: int
  st_mon :: int
  st_year :: int

definition two_digits :: "int \<Rightarrow> string" where
  "two_digits n = (if 0 \<le> n \<and> n < 10 then CHR ''0'' # dec_of_int n else dec_of_int n)"

definition date_text :: "stat_buf \<Rightarrow> string" where
  "date_text b = two_digits (st_hour b) @ '':'' @ two_digits (st_min b) @ '' '' @ two_digits (st_mday b) @ ''.''
     @ two_digits (st_mon b + 1) @ ''.'' @ pad_left 4 (dec_of_int (1900 + st_year b))"

text \<open>\<open>buff\<close> keeps the result of the last \<open>stat\<close> that succeeded. A name that the data base does not know is the number.\<close>

definition file_entry :: "(int \<Rightarrow> string option) \<Rightarrow> (int \<Rightarrow> string option) \<Rightarrow> string \<Rightarrow> stat_buf \<Rightarrow> bool \<Rightarrow> stat_buf \<Rightarrow> dir_entry" where
  "file_entry user grp name buff stat_ok lbuff =
     (let lnk = (st_type lbuff = Symlink); isdir = (st_type buff = Directory);
          acc = (if lnk then CHR ''l'' else if isdir then CHR ''d'' else CHR ''-'') # access_bits (st_mode buff);
          dead = (\<not> stat_ok \<and> lnk)
      in \<lparr>de_name = name @ (if isdir then ''/'' else []), de_date = date_text lbuff, de_access = (if dead then ''lrwxrwxrwx'' else acc),
          de_owner = (case user (st_uid lbuff) of Some n \<Rightarrow> n | None \<Rightarrow> dec_of_int (st_uid lbuff)),
          de_group = (case grp (st_gid lbuff) of Some n \<Rightarrow> n | None \<Rightarrow> dec_of_int (st_gid lbuff)),
          de_size = (if dead then st_size lbuff else st_size buff), de_isdir = isdir\<rparr>)"

text \<open>The order: \<open>DIRSORT_DIRSFIRST\<close> is 128, by name 1, by size 2. The difference of two sizes becomes an \<open>int\<close>.\<close>

definition compare_entries :: "nat \<Rightarrow> dir_entry \<Rightarrow> dir_entry \<Rightarrow> int" where
  "compare_entries sortMode de1 de2 =
     (let s1 = (if de_isdir de1 then butlast (de_name de1) else de_name de1);
          s2 = (if de_isdir de2 then butlast (de_name de2) else de_name de2)
      in if sortMode div 128 mod 2 = 1 \<and> de_isdir de1 \<noteq> de_isdir de2 then (if de_isdir de1 then - 1 else 1)
         else if sortMode mod 128 = 2 then to_int32 (de_size de1 - de_size de2) else strcmp s1 s2)"

text \<open>The loop of \<open>OpenDir\<close> over what \<open>readdir\<close> gives: name, \<open>stat\<close> if it succeeds, and \<open>lstat\<close>.\<close>

fun list_entries :: "(int \<Rightarrow> string option) \<Rightarrow> (int \<Rightarrow> string option) \<Rightarrow> nat \<Rightarrow> stat_buf \<Rightarrow> (string \<times> stat_buf option \<times> stat_buf) list
    \<Rightarrow> dir_entry list \<Rightarrow> dir_entry list" where
  "list_entries user grp sortMode buff [] dlist = dlist"
| "list_entries user grp sortMode buff ((name, st, lst) # eps) dlist =
     (let buff = (case st of None \<Rightarrow> buff | Some b \<Rightarrow> b); e = file_entry user grp name buff (st \<noteq> None) lst
      in list_entries user grp sortMode buff eps (if sortMode = 0 then dlist @ [e] else inSort (compare_entries sortMode) e dlist))"

text \<open>The constructor sets the mode to directories first, then names.\<close>

definition FILE_OpenDir :: "(int \<Rightarrow> string option) \<Rightarrow> (int \<Rightarrow> string option) \<Rightarrow> stat_buf \<Rightarrow> (string \<times> stat_buf option \<times> stat_buf) list option
    \<Rightarrow> dir_entry list option" where
  "FILE_OpenDir user grp buff dp = map_option (\<lambda>eps. list_entries user grp 129 buff eps []) dp"

end
