(* ===== verification/KioListing.thy ===== *)
theory KioListing
  imports KioFile
begin

section \<open>Directory listings\<close>

text \<open>
  What the listings of the two slaves mean: the access string tells the bits of the mode, the entries of a local directory come in order and
  complete, and a line in the format of \<open>ls -l\<close> from an FTP server is read as it was meant.
\<close>

subsection \<open>Access strings\<close>

definition has_x :: "char \<Rightarrow> bool" where
  "has_x c \<longleftrightarrow> c \<in> {CHR ''x'', CHR ''s'', CHR ''t''}"

definition has_sp :: "char \<Rightarrow> bool" where
  "has_sp c \<longleftrightarrow> c \<in> {CHR ''s'', CHR ''S'', CHR ''t'', CHR ''T''}"

fun decode_access :: "string \<Rightarrow> bool list" where
  "decode_access (r # w # x # s) = [r \<noteq> CHR ''-'', w \<noteq> CHR ''-'', has_x x, has_sp x] @ decode_access s"
| "decode_access s = []"

lemma bits_eq: "x = y \<longleftrightarrow> (\<forall>k. bit x k = bit y k)" for x y :: "32 word"
  by (metis bit_eqI)

lemma bit_two_power: "n < 32 \<Longrightarrow> bit (2 ^ n :: 32 word) k \<longleftrightarrow> k = n"
  by (auto simp: bit_simps)

lemma and_one_bit: "n < 32 \<Longrightarrow> m AND 2 ^ n = 2 ^ n \<longleftrightarrow> bit m n" for m :: "32 word"
  by (auto simp: bits_eq bit_and_iff bit_two_power)

lemma and_two_bits:
  fixes m :: "32 word"
  assumes "i < 32" "j < 32" "i \<noteq> j"
  shows "m AND (2 ^ i OR 2 ^ j) = 2 ^ i OR 2 ^ j \<longleftrightarrow> bit m i \<and> bit m j"
    "m AND (2 ^ i OR 2 ^ j) = 2 ^ i \<longleftrightarrow> bit m i \<and> \<not> bit m j"
    "m AND (2 ^ i OR 2 ^ j) = 2 ^ j \<longleftrightarrow> \<not> bit m i \<and> bit m j"
  using assms by (auto simp: bits_eq bit_and_iff bit_or_iff bit_two_power)

lemma rwbit_set: "n < 32 \<Longrightarrow> c \<noteq> CHR ''-'' \<Longrightarrow> rwbit m (2 ^ n) c \<noteq> CHR ''-'' \<longleftrightarrow> bit m n"
  by (simp add: rwbit_def and_one_bit)

lemma xbit_cases:
  assumes "i < 32" "j < 32" "i \<noteq> j"
  shows "xbit m (2 ^ i) (2 ^ j) small big =
    (if bit m i then if bit m j then small else CHR ''x'' else if bit m j then big else CHR ''-'')"
  by (simp add: xbit_def and_two_bits[OF assms])

lemma xbit_set:
  assumes "i < 32" "j < 32" "i \<noteq> j" "small = CHR ''s'' \<and> big = CHR ''S'' \<or> small = CHR ''t'' \<and> big = CHR ''T''"
  shows "has_x (xbit m (2 ^ i) (2 ^ j) small big) \<longleftrightarrow> bit m i" "has_sp (xbit m (2 ^ i) (2 ^ j) small big) \<longleftrightarrow> bit m j"
  using assms(4) by (auto simp: xbit_cases[OF assms(1-3)] has_x_def has_sp_def)

text \<open>C26: The nine characters of an access string tell the twelve lower bits of the mode, also for every combination of the bits set-user-id,
  set-group-id and sticky with those for execution.\<close>

theorem access_roundtrip:
  "decode_access (access_bits md) = map (bit md) [8, 7, 6, 11, 5, 4, 3, 10, 2, 1, 0, 9]"
proof -
  have rw: "rwbit md S_IRUSR (CHR ''r'') \<noteq> CHR ''-'' \<longleftrightarrow> bit md 8" "rwbit md S_IWUSR (CHR ''w'') \<noteq> CHR ''-'' \<longleftrightarrow> bit md 7"
    "rwbit md S_IRGRP (CHR ''r'') \<noteq> CHR ''-'' \<longleftrightarrow> bit md 5" "rwbit md S_IWGRP (CHR ''w'') \<noteq> CHR ''-'' \<longleftrightarrow> bit md 4"
    "rwbit md S_IROTH (CHR ''r'') \<noteq> CHR ''-'' \<longleftrightarrow> bit md 2" "rwbit md S_IWOTH (CHR ''w'') \<noteq> CHR ''-'' \<longleftrightarrow> bit md 1"
    using rwbit_set[of 8 "CHR ''r''" md] rwbit_set[of 7 "CHR ''w''" md] rwbit_set[of 5 "CHR ''r''" md]
      rwbit_set[of 4 "CHR ''w''" md] rwbit_set[of 2 "CHR ''r''" md] rwbit_set[of 1 "CHR ''w''" md] by simp_all
  have x: "has_x (xbit md S_IXUSR S_ISUID (CHR ''s'') (CHR ''S'')) \<longleftrightarrow> bit md 6" "has_sp (xbit md S_IXUSR S_ISUID (CHR ''s'') (CHR ''S'')) \<longleftrightarrow> bit md 11"
    "has_x (xbit md S_IXGRP S_ISGID (CHR ''s'') (CHR ''S'')) \<longleftrightarrow> bit md 3" "has_sp (xbit md S_IXGRP S_ISGID (CHR ''s'') (CHR ''S'')) \<longleftrightarrow> bit md 10"
    "has_x (xbit md S_IXOTH S_ISVTX (CHR ''t'') (CHR ''T'')) \<longleftrightarrow> bit md 0" "has_sp (xbit md S_IXOTH S_ISVTX (CHR ''t'') (CHR ''T'')) \<longleftrightarrow> bit md 9"
    using xbit_set[of 6 11 "CHR ''s''" "CHR ''S''" md] xbit_set[of 3 10 "CHR ''s''" "CHR ''S''" md]
      xbit_set[of 0 9 "CHR ''t''" "CHR ''T''" md] by simp_all
  show ?thesis unfolding access_bits_def decode_access.simps rw x by simp
qed

subsection \<open>The order of a local directory\<close>

text \<open>With the mode of the constructor entries are compared by a key: directories first, then the names without the slash.\<close>

definition entry_key :: "dir_entry \<Rightarrow> string" where
  "entry_key e = (if de_isdir e then NUL else CHR ''x'') # (if de_isdir e then butlast (de_name e) else de_name e)"

interpretation listing_order: key_compare "compare_entries 129" entry_key
  by unfold_locales (auto simp: compare_entries_def entry_key_def strcmp_def Let_def)

definition bare_name :: "dir_entry \<Rightarrow> string" where
  "bare_name e = (if de_isdir e then butlast (de_name e) else de_name e)"

lemma file_entry_name: "bare_name (file_entry user grp name buff ok lst) = name"
  by (simp add: bare_name_def file_entry_def Let_def)

lemma list_entries_sorted:
  "sorted_wrt (\<lambda>a b. compare_entries 129 a b \<le> 0) dlist \<Longrightarrow>
   sorted_wrt (\<lambda>a b. compare_entries 129 a b \<le> 0) (list_entries user grp 129 buff eps dlist) \<and>
   mset (map bare_name (list_entries user grp 129 buff eps dlist)) = mset (map bare_name dlist) + mset (map fst eps)"
proof (induction eps arbitrary: buff dlist)
  case (Cons p eps)
  obtain name st lst where p: "p = (name, st, lst)" by (cases p)
  define b where "b = (case st of None \<Rightarrow> buff | Some b \<Rightarrow> b)"
  define e where "e = file_entry user grp name b (st \<noteq> None) lst"
  have "sorted_wrt (\<lambda>a b. compare_entries 129 a b \<le> 0) (inSort (compare_entries 129) e dlist)"
    by (rule listing_order.inSort_sorted[OF Cons.prems])
  note IH = Cons.IH[OF this, of b]
  have "list_entries user grp 129 buff (p # eps) dlist = list_entries user grp 129 b eps (inSort (compare_entries 129) e dlist)"
    by (simp add: p b_def e_def Let_def)
  moreover have "bare_name e = name" by (simp only: e_def file_entry_name)
  ultimately show ?case using IH by (simp add: p listing_order.sorted_list.ins_mset)
qed simp

text \<open>C25: The entries of a local directory are those that the system lists, each once, and come in order: directories first, then by name.\<close>

theorem local_listing_sorted:
  assumes "FILE_OpenDir user grp buff (Some eps) = Some l"
  shows "sorted (map entry_key l) \<and> mset (map bare_name l) = mset (map fst eps)"
proof -
  have l: "l = list_entries user grp 129 buff eps []" using assms by (simp add: FILE_OpenDir_def)
  have "sorted_wrt (\<lambda>a b. entry_key a \<le> entry_key b) l"
    using list_entries_sorted[of "[]" user grp buff eps] by (simp add: l listing_order.cmp_le)
  then show ?thesis using list_entries_sorted[of "[]" user grp buff eps] by (simp add: l sorted_map)
qed

definition plain_stat :: "file_type \<Rightarrow> stat_buf" where
  "plain_stat ty = \<lparr>st_type = ty, st_mode = 0x1ED, st_size = 7, st_uid = 0, st_gid = 0, st_hour = 1, st_min = 2, st_mday = 3, st_mon = 4, st_year = 98\<rparr>"

theorem local_listing_sorted_witness:
  "map (\<lambda>e. (bare_name e, de_isdir e)) (the (FILE_OpenDir (\<lambda>u. None) (\<lambda>g. None) (plain_stat Other)
     (Some [(''b'', Some (plain_stat Regular), plain_stat Regular), (''z'', Some (plain_stat Directory), plain_stat Directory),
       (''a'', Some (plain_stat Regular), plain_stat Regular)]))) = [(''z'', True), (''a'', False), (''b'', False)] \<and>
   sorted (map entry_key (the (FILE_OpenDir (\<lambda>u. None) (\<lambda>g. None) (plain_stat Other) (Some [(''b'', Some (plain_stat Regular), plain_stat Regular)]))))"
proof
  show "sorted (map entry_key (the (FILE_OpenDir (\<lambda>u. None) (\<lambda>g. None) (plain_stat Other) (Some [(''b'', Some (plain_stat Regular), plain_stat Regular)]))))"
    using local_listing_sorted[of "\<lambda>u. None" "\<lambda>g. None" "plain_stat Other" "[(''b'', Some (plain_stat Regular), plain_stat Regular)]"]
    by (simp add: FILE_OpenDir_def)
qed code_simp

text \<open>A link that leads nowhere is shown as a directory when the entry before it is one: \<open>stat\<close> has failed and \<open>buff\<close> is the old one.\<close>

lemma dead_link_as_directory:
  "map_option (map (\<lambda>e. (de_name e, de_isdir e))) (FILE_OpenDir (\<lambda>u. None) (\<lambda>g. None) (plain_stat Other)
     (Some [(''d'', Some (plain_stat Directory), plain_stat Directory), (''l'', None, plain_stat Symlink)])) = Some [(''d/'', True), (''l/'', True)]"
  by code_simp

text \<open>By size, a file of 3 GB would come before an empty one.\<close>

lemma size_order_wraps:
  "compare_entries 130 (e\<lparr>de_size := 3000000000, de_isdir := False\<rparr>) (e\<lparr>de_size := 0, de_isdir := False\<rparr>) < 0"
  by (simp add: compare_entries_def to_int32_def)

subsection \<open>Lines of an FTP server\<close>

definition word_ok :: "string \<Rightarrow> bool" where
  "word_ok w \<longleftrightarrow> w \<noteq> [] \<and> SP \<notin> set w \<and> NUL \<notin> set w \<and> LF \<notin> set w"

text \<open>A column: a word and the blanks behind it, at least one.\<close>

definition column :: "string \<times> nat \<Rightarrow> string" where
  "column p = fst p @ replicate (Suc (snd p)) SP"

lemma strtok_word: "word_ok w \<Longrightarrow> strtok '' '' (replicate k SP @ w @ SP # r) = Some (w, r)"
proof -
  assume w: "word_ok w"
  then obtain c v where cv: "w = c # v" "c \<noteq> SP" by (cases w) (auto simp: word_ok_def)
  have "dropWhile (\<lambda>c. c \<in> set '' '') (replicate k SP @ w @ SP # r) = w @ SP # r"
    using cv by (induction k) simp_all
  moreover have "takeWhile (\<lambda>c. c \<notin> set '' '') (w @ SP # r) = w" "dropWhile (\<lambda>c. c \<notin> set '' '') (w @ SP # r) = SP # r"
    using w by (auto simp: word_ok_def intro!: takeWhile_stop dropWhile_stop)
  ultimately show ?thesis using cv by (simp add: strtok_def Let_def)
qed

lemma strtok_column: "word_ok w \<Longrightarrow> strtok '' '' (replicate k SP @ column (w, n) @ r) = Some (w, replicate n SP @ r)"
  using strtok_word[of w k "replicate n SP @ r"] by (simp add: column_def)

definition name_ok :: "string \<Rightarrow> bool" where
  "name_ok n \<longleftrightarrow> n \<noteq> [] \<and> NUL \<notin> set n \<and> CR \<notin> set n \<and> LF \<notin> set n \<and> \<not> isspace (hd n) \<and> \<not> isspace (last n)"

lemma strip_name: "name_ok n \<Longrightarrow> stripWhiteSpace (replicate k SP @ n) = n"
proof -
  assume n: "name_ok n"
  have "isspace SP" by code_simp
  then have "dropWhile isspace (replicate k SP @ n) = n"
    using n by (induction k) (auto simp: name_ok_def dropWhile_eq_self_iff)
  moreover have "dropWhile isspace (rev n) = rev n"
    using n by (simp add: name_ok_def dropWhile_eq_self_iff hd_rev)
  ultimately show ?thesis by (simp add: stripWhiteSpace_def)
qed

lemma find_rev_append: "t \<noteq> [] \<Longrightarrow> find_rev t b = Some k \<Longrightarrow> find_rev t (a @ b) = Some (length a + k)"
  by (induction a) simp_all

text \<open>A line of \<open>ls -l\<close>: the columns with the blanks between them, the name, for a link its target, and the end of the line.\<close>

record ls_line =
  ls_access :: string
  ls_junk :: string
  ls_owner :: string
  ls_group :: string
  ls_size :: nat
  ls_date :: "string \<times> string \<times> string"
  ls_name :: string
  ls_target :: string
  ls_gap :: "nat \<Rightarrow> nat"
  ls_crlf :: bool

definition ls_is_link :: "ls_line \<Rightarrow> bool" where
  "ls_is_link x \<longleftrightarrow> at0 (ls_access x) = CHR ''l''"

definition ls_text :: "ls_line \<Rightarrow> string" where
  "ls_text x = (case ls_date x of (d1, d2, d3) \<Rightarrow>
     column (ls_access x, ls_gap x 0) @ column (ls_junk x, ls_gap x 1) @ column (ls_owner x, ls_gap x 2) @ column (ls_group x, ls_gap x 3)
     @ column (dec_of_nat (ls_size x), ls_gap x 4) @ column (d1, ls_gap x 5) @ column (d2, ls_gap x 6) @ column (d3, ls_gap x 7)
     @ ls_name x @ (if ls_is_link x then '' -> '' @ ls_target x else []) @ (if ls_crlf x then [CR, LF] else [LF]))"

definition ls_ok :: "ls_line \<Rightarrow> bool" where
  "ls_ok x \<longleftrightarrow> word_ok (ls_access x) \<and> word_ok (ls_junk x) \<and> word_ok (ls_owner x) \<and> word_ok (ls_group x) \<and> ls_size x < 2 ^ 31 \<and>
     (case ls_date x of (d1, d2, d3) \<Rightarrow> word_ok d1 \<and> word_ok d2 \<and> word_ok d3) \<and> name_ok (ls_name x) \<and>
     (ls_is_link x \<longrightarrow> NUL \<notin> set (ls_target x) \<and> CR \<notin> set (ls_target x) \<and> LF \<notin> set (ls_target x) \<and>
       find_rev '' -> '' (''-> '' @ ls_target x) = None) \<and>
     length (ls_text x) \<le> 1023"

definition ls_entry :: "ls_line \<Rightarrow> dir_entry" where
  "ls_entry x = (case ls_date x of (d1, d2, d3) \<Rightarrow>
     \<lparr>de_name = ls_name x @ (if at0 (ls_access x) = CHR ''d'' then ''/'' else []), de_date = d1 @ '' '' @ d2 @ '' '' @ d3,
       de_access = ls_access x, de_owner = ls_owner x, de_group = ls_group x, de_size = int (ls_size x),
       de_isdir = (at0 (ls_access x) = CHR ''d'')\<rparr>)"

lemma dec_word: "word_ok (dec_of_nat n)"
  using dec_of_nat_digits[of n] by (auto simp: word_ok_def isdigit_def code_def)

lemma atoi_dec: "n < 2 ^ 31 \<Longrightarrow> atoi (dec_of_nat n) = int n"
  using strtol_dec[of "[]" n] by (simp add: atoi_def atol_def LONG_MAX_def isdigit_def code_def)

lemma name_token:
  assumes "n \<noteq> []" "CR \<notin> set n" "LF \<notin> set n"
  shows "strtok [CR, LF] (replicate k SP @ n @ (if b then [CR, LF] else [LF])) = Some (replicate k SP @ n, if b then [LF] else [])"
proof -
  define t where "t = replicate k SP @ n"
  have t: "t \<noteq> []" "\<forall>c\<in>set t. c \<notin> set [CR, LF]" using assms by (auto simp: t_def set_replicate_conv_if)
  then have "hd t \<notin> set [CR, LF]" using hd_in_set by blast
  then have "dropWhile (\<lambda>c. c \<in> set [CR, LF]) (t @ (if b then [CR, LF] else [LF])) = t @ (if b then [CR, LF] else [LF])"
    using t(1) by (subst dropWhile_eq_self_iff) auto
  moreover have "takeWhile (\<lambda>c. c \<notin> set [CR, LF]) (t @ (if b then [CR, LF] else [LF])) = t"
    "dropWhile (\<lambda>c. c \<notin> set [CR, LF]) (t @ (if b then [CR, LF] else [LF])) = (if b then [CR, LF] else [LF])"
    using t(2) by (simp_all add: takeWhile_append dropWhile_append)
  ultimately have "strtok [CR, LF] (t @ (if b then [CR, LF] else [LF])) = Some (t, if b then [LF] else [])"
    using t(1) by (simp add: strtok_def Let_def)
  then show ?thesis by (simp add: t_def)
qed

lemma link_name_target:
  "find_rev '' -> '' (''-> '' @ u) = None \<Longrightarrow> link_name (n @ '' -> '' @ u) = n"
  using find_rev_append[of "'' -> ''" "'' -> '' @ u" 0 n] by (simp add: link_name_def)

lemma ls_text_plain: "ls_ok x \<Longrightarrow> no_nul (ls_text x)"
  using dec_word[of "ls_size x"]
  by (auto simp: ls_ok_def ls_text_def column_def word_ok_def name_ok_def no_nul_def split: prod.splits)

lemma parse_entry_line:
  assumes "ls_ok x"
  shows "parse_entry (ls_text x) = Some (ls_entry x)"
proof -
  obtain d1 d2 d3 where d: "ls_date x = (d1, d2, d3)" by (cases "ls_date x")
  define nm where "nm = ls_name x @ (if ls_is_link x then '' -> '' @ ls_target x else [])"
  have w: "word_ok (ls_access x)" "word_ok (ls_junk x)" "word_ok (ls_owner x)" "word_ok (ls_group x)" "word_ok d1" "word_ok d2" "word_ok d3"
    "name_ok (ls_name x)" "ls_size x < 2 ^ 31" using assms by (auto simp: ls_ok_def d)
  have nm: "nm \<noteq> []" "CR \<notin> set nm" "LF \<notin> set nm" using assms by (auto simp: ls_ok_def nm_def name_ok_def)
  have link: "(if ls_is_link x then link_name (replicate k SP @ nm) else replicate k SP @ nm) = replicate k SP @ ls_name x" for k
    using assms link_name_target[of "ls_target x" "replicate k SP @ ls_name x"] by (auto simp: nm_def ls_ok_def)
  have tx: "ls_text x = replicate 0 SP @ column (ls_access x, ls_gap x 0) @ column (ls_junk x, ls_gap x 1) @ column (ls_owner x, ls_gap x 2)
      @ column (ls_group x, ls_gap x 3) @ column (dec_of_nat (ls_size x), ls_gap x 4) @ column (d1, ls_gap x 5) @ column (d2, ls_gap x 6)
      @ column (d3, ls_gap x 7) @ nm @ (if ls_crlf x then [CR, LF] else [LF])"
    by (simp add: ls_text_def d nm_def)
  have cs: "cstr (ls_text x) = ls_text x" using ls_text_plain[OF assms] by simp
  show ?thesis
    unfolding parse_entry_def cs unfolding tx
    by (simp only: strtok_column[OF w(1)] strtok_column[OF w(2)] strtok_column[OF w(3)] strtok_column[OF w(4)] strtok_column[OF dec_word]
        strtok_column[OF w(5)] strtok_column[OF w(6)] strtok_column[OF w(7)] name_token[OF nm] bind.bind_lunit prod.case Let_def
        link[unfolded ls_is_link_def] strip_name[OF w(8)] atoi_dec[OF w(9)])
      (simp add: ls_entry_def d)
qed

lemma ls_text_body:
  assumes "ls_ok x"
  shows "\<exists>a. ls_text x = a @ [LF] \<and> LF \<notin> set a \<and> length a + 1 < 1024"
proof -
  obtain d1 d2 d3 where d: "ls_date x = (d1, d2, d3)" by (cases "ls_date x")
  define a where "a = column (ls_access x, ls_gap x 0) @ column (ls_junk x, ls_gap x 1) @ column (ls_owner x, ls_gap x 2)
      @ column (ls_group x, ls_gap x 3) @ column (dec_of_nat (ls_size x), ls_gap x 4) @ column (d1, ls_gap x 5) @ column (d2, ls_gap x 6)
      @ column (d3, ls_gap x 7) @ ls_name x @ (if ls_is_link x then '' -> '' @ ls_target x else []) @ (if ls_crlf x then [CR] else [])"
  have t: "ls_text x = a @ [LF]" by (simp add: ls_text_def d a_def)
  have "LF \<notin> set a"
    using assms dec_word[of "ls_size x"] by (auto simp: a_def ls_ok_def d column_def word_ok_def name_ok_def)
  moreover have "length a + 1 < 1024" using assms by (simp add: ls_ok_def t)
  ultimately show ?thesis using t by blast
qed

text \<open>The loop of \<open>KIOSlave::list\<close> in \<open>main.cpp\<close> over the entries; what it emits.\<close>

lemma read_dir_shrinks: "read_dir f = Some (e, r) \<Longrightarrow> length r < length f"
proof (induction f rule: read_dir.induct)
  case (1 f)
  obtain l q where q: "fgets 1024 f = Some (l, q)" using 1(2) by (subst (asm) read_dir.simps) (auto split: option.splits)
  show ?case
  proof (cases "parse_entry l")
    case None
    then have "read_dir q = Some (e, r)" using 1(2) q by (subst (asm) read_dir.simps) simp
    from 1(1)[OF q refl None this] show ?thesis using fgets_length[OF q] by simp
  next
    case (Some x)
    then show ?thesis using 1(2) q fgets_length[OF q] by (subst (asm) read_dir.simps) simp
  qed
qed

function emit_entries :: "string \<Rightarrow> dir_entry list" where
  "emit_entries f = (case read_dir f of None \<Rightarrow> [] | Some (e, r) \<Rightarrow> e # emit_entries r)"
  by pat_completeness auto

termination emit_entries
  by (relation "measure length") (auto dest: read_dir_shrinks)

declare emit_entries.simps [simp del]

text \<open>Lines that are not entries, such as the total at the top.\<close>

definition noise_ok :: "string \<Rightarrow> bool" where
  "noise_ok n \<longleftrightarrow> LF \<notin> set n \<and> length n + 1 < 1024 \<and> parse_entry (n @ [LF]) = None"

text \<open>C18: A listing in the format of \<open>ls -l\<close>, with any blanks between the columns, line ends with or without a carriage return, links with their targets and
  other lines in between, is read as exactly the entries it lists, in their order. A line has at most 1023 characters with its end, a size is below 2^31, the columns are
  not empty and hold neither blanks, NULs nor line feeds, a name has no NUL, line end or blank at its edges (see \<open>name_ok\<close>), a link's target no NUL or line end, and
  the arrow that ends the name of a link is the last one of the line. A line in between has at most 1022 characters and is not itself read as an entry.\<close>

theorem ftp_listing_roundtrip:
  assumes "\<forall>x\<in>set xs. case x of Inl n \<Rightarrow> noise_ok n | Inr l \<Rightarrow> ls_ok l"
  shows "emit_entries (concat (map (case_sum (\<lambda>n. n @ [LF]) ls_text) xs)) = concat (map (case_sum (\<lambda>n. []) (\<lambda>l. [ls_entry l])) xs)"
  using assms
proof (induction xs)
  case Nil
  show ?case by (simp add: emit_entries.simps[of "[]"] read_dir.simps[of "[]"] fgets_def)
next
  case (Cons x xs)
  define r where "r = concat (map (case_sum (\<lambda>n. n @ [LF]) ls_text) xs)"
  have IH: "emit_entries r = concat (map (case_sum (\<lambda>n. []) (\<lambda>l. [ls_entry l])) xs)" using Cons by (simp add: r_def)
  show ?case
  proof (cases x)
    case (Inl n)
    then have "fgets 1024 (n @ LF # r) = Some (n @ [LF], r)" "parse_entry (n @ [LF]) = None"
      using Cons.prems by (auto simp: noise_ok_def intro!: fgets_line)
    then have "read_dir (n @ LF # r) = read_dir r" by (simp add: read_dir.simps[of "n @ LF # r"])
    then have "emit_entries (n @ LF # r) = emit_entries r" by (simp add: emit_entries.simps[of "n @ LF # r"] emit_entries.simps[of r])
    then show ?thesis using IH by (simp add: Inl r_def)
  next
    case (Inr l)
    then have ok: "ls_ok l" using Cons.prems by simp
    obtain a where a: "ls_text l = a @ [LF]" "LF \<notin> set a" "length a + 1 < 1024" using ls_text_body[OF ok] by blast
    have "fgets 1024 (ls_text l @ r) = Some (ls_text l, r)" using fgets_line[OF a(2,3), of r] by (simp add: a(1))
    then have "read_dir (ls_text l @ r) = Some (ls_entry l, r)" by (simp add: read_dir.simps[of "ls_text l @ r"] parse_entry_line[OF ok])
    then have "emit_entries (ls_text l @ r) = ls_entry l # emit_entries r" by (simp add: emit_entries.simps[of "ls_text l @ r"])
    then show ?thesis using IH by (simp add: Inr r_def)
  qed
qed

definition some_link :: ls_line where
  "some_link = \<lparr>ls_access = ''lrwxrwxrwx'', ls_junk = ''1'', ls_owner = ''ftp'', ls_group = ''ftp'', ls_size = 9, ls_date = (''Jan'', ''2'', ''1998''),
     ls_name = ''my file'', ls_target = ''../x'', ls_gap = (\<lambda>i. i mod 3), ls_crlf = True\<rparr>"

theorem ftp_listing_roundtrip_witness:
  "map de_name (emit_entries (''total 9'' @ [LF] @ ls_text some_link)) = [''my file'']"
proof -
  have "noise_ok ''total 9''" by code_simp
  moreover have "ls_ok some_link"
    by (simp add: ls_ok_def some_link_def word_ok_def name_ok_def ls_is_link_def isspace_def code_def column_def ls_text_def
        dec_of_nat.simps[of 9])
  ultimately have "emit_entries (concat (map (case_sum (\<lambda>n. n @ [LF]) ls_text) [Inl ''total 9'', Inr some_link])) =
      concat (map (case_sum (\<lambda>n. []) (\<lambda>l. [ls_entry l])) [Inl ''total 9'', Inr some_link])"
    by (intro ftp_listing_roundtrip) simp
  then show ?thesis by (simp add: ls_entry_def some_link_def)
qed

end
