(* ===== verification/KioTransfer.thy ===== *)
theory KioTransfer
  imports KioListing Complex_Main "HOL-Library.Signed_Division"
begin

section \<open>The slave process of kfm: transfers\<close>

text \<open>
  \<open>kfm/kioslave/main.cpp\<close>: the requests \<open>get\<close>, \<open>copy\<close>, \<open>mkdir\<close> and \<open>del\<close> on top of the methods of \<open>KProtocol\<close>. A protocol is the record of its
  methods on a world, which holds the slave objects and what they act on. A method that is \<open>None\<close> crashes; a request that is \<open>None\<close> does not
  return. \<open>KURL\<close> and the percentage, a number of type \<open>float\<close>, are parameters.
\<close>

subsection \<open>Protocols and requests\<close>

record 'w kprotocol =
  m_Open :: "string \<Rightarrow> bool \<Rightarrow> bool \<Rightarrow> bool \<Rightarrow> 'w \<Rightarrow> (bool \<times> string \<times> 'w) option"
  m_ReOpen :: "string \<Rightarrow> 'w \<Rightarrow> (bool \<times> string \<times> 'w) option"
  m_prepare :: "string \<Rightarrow> string \<Rightarrow> 'w \<Rightarrow> 'w"
  m_Close :: "'w \<Rightarrow> 'w option"
  m_Read :: "nat \<Rightarrow> 'w \<Rightarrow> (int \<times> string \<times> 'w) option"
  m_Write :: "string \<Rightarrow> 'w \<Rightarrow> (int \<times> 'w) option"
  m_atEOF :: "'w \<Rightarrow> bool"
  m_Size :: "'w \<Rightarrow> int"
  m_MkDir :: "string \<Rightarrow> 'w \<Rightarrow> (bool \<times> 'w) option"
  m_Delete :: "string \<Rightarrow> 'w \<Rightarrow> (bool \<times> 'w) option"
  m_GetPermissions :: "string \<Rightarrow> 'w \<Rightarrow> int"
  m_SetPermissions :: "string \<Rightarrow> int \<Rightarrow> 'w \<Rightarrow> 'w"
  m_destroy :: "'w \<Rightarrow> 'w option"
  m_error :: "'w \<Rightarrow> int \<times> string"

definition KIO_ERROR_CouldNotDelete :: int where "KIO_ERROR_CouldNotDelete = 3"
definition KIO_ERROR_NotImplemented :: int where "KIO_ERROR_NotImplemented = 10"
definition KIO_ERROR_MalformedURL :: int where "KIO_ERROR_MalformedURL = 12"
definition KIO_ERROR_DiskFull :: int where "KIO_ERROR_DiskFull = 22"

datatype kio_event = Data string | Progress int | Fatal int string | Done

text \<open>How a loop or a request ends.\<close>

datatype 'w kio_end = Finished 'w | Failed 'w | Crashed

type_synonym 'w kio_result = "kio_event list \<times> 'w kio_end"

text \<open>The methods of \<open>KURL\<close> and \<open>ProtocolSupported\<close>.\<close>

record url_env =
  malformed :: "string \<Rightarrow> bool"
  nested :: "string \<Rightarrow> string"
  supported :: "string \<Rightarrow> bool"

definition ProcessError :: "'w kprotocol \<Rightarrow> string \<Rightarrow> 'w \<Rightarrow> kio_event" where
  "ProcessError P srcurl w = (case m_error P w of (e, message) \<Rightarrow> Fatal e (if e = KIO_ERROR_MalformedURL then message else srcurl))"

text \<open>The loop of \<open>get\<close>. The data are sent before the percentage is computed, which divides by the size.\<close>

partial_function (option) get_loop :: "'w kprotocol \<Rightarrow> string \<Rightarrow> int \<Rightarrow> int \<Rightarrow> int \<Rightarrow> kio_event list \<Rightarrow> 'w \<Rightarrow> 'w kio_result option" where
  "get_loop pr url sz c lst evs w =
     (if m_atEOF pr w then Some (evs, Finished w)
      else case m_Read pr 1024 w of
        None \<Rightarrow> Some (evs, Crashed)
      | Some (l, t, w) \<Rightarrow>
          if l < 0 then Some (evs @ [ProcessError pr url w], Failed w)
          else if sz = 0 then Some (evs @ [Data t], Crashed)
          else let c = c + l; p = c * 100 sdiv sz
            in get_loop pr url sz c p (evs @ [Data t] @ (if p \<noteq> lst then [Progress p] else [])) w)"

declare get_loop.simps [code]

definition finish :: "'w kprotocol \<Rightarrow> kio_event list \<Rightarrow> 'w \<Rightarrow> 'w kio_result" where
  "finish P evs w = (case Option.bind (m_Close P w) (m_destroy P) of None \<Rightarrow> (evs, Crashed) | Some w \<Rightarrow> (evs @ [Done], Finished w))"

definition get_data :: "url_env \<Rightarrow> 'w kprotocol \<Rightarrow> string \<Rightarrow> bool \<Rightarrow> string \<Rightarrow> string \<Rightarrow> 'w \<Rightarrow> 'w kio_result option" where
  "get_data env P url reload dat cookies w =
     (if malformed env url \<or> malformed env (nested env url) then Some ([Fatal KIO_ERROR_MalformedURL url], Failed w)
      else if \<not> supported env url then Some ([Fatal KIO_ERROR_NotImplemented (''GET '' @ url)], Failed w)
      else let w = m_prepare P dat cookies w
      in (case (if reload then m_ReOpen P (nested env url) w else m_Open P (nested env url) True False False w) of
           None \<Rightarrow> Some ([], Crashed)
         | Some (ok, redirect, w) \<Rightarrow>
             if \<not> ok then Some ([ProcessError P url w], Failed w)
             else (case get_loop P url (m_Size P w) 0 0 [] w of
                 None \<Rightarrow> None
               | Some (evs, Finished w) \<Rightarrow> Some (finish P evs w)
               | Some r \<Rightarrow> Some r)))"

text \<open>\<open>OpenWithRedirect\<close> opens the URL that the last redirection told, until there is none.\<close>

partial_function (option) OpenWithRedirect :: "'w kprotocol \<Rightarrow> string \<Rightarrow> 'w \<Rightarrow> (bool \<times> string \<times> 'w) option option" where
  "OpenWithRedirect pr url w = (case m_Open pr url True False False w of
       None \<Rightarrow> Some None
     | Some (ok, redirect, w) \<Rightarrow> if redirect = [] then Some (Some (ok, url, w)) else OpenWithRedirect pr redirect w)"

declare OpenWithRedirect.simps [code]

text \<open>The loop of \<open>copy\<close>; \<open>pct\<close> is the percentage.\<close>

partial_function (option) copy_loop :: "(int \<Rightarrow> int \<Rightarrow> rat) \<Rightarrow> 'w kprotocol \<Rightarrow> 'w kprotocol \<Rightarrow> string \<Rightarrow> string \<Rightarrow> int \<Rightarrow> int \<Rightarrow> rat
    \<Rightarrow> kio_event list \<Rightarrow> 'w \<Rightarrow> 'w kio_result option" where
  "copy_loop pct pr qr src dest sz c lst evs w =
     (if m_atEOF pr w then Some (evs, Finished w)
      else case m_Read pr 4096 w of
        None \<Rightarrow> Some (evs, Crashed)
      | Some (l, t, w) \<Rightarrow>
          if l < 0 then Some (evs @ [ProcessError pr src w], Failed w)
          else case m_Write qr t w of
            None \<Rightarrow> Some (evs, Crashed)
          | Some (n, w) \<Rightarrow>
              if n < l then Some (evs @ [Fatal KIO_ERROR_DiskFull dest], Failed w)
              else let c = c + l; p = pct c sz; moved = (sz \<noteq> 0 \<and> p \<noteq> lst)
                in copy_loop pct pr qr src dest sz c (if moved then p else lst) (evs @ (if moved then [Progress \<lfloor>p\<rfloor>] else [])) w)"

declare copy_loop.simps [code]

text \<open>The end of \<open>copy\<close>: both are closed and the permissions are copied.\<close>

definition finish_copy :: "'w kprotocol \<Rightarrow> 'w kprotocol \<Rightarrow> string \<Rightarrow> string \<Rightarrow> kio_event list \<Rightarrow> 'w \<Rightarrow> 'w kio_result" where
  "finish_copy P Q su du evs w =
     (case Option.bind (m_Close P w) (m_Close Q) of None \<Rightarrow> (evs, Crashed)
      | Some w \<Rightarrow> (case Option.bind (m_destroy P (m_SetPermissions Q du (m_GetPermissions P su w) w)) (m_destroy Q) of
            None \<Rightarrow> (evs, Crashed)
          | Some w \<Rightarrow> (evs @ [Done], Finished w)))"

text \<open>The destination is opened first.\<close>

definition copy_data :: "(int \<Rightarrow> int \<Rightarrow> rat) \<Rightarrow> url_env \<Rightarrow> 'w kprotocol \<Rightarrow> 'w kprotocol \<Rightarrow> string \<Rightarrow> string \<Rightarrow> bool \<Rightarrow> 'w \<Rightarrow> 'w kio_result option" where
  "copy_data pct env P Q src dest overwrite w =
     (if malformed env src \<or> malformed env (nested env src) then Some ([Fatal KIO_ERROR_MalformedURL src], Failed w)
      else if malformed env dest \<or> malformed env (nested env dest) then Some ([Fatal KIO_ERROR_MalformedURL dest], Failed w)
      else if \<not> (supported env src \<and> supported env dest)
      then Some ([Fatal KIO_ERROR_NotImplemented (''Copy '' @ src @ '' to '' @ dest)], Failed w)
      else (case m_Open Q (nested env dest) False True overwrite w of
          None \<Rightarrow> Some ([], Crashed)
        | Some (ok, _, w) \<Rightarrow>
            if \<not> ok then Some ([ProcessError Q dest w], Failed w)
            else (case OpenWithRedirect P (nested env src) w of
                None \<Rightarrow> None
              | Some None \<Rightarrow> Some ([], Crashed)
              | Some (Some (ok, su, w)) \<Rightarrow>
                  if \<not> ok then Some ([ProcessError P src w], Failed w)
                  else (case copy_loop pct P Q src dest (m_Size P w) 0 0 [] w of
                      None \<Rightarrow> None
                    | Some (evs, Finished w) \<Rightarrow> Some (finish_copy P Q su (nested env dest) evs w)
                    | Some r \<Rightarrow> Some r))))"

definition make_dir :: "url_env \<Rightarrow> 'w kprotocol \<Rightarrow> string \<Rightarrow> 'w \<Rightarrow> 'w kio_result" where
  "make_dir env P url w =
     (if malformed env url \<or> malformed env (nested env url) then ([Fatal KIO_ERROR_MalformedURL url], Failed w)
      else if \<not> supported env url then ([Fatal KIO_ERROR_NotImplemented (''Mkdir '' @ url)], Failed w)
      else (case m_MkDir P (nested env url) w of
          None \<Rightarrow> ([], Crashed)
        | Some (ok, w) \<Rightarrow> (let evs = (if ok then [] else [ProcessError P url w]) in
            case m_destroy P w of None \<Rightarrow> (evs, Crashed)
            | Some w \<Rightarrow> if ok then ([Done], Finished w) else (evs, Failed w))))"

definition del :: "url_env \<Rightarrow> 'w kprotocol \<Rightarrow> string \<Rightarrow> 'w \<Rightarrow> 'w kio_result" where
  "del env P url w =
     (if malformed env url then ([Fatal KIO_ERROR_MalformedURL url], Failed w)
      else if malformed env (nested env url) then ([], Failed w)
      else if \<not> supported env url then ([Fatal KIO_ERROR_NotImplemented (''Delete '' @ url)], Failed w)
      else (case m_Delete P (nested env url) w of
          None \<Rightarrow> ([], Crashed)
        | Some (ok, w) \<Rightarrow> (let evs = (if ok then [] else [Fatal KIO_ERROR_CouldNotDelete url]) in
            case m_destroy P w of None \<Rightarrow> (evs, Crashed)
            | Some w \<Rightarrow> if ok then ([Done], Finished w) else (evs, Failed w))))"

end
