(* ===== verification/FtpDialogue.thy ===== *)
theory FtpDialogue
  imports FtpSlave
begin

section \<open>The FTP slave of kfm: what is understood of the server\<close>

text \<open>
  The control connection as a stream of bytes: \<open>readline\<close> and \<open>readresp\<close> read lines and replies from it, however the network cuts it into
  packets. From this follow the course of a login, and that each command sent is one line.
\<close>

subsection \<open>The stream of the control connection\<close>

definition netbuf_ok :: "netbuf \<Rightarrow> bool" where
  "netbuf_ok nb \<longleftrightarrow> cget nb \<le> cput nb \<and> cput nb \<le> FTP_BUFSIZ \<and> cavail nb = int (cput nb) - int (cget nb) \<and> length (nb_buf nb) = FTP_BUFSIZ"

definition pending :: "netbuf \<Rightarrow> string" where
  "pending nb = take (cput nb - cget nb) (drop (cget nb) (nb_buf nb))"

definition all_data :: "string option list \<Rightarrow> bool" where
  "all_data inp \<longleftrightarrow> (\<forall>p\<in>set inp. p \<noteq> None \<and> p \<noteq> Some [])"

definition stream_bytes :: "string option list \<Rightarrow> string" where
  "stream_bytes inp = concat (map the inp)"

text \<open>\<open>hears s t\<close>: \<open>t\<close> is what the slave has not read yet, without an error or an end of the connection.\<close>

definition hears :: "ftp \<Rightarrow> string \<Rightarrow> bool" where
  "hears s t \<longleftrightarrow> (\<exists>nb. nControl s = Live nb \<and> netbuf_ok nb \<and> all_data (ctl_in s) \<and> length (rspbuf s) = 256 \<and>
     pending nb @ stream_bytes (ctl_in s) = t)"

lemma all_data_simps [simp]: "all_data []" "all_data (p # r) \<longleftrightarrow> (\<exists>c t. p = Some (c # t)) \<and> all_data r"
  by (auto simp: all_data_def neq_Nil_conv)

lemma stream_bytes_simps [simp]: "stream_bytes [] = []" "stream_bytes (Some t # r) = t @ stream_bytes r"
  by (simp_all add: stream_bytes_def)

lemma pending_length: "netbuf_ok nb \<Longrightarrow> int (length (pending nb)) = cavail nb"
  by (auto simp: pending_def netbuf_ok_def)

lemma upto_lf_none: "LF \<notin> set t \<Longrightarrow> upto_lf t = t"
  by (simp add: upto_lf_def find_char_None[THEN iffD2])

lemma upto_lf_some: "LF \<notin> set l \<Longrightarrow> upto_lf (l @ LF # r) = l @ [LF]"
  by (simp add: upto_lf_def)

lemma take_avail_pending:
  assumes "netbuf_ok nb" "0 < cavail nb" "0 < mx"
  defines "src \<equiv> (if mx \<ge> cavail nb then pending nb else take (nat (mx - 1)) (pending nb))"
  shows "take_avail mx n nb buf = map_option (\<lambda>buf. (length (upto_lf src), LF \<in> set src,
    nb\<lparr>cget := cget nb + length (upto_lf src), cavail := cavail nb - int (length (upto_lf src))\<rparr>, buf)) (put_str n (upto_lf src) buf)"
proof -
  define x where "x = (if mx \<ge> cavail nb then cavail nb else mx - 1)"
  have x: "\<not> (x < 0 \<or> int (cget nb) + x > int (length (nb_buf nb)))" using assms(1-3) by (auto simp: x_def netbuf_ok_def)
  have "nat (cavail nb) = cput nb - cget nb" using assms(1) by (auto simp: netbuf_ok_def)
  then have "take (nat x) (drop (cget nb) (nb_buf nb)) = src"
    using assms(2,3) by (auto simp: x_def src_def pending_def min_def)
  then show ?thesis using assms(2) x unfolding take_avail_def x_def[symmetric] Let_def
    by (simp add: bind_map_option[symmetric] map_option_case split: option.splits)
qed

lemma put_str_Some: "n + length t < length buf \<Longrightarrow> put_str n t buf = Some (take n buf @ t @ NUL # drop (n + length t + 1) buf)"
  by (simp add: put_str_def)

lemma pending_empty: "netbuf_ok nb \<Longrightarrow> cput nb = cget nb \<Longrightarrow> netbuf_ok (rewind nb) \<and> pending (rewind nb) = [] \<and> cput (rewind nb) = 0 \<and> cleft (rewind nb) = int FTP_BUFSIZ"
  by (simp add: rewind_def netbuf_ok_def pending_def)

lemma store_read_ok:
  assumes "netbuf_ok nb" "cput nb = 0" "cget nb = 0" "length t \<le> FTP_BUFSIZ"
  shows "\<exists>nb'. store_read t nb = Some nb' \<and> netbuf_ok nb' \<and> pending nb' = t"
  using assms by (auto simp: store_read_def netbuf_ok_def pending_def)

lemma readline_loop_line:
  assumes "netbuf_ok nb" "all_data inp" "pending nb @ stream_bytes inp = l @ LF # rest" "LF \<notin> set l"
    "n + length l \<le> 254" "length buf = 256"
  shows "\<exists>nb' inp'. readline_loop (256 - int n) False n nb inp buf =
      Some (int (n + length l + 1), nb', inp', take n buf @ l @ [LF, NUL] @ drop (n + length l + 2) buf) \<and>
    netbuf_ok nb' \<and> all_data inp' \<and> pending nb' @ stream_bytes inp' = rest"
  using assms
proof (induction "packets_size inp" arbitrary: n nb inp buf l rule: less_induct)
  case less
  define p where "p = pending nb"
  have lp: "cavail nb = int (length p)" using pending_length[OF less(2)] by (simp add: p_def)
  show ?case
  proof (cases "length l < length p")
    case True
    define q where "q = drop (length l + 1) p"
    have "take (length l + 1) (p @ stream_bytes inp) = l @ [LF]" "drop (length l + 1) (p @ stream_bytes inp) = rest"
      using less(4) by (simp_all add: p_def)
    then have "take (length l + 1) p = l @ [LF]" and rest: "q @ stream_bytes inp = rest" using True by (simp_all add: q_def)
    then have p: "p = l @ LF # q" using append_take_drop_id[of "length l + 1" p] by (simp add: q_def)
    define src where "src = (if 256 - int n \<ge> cavail nb then p else take (nat (256 - int n - 1)) p)"
    have "\<exists>q'. src = l @ LF # q'"
    proof (cases "256 - int n \<ge> cavail nb")
      case False
      define d where "d = 254 - n - length l"
      have e: "nat (256 - int n - 1) = length l + Suc d" using less(6) by (simp add: d_def)
      have "take (nat (256 - int n - 1)) p = l @ LF # take d q" unfolding e p by simp
      then show ?thesis using False by (simp add: src_def)
    qed (simp add: src_def p)
    then obtain q' where src: "src = l @ LF # q'" by blast
    then have u: "upto_lf src = l @ [LF]" "LF \<in> set src" using less(5) by (simp_all add: upto_lf_some)
    define nb' where "nb' = nb\<lparr>cget := cget nb + (length l + 1), cavail := cavail nb - int (length l + 1)\<rparr>"
    have "take_avail (256 - int n) n nb buf = Some (length l + 1, True, nb', take n buf @ l @ [LF, NUL] @ drop (n + length l + 2) buf)"
    proof -
      have c: "0 < cavail nb" "0 < 256 - int n" using lp True less(6) by auto
      show ?thesis
        using take_avail_pending[OF less(2) c, of n buf, folded p_def, folded src_def, unfolded u(1)] u(2) less(6,7)
        by (simp add: put_str_Some nb'_def)
    qed
    moreover have "netbuf_ok nb'" using less(2) lp True by (auto simp: netbuf_ok_def nb'_def)
    moreover have "pending nb' = q"
    proof -
      have "pending nb' = drop (length l + 1) p" by (simp add: pending_def nb'_def p_def drop_take add.commute)
      then show ?thesis by (simp add: p)
    qed
    ultimately show ?thesis using rest less(3) by (simp add: add.assoc readline_loop.simps)
  next
    case False
    define k where "k = length p"
    have l: "l = p @ drop k l" and bytes: "stream_bytes inp = drop k l @ LF # rest"
    proof -
      have "take k (p @ stream_bytes inp) = take k l" "drop k (p @ stream_bytes inp) = drop k l @ LF # rest"
        using less(4) False by (simp_all add: p_def[symmetric] k_def)
      then have "p = take k l" "stream_bytes inp = drop k l @ LF # rest" by (simp_all add: k_def)
      then show "l = p @ drop k l" "stream_bytes inp = drop k l @ LF # rest" using append_take_drop_id[of k l] by metis+
    qed
    have kl: "k \<le> length l" using False by (simp add: k_def)
    have pl: "LF \<notin> set p" using l less(5) by (metis Un_iff set_append)
    define nb1 where "nb1 = nb\<lparr>cget := cget nb + k, cavail := cavail nb - int k\<rparr>"
    define buf1 where "buf1 = (if k = 0 then buf else take n buf @ p @ NUL # drop (n + k + 1) buf)"
    have ta: "take_avail (256 - int n) n nb buf = Some (k, False, nb1, buf1)"
    proof (cases "k = 0")
      case True
      then show ?thesis using lp by (simp add: take_avail_def nb1_def buf1_def k_def)
    next
      case F: False
      have "256 - int n \<ge> cavail nb" using lp less(6) kl by (simp add: k_def)
      then show ?thesis
        using take_avail_pending[OF less(2), of "256 - int n" n buf] F lp less(6,7) kl pl
        by (simp add: p_def[symmetric] upto_lf_none put_str_Some k_def[symmetric] nb1_def buf1_def)
    qed
    have ok1: "netbuf_ok nb1" "cput nb1 = cget nb1" using less(2) lp by (auto simp: netbuf_ok_def nb1_def k_def)
    note rw = pending_empty[OF ok1]
    obtain c t r where inp: "inp = Some (c # t) # r" using bytes less(3) by (cases inp) auto
    define u where "u = take FTP_BUFSIZ (c # t)"
    obtain inp1 where rd: "read_in FTP_BUFSIZ inp = (Some u, inp1)" and i1: "all_data inp1" "u @ stream_bytes inp1 = stream_bytes inp"
      using less(3) by (auto simp: inp u_def all_data_def neq_Nil_conv FTP_BUFSIZ_def)
    obtain nb2 where st: "store_read u (rewind nb1) = Some nb2" "netbuf_ok nb2" "pending nb2 = u"
      using store_read_ok[of "rewind nb1" u] rw ok1(2) by (auto simp: u_def rewind_def)
    have une: "u \<noteq> []" by (simp add: u_def FTP_BUFSIZ_def)
    have step: "readline_loop (256 - int n) False n nb inp buf = readline_loop (256 - int (n + k)) False (n + k) nb2 inp1 buf1"
      using less(6) kl rw une by (subst readline_loop.simps) (simp add: ta rd st(1) algebra_simps)
    have "packets_size inp1 < packets_size inp" using read_in_size[OF rd] une by auto
    moreover have "pending nb2 @ stream_bytes inp1 = drop k l @ LF # rest" using st(3) i1(2) bytes by simp
    moreover have "LF \<notin> set (drop k l)" using less(5) by (auto dest: in_set_dropD)
    moreover have "n + k + length (drop k l) \<le> 254" "length buf1 = 256" using less(6,7) kl by (auto simp: buf1_def k_def)
    ultimately obtain nb' inp' where *: "readline_loop (256 - int (n + k)) False (n + k) nb2 inp1 buf1 =
        Some (int (n + k + length (drop k l) + 1), nb', inp', take (n + k) buf1 @ drop k l @ [LF, NUL] @ drop (n + k + length (drop k l) + 2) buf1)"
      "netbuf_ok nb'" "all_data inp'" "pending nb' @ stream_bytes inp' = rest"
      using less(1)[OF _ st(2) i1(1)] by blast
    have "take (n + k) buf1 @ drop k l = take n buf @ l"
      using l less(6,7) kl by (auto simp: buf1_def k_def)
    moreover have "drop (n + length l + 2) buf1 = drop (n + length l + 2) buf"
    proof (cases "k = 0")
      case F: False
      define j where "j = length l - k"
      have "n + length l + 2 = length (take n buf @ p) + Suc (j + 1)" using less(6,7) kl by (simp add: j_def k_def)
      then have "drop (n + length l + 2) buf1 = drop (j + 1) (drop (n + k + 1) buf)"
        using F unfolding buf1_def by (simp only: if_False drop_append append_assoc[symmetric]) simp
      then show ?thesis using kl by (simp add: j_def add.commute)
    qed (simp add: buf1_def)
    ultimately show ?thesis using * step kl by (simp flip: append_assoc)
  qed
qed

subsection \<open>Lines and replies\<close>

definition line_ok :: "string \<Rightarrow> bool" where
  "line_ok l \<longleftrightarrow> LF \<notin> set l \<and> length l \<le> 254"

text \<open>What is stored of a line: the line feed and a NUL behind it, then what was there before.\<close>

definition has_line :: "ftp \<Rightarrow> string \<Rightarrow> bool" where
  "has_line s l \<longleftrightarrow> (\<exists>r. rspbuf s = l @ [LF, NUL] @ r)"

text \<open>Reading changes the buffers only.\<close>

definition same_but_input :: "ftp \<Rightarrow> ftp \<Rightarrow> bool" where
  "same_but_input s s' \<longleftrightarrow> (\<exists>i p b. s' = s\<lparr>ctl_in := i, nControl := p, rspbuf := b\<rparr>)"

lemma same_but_input_trans: "same_but_input s s' \<Longrightarrow> same_but_input s' s'' \<Longrightarrow> same_but_input s s''"
  by (clarsimp simp: same_but_input_def) (rule exI, rule exI, rule exI, rule refl)

lemma same_but_input_refl: "same_but_input s s"
  unfolding same_but_input_def by (rule exI[of _ "ctl_in s"], rule exI[of _ "nControl s"], rule exI[of _ "rspbuf s"]) simp

lemma readline_line:
  assumes "hears s (l @ LF # rest)" "line_ok l"
  shows "\<exists>s'. readline s = Some (int (length l + 1), s') \<and> hears s' rest \<and> has_line s' l \<and> same_but_input s s'"
proof -
  obtain nb where nb: "nControl s = Live nb" "netbuf_ok nb" "all_data (ctl_in s)" "length (rspbuf s) = 256"
    "pending nb @ stream_bytes (ctl_in s) = l @ LF # rest" using assms(1) by (auto simp: hears_def)
  from readline_loop_line[OF nb(2,3,5) _ _ nb(4), of 0] assms(2)
  obtain nb' inp' where *: "readline_loop 256 False 0 nb (ctl_in s) (rspbuf s) =
      Some (int (length l + 1), nb', inp', l @ [LF, NUL] @ drop (length l + 2) (rspbuf s))"
    "netbuf_ok nb'" "all_data inp'" "pending nb' @ stream_bytes inp' = rest"
    by (auto simp: line_ok_def)
  show ?thesis
    using * nb(4) assms(2)
    by (intro exI[of _ "s\<lparr>ctl_in := inp', nControl := Live nb', rspbuf := l @ [LF, NUL] @ drop (length l + 2) (rspbuf s)\<rparr>"])
      (auto simp: readline_def nb(1) hears_def has_line_def same_but_input_def line_ok_def)
qed

definition lines_text :: "string list \<Rightarrow> string" where
  "lines_text ls = concat (map (\<lambda>l. l @ [LF]) ls)"

text \<open>The replies of the protocol: one line with a number of three digits, or several, of which the first has a hyphen behind the number, and the
  last is the first one after it to begin with the number and a blank.\<close>

definition ftp_reply :: "string list \<Rightarrow> bool" where
  "ftp_reply ls \<longleftrightarrow> ls \<noteq> [] \<and> list_all line_ok ls \<and> 3 \<le> length (hd ls) \<and> no_nul (take 3 (hd ls)) \<and>
     (if at0 (drop 3 (hd ls)) = CHR ''-''
      then tl ls \<noteq> [] \<and> take 4 (last ls) = take 3 (hd ls) @ [SP] \<and> (\<forall>l\<in>set (butlast (tl ls)). take 4 l \<noteq> take 3 (hd ls) @ [SP])
      else tl ls = [])"

lemma lines_text_simps [simp]: "lines_text [] = []" "lines_text (l # ls) = l @ LF # lines_text ls"
  by (simp_all add: lines_text_def)

lemma strncmp_line:
  assumes "has_line s l" "no_nul m" "LF \<notin> set m" "length m = n"
  shows "strncmp_eq (rspbuf s) m n \<longleftrightarrow> take n l = m"
proof -
  obtain r where r: "rspbuf s = l @ [LF, NUL] @ r" using assms(1) by (auto simp: has_line_def)
  have m: "take n (cstr m) = m" using assms(2,4) by simp
  show ?thesis
  proof
    assume "strncmp_eq (rspbuf s) m n"
    then have e: "take n (cstr (rspbuf s)) = m" using m by (simp add: strncmp_eq_def)
    have "take n (cstr (rspbuf s)) = take n (rspbuf s)"
    proof -
      have "length (cstr (rspbuf s)) \<ge> n" using e assms(4) by (metis length_take min.cobounded1)
      then show ?thesis unfolding cstr_def by (subst takeWhile_eq_take) (simp add: min_def)
    qed
    then have e2: "take n l @ take (n - length l) (LF # NUL # r) = m" using e by (simp add: r)
    have "n \<le> length l"
    proof (rule ccontr)
      assume "\<not> n \<le> length l"
      then obtain k where "n - length l = Suc k" by (metis Suc_diff_le diff_is_0_eq not_less_eq_eq not0_implies_Suc)
      then have "LF \<in> set (take (n - length l) (LF # NUL # r))" by simp
      then show False using e2 assms(3) by auto
    qed
    then show "take n l = m" using e2 by simp
  next
    assume t: "take n l = m"
    then have l: "l = m @ drop n l" by (metis append_take_drop_id)
    have "rspbuf s = m @ drop n l @ [LF, NUL] @ r" using l r by (metis append_assoc)
    then show "strncmp_eq (rspbuf s) m n" using assms(2,4) m by (simp add: strncmp_eq_def)
  qed
qed

lemma reply_lines_last:
  assumes "hears s (lines_text ls @ rest)" "ls \<noteq> []" "list_all line_ok ls" "no_nul m" "LF \<notin> set m" "length m = 4"
    "take 4 (last ls) = m" "\<forall>l\<in>set (butlast ls). take 4 l \<noteq> m"
  shows "\<exists>s'. reply_lines m s = Some (True, s') \<and> hears s' rest \<and> has_line s' (last ls) \<and> same_but_input s s'"
  using assms
proof (induction ls arbitrary: s)
  case (Cons l ls)
  have "hears s (l @ LF # lines_text ls @ rest)" "line_ok l" using Cons.prems by simp_all
  from readline_line[OF this] obtain s1 where s1: "readline s = Some (int (length l + 1), s1)" "hears s1 (lines_text ls @ rest)"
    "has_line s1 l" "same_but_input s s1" by blast
  note cmp = strncmp_line[OF s1(3) Cons.prems(4-6)]
  show ?case
  proof (cases "ls = []")
    case True
    then show ?thesis using s1 cmp Cons.prems(7) by (subst reply_lines.simps) simp
  next
    case False
    then have "reply_lines m s = reply_lines m s1"
      using s1(1) cmp Cons.prems(8) by (subst reply_lines.simps) simp
    moreover obtain s' where "reply_lines m s1 = Some (True, s')" "hears s' rest" "has_line s' (last ls)" "same_but_input s1 s'"
      using Cons.IH[OF s1(2) False] Cons.prems False by auto
    ultimately show ?thesis using False same_but_input_trans[OF s1(4)] by auto
  qed
qed simp

lemma has_line_start:
  assumes "has_line s l" "k \<le> length l"
  shows "take k (rspbuf s) = take k l" "l \<noteq> [] \<Longrightarrow> at0 (rspbuf s) = at0 l"
    "at0 (drop k (rspbuf s)) = (if k = length l then LF else at0 (drop k l))"
proof -
  obtain r where r: "rspbuf s = l @ [LF, NUL] @ r" using assms(1) by (auto simp: has_line_def)
  show "take k (rspbuf s) = take k l" "l \<noteq> [] \<Longrightarrow> at0 (rspbuf s) = at0 l" using assms(2) by (simp_all add: r)
  show "at0 (drop k (rspbuf s)) = (if k = length l then LF else at0 (drop k l))"
    using assms(2) by (cases "k = length l") (simp_all add: r)
qed

lemma readresp_reply_raw:
  assumes "hears s (lines_text ls @ rest)" "ftp_reply ls"
  shows "\<exists>s'. readresp c s = Some (at0 (last ls) = c, s') \<and> hears s' rest \<and> has_line s' (last ls) \<and> same_but_input s s'"
proof -
  obtain l k where ls: "ls = l # k" using assms(2) by (cases ls) (auto simp: ftp_reply_def)
  have l: "line_ok l" "3 \<le> length l" "no_nul (take 3 l)" "list_all line_ok k" using assms(2) by (auto simp: ftp_reply_def ls)
  have "hears s (l @ LF # lines_text k @ rest)" using assms(1) by (simp add: ls)
  from readline_line[OF this l(1)] obtain s1 where s1: "readline s = Some (int (length l + 1), s1)" "hears s1 (lines_text k @ rest)"
    "has_line s1 l" "same_but_input s s1" by blast
  note st = has_line_start[OF s1(3) l(2)]
  have hy: "at0 (drop 3 (rspbuf s1)) = CHR ''-'' \<longleftrightarrow> at0 (drop 3 l) = CHR ''-''" using st(3) by auto
  show ?thesis
  proof (cases "at0 (drop 3 l) = CHR ''-''")
    case False
    then have k: "k = []" using assms(2) by (simp add: ftp_reply_def ls)
    have "l \<noteq> []" using l(2) by auto
    then have "readresp c s = Some (at0 l = c, s1)" using s1(1) hy False st(2) by (simp add: readresp_def)
    then show ?thesis using s1 by (simp add: ls k)
  next
    case True
    define m where "m = take 3 l @ [SP]"
    have k: "k \<noteq> []" "take 4 (last k) = m" "\<forall>x\<in>set (butlast k). take 4 x \<noteq> m"
      using assms(2) True by (auto simp: ftp_reply_def ls m_def split: if_splits)
    have m: "no_nul m" "LF \<notin> set m" "length m = 4" using l by (auto simp: m_def line_ok_def dest: in_set_takeD)
    obtain s2 where s2: "reply_lines m s1 = Some (True, s2)" "hears s2 rest" "has_line s2 (last k)" "same_but_input s1 s2"
      using reply_lines_last[OF s1(2) k(1) l(4) m k(2,3)] by blast
    have "last k \<noteq> []" using k(2) m(3) by auto
    then have "readresp c s = Some (at0 (last k) = c, s2)"
      using s1(1) hy True st(1) s2(1) has_line_start(2)[OF s2(3), of 0] by (simp add: readresp_def m_def)
    then show ?thesis using s2 k(1) same_but_input_trans[OF s1(4) s2(4)] by (simp add: ls)
  qed
qed

text \<open>C15: A reply of the server is one line, or several of which the first has a hyphen behind its number and the last the same number and a blank; the number is
  the first three characters, no NUL among them, no line holds more than 254 characters, and the connection delivers the reply without an error, in whatever packets. \<open>readresp\<close> takes exactly
  that reply from the connection and answers whether its last line begins with the digit expected; that line stays in \<open>rspbuf\<close>.\<close>

theorem readresp_reply:
  assumes "hears s (lines_text ls @ rest)" "ftp_reply ls"
  shows "\<exists>s'. readresp c s = Some (at0 (last ls) = c, s') \<and> hears s' rest \<and> has_line s' (last ls) \<and> same_but_input s s'"
  using assms by (rule readresp_reply_raw)

subsection \<open>The course of a login\<close>

text \<open>The connection takes what is written.\<close>

definition writable :: "ftp \<Rightarrow> bool" where
  "writable s \<longleftrightarrow> (\<forall>n fd t. 0 < os s n (WriteTo fd t))"

definition sent :: "ftp \<Rightarrow> string \<Rightarrow> os_call" where
  "sent s cmd = WriteTo (sControl s) (cstr cmd @ [CR, LF])"

text \<open>After commands: what is left to hear, the commands sent, and nothing else changed.\<close>

definition after_cmds :: "ftp \<Rightarrow> string list \<Rightarrow> string \<Rightarrow> string \<Rightarrow> ftp \<Rightarrow> bool" where
  "after_cmds s cmds l rest s' \<longleftrightarrow> hears s' rest \<and> has_line s' l \<and> same_but_input (s\<lparr>calls := calls s @ map (sent s) cmds\<rparr>) s'"

lemma same_but_input_fields:
  "same_but_input s s' \<Longrightarrow> calls s' = calls s \<and> os s' = os s \<and> sControl s' = sControl s \<and> redirections s' = redirections s"
  by (auto simp: same_but_input_def)

lemma ftpSendCmd_reply:
  assumes "hears s (lines_text ls @ rest)" "ftp_reply ls" "writable s"
  shows "\<exists>s'. ftpSendCmd cmd c s = Some (at0 (last ls) = c, s') \<and> after_cmds s [cmd] (last ls) rest s'"
proof -
  define s1 where "s1 = s\<lparr>calls := calls s @ [sent s cmd]\<rparr>"
  have "hears s1 (lines_text ls @ rest)" using assms(1) by (simp add: hears_def s1_def)
  from readresp_reply_raw[OF this assms(2), of c] show ?thesis
    using assms(3) by (auto simp: ftpSendCmd_def call_def writable_def sent_def s1_def after_cmds_def not_le[symmetric])
qed

lemma same_but_input_call: "same_but_input s s' \<Longrightarrow> same_but_input (s\<lparr>calls := calls s @ c\<rparr>) (s'\<lparr>calls := calls s' @ c\<rparr>)"
proof -
  assume "same_but_input s s'"
  then obtain i p b where s': "s' = s\<lparr>ctl_in := i, nControl := p, rspbuf := b\<rparr>" by (auto simp: same_but_input_def)
  show ?thesis
    unfolding same_but_input_def s' by (rule exI[of _ i], rule exI[of _ p], rule exI[of _ b], rule ftp.equality) simp_all
qed

lemma after_cmds_next:
  assumes "after_cmds s cmds l rest s1" "after_cmds s1 [cmd] l' rest' s2"
  shows "after_cmds s (cmds @ [cmd]) l' rest' s2"
proof -
  have e: "same_but_input (s\<lparr>calls := calls s @ map (sent s) cmds\<rparr>) s1" using assms(1) by (simp add: after_cmds_def)
  have "sent s1 cmd = sent s cmd" using same_but_input_fields[OF e] by (simp add: sent_def)
  then show ?thesis
    using assms(2) same_but_input_trans[OF same_but_input_call[OF e, of "[sent s cmd]"], of s2] by (simp add: after_cmds_def)
qed

lemma after_cmds_writable: "after_cmds s cmds l rest s1 \<Longrightarrow> writable s \<Longrightarrow> writable s1"
  by (auto simp: after_cmds_def writable_def dest: same_but_input_fields)

text \<open>The next command of a dialogue.\<close>

lemma next_cmd:
  assumes "after_cmds s cmds l (lines_text ls @ rest) s1" "writable s" "ftp_reply ls"
  shows "\<exists>s'. ftpSendCmd cmd c s1 = Some (at0 (last ls) = c, s') \<and> after_cmds s (cmds @ [cmd]) (last ls) rest s'"
proof -
  have "hears s1 (lines_text ls @ rest)" using assms(1) by (simp add: after_cmds_def)
  from ftpSendCmd_reply[OF this assms(3) after_cmds_writable[OF assms(1,2)], of cmd c] show ?thesis
    using after_cmds_next[OF assms(1)] by blast
qed

lemma hears_lastresp0: "hears s t \<Longrightarrow> hears (lastresp0 s) t"
  by (auto simp: hears_def lastresp0_def)

lemma sent_rspbuf [simp]: "sent (s\<lparr>rspbuf := b\<rparr>) = sent s"
  by (rule ext) (simp add: sent_def)

lemma after_cmds_lastresp0: "after_cmds (lastresp0 s) cmds l rest s' \<longleftrightarrow> after_cmds s cmds l rest s'"
  by (simp add: after_cmds_def same_but_input_def lastresp0_def)

lemma cstr_line: "has_line s l \<Longrightarrow> no_nul l \<Longrightarrow> cstr (rspbuf s) = l @ [LF]"
  by (auto simp: has_line_def)

lemma pwd_reply_dir:
  assumes "cstr buf = ds @ bl @ DQ # dir @ DQ # aft" "list_all isdigit ds" "list_all (\<lambda>c. c = SP \<or> c = TAB) bl" "DQ \<notin> set dir"
  shows "\<exists>b. pwd_reply buf = Some (b, dir)"
proof -
  define B where "B = (\<lambda>c. c = SP \<or> c = TAB)"
  have "\<not> isdigit SP" "\<not> isdigit TAB" "\<not> isdigit DQ" by (simp_all add: isdigit_def code_def)
  then have nd: "\<not> isdigit (hd (bl @ DQ # dir @ DQ # aft))" using assms(3) by (cases bl) auto
  have "dropWhile isdigit (ds @ bl @ DQ # dir @ DQ # aft) = bl @ DQ # dir @ DQ # aft"
    using assms(2) nd by (subst dropWhile_append2) (auto simp: list_all_iff dropWhile_eq_self_iff)
  moreover have "dropWhile B (bl @ DQ # dir @ DQ # aft) = DQ # dir @ DQ # aft"
    using assms(3) by (subst dropWhile_append2) (auto simp: list_all_iff B_def)
  ultimately have "dropWhile B (dropWhile isdigit (cstr buf)) = DQ # dir @ DQ # aft" by (simp add: assms(1))
  then show ?thesis using assms(4) by (simp add: pwd_reply_def Let_def flip: B_def)
qed

text \<open>C17: The login with a server that asks for a password and accepts it, and a URL without a path: the slave sends \<open>user\<close>, \<open>pass\<close>, \<open>syst\<close>, for a
  server that says it is Windows NT \<open>site dirstyle\<close> too, and \<open>pwd\<close>, each once and as a line of its own, reads exactly one reply to each, and returns the directory
  between the double quotes of the last one. Each reply is complete and has a number of three digits, its lines hold at most 254 characters, and the server has
  accepted what is written to it; the reply to \<open>pwd\<close> is a number, blanks and the quoted directory, which holds no double quote, and no NUL.\<close>

theorem login_dialogue:
  assumes "hears s (lines_text r1 @ lines_text r2 @ lines_text r3 @ (if nt then lines_text r5 else []) @ lines_text r4 @ rest)" "writable s"
    and "ftp_reply r1" "ftp_reply r2" "ftp_reply r3" "ftp_reply r4" "nt \<longrightarrow> ftp_reply r5"
    and "at0 (last r1) = CHR ''3''" "at0 (last r2) = CHR ''2''" "at0 (last r4) = CHR ''2''"
    and "nt \<longleftrightarrow> take 22 (last r3) = ''215 Windows_NT version''"
    and "last r4 = ds @ bl @ DQ # dir @ DQ # aft" "no_nul (last r4)" "list_all isdigit ds" "list_all (\<lambda>c. c = SP \<or> c = TAB) bl" "DQ \<notin> set dir"
  shows "\<exists>s'. ftpLogin user pass True s = Some (True, dir, s') \<and> hears s' rest \<and>
    calls s' = calls s @ map (sent s) ([''user '' @ user, ''pass '' @ pass, ''syst''] @ (if nt then [''site dirstyle''] else []) @ [''pwd''])"
proof -
  let ?t5 = "(if nt then lines_text r5 else []) @ lines_text r4 @ rest" and ?c3 = "[''user '' @ user, ''pass '' @ pass, ''syst'']"
  let ?c5 = "?c3 @ (if nt then [''site dirstyle''] else [])"
  have w: "writable (lastresp0 s)" using assms(2) by (simp add: writable_def lastresp0_def)
  obtain s1 where s1: "ftpSendCmd (''user '' @ user) (CHR ''3'') (lastresp0 s) = Some (True, s1)"
    "after_cmds s [''user '' @ user] (last r1) (lines_text r2 @ lines_text r3 @ ?t5) s1"
    using ftpSendCmd_reply[OF hears_lastresp0[OF assms(1)] assms(3) w, of "''user '' @ user" "CHR ''3''"] assms(8)
    by (auto simp: after_cmds_lastresp0)
  obtain s2 where s2: "ftpSendCmd (''pass '' @ pass) (CHR ''2'') s1 = Some (True, s2)"
    "after_cmds s [''user '' @ user, ''pass '' @ pass] (last r2) (lines_text r3 @ ?t5) s2"
    using next_cmd[OF s1(2) assms(2,4), of "''pass '' @ pass" "CHR ''2''"] assms(9) by auto
  obtain s3 where s3: "ftpSendCmd ''syst'' (CHR ''2'') s2 = Some (at0 (last r3) = CHR ''2'', s3)" "after_cmds s ?c3 (last r3) ?t5 s3"
    using next_cmd[OF s2(2) assms(2,5), of "''syst''" "CHR ''2''"] by auto
  have "has_line s3 (last r3)" using s3(2) by (simp add: after_cmds_def)
  then have nt: "strncmp_eq (rspbuf s3) ''215 Windows_NT version'' 22 \<longleftrightarrow> nt"
    unfolding assms(11) by (rule strncmp_line) simp_all
  have two: "nt \<Longrightarrow> at0 (last r3) = CHR ''2''" using assms(11) by (cases "last r3") auto
  obtain s5 l5 where s5: "(if at0 (last r3) = CHR ''2'' \<and> nt then map_option snd (ftpSendCmd ''site dirstyle'' (CHR ''2'') s3) else Some s3) = Some s5"
    "after_cmds s ?c5 l5 (lines_text r4 @ rest) s5"
  proof (cases nt)
    case True
    then obtain s5 where "ftpSendCmd ''site dirstyle'' (CHR ''2'') s3 = Some (at0 (last r5) = CHR ''2'', s5)"
      "after_cmds s (?c3 @ [''site dirstyle'']) (last r5) (lines_text r4 @ rest) s5"
      using next_cmd[of s ?c3 "last r3" r5 "lines_text r4 @ rest" s3 "''site dirstyle''" "CHR ''2''"] s3(2) assms(2,7) by auto
    then show ?thesis using True two that by simp
  next
    case False
    then show ?thesis using s3(2) that by simp
  qed
  obtain s4 where s4: "ftpSendCmd ''pwd'' (CHR ''2'') s5 = Some (True, s4)" "after_cmds s (?c5 @ [''pwd'']) (last r4) rest s4"
    using next_cmd[OF s5(2) assms(2,6), of "''pwd''" "CHR ''2''"] assms(10) by auto
  have "has_line s4 (last r4)" using s4(2) by (simp add: after_cmds_def)
  then have "cstr (rspbuf s4) = ds @ bl @ DQ # dir @ DQ # (aft @ [LF])" using cstr_line[OF _ assms(13)] assms(12) by simp
  from pwd_reply_dir[OF this assms(14-16)] obtain buf where pwd: "pwd_reply (rspbuf s4) = Some (buf, dir)" by blast
  have len: "length buf = length (rspbuf s4)" using pwd by (auto simp: pwd_reply_def Let_def split: if_splits option.splits)
  have "ftpLogin user pass True s = Some (True, dir, s4\<lparr>rspbuf := buf\<rparr>)"
    using s1(1) s2(1) s3(1) s5(1) s4(1) nt pwd by (simp add: ftpLogin_def login_pwd_def)
  moreover have "hears (s4\<lparr>rspbuf := buf\<rparr>) rest" using s4(2) len by (auto simp: after_cmds_def hears_def)
  moreover have "calls s4 = calls s @ map (sent s) (?c5 @ [''pwd''])"
    using s4(2) by (auto simp: after_cmds_def dest: same_but_input_fields)
  ultimately show ?thesis by simp
qed

lemma ftp_reply_last: "ftp_reply ls \<Longrightarrow> last ls \<noteq> []"
proof -
  assume r: "ftp_reply ls"
  then obtain l k where ls: "ls = l # k" by (cases ls) (auto simp: ftp_reply_def)
  then have "3 \<le> length l" "k = [] \<or> take 4 (last k) = take 3 l @ [SP]" using r by (auto simp: ftp_reply_def split: if_splits)
  then show "last ls \<noteq> []" unfolding ls by (cases "k = []") auto
qed

text \<open>A server that does not ask for a password is not sent one.\<close>

lemma login_without_password:
  assumes "hears s (lines_text ls @ rest)" "writable s" "ftp_reply ls" "at0 (last ls) \<noteq> CHR ''3''"
  shows "\<exists>s'. ftpLogin user pass want s = Some (at0 (last ls) = CHR ''2'', [], s') \<and> calls s' = calls s @ [sent s (''user '' @ user)]"
proof -
  have w: "writable (lastresp0 s)" using assms(2) by (simp add: writable_def lastresp0_def)
  obtain s1 where s1: "ftpSendCmd (''user '' @ user) (CHR ''3'') (lastresp0 s) = Some (False, s1)" "after_cmds s [''user '' @ user] (last ls) rest s1"
    using ftpSendCmd_reply[OF hears_lastresp0[OF assms(1)] assms(3) w, of "''user '' @ user" "CHR ''3''"] assms(4)
    by (auto simp: after_cmds_lastresp0)
  have ne: "last ls \<noteq> []" by (rule ftp_reply_last[OF assms(3)])
  have "at0 (rspbuf s1) = at0 (last ls)" using s1(2) has_line_start(2)[of s1 "last ls" 0] ne by (simp add: after_cmds_def)
  moreover have "calls s1 = calls s @ [sent s (''user '' @ user)]" using s1(2) by (auto simp: after_cmds_def dest: same_but_input_fields)
  ultimately show ?thesis using s1(1) by (simp add: ftpLogin_def)
qed

subsection \<open>A server\<close>

definition willing :: "nat \<Rightarrow> os_call \<Rightarrow> int" where
  "willing n c = (if c = Socket then 5 else 1)"

definition talking :: "string option list \<Rightarrow> ftp" where
  "talking inp = (new_ftp willing (\<lambda>n. [0, 0, 0, 0, 0, 0]) [] [] (replicate 256 (CHR ''-'')))
     \<lparr>sControl := 5, nControl := Live calloc_netbuf, ctl_in := inp\<rparr>"

lemma talking_hears: "all_data inp \<Longrightarrow> hears (talking inp) (stream_bytes inp)"
  by (simp add: hears_def talking_def new_ftp_def netbuf_ok_def calloc_netbuf_def pending_def)

lemma talking_writable: "writable (talking inp)"
  by (simp add: writable_def talking_def new_ftp_def willing_def)

theorem readresp_reply_witness:
  "\<exists>s'. readresp (CHR ''2'') (talking [Some ''230-wel'', Some (''come'' @ [LF] @ ''to'' @ [LF, CHR ''2'']), Some (''30 you'' @ [LF] @ ''22'')]) = Some (True, s') \<and>
    hears s' ''22'' \<and> has_line s' ''230 you''"
proof -
  let ?p = "[Some ''230-wel'', Some (''come'' @ [LF] @ ''to'' @ [LF, CHR ''2'']), Some (''30 you'' @ [LF] @ ''22'')]"
  let ?r = "[''230-welcome'', ''to'', ''230 you'']"
  have "hears (talking ?p) (lines_text ?r @ ''22'')" using talking_hears[of ?p] by simp
  moreover have "ftp_reply ?r" by (simp add: ftp_reply_def line_ok_def)
  ultimately show ?thesis using readresp_reply[of "talking ?p" ?r "''22''" "CHR ''2''"] by auto
qed

definition login_replies :: "string option list" where
  "login_replies = [Some (''331 who'' @ [LF] @ ''230 in'' @ [LF] @ ''215 Windows_NT version 4'' @ [LF] @ ''200 ok'' @ [LF] @ ''257 '' @ [DQ]), Some (''/home'' @ [DQ, LF])]"

theorem login_dialogue_witness:
  "\<exists>s'. ftpLogin ''joe'' ''secret'' True (talking login_replies) = Some (True, ''/home'', s') \<and>
    calls s' = map (sent (talking [])) [''user joe'', ''pass secret'', ''syst'', ''site dirstyle'', ''pwd'']"
proof -
  let ?s = "talking login_replies"
  have "hears ?s (lines_text [''331 who''] @ lines_text [''230 in''] @ lines_text [''215 Windows_NT version 4''] @
      (if True then lines_text [''200 ok''] else []) @ lines_text [''257 '' @ [DQ] @ ''/home'' @ [DQ]] @ [])"
    using talking_hears[of login_replies] by (simp add: login_replies_def)
  moreover have "ftp_reply [''331 who'']" "ftp_reply [''230 in'']" "ftp_reply [''215 Windows_NT version 4'']" "ftp_reply [''200 ok'']"
      "ftp_reply [''257 '' @ [DQ] @ ''/home'' @ [DQ]]"
    by (simp_all add: ftp_reply_def line_ok_def)
  moreover have "list_all isdigit ''257''" by code_simp
  moreover have "sent ?s = sent (talking [])" "calls ?s = []" by (rule ext, simp_all add: sent_def talking_def new_ftp_def)
  ultimately show ?thesis
    using login_dialogue[of ?s "[''331 who'']" "[''230 in'']" "[''215 Windows_NT version 4'']" True "[''200 ok'']"
        "[''257 '' @ [DQ] @ ''/home'' @ [DQ]]" "[]" "''257''" "'' ''" "''/home''" "[]" "''joe''" "''secret''"] talking_writable[of login_replies]
    by auto
qed

end
