(* ===== verification/FtpSafety.thy ===== *)
theory FtpSafety
  imports FtpDialogue
begin

section \<open>The FTP slave of kfm: what it sends, and where it fails\<close>

text \<open>
  Whatever the server and the system answer, each command is one line, provided the user, the password and the path hold no line feed, also where the
  server names the path; when they do, they can hold commands of their own. Then the ends of the slave that are faults: a connection that is refused, and a
  line that fills the buffer.
\<close>

subsection \<open>Each command is one line\<close>

text \<open>Every server ends a command at a line feed, some at a carriage return too. The second is promised (\<open>strict\<close>) only where the server does not itself
  name the directory.\<close>

definition line_ends :: "bool \<Rightarrow> char set" where
  "line_ends strict = (if strict then {CR, LF} else {LF})"

definition one_line :: "char set \<Rightarrow> string \<Rightarrow> bool" where
  "one_line E t \<longleftrightarrow> set (cstr t) \<inter> E = {}"

definition framed :: "char set \<Rightarrow> ftp \<Rightarrow> bool" where
  "framed E s \<longleftrightarrow> (\<forall>fd t. WriteTo fd t \<in> set (calls s) \<longrightarrow> (\<exists>l. t = l @ [CR, LF] \<and> set l \<inter> E = {}))"

definition clean_url :: "char set \<Rightarrow> (string \<Rightarrow> string) \<Rightarrow> ftp_url \<Rightarrow> bool" where
  "clean_url E decodeURL url \<longleftrightarrow> (CR \<in> E \<longrightarrow> fu_hasPath url) \<and> one_line E (fu_user url) \<and> one_line E (decodeURL (fu_passwd url)) \<and> one_line E (fu_path url)"

text \<open>\<open>KURL::cd\<close> does not bring in line feeds.\<close>

definition plain_cd :: "(string \<Rightarrow> ftp_url \<Rightarrow> ftp_url) \<Rightarrow> bool" where
  "plain_cd cd \<longleftrightarrow> (\<forall>d u. LF \<notin> set d \<and> LF \<notin> set (cstr (fu_path u)) \<longrightarrow> LF \<notin> set (cstr (fu_path (cd d u))))"

text \<open>The states of a slave whose methods are called in any order, with URLs that hold no line end.\<close>

inductive ftp_reachable :: "char set \<Rightarrow> (string \<Rightarrow> string) \<Rightarrow> (string \<Rightarrow> ftp_url \<Rightarrow> ftp_url) \<Rightarrow> ftp \<Rightarrow> bool" for E decodeURL cd where
  start: "ftp_reachable E decodeURL cd (new_ftp answers addr ctl dat garbage)"
| opened: "ftp_reachable E decodeURL cd s \<Longrightarrow> clean_url E decodeURL url \<Longrightarrow> FTP_Open decodeURL cd url rd wr s = Some (r, u, s') \<Longrightarrow> ftp_reachable E decodeURL cd s'"
| entered: "ftp_reachable E decodeURL cd s \<Longrightarrow> clean_url E decodeURL url \<Longrightarrow> OpenDir decodeURL cd url_of url s = Some (r, u, s') \<Longrightarrow> ftp_reachable E decodeURL cd s'"
| deleted: "ftp_reachable E decodeURL cd s \<Longrightarrow> clean_url E decodeURL url \<Longrightarrow> FTP_Delete decodeURL cd url s = Some (r, u, s') \<Longrightarrow> ftp_reachable E decodeURL cd s'"
| created: "ftp_reachable E decodeURL cd s \<Longrightarrow> clean_url E decodeURL url \<Longrightarrow> FTP_MkDir decodeURL cd url s = Some (r, u, s') \<Longrightarrow> ftp_reachable E decodeURL cd s'"
| listed: "ftp_reachable E decodeURL cd s \<Longrightarrow> ReadDir s = Some (e, s') \<Longrightarrow> ftp_reachable E decodeURL cd s'"
| received: "ftp_reachable E decodeURL cd s \<Longrightarrow> FTP_Read n s = (k, t, s') \<Longrightarrow> ftp_reachable E decodeURL cd s'"
| written: "ftp_reachable E decodeURL cd s \<Longrightarrow> FTP_Write t s = (k, s') \<Longrightarrow> ftp_reachable E decodeURL cd s'"
| left: "ftp_reachable E decodeURL cd s \<Longrightarrow> CloseDir s = Some s' \<Longrightarrow> ftp_reachable E decodeURL cd s'"
| closed: "ftp_reachable E decodeURL cd s \<Longrightarrow> FTP_Close s = Some s' \<Longrightarrow> ftp_reachable E decodeURL cd s'"

lemma readline_calls: "readline s = Some (r, s') \<Longrightarrow> calls s' = calls s"
  by (auto simp: readline_def split: ctl_ptr.splits option.splits)

lemma reply_lines_calls: "reply_lines m s = Some (r, s') \<Longrightarrow> calls s' = calls s"
proof (induction m s rule: reply_lines.induct)
  case (1 m s)
  then show ?case
    by (subst (asm) (2) reply_lines.simps) (auto dest: readline_calls split: option.splits if_splits)
qed

lemma readresp_calls: "readresp c s = Some (r, s') \<Longrightarrow> calls s' = calls s"
  by (auto simp: readresp_def dest!: readline_calls reply_lines_calls split: bind_splits if_splits)

lemma digit_plain: "isdigit c \<Longrightarrow> c \<noteq> NUL \<and> c \<noteq> CR \<and> c \<noteq> LF"
  by (auto simp: isdigit_def code_def)

lemma call_plain [simp]:
  "\<forall>fd t. CloseFd a \<noteq> WriteTo fd t" "\<forall>fd t. Socket \<noteq> WriteTo fd t" "\<forall>fd t. SetSockOpt a \<noteq> WriteTo fd t"
  "\<forall>fd t. ConnectTo a h \<noteq> WriteTo fd t" "\<forall>fd t. Calloc \<noteq> WriteTo fd t" "\<forall>fd t. GetServByName \<noteq> WriteTo fd t"
  "\<forall>fd t. GetHostByName h \<noteq> WriteTo fd t" "\<forall>fd t. GetSockName a \<noteq> WriteTo fd t" "\<forall>fd t. Bind a \<noteq> WriteTo fd t"
  "\<forall>fd t. Listen a \<noteq> WriteTo fd t" "\<forall>fd t. SelectFd a \<noteq> WriteTo fd t" "\<forall>fd t. AcceptOn a \<noteq> WriteTo fd t"
  "\<forall>fd t. Shutdown a \<noteq> WriteTo fd t" "\<forall>fd t. FdOpen a \<noteq> WriteTo fd t"
  by simp_all

text \<open>The line feed ends what \<open>readline\<close> stores: only the last character can be one.\<close>

definition lf_last :: "string \<Rightarrow> bool" where
  "lf_last t \<longleftrightarrow> LF \<notin> set (butlast (cstr t))"

lemma lf_last_end: "LF \<notin> set w \<Longrightarrow> lf_last (w @ LF # NUL # r)"
proof -
  assume w: "LF \<notin> set w"
  show ?thesis
  proof (cases "NUL \<in> set w")
    case True
    then have "cstr (w @ LF # NUL # r) = cstr w" by (simp add: cstr_def)
    then show ?thesis using w by (auto simp: lf_last_def cstr_def dest!: in_set_butlastD set_takeWhileD)
  next
    case False
    then have "cstr (w @ LF # NUL # r) = w @ [LF]" unfolding cstr_def by (subst takeWhile_append2) auto
    then show ?thesis using w by (simp add: lf_last_def)
  qed
qed

lemma lf_last_none: "LF \<notin> set w \<Longrightarrow> lf_last (w @ NUL # r)"
  by (auto simp: lf_last_def cstr_def takeWhile_tail dest!: in_set_butlastD set_takeWhileD)

text \<open>What has been stored while no line feed has come.\<close>

definition part :: "nat \<Rightarrow> string \<Rightarrow> bool" where
  "part n buf \<longleftrightarrow> n = 0 \<or> (\<exists>w r. buf = w @ NUL # r \<and> length w = n \<and> LF \<notin> set w)"

lemma part_take: "part n buf \<Longrightarrow> LF \<notin> set (take n buf)"
  by (auto simp: part_def)

lemma put_part: "put_str n t buf = Some buf' \<Longrightarrow> part n buf \<Longrightarrow> LF \<notin> set t \<Longrightarrow> part (n + length t) buf' \<and> lf_last buf'"
proof -
  assume p: "put_str n t buf = Some buf'" "part n buf" "LF \<notin> set t"
  then have b: "buf' = (take n buf @ t) @ NUL # drop (n + length t + 1) buf" "n + length t < length buf"
    by (auto simp: put_str_def split: if_splits)
  have "LF \<notin> set (take n buf @ t)" using p(3) part_take[OF p(2)] by simp
  then show ?thesis using b(2) unfolding b(1) part_def
    by (intro conjI disjI2 exI[of _ "take n buf @ t"] exI[of _ "drop (n + length t + 1) buf"] lf_last_none) simp_all
qed

lemma put_end: "put_str n (u @ [LF]) buf = Some buf' \<Longrightarrow> part n buf \<Longrightarrow> LF \<notin> set u \<Longrightarrow> lf_last buf'"
  using part_take[of n buf] lf_last_end[of "take n buf @ u"] by (auto simp: put_str_def split: if_splits)

lemma take_avail_part:
  assumes "take_avail mx n nb buf = Some (k, found, nb', buf')" "part n buf"
  shows "if found then lf_last buf' else part (n + k) buf' \<and> (k = 0 \<or> lf_last buf')"
proof (cases "cavail nb > 0")
  case True
  define src where "src = take (nat (if mx \<ge> cavail nb then cavail nb else mx - 1)) (drop (cget nb) (nb_buf nb))"
  have t: "put_str n (upto_lf src) buf = Some buf'" "k = length (upto_lf src)" "found \<longleftrightarrow> LF \<in> set src"
    using assms(1) True by (auto simp: take_avail_def Let_def src_def split: if_splits bind_splits)
  show ?thesis
  proof (cases "LF \<in> set src")
    case True
    then obtain u r where src: "src = u @ LF # r" "LF \<notin> set u" using split_list_first by metis
    then have "upto_lf src = u @ [LF]" by (simp add: upto_lf_some)
    then show ?thesis using t True put_end[OF _ assms(2) src(2)] by simp
  next
    case False
    then have "upto_lf src = src" by (rule upto_lf_none)
    then show ?thesis using t False put_part[OF _ assms(2)] by auto
  qed
next
  case False
  then show ?thesis using assms by (simp add: take_avail_def)
qed

lemma part_last: "part n buf \<Longrightarrow> n \<noteq> 0 \<Longrightarrow> lf_last buf"
  by (auto simp: part_def lf_last_none)

lemma readline_loop_last:
  "readline_loop mx eof n nb inp buf = Some (r, nb', inp', buf') \<Longrightarrow> part n buf \<Longrightarrow> r \<noteq> - 1 \<Longrightarrow> lf_last buf'"
proof (induction mx eof n nb inp buf rule: readline_loop.induct)
  case (1 mx eof n nb inp buf)
  obtain k found nb1 buf1 where ta: "take_avail mx n nb buf = Some (k, found, nb1, buf1)"
    using 1(2) by (subst (asm) readline_loop.simps) (auto split: option.splits)
  note p = take_avail_part[OF ta 1(3)]
  show ?case
  proof (cases "found \<or> mx - int k = 1 \<or> eof")
    case True
    then show ?thesis using 1(2,4) p
      by (subst (asm) readline_loop.simps) (auto simp: ta dest: put_part part_last split: if_splits)
  next
    case False
    then have p: "part (n + k) buf1" using p by simp
    obtain t inp1 nb2 where t: "read_in (nat (cleft (rewind nb1))) inp = (Some t, inp1)" "store_read t (rewind nb1) = Some nb2"
      "readline_loop (mx - int k) (t = []) (n + k) nb2 inp1 buf1 = Some (r, nb', inp', buf')"
      using 1(2,4) False by (subst (asm) readline_loop.simps) (auto simp: ta split: prod.splits option.splits if_splits)
    show ?thesis using 1(1)[OF ta refl refl refl _ _ _ t(1)[symmetric] refl t(2) t(3) p 1(4)] False by simp
  qed
qed

lemma readline_last: "readline s = Some (r, s') \<Longrightarrow> r \<noteq> - 1 \<Longrightarrow> lf_last (rspbuf s')"
  by (auto simp: readline_def part_def split: ctl_ptr.splits option.splits dest!: readline_loop_last)

lemma reply_lines_last_line: "reply_lines m s = Some (True, s') \<Longrightarrow> lf_last (rspbuf s')"
proof (induction m s rule: reply_lines.induct)
  case (1 m s)
  then show ?case
    by (subst (asm) (2) reply_lines.simps) (auto dest: readline_last split: option.splits if_splits)
qed

lemma ftpSendCmd_last: "ftpSendCmd cmd c s = Some (True, s') \<Longrightarrow> lf_last (rspbuf s')"
  by (auto simp: ftpSendCmd_def readresp_def Let_def split_beta split: bind_splits if_splits dest: readline_last reply_lines_last_line)

text \<open>So the directory in the reply to \<open>pwd\<close>, which a double quote follows, has no line feed.\<close>

lemma pwd_reply_plain:
  assumes "pwd_reply buf = Some (x, dir)" "lf_last buf"
  shows "LF \<notin> set dir"
proof -
  define p where "p = dropWhile (\<lambda>c. c = SP \<or> c = TAB) (dropWhile isdigit (cstr buf))"
  obtain u where u: "cstr buf = u @ p" unfolding p_def by (metis append.assoc takeWhile_dropWhile_id)
  obtain i where i: "find_char DQ (tl p) = Some i" "dir = take i (tl p)"
    using assms(1) by (auto simp: pwd_reply_def Let_def p_def split: if_splits option.splits)
  have il: "i < length (tl p)" using find_char_Some[OF i(1)] by blast
  then have "p \<noteq> []" by auto
  then have b: "butlast (cstr buf) = u @ butlast p" by (simp add: u butlast_append)
  have "take i (tl p) = take i (butlast (tl p))" using il by (simp add: take_butlast)
  then have "set dir \<subseteq> set (tl (butlast p))" using i(2) set_take_subset[of i "tl (butlast p)"] by (simp add: butlast_tl)
  then have "set dir \<subseteq> set (butlast p)" using set_drop_subset[of 1 "butlast p"] by (auto simp: drop_Suc)
  then show ?thesis using assms(2) b by (auto simp: lf_last_def)
qed

lemma login_pwd_dir: "login_pwd s = Some (r, d, s') \<Longrightarrow> LF \<notin> set d"
  by (auto simp: login_pwd_def split: bind_splits if_splits option.splits dest!: ftpSendCmd_last dest: pwd_reply_plain)

lemma login_pwd_only: "ftpLogin user pass False s = Some (r, d, s') \<Longrightarrow> d = []"
  by (auto simp: ftpLogin_def split: bind_splits if_splits)

lemma ftpLogin_dir: "ftpLogin user pass want s = Some (r, d, s') \<Longrightarrow> LF \<notin> set d"
  by (auto simp: ftpLogin_def split: bind_splits if_splits dest!: login_pwd_dir)

named_theorems framed_intro "operations keep framed"

text \<open>The operations keep the commands framed, for each set of characters that contains the line feed and no characters of the commands.\<close>

locale framing =
  fixes E :: "char set"
  assumes ends: "LF \<in> E" "E \<subseteq> {CR, LF}"
begin

lemma no_end [simp]: "c \<noteq> CR \<Longrightarrow> c \<noteq> LF \<Longrightarrow> c \<notin> E"
  using ends(2) by auto

lemma call_framed [framed_intro]: "call c s = (r, s') \<Longrightarrow> framed E s \<Longrightarrow> (\<forall>fd t. c \<noteq> WriteTo fd t) \<Longrightarrow> framed E s'"
  by (auto simp: call_def framed_def)

lemma lastresp0_framed [simp]: "framed E (lastresp0 s) \<longleftrightarrow> framed E s"
  by (simp add: framed_def lastresp0_def)

lemma close_fd_framed [simp]: "framed E (close_fd fd s) \<longleftrightarrow> framed E s"
  by (auto simp: framed_def close_fd_def call_def)

lemma framed_update [simp]:
  "framed E (s\<lparr>sControl := a\<rparr>) = framed E s" "framed E (s\<lparr>sData := a\<rparr>) = framed E s" "framed E (s\<lparr>sDatal := a\<rparr>) = framed E s"
  "framed E (s\<lparr>nControl := p\<rparr>) = framed E s" "framed E (s\<lparr>pasv := a\<rparr>) = framed E s" "framed E (s\<lparr>fsize := a\<rparr>) = framed E s"
  "framed E (s\<lparr>fbytesleft := a\<rparr>) = framed E s" "framed E (s\<lparr>rspbuf := b\<rparr>) = framed E s" "framed E (s\<lparr>dirfile := d\<rparr>) = framed E s"
  "framed E (s\<lparr>data_in := i\<rparr>) = framed E s" "framed E (s\<lparr>ctl_in := i\<rparr>) = framed E s" "framed E (s\<lparr>servers := v\<rparr>) = framed E s"
  "framed E (s\<lparr>redirections := q\<rparr>) = framed E s" "framed E (s\<lparr>lastKError := e\<rparr>) = framed E s" "framed E (fail_with e s) = framed E s"
  "framed E (connected_to s) = framed E s"
  by (simp_all add: framed_def fail_with_def connected_to_def)

lemma free_ctl_framed [framed_intro]: "free_ctl s = Some s' \<Longrightarrow> framed E s \<Longrightarrow> framed E s'"
  by (auto simp: free_ctl_def split: ctl_ptr.splits)

lemma readresp_framed [framed_intro]: "readresp c s = Some (r, s') \<Longrightarrow> framed E s \<Longrightarrow> framed E s'"
  by (simp add: framed_def readresp_calls)

lemma write_framed: "framed E (snd (call (WriteTo fd (cstr cmd @ [CR, LF])) s)) \<longleftrightarrow> framed E s \<and> one_line E cmd"
  by (auto simp: framed_def call_def one_line_def)

lemma ftpSendCmd_framed [framed_intro]: "ftpSendCmd cmd c s = Some (r, s') \<Longrightarrow> framed E s \<Longrightarrow> one_line E cmd \<Longrightarrow> framed E s'"
  using write_framed[of "sControl s" cmd s] unfolding ftpSendCmd_def Let_def case_prod_unfold
  by (auto split: if_splits dest: readresp_framed)

lemma one_line_simps [simp]: "one_line E []" "c \<noteq> NUL \<Longrightarrow> one_line E (c # t) \<longleftrightarrow> c \<notin> E \<and> one_line E t"
  by (auto simp: one_line_def)

lemma one_line_digits [simp]: "\<forall>c\<in>set t. isdigit c \<Longrightarrow> one_line E (t @ u) \<longleftrightarrow> one_line E u"
proof (induction t)
  case (Cons c t)
  then show ?case using digit_plain[of c] by simp
qed simp

lemma greeting_framed [framed_intro]: "greeting s = Some (r, s') \<Longrightarrow> framed E s \<Longrightarrow> framed E s'"
  by (auto simp: greeting_def split: bind_splits if_splits dest!: readresp_framed free_ctl_framed)

lemma framed_snd_call [simp]: "\<forall>fd t. c \<noteq> WriteTo fd t \<Longrightarrow> framed E (snd (call c s)) \<longleftrightarrow> framed E s"
  by (auto simp: call_def framed_def)

lemma ftpOpen_framed [framed_intro]: "ftpOpen host port s = Some (r, s') \<Longrightarrow> framed E s \<Longrightarrow> framed E s'"
  unfolding ftpOpen_def Let_def case_prod_unfold
  by (auto split: if_splits dest!: greeting_framed)

lemma login_pwd_framed [framed_intro]: "login_pwd s = Some (r, d, s') \<Longrightarrow> framed E s \<Longrightarrow> framed E s'"
  by (auto simp: login_pwd_def split: bind_splits if_splits option.splits dest!: ftpSendCmd_framed)

lemma ftpLogin_framed [framed_intro]:
  "ftpLogin user pass want s = Some (r, d, s') \<Longrightarrow> framed E s \<Longrightarrow> one_line E user \<Longrightarrow> one_line E pass \<Longrightarrow> framed E s'"
  by (auto simp: ftpLogin_def split: bind_splits if_splits dest!: ftpSendCmd_framed login_pwd_framed)

lemma port_cmd_line: "one_line E (port_cmd a)"
  using one_line_digits[OF dec_of_nat_digits, where u = "[]"] by (simp add: port_cmd_def upt_rec dec_of_nat_digits)

lemma ftpPort_framed [framed_intro]: "ftpPort s = Some (r, s') \<Longrightarrow> framed E s \<Longrightarrow> framed E s'"
  unfolding ftpPort_def Let_def case_prod_unfold
  by (auto simp: port_cmd_line split: if_splits dest!: ftpSendCmd_framed)

lemma ftpPasv_framed [framed_intro]: "ftpPasv s = Some (r, s') \<Longrightarrow> framed E s \<Longrightarrow> framed E s'"
  unfolding ftpPasv_def Let_def case_prod_unfold
  by (auto split: if_splits bind_splits dest!: ftpSendCmd_framed ftpPort_framed)

lemma accept_connect_framed [simp]: "framed E (snd (accept_connect s)) \<longleftrightarrow> framed E s"
  unfolding accept_connect_def Let_def case_prod_unfold by simp

lemma change_to_framed [framed_intro]:
  "change_to command path s = Some (r, p', s') \<Longrightarrow> framed E s \<Longrightarrow> one_line E command \<Longrightarrow> (\<And>p. path = Some p \<Longrightarrow> one_line E p) \<Longrightarrow>
   framed E s' \<and> (p' = path \<or> p' = None)"
  by (auto simp: change_to_def split: if_splits option.splits dest!: ftpSendCmd_framed)

lemma request_data_framed [framed_intro]:
  "request_data command path s = Some (r, s') \<Longrightarrow> framed E s \<Longrightarrow> one_line E command \<Longrightarrow> (\<And>p. path = Some p \<Longrightarrow> one_line E (command @ '' '' @ p)) \<Longrightarrow>
   framed E s'"
  unfolding request_data_def Let_def case_prod_unfold
  by (auto split: if_splits option.splits bind_splits dest!: ftpSendCmd_framed)

lemma OpenConnection_framed [framed_intro]:
  assumes "OpenConnection command path mode s = Some (r, s')" "framed E s" "mode \<noteq> NUL \<and> mode \<noteq> CR \<and> mode \<noteq> LF" "one_line E command"
    "\<And>p. path = Some p \<Longrightarrow> one_line E (command @ '' '' @ p) \<and> one_line E p"
  shows "framed E s'"
proof -
  obtain a s1 where s1: "ftpSendCmd (''type '' @ [mode]) (CHR ''2'') (lastresp0 s) = Some (a, s1)"
    using assms(1) by (auto simp: OpenConnection_def split: bind_splits)
  have f1: "framed E s1" using ftpSendCmd_framed[OF s1] assms(2,3) by simp
  show ?thesis
  proof (cases a)
    case True
    then obtain b s2 where s2: "ftpPasv s1 = Some (b, s2)" using assms(1) s1 by (auto simp: OpenConnection_def split: bind_splits)
    have f2: "framed E s2" by (rule ftpPasv_framed[OF s2 f1])
    show ?thesis
    proof (cases b)
      case b: True
      then obtain e p s3 where s3: "change_to command path s2 = Some (e, p, s3)"
        using assms(1) s1 s2 True by (auto simp: OpenConnection_def split: bind_splits)
      have f3: "framed E s3 \<and> (p = path \<or> p = None)" using change_to_framed[OF s3 f2 assms(4)] assms(5) by blast
      show ?thesis
        using assms(1,4,5) s1 s2 s3 True b f3 by (cases e) (auto simp: OpenConnection_def dest!: request_data_framed)
    qed (use assms(1) s1 s2 True f2 in \<open>auto simp: OpenConnection_def\<close>)
  qed (use assms(1) s1 f1 in \<open>auto simp: OpenConnection_def\<close>)
qed

lemma CloseConnection_framed [simp]: "framed E (CloseConnection s) \<longleftrightarrow> framed E s"
  by (simp add: CloseConnection_def Let_def)

lemma ftpQuit_framed [framed_intro]: "ftpQuit s = Some s' \<Longrightarrow> framed E s \<Longrightarrow> framed E s'"
  by (auto simp: ftpQuit_def split: if_splits bind_splits dest!: ftpSendCmd_framed free_ctl_framed)

lemma FTP_Close_framed [framed_intro]: "FTP_Close s = Some s' \<Longrightarrow> framed E s \<Longrightarrow> framed E s'"
  by (auto simp: FTP_Close_def dest!: ftpQuit_framed)

lemma CloseDir_framed [framed_intro]: "CloseDir s = Some s' \<Longrightarrow> framed E s \<Longrightarrow> framed E s'"
  by (auto simp: CloseDir_def split: option.splits dest!: ftpQuit_framed)

lemma Connect_framed:
  assumes "Connect decodeURL cd url s = Some (r, u, s')" "framed E s" "clean_url E decodeURL url" "plain_cd cd"
  shows "framed E s' \<and> one_line E (fu_path u)"
proof -
  obtain a s1 where s1: "ftpOpen (fu_host url) (fu_port url) s = Some (a, s1)"
    using assms(1) by (auto simp: Connect_def split: bind_splits)
  have f1: "framed E s1" by (rule ftpOpen_framed[OF s1 assms(2)])
  have up: "one_line E (fst (user_of decodeURL url))" "one_line E (snd (user_of decodeURL url))" "one_line E (fu_path url)"
    using assms(3) by (auto simp: user_of_def clean_url_def FTP_LOGIN_def FTP_PASSWD_def)
  show ?thesis
  proof (cases a)
    case False
    then show ?thesis using assms(1) s1 f1 up(3) by (auto simp: Connect_def)
  next
    case True
    then obtain ok d s2 where s2: "ftpLogin (fst (user_of decodeURL url)) (snd (user_of decodeURL url)) (\<not> fu_hasPath url) s1 = Some (ok, d, s2)"
      "u = (if ok \<and> d \<noteq> [] then cd (if right_str 1 d \<noteq> ''/'' then d @ ''/'' else d) url else url)" "s' = (if ok then s2 else fail_with CouldNotLogin s2)"
      using assms(1) s1 by (auto simp: Connect_def Let_def split_beta split: bind_splits if_splits)
    have f2: "framed E s2" by (rule ftpLogin_framed[OF s2(1) f1 up(1,2)])
    have "one_line E (fu_path u)"
    proof (cases "CR \<in> E \<or> \<not> ok \<or> d = []")
      case True
      then have "u = url" using s2(1,2) assms(3) by (auto simp: clean_url_def dest: login_pwd_only)
      then show ?thesis using up(3) by simp
    next
      case False
      have "LF \<notin> set (cstr (fu_path (cd e url)))" if "LF \<notin> set e" for e
        using assms(4) that up(3) ends(1) by (auto simp: plain_cd_def one_line_def)
      moreover have "E = {LF}" using ends False by auto
      ultimately show ?thesis using False s2(2) ftpLogin_dir[OF s2(1)] by (simp add: one_line_def)
    qed
    then show ?thesis using f2 s2(3) by simp
  qed
qed

lemma ftpSize_framed [framed_intro]:
  "ftpSize path mode s = Some (r, s') \<Longrightarrow> framed E s \<Longrightarrow> mode \<noteq> NUL \<and> mode \<noteq> CR \<and> mode \<noteq> LF \<Longrightarrow> one_line E path \<Longrightarrow> framed E s'"
  by (auto simp: ftpSize_def split: bind_splits if_splits dest!: ftpSendCmd_framed)

lemma FTP_Open_framed [framed_intro]:
  assumes "FTP_Open decodeURL cd url rd wr s = Some (r, u, s')" "framed E s" "clean_url E decodeURL url" "plain_cd cd"
  shows "framed E s'"
proof -
  obtain a v s1 where s1: "Connect decodeURL cd url s = Some (a, v, s1)"
    using assms(1) by (auto simp: FTP_Open_def split: bind_splits)
  have f1: "framed E s1" and p: "one_line E (fu_path v)" using Connect_framed[OF s1 assms(2-4)] by auto
  show ?thesis
    using assms(1) s1 f1 p unfolding FTP_Open_def Let_def
    by (auto split: bind_splits if_splits dest!: ftpSize_framed OpenConnection_framed)
qed

lemma OpenDir_framed [framed_intro]:
  assumes "OpenDir decodeURL cd url_of url s = Some (r, u, s')" "framed E s" "clean_url E decodeURL url" "plain_cd cd"
  shows "framed E s'"
proof -
  obtain a v s1 where s1: "Connect decodeURL cd url s = Some (a, v, s1)"
    using assms(1) by (auto simp: OpenDir_def split: bind_splits)
  have f1: "framed E s1" and p: "one_line E (fu_path v)" using Connect_framed[OF s1 assms(2-4)] by auto
  show ?thesis
    using assms(1) s1 f1 p unfolding OpenDir_def Let_def case_prod_unfold
    by (auto split: bind_splits if_splits dest!: OpenConnection_framed)
qed

lemma simple_cmd_framed: "simple_cmd cmd s = Some (r, s') \<Longrightarrow> framed E s \<Longrightarrow> one_line E cmd \<Longrightarrow> framed E s'"
  by (auto simp: simple_cmd_def dest!: ftpSendCmd_framed)

lemma FTP_Delete_framed [framed_intro]:
  "FTP_Delete decodeURL cd url s = Some (r, u, s') \<Longrightarrow> framed E s \<Longrightarrow> clean_url E decodeURL url \<Longrightarrow> plain_cd cd \<Longrightarrow> framed E s'"
  by (auto simp: FTP_Delete_def ftpRmdir_def ftpDelete_def split: bind_splits if_splits
      dest!: Connect_framed simple_cmd_framed FTP_Close_framed)

lemma FTP_MkDir_framed [framed_intro]:
  "FTP_MkDir decodeURL cd url s = Some (r, u, s') \<Longrightarrow> framed E s \<Longrightarrow> clean_url E decodeURL url \<Longrightarrow> plain_cd cd \<Longrightarrow> framed E s'"
  by (auto simp: FTP_MkDir_def ftpMkdir_def split: bind_splits if_splits
      dest!: Connect_framed simple_cmd_framed ftpQuit_framed)

lemma new_ftp_framed: "framed E (new_ftp answers addr ctl dat garbage)"
  by (simp add: framed_def new_ftp_def)

lemma reachable_framed:
  assumes "ftp_reachable E decodeURL cd s" "plain_cd cd"
  shows "framed E s"
  using assms(1)
proof induction
  case (listed s e s')
  then show ?case by (auto simp: ReadDir_def split: option.splits)
next
  case (received s n k t s')
  then show ?case by (auto simp: FTP_Read_def framed_def split: prod.splits option.splits)
next
  case (written s t k s')
  then show ?case by (auto simp: FTP_Write_def call_def framed_def)
qed (use assms(2) in \<open>auto simp: new_ftp_framed intro: framed_intro\<close>)

end

interpretation line_feed: framing "line_ends False"
  by unfold_locales (auto simp: line_ends_def)

interpretation both_ends: framing "line_ends True"
  by unfold_locales (auto simp: line_ends_def)

text \<open>C16: Whatever the servers send and the system answers, and in whatever order its methods are called: when no user, decoded password or path holds
  a line feed, all that the slave ever writes to a control connection are single lines, each ended by one CR LF. This includes URLs without a path, where the
  directory that the server names becomes the path, provided \<open>KURL::cd\<close> does not bring in line feeds. When (\<open>strict\<close>) each URL has a path and none of these
  texts holds a carriage return, no command holds one.\<close>

theorem ftp_commands_framed:
  assumes "ftp_reachable (line_ends strict) decodeURL cd s" "plain_cd cd" "WriteTo fd t \<in> set (calls s)"
  shows "\<exists>l. t = l @ [CR, LF] \<and> set l \<inter> line_ends strict = {}"
proof -
  have "framed (line_ends strict) s"
    using assms(1,2) line_feed.reachable_framed both_ends.reachable_framed by (cases strict) auto
  then show ?thesis using assms(3) by (simp add: framed_def)
qed

definition some_url :: ftp_url where
  "some_url = \<lparr>fu_host = ''h'', fu_port = 21, fu_user = [], fu_passwd = [], fu_path = ''/f'', fu_hasPath = True\<rparr>"

text \<open>A URL without a path, and a server that names a directory with a carriage return in it.\<close>

definition bare_url :: ftp_url where
  "bare_url = some_url\<lparr>fu_path := ''/'', fu_hasPath := False\<rparr>"

definition naming_ftp :: ftp where
  "naming_ftp = new_ftp willing (\<lambda>n. [0, 0, 0, 0, 0, 0]) [[Some (''220 '' @ [LF] @ ''331 '' @ [LF] @ ''230 '' @ [LF] @ ''215 '' @ [LF] @ ''257 '' @ [DQ] @
     ''/d'' @ [CR] @ ''e'' @ [DQ, LF]), Some (''550 '' @ [LF])]] [] (replicate 256 NUL)"

definition naming_cd :: "string \<Rightarrow> ftp_url \<Rightarrow> ftp_url" where
  "naming_cd d u = u\<lparr>fu_path := d\<rparr>"

lemma naming_calls:
  "map_option (\<lambda>(r, u, s). (r, WriteTo 5 (''RMD /d'' @ [CR] @ ''e/'' @ [CR, LF]) \<in> set (calls s))) (FTP_Delete id naming_cd bare_url naming_ftp) =
   Some (False, True)"
  by code_simp

theorem ftp_commands_framed_witness:
  "\<exists>s t. ftp_reachable (line_ends False) id naming_cd s \<and> WriteTo 5 t \<in> set (calls s) \<and> CR \<in> set (butlast (butlast t)) \<and> (\<exists>l. t = l @ [CR, LF] \<and> LF \<notin> set l)"
proof -
  define t where "t = ''RMD /d'' @ [CR] @ ''e/'' @ [CR, LF]"
  obtain u s where s: "FTP_Delete id naming_cd bare_url naming_ftp = Some (False, u, s)" and w: "WriteTo 5 t \<in> set (calls s)"
    using naming_calls by (auto simp: t_def map_option_case split: option.splits)
  have "ftp_reachable (line_ends False) id naming_cd naming_ftp" by (simp add: naming_ftp_def ftp_reachable.start)
  moreover have "clean_url (line_ends False) id bare_url" by (simp add: clean_url_def bare_url_def some_url_def one_line_def line_ends_def)
  ultimately have r: "ftp_reachable (line_ends False) id naming_cd s" using s by (rule ftp_reachable.deleted)
  have "plain_cd naming_cd" by (auto simp: plain_cd_def naming_cd_def cstr_def dest: set_takeWhileD)
  from ftp_commands_framed[OF r this w] have "\<exists>l. t = l @ [CR, LF] \<and> LF \<notin> set l" by (auto simp: line_ends_def)
  moreover have "CR \<in> set (butlast (butlast t))" by (simp add: t_def)
  ultimately show ?thesis using r w by blast
qed

text \<open>A password is decoded after the URL is parsed, so it may hold a command of its own.\<close>

definition asking_ftp :: ftp where
  "asking_ftp = new_ftp willing (\<lambda>n. [0, 0, 0, 0, 0, 0]) [[Some (''220 '' @ [LF] @ ''331 '' @ [LF])]] [] (replicate 256 NUL)"

lemma password_injects:
  "map_option (\<lambda>(r, u, s). last (calls s)) (Connect (\<lambda>p. ''x'' @ [CR, LF] @ ''DELE f'') (\<lambda>d u. u)
     (some_url\<lparr>fu_user := ''joe'', fu_passwd := ''x%0D%0ADELE%20f''\<rparr>) asking_ftp) =
   Some (WriteTo 5 (''pass x'' @ [CR, LF] @ ''DELE f'' @ [CR, LF]))"
  by code_simp

subsection \<open>A connection that is refused\<close>

lemma ctl_call [simp]:
  "nControl (snd (call c s)) = nControl s" "sControl (snd (call c s)) = sControl s" "dirfile (snd (call c s)) = dirfile s"
  "os (snd (call c s)) = os s" "nControl (close_fd fd s) = nControl s" "sControl (close_fd fd s) = sControl s"
  "dirfile (close_fd fd s) = dirfile s"
  by (simp_all add: call_def close_fd_def)

lemma readline_ctl: "readline s = Some (r, s') \<Longrightarrow> dirfile s' = dirfile s \<and> sControl s' = sControl s \<and> (\<exists>nb. nControl s' = Live nb)"
  by (auto simp: readline_def split: ctl_ptr.splits option.splits)

lemma reply_lines_ctl:
  "reply_lines m s = Some (r, s') \<Longrightarrow> dirfile s' = dirfile s \<and> sControl s' = sControl s \<and> (\<exists>nb. nControl s' = Live nb)"
proof (induction m s rule: reply_lines.induct)
  case (1 m s)
  then show ?case
    by (subst (asm) (2) reply_lines.simps) (auto dest: readline_ctl split: option.splits if_splits)
qed

lemma readresp_ctl: "readresp c s = Some (r, s') \<Longrightarrow> dirfile s' = dirfile s \<and> sControl s' = sControl s \<and> (\<exists>nb. nControl s' = Live nb)"
  by (auto simp: readresp_def split: bind_splits if_splits dest!: readline_ctl reply_lines_ctl)

lemma greeting_ctl: "greeting s = Some (False, s') \<Longrightarrow> nControl s' = Freed \<and> dirfile s' = dirfile s"
  by (auto simp: greeting_def free_ctl_def split: bind_splits if_splits dest!: readresp_ctl)

lemma ftpOpen_refused:
  assumes "ftpOpen host port s = Some (False, s')" "nControl s = Uninit" "\<forall>n. os s n Calloc \<noteq> 0"
  shows "nControl s' \<in> {Uninit, Freed} \<and> dirfile s' = dirfile s"
proof -
  have c: "fst (call Calloc x) \<noteq> 0" if "os x = os s" for x using assms(3) that by (simp add: call_def)
  show ?thesis
    using assms(1,2) c unfolding ftpOpen_def Let_def case_prod_unfold
    by (auto simp: lastresp0_def connected_to_def split: if_splits dest!: greeting_ctl)
qed

lemma readresp_dead: "(\<forall>nb. nControl s \<noteq> Live nb) \<Longrightarrow> readresp c s = None"
  by (auto simp: readresp_def readline_def split: ctl_ptr.splits)

lemma delete_faults:
  assumes "nControl s \<in> {Uninit, Freed}" "dirfile s = None" "0 \<le> sControl s"
  shows "delete_ftp s = None"
proof -
  define t where "t = lastresp0 (CloseConnection s)"
  have t: "nControl t \<in> {Uninit, Freed}" "sControl (CloseConnection s) = sControl s"
    using assms(1) by (auto simp: t_def lastresp0_def CloseConnection_def Let_def)
  have "free_ctl x = None" if "nControl x = nControl t" for x using t(1) that by (auto simp: free_ctl_def)
  moreover have "readresp (CHR ''2'') x = None" if "nControl x = nControl t" for x using t(1) that by (intro readresp_dead) auto
  ultimately have "Option.bind (ftpSendCmd ''quit'' (CHR ''2'') t) (\<lambda>(_, s). free_ctl s \<bind> F) = None" for F :: "ftp \<Rightarrow> ftp option"
    by (auto simp: ftpSendCmd_def Let_def case_prod_unfold)
  then show ?thesis
    using assms(2,3) t(2) by (simp add: delete_ftp_def CloseDir_def FTP_Close_def ftpQuit_def t_def)
qed

text \<open>A new slave whose connection fails after the socket was made, because the connection is refused or because the greeting is not positive,
  frees a pointer that was never set, or that it has freed before, when it is deleted: \<open>sControl\<close> still holds the descriptor that was closed.\<close>

theorem refused_connection_faults:
  assumes "Connect decodeURL cd url (new_ftp answers addr ctl dat garbage) = Some (False, u, s)"
    "lastKError s = CouldNotConnect" "0 \<le> sControl s" "\<forall>n. answers n Calloc \<noteq> 0"
  shows "delete_ftp s = None"
proof -
  let ?n = "new_ftp answers addr ctl dat garbage"
  obtain a s1 where s1: "ftpOpen (fu_host url) (fu_port url) ?n = Some (a, s1)"
    using assms(1) by (auto simp: Connect_def split: bind_splits)
  have "\<not> a"
  proof
    assume a
    then show False using assms(1,2) s1
      by (auto simp: Connect_def Let_def case_prod_unfold fail_with_def split: bind_splits if_splits)
  qed
  then have "s = fail_with CouldNotConnect s1" using assms(1) s1 by (simp add: Connect_def)
  moreover have "nControl s1 \<in> {Uninit, Freed} \<and> dirfile s1 = None"
    using ftpOpen_refused[of "fu_host url" "fu_port url" ?n s1] s1 \<open>\<not> a\<close> assms(4) by (simp add: new_ftp_def)
  ultimately show ?thesis using assms(3) by (intro delete_faults) (simp_all add: fail_with_def)
qed

definition busy_ftp :: "string option list list \<Rightarrow> ftp" where
  "busy_ftp ctl = new_ftp willing (\<lambda>n. [0, 0, 0, 0, 0, 0]) ctl [] (replicate 256 NUL)"

lemma busy_connect:
  "map_option (\<lambda>(r, u, s). (r, lastKError s, sControl s)) (Connect id (\<lambda>d u. u) some_url (busy_ftp [[Some (''421 busy'' @ [LF])]])) =
   Some (False, CouldNotConnect, 5)"
  by code_simp

theorem refused_connection_faults_witness:
  "\<exists>u s. Connect id (\<lambda>d u. u) some_url (busy_ftp [[Some (''421 busy'' @ [LF])]]) = Some (False, u, s) \<and> delete_ftp s = None"
proof -
  obtain u s where s: "Connect id (\<lambda>d u. u) some_url (busy_ftp [[Some (''421 busy'' @ [LF])]]) = Some (False, u, s)"
    "lastKError s = CouldNotConnect" "sControl s = 5" using busy_connect by (auto simp: map_option_case split: option.splits)
  have "delete_ftp s = None"
    using s by (intro refused_connection_faults[OF s(1)[unfolded busy_ftp_def]]) (simp_all add: willing_def)
  then show ?thesis using s(1) by blast
qed

subsection \<open>A line that fills the buffer\<close>

text \<open>C24: When 256 bytes without a line feed are there, some of them perhaps from the packet before, \<open>readline\<close> copies all of them and writes the NUL
  behind \<open>rspbuf\<close>: it keeps room for the NUL only when there is more than fits.\<close>

theorem readline_overflows:
  assumes "nControl s = Live nb" "netbuf_ok nb" "ctl_in s = Some t # r" "1 < length t" "length (rspbuf s) = 256"
    "length (pending nb) + length t = 256" "LF \<notin> set (pending nb @ t)"
  shows "readline s = None"
proof -
  define p where "p = pending nb"
  define k where "k = length p"
  have lp: "cavail nb = int k" using pending_length[OF assms(2)] by (simp add: p_def k_def)
  have k: "k < 255" "length t = 256 - k" "t \<noteq> []" using assms(4,6) by (auto simp: k_def p_def)
  define nb1 where "nb1 = nb\<lparr>cget := cget nb + k, cavail := cavail nb - int k\<rparr>"
  obtain buf1 where ta: "take_avail 256 0 nb (rspbuf s) = Some (k, False, nb1, buf1)" and lb: "length buf1 = 256"
  proof (cases "k = 0")
    case True
    then show ?thesis using that[of "rspbuf s"] lp assms(5) by (simp add: take_avail_def nb1_def)
  next
    case False
    have u: "upto_lf p = p" using assms(7) by (intro upto_lf_none) (simp add: p_def)
    have "put_str 0 p (rspbuf s) = Some (p @ NUL # drop (k + 1) (rspbuf s))" using k(1) assms(5) by (simp add: put_str_Some k_def)
    then have "take_avail 256 0 nb (rspbuf s) = Some (k, False, nb1, p @ NUL # drop (k + 1) (rspbuf s))"
      using take_avail_pending[OF assms(2), of 256 0 "rspbuf s", folded p_def] lp k(1) False u assms(7)
      by (simp add: nb1_def p_def[symmetric]) (simp add: k_def)
    then show ?thesis using that k(1) assms(5) by (simp add: k_def)
  qed
  have ok1: "netbuf_ok nb1" "cput nb1 = cget nb1" using assms(2) lp by (auto simp: netbuf_ok_def nb1_def)
  note rw = pending_empty[OF ok1]
  obtain nb2 where st: "store_read t (rewind nb1) = Some nb2" "netbuf_ok nb2" "pending nb2 = t"
  proof -
    have "length t \<le> FTP_BUFSIZ" using k(2) by (simp add: FTP_BUFSIZ_def)
    moreover have "cget (rewind nb1) = 0" using ok1(2) by (simp add: rewind_def)
    ultimately have "\<exists>nb2. store_read t (rewind nb1) = Some nb2 \<and> netbuf_ok nb2 \<and> pending nb2 = t"
      using rw by (intro store_read_ok) simp_all
    then show ?thesis by (elim exE conjE) (rule that)
  qed
  have full: "take_avail (256 - int k) k nb2 buf1 = None"
  proof -
    have "cavail nb2 = 256 - int k" using pending_length[OF st(2)] st(3) k by simp
    moreover have "upto_lf t = t" using assms(7) by (intro upto_lf_none) simp
    moreover have "put_str k t buf1 = None" using k lb by (simp add: put_str_def)
    ultimately show ?thesis using take_avail_pending[OF st(2), of "256 - int k" k buf1] st(3) k(1) by simp
  qed
  have "readline_loop (256 - int k) False k nb2 r buf1 = None" by (subst readline_loop.simps) (simp add: full)
  then have "readline_loop 256 False 0 nb (ctl_in s) (rspbuf s) = None"
    using rw st(1) k assms(3) le_trans[OF diff_le_self[of 256 k], of 1024] by (subst readline_loop.simps) (simp add: ta FTP_BUFSIZ_def)
  then show ?thesis using assms(1) by (simp add: readline_def)
qed

theorem readline_overflows_witness: "readline (talking [Some (replicate 256 (CHR ''x''))]) = None"
  by (rule readline_overflows[of _ calloc_netbuf "replicate 256 (CHR ''x'')" "[]"])
    (simp_all add: talking_def new_ftp_def netbuf_ok_def calloc_netbuf_def pending_def)

end
