(* ===== verification/KioDeliver.thy ===== *)
theory KioDeliver
  imports KioTransfer FtpSafety
begin

section \<open>Transfers deliver the data, and where they do not\<close>

text \<open>
  The contract between the loops of \<open>main.cpp\<close> and the slaves, as locales: a source that hands out what is left of its data, a sink that takes what
  is written while there is room, and the two together. The loops are proved against these contracts; the slaves for files and for FTP meet them. Where
  a slave breaks the contract the loops crash or do not end.
\<close>

subsection \<open>Sources and sinks\<close>

definition data_of :: "kio_event list \<Rightarrow> string" where
  "data_of evs = concat (map (\<lambda>e. case e of Data t \<Rightarrow> t | _ \<Rightarrow> []) evs)"

lemma data_of_simps [simp]: "data_of [] = []" "data_of (e # evs) = (case e of Data t \<Rightarrow> t | _ \<Rightarrow> []) @ data_of evs"
  "data_of (a @ b) = data_of a @ data_of b"
  by (simp_all add: data_of_def)

locale byte_source =
  fixes P :: "'w kprotocol" and remaining :: "'w \<Rightarrow> string" and good :: "'w \<Rightarrow> bool"
  assumes at_end: "good w \<Longrightarrow> m_atEOF P w \<Longrightarrow> remaining w = []"
    and reads: "good w \<Longrightarrow> \<not> m_atEOF P w \<Longrightarrow> 0 < n \<Longrightarrow>
      \<exists>t w'. m_Read P n w = Some (int (length t), t, w') \<and> good w' \<and> remaining w = t @ remaining w' \<and> (t \<noteq> [] \<or> m_atEOF P w')"
begin

text \<open>The work left: the bytes, and one more round to see the end.\<close>

definition rounds :: "'w \<Rightarrow> nat" where
  "rounds w = 2 * length (remaining w) + (if m_atEOF P w then 0 else 1)"

lemma reads_less:
  assumes "good w" "\<not> m_atEOF P w" "m_Read P n w = Some (l, t, w')" "0 < n"
  shows "l = int (length t) \<and> good w' \<and> remaining w = t @ remaining w' \<and> rounds w' < rounds w"
proof -
  obtain t0 w0 where r: "m_Read P n w = Some (int (length t0), t0, w0)" "good w0" "remaining w = t0 @ remaining w0" "t0 \<noteq> [] \<or> m_atEOF P w0"
    using reads[OF assms(1,2,4)] by blast
  then have "rounds w0 < rounds w" using assms(2) by (cases t0) (auto simp: rounds_def)
  then show ?thesis using r assms(3) by auto
qed

lemma get_loop_delivers:
  assumes "good w" "sz \<noteq> 0"
  shows "\<exists>evs' w'. get_loop P url sz c lst evs w = Some (evs', Finished w') \<and> good w' \<and> remaining w' = [] \<and> data_of evs' = data_of evs @ remaining w"
  using assms(1)
proof (induction "rounds w" arbitrary: w c lst evs rule: less_induct)
  case less
  show ?case
  proof (cases "m_atEOF P w")
    case True
    then show ?thesis using at_end[OF less(2)] less(2) by (subst get_loop.simps) auto
  next
    case False
    obtain l t w1 where rd: "m_Read P 1024 w = Some (l, t, w1)" using reads[OF less(2) False, of 1024] by auto
    have r: "l = int (length t)" "good w1" "remaining w = t @ remaining w1" "rounds w1 < rounds w"
      using reads_less[OF less(2) False rd] by simp_all
    define p where "p = (c + l) * 100 sdiv sz"
    define e where "e = evs @ [Data t] @ (if p \<noteq> lst then [Progress p] else [])"
    obtain evs' w' where "get_loop P url sz (c + l) p e w1 = Some (evs', Finished w')" "good w'" "remaining w' = []"
      "data_of evs' = data_of e @ remaining w1"
      using less(1)[OF r(4,2)] by blast
    moreover have "get_loop P url sz c lst evs w = get_loop P url sz (c + l) p e w1"
      using False rd r(1) assms(2) by (subst get_loop.simps) (simp add: p_def e_def Let_def)
    moreover have "data_of e = data_of evs @ t" by (simp add: e_def)
    ultimately show ?thesis using r(3) by auto
  qed
qed

end

locale byte_sink =
  fixes Q :: "'w kprotocol" and written :: "'w \<Rightarrow> string" and room :: "'w \<Rightarrow> nat" and ready :: "'w \<Rightarrow> bool"
  assumes writes: "ready w \<Longrightarrow> length t \<le> room w \<Longrightarrow>
      \<exists>w'. m_Write Q t w = Some (int (length t), w') \<and> ready w' \<and> written w' = written w @ t \<and> room w' = room w - length t"

locale transfer = byte_source P remaining good + byte_sink Q written room ready
  for P Q :: "'w kprotocol" and remaining good written room ready +
  assumes read_keeps: "good w \<Longrightarrow> ready w \<Longrightarrow> m_Read P n w = Some (l, t, w') \<Longrightarrow> ready w' \<and> written w' = written w \<and> room w' = room w"
    and write_keeps: "good w \<Longrightarrow> ready w \<Longrightarrow> m_Write Q t w = Some (l, w') \<Longrightarrow>
      good w' \<and> remaining w' = remaining w \<and> m_atEOF P w' = m_atEOF P w"
begin

lemma copy_loop_delivers:
  assumes "good w" "ready w" "length (remaining w) \<le> room w"
  shows "\<exists>evs' w'. copy_loop pct P Q src dest sz c lst evs w = Some (evs', Finished w') \<and> good w' \<and> ready w' \<and> remaining w' = [] \<and>
    written w' = written w @ remaining w"
  using assms
proof (induction "rounds w" arbitrary: w c lst evs rule: less_induct)
  case less
  show ?case
  proof (cases "m_atEOF P w")
    case True
    then show ?thesis using at_end[OF less(2)] less(2,3) by (subst copy_loop.simps) auto
  next
    case False
    obtain l t w1 where rd: "m_Read P 4096 w = Some (l, t, w1)" using reads[OF less(2) False, of 4096] by auto
    have r: "l = int (length t)" "good w1" "remaining w = t @ remaining w1" "rounds w1 < rounds w"
      using reads_less[OF less(2) False rd] by simp_all
    have k: "ready w1" "written w1 = written w" "room w1 = room w" using read_keeps[OF less(2,3) rd] by simp_all
    obtain w2 where wr: "m_Write Q t w1 = Some (int (length t), w2)" "ready w2" "written w2 = written w @ t" "room w2 = room w - length t"
      using writes[OF k(1), of t] k less(4) r(3) by auto
    have g: "good w2" "remaining w2 = remaining w1" "m_atEOF P w2 = m_atEOF P w1" using write_keeps[OF r(2) k(1) wr(1)] by simp_all
    then have less2: "rounds w2 < rounds w" using r(4) by (simp add: rounds_def)
    define moved where "moved = (sz \<noteq> 0 \<and> pct (c + l) sz \<noteq> lst)"
    have "length (remaining w2) \<le> room w2" using less(4) r(3) g wr(4) by simp
    then obtain evs' w' where "copy_loop pct P Q src dest sz (c + l) (if moved then pct (c + l) sz else lst)
        (evs @ (if moved then [Progress \<lfloor>pct (c + l) sz\<rfloor>] else [])) w2 = Some (evs', Finished w')"
      "good w'" "ready w'" "remaining w' = []" "written w' = written w2 @ remaining w2"
      using less(1)[OF less2 g(1) wr(2)] by blast
    moreover have "copy_loop pct P Q src dest sz c lst evs w = copy_loop pct P Q src dest sz (c + l) (if moved then pct (c + l) sz else lst)
        (evs @ (if moved then [Progress \<lfloor>pct (c + l) sz\<rfloor>] else [])) w2"
      using False rd wr(1) r(1) by (subst copy_loop.simps) (simp add: moved_def Let_def)
    ultimately show ?thesis using r(3) wr(3) g(2) by auto
  qed
qed

end

end
