(* ===== verification/KioSlaves.thy ===== *)
theory KioSlaves
  imports KioDeliver
begin

section \<open>The slaves for files and FTP as sources and sinks\<close>

text \<open>
  The methods of \<open>KProtocolFILE\<close> and \<open>KProtocolFTP\<close> as protocols, the proofs that they keep the contracts of a source and a sink, and what follows for
  the requests: a copy between two files is complete, a document from an FTP server arrives as sent. Then the cases in which the contract does not hold: an
  empty file, a file copied onto itself, a source that cannot be opened, a server that closes early.
\<close>

subsection \<open>Two slaves on one file system\<close>

record file_world =
  w_src :: file_prot
  w_dst :: file_prot
  w_fs :: file_sys

definition file_error_code :: "file_error \<Rightarrow> int" where
  "file_error_code e = (case e of NoFileError \<Rightarrow> 0 | CouldNotWrite \<Rightarrow> 1 | CouldNotRead \<Rightarrow> 2 | CouldNotMkdirHere \<Rightarrow> 13 | FileExists \<Rightarrow> 17)"

text \<open>The methods of the slave \<open>sel w\<close>; \<open>path_of\<close> is the path of a URL.\<close>

definition file_methods :: "(string \<Rightarrow> string) \<Rightarrow> (file_world \<Rightarrow> file_prot) \<Rightarrow> (file_prot \<Rightarrow> file_world \<Rightarrow> file_world) \<Rightarrow> file_world kprotocol" where
  "file_methods path_of sel upd =
     (let opn = (\<lambda>u rd wr ovr w. case FILE_Open (path_of u) rd wr ovr (sel w) (w_fs w) of
           (ok, p, fs) \<Rightarrow> Some (ok, [], upd p (w\<lparr>w_fs := fs\<rparr>)))
      in \<lparr>m_Open = opn,
          m_ReOpen = (\<lambda>u. opn u True False False),
          m_prepare = (\<lambda>d c w. w),
          m_Close = (\<lambda>w. Some (upd (FILE_Close (sel w)) w)),
          m_Read = (\<lambda>n w. map_option (\<lambda>(l, t, p). (l, t, upd p w)) (FILE_Read n (sel w) (w_fs w))),
          m_Write = (\<lambda>t w. map_option (\<lambda>(l, p, fs). (l, upd p (w\<lparr>w_fs := fs\<rparr>))) (FILE_Write t (sel w) (w_fs w))),
          m_atEOF = (\<lambda>w. FILE_atEOF (sel w)),
          m_Size = (\<lambda>w. FILE_Size (sel w)),
          m_MkDir = (\<lambda>u w. case FILE_MkDir (path_of u) (sel w) (w_fs w) of (ok, p, fs) \<Rightarrow> Some (ok, upd p (w\<lparr>w_fs := fs\<rparr>))),
          m_Delete = (\<lambda>u w. case FILE_Delete (path_of u) (w_fs w) of (ok, fs) \<Rightarrow> Some (ok, w\<lparr>w_fs := fs\<rparr>)),
          m_GetPermissions = (\<lambda>u w. FILE_GetPermissions (path_of u) (w_fs w)),
          m_SetPermissions = (\<lambda>u perms w. w\<lparr>w_fs := FILE_SetPermissions (path_of u) perms (w_fs w)\<rparr>),
          m_destroy = (\<lambda>w. Some (upd (FILE_Close (sel w)) w)),
          m_error = (\<lambda>w. (file_error_code (fp_error (sel w)), []))\<rparr>)"

definition src_file :: "(string \<Rightarrow> string) \<Rightarrow> file_world kprotocol" where
  "src_file path_of = file_methods path_of w_src (\<lambda>p w. w\<lparr>w_src := p\<rparr>)"

definition dst_file :: "(string \<Rightarrow> string) \<Rightarrow> file_world kprotocol" where
  "dst_file path_of = file_methods path_of w_dst (\<lambda>p w. w\<lparr>w_dst := p\<rparr>)"

text \<open>What is left to read, what was written, and the states of a copy between two different paths, in a file system that is otherwise the one at the start.\<close>

definition src_left :: "file_world \<Rightarrow> string" where
  "src_left w = (case fp_file (w_src w) of None \<Rightarrow> [] | Some st \<Rightarrow> drop (st_pos st) (case content (w_fs w) (st_path st) of None \<Rightarrow> [] | Some c \<Rightarrow> c))"

definition src_good :: "string \<Rightarrow> file_world \<Rightarrow> bool" where
  "src_good path w \<longleftrightarrow> (\<exists>st c. fp_file (w_src w) = Some st \<and> st_path st = path \<and> content (w_fs w) path = Some c \<and> (st_eof st \<longrightarrow> length c \<le> st_pos st))"

definition dst_written :: "string \<Rightarrow> file_world \<Rightarrow> string" where
  "dst_written path w = (case content (w_fs w) path of None \<Rightarrow> [] | Some c \<Rightarrow> c)"

definition dst_ready :: "file_sys \<Rightarrow> string \<Rightarrow> file_world \<Rightarrow> bool" where
  "dst_ready fs0 path w \<longleftrightarrow> (\<exists>st c. fp_file (w_dst w) = Some st \<and> st_path st = path \<and> content (w_fs w) path = Some c \<and> st_pos st = length c) \<and>
     (\<forall>p. p \<noteq> path \<longrightarrow> content (w_fs w) p = content fs0 p) \<and> fmode (w_fs w) = fmode fs0"

definition dst_room :: "file_world \<Rightarrow> nat" where
  "dst_room w = disk_free (w_fs w)"

lemma file_method_simps [simp]:
  "m_atEOF (src_file po) w = FILE_atEOF (w_src w)" "m_Size (src_file po) w = FILE_Size (w_src w)"
  "m_Read (src_file po) n w = map_option (\<lambda>(l, t, p). (l, t, w\<lparr>w_src := p\<rparr>)) (FILE_Read n (w_src w) (w_fs w))"
  "m_Write (dst_file po) t w = map_option (\<lambda>(l, p, fs). (l, w\<lparr>w_fs := fs, w_dst := p\<rparr>)) (FILE_Write t (w_dst w) (w_fs w))"
  "m_Close (src_file po) w = Some (w\<lparr>w_src := FILE_Close (w_src w)\<rparr>)" "m_Close (dst_file po) w = Some (w\<lparr>w_dst := FILE_Close (w_dst w)\<rparr>)"
  "m_destroy (src_file po) w = Some (w\<lparr>w_src := FILE_Close (w_src w)\<rparr>)" "m_destroy (dst_file po) w = Some (w\<lparr>w_dst := FILE_Close (w_dst w)\<rparr>)"
  "m_GetPermissions (src_file po) u w = FILE_GetPermissions (po u) (w_fs w)"
  "m_SetPermissions (dst_file po) u perms w = w\<lparr>w_fs := FILE_SetPermissions (po u) perms (w_fs w)\<rparr>"
  "m_Open (src_file po) u rd wr ovr w = (case FILE_Open (po u) rd wr ovr (w_src w) (w_fs w) of (ok, p, fs) \<Rightarrow> Some (ok, [], w\<lparr>w_fs := fs, w_src := p\<rparr>))"
  "m_Open (dst_file po) u rd wr ovr w = (case FILE_Open (po u) rd wr ovr (w_dst w) (w_fs w) of (ok, p, fs) \<Rightarrow> Some (ok, [], w\<lparr>w_fs := fs, w_dst := p\<rparr>))"
  "m_prepare (src_file po) d c w = w"
  "m_ReOpen (src_file po) u w = m_Open (src_file po) u True False False w"
  by (simp_all add: src_file_def dst_file_def file_methods_def Let_def split: prod.splits)

lemma write_over_end: "write_over (length c) t c = c @ t"
  by (simp add: write_over_def)

interpretation file_copy: transfer "src_file po" "dst_file po" src_left "src_good from_path" "dst_written to_path" dst_room
    "\<lambda>w. dst_ready fs0 to_path w \<and> from_path \<noteq> to_path" for po from_path to_path fs0
proof (unfold_locales, goal_cases)
  case (1 w)
  then show ?case by (auto simp: src_good_def src_left_def FILE_atEOF_def)
next
  case (2 w n)
  then obtain st c where st: "fp_file (w_src w) = Some st" "st_path st = from_path" "content (w_fs w) from_path = Some c" "\<not> st_eof st"
    by (auto simp: src_good_def FILE_atEOF_def)
  define t where "t = take n (drop (st_pos st) c)"
  define st' where "st' = st\<lparr>st_pos := st_pos st + length t, st_eof := (st_eof st \<or> length t < n)\<rparr>"
  define w' where "w' = w\<lparr>w_src := (w_src w)\<lparr>fp_file := Some st'\<rparr>\<rparr>"
  have "m_Read (src_file po) n w = Some (int (length t), t, w')"
    by (simp add: FILE_Read_def fread_def st t_def w'_def st'_def)
  moreover have "src_good from_path w'"
    using st by (auto simp: src_good_def w'_def st'_def t_def min_def)
  moreover have "src_left w = t @ src_left w'"
  proof -
    have "drop (st_pos st) c = t @ drop (length t) (drop (st_pos st) c)"
      using append_take_drop_id[of n "drop (st_pos st) c"] by (cases "n \<le> length (drop (st_pos st) c)") (simp_all add: t_def min_def)
    then show ?thesis using st by (simp add: src_left_def w'_def st'_def add.commute)
  qed
  moreover have "t \<noteq> [] \<or> m_atEOF (src_file po) w'" using 2(3) by (auto simp: FILE_atEOF_def w'_def st'_def)
  ultimately show ?case by blast
next
  case (3 w t)
  then obtain st c where st: "fp_file (w_dst w) = Some st" "st_path st = to_path" "content (w_fs w) to_path = Some c" "st_pos st = length c"
    by (auto simp: dst_ready_def)
  have "take (disk_free (w_fs w)) t = t" using 3(2) by (simp add: dst_room_def)
  then show ?case
    using 3(1) st by (auto simp: FILE_Write_def fwrite_def Let_def write_over_end dst_ready_def dst_written_def dst_room_def)
next
  case (4 w n l t w')
  then show ?case
    by (auto simp: FILE_Read_def dst_ready_def dst_written_def dst_room_def split: option.splits)
next
  case (5 w t l w')
  then show ?case
    by (auto simp: FILE_Write_def fwrite_def Let_def dst_ready_def src_good_def src_left_def split: option.splits)
qed

subsection \<open>Copies between files\<close>

definition fresh_world :: "file_sys \<Rightarrow> file_world" where
  "fresh_world fs = \<lparr>w_src = new_file_prot, w_dst = new_file_prot, w_fs = fs\<rparr>"

text \<open>A request that passes the tests of the URLs.\<close>

definition request_ok :: "url_env \<Rightarrow> string \<Rightarrow> bool" where
  "request_ok env u \<longleftrightarrow> \<not> malformed env u \<and> \<not> malformed env (nested env u) \<and> supported env u"

lemma open_dst:
  assumes "writable_at fs q" "\<not> directory fs q" "ovr \<or> content fs q = None"
  shows "FILE_Open q False True ovr p fs =
    (True, p\<lparr>fp_file := Some \<lparr>st_path = q, st_pos = 0, st_eof = False\<rparr>, fp_size := 0\<rparr>, fs\<lparr>content := (content fs)(q \<mapsto> [])\<rparr>)"
  using assms by (auto simp: FILE_Open_def FILE_Close_def fopen_wb_def Let_def)

lemma open_src:
  assumes "readable fs q" "content fs q = Some c"
  shows "FILE_Open q True wr ovr p fs =
    (True, p\<lparr>fp_file := Some \<lparr>st_path = q, st_pos = 0, st_eof = False\<rparr>, fp_size := int (length c)\<rparr>, fs)"
  using assms by (simp add: FILE_Open_def FILE_Close_def fopen_rb_def Let_def)

lemma open_redirect_file:
  "FILE_Open (po u) True False False (w_src w) (w_fs w) = (ok, p, fs) \<Longrightarrow>
   OpenWithRedirect (src_file po) u w = Some (Some (ok, u, w\<lparr>w_fs := fs, w_src := p\<rparr>))"
  by (subst OpenWithRedirect.simps) simp

text \<open>C21: Copying a file to another path, new or to be overwritten, with room for it on the disk: the request ends and says so, the copy has the contents
  and the permissions of the source, and no other file has changed.\<close>

theorem copy_file_complete:
  assumes "request_ok env src" "request_ok env dest"
    and "po (nested env src) = from_path" "po (nested env dest) = to_path"
    and "from_path \<noteq> to_path" "content fs from_path = Some c" "readable fs from_path" "length c \<le> disk_free fs"
    and "writable_at fs to_path" "\<not> directory fs to_path" "ovr \<or> content fs to_path = None" "fmode fs from_path \<noteq> - 1"
  shows "\<exists>evs w. copy_data pct env (src_file po) (dst_file po) src dest ovr (fresh_world fs) = Some (evs @ [Done], Finished w) \<and>
    content (w_fs w) = (content fs)(to_path \<mapsto> c) \<and> fmode (w_fs w) to_path = fmode fs from_path AND 0xFFF"
proof -
  define fs1 where "fs1 = fs\<lparr>content := (content fs)(to_path \<mapsto> [])\<rparr>"
  define pd where "pd = new_file_prot\<lparr>fp_file := Some \<lparr>st_path = to_path, st_pos = 0, st_eof = False\<rparr>, fp_size := 0\<rparr>"
  define ps where "ps = new_file_prot\<lparr>fp_file := Some \<lparr>st_path = from_path, st_pos = 0, st_eof = False\<rparr>, fp_size := int (length c)\<rparr>"
  define w1 where "w1 = (fresh_world fs)\<lparr>w_fs := fs1, w_dst := pd\<rparr>"
  define w2 where "w2 = w1\<lparr>w_fs := fs1, w_src := ps\<rparr>"
  have od: "m_Open (dst_file po) (nested env dest) False True ovr (fresh_world fs) = Some (True, [], w1)"
    using open_dst[OF assms(9-11), of new_file_prot] by (simp add: fresh_world_def assms(4) w1_def fs1_def pd_def)
  have c1: "content fs1 from_path = Some c" "readable fs1 from_path" using assms(5-7) by (simp_all add: fs1_def)
  have os: "OpenWithRedirect (src_file po) (nested env src) w1 = Some (Some (True, nested env src, w2))"
    using open_redirect_file[of po "nested env src" w1 True ps fs1] open_src[OF c1(2,1), of False False new_file_prot]
    by (simp add: w1_def w2_def fresh_world_def assms(3) ps_def)
  have good: "src_good from_path w2" using c1 by (auto simp: src_good_def w2_def w1_def ps_def)
  have ready: "dst_ready fs1 to_path w2 \<and> from_path \<noteq> to_path"
    using assms(5) by (auto simp: dst_ready_def w2_def w1_def pd_def fs1_def)
  have left: "src_left w2 = c" "dst_written to_path w2 = []" "dst_room w2 = disk_free fs"
    using c1 by (simp_all add: src_left_def dst_written_def dst_room_def w2_def w1_def ps_def fs1_def)
  obtain evs w3 where cl: "copy_loop pct (src_file po) (dst_file po) src dest (FILE_Size (w_src w2)) 0 0 [] w2 = Some (evs, Finished w3)"
    "dst_ready fs1 to_path w3" "dst_written to_path w3 = c"
    using file_copy.copy_loop_delivers[OF good ready, where po = po and pct = pct and src = src and dest = dest and
        sz = "FILE_Size (w_src w2)" and c = 0 and lst = 0 and evs = "[]"] left assms(8) by auto
  have fin: "content (w_fs w3) = (content fs)(to_path \<mapsto> c)" "fmode (w_fs w3) = fmode fs"
    using cl(2,3) by (auto simp: dst_ready_def dst_written_def fs1_def fun_eq_iff)
  define w4 where "w4 = w3\<lparr>w_src := FILE_Close (w_src w3), w_dst := FILE_Close (w_dst w3),
    w_fs := FILE_SetPermissions to_path (FILE_GetPermissions from_path (w_fs w3)) (w_fs w3)\<rparr>"
  have perm: "sint (fmode fs from_path) \<noteq> - 1" using assms(12) by (metis signed_minus_1 signed_word_eqI)
  have "finish_copy (src_file po) (dst_file po) (nested env src) (nested env dest) evs w3 = (evs @ [Done], Finished w4)"
    by (simp add: finish_copy_def w4_def assms(3,4) FILE_Close_def)
  then have "copy_data pct env (src_file po) (dst_file po) src dest ovr (fresh_world fs) = Some (evs @ [Done], Finished w4)"
    using assms(1,2) od os cl(1) by (simp add: copy_data_def request_ok_def)
  moreover have "content (w_fs w4) = (content fs)(to_path \<mapsto> c)" using fin by (simp add: w4_def FILE_SetPermissions_def)
  moreover have "fmode (w_fs w4) to_path = fmode fs from_path AND 0xFFF"
    using fin perm by (simp add: w4_def FILE_SetPermissions_def FILE_GetPermissions_def)
  ultimately show ?thesis by blast
qed

definition plain_env :: url_env where
  "plain_env = \<lparr>malformed = (\<lambda>u. u = []), nested = id, supported = (\<lambda>u. True)\<rparr>"

definition one_file :: "string \<Rightarrow> string \<Rightarrow> file_sys" where
  "one_file p c = \<lparr>content = [p \<mapsto> c], directory = (\<lambda>p. False), fmode = (\<lambda>p. 0x81A4), readable = (\<lambda>p. True), writable_at = (\<lambda>p. True), disk_free = 100\<rparr>"

theorem copy_file_complete_witness:
  "\<exists>evs w. copy_data (\<lambda>c n. 0) plain_env (src_file id) (dst_file id) ''/a'' ''/b'' False (fresh_world (one_file ''/a'' ''text'')) = Some (evs @ [Done], Finished w) \<and>
    content (w_fs w) = [''/a'' \<mapsto> ''text'', ''/b'' \<mapsto> ''text''] \<and> fmode (w_fs w) ''/b'' = 0x1A4"
  using copy_file_complete[of plain_env "''/a''" "''/b''" id "''/a''" "''/b''" "one_file ''/a'' ''text''" "''text''" False "\<lambda>c n. 0"]
  by (simp add: request_ok_def plain_env_def one_file_def)

text \<open>The disk full in the middle of a copy is noticed and reported.\<close>

lemma copy_to_full_disk:
  "map_option fst (copy_data (\<lambda>c n. 0) plain_env (src_file id) (dst_file id) ''/a'' ''/b'' False (fresh_world ((one_file ''/a'' ''text'')\<lparr>disk_free := 3\<rparr>))) =
   Some [Fatal KIO_ERROR_DiskFull ''/b'']"
  by code_simp

subsection \<open>Copies that destroy\<close>

text \<open>C23: Copying a file onto itself, with overwriting allowed, empties it and reports success: the destination is opened, and so emptied, before the source
  is read, and nothing compares the two.\<close>

theorem copy_onto_itself:
  assumes "request_ok env src" "request_ok env dest" "po (nested env src) = path" "po (nested env dest) = path"
    and "readable fs path" "writable_at fs path" "\<not> directory fs path" "content fs path = Some c"
  shows "\<exists>w. copy_data pct env (src_file po) (dst_file po) src dest True (fresh_world fs) = Some ([Done], Finished w) \<and> content (w_fs w) path = Some []"
proof -
  define fs1 where "fs1 = fs\<lparr>content := (content fs)(path \<mapsto> [])\<rparr>"
  define st where "st = \<lparr>st_path = path, st_pos = 0, st_eof = False\<rparr>"
  define pd where "pd = new_file_prot\<lparr>fp_file := Some st, fp_size := 0\<rparr>"
  define w1 where "w1 = (fresh_world fs)\<lparr>w_fs := fs1, w_dst := pd\<rparr>"
  define w2 where "w2 = w1\<lparr>w_fs := fs1, w_src := pd\<rparr>"
  define w3 where "w3 = w2\<lparr>w_src := pd\<lparr>fp_file := Some (st\<lparr>st_eof := True\<rparr>)\<rparr>\<rparr>"
  have od: "m_Open (dst_file po) (nested env dest) False True True (fresh_world fs) = Some (True, [], w1)"
    using open_dst[OF assms(6,7), of True new_file_prot] by (simp add: fresh_world_def assms(4) w1_def fs1_def pd_def st_def)
  have "FILE_Open path True False False new_file_prot fs1 = (True, pd, fs1)"
    using open_src[of fs1 path "[]" False False new_file_prot] assms(5) by (simp add: fs1_def pd_def st_def)
  then have os: "OpenWithRedirect (src_file po) (nested env src) w1 = Some (Some (True, nested env src, w2))"
    using open_redirect_file[of po "nested env src" w1 True pd fs1] by (simp add: w1_def w2_def fresh_world_def assms(3))
  have rd: "FILE_Read 4096 (w_src w2) (w_fs w2) = Some (0, [], pd\<lparr>fp_file := Some (st\<lparr>st_eof := True\<rparr>)\<rparr>)"
    by (simp add: FILE_Read_def fread_def w2_def w1_def pd_def st_def fs1_def)
  have wr: "FILE_Write [] (w_dst w3) (w_fs w3) = Some (0, w_dst w3, w_fs w3)"
    by (simp add: FILE_Write_def fwrite_def w3_def w2_def w1_def pd_def st_def fs1_def write_over_def Let_def fun_upd_idem_iff)
  have e: "\<not> FILE_atEOF (w_src w2)" "FILE_atEOF (w_src w3)" by (simp_all add: FILE_atEOF_def w2_def w3_def pd_def st_def)
  have sz: "m_Size (src_file po) w2 = 0" by (simp add: FILE_Size_def w2_def pd_def)
  have "copy_loop pct (src_file po) (dst_file po) src dest 0 0 0 [] w2 = copy_loop pct (src_file po) (dst_file po) src dest 0 0 0 [] w3"
    using e(1) rd wr by (subst copy_loop.simps) (simp add: w3_def)
  also have "\<dots> = Some ([], Finished w3)" using e(2) by (subst copy_loop.simps) simp
  finally have cl: "copy_loop pct (src_file po) (dst_file po) src dest 0 0 0 [] w2 = Some ([], Finished w3)" .
  obtain w4 where w4: "finish_copy (src_file po) (dst_file po) (nested env src) (nested env dest) [] w3 = ([Done], Finished w4)"
    "content (w_fs w4) = content (w_fs w3)"
    by (auto simp: finish_copy_def FILE_SetPermissions_def)
  have "copy_data pct env (src_file po) (dst_file po) src dest True (fresh_world fs) = Some ([Done], Finished w4)"
    using assms(1,2) od os cl w4(1) sz by (simp add: copy_data_def request_ok_def)
  moreover have "content (w_fs w4) path = Some []" using w4(2) by (simp add: w3_def w2_def w1_def fs1_def)
  ultimately show ?thesis by blast
qed

theorem copy_onto_itself_witness:
  "\<exists>w. copy_data (\<lambda>c n. 0) plain_env (src_file id) (dst_file id) ''/a'' ''/a'' True (fresh_world (one_file ''/a'' ''text'')) = Some ([Done], Finished w) \<and>
    content (w_fs w) ''/a'' = Some []"
  using copy_onto_itself[of plain_env "''/a''" "''/a''" id "''/a''" "one_file ''/a'' ''text''" "''text''" "\<lambda>c n. 0"]
  by (simp add: request_ok_def plain_env_def one_file_def)

text \<open>A source that cannot be read also costs the file that was to be overwritten.\<close>

lemma copy_from_nowhere:
  "map_option (\<lambda>(evs, e). (evs, case e of Failed w \<Rightarrow> content (w_fs w) ''/b'' | _ \<Rightarrow> None))
     (copy_data (\<lambda>c n. 0) plain_env (src_file id) (dst_file id) ''/a'' ''/b'' True (fresh_world (one_file ''/b'' ''text''))) =
   Some ([Fatal 2 ''/a''], Some [])"
  by code_simp

text \<open>A request for the data of an empty file crashes the slave: the end mark of the stream is set by the first read only, and after it the percentage is
  computed by a division by the size.\<close>

theorem get_empty_file_crashes:
  assumes "request_ok env url" "po (nested env url) = path" "readable fs path" "content fs path = Some []"
  shows "get_data env (src_file po) url reload dat cookies (fresh_world fs) = Some ([Data []], Crashed)"
proof -
  define p where "p = new_file_prot\<lparr>fp_file := Some \<lparr>st_path = path, st_pos = 0, st_eof = False\<rparr>, fp_size := 0\<rparr>"
  have "FILE_Open path True False False new_file_prot fs = (True, p, fs)"
    using open_src[OF assms(3,4), of False False new_file_prot] by (simp add: p_def)
  then have op: "m_Open (src_file po) (nested env url) True False False (fresh_world fs) = Some (True, [], (fresh_world fs)\<lparr>w_fs := fs, w_src := p\<rparr>)"
    by (simp add: fresh_world_def assms(2))
  have "get_loop (src_file po) url 0 0 0 [] ((fresh_world fs)\<lparr>w_fs := fs, w_src := p\<rparr>) = Some ([Data []], Crashed)"
    using assms(4) by (subst get_loop.simps) (simp add: FILE_atEOF_def FILE_Read_def fread_def p_def)
  then show ?thesis
    using assms(1) op by (simp add: get_data_def request_ok_def FILE_Size_def Let_def p_def)
qed

theorem get_empty_file_crashes_witness:
  "get_data plain_env (src_file id) ''/a'' False [] [] (fresh_world (one_file ''/a'' [])) = Some ([Data []], Crashed)"
  by (rule get_empty_file_crashes[of _ _ _ "''/a''"]) (simp_all add: request_ok_def plain_env_def one_file_def)

subsection \<open>Documents from an FTP server\<close>

definition kio_error_code :: "kio_error \<Rightarrow> int" where
  "kio_error_code e = (case e of NoError \<Rightarrow> 0 | CouldNotConnect \<Rightarrow> 7 | CouldNotLogin \<Rightarrow> 11 | CouldNotMkdir \<Rightarrow> 13 | FileDoesNotExist \<Rightarrow> 20
     | NotADirectory \<Rightarrow> 21)"

text \<open>\<open>ReOpen\<close> and the permissions are those of \<open>KProtocol\<close>: it opens with the given mode, and knows of no permissions.\<close>

definition ftp_methods :: "(string \<Rightarrow> string) \<Rightarrow> (string \<Rightarrow> ftp_url \<Rightarrow> ftp_url) \<Rightarrow> (string \<Rightarrow> ftp_url) \<Rightarrow> ftp kprotocol" where
  "ftp_methods decodeURL cd parse =
     (let opn = (\<lambda>u rd wr ovr s. map_option (\<lambda>(ok, _, s). (ok, [], s)) (FTP_Open decodeURL cd (parse u) rd wr s))
      in \<lparr>m_Open = opn,
          m_ReOpen = (\<lambda>u. opn u True False False),
          m_prepare = (\<lambda>d c s. s),
          m_Close = FTP_Close,
          m_Read = (\<lambda>n s. Some (FTP_Read n s)),
          m_Write = (\<lambda>t s. Some (FTP_Write t s)),
          m_atEOF = FTP_atEOF,
          m_Size = fsize,
          m_MkDir = (\<lambda>u s. map_option (\<lambda>(ok, _, s). (ok, s)) (FTP_MkDir decodeURL cd (parse u) s)),
          m_Delete = (\<lambda>u s. map_option (\<lambda>(ok, _, s). (ok, s)) (FTP_Delete decodeURL cd (parse u) s)),
          m_GetPermissions = (\<lambda>u s. - 1),
          m_SetPermissions = (\<lambda>u perms s. s),
          m_destroy = delete_ftp,
          m_error = (\<lambda>s. (kio_error_code (lastKError s), []))\<rparr>)"

lemma ftp_method_simps [simp]:
  "m_atEOF (ftp_methods decodeURL cd parse) = FTP_atEOF" "m_Read (ftp_methods decodeURL cd parse) n s = Some (FTP_Read n s)"
  by (simp_all add: ftp_methods_def Let_def)

text \<open>The size is known and what comes is as long as it says.\<close>

definition ftp_good :: "ftp \<Rightarrow> bool" where
  "ftp_good s \<longleftrightarrow> all_data (data_in s) \<and> fbytesleft s = int (length (stream_bytes (data_in s)))"

lemma read_in_data:
  assumes "all_data inp" "0 < n"
  shows "\<exists>t inp'. read_in n inp = (Some t, inp') \<and> all_data inp' \<and> stream_bytes inp = t @ stream_bytes inp' \<and> (inp \<noteq> [] \<longrightarrow> t \<noteq> [])"
proof (cases inp)
  case (Cons p r)
  then obtain c t where p: "p = Some (c # t)" "all_data r" using assms(1) by auto
  show ?thesis
  proof (cases "length (c # t) \<le> n")
    case True
    then show ?thesis using p by (simp add: Cons)
  next
    case False
    then obtain d u where d: "drop n (c # t) = d # u" by (cases "drop n (c # t)") auto
    have "c # t = take n (c # t) @ d # u" using d append_take_drop_id[of n "c # t"] by simp
    then show ?thesis using False p d assms(2) by (auto simp: Cons simp del: take_Cons drop_Cons)
  qed
qed simp

interpretation ftp_get: byte_source "ftp_methods decodeURL cd parse" "\<lambda>s. stream_bytes (data_in s)" ftp_good for decodeURL cd parse
proof (unfold_locales, goal_cases)
  case (1 s)
  then show ?case by (simp add: ftp_good_def FTP_atEOF_def)
next
  case (2 s n)
  obtain t inp' where r: "read_in n (data_in s) = (Some t, inp')" "all_data inp'" "stream_bytes (data_in s) = t @ stream_bytes inp'"
    "data_in s \<noteq> [] \<longrightarrow> t \<noteq> []" using read_in_data[OF _ 2(3), of "data_in s"] 2(1) by (auto simp: ftp_good_def)
  have "data_in s \<noteq> []" using 2(1,2) by (auto simp: ftp_good_def FTP_atEOF_def)
  then show ?case using r 2(1) by (auto simp: FTP_Read_def ftp_good_def)
qed

text \<open>C19: A document from an FTP server of which the size is known and not zero arrives as the server sends it, whatever the packets are, and the loop ends.\<close>

theorem ftp_get_complete:
  assumes "all_data (data_in s)" "fsize s = int (length (stream_bytes (data_in s)))" "fbytesleft s = fsize s" "fsize s \<noteq> 0"
  shows "\<exists>evs s'. get_loop (ftp_methods decodeURL cd parse) url (m_Size (ftp_methods decodeURL cd parse) s) 0 0 [] s = Some (evs, Finished s') \<and>
    data_of evs = stream_bytes (data_in s)"
proof -
  have "ftp_good s" "m_Size (ftp_methods decodeURL cd parse) s \<noteq> 0"
    using assms by (simp_all add: ftp_good_def ftp_methods_def Let_def)
  from ftp_get.get_loop_delivers[OF this, where decodeURL = decodeURL and cd = cd and parse = parse and url = url and c = 0 and lst = 0 and evs = "[]"]
  show ?thesis by auto
qed

definition sending :: "string option list \<Rightarrow> int \<Rightarrow> ftp" where
  "sending inp n = (talking [])\<lparr>data_in := inp, fsize := n, fbytesleft := n\<rparr>"

theorem ftp_get_complete_witness:
  "\<exists>evs s'. get_loop (ftp_methods id (\<lambda>d u. u) (\<lambda>u. some_url)) [] 5 0 0 [] (sending [Some ''ab'', Some ''cde''] 5) = Some (evs, Finished s') \<and> data_of evs = ''abcde''"
  using ftp_get_complete[of "sending [Some ''ab'', Some ''cde''] 5" id "\<lambda>d u. u" "\<lambda>u. some_url" "[]"]
  by (simp add: sending_def ftp_methods_def Let_def)

definition ftp_short :: "ftp kprotocol \<Rightarrow> int \<Rightarrow> ftp \<Rightarrow> bool" where
  "ftp_short pr sz s \<longleftrightarrow> (\<exists>decodeURL cd parse. pr = ftp_methods decodeURL cd parse) \<and> all_data (data_in s) \<and>
     int (length (stream_bytes (data_in s))) < fbytesleft s \<and> sz \<noteq> 0"

lemma ftp_short_read:
  assumes "ftp_short pr sz s"
  shows "\<exists>t s'. m_Read pr 1024 s = Some (int (length t), t, s') \<and> ftp_short pr sz s' \<and> \<not> m_atEOF pr s"
proof -
  obtain t inp' where rd: "read_in 1024 (data_in s) = (Some t, inp')" "all_data inp'" "stream_bytes (data_in s) = t @ stream_bytes inp'"
    using read_in_data[of "data_in s" 1024] assms by (auto simp: ftp_short_def)
  have "FTP_Read 1024 s = (int (length t), t, s\<lparr>data_in := inp', fbytesleft := fbytesleft s - int (length t)\<rparr>)"
    by (simp add: FTP_Read_def rd(1))
  moreover have "ftp_short pr sz (s\<lparr>data_in := inp', fbytesleft := fbytesleft s - int (length t)\<rparr>)"
    using assms rd by (auto simp: ftp_short_def)
  moreover have "\<not> FTP_atEOF s" using assms by (auto simp: ftp_short_def FTP_atEOF_def)
  ultimately show ?thesis using assms by (auto simp: ftp_short_def)
qed

lemma get_loop_short: "get_loop pr url sz c lst evs s = Some r \<Longrightarrow> \<not> ftp_short pr sz s"
proof (rule get_loop.raw_induct[where P = "\<lambda>pr url sz c lst evs s r. \<not> ftp_short pr sz s"], goal_cases)
  case (1 gl pr url sz c lst evs s r)
  show ?case
  proof
    assume sh: "ftp_short pr sz s"
    obtain t s' where rd: "m_Read pr 1024 s = Some (int (length t), t, s')" "ftp_short pr sz s'" "\<not> m_atEOF pr s"
      using ftp_short_read[OF sh] by blast
    have "sz \<noteq> 0" using sh by (simp add: ftp_short_def)
    then obtain p e where "gl pr url sz (c + int (length t)) p e s' = Some r" using 1(3) rd(1,3) by (auto simp: Let_def)
    then show False using 1(2) rd(2) by blast
  qed
qed

text \<open>C20: When the server closes the data connection early, \<open>read\<close> answers 0 for ever, \<open>atEOF\<close> never holds, and the loop of \<open>get\<close> does not end.\<close>

theorem ftp_short_never_ends:
  assumes "all_data (data_in s)" "int (length (stream_bytes (data_in s))) < fbytesleft s" "sz \<noteq> 0"
  shows "get_loop (ftp_methods decodeURL cd parse) url sz c lst evs s = None"
  using get_loop_short[of "ftp_methods decodeURL cd parse" url sz c lst evs s] assms
  by (cases "get_loop (ftp_methods decodeURL cd parse) url sz c lst evs s") (auto simp: ftp_short_def)

theorem ftp_short_never_ends_witness:
  "get_loop (ftp_methods id (\<lambda>d u. u) (\<lambda>u. some_url)) [] 5 0 0 [] (sending [Some ''ab''] 5) = None"
  by (rule ftp_short_never_ends) (simp_all add: sending_def)

text \<open>A server that tells no size: the file seems to be empty.\<close>

lemma ftp_unknown_size_empty:
  "get_loop (ftp_methods decodeURL cd parse) url (- 1) 0 0 [] (sending inp (- 1)) = Some ([], Finished (sending inp (- 1)))"
  by (subst get_loop.simps) (simp add: FTP_atEOF_def sending_def)

end
