(* ===== verification/KioWeb.thy ===== *)
theory KioWeb
  imports KioDeliver HttpSlave
begin

section \<open>The HTTP slave as a source\<close>

text \<open>
  The methods of \<open>KProtocolHTTP\<close> (without SSL) as a protocol on the slave and the bytes that the server still sends, and the contract of a source: a document
  of known or of unknown length arrives complete, and unlike with FTP a connection that ends early is reported.
\<close>

record http_world =
  hw_http :: KProtocolHTTP
  hw_body :: string
  hw_info :: "string list"
  hw_error :: int

text \<open>What the world answers: the host, the clock as it stands at every read, and the prints of numbers.\<close>

record http_env =
  he_agent :: string
  he_match :: "string \<Rightarrow> string \<Rightarrow> bool"
  he_garbage :: char
  he_net :: network
  he_parse :: "string \<Rightarrow> http_url"
  he_elapsed :: int
  he_secs :: int
  he_kbs :: "int \<Rightarrow> string"
  he_hms :: "int \<Rightarrow> string"

definition http_error_code :: "string \<Rightarrow> int" where
  "http_error_code e = (if e = ''CouldNotCreateSocket'' then 4 else if e = ''UnknownHost'' then 5 else if e = ''CouldNotConnect'' then 7
     else if e = ''NotImplemented'' then 10 else 0)"

definition redirection_of :: "http_signal list \<Rightarrow> string" where
  "redirection_of sigs = fold (\<lambda>g r. case g of Sig_redirection u \<Rightarrow> u | _ \<Rightarrow> r) sigs []"

definition error_of :: "http_signal list \<Rightarrow> int" where
  "error_of sigs = fold (\<lambda>g r. case g of Sig_error e m \<Rightarrow> http_error_code e | _ \<Rightarrow> r) sigs 0"

definition http_open :: "http_env \<Rightarrow> bool \<Rightarrow> string \<Rightarrow> bool \<Rightarrow> http_world \<Rightarrow> (bool \<times> string \<times> http_world) option" where
  "http_open env reload u rd w =
     map_option (\<lambda>(ok, h, cmd, sigs, rest). (ok, redirection_of sigs, w\<lparr>hw_http := h, hw_body := rest, hw_error := error_of sigs\<rparr>))
       (OpenHTTP (he_agent env) (he_match env) (he_garbage env) (he_net env) (he_parse env u) (if rd then READ else WRITE) reload (hw_http w))"

text \<open>\<open>fread\<close> on the connection: when it gives nothing, \<open>feof\<close> holds.\<close>

definition http_read :: "http_env \<Rightarrow> nat \<Rightarrow> http_world \<Rightarrow> int \<times> string \<times> http_world" where
  "http_read env n w =
     (if atEOF (hw_http w) then (0, [], w)
      else let t = take n (hw_body w) in
        case Read (he_kbs env) (he_hms env) (he_elapsed env) (he_secs env) (int (length t)) True (hw_http w) of
          (r, h, msg) \<Rightarrow>
            let w = w\<lparr>hw_http := h, hw_body := drop n (hw_body w), hw_info := hw_info w @ (case msg of None \<Rightarrow> [] | Some m \<Rightarrow> [m])\<rparr>
            in (case r of None \<Rightarrow> (- 1, t, w\<lparr>hw_error := 2\<rparr>) | Some l \<Rightarrow> (l, t, w)))"

text \<open>Writing, directories and deleting are those of \<open>KProtocol\<close>: not implemented.\<close>

definition http_methods :: "http_env \<Rightarrow> http_world kprotocol" where
  "http_methods env =
     \<lparr>m_Open = (\<lambda>u rd wr ovr. http_open env False u rd),
      m_ReOpen = (\<lambda>u. http_open env True u True),
      m_prepare = (\<lambda>d c w. w\<lparr>hw_http := SetCookies c (SetData d (hw_http w))\<rparr>),
      m_Close = (\<lambda>w. Some (w\<lparr>hw_http := Close (hw_http w)\<rparr>)),
      m_Read = (\<lambda>n w. Some (http_read env n w)),
      m_Write = (\<lambda>t w. Some (- 1, w\<lparr>hw_error := KIO_ERROR_NotImplemented\<rparr>)),
      m_atEOF = (\<lambda>w. atEOF (hw_http w)),
      m_Size = (\<lambda>w. Size (hw_http w)),
      m_MkDir = (\<lambda>u w. Some (False, w\<lparr>hw_error := KIO_ERROR_NotImplemented\<rparr>)),
      m_Delete = (\<lambda>u w. Some (False, w\<lparr>hw_error := KIO_ERROR_NotImplemented\<rparr>)),
      m_GetPermissions = (\<lambda>u w. - 1),
      m_SetPermissions = (\<lambda>u perms w. w),
      m_destroy = (\<lambda>w. Some (w\<lparr>hw_http := Close (hw_http w)\<rparr>)),
      m_error = (\<lambda>w. (hw_error w, []))\<rparr>"

lemma http_method_simps [simp]:
  "m_atEOF (http_methods env) w = atEOF (hw_http w)" "m_Read (http_methods env) n w = Some (http_read env n w)"
  "m_Size (http_methods env) w = hsize (hw_http w)"
  by (simp_all add: http_methods_def Size_def)

text \<open>The length is known and right, or it is not known.\<close>

definition http_good :: "http_world \<Rightarrow> bool" where
  "http_good w \<longleftrightarrow> (let h = hw_http w; n = int (length (hw_body w))
     in (bytesleft h = n \<and> \<not> m_bEOF h) \<or> (hsize h = UNKNOWN_SIZE \<and> n < bytesleft h \<and> (m_bEOF h \<longrightarrow> n = 0)))"

interpretation http_get: byte_source "http_methods env" hw_body http_good for env
proof (unfold_locales, goal_cases)
  case (1 w)
  then show ?case by (auto simp: http_good_def atEOF_def Let_def)
next
  case (2 w n)
  define t where "t = take n (hw_body w)"
  have b: "hw_body w = t @ drop n (hw_body w)" by (simp add: t_def)
  have lt: "length (hw_body w) = length t + length (drop n (hw_body w))" by (metis b length_append)
  have eof: "\<not> atEOF (hw_http w)" using 2(2) by simp
  obtain r h msg where rd: "Read (he_kbs env) (he_hms env) (he_elapsed env) (he_secs env) (int (length t)) True (hw_http w) = (r, h, msg)"
    by (metis prod_cases3)
  have te: "t = [] \<longleftrightarrow> hw_body w = []" using 2(3) by (auto simp: t_def)
  have h: "hsize h = hsize (hw_http w)" "bytesleft h = bytesleft (hw_http w) - int (length t)"
    "m_bEOF h = (if t = [] then True else m_bEOF (hw_http w))"
    using rd eof by (auto simp: Read_def Let_def split: if_splits)
  have r0: "r = (if m_bEOF h \<and> hsize h \<noteq> UNKNOWN_SIZE \<and> bytesleft h > 0 then None else Some (int (length t)))"
    using rd eof by (auto simp: Read_def Let_def split: if_splits)
  consider (known) "bytesleft (hw_http w) = int (length (hw_body w))" "\<not> m_bEOF (hw_http w)"
    | (unknown) "hsize (hw_http w) = UNKNOWN_SIZE" "int (length (hw_body w)) < bytesleft (hw_http w)"
    using 2(1) by (auto simp: http_good_def Let_def)
  then have ok: "r = Some (int (length t)) \<and> (bytesleft h = int (length (drop n (hw_body w))) \<and> \<not> m_bEOF h \<or>
      hsize h = UNKNOWN_SIZE \<and> int (length (drop n (hw_body w))) < bytesleft h \<and> (m_bEOF h \<longrightarrow> drop n (hw_body w) = []))"
  proof cases
    case known
    then have "hw_body w \<noteq> []" using eof by (auto simp: atEOF_def)
    then have "\<not> m_bEOF h" using h(3) te known(2) by simp
    then show ?thesis using r0 h(2) known(1) unfolding lt by simp
  next
    case unknown
    have "m_bEOF h \<longrightarrow> drop n (hw_body w) = []" using h(3) te eof by (auto simp: atEOF_def)
    then show ?thesis using r0 h(1,2) unknown unfolding lt by simp
  qed
  then have r: "r = Some (int (length t))" by simp
  define w' where "w' = w\<lparr>hw_http := h, hw_body := drop n (hw_body w), hw_info := hw_info w @ (case msg of None \<Rightarrow> [] | Some m \<Rightarrow> [m])\<rparr>"
  have "http_read env n w = (int (length t), t, w')"
    using eof rd r by (simp add: http_read_def t_def[symmetric] w'_def Let_def)
  moreover have "http_good w'"
    using ok by (auto simp: http_good_def w'_def Let_def)
  moreover have "t \<noteq> [] \<or> atEOF h" using h(3) by (auto simp: atEOF_def)
  ultimately show ?case using b by (auto simp: w'_def)
qed

text \<open>The data of a document from an HTTP server arrive complete, and the loop ends, when the length that the header told is that of the document, and
  also when no length was told.\<close>

theorem http_get_complete:
  assumes "\<not> m_bEOF (hw_http w)" "hsize (hw_http w) \<noteq> 0"
    and "bytesleft (hw_http w) = int (length (hw_body w)) \<or> (hsize (hw_http w) = UNKNOWN_SIZE \<and> int (length (hw_body w)) < bytesleft (hw_http w))"
  shows "\<exists>evs w'. get_loop (http_methods env) url (m_Size (http_methods env) w) 0 0 [] w = Some (evs, Finished w') \<and> data_of evs = hw_body w"
proof -
  have "http_good w" "m_Size (http_methods env) w \<noteq> 0" using assms by (auto simp: http_good_def Let_def)
  from http_get.get_loop_delivers[OF this, where env = env and url = url and c = 0 and lst = 0 and evs = "[]"] show ?thesis by auto
qed

lemma http_read_short:
  assumes "\<not> m_bEOF (hw_http w)" "hsize (hw_http w) \<noteq> UNKNOWN_SIZE" "int (length (hw_body w)) < bytesleft (hw_http w)" "0 < n"
  shows "\<exists>h i. http_read env n w = (if hw_body w = [] then (- 1, [], w\<lparr>hw_http := h, hw_info := i, hw_error := 2\<rparr>)
      else (int (length (take n (hw_body w))), take n (hw_body w), w\<lparr>hw_http := h, hw_body := drop n (hw_body w), hw_info := i\<rparr>)) \<and>
    (hw_body w \<noteq> [] \<longrightarrow> \<not> m_bEOF h) \<and> hsize h \<noteq> UNKNOWN_SIZE \<and> bytesleft h = bytesleft (hw_http w) - int (length (take n (hw_body w)))"
proof -
  define t where "t = take n (hw_body w)"
  have eof: "\<not> atEOF (hw_http w)" using assms(1,3) by (auto simp: atEOF_def)
  obtain r h msg where rd: "Read (he_kbs env) (he_hms env) (he_elapsed env) (he_secs env) (int (length t)) True (hw_http w) = (r, h, msg)"
    by (metis prod_cases3)
  have te: "t = [] \<longleftrightarrow> hw_body w = []" using assms(4) by (auto simp: t_def)
  have h: "hsize h \<noteq> UNKNOWN_SIZE" "bytesleft h = bytesleft (hw_http w) - int (length t)" "m_bEOF h \<longleftrightarrow> t = []"
    using rd eof assms(1,2) by (auto simp: Read_def Let_def split: if_splits)
  have "length t \<le> length (hw_body w)" by (simp add: t_def)
  then have pos: "bytesleft h > 0" using h(2) assms(3) by linarith
  have r: "r = (if t = [] then None else Some (int (length t)))"
    using rd eof assms(1,2) pos h by (auto simp: Read_def Let_def split: if_splits)
  define i where "i = hw_info w @ (case msg of None \<Rightarrow> [] | Some m \<Rightarrow> [m])"
  have "http_read env n w = (if hw_body w = [] then (- 1, [], w\<lparr>hw_http := h, hw_info := i, hw_error := 2\<rparr>)
      else (int (length t), t, w\<lparr>hw_http := h, hw_body := drop n (hw_body w), hw_info := i\<rparr>))"
    using eof rd r te by (auto simp: http_read_def t_def[symmetric] i_def[symmetric] Let_def)
  then show ?thesis using h te by (auto simp: t_def)
qed

text \<open>C22: When an HTTP server closes the connection before the length it told, the data that came are passed on and then an error is reported: the loop
  ends, unlike that for FTP.\<close>

theorem http_short_reported:
  assumes "\<not> m_bEOF (hw_http w)" "hsize (hw_http w) \<noteq> UNKNOWN_SIZE" "int (length (hw_body w)) < bytesleft (hw_http w)" "sz \<noteq> 0"
  shows "\<exists>evs' w'. get_loop (http_methods env) url sz c lst evs w = Some (evs' @ [Fatal 2 url], Failed w') \<and> data_of evs' = data_of evs @ hw_body w"
  using assms(1-3)
proof (induction "length (hw_body w)" arbitrary: w c lst evs rule: less_induct)
  case less
  have eof: "\<not> atEOF (hw_http w)" using less(2,4) by (auto simp: atEOF_def)
  obtain h i where rd: "http_read env 1024 w = (if hw_body w = [] then (- 1, [], w\<lparr>hw_http := h, hw_info := i, hw_error := 2\<rparr>)
      else (int (length (take 1024 (hw_body w))), take 1024 (hw_body w), w\<lparr>hw_http := h, hw_body := drop 1024 (hw_body w), hw_info := i\<rparr>))"
    "hw_body w \<noteq> [] \<longrightarrow> \<not> m_bEOF h" "hsize h \<noteq> UNKNOWN_SIZE" "bytesleft h = bytesleft (hw_http w) - int (length (take 1024 (hw_body w)))"
    using http_read_short[OF less(2-4), of 1024 env] by auto
  show ?case
  proof (cases "hw_body w = []")
    case True
    then have "get_loop (http_methods env) url sz c lst evs w = Some (evs @ [Fatal 2 url], Failed (w\<lparr>hw_http := h, hw_info := i, hw_error := 2\<rparr>))"
      using eof rd(1) by (subst get_loop.simps) (simp add: ProcessError_def http_methods_def KIO_ERROR_MalformedURL_def)
    then show ?thesis using True by auto
  next
    case False
    define t where "t = take 1024 (hw_body w)"
    define w1 where "w1 = w\<lparr>hw_http := h, hw_body := drop 1024 (hw_body w), hw_info := i\<rparr>"
    define p where "p = (c + int (length t)) * 100 sdiv sz"
    define e where "e = evs @ [Data t] @ (if p \<noteq> lst then [Progress p] else [])"
    have b: "hw_body w = t @ hw_body w1" by (simp add: t_def w1_def)
    have "get_loop (http_methods env) url sz c lst evs w = get_loop (http_methods env) url sz (c + int (length t)) p e w1"
      using eof rd(1) False assms(4) by (subst get_loop.simps) (simp add: t_def[symmetric] w1_def[symmetric] p_def e_def Let_def)
    moreover have "length (hw_body w1) < length (hw_body w)" using False by (simp add: w1_def)
    moreover have "int (length (hw_body w1)) < bytesleft (hw_http w1)"
      using less(4) rd(4) by (simp add: w1_def)
    moreover have "\<not> m_bEOF (hw_http w1)" "hsize (hw_http w1) \<noteq> UNKNOWN_SIZE" using rd(2,3) False by (simp_all add: w1_def)
    ultimately obtain evs' w' where "get_loop (http_methods env) url sz c lst evs w = Some (evs' @ [Fatal 2 url], Failed w')"
      "data_of evs' = data_of e @ hw_body w1" using less(1)[of w1 "c + int (length t)" p e] by auto
    moreover have "data_of e = data_of evs @ t" by (simp add: e_def)
    ultimately show ?thesis using b by auto
  qed
qed

definition some_http_env :: http_env where
  "some_http_env = \<lparr>he_agent = ''agent'', he_match = (\<lambda>p h. True), he_garbage = NUL, he_net = sample_net, he_parse = (\<lambda>u. sample_url),
     he_elapsed = 0, he_secs = 0, he_kbs = (\<lambda>n. []), he_hms = (\<lambda>n. [])\<rparr>"

definition arriving :: "string \<Rightarrow> int \<Rightarrow> http_world" where
  "arriving t n = \<lparr>hw_http = sample_http\<lparr>hsize := n, bytesleft := n\<rparr>, hw_body = t, hw_info = [], hw_error = 0\<rparr>"

lemma arriving_fields [simp]:
  "m_bEOF (hw_http (arriving t n)) = False" "hsize (hw_http (arriving t n)) = n" "bytesleft (hw_http (arriving t n)) = n" "hw_body (arriving t n) = t"
  by (simp_all add: arriving_def sample_http_def new_http_def Let_def)

theorem http_get_complete_witness:
  "\<exists>evs w'. get_loop (http_methods some_http_env) [] UNKNOWN_SIZE 0 0 [] (arriving ''text'' UNKNOWN_SIZE) = Some (evs, Finished w') \<and> data_of evs = ''text''"
  using http_get_complete[of "arriving ''text'' UNKNOWN_SIZE" some_http_env "[]"] by (simp add: UNKNOWN_SIZE_def)

theorem http_short_reported_witness:
  "\<exists>evs' w'. get_loop (http_methods some_http_env) ''u'' 9 0 0 [] (arriving ''text'' 9) = Some (evs' @ [Fatal 2 ''u''], Failed w') \<and> data_of evs' = ''text''"
  using http_short_reported[of "arriving ''text'' 9" 9 some_http_env "''u''" 0 0 "[]"] by (simp add: UNKNOWN_SIZE_def)

subsection \<open>The choice of a slave\<close>

text \<open>\<open>manage.cpp\<close>. A URL is the list of its parts, separated by the sign for a sub protocol; the last one is the nested URL and the others are the parent.\<close>

definition HaveProto :: "string \<Rightarrow> bool" where
  "HaveProto url \<longleftrightarrow> at0 url = CHR ''/'' \<or> strncmp_eq url ''ftp:'' 4 \<or> strncmp_eq url ''tar:'' 4 \<or> strncmp_eq url ''file:'' 5 \<or>
     strncmp_eq url ''http:'' 5 \<or> strncmp_eq url ''https:'' 5 \<or> strncmp_eq url ''cgi:'' 4 \<or> strncmp_eq url ''gzip:'' 5 \<or> strncmp_eq url ''icon:'' 5"

function ProtocolSupported :: "string list \<Rightarrow> bool" where
  "ProtocolSupported u =
     (if u = [] \<or> \<not> HaveProto (last u) then False
      else let u = (if length u > 1 then butlast u else u) in if length u > 1 then ProtocolSupported u else True)"
  by pat_completeness auto

termination ProtocolSupported
  by (relation "measure length") (auto split: if_splits)

declare ProtocolSupported.simps [simp del]

datatype slave_class = SlaveFILE | SlaveHTTP | SlaveFTP | SlaveProxyFTP | SlaveCGI | SlaveICON | SlaveGZIP | SlaveTAR

definition slave_of :: "bool \<Rightarrow> string \<Rightarrow> slave_class option" where
  "slave_of do_proxy lasturl =
     (if at0 lasturl = CHR ''/'' then Some SlaveFILE
      else if strncmp_eq lasturl ''file:'' 5 then Some SlaveFILE
      else if strncmp_eq lasturl ''http:'' 5 then Some SlaveHTTP
      else if strncmp_eq lasturl ''https:'' 5 then Some SlaveHTTP
      else if strncmp_eq lasturl ''ftp:'' 4 then Some (if do_proxy then SlaveProxyFTP else SlaveFTP)
      else if strncmp_eq lasturl ''cgi:'' 4 then Some SlaveCGI
      else if strncmp_eq lasturl ''icon:'' 4 then Some SlaveICON
      else if strncmp_eq lasturl ''gzip:'' 5 then Some SlaveGZIP
      else if strncmp_eq lasturl ''tar:'' 4 then Some SlaveTAR
      else None)"

text \<open>\<open>CreateProtocol\<close>: the first \<open>None\<close> is a read outside of a string in \<open>revmatch\<close>, the second no slave.\<close>

definition CreateProtocol :: "bool \<Rightarrow> string \<Rightarrow> string \<Rightarrow> string \<Rightarrow> string \<Rightarrow> string list \<Rightarrow> slave_class option option" where
  "CreateProtocol bad_url noPrxFor usePrxStr prxStr host u =
     (if bad_url \<or> u = [] then Some None
      else do {
        do_proxy \<leftarrow> (if usePrxStr = ''Yes'' \<and> prxStr \<noteq> []
          then if noPrxFor \<noteq> [] then map_option Not (revmatch host noPrxFor) else Some True else Some False);
        Some (slave_of do_proxy (last u)) })"

lemma strncmp_icon: "strncmp_eq s ''icon:'' 5 \<Longrightarrow> strncmp_eq s ''icon:'' 4"
  unfolding strncmp_eq_def by (drule arg_cong[of _ _ "take 4"]) simp

text \<open>Each protocol that is accepted has its slave.\<close>

lemma accepted_has_slave: "HaveProto url \<Longrightarrow> slave_of do_proxy url \<noteq> None"
  unfolding HaveProto_def slave_of_def by (auto dest: strncmp_icon)

text \<open>The loop stops before the first part of a URL that has sub protocols: it is not tested, against the comment that every sub protocol is seen.\<close>

lemma outermost_not_tested:
  assumes "us \<noteq> []"
  shows "ProtocolSupported (u # us) \<longleftrightarrow> list_all HaveProto us"
  using assms
proof (induction us rule: rev_induct)
  case (snoc x us)
  then show ?case
    by (cases "us = []") (auto simp: ProtocolSupported.simps[of "u # us @ [x]"] ProtocolSupported.simps[of "[u, x]"] butlast_append)
qed simp

end
