(* ===== verification/TermImage.thy ===== *)
theory TermImage
  imports Prelude
begin

section \<open>The terminal konsole: cells and the memory of an image\<close>

text \<open>
  \<open>konsole/src/TECommon.h\<close>: a cell of the screen, and the colours and rendition flags. An array on the heap
  is a list; reading or writing outside of it, and a \<open>memmove\<close> with a negative length (which C turns into a
  length of nearly \<open>2 ^ 64\<close>), is undefined behaviour and gives \<open>None\<close>. Then the two operations of
  \<open>TEScreen\<close> on image addresses, \<open>clearImage\<close> and \<open>moveImage\<close>, and their effect on each address.
\<close>

type_synonym u8 = "8 word"

record ca =
  ca_c :: char
  ca_f :: u8
  ca_b :: u8
  ca_r :: u8

definition BASE_COLORS :: u8 where "BASE_COLORS = 2 + 8"
definition DEFAULT_FORE_COLOR :: u8 where "DEFAULT_FORE_COLOR = 0"
definition DEFAULT_BACK_COLOR :: u8 where "DEFAULT_BACK_COLOR = 1"
definition DEFAULT_RENDITION :: u8 where "DEFAULT_RENDITION = 0"
definition RE_BOLD :: u8 where "RE_BOLD = 1"
definition RE_BLINK :: u8 where "RE_BLINK = 2"
definition RE_UNDERLINE :: u8 where "RE_UNDERLINE = 4"
definition RE_REVERSE :: u8 where "RE_REVERSE = 8"

text \<open>The blank cell that \<open>resizeImage\<close>, the history and \<open>getCookedImage\<close> use.\<close>

definition dft :: ca where
  "dft = \<lparr>ca_c = SP, ca_f = DEFAULT_FORE_COLOR, ca_b = DEFAULT_BACK_COLOR, ca_r = DEFAULT_RENDITION\<rparr>"

definition reverseRendition :: "ca \<Rightarrow> ca" where
  "reverseRendition p = p\<lparr>ca_f := ca_b p, ca_b := ca_f p\<rparr>"

lemma reverseRendition_twice [simp]: "reverseRendition (reverseRendition p) = p"
  by (simp add: reverseRendition_def)

lemma reverseRendition_char [simp]: "ca_c (reverseRendition p) = ca_c p"
  by (simp add: reverseRendition_def)

subsection \<open>Access to an array\<close>

definition read_at :: "int \<Rightarrow> 'a list \<Rightarrow> 'a option" where
  "read_at i xs = (if 0 \<le> i \<and> i < int (length xs) then Some (xs ! nat i) else None)"

definition write_at :: "int \<Rightarrow> 'a \<Rightarrow> 'a list \<Rightarrow> 'a list option" where
  "write_at i v xs = (if 0 \<le> i \<and> i < int (length xs) then Some (xs[nat i := v]) else None)"

fun fill_from :: "nat \<Rightarrow> int \<Rightarrow> 'a \<Rightarrow> 'a list \<Rightarrow> 'a list option" where
  "fill_from 0 i v xs = Some xs"
| "fill_from (Suc n) i v xs = do { xs1 \<leftarrow> write_at i v xs; fill_from n (i + 1) v xs1 }"

text \<open>The loop of \<open>clearImage\<close>: \<open>for (i = loca; i <= loce; i++)\<close>.\<close>

definition clear_cells :: "int \<Rightarrow> int \<Rightarrow> 'a \<Rightarrow> 'a list \<Rightarrow> 'a list option" where
  "clear_cells loca loce v xs = fill_from (nat (loce - loca + 1)) loca v xs"

text \<open>\<open>memmove(&image[dst], &image[loca], (loce - loca + 1) * sizeof(ca))\<close>.\<close>

definition move_cells :: "int \<Rightarrow> int \<Rightarrow> int \<Rightarrow> 'a list \<Rightarrow> 'a list option" where
  "move_cells dst loca loce xs =
     (let n = loce - loca + 1
      in if n < 0 then None
         else if n = 0 then Some xs
         else if 0 \<le> loca \<and> loce < int (length xs) \<and> 0 \<le> dst \<and> dst + n \<le> int (length xs)
         then Some (take (nat dst) xs @ take (nat n) (drop (nat loca) xs) @ drop (nat (dst + n)) xs)
         else None)"

lemma read_at_Some: "0 \<le> i \<Longrightarrow> i < int (length xs) \<Longrightarrow> read_at i xs = Some (xs ! nat i)"
  by (simp add: read_at_def)

lemma write_at_Some: "0 \<le> i \<Longrightarrow> i < int (length xs) \<Longrightarrow> write_at i v xs = Some (xs[nat i := v])"
  by (simp add: write_at_def)

lemma fill_from_length: "fill_from n i v xs = Some ys \<Longrightarrow> length ys = length xs"
  by (induction n arbitrary: i xs) (auto simp: write_at_def split: Option.bind_splits if_splits)

lemma fill_from_Some:
  assumes "n = 0 \<or> (0 \<le> i \<and> i + int n \<le> int (length xs))"
  shows "\<exists>ys. fill_from n i v xs = Some ys \<and> length ys = length xs \<and>
    (\<forall>k. 0 \<le> k \<and> k < int (length xs) \<longrightarrow> ys ! nat k = (if i \<le> k \<and> k < i + int n then v else xs ! nat k))"
  using assms
proof (induction n arbitrary: i xs)
  case (Suc n)
  have w: "write_at i v xs = Some (xs[nat i := v])" using Suc.prems by (intro write_at_Some) auto
  have "n = 0 \<or> (0 \<le> i + 1 \<and> i + 1 + int n \<le> int (length (xs[nat i := v])))" using Suc.prems by auto
  from Suc.IH[OF this] obtain ys where ys: "fill_from n (i + 1) v (xs[nat i := v]) = Some ys" "length ys = length xs"
    "\<forall>k. 0 \<le> k \<and> k < int (length xs) \<longrightarrow>
      ys ! nat k = (if i + 1 \<le> k \<and> k < i + 1 + int n then v else xs[nat i := v] ! nat k)"
    by auto
  have "ys ! nat k = (if i \<le> k \<and> k < i + int (Suc n) then v else xs ! nat k)" if "0 \<le> k" "k < int (length xs)" for k
    using ys(3) that Suc.prems by (cases "k = i") (auto simp: nth_list_update nat_eq_iff2)
  then show ?case
    using w ys by auto
qed auto

lemma fill_from_None:
  "0 < n \<Longrightarrow> i < 0 \<or> int (length xs) < i + int n \<Longrightarrow> fill_from n i v xs = None"
proof (induction n arbitrary: i xs)
  case (Suc n)
  show ?case
  proof (cases "0 \<le> i \<and> i < int (length xs)")
    case True
    then have "0 < n" using Suc.prems by (cases n) auto
    then have "fill_from n (i + 1) v (xs[nat i := v]) = None" using Suc.prems True by (intro Suc.IH) auto
    then show ?thesis using True by (simp add: write_at_def)
  qed (auto simp: write_at_def)
qed simp

subsection \<open>The effect on each address\<close>

text \<open>\<open>ys\<close> is \<open>xs\<close> with the cell at \<open>k\<close> given by \<open>f k\<close>.\<close>

definition cells_by :: "(int \<Rightarrow> 'a) \<Rightarrow> 'a list \<Rightarrow> 'a list \<Rightarrow> bool" where
  "cells_by f xs ys \<longleftrightarrow> length ys = length xs \<and> (\<forall>k. 0 \<le> k \<and> k < int (length xs) \<longrightarrow> ys ! nat k = f k)"

lemma clear_cells_ok:
  assumes "loce < loca \<or> (0 \<le> loca \<and> loce < int (length xs))"
  obtains ys where "clear_cells loca loce v xs = Some ys"
    "cells_by (\<lambda>k. if loca \<le> k \<and> k \<le> loce then v else xs ! nat k) xs ys"
proof -
  have "nat (loce - loca + 1) = 0 \<or> (0 \<le> loca \<and> loca + int (nat (loce - loca + 1)) \<le> int (length xs))"
    using assms by auto
  from fill_from_Some[OF this, of v] show ?thesis
    by (auto intro!: that simp: clear_cells_def cells_by_def)
qed

lemma clear_cells_bad:
  "loca \<le> loce \<Longrightarrow> loca < 0 \<or> int (length xs) \<le> loce \<Longrightarrow> clear_cells loca loce v xs = None"
  unfolding clear_cells_def by (rule fill_from_None) auto

lemma clear_cells_Some:
  "(\<exists>ys. clear_cells loca loce v xs = Some ys) \<longleftrightarrow> loce < loca \<or> (0 \<le> loca \<and> loce < int (length xs))"
proof (cases "loce < loca \<or> (0 \<le> loca \<and> loce < int (length xs))")
  case True
  then show ?thesis using clear_cells_ok[OF True, of v] by metis
next
  case False
  then show ?thesis using clear_cells_bad[of loca loce xs v] by auto
qed

lemma move_cells_ok:
  assumes "loce - loca + 1 = 0 \<or>
    (loca \<le> loce \<and> 0 \<le> loca \<and> loce < int (length xs) \<and> 0 \<le> dst \<and> dst + (loce - loca) < int (length xs))"
  obtains ys where "move_cells dst loca loce xs = Some ys"
    "cells_by (\<lambda>k. if dst \<le> k \<and> k \<le> dst + (loce - loca) then xs ! nat (k - dst + loca) else xs ! nat k) xs ys"
proof (cases "loce - loca + 1 = 0")
  case True
  then show ?thesis
    by (intro that[of xs]) (auto simp: move_cells_def cells_by_def)
next
  case False
  define n where "n = nat (loce - loca + 1)"
  define d where "d = nat dst"
  define l where "l = nat loca"
  have r: "loce = int l + int n - 1" "loca = int l" "dst = int d" "0 < n" "l + n \<le> length xs" "d + n \<le> length xs"
    using assms False by (auto simp: n_def d_def l_def)
  define ys where "ys = take d xs @ take n (drop l xs) @ drop (d + n) xs"
  have len: "length ys = length xs" using r by (simp add: ys_def)
  have nth: "ys ! k = (if d \<le> k \<and> k < d + n then xs ! (k - d + l) else xs ! k)" if "k < length xs" for k
  proof -
    have "length (take d xs) = d" "length (take n (drop l xs)) = n" using r by auto
    with that r show ?thesis by (auto simp: ys_def nth_append add.commute simp del: length_take)
  qed
  have "move_cells dst loca loce xs = Some ys"
    using r by (simp add: move_cells_def Let_def ys_def nat_add_distrib)
  moreover have "cells_by (\<lambda>k. if dst \<le> k \<and> k \<le> dst + (loce - loca) then xs ! nat (k - dst + loca) else xs ! nat k) xs ys"
    unfolding cells_by_def
  proof (intro conjI allI impI)
    fix k assume k: "0 \<le> k \<and> k < int (length xs)"
    define m where "m = nat k"
    have km: "k = int m" "m < length xs" using k by (auto simp: m_def)
    show "ys ! nat k = (if dst \<le> k \<and> k \<le> dst + (loce - loca) then xs ! nat (k - dst + loca) else xs ! nat k)"
      using nth[OF km(2)] r km(1) by (auto simp: nat_add_distrib nat_diff_distrib)
  qed (simp add: len)
  ultimately show ?thesis by (rule that)
qed

lemma move_cells_bad:
  "loce - loca + 1 < 0 \<or> (loca \<le> loce \<and> (loca < 0 \<or> int (length xs) \<le> loce \<or> dst < 0 \<or> int (length xs) \<le> dst + (loce - loca)))
   \<Longrightarrow> move_cells dst loca loce xs = None"
  by (auto simp: move_cells_def Let_def)

lemma cells_by_length: "cells_by f xs ys \<Longrightarrow> length ys = length xs"
  by (simp add: cells_by_def)

lemma cells_by_nth: "cells_by f xs ys \<Longrightarrow> 0 \<le> k \<Longrightarrow> k < int (length xs) \<Longrightarrow> ys ! nat k = f k"
  by (simp add: cells_by_def)

lemma clear_cells_length: "clear_cells loca loce v xs = Some ys \<Longrightarrow> length ys = length xs"
  unfolding clear_cells_def by (rule fill_from_length)

lemma move_cells_length: "move_cells dst loca loce xs = Some ys \<Longrightarrow> length ys = length xs"
  by (auto simp: move_cells_def Let_def split: if_splits)

end
