(* ===== verification/TermScreen.thy ===== *)
theory TermScreen
  imports TermImage
begin

section \<open>The terminal konsole: the screen\<close>

text \<open>
  \<open>konsole/src/TEScreen.C\<close>: the image that the emulation manipulates, with cursor, margins, tab stops,
  character sets, rendition, selection and history. An operation that accesses an array gives \<open>None\<close>
  when the access is outside of it. The C type \<open>int\<close> is \<open>int\<close>; the sums in which a parameter of an escape
  sequence takes part wrap at 32 bits (\<open>w32\<close>), as these parameters are not checked by the caller. Sums
  of positions of the screen alone do not overflow for screens of a size that \<open>scr_ok\<close> admits.
\<close>

abbreviation w32 :: "int \<Rightarrow> int" where "w32 \<equiv> to_int32"

text \<open>The modes of the screen, and behind them those of \<open>TEmuVt102.h\<close>.\<close>

datatype mode =
    MODE_Origin | MODE_Wrap | MODE_Insert | MODE_Screen | MODE_Cursor | MODE_NewLine
  | MODE_AppScreen | MODE_AppCuKeys | MODE_AppKeyPad | MODE_Mouse1000 | MODE_Ansi | MODE_BsHack

record screen =
  tabstops :: "bool list"
  charset :: "char list"
  cu_cs :: int
  graphic :: bool
  pound :: bool
  cu_fg :: u8
  cu_bg :: u8
  cu_re :: u8
  ef_fg :: u8
  ef_bg :: u8
  ef_re :: u8
  cuX :: int
  cuY :: int
  sa_graphic :: bool
  sa_pound :: bool
  sa_cu_re :: u8
  sa_cu_fg :: u8
  sa_cu_bg :: u8
  sa_cuX :: int
  sa_cuY :: int
  bmargin :: int
  tmargin :: int
  currParm :: "mode \<Rightarrow> bool"
  saveParm :: "mode \<Rightarrow> bool"
  lines :: int
  columns :: int
  img :: "ca list"
  histCursor :: int
  histLines :: int
  histMaxLines :: int
  histBuffer :: "ca list list"
  sel_begin :: int
  sel_TL :: int
  sel_BR :: int

definition loc :: "screen \<Rightarrow> int \<Rightarrow> int \<Rightarrow> int" where
  "loc s x y = y * columns s + x"

text \<open>\<open>if (n == 0) n = 1; // Default\<close>\<close>

definition dflt1 :: "int \<Rightarrow> int" where
  "dflt1 n = (if n = 0 then 1 else n)"

subsection \<open>Cursor\<close>

definition cursorUp :: "int \<Rightarrow> screen \<Rightarrow> screen" where
  "cursorUp n s =
     (let n = dflt1 n; stop = (if cuY s < tmargin s then 0 else tmargin s)
      in s\<lparr>cuX := min (columns s - 1) (cuX s), cuY := max stop (w32 (cuY s - n))\<rparr>)"

definition cursorDown :: "int \<Rightarrow> screen \<Rightarrow> screen" where
  "cursorDown n s =
     (let n = dflt1 n; stop = (if cuY s > bmargin s then lines s - 1 else bmargin s)
      in s\<lparr>cuX := min (columns s - 1) (cuX s), cuY := min stop (w32 (cuY s + n))\<rparr>)"

definition cursorLeft :: "int \<Rightarrow> screen \<Rightarrow> screen" where
  "cursorLeft n s =
     (let n = dflt1 n in s\<lparr>cuX := max 0 (w32 (min (columns s - 1) (cuX s) - n))\<rparr>)"

definition cursorRight :: "int \<Rightarrow> screen \<Rightarrow> screen" where
  "cursorRight n s = (let n = dflt1 n in s\<lparr>cuX := min (columns s - 1) (w32 (cuX s + n))\<rparr>)"

definition getMode :: "mode \<Rightarrow> screen \<Rightarrow> bool" where
  "getMode m s = currParm s m"

definition setMargins :: "int \<Rightarrow> int \<Rightarrow> screen \<Rightarrow> screen" where
  "setMargins tp bt s =
     (let tp = (if tp = 0 then 1 else tp);
          bt = (if bt = 0 then lines s else bt);
          tp = w32 (tp - 1);
          bt = w32 (bt - 1)
      in if \<not> (0 \<le> tp \<and> tp < bt \<and> bt < lines s) then s
         else s\<lparr>tmargin := tp, bmargin := bt, cuX := 0, cuY := if getMode MODE_Origin s then tp else 0\<rparr>)"

definition setCursorX :: "int \<Rightarrow> screen \<Rightarrow> screen" where
  "setCursorX x s = s\<lparr>cuX := max 0 (min (columns s - 1) (w32 (dflt1 x - 1)))\<rparr>"

definition setCursorY :: "int \<Rightarrow> screen \<Rightarrow> screen" where
  "setCursorY y s = s\<lparr>cuY := max 0 (min (lines s - 1)
     (w32 (w32 (dflt1 y - 1) + (if getMode MODE_Origin s then tmargin s else 0))))\<rparr>"

definition setCursorYX :: "int \<Rightarrow> int \<Rightarrow> screen \<Rightarrow> screen" where
  "setCursorYX y x s = setCursorX x (setCursorY y s)"

definition home :: "screen \<Rightarrow> screen" where
  "home s = s\<lparr>cuX := 0, cuY := 0\<rparr>"

definition Return :: "screen \<Rightarrow> screen" where
  "Return s = s\<lparr>cuX := 0\<rparr>"

text \<open>\<open>BS_CLEARS\<close> is \<open>FALSE\<close>.\<close>

definition BackSpace :: "screen \<Rightarrow> screen" where
  "BackSpace s = s\<lparr>cuX := max 0 (cuX s - 1)\<rparr>"

subsection \<open>Erasing, moving and scrolling\<close>

definition clearSelection :: "screen \<Rightarrow> screen" where
  "clearSelection s = s\<lparr>sel_BR := -1, sel_TL := -1, sel_begin := -1\<rparr>"

text \<open>The cell that erasing writes.\<close>

definition blank :: "char \<Rightarrow> screen \<Rightarrow> ca" where
  "blank c s = \<lparr>ca_c = c, ca_f = ef_fg s, ca_b = ef_bg s, ca_r = ef_re s\<rparr>"

definition clearImage :: "int \<Rightarrow> int \<Rightarrow> char \<Rightarrow> screen \<Rightarrow> screen option" where
  "clearImage loca loce c s =
     (let scr_TL = loc s 0 (histCursor s);
          s1 = (if sel_BR s > loca + scr_TL \<and> sel_TL s < loce + scr_TL then clearSelection s else s)
      in do { im \<leftarrow> clear_cells loca loce (blank c s) (img s1); Some (s1\<lparr>img := im\<rparr>) })"

definition moveImage :: "int \<Rightarrow> int \<Rightarrow> int \<Rightarrow> screen \<Rightarrow> screen option" where
  "moveImage dst loca loce s = do { im \<leftarrow> move_cells dst loca loce (img s); Some (s\<lparr>img := im\<rparr>) }"

definition scrollUp :: "int \<Rightarrow> int \<Rightarrow> screen \<Rightarrow> screen option" where
  "scrollUp from n s =
     (if n \<le> 0 \<or> w32 (from + n) > bmargin s then Some s
      else do {
        s \<leftarrow> moveImage (loc s 0 from) (loc s 0 (from + n)) (loc s (columns s - 1) (bmargin s)) s;
        s \<leftarrow> clearImage (loc s 0 (bmargin s - n + 1)) (loc s (columns s - 1) (bmargin s)) SP s;
        Some (if from = 0 \<and> sel_begin s \<ge> 0
              then s\<lparr>sel_TL := sel_TL s - (n - from) * columns s, sel_BR := sel_BR s - (n - from) * columns s\<rparr>
              else clearSelection s) })"

definition scrollDown :: "int \<Rightarrow> int \<Rightarrow> screen \<Rightarrow> screen option" where
  "scrollDown from n s =
     (if n \<le> 0 then Some s
      else if from > bmargin s then Some s
      else let n = (if w32 (from + n) > bmargin s then bmargin s - from else n) in do {
        s \<leftarrow> moveImage (loc s 0 (from + n)) (loc s 0 from) (loc s (columns s - 1) (bmargin s - n)) s;
        s \<leftarrow> clearImage (loc s 0 from) (loc s (columns s - 1) (from + n - 1)) SP s;
        Some (if from = 0 \<and> sel_begin s \<ge> 0
              then s\<lparr>sel_TL := sel_TL s + (n - from) * columns s, sel_BR := sel_BR s + (n - from) * columns s\<rparr>
              else clearSelection s) })"

definition eraseChars :: "int \<Rightarrow> screen \<Rightarrow> screen option" where
  "eraseChars n s =
     (let n = dflt1 n; p = max 0 (min (w32 (w32 (cuX s + n) - 1)) (columns s - 1))
      in clearImage (loc s (cuX s) (cuY s)) (loc s p (cuY s)) SP s)"

definition deleteChars :: "int \<Rightarrow> screen \<Rightarrow> screen option" where
  "deleteChars n s =
     (let n = dflt1 n; p = max 0 (min (w32 (cuX s + n)) (columns s - 1)); q = w32 (columns s - n)
      in do {
        s \<leftarrow> moveImage (loc s (cuX s) (cuY s)) (loc s p (cuY s)) (loc s (columns s - 1) (cuY s)) s;
        clearImage (loc s q (cuY s)) (loc s (columns s - 1) (cuY s)) SP s })"

definition insertChars :: "int \<Rightarrow> screen \<Rightarrow> screen option" where
  "insertChars n s =
     (let n = dflt1 n;
          p = max 0 (min (w32 (columns s - 1 - n)) (columns s - 1));
          q = max 0 (min (w32 (cuX s + n)) (columns s - 1))
      in do {
        s \<leftarrow> moveImage (loc s q (cuY s)) (loc s (cuX s) (cuY s)) (loc s p (cuY s)) s;
        clearImage (loc s (cuX s) (cuY s)) (loc s (q - 1) (cuY s)) SP s })"

definition deleteLines :: "int \<Rightarrow> screen \<Rightarrow> screen option" where
  "deleteLines n s = scrollUp (cuY s) (dflt1 n) s"

definition insertLines :: "int \<Rightarrow> screen \<Rightarrow> screen option" where
  "insertLines n s = scrollDown (cuY s) (dflt1 n) s"

definition clearToEndOfScreen :: "screen \<Rightarrow> screen option" where
  "clearToEndOfScreen s = clearImage (loc s (cuX s) (cuY s)) (loc s (columns s - 1) (lines s - 1)) SP s"

definition clearToBeginOfScreen :: "screen \<Rightarrow> screen option" where
  "clearToBeginOfScreen s = clearImage (loc s 0 0) (loc s (cuX s) (cuY s)) SP s"

definition clearEntireScreen :: "screen \<Rightarrow> screen option" where
  "clearEntireScreen s = clearImage (loc s 0 0) (loc s (columns s - 1) (lines s - 1)) SP s"

definition helpAlign :: "screen \<Rightarrow> screen option" where
  "helpAlign s = clearImage (loc s 0 0) (loc s (columns s - 1) (lines s - 1)) (CHR ''E'') s"

definition clearToEndOfLine :: "screen \<Rightarrow> screen option" where
  "clearToEndOfLine s = clearImage (loc s (cuX s) (cuY s)) (loc s (columns s - 1) (cuY s)) SP s"

definition clearToBeginOfLine :: "screen \<Rightarrow> screen option" where
  "clearToBeginOfLine s = clearImage (loc s 0 (cuY s)) (loc s (cuX s) (cuY s)) SP s"

definition clearEntireLine :: "screen \<Rightarrow> screen option" where
  "clearEntireLine s = clearImage (loc s 0 (cuY s)) (loc s (columns s - 1) (cuY s)) SP s"

subsection \<open>Modes, rendition, character sets\<close>

definition setMode :: "mode \<Rightarrow> screen \<Rightarrow> screen" where
  "setMode m s = (let s = s\<lparr>currParm := (currParm s)(m := True)\<rparr>
     in case m of MODE_Origin \<Rightarrow> s\<lparr>cuX := 0, cuY := tmargin s\<rparr> | _ \<Rightarrow> s)"

definition resetMode :: "mode \<Rightarrow> screen \<Rightarrow> screen" where
  "resetMode m s = (let s = s\<lparr>currParm := (currParm s)(m := False)\<rparr>
     in case m of MODE_Origin \<Rightarrow> s\<lparr>cuX := 0, cuY := 0\<rparr> | _ \<Rightarrow> s)"

definition saveMode :: "mode \<Rightarrow> screen \<Rightarrow> screen" where
  "saveMode m s = s\<lparr>saveParm := (saveParm s)(m := currParm s m)\<rparr>"

definition restoreMode :: "mode \<Rightarrow> screen \<Rightarrow> screen" where
  "restoreMode m s = s\<lparr>currParm := (currParm s)(m := saveParm s m)\<rparr>"

definition effectiveRendition :: "screen \<Rightarrow> screen" where
  "effectiveRendition s =
     (let re = and (cu_re s) (or RE_UNDERLINE RE_BLINK);
          (fg, bg) = (if and (cu_re s) RE_REVERSE \<noteq> 0 then (cu_bg s, cu_fg s) else (cu_fg s, cu_bg s));
          fg = (if and (cu_re s) RE_BOLD \<noteq> 0 then fg + BASE_COLORS else fg)
      in s\<lparr>ef_re := re, ef_fg := fg, ef_bg := bg\<rparr>)"

definition setRendition :: "u8 \<Rightarrow> screen \<Rightarrow> screen" where
  "setRendition re s = effectiveRendition (s\<lparr>cu_re := or (cu_re s) re\<rparr>)"

definition resetRendition :: "u8 \<Rightarrow> screen \<Rightarrow> screen" where
  "resetRendition re s = effectiveRendition (s\<lparr>cu_re := and (cu_re s) (not re)\<rparr>)"

definition table_color :: "int \<Rightarrow> u8" where
  "table_color color = word_of_int (color mod 8 + (if (color div 8) mod 2 = 1 then 4 + 8 else 2))"

definition setForeColor :: "int \<Rightarrow> screen \<Rightarrow> screen" where
  "setForeColor fgcolor s = effectiveRendition (s\<lparr>cu_fg := table_color fgcolor\<rparr>)"

definition setBackColor :: "int \<Rightarrow> screen \<Rightarrow> screen" where
  "setBackColor bgcolor s = effectiveRendition (s\<lparr>cu_bg := table_color bgcolor\<rparr>)"

definition setBackColorToDefault :: "screen \<Rightarrow> screen" where
  "setBackColorToDefault s = effectiveRendition (s\<lparr>cu_bg := DEFAULT_BACK_COLOR\<rparr>)"

definition setForeColorToDefault :: "screen \<Rightarrow> screen" where
  "setForeColorToDefault s = effectiveRendition (s\<lparr>cu_fg := DEFAULT_FORE_COLOR\<rparr>)"

definition setDefaultRendition :: "screen \<Rightarrow> screen" where
  "setDefaultRendition s =
     effectiveRendition ((setBackColorToDefault (setForeColorToDefault s))\<lparr>cu_re := DEFAULT_RENDITION\<rparr>)"

definition saveCursor :: "screen \<Rightarrow> screen" where
  "saveCursor s = s\<lparr>sa_cuX := cuX s, sa_cuY := cuY s, sa_graphic := graphic s, sa_pound := pound s,
     sa_cu_re := cu_re s, sa_cu_fg := cu_fg s, sa_cu_bg := cu_bg s\<rparr>"

definition restoreCursor :: "screen \<Rightarrow> screen" where
  "restoreCursor s = effectiveRendition
     (s\<lparr>cuX := min (sa_cuX s) (columns s - 1), cuY := min (sa_cuY s) (lines s - 1), graphic := sa_graphic s,
        pound := sa_pound s, cu_re := sa_cu_re s, cu_fg := sa_cu_fg s, cu_bg := sa_cu_bg s\<rparr>)"

text \<open>\<open>n & 3\<close> is \<open>n mod 4\<close>, also for a negative \<open>n\<close>.\<close>

definition useCharset :: "int \<Rightarrow> screen \<Rightarrow> screen" where
  "useCharset n s = s\<lparr>cu_cs := n mod 4, graphic := charset s ! nat (n mod 4) = CHR ''0'',
     pound := charset s ! nat (n mod 4) = CHR ''A''\<rparr>"

definition setCharset :: "int \<Rightarrow> char \<Rightarrow> screen \<Rightarrow> screen" where
  "setCharset n cs s = (let s = s\<lparr>charset := (charset s)[nat (n mod 4) := cs]\<rparr> in useCharset (cu_cs s) s)"

definition setAndUseCharset :: "int \<Rightarrow> char \<Rightarrow> screen \<Rightarrow> screen" where
  "setAndUseCharset n cs s = useCharset (n mod 4) (s\<lparr>charset := (charset s)[nat (n mod 4) := cs]\<rparr>)"

subsection \<open>History, new lines, characters\<close>

definition setHistMaxLines :: "int \<Rightarrow> screen \<Rightarrow> screen" where
  "setHistMaxLines maxlines s = (if maxlines < histMaxLines s then s else s\<lparr>histMaxLines := maxlines\<rparr>)"

definition setHistCursor :: "int \<Rightarrow> screen \<Rightarrow> screen" where
  "setHistCursor cursor s = s\<lparr>histCursor := cursor\<rparr>"

text \<open>The first line of the image, less the blank cells at its end.\<close>

definition first_line :: "screen \<Rightarrow> ca list" where
  "first_line s = rev (dropWhile (\<lambda>c. c = dft) (rev (take (nat (columns s)) (img s))))"

definition addHistLine :: "screen \<Rightarrow> screen" where
  "addHistLine s =
     (if histMaxLines s = 0 then s
      else if histLines s \<ge> histMaxLines s
      then let cursor = (if histCursor s = 0 then histLines s else histCursor s);
               cursor = (if histLines s \<noteq> cursor then cursor - 1 else cursor)
           in s\<lparr>histCursor := cursor, histBuffer := tl (histBuffer s) @ [first_line s]\<rparr>
      else let s1 = s\<lparr>histCursor := (if histLines s = histCursor s then histCursor s + 1 else histCursor s),
                      histLines := histLines s + 1, histBuffer := histBuffer s @ [first_line s]\<rparr>
           in if sel_TL s > 0
              then s1\<lparr>sel_TL := sel_TL s + columns s, sel_BR := sel_BR s + columns s, sel_begin := sel_begin s + columns s\<rparr>
              else s1)"

definition index :: "screen \<Rightarrow> screen option" where
  "index s =
     (if cuY s \<ge> bmargin s
      then let s = (if tmargin s = 0 \<and> bmargin s = lines s - 1 then addHistLine s else s)
           in scrollUp (tmargin s) 1 s
      else Some (s\<lparr>cuY := cuY s + 1\<rparr>))"

definition reverseIndex :: "screen \<Rightarrow> screen option" where
  "reverseIndex s =
     (if cuY s \<le> tmargin s then scrollDown (tmargin s) 1 s else Some (s\<lparr>cuY := cuY s - 1\<rparr>))"

definition NextLine :: "screen \<Rightarrow> screen option" where
  "NextLine s = index (Return s)"

definition NewLine :: "screen \<Rightarrow> screen option" where
  "NewLine s = index (if getMode MODE_NewLine s then Return s else s)"

text \<open>The graphical and the pound character set.\<close>

definition charset_char :: "screen \<Rightarrow> char \<Rightarrow> char" where
  "charset_char s c =
     (let c = (if graphic s \<and> 0x5f \<le> code c \<and> code c \<le> 0x7e
               then (if code c = 0x5f then char_of (0x7f :: nat) else char_of (code c - 0x5f)) else c)
      in if pound s \<and> c = CHR ''#'' then CHR 0xA3 else c)"

definition put_char :: "char \<Rightarrow> screen \<Rightarrow> screen option" where
  "put_char c s =
     (let i = loc s (cuX s) (cuY s); j = i + histCursor s * columns s
      in do {
        old \<leftarrow> read_at i (img s);
        let s = (if j \<le> sel_BR s \<and> j \<ge> sel_TL s \<and> c \<noteq> ca_c old then clearSelection s else s);
        im \<leftarrow> write_at i (blank c s) (img s);
        Some (s\<lparr>img := im, cuX := cuX s + 1\<rparr>) })"

definition ShowCharacter :: "char \<Rightarrow> screen \<Rightarrow> screen option" where
  "ShowCharacter c s = do {
     s \<leftarrow> (if cuX s \<ge> columns s then (if getMode MODE_Wrap s then NextLine s else Some (s\<lparr>cuX := columns s - 1\<rparr>)) else Some s);
     let c = charset_char s c;
     s \<leftarrow> (if getMode MODE_Insert s then insertChars 1 s else Some s);
     put_char c s }"

subsection \<open>Tab stops\<close>

definition initTabStops :: "screen \<Rightarrow> screen" where
  "initTabStops s = s\<lparr>tabstops := map (\<lambda>i. i mod 8 = 0 \<and> i \<noteq> 0) [0..<nat (columns s)]\<rparr>"

definition clearTabStops :: "screen \<Rightarrow> screen option" where
  "clearTabStops s = do {
     tabs \<leftarrow> foldl (\<lambda>t i. Option.bind t (write_at (i - 1) False)) (Some (tabstops s)) [0..columns s - 1];
     Some (s\<lparr>tabstops := tabs\<rparr>) }"

definition changeTabStop :: "bool \<Rightarrow> screen \<Rightarrow> screen option" where
  "changeTabStop b s =
     (if cuX s \<ge> columns s then Some s
      else do { tabs \<leftarrow> write_at (cuX s) b (tabstops s); Some (s\<lparr>tabstops := tabs\<rparr>) })"

text \<open>\<open>while (cuX < columns-1 && !tabstops[cuX]) cursorRight(1)\<close>\<close>

function tab_loop :: "bool list \<Rightarrow> int \<Rightarrow> int \<Rightarrow> int option" where
  "tab_loop tabs cols x =
     (if x < cols - 1
      then do { stop \<leftarrow> read_at x tabs; if stop then Some x else tab_loop tabs cols (x + 1) }
      else Some x)"
  by pat_completeness auto
termination
  by (relation "measure (\<lambda>(tabs, cols, x). nat (cols - x))") auto

declare tab_loop.simps [simp del]

definition Tabulate :: "screen \<Rightarrow> screen option" where
  "Tabulate s = (let s = cursorRight 1 s in do {
     x \<leftarrow> tab_loop (tabstops s) (columns s) (cuX s);
     Some (s\<lparr>cuX := x\<rparr>) })"

subsection \<open>The whole screen\<close>

definition clear :: "screen \<Rightarrow> screen option" where
  "clear s = do { s \<leftarrow> clearEntireScreen s; Some (home s) }"

definition reset :: "screen \<Rightarrow> screen option" where
  "reset s =
     (let s = saveMode MODE_Wrap (setMode MODE_Wrap s);
          s = saveMode MODE_Origin (resetMode MODE_Origin s);
          s = saveMode MODE_Origin (resetMode MODE_Insert s);
          s = setMode MODE_Cursor s;
          s = resetMode MODE_Screen s;
          s = resetMode MODE_NewLine s;
          s = s\<lparr>tmargin := 0, bmargin := lines s - 1, cu_cs := 0, charset := ''BBBB'', graphic := False, pound := False\<rparr>
      in clear (saveCursor (setDefaultRendition s)))"

text \<open>The constructor; \<open>g\<close> is what the memory of the object holds before, \<open>mem\<close> that of the image.\<close>

definition TEScreen :: "screen \<Rightarrow> (nat \<Rightarrow> ca) \<Rightarrow> int \<Rightarrow> int \<Rightarrow> screen option" where
  "TEScreen g mem lns cols =
     reset (clearSelection ((initTabStops (g\<lparr>lines := lns, columns := cols, img := map mem [0..<nat (lns * cols)]\<rparr>))
       \<lparr>histBuffer := [], histLines := 0, histCursor := 0, histMaxLines := 0\<rparr>))"

definition resized :: "int \<Rightarrow> int \<Rightarrow> screen \<Rightarrow> ca list" where
  "resized new_lines new_columns s =
     concat (map (\<lambda>y. map (\<lambda>x.
         if y < min new_lines (lines s) \<and> x < min new_columns (columns s) then img s ! nat (loc s x y) else dft)
       [0..new_columns - 1]) [0..new_lines - 1])"

definition resizeImage :: "int \<Rightarrow> int \<Rightarrow> screen \<Rightarrow> screen" where
  "resizeImage new_lines new_columns s =
     (let s1 = clearSelection s;
          s2 = s1\<lparr>img := resized new_lines new_columns s1, lines := new_lines, columns := new_columns,
                  cuX := min (cuX s1) (new_columns - 1), cuY := min (cuY s1) (new_lines - 1),
                  tmargin := 0, bmargin := new_lines - 1\<rparr>
      in clearSelection (initTabStops s2))"

text \<open>
  \<open>getCookedImage\<close>: the lines from the history come first, then those of the image; a line of the history
  that is shorter than the screen is filled up. \<open>None\<close> is a read or a write outside of an array.
\<close>

definition cooked_cell :: "screen \<Rightarrow> int \<Rightarrow> int \<Rightarrow> ca option" where
  "cooked_cell s y x =
     (let q = x + (y + histCursor s) * columns s in do {
        c \<leftarrow> (if y < histLines s - histCursor s
              then do { l \<leftarrow> read_at (y + histCursor s) (histBuffer s);
                        Some (if x < min (columns s) (int (length l)) then l ! nat x else dft) }
              else read_at (x + (y - histLines s + histCursor s) * columns s) (img s));
        Some (if q \<ge> sel_TL s \<and> q \<le> sel_BR s then reverseRendition c else c) })"

definition getCookedImage :: "screen \<Rightarrow> ca list option" where
  "getCookedImage s =
     (let k = histLines s - histCursor s in
      if k < 0 then None
      else do {
        merged \<leftarrow> those (map (\<lambda>(y, x). cooked_cell s y x)
                    (List.product [0..lines s - 1] [0..columns s - 1]));
        let merged = (if getMode MODE_Screen s then map reverseRendition merged else merged);
        if getMode MODE_Cursor s \<and> cuY s + k < lines s
        then do { c \<leftarrow> read_at (loc s (cuX s) (cuY s + k)) merged;
                  write_at (loc s (cuX s) (cuY s + k)) (reverseRendition c) merged }
        else Some merged })"

subsection \<open>Selection\<close>

definition setSelBeginXY :: "int \<Rightarrow> int \<Rightarrow> screen \<Rightarrow> screen" where
  "setSelBeginXY x y s = (let b = loc s x (y + histCursor s) in s\<lparr>sel_begin := b, sel_BR := b, sel_TL := b\<rparr>)"

definition setSelExtentXY :: "int \<Rightarrow> int \<Rightarrow> screen \<Rightarrow> screen" where
  "setSelExtentXY x y s =
     (let l = loc s x (y + histCursor s)
      in if l < sel_begin s then s\<lparr>sel_TL := l, sel_BR := sel_begin s\<rparr>
         else s\<lparr>sel_TL := sel_begin s, sel_BR := (if x = columns s \<or> x = 0 then l - 1 else l)\<rparr>)"

end
