(* ===== verification/TermInv.thy ===== *)
theory TermInv
  imports TermScreen
begin

section \<open>The terminal konsole: the invariant of the screen\<close>

text \<open>
  What always holds of a screen, and that each operation keeps it and accesses no memory outside of
  the arrays. Operations that redraw the image change it and the selection only (\<open>redrawn\<close>).
\<close>

named_theorems scr_fields "fields that an operation of the screen leaves as they were"

definition scr_ok :: "screen \<Rightarrow> bool" where
  "scr_ok s \<longleftrightarrow>
     1 \<le> lines s \<and> lines s < 2 ^ 15 \<and> 1 \<le> columns s \<and> columns s < 2 ^ 15 \<and>
     int (length (img s)) = lines s * columns s \<and> int (length (tabstops s)) = columns s \<and> length (charset s) = 4 \<and>
     0 \<le> cuX s \<and> cuX s \<le> columns s \<and> 0 \<le> cuY s \<and> cuY s < lines s \<and> 0 \<le> sa_cuX s \<and> 0 \<le> sa_cuY s \<and>
     0 \<le> tmargin s \<and> bmargin s < lines s \<and> (tmargin s < bmargin s \<or> tmargin s = 0 \<and> bmargin s = lines s - 1) \<and>
     0 \<le> histMaxLines s \<and> histLines s \<le> histMaxLines s \<and> int (length (histBuffer s)) = histLines s \<and>
     0 \<le> histCursor s \<and> histCursor s \<le> histLines s"

text \<open>A parameter of an escape sequence that is not so big that a sum with it wraps.\<close>

definition arg_ok :: "int \<Rightarrow> bool" where
  "arg_ok n \<longleftrightarrow> 0 \<le> n \<and> n < 2 ^ 30"

definition redrawn :: "screen \<Rightarrow> screen \<Rightarrow> bool" where
  "redrawn s t \<longleftrightarrow> length (img t) = length (img s) \<and>
     t = s\<lparr>img := img t, sel_begin := sel_begin t, sel_TL := sel_TL t, sel_BR := sel_BR t\<rparr>"

lemma redrawn_refl [simp]: "redrawn s s"
  by (simp add: redrawn_def)

lemma redrawn_fields:
  assumes "redrawn s t"
  shows "lines t = lines s" "columns t = columns s" "cuX t = cuX s" "cuY t = cuY s" "tmargin t = tmargin s"
    "bmargin t = bmargin s" "histCursor t = histCursor s" "histLines t = histLines s" "histBuffer t = histBuffer s"
    "histMaxLines t = histMaxLines s" "tabstops t = tabstops s" "charset t = charset s" "sa_cuX t = sa_cuX s"
    "sa_cuY t = sa_cuY s" "ef_fg t = ef_fg s" "ef_bg t = ef_bg s" "ef_re t = ef_re s" "currParm t = currParm s"
    "graphic t = graphic s" "pound t = pound s" "length (img t) = length (img s)" "blank c t = blank c s" "loc t = loc s"
proof -
  have eq: "t = s\<lparr>img := img t, sel_begin := sel_begin t, sel_TL := sel_TL t, sel_BR := sel_BR t\<rparr>"
    using assms by (simp add: redrawn_def)
  show "lines t = lines s" "columns t = columns s" "cuX t = cuX s" "cuY t = cuY s" "tmargin t = tmargin s"
    "bmargin t = bmargin s" "histCursor t = histCursor s" "histLines t = histLines s" "histBuffer t = histBuffer s"
    "histMaxLines t = histMaxLines s" "tabstops t = tabstops s" "charset t = charset s" "sa_cuX t = sa_cuX s"
    "sa_cuY t = sa_cuY s" "ef_fg t = ef_fg s" "ef_bg t = ef_bg s" "ef_re t = ef_re s" "currParm t = currParm s"
    "graphic t = graphic s" "pound t = pound s"
    by (subst eq, simp)+
  then show "blank c t = blank c s" "loc t = loc s" by (simp_all add: blank_def loc_def fun_eq_iff)
qed (use assms in \<open>simp add: redrawn_def\<close>)

lemma redrawn_trans:
  assumes "redrawn s t" "redrawn t u"
  shows "redrawn s u"
proof -
  show ?thesis
    using assms by (cases s; cases t; cases u) (simp add: redrawn_def)
qed

lemma redrawn_ok: "scr_ok s \<Longrightarrow> redrawn s t \<Longrightarrow> scr_ok t"
  using redrawn_fields[of s t] by (simp add: scr_ok_def)

lemma redrawn_sel: "redrawn s (s\<lparr>sel_TL := a, sel_BR := b\<rparr>)" "redrawn s (clearSelection s)"
  by (simp_all add: redrawn_def clearSelection_def)

subsection \<open>Places\<close>

lemma loc_nonneg: "0 \<le> x \<Longrightarrow> 0 \<le> y \<Longrightarrow> 0 \<le> columns s \<Longrightarrow> 0 \<le> loc s x y"
  by (simp add: loc_def)

lemma loc_less:
  assumes "scr_ok s" "x < columns s" "y < lines s"
  shows "loc s x y < int (length (img s))"
proof -
  have "y * columns s + columns s \<le> lines s * columns s"
    using assms mult_right_mono[of "y + 1" "lines s" "columns s"] by (simp add: scr_ok_def algebra_simps)
  then show ?thesis using assms by (simp add: scr_ok_def loc_def)
qed

text \<open>A place is given by its column and line.\<close>

lemma loc_le_iff:
  assumes "0 \<le> x" "x < columns s" "0 \<le> x'" "x' < columns s"
  shows "loc s x y \<le> loc s x' y' \<longleftrightarrow> y < y' \<or> (y = y' \<and> x \<le> x')"
proof -
  have less: "loc s a b < loc s a' b'" if "b < b'" "a < columns s" "0 \<le> a'" for a b a' b'
  proof -
    have "b * columns s + columns s \<le> b' * columns s"
      using that assms(1,2) mult_right_mono[of "b + 1" b' "columns s"] by (simp add: algebra_simps)
    then show ?thesis using that by (simp add: loc_def)
  qed
  consider "y < y'" | "y = y'" | "y' < y" by linarith
  then show ?thesis
    using less[of y y' x x'] less[of y' y x' x] assms by cases (auto simp: loc_def)
qed

lemma loc_inverse:
  assumes "0 < columns s"
  shows "loc s (k mod columns s) (k div columns s) = k"
  by (simp add: loc_def)

lemma place_of:
  assumes "scr_ok s" "0 \<le> k" "k < int (length (img s))"
  obtains x y where "k = loc s x y" "0 \<le> x" "x < columns s" "0 \<le> y" "y < lines s"
proof
  show "k = loc s (k mod columns s) (k div columns s)" using assms by (simp add: loc_inverse scr_ok_def)
  show "0 \<le> k mod columns s" "k mod columns s < columns s" using assms by (simp_all add: scr_ok_def)
  show "0 \<le> k div columns s" using assms by (simp add: scr_ok_def pos_imp_zdiv_nonneg_iff)
  show "k div columns s < lines s"
  proof -
    have "0 < columns s" "k < lines s * columns s" using assms by (simp_all add: scr_ok_def)
    moreover have "k div columns s * columns s \<le> k" using \<open>0 < columns s\<close> by (simp add: minus_mod_eq_div_mult [symmetric])
    ultimately have "k div columns s * columns s < lines s * columns s" by linarith
    then show ?thesis using \<open>0 < columns s\<close> by (simp add: mult_less_cancel_right)
  qed
qed

subsection \<open>Redrawing\<close>

lemma clearImage_ok:
  assumes "loce < loca \<or> (0 \<le> loca \<and> loce < int (length (img s)))"
  obtains t where "clearImage loca loce c s = Some t" "redrawn s t"
    "cells_by (\<lambda>k. if loca \<le> k \<and> k \<le> loce then blank c s else img s ! nat k) (img s) (img t)"
proof -
  obtain ys where ys: "clear_cells loca loce (blank c s) (img s) = Some ys"
    "cells_by (\<lambda>k. if loca \<le> k \<and> k \<le> loce then blank c s else img s ! nat k) (img s) ys"
    by (rule clear_cells_ok[OF assms])
  define u where "u = (if sel_BR s > loca + loc s 0 (histCursor s) \<and> sel_TL s < loce + loc s 0 (histCursor s)
    then clearSelection s else s)"
  have "clearImage loca loce c s = Some (u\<lparr>img := ys\<rparr>)"
    using ys(1) by (simp add: clearImage_def u_def Let_def clearSelection_def)
  moreover have "redrawn s (u\<lparr>img := ys\<rparr>)"
    using cells_by_length[OF ys(2)] by (cases s) (simp add: redrawn_def u_def clearSelection_def)
  ultimately show ?thesis by (rule that) (simp add: ys(2))
qed

lemma clearImage_None:
  "loca \<le> loce \<Longrightarrow> loca < 0 \<or> int (length (img s)) \<le> loce \<Longrightarrow> clearImage loca loce c s = None"
  by (simp add: clearImage_def Let_def clear_cells_bad clearSelection_def)

lemma moveImage_ok:
  assumes "loce - loca + 1 = 0 \<or>
    (loca \<le> loce \<and> 0 \<le> loca \<and> loce < int (length (img s)) \<and> 0 \<le> dst \<and> dst + (loce - loca) < int (length (img s)))"
  obtains t where "moveImage dst loca loce s = Some t" "redrawn s t"
    "cells_by (\<lambda>k. if dst \<le> k \<and> k \<le> dst + (loce - loca) then img s ! nat (k - dst + loca) else img s ! nat k) (img s) (img t)"
proof -
  obtain ys where ys: "move_cells dst loca loce (img s) = Some ys"
    "cells_by (\<lambda>k. if dst \<le> k \<and> k \<le> dst + (loce - loca) then img s ! nat (k - dst + loca) else img s ! nat k) (img s) ys"
    by (rule move_cells_ok[OF assms])
  have "moveImage dst loca loce s = Some (s\<lparr>img := ys\<rparr>)" by (simp add: moveImage_def ys)
  moreover have "redrawn s (s\<lparr>img := ys\<rparr>)"
    using cells_by_length[OF ys(2)] by (simp add: redrawn_def)
  ultimately show ?thesis by (rule that) (simp add: ys(2))
qed

lemma moveImage_None:
  "loce - loca + 1 < 0 \<or> (loca \<le> loce \<and> (loca < 0 \<or> int (length (img s)) \<le> loce \<or> dst < 0 \<or>
     int (length (img s)) \<le> dst + (loce - loca))) \<Longrightarrow> moveImage dst loca loce s = None"
  by (simp add: moveImage_def move_cells_bad)

subsection \<open>What a redrawing operation does to each cell\<close>

definition cell :: "screen \<Rightarrow> int \<Rightarrow> int \<Rightarrow> ca" where
  "cell s x y = img s ! nat (loc s x y)"

definition on_screen :: "screen \<Rightarrow> int \<Rightarrow> int \<Rightarrow> bool" where
  "on_screen s x y \<longleftrightarrow> 0 \<le> x \<and> x < columns s \<and> 0 \<le> y \<and> y < lines s"

text \<open>\<open>t\<close> is \<open>s\<close> with the cell at column \<open>x\<close> and line \<open>y\<close> given by \<open>f x y\<close>.\<close>

definition drawn :: "(int \<Rightarrow> int \<Rightarrow> ca) \<Rightarrow> screen \<Rightarrow> screen \<Rightarrow> bool" where
  "drawn f s t \<longleftrightarrow> redrawn s t \<and> (\<forall>x y. on_screen s x y \<longrightarrow> cell t x y = f x y)"

lemma drawn_redrawn: "drawn f s t \<Longrightarrow> redrawn s t"
  by (simp add: drawn_def)

lemma drawn_cell: "drawn f s t \<Longrightarrow> on_screen s x y \<Longrightarrow> cell t x y = f x y"
  by (simp add: drawn_def)

lemma drawn_ok: "scr_ok s \<Longrightarrow> drawn f s t \<Longrightarrow> scr_ok t"
  by (auto simp: drawn_def intro: redrawn_ok)

lemma cells_by_cell:
  assumes "scr_ok s" "redrawn s t" "cells_by f (img s) (img t)" "on_screen s x y"
  shows "cell t x y = f (loc s x y)"
  using cells_by_nth[OF assms(3), of "loc s x y"] loc_nonneg[of x y s] loc_less[OF assms(1), of x y] assms
  by (simp add: cell_def redrawn_fields(23)[OF assms(2)] on_screen_def scr_ok_def)

lemma drawn_sel:
  "drawn f s t \<Longrightarrow> drawn f s (t\<lparr>sel_TL := a, sel_BR := b\<rparr>)"
  "drawn f s t \<Longrightarrow> drawn f s (clearSelection t)"
proof -
  show "drawn f s (t\<lparr>sel_TL := a, sel_BR := b\<rparr>)" if "drawn f s t"
    using that redrawn_trans[OF drawn_redrawn[OF that] redrawn_sel(1)[where a = a and b = b]]
    by (simp add: drawn_def cell_def loc_def)
  show "drawn f s (clearSelection t)" if "drawn f s t"
    using that redrawn_trans[OF drawn_redrawn[OF that] redrawn_sel(2)]
    by (simp add: drawn_def cell_def loc_def clearSelection_def)
qed

lemma clearImage_drawn:
  assumes ok: "scr_ok s" and range: "on_screen s x1 y1" "on_screen s x2 y2"
  obtains t where "clearImage (loc s x1 y1) (loc s x2 y2) c s = Some t"
    "drawn (\<lambda>x y. if (y1 < y \<or> y1 = y \<and> x1 \<le> x) \<and> (y < y2 \<or> y = y2 \<and> x \<le> x2) then blank c s else cell s x y) s t"
proof -
  have "loc s x2 y2 < loc s x1 y1 \<or> (0 \<le> loc s x1 y1 \<and> loc s x2 y2 < int (length (img s)))"
    using loc_nonneg[of x1 y1 s] loc_less[OF ok, of x2 y2] ok range by (auto simp: scr_ok_def on_screen_def)
  then obtain t where t: "clearImage (loc s x1 y1) (loc s x2 y2) c s = Some t" "redrawn s t"
    "cells_by (\<lambda>k. if loc s x1 y1 \<le> k \<and> k \<le> loc s x2 y2 then blank c s else img s ! nat k) (img s) (img t)"
    by (rule clearImage_ok)
  have "drawn (\<lambda>x y. if (y1 < y \<or> y1 = y \<and> x1 \<le> x) \<and> (y < y2 \<or> y = y2 \<and> x \<le> x2) then blank c s else cell s x y) s t"
    unfolding drawn_def
  proof (intro conjI allI impI)
    fix x y assume xy: "on_screen s x y"
    show "cell t x y = (if (y1 < y \<or> y1 = y \<and> x1 \<le> x) \<and> (y < y2 \<or> y = y2 \<and> x \<le> x2) then blank c s else cell s x y)"
      using cells_by_cell[OF ok t(2,3) xy] loc_le_iff[of x1 s x y1 y] loc_le_iff[of x s x2 y y2] xy range
      by (simp add: on_screen_def cell_def)
  qed (fact t(2))
  with t(1) show ?thesis by (rule that)
qed

text \<open>Moving a block of whole lines.\<close>

lemma moveImage_lines:
  assumes ok: "scr_ok s" and range: "0 \<le> y1" "y1 \<le> y2" "y2 < lines s" "0 \<le> d" "d + (y2 - y1) < lines s"
  obtains t where "moveImage (loc s 0 d) (loc s 0 y1) (loc s (columns s - 1) y2) s = Some t"
    "drawn (\<lambda>x y. if d \<le> y \<and> y \<le> d + (y2 - y1) then cell s x (y - d + y1) else cell s x y) s t"
proof -
  have c: "1 \<le> columns s" using ok by (simp add: scr_ok_def)
  have dst: "loc s 0 d + (loc s (columns s - 1) y2 - loc s 0 y1) = loc s (columns s - 1) (d + (y2 - y1))"
    by (simp add: loc_def algebra_simps)
  have "loc s 0 y1 \<le> loc s (columns s - 1) y2 \<and> 0 \<le> loc s 0 y1 \<and> loc s (columns s - 1) y2 < int (length (img s)) \<and>
    0 \<le> loc s 0 d \<and> loc s 0 d + (loc s (columns s - 1) y2 - loc s 0 y1) < int (length (img s))"
    unfolding dst using c range loc_le_iff[of 0 s "columns s - 1" y1 y2] loc_nonneg[of 0 y1 s] loc_nonneg[of 0 d s]
      loc_less[OF ok, of "columns s - 1" y2] loc_less[OF ok, of "columns s - 1" "d + (y2 - y1)"] by auto
  then obtain t where t: "moveImage (loc s 0 d) (loc s 0 y1) (loc s (columns s - 1) y2) s = Some t" "redrawn s t"
    "cells_by (\<lambda>k. if loc s 0 d \<le> k \<and> k \<le> loc s (columns s - 1) (d + (y2 - y1))
       then img s ! nat (k - loc s 0 d + loc s 0 y1) else img s ! nat k) (img s) (img t)"
    using moveImage_ok[of "loc s (columns s - 1) y2" "loc s 0 y1" s "loc s 0 d"] unfolding dst by blast
  have "drawn (\<lambda>x y. if d \<le> y \<and> y \<le> d + (y2 - y1) then cell s x (y - d + y1) else cell s x y) s t"
    unfolding drawn_def
  proof (intro conjI allI impI)
    fix x y assume xy: "on_screen s x y"
    have "loc s x y - loc s 0 d + loc s 0 y1 = loc s x (y - d + y1)" by (simp add: loc_def algebra_simps)
    then show "cell t x y = (if d \<le> y \<and> y \<le> d + (y2 - y1) then cell s x (y - d + y1) else cell s x y)"
      using cells_by_cell[OF ok t(2,3) xy] loc_le_iff[of 0 s x d y]
        loc_le_iff[of x s "columns s - 1" y "d + (y2 - y1)"] xy c
      by (auto simp: on_screen_def cell_def)
  qed (fact t(2))
  with t(1) show ?thesis by (rule that)
qed

text \<open>Moving a part of one line.\<close>

lemma moveImage_part:
  assumes ok: "scr_ok s" and range: "0 \<le> y" "y < lines s" "0 \<le> a" "b < columns s" "a \<le> b" "0 \<le> d" "d + (b - a) < columns s"
  obtains t where "moveImage (loc s d y) (loc s a y) (loc s b y) s = Some t"
    "drawn (\<lambda>x z. if z = y \<and> d \<le> x \<and> x \<le> d + (b - a) then cell s (x - d + a) y else cell s x z) s t"
proof -
  have dst: "loc s d y + (loc s b y - loc s a y) = loc s (d + (b - a)) y"
    by (simp add: loc_def)
  have "loc s a y \<le> loc s b y \<and> 0 \<le> loc s a y \<and> loc s b y < int (length (img s)) \<and>
    0 \<le> loc s d y \<and> loc s d y + (loc s b y - loc s a y) < int (length (img s))"
    unfolding dst using range ok loc_nonneg[of a y s] loc_nonneg[of d y s]
      loc_less[OF ok, of b y] loc_less[OF ok, of "d + (b - a)" y] by (auto simp: scr_ok_def loc_def)
  then obtain t where t: "moveImage (loc s d y) (loc s a y) (loc s b y) s = Some t" "redrawn s t"
    "cells_by (\<lambda>k. if loc s d y \<le> k \<and> k \<le> loc s (d + (b - a)) y
       then img s ! nat (k - loc s d y + loc s a y) else img s ! nat k) (img s) (img t)"
    using moveImage_ok[of "loc s b y" "loc s a y" s "loc s d y"] unfolding dst by blast
  have "drawn (\<lambda>x z. if z = y \<and> d \<le> x \<and> x \<le> d + (b - a) then cell s (x - d + a) y else cell s x z) s t"
    unfolding drawn_def
  proof (intro conjI allI impI)
    fix x z assume xz: "on_screen s x z"
    have "z = y \<Longrightarrow> loc s x z - loc s d y + loc s a y = loc s (x - d + a) y" by (simp add: loc_def)
    then show "cell t x z = (if z = y \<and> d \<le> x \<and> x \<le> d + (b - a) then cell s (x - d + a) y else cell s x z)"
      using cells_by_cell[OF ok t(2,3) xz] loc_le_iff[of d s x y z]
        loc_le_iff[of x s "d + (b - a)" z y] xz range
      by (auto simp: on_screen_def cell_def)
  qed (fact t(2))
  with t(1) show ?thesis by (rule that)
qed

end
