(* ===== verification/TermOps.thy ===== *)
theory TermOps
  imports TermInv
begin

section \<open>The terminal konsole: what the operations of the screen do\<close>

text \<open>
  The effect of each operation that redraws the image, cell by cell; the places where an operation leaves its
  arrays; and the invariant over all sequences of operations.
\<close>

lemma w32_small: "\<bar>x\<bar> < 2 ^ 31 \<Longrightarrow> w32 x = x"
  by (rule to_int32_id) auto

lemma clearImage_redrawn:
  assumes "loce < loca \<or> (0 \<le> loca \<and> loce < int (length (img s)))"
  shows "\<exists>t. clearImage loca loce c s = Some t \<and> redrawn s t"
  by (rule clearImage_ok[OF assms, of c]) blast

lemma clearImage_empty:
  assumes "scr_ok s" "loce < loca"
  obtains t where "clearImage loca loce c s = Some t" "drawn (cell s) s t"
proof -
  obtain t where t: "clearImage loca loce c s = Some t" "redrawn s t"
    "cells_by (\<lambda>k. if loca \<le> k \<and> k \<le> loce then blank c s else img s ! nat k) (img s) (img t)"
    using clearImage_ok[of loce loca s c] assms(2) by blast
  have "drawn (cell s) s t"
    using cells_by_cell[OF assms(1) t(2,3)] t(2) assms(2) by (auto simp: drawn_def cell_def)
  with t(1) show ?thesis by (rule that)
qed

lemma drawn_sel_cases:
  assumes "drawn f s u" "t = clearSelection u \<or> (\<exists>a b. t = u\<lparr>sel_TL := a, sel_BR := b\<rparr>)"
  shows "drawn f s t"
  using assms(2) by (elim disjE exE) (simp_all only: drawn_sel assms(1))

subsection \<open>Scrolling\<close>

lemma scrollUp_drawn:
  assumes ok: "scr_ok s" and n: "0 < n" "arg_ok n" and fr: "0 \<le> from" "from + n \<le> bmargin s"
  obtains t where "scrollUp from n s = Some t"
    "drawn (\<lambda>x y. if from \<le> y \<and> y \<le> bmargin s - n then cell s x (y + n)
                  else if bmargin s - n < y \<and> y \<le> bmargin s then blank SP s else cell s x y) s t"
proof -
  have b: "bmargin s < lines s" "lines s < 2 ^ 15" "1 \<le> columns s" using ok by (simp_all add: scr_ok_def)
  then have wrap: "w32 (from + n) = from + n" using n fr by (intro w32_small) (auto simp: arg_ok_def)
  have "0 \<le> from + n" "from + n \<le> bmargin s" "bmargin s < lines s" "0 \<le> from" "from + (bmargin s - (from + n)) < lines s"
    using fr n b by auto
  then obtain t1 where t1: "moveImage (loc s 0 from) (loc s 0 (from + n)) (loc s (columns s - 1) (bmargin s)) s = Some t1"
    "drawn (\<lambda>x y. if from \<le> y \<and> y \<le> from + (bmargin s - (from + n)) then cell s x (y - from + (from + n)) else cell s x y) s t1"
    by (rule moveImage_lines[OF ok])
  note f = redrawn_fields[OF drawn_redrawn[OF t1(2)]]
  have ok1: "scr_ok t1" by (rule drawn_ok[OF ok t1(2)])
  have "on_screen t1 0 (bmargin s - n + 1)" "on_screen t1 (columns s - 1) (bmargin s)"
    using fr n b by (auto simp: on_screen_def f)
  then obtain t2 where t2: "clearImage (loc t1 0 (bmargin s - n + 1)) (loc t1 (columns s - 1) (bmargin s)) SP t1 = Some t2"
    "drawn (\<lambda>x y. if (bmargin s - n + 1 < y \<or> bmargin s - n + 1 = y \<and> 0 \<le> x) \<and>
        (y < bmargin s \<or> y = bmargin s \<and> x \<le> columns s - 1) then blank SP t1 else cell t1 x y) t1 t2"
    by (rule clearImage_drawn[OF ok1])
  have "drawn (\<lambda>x y. if from \<le> y \<and> y \<le> bmargin s - n then cell s x (y + n)
      else if bmargin s - n < y \<and> y \<le> bmargin s then blank SP s else cell s x y) s t2" (is "drawn ?f s t2")
    unfolding drawn_def
  proof (intro conjI allI impI)
    show "redrawn s t2" by (rule redrawn_trans[OF drawn_redrawn[OF t1(2)] drawn_redrawn[OF t2(2)]])
    fix x y assume xy: "on_screen s x y"
    then have "on_screen t1 x y" by (simp add: on_screen_def f)
    from drawn_cell[OF t2(2) this] drawn_cell[OF t1(2) xy] xy
    show "cell t2 x y = (if from \<le> y \<and> y \<le> bmargin s - n then cell s x (y + n)
      else if bmargin s - n < y \<and> y \<le> bmargin s then blank SP s else cell s x y)"
      using n by (auto simp: f on_screen_def)
  qed
  then have d: "t = clearSelection t2 \<or> (\<exists>a b. t = t2\<lparr>sel_TL := a, sel_BR := b\<rparr>) \<Longrightarrow> drawn ?f s t" for t
    by (rule drawn_sel_cases)
  have "\<exists>t. scrollUp from n s = Some t \<and> (t = clearSelection t2 \<or> (\<exists>a b. t = t2\<lparr>sel_TL := a, sel_BR := b\<rparr>))"
    using n fr t1(1) t2(1) by (auto simp: scrollUp_def wrap f)
  then obtain t where "scrollUp from n s = Some t" "drawn ?f s t" using d by blast
  then show ?thesis by (rule that)
qed

lemma scrollUp_none:
  "bmargin s < from + n \<Longrightarrow> arg_ok n \<Longrightarrow> 0 \<le> from \<Longrightarrow> from < 2 ^ 15 \<Longrightarrow> scrollUp from n s = Some s"
  by (simp add: scrollUp_def arg_ok_def w32_small)

lemma scrollDown_drawn:
  assumes ok: "scr_ok s" and n: "0 < n" "arg_ok n" and fr: "0 \<le> from" "from \<le> bmargin s"
  obtains t where "scrollDown from n s = Some t"
    "drawn (\<lambda>x y. if from \<le> y \<and> y < from + min n (bmargin s - from) then blank SP s
                  else if from \<le> y \<and> y \<le> bmargin s then cell s x (y - min n (bmargin s - from)) else cell s x y) s t"
proof -
  have b: "bmargin s < lines s" "lines s < 2 ^ 15" "1 \<le> columns s" using ok by (simp_all add: scr_ok_def)
  then have wrap: "w32 (from + n) = from + n" using n fr by (intro w32_small) (auto simp: arg_ok_def)
  define m where "m = min n (bmargin s - from)"
  have m: "(if w32 (from + n) > bmargin s then bmargin s - from else n) = m" "0 \<le> m" "from + m \<le> bmargin s"
    using n fr by (auto simp: m_def wrap)
  have "0 \<le> from" "from \<le> bmargin s - m" "bmargin s - m < lines s" "0 \<le> from + m" "from + m + (bmargin s - m - from) < lines s"
    using fr m b by auto
  then obtain t1 where t1: "moveImage (loc s 0 (from + m)) (loc s 0 from) (loc s (columns s - 1) (bmargin s - m)) s = Some t1"
    "drawn (\<lambda>x y. if from + m \<le> y \<and> y \<le> from + m + (bmargin s - m - from) then cell s x (y - (from + m) + from) else cell s x y) s t1"
    by (rule moveImage_lines[OF ok])
  note f = redrawn_fields[OF drawn_redrawn[OF t1(2)]]
  have ok1: "scr_ok t1" by (rule drawn_ok[OF ok t1(2)])
  obtain t2 where t2: "clearImage (loc t1 0 from) (loc t1 (columns s - 1) (from + m - 1)) SP t1 = Some t2"
    "drawn (\<lambda>x y. if from \<le> y \<and> y < from + m then blank SP t1 else cell t1 x y) t1 t2"
  proof (cases "m = 0")
    case True
    then have "loc t1 (columns s - 1) (from + m - 1) < loc t1 0 from" by (simp add: loc_def f algebra_simps)
    then obtain t where "clearImage (loc t1 0 from) (loc t1 (columns s - 1) (from + m - 1)) SP t1 = Some t" "drawn (cell t1) t1 t"
      by (rule clearImage_empty[OF ok1])
    with True show ?thesis by (intro that) (auto simp: drawn_def)
  next
    case False
    then have "on_screen t1 0 from" "on_screen t1 (columns s - 1) (from + m - 1)"
      using fr m b by (auto simp: on_screen_def f)
    then obtain t where t: "clearImage (loc t1 0 from) (loc t1 (columns s - 1) (from + m - 1)) SP t1 = Some t"
      "drawn (\<lambda>x y. if (from < y \<or> from = y \<and> 0 \<le> x) \<and> (y < from + m - 1 \<or> y = from + m - 1 \<and> x \<le> columns s - 1)
        then blank SP t1 else cell t1 x y) t1 t"
      by (rule clearImage_drawn[OF ok1])
    show ?thesis
      by (rule that[OF t(1)]) (use t(2) in \<open>auto simp: drawn_def on_screen_def f\<close>)
  qed
  have "drawn (\<lambda>x y. if from \<le> y \<and> y < from + m then blank SP s
      else if from \<le> y \<and> y \<le> bmargin s then cell s x (y - m) else cell s x y) s t2" (is "drawn ?f s t2")
    unfolding drawn_def
  proof (intro conjI allI impI)
    show "redrawn s t2" by (rule redrawn_trans[OF drawn_redrawn[OF t1(2)] drawn_redrawn[OF t2(2)]])
    fix x y assume xy: "on_screen s x y"
    then have "on_screen t1 x y" by (simp add: on_screen_def f)
    from drawn_cell[OF t2(2) this] drawn_cell[OF t1(2) xy] xy
    show "cell t2 x y = (if from \<le> y \<and> y < from + m then blank SP s
      else if from \<le> y \<and> y \<le> bmargin s then cell s x (y - m) else cell s x y)"
      using m by (auto simp: f on_screen_def)
  qed
  then have d: "t = clearSelection t2 \<or> (\<exists>a b. t = t2\<lparr>sel_TL := a, sel_BR := b\<rparr>) \<Longrightarrow> drawn ?f s t" for t
    by (rule drawn_sel_cases)
  have "\<exists>t. scrollDown from n s = Some t \<and> (t = clearSelection t2 \<or> (\<exists>a b. t = t2\<lparr>sel_TL := a, sel_BR := b\<rparr>))"
    using n fr t1(1) t2(1) by (auto simp: scrollDown_def Let_def m(1) f)
  then obtain t where "scrollDown from n s = Some t" "drawn ?f s t" using d by blast
  then show ?thesis unfolding m_def by (rule that)
qed

subsection \<open>Characters of a line\<close>

lemma dflt1_arg: "arg_ok n \<Longrightarrow> 1 \<le> dflt1 n \<and> dflt1 n < 2 ^ 30"
  by (auto simp: dflt1_def arg_ok_def)

lemma eraseChars_drawn:
  assumes ok: "scr_ok s" and n: "arg_ok n"
  obtains t where "eraseChars n s = Some t"
    "drawn (\<lambda>x y. if y = cuY s \<and> cuX s \<le> x \<and> x < cuX s + dflt1 n then blank SP s else cell s x y) s t"
proof -
  have b: "0 \<le> cuX s" "cuX s \<le> columns s" "columns s < 2 ^ 15" "1 \<le> columns s" "0 \<le> cuY s" "cuY s < lines s"
    using ok by (simp_all add: scr_ok_def)
  note n1 = dflt1_arg[OF n]
  define p where "p = min (cuX s + dflt1 n - 1) (columns s - 1)"
  have p: "max 0 (min (w32 (w32 (cuX s + dflt1 n) - 1)) (columns s - 1)) = p"
    using n1 b by (simp add: w32_small p_def)
  have def: "eraseChars n s = clearImage (loc s (cuX s) (cuY s)) (loc s p (cuY s)) SP s"
    by (simp add: eraseChars_def Let_def p)
  show ?thesis
  proof (cases "cuX s = columns s")
    case True
    then have "loc s p (cuY s) < loc s (cuX s) (cuY s)" using n1 by (simp add: loc_def p_def)
    then obtain t where t: "eraseChars n s = Some t" "drawn (cell s) s t"
      unfolding def by (rule clearImage_empty[OF ok])
    show ?thesis by (rule that[OF t(1)]) (use t(2) True in \<open>auto simp: drawn_def on_screen_def\<close>)
  next
    case False
    then have "on_screen s (cuX s) (cuY s)" "on_screen s p (cuY s)"
      using b n1 by (auto simp: on_screen_def p_def)
    then obtain t where t: "eraseChars n s = Some t"
      "drawn (\<lambda>x y. if (cuY s < y \<or> cuY s = y \<and> cuX s \<le> x) \<and> (y < cuY s \<or> y = cuY s \<and> x \<le> p)
        then blank SP s else cell s x y) s t"
      unfolding def by (rule clearImage_drawn[OF ok])
    show ?thesis by (rule that[OF t(1)]) (use t(2) in \<open>auto simp: drawn_def on_screen_def p_def\<close>)
  qed
qed

lemma deleteChars_drawn:
  assumes ok: "scr_ok s" and n: "arg_ok n" and fits: "dflt1 n \<le> columns s - cuX s"
  obtains t where "deleteChars n s = Some t"
    "drawn (\<lambda>x y. if y = cuY s \<and> cuX s \<le> x
       then (if x + dflt1 n < columns s then cell s (x + dflt1 n) y else blank SP s) else cell s x y) s t"
proof -
  have b: "0 \<le> cuX s" "columns s < 2 ^ 15" "1 \<le> columns s" "0 \<le> cuY s" "cuY s < lines s"
    using ok by (simp_all add: scr_ok_def)
  note n1 = dflt1_arg[OF n]
  define p where "p = min (cuX s + dflt1 n) (columns s - 1)"
  have p: "max 0 (min (w32 (cuX s + dflt1 n)) (columns s - 1)) = p"
    using n1 b fits by (simp add: w32_small p_def)
  have "0 \<le> cuY s" "cuY s < lines s" "0 \<le> p" "columns s - 1 < columns s" "p \<le> columns s - 1" "0 \<le> cuX s"
    "cuX s + (columns s - 1 - p) < columns s"
    using b n1 fits by (auto simp: p_def)
  then obtain t1 where t1: "moveImage (loc s (cuX s) (cuY s)) (loc s p (cuY s)) (loc s (columns s - 1) (cuY s)) s = Some t1"
    "drawn (\<lambda>x z. if z = cuY s \<and> cuX s \<le> x \<and> x \<le> cuX s + (columns s - 1 - p) then cell s (x - cuX s + p) (cuY s) else cell s x z) s t1"
    by (rule moveImage_part[OF ok])
  note f = redrawn_fields[OF drawn_redrawn[OF t1(2)]]
  have ok1: "scr_ok t1" by (rule drawn_ok[OF ok t1(2)])
  have "on_screen t1 (columns s - dflt1 n) (cuY s)" "on_screen t1 (columns s - 1) (cuY s)"
    using b n1 fits by (auto simp: on_screen_def f)
  then obtain t2 where t2: "clearImage (loc t1 (columns s - dflt1 n) (cuY s)) (loc t1 (columns s - 1) (cuY s)) SP t1 = Some t2"
    "drawn (\<lambda>x y. if (cuY s < y \<or> cuY s = y \<and> columns s - dflt1 n \<le> x) \<and> (y < cuY s \<or> y = cuY s \<and> x \<le> columns s - 1)
      then blank SP t1 else cell t1 x y) t1 t2"
    by (rule clearImage_drawn[OF ok1])
  have "w32 (columns s - dflt1 n) = columns s - dflt1 n" using n1 b by (intro w32_small) auto
  then have "deleteChars n s = Some t2"
    using t1(1) t2(1) by (simp add: deleteChars_def Let_def p f)
  moreover have "drawn (\<lambda>x y. if y = cuY s \<and> cuX s \<le> x
       then (if x + dflt1 n < columns s then cell s (x + dflt1 n) y else blank SP s) else cell s x y) s t2"
    unfolding drawn_def
  proof (intro conjI allI impI)
    show "redrawn s t2" by (rule redrawn_trans[OF drawn_redrawn[OF t1(2)] drawn_redrawn[OF t2(2)]])
    fix x y assume xy: "on_screen s x y"
    then have "on_screen t1 x y" by (simp add: on_screen_def f)
    from drawn_cell[OF t2(2) this] drawn_cell[OF t1(2) xy] xy
    show "cell t2 x y = (if y = cuY s \<and> cuX s \<le> x
       then (if x + dflt1 n < columns s then cell s (x + dflt1 n) y else blank SP s) else cell s x y)"
      using n1 fits b by (auto simp: f on_screen_def p_def min_def algebra_simps split: if_splits)
  qed
  ultimately show ?thesis by (rule that)
qed

text \<open>\<open>insertChars\<close> calls \<open>memmove\<close> with a negative length when the cursor is too far to the right.\<close>

lemma insertChars_cases:
  assumes ok: "scr_ok s" and n: "arg_ok n"
  shows "if cuX s \<le> max 0 (columns s - 1 - dflt1 n) + 1 then \<exists>t. insertChars n s = Some t \<and> redrawn s t
    else insertChars n s = None"
proof -
  have b: "0 \<le> cuX s" "cuX s \<le> columns s" "columns s < 2 ^ 15" "1 \<le> columns s" "0 \<le> cuY s" "cuY s < lines s"
    using ok by (simp_all add: scr_ok_def)
  note n1 = dflt1_arg[OF n]
  define p where "p = max 0 (columns s - 1 - dflt1 n)"
  define q where "q = min (cuX s + dflt1 n) (columns s - 1)"
  have pq: "max 0 (min (w32 (columns s - 1 - dflt1 n)) (columns s - 1)) = p"
    "max 0 (min (w32 (cuX s + dflt1 n)) (columns s - 1)) = q"
    using n1 b by (simp_all add: w32_small p_def q_def)
  have len: "loc s p (cuY s) - loc s (cuX s) (cuY s) + 1 = p + 1 - cuX s" by (simp add: loc_def)
  show ?thesis
  proof (cases "cuX s \<le> p + 1")
    case False
    then have "moveImage (loc s q (cuY s)) (loc s (cuX s) (cuY s)) (loc s p (cuY s)) s = None"
      by (intro moveImage_None) (simp add: len)
    with False show ?thesis by (simp add: insertChars_def Let_def pq p_def [symmetric])
  next
    case True
    obtain t where t: "moveImage (loc s q (cuY s)) (loc s (cuX s) (cuY s)) (loc s p (cuY s)) s = Some t" "redrawn s t"
    proof (cases "cuX s = p + 1")
      case True
      then have "moveImage (loc s q (cuY s)) (loc s (cuX s) (cuY s)) (loc s p (cuY s)) s = Some s"
        by (simp add: moveImage_def move_cells_def loc_def)
      then show ?thesis by (rule that) simp
    next
      case False
      then have "0 \<le> cuY s" "cuY s < lines s" "0 \<le> cuX s" "p < columns s" "cuX s \<le> p" "0 \<le> q" "q + (p - cuX s) < columns s"
        using b n1 True by (auto simp: p_def q_def)
      then obtain t where t: "moveImage (loc s q (cuY s)) (loc s (cuX s) (cuY s)) (loc s p (cuY s)) s = Some t"
        "drawn (\<lambda>x z. if z = cuY s \<and> q \<le> x \<and> x \<le> q + (p - cuX s) then cell s (x - q + cuX s) (cuY s) else cell s x z) s t"
        by (rule moveImage_part[OF ok])
      then show ?thesis by (intro that[OF t(1)] drawn_redrawn)
    qed
    note f = redrawn_fields[OF t(2)]
    have "loc t (q - 1) (cuY s) < loc t (cuX s) (cuY s) \<or>
      0 \<le> loc t (cuX s) (cuY s) \<and> loc t (q - 1) (cuY s) < int (length (img t))"
      using b loc_less[OF ok, of "q - 1" "cuY s"] loc_nonneg[of "cuX s" "cuY s" s] by (auto simp: f q_def)
    then obtain u where u: "clearImage (loc t (cuX s) (cuY s)) (loc t (q - 1) (cuY s)) SP t = Some u" "redrawn t u"
      by (rule clearImage_ok)
    have "insertChars n s = Some u" "redrawn s u"
      using t(1) u(1) redrawn_trans[OF t(2) u(2)] by (simp_all add: insertChars_def Let_def pq f)
    with True show ?thesis by (simp add: p_def [symmetric])
  qed
qed

lemma insertChars_drawn:
  assumes ok: "scr_ok s" and n: "arg_ok n" and fits: "dflt1 n < columns s - cuX s"
  obtains t where "insertChars n s = Some t"
    "drawn (\<lambda>x y. if y = cuY s \<and> cuX s \<le> x
       then (if x < cuX s + dflt1 n then blank SP s else cell s (x - dflt1 n) y) else cell s x y) s t"
proof -
  have b: "0 \<le> cuX s" "columns s < 2 ^ 15" "1 \<le> columns s" "0 \<le> cuY s" "cuY s < lines s"
    using ok by (simp_all add: scr_ok_def)
  note n1 = dflt1_arg[OF n]
  define p where "p = columns s - 1 - dflt1 n"
  define q where "q = cuX s + dflt1 n"
  have pq: "max 0 (min (w32 (columns s - 1 - dflt1 n)) (columns s - 1)) = p"
    "max 0 (min (w32 (cuX s + dflt1 n)) (columns s - 1)) = q"
    using n1 b fits by (simp_all add: w32_small p_def q_def)
  have "0 \<le> cuY s" "cuY s < lines s" "0 \<le> cuX s" "p < columns s" "cuX s \<le> p" "0 \<le> q" "q + (p - cuX s) < columns s"
    using b n1 fits by (auto simp: p_def q_def)
  then obtain t1 where t1: "moveImage (loc s q (cuY s)) (loc s (cuX s) (cuY s)) (loc s p (cuY s)) s = Some t1"
    "drawn (\<lambda>x z. if z = cuY s \<and> q \<le> x \<and> x \<le> q + (p - cuX s) then cell s (x - q + cuX s) (cuY s) else cell s x z) s t1"
    by (rule moveImage_part[OF ok])
  note f = redrawn_fields[OF drawn_redrawn[OF t1(2)]]
  have ok1: "scr_ok t1" by (rule drawn_ok[OF ok t1(2)])
  have "on_screen t1 (cuX s) (cuY s)" "on_screen t1 (q - 1) (cuY s)"
    using b n1 fits by (auto simp: on_screen_def f q_def)
  then obtain t2 where t2: "clearImage (loc t1 (cuX s) (cuY s)) (loc t1 (q - 1) (cuY s)) SP t1 = Some t2"
    "drawn (\<lambda>x y. if (cuY s < y \<or> cuY s = y \<and> cuX s \<le> x) \<and> (y < cuY s \<or> y = cuY s \<and> x \<le> q - 1)
      then blank SP t1 else cell t1 x y) t1 t2"
    by (rule clearImage_drawn[OF ok1])
  have "insertChars n s = Some t2"
    using t1(1) t2(1) by (simp add: insertChars_def Let_def pq f)
  moreover have "drawn (\<lambda>x y. if y = cuY s \<and> cuX s \<le> x
       then (if x < cuX s + dflt1 n then blank SP s else cell s (x - dflt1 n) y) else cell s x y) s t2"
    unfolding drawn_def
  proof (intro conjI allI impI)
    show "redrawn s t2" by (rule redrawn_trans[OF drawn_redrawn[OF t1(2)] drawn_redrawn[OF t2(2)]])
    fix x y assume xy: "on_screen s x y"
    then have "on_screen t1 x y" by (simp add: on_screen_def f)
    from drawn_cell[OF t2(2) this] drawn_cell[OF t1(2) xy] xy
    show "cell t2 x y = (if y = cuY s \<and> cuX s \<le> x
       then (if x < cuX s + dflt1 n then blank SP s else cell s (x - dflt1 n) y) else cell s x y)"
      using n1 fits b by (auto simp: f on_screen_def p_def q_def split: if_splits)
  qed
  ultimately show ?thesis by (rule that)
qed

subsection \<open>Erasing\<close>

text \<open>With the cursor on the screen each operation fills exactly its part of the screen.\<close>

lemma erase_drawn:
  assumes ok: "scr_ok s" and cu: "cuX s < columns s"
  shows "\<exists>t. clearToEndOfScreen s = Some t \<and>
      drawn (\<lambda>x y. if cuY s < y \<or> y = cuY s \<and> cuX s \<le> x then blank SP s else cell s x y) s t"
    "\<exists>t. clearToBeginOfScreen s = Some t \<and>
      drawn (\<lambda>x y. if y < cuY s \<or> y = cuY s \<and> x \<le> cuX s then blank SP s else cell s x y) s t"
    "\<exists>t. clearToEndOfLine s = Some t \<and>
      drawn (\<lambda>x y. if y = cuY s \<and> cuX s \<le> x then blank SP s else cell s x y) s t"
    "\<exists>t. clearToBeginOfLine s = Some t \<and>
      drawn (\<lambda>x y. if y = cuY s \<and> x \<le> cuX s then blank SP s else cell s x y) s t"
proof -
  have places: "on_screen s (cuX s) (cuY s)" "on_screen s (columns s - 1) (lines s - 1)" "on_screen s 0 0"
    "on_screen s (columns s - 1) (cuY s)" "on_screen s 0 (cuY s)"
    using ok cu by (auto simp: on_screen_def scr_ok_def)
  show "\<exists>t. clearToEndOfScreen s = Some t \<and>
      drawn (\<lambda>x y. if cuY s < y \<or> y = cuY s \<and> cuX s \<le> x then blank SP s else cell s x y) s t"
    unfolding clearToEndOfScreen_def
    by (rule clearImage_drawn[OF ok places(1,2), of SP]) (auto simp: drawn_def on_screen_def)
  show "\<exists>t. clearToBeginOfScreen s = Some t \<and>
      drawn (\<lambda>x y. if y < cuY s \<or> y = cuY s \<and> x \<le> cuX s then blank SP s else cell s x y) s t"
    unfolding clearToBeginOfScreen_def
    by (rule clearImage_drawn[OF ok places(3,1), of SP]) (auto simp: drawn_def on_screen_def)
  show "\<exists>t. clearToEndOfLine s = Some t \<and>
      drawn (\<lambda>x y. if y = cuY s \<and> cuX s \<le> x then blank SP s else cell s x y) s t"
    unfolding clearToEndOfLine_def
    by (rule clearImage_drawn[OF ok places(1,4), of SP]) (auto simp: drawn_def on_screen_def)
  show "\<exists>t. clearToBeginOfLine s = Some t \<and>
      drawn (\<lambda>x y. if y = cuY s \<and> x \<le> cuX s then blank SP s else cell s x y) s t"
    unfolding clearToBeginOfLine_def
    by (rule clearImage_drawn[OF ok places(5,1), of SP]) (auto simp: drawn_def on_screen_def)
qed

lemma fill_screen_drawn:
  assumes ok: "scr_ok s"
  shows "\<exists>t. clearImage (loc s 0 0) (loc s (columns s - 1) (lines s - 1)) c s = Some t \<and> drawn (\<lambda>_ _. blank c s) s t"
proof -
  have "on_screen s 0 0" "on_screen s (columns s - 1) (lines s - 1)"
    using ok by (auto simp: on_screen_def scr_ok_def)
  then show ?thesis
    by (rule clearImage_drawn[OF ok, of 0 0 _ _ c]) (auto simp: drawn_def on_screen_def)
qed

lemma clear_line_drawn:
  assumes ok: "scr_ok s"
  shows "\<exists>t. clearEntireLine s = Some t \<and> drawn (\<lambda>x y. if y = cuY s then blank SP s else cell s x y) s t"
proof -
  have "on_screen s 0 (cuY s)" "on_screen s (columns s - 1) (cuY s)"
    using ok by (auto simp: on_screen_def scr_ok_def)
  then show ?thesis
    unfolding clearEntireLine_def
    by (rule clearImage_drawn[OF ok, of 0 "cuY s" _ _ SP]) (auto simp: drawn_def on_screen_def)
qed

text \<open>With the cursor behind the last column, erasing up to it takes the cell behind the line as well.\<close>

lemma clear_end_redrawn:
  assumes ok: "scr_ok s"
  shows "\<exists>t. clearToEndOfScreen s = Some t \<and> redrawn s t" "\<exists>t. clearToEndOfLine s = Some t \<and> redrawn s t"
proof -
  have b: "0 \<le> loc s (cuX s) (cuY s)" "loc s (columns s - 1) (lines s - 1) < int (length (img s))"
    "loc s (columns s - 1) (cuY s) < int (length (img s))"
    using ok loc_less[OF ok, of "columns s - 1" "lines s - 1"] loc_less[OF ok, of "columns s - 1" "cuY s"]
      loc_nonneg[of "cuX s" "cuY s" s] by (auto simp: scr_ok_def)
  show "\<exists>t. clearToEndOfScreen s = Some t \<and> redrawn s t"
    unfolding clearToEndOfScreen_def using b by (auto intro: clearImage_ok[of "loc s (columns s - 1) (lines s - 1)"])
  show "\<exists>t. clearToEndOfLine s = Some t \<and> redrawn s t"
    unfolding clearToEndOfLine_def using b by (auto intro: clearImage_ok[of "loc s (columns s - 1) (cuY s)"])
qed

lemma loc_cursor:
  assumes ok: "scr_ok s"
  shows "int (length (img s)) \<le> loc s (cuX s) (cuY s) \<longleftrightarrow> cuX s = columns s \<and> cuY s = lines s - 1"
proof (cases "cuX s = columns s")
  case True
  have "loc s (cuX s) (cuY s) = (cuY s + 1) * columns s" by (simp add: True loc_def algebra_simps)
  moreover have "lines s * columns s \<le> (cuY s + 1) * columns s \<longleftrightarrow> lines s \<le> cuY s + 1"
    using ok by (simp add: scr_ok_def mult_le_cancel_right)
  ultimately show ?thesis using ok True by (auto simp: scr_ok_def)
qed (use ok loc_less[OF ok, of "cuX s" "cuY s"] in \<open>auto simp: scr_ok_def\<close>)

lemma clear_begin_cases:
  assumes ok: "scr_ok s"
  shows "if cuX s = columns s \<and> cuY s = lines s - 1
    then clearToBeginOfScreen s = None \<and> clearToBeginOfLine s = None
    else (\<exists>t. clearToBeginOfScreen s = Some t \<and> redrawn s t) \<and> (\<exists>t. clearToBeginOfLine s = Some t \<and> redrawn s t)"
proof -
  have b: "loc s 0 0 = 0" "0 \<le> loc s 0 (cuY s)" "loc s 0 (cuY s) \<le> loc s (cuX s) (cuY s)"
    using ok by (simp_all add: loc_def scr_ok_def)
  show ?thesis
  proof (cases "cuX s = columns s \<and> cuY s = lines s - 1")
    case True
    then have "int (length (img s)) \<le> loc s (cuX s) (cuY s)" using loc_cursor[OF ok] by simp
    with True b show ?thesis
      by (simp add: clearToBeginOfScreen_def clearToBeginOfLine_def clearImage_None)
  next
    case False
    then have "loc s (cuX s) (cuY s) < int (length (img s))" using loc_cursor[OF ok] by linarith
    then show ?thesis
      unfolding if_not_P[OF False] clearToBeginOfScreen_def clearToBeginOfLine_def
      using b by (intro conjI clearImage_redrawn) auto
  qed
qed

end
