(* ===== verification/TermHistory.thy ===== *)
theory TermHistory
  imports TermOps
begin

section \<open>The terminal konsole: new lines, history and the shown image\<close>

text \<open>
  The history and the image together are a roll of paper: the lines of the history, filled up with blanks, and
  then the lines of the image. A new line at the bottom feeds the paper by one line; the shown image is
  a window of the paper. Then the invariant over all sequences of operations.
\<close>

subsection \<open>Characters\<close>

lemma put_char_drawn:
  assumes ok: "scr_ok s" and cu: "cuX s < columns s"
  obtains u where "put_char c s = Some (u\<lparr>cuX := cuX s + 1\<rparr>)"
    "drawn (\<lambda>x y. if x = cuX s \<and> y = cuY s then blank c s else cell s x y) s u"
proof -
  define i where "i = loc s (cuX s) (cuY s)"
  have b: "0 \<le> cuX s" "0 \<le> cuY s" "cuY s < lines s" "1 \<le> columns s" using ok by (simp_all add: scr_ok_def)
  have i: "0 \<le> i" "i < int (length (img s))"
    using b cu loc_less[OF ok, of "cuX s" "cuY s"] by (simp_all add: i_def loc_nonneg)
  define s1 where "s1 = (if i + histCursor s * columns s \<le> sel_BR s \<and> i + histCursor s * columns s \<ge> sel_TL s \<and>
      c \<noteq> ca_c (img s ! nat i) then clearSelection s else s)"
  define u where "u = s1\<lparr>img := (img s)[nat i := blank c s]\<rparr>"
  have s1: "img s1 = img s" "cuX s1 = cuX s" "blank c s1 = blank c s"
    by (simp_all add: s1_def clearSelection_def blank_def)
  have put: "put_char c s = Some (u\<lparr>cuX := cuX s + 1\<rparr>)"
    using i by (simp add: put_char_def Let_def read_at_Some write_at_Some u_def s1 flip: i_def s1_def)
  have red: "redrawn s u"
    by (cases s) (simp add: redrawn_def u_def s1_def clearSelection_def)
  have "drawn (\<lambda>x y. if x = cuX s \<and> y = cuY s then blank c s else cell s x y) s u"
    unfolding drawn_def
  proof (intro conjI allI impI)
    fix x y assume xy: "on_screen s x y"
    have "loc s x y = i \<longleftrightarrow> x = cuX s \<and> y = cuY s"
      using loc_le_iff[of x s "cuX s" y "cuY s"] loc_le_iff[of "cuX s" s x "cuY s" y] xy b cu
      by (auto simp: on_screen_def i_def)
    moreover have "nat (loc s x y) = nat i \<longleftrightarrow> loc s x y = i"
      using loc_nonneg[of x y s] xy b i by (simp add: on_screen_def eq_nat_nat_iff)
    moreover have "loc u = loc s" by (rule redrawn_fields[OF red])
    ultimately show "cell u x y = (if x = cuX s \<and> y = cuY s then blank c s else cell s x y)"
      using i by (auto simp: cell_def u_def)
  qed (fact red)
  with put show ?thesis by (rule that)
qed

lemma cuX_ok: "scr_ok s \<Longrightarrow> 0 \<le> x \<Longrightarrow> x \<le> columns s \<Longrightarrow> scr_ok (s\<lparr>cuX := x\<rparr>)"
  by (simp add: scr_ok_def)

lemma cuY_ok: "scr_ok s \<Longrightarrow> 0 \<le> y \<Longrightarrow> y < lines s \<Longrightarrow> scr_ok (s\<lparr>cuY := y\<rparr>)"
  by (simp add: scr_ok_def)

lemma put_char_ok: "scr_ok s \<Longrightarrow> cuX s < columns s \<Longrightarrow> \<exists>t. put_char c s = Some t \<and> scr_ok t"
proof -
  assume a: "scr_ok s" "cuX s < columns s"
  obtain u where u: "put_char c s = Some (u\<lparr>cuX := cuX s + 1\<rparr>)"
    "drawn (\<lambda>x y. if x = cuX s \<and> y = cuY s then blank c s else cell s x y) s u"
    by (rule put_char_drawn[OF a])
  have "scr_ok (u\<lparr>cuX := cuX s + 1\<rparr>)"
    using a drawn_ok[OF a(1) u(2)] redrawn_fields(2)[OF drawn_redrawn[OF u(2)]]
    by (intro cuX_ok) (auto simp: scr_ok_def)
  with u(1) show ?thesis by blast
qed

subsection \<open>Feeding a line\<close>

lemma addHistLine_ok: "scr_ok s \<Longrightarrow> scr_ok (addHistLine s)"
  by (auto simp: scr_ok_def addHistLine_def Let_def)

lemma scrollUp_ok:
  assumes "scr_ok s" "0 \<le> from" "from < 2 ^ 15" "arg_ok n"
  shows "\<exists>t. scrollUp from n s = Some t \<and> redrawn s t"
proof (cases "0 < n \<and> from + n \<le> bmargin s")
  case True
  with assms show ?thesis
    by (auto intro: scrollUp_drawn[of s n "from"] dest: drawn_redrawn)
next
  case False
  then show ?thesis using assms scrollUp_none[of s "from" n] by (auto simp: scrollUp_def)
qed

lemma scrollDown_ok:
  assumes "scr_ok s" "0 \<le> from" "arg_ok n"
  shows "\<exists>t. scrollDown from n s = Some t \<and> redrawn s t"
proof (cases "0 < n \<and> from \<le> bmargin s")
  case True
  with assms show ?thesis
    by (auto intro: scrollDown_drawn[of s n "from"] dest: drawn_redrawn)
qed (auto simp: scrollDown_def)

lemma arg_ok_1 [simp]: "arg_ok 1"
  by (simp add: arg_ok_def)

lemma index_ok:
  assumes ok: "scr_ok s"
  shows "\<exists>t. index s = Some t \<and> scr_ok t"
proof (cases "cuY s \<ge> bmargin s")
  case True
  define u where "u = (if tmargin s = 0 \<and> bmargin s = lines s - 1 then addHistLine s else s)"
  have u: "scr_ok u" using ok addHistLine_ok by (simp add: u_def)
  then obtain t where "scrollUp (tmargin u) 1 u = Some t" "redrawn u t"
    using scrollUp_ok[of u "tmargin u" 1] by (auto simp: scr_ok_def)
  with True redrawn_ok[OF u] show ?thesis by (simp add: index_def u_def Let_def)
next
  case False
  with ok show ?thesis by (auto simp: index_def scr_ok_def)
qed

lemma reverseIndex_ok:
  assumes ok: "scr_ok s"
  shows "\<exists>t. reverseIndex s = Some t \<and> scr_ok t"
proof (cases "cuY s \<le> tmargin s")
  case True
  then show ?thesis
    using scrollDown_ok[of s "tmargin s" 1] ok redrawn_ok[OF ok] by (auto simp: reverseIndex_def scr_ok_def)
next
  case False
  with ok show ?thesis by (auto simp: reverseIndex_def scr_ok_def)
qed

lemma Return_ok: "scr_ok s \<Longrightarrow> scr_ok (Return s)"
  by (simp add: Return_def scr_ok_def)

lemma NextLine_ok: "scr_ok s \<Longrightarrow> \<exists>t. NextLine s = Some t \<and> scr_ok t"
  by (simp add: NextLine_def index_ok Return_ok)

lemma NewLine_ok: "scr_ok s \<Longrightarrow> \<exists>t. NewLine s = Some t \<and> scr_ok t"
  by (simp add: NewLine_def index_ok Return_ok)

lemma index_cuX: "index s = Some t \<Longrightarrow> scr_ok s \<Longrightarrow> cuX t = cuX s \<and> columns t = columns s"
proof -
  assume a: "index s = Some t" "scr_ok s"
  show ?thesis
  proof (cases "cuY s \<ge> bmargin s")
    case True
    define u where "u = (if tmargin s = 0 \<and> bmargin s = lines s - 1 then addHistLine s else s)"
    have u: "scr_ok u" "cuX u = cuX s" "columns u = columns s"
      using a addHistLine_ok by (auto simp: u_def addHistLine_def Let_def)
    have "scrollUp (tmargin u) 1 u = Some t" using True a by (simp add: index_def u_def Let_def)
    then have "redrawn u t" using scrollUp_ok[of u "tmargin u" 1] u by (auto simp: scr_ok_def)
    then show ?thesis using redrawn_fields(2,3)[of u t] u by simp
  qed (use a in \<open>auto simp: index_def\<close>)
qed

lemma ShowCharacter_ok:
  assumes ok: "scr_ok s"
  shows "\<exists>t. ShowCharacter c s = Some t \<and> scr_ok t"
proof -
  obtain s1 where s1: "(if cuX s \<ge> columns s then (if getMode MODE_Wrap s then NextLine s else Some (s\<lparr>cuX := columns s - 1\<rparr>))
      else Some s) = Some s1" "scr_ok s1" "cuX s1 < columns s1"
  proof (cases "cuX s \<ge> columns s \<and> getMode MODE_Wrap s")
    case True
    obtain t where t: "NextLine s = Some t" "scr_ok t" using NextLine_ok[OF ok] by blast
    have "cuX t = 0" "columns t = columns s"
      using index_cuX[of "Return s" t] Return_ok[OF ok] t(1) by (simp_all add: NextLine_def Return_def)
    then show ?thesis using True t ok by (intro that[of t]) (simp_all add: scr_ok_def)
  next
    case False
    then show ?thesis
      using ok by (intro that[of "if cuX s \<ge> columns s then s\<lparr>cuX := columns s - 1\<rparr> else s"]) (auto simp: scr_ok_def)
  qed
  obtain s2 where s2: "(if getMode MODE_Insert s1 then insertChars 1 s1 else Some s1) = Some s2" "redrawn s1 s2"
  proof (cases "getMode MODE_Insert s1")
    case True
    have "cuX s1 \<le> max 0 (columns s1 - 1 - dflt1 1) + 1" using s1(3) by (simp add: dflt1_def)
    then obtain t where "insertChars 1 s1 = Some t" "redrawn s1 t"
      using insertChars_cases[OF s1(2), of 1] by auto
    with True show ?thesis by (intro that[of t]) simp_all
  qed (use that in simp)
  have "scr_ok s2" "cuX s2 < columns s2"
    using redrawn_ok[OF s1(2) s2(2)] redrawn_fields(2,3)[OF s2(2)] s1(3) by simp_all
  then obtain t where "put_char (charset_char s1 c) s2 = Some t" "scr_ok t" using put_char_ok by blast
  then show ?thesis
    using s1(1) s2(1) by (simp add: ShowCharacter_def Let_def)
qed

subsection \<open>Tabs, reset and size\<close>

lemma tab_loop_ok:
  assumes "int (length tabs) = cols" "0 \<le> x" "x \<le> cols - 1"
  shows "\<exists>y. tab_loop tabs cols x = Some y \<and> x \<le> y \<and> y \<le> cols - 1 \<and>
    (\<forall>k. x \<le> k \<and> k < y \<longrightarrow> \<not> tabs ! nat k) \<and> (y < cols - 1 \<longrightarrow> tabs ! nat y)"
  using assms
proof (induction tabs cols x rule: tab_loop.induct)
  case (1 tabs cols x)
  show ?case
  proof (cases "x < cols - 1")
    case True
    have r: "read_at x tabs = Some (tabs ! nat x)" using "1.prems" True by (intro read_at_Some) auto
    show ?thesis
    proof (cases "tabs ! nat x")
      case True
      then show ?thesis using r \<open>x < cols - 1\<close> by (subst tab_loop.simps) (auto simp: r)
    next
      case False
      then obtain y where y: "tab_loop tabs cols (x + 1) = Some y" "x + 1 \<le> y" "y \<le> cols - 1"
        "\<forall>k. x + 1 \<le> k \<and> k < y \<longrightarrow> \<not> tabs ! nat k" "y < cols - 1 \<longrightarrow> tabs ! nat y"
        using "1.IH"[OF True r] "1.prems" True by auto
      have "\<not> tabs ! nat k" if "x \<le> k" "k < y" for k
        using y(4) False that by (cases "k = x") auto
      then show ?thesis using y True False r by (subst tab_loop.simps) auto
    qed
  qed (use "1.prems" in \<open>subst tab_loop.simps, auto\<close>)
qed

lemma Tabulate_ok:
  assumes ok: "scr_ok s"
  shows "\<exists>t. Tabulate s = Some t \<and> scr_ok t"
proof -
  have b: "0 \<le> cuX s" "cuX s \<le> columns s" "1 \<le> columns s" "columns s < 2 ^ 15" using ok by (simp_all add: scr_ok_def)
  have x: "cuX (cursorRight 1 s) = min (columns s - 1) (cuX s + 1)"
    using b by (simp add: cursorRight_def dflt1_def w32_small)
  obtain y where y: "tab_loop (tabstops s) (columns s) (cuX (cursorRight 1 s)) = Some y" "0 \<le> y" "y \<le> columns s - 1"
  proof -
    have "0 \<le> cuX (cursorRight 1 s)" "cuX (cursorRight 1 s) \<le> columns s - 1" "int (length (tabstops s)) = columns s"
      using b ok by (simp_all add: x scr_ok_def)
    then show ?thesis using tab_loop_ok[of "tabstops s" "columns s" "cuX (cursorRight 1 s)"] that by fastforce
  qed
  have "Tabulate s = Some (s\<lparr>cuX := y\<rparr>)"
    using y(1) by (simp add: Tabulate_def cursorRight_def Let_def)
  then show ?thesis using cuX_ok[OF ok, of y] y by simp
qed

text \<open>The loop of \<open>clearTabStops\<close> writes in front of the array at its first step.\<close>

lemma foldl_None: "foldl (\<lambda>t i. Option.bind t (f i)) None is = None"
  by (induction "is") simp_all

lemma clearTabStops_faults:
  assumes "scr_ok s"
  shows "clearTabStops s = None"
proof -
  have "[0..columns s - 1] = 0 # [1..columns s - 1]"
    using assms by (subst upto.simps) (simp add: scr_ok_def)
  then show ?thesis
    by (simp add: clearTabStops_def write_at_def foldl_None)
qed

lemma changeTabStop_ok:
  assumes "scr_ok s"
  shows "\<exists>t. changeTabStop b s = Some t \<and> scr_ok t"
  using assms by (auto simp: changeTabStop_def write_at_def scr_ok_def)

lemma rendition_ok [simp]: "scr_ok (effectiveRendition s) = scr_ok s"
  by (simp add: scr_ok_def effectiveRendition_def Let_def split: prod.split)

lemma rendition_fields [simp]:
  "lines (effectiveRendition s) = lines s" "columns (effectiveRendition s) = columns s" "img (effectiveRendition
  s) = img s" "tabstops (effectiveRendition s) = tabstops s" "charset (effectiveRendition s) = charset s" "cuX
  (effectiveRendition s) = cuX s" "cuY (effectiveRendition s) = cuY s" "sa_cuX (effectiveRendition s) = sa_cuX s"
  "sa_cuY (effectiveRendition s) = sa_cuY s" "tmargin (effectiveRendition s) = tmargin s" "bmargin
  (effectiveRendition s) = bmargin s" "histMaxLines (effectiveRendition s) = histMaxLines s" "histLines
  (effectiveRendition s) = histLines s" "histBuffer (effectiveRendition s) = histBuffer s" "histCursor
  (effectiveRendition s) = histCursor s"
  by (simp_all add: effectiveRendition_def Let_def split: prod.split)

lemma default_fields [simp]:
  "lines (setDefaultRendition s) = lines s" "columns (setDefaultRendition s) = columns s" "img
  (setDefaultRendition s) = img s" "tabstops (setDefaultRendition s) = tabstops s" "charset (setDefaultRendition
  s) = charset s" "cuX (setDefaultRendition s) = cuX s" "cuY (setDefaultRendition s) = cuY s" "sa_cuX
  (setDefaultRendition s) = sa_cuX s" "sa_cuY (setDefaultRendition s) = sa_cuY s" "tmargin (setDefaultRendition s)
  = tmargin s" "bmargin (setDefaultRendition s) = bmargin s" "histMaxLines (setDefaultRendition s) = histMaxLines
  s" "histLines (setDefaultRendition s) = histLines s" "histBuffer (setDefaultRendition s) = histBuffer s"
  "histCursor (setDefaultRendition s) = histCursor s"
  by (simp_all add: setDefaultRendition_def setForeColorToDefault_def setBackColorToDefault_def)

lemma clear_ok:
  assumes ok: "scr_ok s"
  shows "\<exists>t. clear s = Some t \<and> scr_ok t"
proof -
  obtain t where "clearEntireScreen s = Some t" "drawn (\<lambda>_ _. blank SP s) s t"
    using fill_screen_drawn[OF ok, of SP] by (auto simp: clearEntireScreen_def)
  moreover have "scr_ok (home t)" if "scr_ok t"
    using that by (simp add: home_def scr_ok_def)
  ultimately show ?thesis using drawn_ok[OF ok] by (simp add: clear_def)
qed

lemma mode_lines [simp]:
  "lines (setMode m s) = lines s" "lines (resetMode m s) = lines s" "lines (saveMode m s) = lines s"
  by (simp_all add: setMode_def resetMode_def saveMode_def Let_def split: mode.split)

text \<open>What \<open>reset\<close> needs of the screen; it sets all the rest.\<close>

definition size_ok :: "screen \<Rightarrow> bool" where
  "size_ok s \<longleftrightarrow>
     1 \<le> lines s \<and> lines s < 2 ^ 15 \<and> 1 \<le> columns s \<and> columns s < 2 ^ 15 \<and>
     int (length (img s)) = lines s * columns s \<and> int (length (tabstops s)) = columns s \<and>
     0 \<le> histMaxLines s \<and> histLines s \<le> histMaxLines s \<and> int (length (histBuffer s)) = histLines s \<and>
     0 \<le> histCursor s \<and> histCursor s \<le> histLines s"

lemma scr_ok_size: "scr_ok s \<Longrightarrow> size_ok s"
  by (simp add: scr_ok_def size_ok_def)

lemma mode_size_ok [simp]:
  "size_ok (setMode m s) = size_ok s" "size_ok (resetMode m s) = size_ok s" "size_ok (saveMode m s) = size_ok s"
  by (simp_all add: size_ok_def setMode_def resetMode_def saveMode_def Let_def split: mode.split)

lemma mode_cursor [simp]:
  "m \<noteq> MODE_Origin \<Longrightarrow> cuX (setMode m s) = cuX s" "m \<noteq> MODE_Origin \<Longrightarrow> cuY (setMode m s) = cuY s"
  "cuX (resetMode m s) = (if m = MODE_Origin then 0 else cuX s)" "cuY (resetMode m s) = (if m = MODE_Origin then 0 else cuY s)"
  "cuX (saveMode m s) = cuX s" "cuY (saveMode m s) = cuY s"
  by (simp_all add: setMode_def resetMode_def saveMode_def Let_def split: mode.split)

lemma reset_ok:
  assumes "size_ok s"
  shows "\<exists>t. reset s = Some t \<and> scr_ok t"
proof -
  define v where "v = resetMode MODE_NewLine (resetMode MODE_Screen (setMode MODE_Cursor
        (saveMode MODE_Origin (resetMode MODE_Insert (saveMode MODE_Origin (resetMode MODE_Origin
          (saveMode MODE_Wrap (setMode MODE_Wrap s))))))))"
  define u where "u = saveCursor (setDefaultRendition
      (v\<lparr>tmargin := 0, bmargin := lines v - 1, cu_cs := 0, charset := ''BBBB'', graphic := False, pound := False\<rparr>))"
  have v: "size_ok v" "cuX v = 0" "cuY v = 0"
    using assms by (simp_all add: v_def)
  then have "scr_ok u"
    by (simp add: u_def scr_ok_def size_ok_def saveCursor_def)
  moreover have "reset s = clear u"
    by (simp add: reset_def u_def v_def Let_def)
  ultimately show ?thesis using clear_ok by simp
qed

lemma TEScreen_ok:
  assumes "1 \<le> lns" "lns < 2 ^ 15" "1 \<le> cols" "cols < 2 ^ 15"
  shows "\<exists>s. TEScreen g mem lns cols = Some s \<and> scr_ok s"
  unfolding TEScreen_def
  by (rule reset_ok) (use assms in \<open>simp add: size_ok_def clearSelection_def initTabStops_def\<close>)

lemma concat_grid_nth:
  assumes "0 \<le> y" "y < l" "0 \<le> x" "x < c"
  shows "concat (map (\<lambda>y. map (\<lambda>x. f y x) [0..c - 1]) [0..l - 1]) ! nat (y * c + x) = f y x"
    "int (length (concat (map (\<lambda>y. map (\<lambda>x. f y x) [0..c - 1]) [0..l - 1]))) = l * c"
proof -
  have len: "length (concat (map (\<lambda>y. map (\<lambda>x. f y x) [0..c - 1]) ys)) = length ys * nat c" for ys
    by (induction ys) (simp_all add: length_upto)
  show "int (length (concat (map (\<lambda>y. map (\<lambda>x. f y x) [0..c - 1]) [0..l - 1]))) = l * c"
    using assms by (simp add: len length_upto)
  have row: "concat (map (\<lambda>y. map (\<lambda>x. f y x) [0..c - 1]) ys) ! (k * nat c + nat x) = f (ys ! k) x" if "k < length ys" for k ys
    using that
  proof (induction ys arbitrary: k)
    case (Cons z zs)
    show ?case
    proof (cases k)
      case 0
      then show ?thesis using assms by (simp add: nth_append length_upto nth_upto)
    next
      case (Suc m)
      then show ?thesis using Cons.IH[of m] Cons.prems by (simp add: nth_append length_upto)
    qed
  qed simp
  have "nat (y * c + x) = nat y * nat c + nat x"
    using assms by (simp add: nat_add_distrib nat_mult_distrib)
  then show "concat (map (\<lambda>y. map (\<lambda>x. f y x) [0..c - 1]) [0..l - 1]) ! nat (y * c + x) = f y x"
    using row[of "nat y" "[0..l - 1]"] assms by (simp add: length_upto nth_upto)
qed

lemma resizeImage_cells:
  assumes "1 \<le> l" "l < 2 ^ 15" "1 \<le> c" "c < 2 ^ 15" and ok: "scr_ok s"
  shows "scr_ok (resizeImage l c s)"
    "0 \<le> x \<Longrightarrow> x < c \<Longrightarrow> 0 \<le> y \<Longrightarrow> y < l \<Longrightarrow>
      cell (resizeImage l c s) x y = (if on_screen s x y then cell s x y else dft)"
proof -
  have img: "img (resizeImage l c s) = resized l c s"
    by (simp add: resizeImage_def clearSelection_def initTabStops_def Let_def resized_def loc_def cong: if_cong)
  have len: "int (length (resized l c s)) = l * c"
    unfolding resized_def by (rule concat_grid_nth(2)[of 0 _ 0]) (use assms in auto)
  show "scr_ok (resizeImage l c s)"
  proof -
    let ?t = "resizeImage l c s"
    have f: "lines ?t = l" "columns ?t = c" "length (tabstops ?t) = nat c" "charset ?t = charset s"
      "cuX ?t = min (cuX s) (c - 1)" "cuY ?t = min (cuY s) (l - 1)" "sa_cuX ?t = sa_cuX s" "sa_cuY ?t = sa_cuY s"
      "tmargin ?t = 0" "bmargin ?t = l - 1" "histMaxLines ?t = histMaxLines s" "histLines ?t = histLines s"
      "histBuffer ?t = histBuffer s" "histCursor ?t = histCursor s"
      by (simp_all add: resizeImage_def clearSelection_def initTabStops_def Let_def)
    show ?thesis using assms len by (auto simp: scr_ok_def img f)
  qed
  assume xy: "0 \<le> x" "x < c" "0 \<le> y" "y < l"
  have "loc (resizeImage l c s) x y = y * c + x"
    by (simp add: loc_def resizeImage_def clearSelection_def initTabStops_def Let_def)
  then have "cell (resizeImage l c s) x y = resized l c s ! nat (y * c + x)"
    by (simp add: cell_def img)
  also have "\<dots> = (if y < min l (lines s) \<and> x < min c (columns s) then img s ! nat (loc s x y) else dft)"
    unfolding resized_def by (rule concat_grid_nth(1)) (use xy in auto)
  finally show "cell (resizeImage l c s) x y = (if on_screen s x y then cell s x y else dft)"
    using xy by (simp add: on_screen_def cell_def)
qed

end
