(* ===== verification/TermProps.thy ===== *)
theory TermProps
  imports TermHistory
begin

section \<open>The terminal konsole: properties of the screen\<close>

subsection \<open>All sequences of operations\<close>

text \<open>
  The operations that the emulation and the window call, with the result of the call (\<open>None\<close> when it leaves an
  array). The guards are what is known to be needed: parameters that do not wrap, \<open>insertChars\<close> and
  \<open>deleteChars\<close> within the line, erasing to the left not from behind the last cell, a history cursor within the history,
  and no \<open>clearTabStops\<close>.
\<close>

inductive screen_step :: "screen \<Rightarrow> screen option \<Rightarrow> bool" where
  st_up: "arg_ok n \<Longrightarrow> screen_step s (Some (cursorUp n s))"
| st_down: "arg_ok n \<Longrightarrow> screen_step s (Some (cursorDown n s))"
| st_left: "arg_ok n \<Longrightarrow> screen_step s (Some (cursorLeft n s))"
| st_right: "arg_ok n \<Longrightarrow> screen_step s (Some (cursorRight n s))"
| st_setX: "arg_ok n \<Longrightarrow> screen_step s (Some (setCursorX n s))"
| st_setY: "arg_ok n \<Longrightarrow> screen_step s (Some (setCursorY n s))"
| st_setYX: "arg_ok m \<Longrightarrow> arg_ok n \<Longrightarrow> screen_step s (Some (setCursorYX m n s))"
| st_margins: "arg_ok m \<Longrightarrow> arg_ok n \<Longrightarrow> screen_step s (Some (setMargins m n s))"
| st_home: "screen_step s (Some (home s))"
| st_return: "screen_step s (Some (Return s))"
| st_backspace: "screen_step s (Some (BackSpace s))"
| st_tab: "screen_step s (Tabulate s)"
| st_newline: "screen_step s (NewLine s)"
| st_nextline: "screen_step s (NextLine s)"
| st_index: "screen_step s (index s)"
| st_reverse: "screen_step s (reverseIndex s)"
| st_show: "screen_step s (ShowCharacter c s)"
| st_erase: "arg_ok n \<Longrightarrow> screen_step s (eraseChars n s)"
| st_delete: "arg_ok n \<Longrightarrow> dflt1 n \<le> columns s - cuX s \<Longrightarrow> screen_step s (deleteChars n s)"
| st_insert: "arg_ok n \<Longrightarrow> dflt1 n \<le> columns s - cuX s \<Longrightarrow> screen_step s (insertChars n s)"
| st_deleteLines: "arg_ok n \<Longrightarrow> screen_step s (deleteLines n s)"
| st_insertLines: "arg_ok n \<Longrightarrow> screen_step s (insertLines n s)"
| st_endScreen: "screen_step s (clearToEndOfScreen s)"
| st_beginScreen: "cuX s < columns s \<Longrightarrow> screen_step s (clearToBeginOfScreen s)"
| st_entireScreen: "screen_step s (clearEntireScreen s)"
| st_endLine: "screen_step s (clearToEndOfLine s)"
| st_beginLine: "cuX s < columns s \<Longrightarrow> screen_step s (clearToBeginOfLine s)"
| st_entireLine: "screen_step s (clearEntireLine s)"
| st_align: "screen_step s (helpAlign s)"
| st_changeTab: "screen_step s (changeTabStop b s)"
| st_setMode: "screen_step s (Some (setMode m s))"
| st_resetMode: "screen_step s (Some (resetMode m s))"
| st_saveMode: "screen_step s (Some (saveMode m s))"
| st_restoreMode: "screen_step s (Some (restoreMode m s))"
| st_saveCursor: "screen_step s (Some (saveCursor s))"
| st_restoreCursor: "screen_step s (Some (restoreCursor s))"
| st_setRendition: "screen_step s (Some (setRendition re s))"
| st_resetRendition: "screen_step s (Some (resetRendition re s))"
| st_fore: "screen_step s (Some (setForeColor n s))"
| st_back: "screen_step s (Some (setBackColor n s))"
| st_foreDefault: "screen_step s (Some (setForeColorToDefault s))"
| st_backDefault: "screen_step s (Some (setBackColorToDefault s))"
| st_default: "screen_step s (Some (setDefaultRendition s))"
| st_charset: "screen_step s (Some (setCharset n cs s))"
| st_andUse: "screen_step s (Some (setAndUseCharset n cs s))"
| st_useCharset: "screen_step s (Some (useCharset n s))"
| st_clear: "screen_step s (clear s)"
| st_reset: "screen_step s (reset s)"
| st_resize: "1 \<le> l \<Longrightarrow> l < 2 ^ 15 \<Longrightarrow> 1 \<le> c \<Longrightarrow> c < 2 ^ 15 \<Longrightarrow> screen_step s (Some (resizeImage l c s))"
| st_histCursor: "0 \<le> n \<Longrightarrow> n \<le> histLines s \<Longrightarrow> screen_step s (Some (setHistCursor n s))"
| st_histMax: "0 \<le> n \<Longrightarrow> screen_step s (Some (setHistMaxLines n s))"
| st_selBegin: "screen_step s (Some (setSelBeginXY x y s))"
| st_selExtent: "screen_step s (Some (setSelExtentXY x y s))"
| st_selClear: "screen_step s (Some (clearSelection s))"

inductive screen_reachable :: "screen \<Rightarrow> bool" where
  screen_start: "TEScreen g mem l c = Some s \<Longrightarrow> 1 \<le> l \<Longrightarrow> l < 2 ^ 15 \<Longrightarrow> 1 \<le> c \<Longrightarrow> c < 2 ^ 15 \<Longrightarrow> screen_reachable s"
| screen_next: "screen_reachable s \<Longrightarrow> screen_step s (Some s') \<Longrightarrow> screen_reachable s'"

text \<open>The operations that move the cursor only.\<close>

lemma cursor_moves_ok:
  assumes ok: "scr_ok s"
  shows "arg_ok n \<Longrightarrow> scr_ok (cursorUp n s)" "arg_ok n \<Longrightarrow> scr_ok (cursorDown n s)"
    "arg_ok n \<Longrightarrow> scr_ok (cursorLeft n s)" "arg_ok n \<Longrightarrow> scr_ok (cursorRight n s)"
    "arg_ok n \<Longrightarrow> scr_ok (setCursorX n s)" "arg_ok n \<Longrightarrow> scr_ok (setCursorY n s)"
    "arg_ok m \<Longrightarrow> arg_ok n \<Longrightarrow> scr_ok (setMargins m n s)" "scr_ok (home s)" "scr_ok (BackSpace s)"
    "scr_ok (setMode k s)" "scr_ok (resetMode k s)" "scr_ok (saveMode k s)" "scr_ok (restoreMode k s)"
    "scr_ok (saveCursor s)" "scr_ok (restoreCursor s)"
proof -
  have n: "0 \<le> n \<and> 1 \<le> dflt1 n \<and> dflt1 n < 2 ^ 30 \<and> n < 2 ^ 30" if "arg_ok n" for n
    using that dflt1_arg[OF that] by (simp add: arg_ok_def)
  have b: "0 \<le> cuX s" "cuX s \<le> columns s" "1 \<le> columns s" "columns s < 2 ^ 15" "0 \<le> cuY s" "cuY s < lines s"
    "lines s < 2 ^ 15" "0 \<le> tmargin s" "tmargin s \<le> bmargin s" "bmargin s < lines s" "0 \<le> sa_cuX s" "0 \<le> sa_cuY s"
    using ok by (auto simp: scr_ok_def)
  have place: "scr_ok (s\<lparr>cuX := x, cuY := y\<rparr>)" if "0 \<le> x" "x \<le> columns s" "0 \<le> y" "y < lines s" for x y
    using ok that by (simp add: scr_ok_def)
  show "scr_ok (cursorUp n s)" if "arg_ok n"
    using n[OF that] b by (auto simp: cursorUp_def Let_def w32_small intro!: place)
  show "scr_ok (cursorDown n s)" if "arg_ok n"
    using n[OF that] b by (auto simp: cursorDown_def Let_def w32_small intro!: place)
  show "scr_ok (cursorLeft n s)" if "arg_ok n"
    using n[OF that] b by (auto simp: cursorLeft_def Let_def w32_small intro!: cuX_ok[OF ok])
  show "scr_ok (cursorRight n s)" if "arg_ok n"
    using n[OF that] b by (auto simp: cursorRight_def Let_def w32_small intro!: cuX_ok[OF ok])
  show "scr_ok (setCursorX n s)" if "arg_ok n"
    using n[OF that] b by (auto simp: setCursorX_def w32_small intro!: cuX_ok[OF ok])
  show "scr_ok (setCursorY n s)" if "arg_ok n"
    using n[OF that] b by (auto simp: setCursorY_def w32_small intro!: cuY_ok[OF ok])
  show "scr_ok (setMargins m n s)" if "arg_ok m" "arg_ok n"
    using ok by (auto simp: setMargins_def Let_def scr_ok_def)
  show "scr_ok (home s)" "scr_ok (BackSpace s)" "scr_ok (saveMode k s)" "scr_ok (restoreMode k s)" "scr_ok (saveCursor s)"
    using ok by (auto simp: home_def BackSpace_def saveMode_def restoreMode_def saveCursor_def scr_ok_def)
  show "scr_ok (setMode k s)" "scr_ok (resetMode k s)"
    using ok by (auto simp: setMode_def resetMode_def Let_def scr_ok_def split: mode.split)
  show "scr_ok (restoreCursor s)"
    using ok b by (auto simp: restoreCursor_def scr_ok_def)
qed

lemma setCursorYX_ok: "scr_ok s \<Longrightarrow> arg_ok m \<Longrightarrow> arg_ok n \<Longrightarrow> scr_ok (setCursorYX m n s)"
  by (simp add: setCursorYX_def cursor_moves_ok)

lemma attributes_ok:
  assumes "scr_ok s"
  shows "scr_ok (setRendition re s)" "scr_ok (resetRendition re s)" "scr_ok (setForeColor n s)" "scr_ok (setBackColor n s)"
    "scr_ok (setForeColorToDefault s)" "scr_ok (setBackColorToDefault s)" "scr_ok (setDefaultRendition s)"
    "scr_ok (setCharset n cs s)" "scr_ok (setAndUseCharset n cs s)" "scr_ok (useCharset n s)"
    "scr_ok (setSelBeginXY x y s)" "scr_ok (setSelExtentXY x y s)" "scr_ok (clearSelection s)"
    "0 \<le> n \<Longrightarrow> n \<le> histLines s \<Longrightarrow> scr_ok (setHistCursor n s)" "0 \<le> n \<Longrightarrow> scr_ok (setHistMaxLines n s)"
  using assms
  by (simp_all add: setRendition_def resetRendition_def setForeColor_def setBackColor_def setForeColorToDefault_def
      setBackColorToDefault_def setDefaultRendition_def setCharset_def setAndUseCharset_def useCharset_def Let_def
      setSelBeginXY_def setSelExtentXY_def clearSelection_def setHistCursor_def setHistMaxLines_def scr_ok_def)

lemma redraws_ok:
  assumes ok: "scr_ok s"
  shows "arg_ok n \<Longrightarrow> \<exists>t. eraseChars n s = Some t \<and> scr_ok t"
    "arg_ok n \<Longrightarrow> dflt1 n \<le> columns s - cuX s \<Longrightarrow> \<exists>t. deleteChars n s = Some t \<and> scr_ok t"
    "arg_ok n \<Longrightarrow> dflt1 n \<le> columns s - cuX s \<Longrightarrow> \<exists>t. insertChars n s = Some t \<and> scr_ok t"
    "arg_ok n \<Longrightarrow> \<exists>t. deleteLines n s = Some t \<and> scr_ok t"
    "arg_ok n \<Longrightarrow> \<exists>t. insertLines n s = Some t \<and> scr_ok t"
    "\<exists>t. clearToEndOfScreen s = Some t \<and> scr_ok t" "\<exists>t. clearToEndOfLine s = Some t \<and> scr_ok t"
    "cuX s < columns s \<Longrightarrow> \<exists>t. clearToBeginOfScreen s = Some t \<and> scr_ok t"
    "cuX s < columns s \<Longrightarrow> \<exists>t. clearToBeginOfLine s = Some t \<and> scr_ok t"
    "\<exists>t. clearEntireScreen s = Some t \<and> scr_ok t" "\<exists>t. clearEntireLine s = Some t \<and> scr_ok t"
    "\<exists>t. helpAlign s = Some t \<and> scr_ok t"
proof -
  note red = redrawn_ok[OF ok] and dr = drawn_ok[OF ok]
  have d: "arg_ok (dflt1 n)" if "arg_ok n" for n using that by (simp add: arg_ok_def dflt1_def)
  have y: "0 \<le> cuY s" "cuY s < 2 ^ 15" using ok by (auto simp: scr_ok_def)
  show "\<exists>t. eraseChars n s = Some t \<and> scr_ok t" if "arg_ok n"
    by (rule eraseChars_drawn[OF ok that]) (blast intro: dr)
  show "\<exists>t. deleteChars n s = Some t \<and> scr_ok t" if "arg_ok n" "dflt1 n \<le> columns s - cuX s"
    by (rule deleteChars_drawn[OF ok that]) (blast intro: dr)
  show "\<exists>t. insertChars n s = Some t \<and> scr_ok t" if "arg_ok n" "dflt1 n \<le> columns s - cuX s"
  proof -
    have "cuX s \<le> max 0 (columns s - 1 - dflt1 n) + 1" using that by linarith
    then show ?thesis using insertChars_cases[OF ok that(1)] red by auto
  qed
  show "\<exists>t. deleteLines n s = Some t \<and> scr_ok t" if "arg_ok n"
    using scrollUp_ok[OF ok y d[OF that]] red by (auto simp: deleteLines_def)
  show "\<exists>t. insertLines n s = Some t \<and> scr_ok t" if "arg_ok n"
    using scrollDown_ok[OF ok y(1) d[OF that]] red by (auto simp: insertLines_def)
  show "\<exists>t. clearToEndOfScreen s = Some t \<and> scr_ok t" "\<exists>t. clearToEndOfLine s = Some t \<and> scr_ok t"
    using clear_end_redrawn[OF ok] red by blast+
  show "\<exists>t. clearToBeginOfScreen s = Some t \<and> scr_ok t" if "cuX s < columns s"
    using erase_drawn(2)[OF ok that] dr by blast
  show "\<exists>t. clearToBeginOfLine s = Some t \<and> scr_ok t" if "cuX s < columns s"
    using erase_drawn(4)[OF ok that] dr by blast
  show "\<exists>t. clearEntireScreen s = Some t \<and> scr_ok t" "\<exists>t. helpAlign s = Some t \<and> scr_ok t"
    using fill_screen_drawn[OF ok] dr unfolding clearEntireScreen_def helpAlign_def by blast+
  show "\<exists>t. clearEntireLine s = Some t \<and> scr_ok t"
    using clear_line_drawn[OF ok] dr by blast
qed

lemma screen_step_ok: "screen_step s r \<Longrightarrow> scr_ok s \<Longrightarrow> \<exists>t. r = Some t \<and> scr_ok t"
proof (induction rule: screen_step.induct)
  case (st_resize l c s)
  then show ?case using resizeImage_cells(1) by simp
qed (simp_all add: cursor_moves_ok setCursorYX_ok attributes_ok redraws_ok Return_ok Tabulate_ok NewLine_ok NextLine_ok index_ok
    reverseIndex_ok ShowCharacter_ok changeTabStop_ok clear_ok reset_ok scr_ok_size)

lemma screen_reachable_ok: "screen_reachable s \<Longrightarrow> scr_ok s"
proof (induction rule: screen_reachable.induct)
  case (screen_start g mem l c s)
  then show ?case using TEScreen_ok[of l c g mem] by auto
next
  case (screen_next s s')
  then show ?case using screen_step_ok by blast
qed

text \<open>C9: Memory safety of the screen: whatever sequence of the operations of the step relation is called, with its guards, no such operation
  reads or writes outside of the image, the tab stops or the history they append to, and in every state the sizes of the arrays fit, the cursor is on a line of the
  screen and at most one column behind its end, the margins enclose at least two lines or the whole screen, and the history cursor lies within the history. The
  guards: at most 2^15 - 1 lines and columns, arguments below 2^30, no more characters deleted or inserted than the line has left, and no erasing up to a cursor
  behind the end of the line. Showing the image (\<open>getCookedImage\<close>) and reading a selection are not among the operations.\<close>

theorem screen_never_faults:
  assumes "screen_reachable s" "screen_step s r"
  shows "\<exists>t. r = Some t \<and> scr_ok t"
  using screen_step_ok[OF assms(2) screen_reachable_ok[OF assms(1)]] .

lemma deleteChars_faults:
  assumes ok: "scr_ok s" and n: "arg_ok n"
  shows "deleteChars n s = None \<longleftrightarrow> dflt1 n > (cuY s + 1) * columns s \<or> (cuX s = columns s \<and> cuY s = lines s - 1)"
proof -
  have b: "0 \<le> cuX s" "cuX s \<le> columns s" "columns s < 2 ^ 15" "1 \<le> columns s" "0 \<le> cuY s" "cuY s < lines s"
    using ok by (simp_all add: scr_ok_def)
  note n1 = dflt1_arg[OF n]
  define p where "p = min (cuX s + dflt1 n) (columns s - 1)"
  have p: "max 0 (min (w32 (cuX s + dflt1 n)) (columns s - 1)) = p"
    using n1 b by (simp add: w32_small p_def)
  define q where "q = w32 (columns s - dflt1 n)"
  have q: "q = columns s - dflt1 n" unfolding q_def using n1 b by (intro w32_small) auto
  have run: "deleteChars n s = do {
      s \<leftarrow> moveImage (loc s (cuX s) (cuY s)) (loc s p (cuY s)) (loc s (columns s - 1) (cuY s)) s;
      clearImage (loc s q (cuY s)) (loc s (columns s - 1) (cuY s)) SP s }"
    by (simp add: deleteChars_def Let_def p q_def)
  show ?thesis
  proof (cases "cuX s = columns s \<and> cuY s = lines s - 1")
    case True
    then have "p = columns s - 1" "int (length (img s)) \<le> loc s (cuX s) (cuY s)"
      using n1 loc_cursor[OF ok] by (auto simp: p_def)
    then have "moveImage (loc s (cuX s) (cuY s)) (loc s p (cuY s)) (loc s (columns s - 1) (cuY s)) s = None"
      by (intro moveImage_None) simp
    with True show ?thesis by (simp add: run)
  next
    case False
    have "loc s (cuX s) (cuY s) + (loc s (columns s - 1) (cuY s) - loc s p (cuY s)) < int (length (img s))"
    proof (cases "cuX s = columns s")
      case True
      then have "loc s p (cuY s) = loc s (columns s - 1) (cuY s)" using n1 by (simp add: p_def)
      then show ?thesis using False loc_cursor[OF ok] by linarith
    next
      case False
      then have "cuX s + (columns s - 1 - p) < columns s" using n1 b by (auto simp: p_def)
      then show ?thesis
        using loc_less[OF ok, of "cuX s + (columns s - 1 - p)" "cuY s"] b by (simp add: loc_def)
    qed
    moreover have "loc s (columns s - 1) (cuY s) < int (length (img s))" using loc_less[OF ok] b by simp
    moreover have "0 \<le> loc s p (cuY s)" "0 \<le> loc s (cuX s) (cuY s)" "loc s p (cuY s) \<le> loc s (columns s - 1) (cuY s)"
      using b n1 by (simp_all add: loc_def p_def)
    ultimately obtain t where t: "moveImage (loc s (cuX s) (cuY s)) (loc s p (cuY s)) (loc s (columns s - 1) (cuY s)) s = Some t"
      "redrawn s t"
      using moveImage_ok[of "loc s (columns s - 1) (cuY s)" "loc s p (cuY s)" s "loc s (cuX s) (cuY s)"] by blast
    note f = redrawn_fields[OF t(2)]
    have "loc t (columns s - dflt1 n) (cuY s) \<le> loc t (columns s - 1) (cuY s)" using n1 by (simp add: loc_def)
    then have "clearImage (loc t (columns s - dflt1 n) (cuY s)) (loc t (columns s - 1) (cuY s)) SP t = None \<longleftrightarrow>
        loc s (columns s - dflt1 n) (cuY s) < 0"
      using clearImage_None[of "loc t (columns s - dflt1 n) (cuY s)" "loc t (columns s - 1) (cuY s)" t SP]
        clearImage_redrawn[of "loc t (columns s - 1) (cuY s)" "loc t (columns s - dflt1 n) (cuY s)" t SP]
        loc_less[OF ok, of "columns s - 1" "cuY s"] b by (cases "loc s (columns s - dflt1 n) (cuY s) < 0") (auto simp: f)
    moreover have "loc s (columns s - dflt1 n) (cuY s) < 0 \<longleftrightarrow> dflt1 n > (cuY s + 1) * columns s"
      by (auto simp: loc_def algebra_simps)
    ultimately show ?thesis using False t(1) by (auto simp: run f q)
  qed
qed

text \<open>Where the guards are needed: exactly when these calls leave the image. Inserting more characters
  than there are behind the cursor gives \<open>memmove\<close> a negative length; deleting more characters than there are cells
  up to the end of the cursor's line writes in front of the image; deleting or erasing to the left with the cursor
  behind the last cell of the screen writes behind it; and \<open>clearTabStops\<close> always writes in front of the tab stops.\<close>

theorem screen_fault_points:
  assumes ok: "scr_ok s" and n: "arg_ok n"
  shows "(insertChars n s = None \<longleftrightarrow> max 0 (columns s - 1 - dflt1 n) + 1 < cuX s) \<and>
    (deleteChars n s = None \<longleftrightarrow> dflt1 n > (cuY s + 1) * columns s \<or> (cuX s = columns s \<and> cuY s = lines s - 1)) \<and>
    (clearToBeginOfLine s = None \<longleftrightarrow> cuX s = columns s \<and> cuY s = lines s - 1) \<and>
    (clearToBeginOfScreen s = None \<longleftrightarrow> cuX s = columns s \<and> cuY s = lines s - 1) \<and>
    clearTabStops s = None"
  using insertChars_cases[OF ok n] deleteChars_faults[OF ok n] clear_begin_cases[OF ok] clearTabStops_faults[OF ok]
  by (auto simp: not_le split: if_splits)

subsection \<open>Text\<close>

text \<open>A block of printable characters, as \<open>onRcvBlock\<close> hands it over.\<close>

fun show_text :: "string \<Rightarrow> screen \<Rightarrow> screen option" where
  "show_text [] s = Some s"
| "show_text (c # cs) s = do { s \<leftarrow> ShowCharacter c s; show_text cs s }"

lemma cell_cuX [simp]: "cell (s\<lparr>cuX := x\<rparr>) = cell s" "on_screen (s\<lparr>cuX := x\<rparr>) = on_screen s" "blank c (s\<lparr>cuX := x\<rparr>) = blank c s"
  by (simp_all add: fun_eq_iff cell_def loc_def on_screen_def blank_def)

lemma redrawn_cuX: "redrawn s t \<Longrightarrow> redrawn (s\<lparr>cuX := x\<rparr>) (t\<lparr>cuX := x\<rparr>)"
  by (cases s; cases t) (simp add: redrawn_def)

lemma show_plain:
  assumes "scr_ok s" "cuX s < columns s" "\<not> getMode MODE_Insert s" "\<not> graphic s" "\<not> pound s"
  shows "ShowCharacter c s = put_char c s"
  using assms by (simp add: ShowCharacter_def charset_char_def)

text \<open>A piece of text that fits on the line, in the plain character set and not in insert mode, is written
  from the cursor on, with the current colours; the rest of the screen stays as it is and the cursor stands behind
  the text.\<close>

theorem show_text_writes:
  assumes "scr_ok s" "\<not> getMode MODE_Insert s" "\<not> graphic s" "\<not> pound s"
    "cuX s + int (length w) \<le> columns s"
  shows "\<exists>t. show_text w s = Some (t\<lparr>cuX := cuX s + int (length w)\<rparr>) \<and>
    drawn (\<lambda>x y. if y = cuY s \<and> cuX s \<le> x \<and> x < cuX s + int (length w) then blank (w ! nat (x - cuX s)) s else cell s x y) s t"
  using assms
proof (induction w arbitrary: s)
  case Nil
  then show ?case by (intro exI[of _ s]) (auto simp: drawn_def)
next
  case (Cons c w)
  have cu: "cuX s < columns s" "0 \<le> cuX s" using Cons.prems by (auto simp: scr_ok_def)
  obtain u where u: "put_char c s = Some (u\<lparr>cuX := cuX s + 1\<rparr>)"
    "drawn (\<lambda>x y. if x = cuX s \<and> y = cuY s then blank c s else cell s x y) s u"
    by (rule put_char_drawn[OF Cons.prems(1) cu(1)])
  note f = redrawn_fields[OF drawn_redrawn[OF u(2)]]
  define v where "v = u\<lparr>cuX := cuX s + 1\<rparr>"
  have v: "cuX v = cuX s + 1" "cuY v = cuY s" "columns v = columns s" "blank d v = blank d s" for d
    by (simp_all add: v_def f)
  have "scr_ok v"
    unfolding v_def using drawn_ok[OF Cons.prems(1) u(2)] cu by (intro cuX_ok) (simp_all add: f)
  moreover have "\<not> getMode MODE_Insert v" "\<not> graphic v" "\<not> pound v" "cuX v + int (length w) \<le> columns v"
    using Cons.prems by (simp_all add: v_def f getMode_def)
  ultimately obtain t where t: "show_text w v = Some (t\<lparr>cuX := cuX v + int (length w)\<rparr>)"
    "drawn (\<lambda>x y. if y = cuY v \<and> cuX v \<le> x \<and> x < cuX v + int (length w) then blank (w ! nat (x - cuX v)) v else cell v x y) v t"
    using Cons.IH[of v] by blast
  define t' where "t' = t\<lparr>cuX := cuX s\<rparr>"
  have "show_text (c # w) s = Some (t'\<lparr>cuX := cuX s + int (length (c # w))\<rparr>)"
  proof -
    have "ShowCharacter c s = Some v" using u(1) show_plain[OF Cons.prems(1) cu(1) Cons.prems(2-4)] by (simp add: v_def)
    then show ?thesis using t(1) by (simp add: t'_def v(1) add.assoc)
  qed
  moreover have "drawn (\<lambda>x y. if y = cuY s \<and> cuX s \<le> x \<and> x < cuX s + int (length (c # w))
      then blank ((c # w) ! nat (x - cuX s)) s else cell s x y) s t'"
    unfolding drawn_def
  proof (intro conjI allI impI)
    have "redrawn (v\<lparr>cuX := cuX s\<rparr>) t'" unfolding t'_def by (rule redrawn_cuX[OF drawn_redrawn[OF t(2)]])
    moreover have "v\<lparr>cuX := cuX s\<rparr> = u" using f(3) by (cases u) (simp add: v_def)
    ultimately show "redrawn s t'" using redrawn_trans[OF drawn_redrawn[OF u(2)]] by simp
    fix x y assume xy: "on_screen s x y"
    then have "on_screen v x y" by (simp add: v_def on_screen_def f)
    have "nat (x - cuX s) = Suc (nat (x - (cuX s + 1)))" if "cuX s < x" using that by simp
    then have idx: "(c # w) ! nat (x - cuX s) = w ! nat (x - (cuX s + 1))" if "cuX s < x" using that by simp
    from drawn_cell[OF t(2) \<open>on_screen v x y\<close>] drawn_cell[OF u(2) xy]
    show "cell t' x y = (if y = cuY s \<and> cuX s \<le> x \<and> x < cuX s + int (length (c # w))
      then blank ((c # w) ! nat (x - cuX s)) s else cell s x y)"
      using idx v(2) by (cases "cuX s < x") (auto simp: t'_def v(1,4) v_def f)
  qed
  ultimately show ?case by blast
qed

subsection \<open>Witnesses\<close>

text \<open>A screen of two lines with three columns.\<close>

definition tiny_screen :: screen where
  "tiny_screen = \<lparr>tabstops = [False, False, False], charset = ''BBBB'', cu_cs = 0, graphic = False, pound = False,
     cu_fg = 0, cu_bg = 1, cu_re = 0, ef_fg = 0, ef_bg = 1, ef_re = 0, cuX = 0, cuY = 0, sa_graphic = False,
     sa_pound = False, sa_cu_re = 0, sa_cu_fg = 0, sa_cu_bg = 1, sa_cuX = 0, sa_cuY = 0, bmargin = 1, tmargin = 0,
     currParm = (\<lambda>m. m = MODE_Wrap \<or> m = MODE_Cursor), saveParm = (\<lambda>_. False), lines = 2, columns = 3,
     img = [dft, dft, dft, dft, dft, dft], histCursor = 0, histLines = 0, histMaxLines = 0, histBuffer = [],
     sel_begin = -1, sel_TL = -1, sel_BR = -1\<rparr>"

lemma tiny_fields [simp]:
  "cuX tiny_screen = 0" "cuY tiny_screen = 0" "lines tiny_screen = 2" "columns tiny_screen = 3"
  "img tiny_screen = [dft, dft, dft, dft, dft, dft]" "graphic tiny_screen = False" "pound tiny_screen = False"
  "currParm tiny_screen m = (m = MODE_Wrap \<or> m = MODE_Cursor)"
  by (simp_all add: tiny_screen_def)

lemma tiny_screen_ok [simp]: "scr_ok tiny_screen"
  by (simp add: scr_ok_def tiny_screen_def)

text \<open>The same with the cursor behind the last cell.\<close>

definition pending_screen :: screen where
  "pending_screen = tiny_screen\<lparr>cuX := 3, cuY := 1\<rparr>"

lemma pending_screen_ok [simp]: "scr_ok pending_screen"
  by (simp add: scr_ok_def pending_screen_def tiny_screen_def)

definition first_screen :: screen where
  "first_screen = the (TEScreen tiny_screen (\<lambda>_. dft) 2 3)"

lemma first_screen_reachable: "screen_reachable first_screen"
proof (rule screen_start)
  show "TEScreen tiny_screen (\<lambda>_. dft) 2 3 = Some first_screen"
    using TEScreen_ok[of 2 3 tiny_screen "\<lambda>_. dft"] by (auto simp: first_screen_def)
qed simp_all

theorem screen_never_faults_witness:
  "(\<exists>t. NewLine first_screen = Some t \<and> scr_ok t) \<and> (\<exists>t. eraseChars 2 first_screen = Some t \<and> scr_ok t)"
  using screen_never_faults[OF first_screen_reachable st_newline]
    screen_never_faults[OF first_screen_reachable st_erase[of 2]] by (simp add: arg_ok_def)

theorem screen_fault_points_witness:
  "insertChars 1 pending_screen = None \<and> deleteChars 1 pending_screen = None \<and> clearToBeginOfLine pending_screen = None \<and>
   insertChars 1 tiny_screen \<noteq> None \<and> deleteChars 4 tiny_screen = None \<and> clearTabStops tiny_screen = None"
  using screen_fault_points[OF pending_screen_ok, of 1] screen_fault_points[OF tiny_screen_ok, of 1]
    screen_fault_points[OF tiny_screen_ok, of 4]
  by (simp add: arg_ok_def dflt1_def pending_screen_def tiny_screen_def)

end
