(* ===== verification/TermPaper.thy ===== *)
theory TermPaper
  imports TermProps
begin

section \<open>The terminal konsole: the history as a roll of paper\<close>

text \<open>
  The abstract view of history and image together, and that the operations of the screen implement it: a new line
  at the bottom appends a blank line to the paper, and \<open>getCookedImage\<close> shows the lines of the
  paper from \<open>histCursor\<close> on.
\<close>

definition row :: "screen \<Rightarrow> int \<Rightarrow> ca list" where
  "row s y = map (\<lambda>x. cell s x y) [0..columns s - 1]"

definition hist_line :: "screen \<Rightarrow> ca list \<Rightarrow> ca list" where
  "hist_line s l = take (nat (columns s)) l @ replicate (nat (columns s) - length l) dft"

definition paper :: "screen \<Rightarrow> ca list list" where
  "paper s = map (hist_line s) (histBuffer s) @ map (row s) [0..lines s - 1]"

lemma row_length [simp]: "length (row s y) = nat (columns s)"
  by (simp add: row_def length_upto)

lemma row_nth: "0 \<le> x \<Longrightarrow> x < columns s \<Longrightarrow> row s y ! nat x = cell s x y"
  by (simp add: row_def length_upto nth_upto)

lemma row_take_drop:
  assumes ok: "scr_ok s" and y: "0 \<le> y" "y < lines s"
  shows "row s y = take (nat (columns s)) (drop (nat (y * columns s)) (img s))"
proof (rule nth_equalityI)
  have c: "1 \<le> columns s" using ok by (simp add: scr_ok_def)
  have "y * columns s + columns s \<le> int (length (img s))"
    using loc_less[OF ok, of "columns s - 1" y] y by (simp add: loc_def)
  then have len: "nat (y * columns s) + nat (columns s) \<le> length (img s)"
    using y c by (simp flip: nat_add_distrib)
  then show "length (row s y) = length (take (nat (columns s)) (drop (nat (y * columns s)) (img s)))" by simp
  fix i assume i: "i < length (row s y)"
  then have "row s y ! i = cell s (int i) y" using row_nth[of "int i" s y] by simp
  also have "\<dots> = img s ! (nat (y * columns s) + i)"
    using y c by (simp add: cell_def loc_def nat_add_distrib)
  finally show "row s y ! i = take (nat (columns s)) (drop (nat (y * columns s)) (img s)) ! i"
    using i len by simp
qed

text \<open>A line that goes into the history comes out of it as it was.\<close>

lemma rstrip_pad: "rev (dropWhile (\<lambda>c. c = d) (rev l)) @ replicate (length l - length (rev (dropWhile (\<lambda>c. c = d) (rev l)))) d = l"
proof -
  define k where "k = takeWhile (\<lambda>c. c = d) (rev l)"
  have k: "k = replicate (length k) d"
    by (rule replicate_length_same[symmetric]) (auto simp: k_def dest: set_takeWhileD)
  have "rev l = k @ dropWhile (\<lambda>c. c = d) (rev l)" by (simp add: k_def)
  then have l: "l = rev (dropWhile (\<lambda>c. c = d) (rev l)) @ rev k" by (metis rev_append rev_rev_ident)
  moreover have "rev k = replicate (length k) d" using k by (metis rev_replicate)
  moreover have "length l - length (rev (dropWhile (\<lambda>c. c = d) (rev l))) = length k"
    using l by (metis add_diff_cancel_left' length_append length_rev)
  ultimately show ?thesis by simp
qed

lemma hist_line_first:
  assumes ok: "scr_ok s"
  shows "hist_line s (first_line s) = row s 0"
proof -
  have r: "row s 0 = take (nat (columns s)) (img s)"
    using row_take_drop[OF ok, of 0] ok by (simp add: scr_ok_def)
  then have len: "length (take (nat (columns s)) (img s)) = nat (columns s)" by (metis row_length)
  have "length (first_line s) \<le> nat (columns s)"
    using len length_dropWhile_le[of "\<lambda>c. c = dft" "rev (take (nat (columns s)) (img s))"] by (simp add: first_line_def)
  then have "hist_line s (first_line s) = first_line s @ replicate (nat (columns s) - length (first_line s)) dft"
    by (simp add: hist_line_def)
  also have "\<dots> = row s 0"
    using rstrip_pad[of dft "take (nat (columns s)) (img s)"] unfolding first_line_def r len by simp
  finally show ?thesis .
qed

text \<open>The rows after scrolling the whole screen.\<close>

lemma scroll_rows:
  assumes ok: "scr_ok s" and full: "tmargin s = 0" "bmargin s = lines s - 1" "1 < lines s"
  obtains t where "scrollUp 0 1 s = Some t" "redrawn s t"
    "map (row t) [0..lines s - 1] = map (row s) [1..lines s - 1] @ [replicate (nat (columns s)) (blank SP s)]"
proof -
  have "0 \<le> (0::int)" "0 + 1 \<le> bmargin s" using full by auto
  then obtain t where t: "scrollUp 0 1 s = Some t"
    "drawn (\<lambda>x y. if 0 \<le> y \<and> y \<le> bmargin s - 1 then cell s x (y + 1)
       else if bmargin s - 1 < y \<and> y \<le> bmargin s then blank SP s else cell s x y) s t"
    by (rule scrollUp_drawn[OF ok zero_less_one arg_ok_1])
  have c: "columns t = columns s" by (rule redrawn_fields(2)[OF drawn_redrawn[OF t(2)]])
  have up: "row t y = row s (y + 1)" if "0 \<le> y" "y < lines s - 1" for y
    using that drawn_cell[OF t(2)] full by (simp add: row_def c on_screen_def)
  have last: "row t (lines s - 1) = replicate (nat (columns s)) (blank SP s)"
  proof -
    have "row t (lines s - 1) = map (\<lambda>_. blank SP s) [0..columns s - 1]"
      using drawn_cell[OF t(2)] full by (simp add: row_def c on_screen_def)
    then show ?thesis by (simp add: map_replicate_const length_upto)
  qed
  have "[0..lines s - 1] = [0..lines s - 2] @ [lines s - 1]"
    using full(3) upto_rec2[of 0 "lines s - 1"] by simp
  moreover have "map (row t) [0..lines s - 2] = map (row s) [1..lines s - 1]"
    by (rule nth_equalityI) (auto simp: length_upto nth_upto up add.commute)
  ultimately show ?thesis
    using that[OF t(1) drawn_redrawn[OF t(2)]] last by simp
qed

text \<open>The paper: with the margins at the borders of the screen and the cursor on the last line, \<open>index\<close> (and
  so every line feed there) appends one blank line to the paper and loses nothing; when the history is full,
  the oldest line goes. A view that shows the end of the paper goes on showing it; one that was scrolled back
  stays at its line as long as the history is not full.\<close>

theorem index_feeds_paper:
  assumes ok: "scr_ok s" and full: "tmargin s = 0" "bmargin s = lines s - 1" "1 < lines s" "cuY s = lines s - 1"
    and hist: "0 < histMaxLines s"
  shows "\<exists>t. index s = Some t \<and>
    paper t = (if histLines s < histMaxLines s then paper s else tl (paper s)) @ [replicate (nat (columns s)) (blank SP s)] \<and>
    (histCursor s = histLines s \<longrightarrow> histCursor t = histLines t) \<and>
    (histCursor s \<noteq> histLines s \<and> histLines s < histMaxLines s \<longrightarrow> histCursor t = histCursor s)"
proof -
  define u where "u = addHistLine s"
  have u: "scr_ok u" "tmargin u = 0" "bmargin u = lines u - 1" "1 < lines u" "lines u = lines s" "columns u = columns s"
    "img u = img s" "blank SP u = blank SP s"
    using addHistLine_ok[OF ok] full by (simp_all add: u_def addHistLine_def Let_def blank_def)
  obtain t where t: "scrollUp 0 1 u = Some t" "redrawn u t"
    "map (row t) [0..lines u - 1] = map (row u) [1..lines u - 1] @ [replicate (nat (columns u)) (blank SP u)]"
    by (rule scroll_rows[OF u(1-4)])
  note f = redrawn_fields[OF t(2)]
  have index: "index s = Some t"
    using t(1) u(2) full by (simp add: index_def u_def [symmetric] Let_def)
  have same: "row u = row s" "hist_line t = hist_line s"
    using u(6,7) f(2) by (auto simp: row_def cell_def loc_def hist_line_def fun_eq_iff)
  have rows: "map (row s) [0..lines s - 1] = row s 0 # map (row s) [1..lines s - 1]"
    using full(3) upto_rec1[of 0 "lines s - 1"] by simp
  have paper_t: "paper t = map (hist_line s) (histBuffer u) @ map (row s) [1..lines s - 1] @ [replicate (nat (columns s)) (blank SP s)]"
    using t(3) u by (simp add: paper_def same f)
  have len: "int (length (histBuffer s)) = histLines s" "histLines s \<le> histMaxLines s" using ok by (auto simp: scr_ok_def)
  have "paper t = (if histLines s < histMaxLines s then paper s else tl (paper s)) @ [replicate (nat (columns s)) (blank SP s)]"
  proof (cases "histLines s < histMaxLines s")
    case True
    then have "histBuffer u = histBuffer s @ [first_line s]"
      using hist by (simp add: u_def addHistLine_def Let_def)
    then show ?thesis
      using True unfolding paper_t by (simp add: paper_def rows hist_line_first[OF ok])
  next
    case False
    then have "histBuffer s \<noteq> []" "histBuffer u = tl (histBuffer s) @ [first_line s]"
      using hist len by (auto simp: u_def addHistLine_def Let_def)
    then show ?thesis
      using False unfolding paper_t by (simp add: paper_def rows hist_line_first[OF ok] map_tl)
  qed
  moreover have "histCursor s = histLines s \<longrightarrow> histCursor t = histLines t"
    "histCursor s \<noteq> histLines s \<and> histLines s < histMaxLines s \<longrightarrow> histCursor t = histCursor s"
    using hist by (auto simp: f u_def addHistLine_def Let_def)
  ultimately show ?thesis using index by blast
qed

subsection \<open>The shown image\<close>

lemma those_Some: "\<forall>x\<in>set xs. f x = Some (g x) \<Longrightarrow> those (map f xs) = Some (map g xs)"
  by (induction xs) simp_all

text \<open>Line \<open>y\<close> of the window is line \<open>histCursor + y\<close> of the paper.\<close>

definition paper_cell :: "screen \<Rightarrow> int \<Rightarrow> int \<Rightarrow> ca" where
  "paper_cell s x y = paper s ! nat (histCursor s + y) ! nat x"

definition in_selection :: "screen \<Rightarrow> int \<Rightarrow> int \<Rightarrow> bool" where
  "in_selection s x y \<longleftrightarrow> sel_TL s \<le> loc s x (y + histCursor s) \<and> loc s x (y + histCursor s) \<le> sel_BR s"

definition at_cursor :: "screen \<Rightarrow> int \<Rightarrow> int \<Rightarrow> bool" where
  "at_cursor s x y \<longleftrightarrow> getMode MODE_Cursor s \<and> loc s x y = loc s (cuX s) (cuY s + (histLines s - histCursor s)) \<and>
     cuY s + (histLines s - histCursor s) < lines s"

lemma cooked_cell_paper:
  assumes ok: "scr_ok s" and xy: "on_screen s x y"
  shows "cooked_cell s y x = Some (if in_selection s x y then reverseRendition (paper_cell s x y) else paper_cell s x y)"
proof -
  have b: "0 \<le> x" "x < columns s" "0 \<le> y" "y < lines s" "0 \<le> histCursor s" "histCursor s \<le> histLines s"
    "int (length (histBuffer s)) = histLines s"
    using ok xy by (auto simp: scr_ok_def on_screen_def)
  define c where "c = paper_cell s x y"
  have "(if y < histLines s - histCursor s
      then do { l \<leftarrow> read_at (y + histCursor s) (histBuffer s);
                Some (if x < min (columns s) (int (length l)) then l ! nat x else dft) }
      else read_at (x + (y - histLines s + histCursor s) * columns s) (img s)) = Some c"
  proof (cases "y < histLines s - histCursor s")
    case True
    define l where "l = histBuffer s ! nat (y + histCursor s)"
    have "read_at (y + histCursor s) (histBuffer s) = Some l" using b True by (simp add: read_at_Some l_def)
    moreover have "c = hist_line s l ! nat x"
      using b True by (simp add: c_def paper_cell_def paper_def nth_append l_def add.commute)
    moreover have "hist_line s l ! nat x = (if x < min (columns s) (int (length l)) then l ! nat x else dft)"
      using b by (auto simp: hist_line_def nth_append)
    ultimately show ?thesis using True by simp
  next
    case False
    define z where "z = y - histLines s + histCursor s"
    have z: "0 \<le> z" "z < lines s" using b False by (auto simp: z_def)
    have "nat (histCursor s + y) = length (histBuffer s) + nat z"
      using b False by (simp add: z_def)
    then have "c = row s z ! nat x"
      using z b by (simp add: c_def paper_cell_def paper_def nth_append length_upto nth_upto)
    then have "c = img s ! nat (x + z * columns s)"
      using b by (simp add: row_nth cell_def loc_def add.commute)
    moreover have "0 \<le> x + z * columns s" "x + z * columns s < int (length (img s))"
      using loc_nonneg[of x z s] loc_less[OF ok, of x z] b z by (simp_all add: loc_def add.commute)
    ultimately show ?thesis using False by (simp add: read_at_Some z_def)
  qed
  then show ?thesis
    unfolding cooked_cell_def Let_def
    by (simp add: in_selection_def loc_def add.commute c_def)
qed

lemma product_grid_nth:
  assumes "0 \<le> x" "x < c" "0 \<le> y" "y < l"
  shows "nat (y * c + x) < length (List.product [0..l - 1] [0..c - 1])"
    "List.product [0..l - 1] [0..c - 1] ! nat (y * c + x) = (y, x)"
proof -
  define a where "a = nat y"
  define b where "b = nat x"
  have ab: "nat (y * c + x) = a * nat c + b" "b < nat c" "a < nat l" "y = int a" "x = int b"
    using assms by (simp_all add: a_def b_def nat_add_distrib nat_mult_distrib)
  have "a * nat c + b < nat l * nat c"
    using ab(2,3) mult_le_mono1[of "Suc a" "nat l" "nat c"] by simp
  then show len: "nat (y * c + x) < length (List.product [0..l - 1] [0..c - 1])"
    by (simp add: ab(1) length_product length_upto)
  then have "List.product [0..l - 1] [0..c - 1] ! nat (y * c + x) =
      ([0..l - 1] ! ((a * nat c + b) div nat c), [0..c - 1] ! ((a * nat c + b) mod nat c))"
    unfolding ab(1) by (subst product_nth) (simp_all add: length_product length_upto)
  also have "\<dots> = (y, x)"
    using ab(2-5) by (simp add: nth_upto)
  finally show "List.product [0..l - 1] [0..c - 1] ! nat (y * c + x) = (y, x)" .
qed

text \<open>C31: The shown image: \<open>getCookedImage\<close> shows at each place the paper from \<open>histCursor\<close> on, with the colours
  exchanged once for the selection, once for the inverse screen and once for the cursor. It leaves its buffer, by
  one cell, exactly when a visible cursor stands behind the last cell of the window, that is, after every
  character in the last column of the last line.\<close>

theorem cooked_image_is_paper:
  assumes ok: "scr_ok s"
  shows "if getMode MODE_Cursor s \<and> cuX s = columns s \<and> cuY s + (histLines s - histCursor s) = lines s - 1
    then getCookedImage s = None
    else \<exists>m. getCookedImage s = Some m \<and> int (length m) = lines s * columns s \<and>
      (\<forall>x y. on_screen s x y \<longrightarrow> m ! nat (loc s x y) =
        (if (in_selection s x y \<noteq> getMode MODE_Screen s) \<noteq> at_cursor s x y
         then reverseRendition (paper_cell s x y) else paper_cell s x y))"
proof -
  define k where "k = histLines s - histCursor s"
  define g where "g = (\<lambda>(y, x). if in_selection s x y \<noteq> getMode MODE_Screen s then reverseRendition (paper_cell s x y) else paper_cell s x y)"
  define base where "base = (\<lambda>(y, x). if in_selection s x y then reverseRendition (paper_cell s x y) else paper_cell s x y)"
  define P where "P = List.product [0..lines s - 1] [0..columns s - 1]"
  define m where "m = map g P"
  define i where "i = loc s (cuX s) (cuY s + k)"
  have b: "0 \<le> cuX s" "cuX s \<le> columns s" "0 \<le> cuY s" "1 \<le> columns s" "1 \<le> lines s" "0 \<le> k"
    using ok by (auto simp: scr_ok_def k_def)
  have "\<forall>p\<in>set P. (\<lambda>(y, x). cooked_cell s y x) p = Some (base p)"
    by (auto simp: P_def base_def cooked_cell_paper[OF ok] on_screen_def)
  then have "those (map (\<lambda>(y, x). cooked_cell s y x) P) = Some (map base P)" by (rule those_Some)
  moreover have "(if getMode MODE_Screen s then map reverseRendition (map base P) else map base P) = m"
    by (auto simp: m_def g_def base_def)
  ultimately have run: "getCookedImage s = (if getMode MODE_Cursor s \<and> cuY s + k < lines s
      then do { c \<leftarrow> read_at i m; write_at i (reverseRendition c) m } else Some m)"
    using b(6) by (simp add: getCookedImage_def Let_def not_less flip: k_def P_def i_def)
  have len: "int (length m) = lines s * columns s"
    using b by (simp add: m_def P_def length_product length_upto)
  have nth: "nat (loc s x y) < length m \<and> m ! nat (loc s x y) = g (y, x)" if "on_screen s x y" for x y
    using product_grid_nth[of x "columns s" y "lines s"] that by (auto simp: m_def P_def on_screen_def loc_def)
  have i0: "0 \<le> i" using b by (simp add: i_def loc_def)
  have bad: "int (length m) \<le> i \<longleftrightarrow> cuX s = columns s \<and> cuY s + k = lines s - 1" if "cuY s + k < lines s"
  proof -
    have "scr_ok (s\<lparr>cuY := cuY s + k\<rparr>)" using cuY_ok[OF ok] b that by simp
    from loc_cursor[OF this] ok show ?thesis by (simp add: i_def loc_def len scr_ok_def)
  qed
  show ?thesis
  proof (cases "getMode MODE_Cursor s \<and> cuY s + k < lines s")
    case False
    then have "getCookedImage s = Some m" "\<not> at_cursor s x y" for x y
      by (auto simp: run at_cursor_def k_def)
    moreover have "\<not> (getMode MODE_Cursor s \<and> cuX s = columns s \<and> cuY s + (histLines s - histCursor s) = lines s - 1)"
      using False by (auto simp: k_def)
    ultimately show ?thesis using len nth by (simp add: g_def)
  next
    case True
    show ?thesis
    proof (cases "cuX s = columns s \<and> cuY s + k = lines s - 1")
      case t: True
      then have "read_at i m = None" using bad True by (auto simp: read_at_def)
      then show ?thesis using True t by (simp add: run k_def)
    next
      case f: False
      then have i1: "i < int (length m)" using bad True by linarith
      then have "getCookedImage s = Some (m[nat i := reverseRendition (m ! nat i)])"
        using True i0 by (simp add: run read_at_Some write_at_Some)
      moreover have "m[nat i := reverseRendition (m ! nat i)] ! nat (loc s x y) =
          (if (in_selection s x y \<noteq> getMode MODE_Screen s) \<noteq> at_cursor s x y
           then reverseRendition (paper_cell s x y) else paper_cell s x y)" if xy: "on_screen s x y" for x y
      proof -
        have "at_cursor s x y \<longleftrightarrow> nat (loc s x y) = nat i"
          using True i0 loc_nonneg[of x y s] xy b by (auto simp: at_cursor_def i_def k_def on_screen_def)
        then show ?thesis
          using nth[OF xy] by (cases "in_selection s x y"; cases "getMode MODE_Screen s") (auto simp: g_def nth_list_update)
      qed
      ultimately show ?thesis using f len by (simp add: k_def)
    qed
  qed
qed

subsection \<open>Witnesses\<close>

definition last_line_screen :: screen where
  "last_line_screen = tiny_screen\<lparr>cuY := 1, histMaxLines := 5\<rparr>"

theorem index_feeds_paper_witness:
  "\<exists>t. index last_line_screen = Some t \<and> length (paper t) = 3 \<and> histCursor t = histLines t"
proof -
  have ok: "scr_ok last_line_screen" by (simp add: last_line_screen_def tiny_screen_def scr_ok_def)
  obtain t where t: "index last_line_screen = Some t" "paper t = paper last_line_screen @ [replicate 3 (blank SP last_line_screen)]"
    "histCursor t = histLines t"
    using index_feeds_paper[OF ok] by (auto simp: last_line_screen_def tiny_screen_def)
  have "length (paper last_line_screen) = 2" by (simp add: paper_def last_line_screen_def tiny_screen_def upto_rec1)
  with t show ?thesis by auto
qed

theorem cooked_image_is_paper_witness:
  "(\<exists>m. getCookedImage tiny_screen = Some m \<and> length m = 6) \<and> getCookedImage pending_screen = None"
  using cooked_image_is_paper[OF tiny_screen_ok] cooked_image_is_paper[OF pending_screen_ok]
  by (auto simp: tiny_screen_def pending_screen_def getMode_def)

end
