(* ===== verification/TermEmu.thy ===== *)
theory TermEmu
  imports TermPaper
begin

section \<open>The terminal konsole: the emulation\<close>

text \<open>
  \<open>konsole/src/TEmuVt102.C\<close> and \<open>TEmulation.C\<close>: the scanner that separates the bytes of the program into tokens, the
  dispatch of the tokens to the operations of the screen, the modes, the reports and the keyboard. What
  the emulation sends to the program and to the window is appended to the log \<open>out\<close>. Characters that it cannot decode
  (\<open>ReportErrorToken\<close>) and sequences that it ignores (among them those of \<open>ENABLE_COMPAT\<close>) change no state; the message
  on the standard output is not modelled. A \<open>None\<close> comes from an operation that leaves an array.
\<close>

subsection \<open>State\<close>

definition MAXPBUF :: nat where "MAXPBUF = 80"
definition MAXARGS :: nat where "MAXARGS = 15"

datatype effect =
    SndBlock string
  | Bell
  | SetMouseMarks bool
  | ChangeTitle int string
  | ChangeColumns int
  | SetImage "ca list" int int
  | SetScroll int int
  | ImageSizeChanged int int
  | StartTimer
  | SetSelection string

record emu =
  screen0 :: screen
  screen1 :: screen
  alt_scr :: bool
  emu_curr :: "mode \<Rightarrow> bool"
  emu_save :: "mode \<Rightarrow> bool"
  pbuf :: "char list"
  ppos :: nat
  argv :: "int list"
  argc :: nat
  emulation :: string
  connected :: bool
  bulk_nlcnt :: nat
  bulk_incnt :: nat
  gui_lines :: nat
  out :: "effect list"

definition scr :: "emu \<Rightarrow> screen" where
  "scr e = (if alt_scr e then screen1 e else screen0 e)"

definition put_scr :: "screen \<Rightarrow> emu \<Rightarrow> emu" where
  "put_scr s e = (if alt_scr e then e\<lparr>screen1 := s\<rparr> else e\<lparr>screen0 := s\<rparr>)"

text \<open>A call \<open>scr->f()\<close>, of an operation that may leave an array and of one that cannot.\<close>

definition on_scr :: "(screen \<Rightarrow> screen option) \<Rightarrow> emu \<Rightarrow> emu option" where
  "on_scr f e = do { s \<leftarrow> f (scr e); Some (put_scr s e) }"

definition on_scr' :: "(screen \<Rightarrow> screen) \<Rightarrow> emu \<Rightarrow> emu option" where
  "on_scr' f e = Some (put_scr (f (scr e)) e)"

definition send :: "effect \<Rightarrow> emu \<Rightarrow> emu" where
  "send x e = e\<lparr>out := out e @ [x]\<rparr>"

subsection \<open>Reports\<close>

definition sendString :: "string \<Rightarrow> emu \<Rightarrow> emu" where
  "sendString s e = send (SndBlock (cstr s)) e"

abbreviation ESC :: char where "ESC \<equiv> CHR 0x1B"

definition emu_getMode :: "mode \<Rightarrow> emu \<Rightarrow> bool" where
  "emu_getMode m e = emu_curr e m"

definition reportTerminalType :: "emu \<Rightarrow> emu" where
  "reportTerminalType e =
     (if emu_getMode MODE_Ansi e then sendString (ESC # ''[?1;2c'') e else sendString (ESC # ''/Z'') e)"

definition reportStatus :: "emu \<Rightarrow> emu" where
  "reportStatus e = sendString (ESC # ''[0n'') e"

definition reportAnswerBack :: "emu \<Rightarrow> emu" where
  "reportAnswerBack e = sendString ''konsole'' e"

definition reportCursorPosition :: "emu \<Rightarrow> emu" where
  "reportCursorPosition e =
     sendString (ESC # ''['' @ dec_of_int (cuY (scr e) + 1) @ '';'' @ dec_of_int (cuX (scr e) + 1) @ ''R'') e"

text \<open>\<open>%c\<close> writes the lowest byte.\<close>

definition reportMouseEvent :: "int \<Rightarrow> int \<Rightarrow> int \<Rightarrow> emu \<Rightarrow> emu" where
  "reportMouseEvent ev x y e =
     sendString (ESC # ''[M'' @ map (\<lambda>n. char_of (nat ((n + 32) mod 256))) [ev, x, y]) e"

definition reportTerminalParms :: "int \<Rightarrow> emu \<Rightarrow> emu" where
  "reportTerminalParms p e = sendString (ESC # ''['' @ dec_of_int p @ '';1;1;112;112;1;0x'') e"

subsection \<open>Modes\<close>

definition is_screen_mode :: "mode \<Rightarrow> bool" where
  "is_screen_mode m \<longleftrightarrow> m \<in> {MODE_Origin, MODE_Wrap, MODE_Insert, MODE_Screen, MODE_Cursor, MODE_NewLine}"

definition emu_setMode :: "mode \<Rightarrow> emu \<Rightarrow> emu option" where
  "emu_setMode m e = do {
     let e = e\<lparr>emu_curr := (emu_curr e)(m := True)\<rparr>;
     e \<leftarrow> (case m of
         MODE_Mouse1000 \<Rightarrow> Some (send (SetMouseMarks False) e)
       | MODE_AppScreen \<Rightarrow> do { s \<leftarrow> clearEntireScreen (clearSelection (screen1 e));
                              Some (e\<lparr>screen1 := s, alt_scr := True\<rparr>) }
       | _ \<Rightarrow> Some e);
     Some (if is_screen_mode m then e\<lparr>screen0 := setMode m (screen0 e), screen1 := setMode m (screen1 e)\<rparr> else e) }"

definition emu_resetMode :: "mode \<Rightarrow> emu \<Rightarrow> emu" where
  "emu_resetMode m e =
     (let e = e\<lparr>emu_curr := (emu_curr e)(m := False)\<rparr>;
          e = (case m of
              MODE_Mouse1000 \<Rightarrow> send (SetMouseMarks True) e
            | MODE_AppScreen \<Rightarrow> e\<lparr>screen0 := clearSelection (screen0 e), alt_scr := False\<rparr>
            | _ \<Rightarrow> e)
      in if is_screen_mode m then e\<lparr>screen0 := resetMode m (screen0 e), screen1 := resetMode m (screen1 e)\<rparr> else e)"

definition emu_saveMode :: "mode \<Rightarrow> emu \<Rightarrow> emu" where
  "emu_saveMode m e = e\<lparr>emu_save := (emu_save e)(m := emu_curr e m)\<rparr>"

definition emu_restoreMode :: "mode \<Rightarrow> emu \<Rightarrow> emu option" where
  "emu_restoreMode m e = (if emu_save e m then emu_setMode m e else Some (emu_resetMode m e))"

definition emu_setCharset :: "int \<Rightarrow> char \<Rightarrow> emu \<Rightarrow> emu" where
  "emu_setCharset n cs e = e\<lparr>screen0 := setCharset n cs (screen0 e), screen1 := setCharset n cs (screen1 e)\<rparr>"

definition setColumns :: "int \<Rightarrow> emu \<Rightarrow> emu" where
  "setColumns cols e = send (ChangeColumns cols) e"

subsection \<open>Scanner state\<close>

definition emu_reset :: "emu \<Rightarrow> emu" where
  "emu_reset e = e\<lparr>ppos := 0, argc := 0, argv := (argv e)[0 := 0, 1 := 0]\<rparr>"

definition resetTerminal :: "emu \<Rightarrow> emu option" where
  "resetTerminal e = do {
     let e = emu_reset e;
     let e = emu_saveMode MODE_Mouse1000 (emu_resetMode MODE_Mouse1000 e);
     let e = emu_saveMode MODE_AppCuKeys (emu_resetMode MODE_AppCuKeys e);
     let e = emu_saveMode MODE_AppScreen (emu_resetMode MODE_AppScreen e);
     let e = emu_resetMode MODE_NewLine e;
     e \<leftarrow> emu_setMode MODE_Ansi e;
     s0 \<leftarrow> reset (screen0 e);
     let e = e\<lparr>screen0 := s0\<rparr>;
     s1 \<leftarrow> reset (screen1 e);
     Some (e\<lparr>screen1 := s1\<rparr>) }"

text \<open>The constructor; \<open>g\<close>, \<open>gs\<close> and \<open>mem\<close> hold what the memory held before.\<close>

definition VT102Emulation :: "emu \<Rightarrow> (nat \<Rightarrow> screen) \<Rightarrow> (nat \<Rightarrow> nat \<Rightarrow> ca) \<Rightarrow> int \<Rightarrow> int \<Rightarrow> string \<Rightarrow> emu option" where
  "VT102Emulation g gs mem lns cols term = do {
     s0 \<leftarrow> TEScreen (gs 0) (mem 0) lns cols;
     let s0 = setHistMaxLines 2000 s0;
     s1 \<leftarrow> TEScreen (gs 1) (mem 1) lns cols;
     let e = g\<lparr>screen0 := s0, screen1 := s1, alt_scr := False, bulk_nlcnt := 0, bulk_incnt := 0, connected := False,
               gui_lines := nat lns\<rparr>;
     e \<leftarrow> resetTerminal e;
     e \<leftarrow> emu_setMode MODE_BsHack e;
     Some (e\<lparr>emulation := term\<rparr>) }"

definition bulkNewline :: "emu \<Rightarrow> emu" where
  "bulkNewline e = e\<lparr>bulk_nlcnt := bulk_nlcnt e + 1, bulk_incnt := 0\<rparr>"

definition emu_NewLine :: "emu \<Rightarrow> emu option" where
  "emu_NewLine e = do { e \<leftarrow> on_scr NewLine e; Some (bulkNewline e) }"

subsection \<open>Tokens\<close>

text \<open>\<open>TY_CONSTR\<close> keeps the lowest 16 bits of the parameter of a \<open>TY_CSI_PS\<close> or \<open>TY_CSI_PR\<close> token.\<close>

datatype token =
    TY_CHR | TY_CTL char | TY_ESC char | TY_ESC_CS | TY_ESC_DE char
  | TY_CSI_PS char int | TY_CSI_PN char | TY_CSI_PR char int | TY_VT52 char

definition CSI_PS :: "char \<Rightarrow> int \<Rightarrow> token" where "CSI_PS c n = TY_CSI_PS c (n mod 65536)"
definition CSI_PR :: "char \<Rightarrow> int \<Rightarrow> token" where "CSI_PR c n = TY_CSI_PR c (n mod 65536)"

definition char_of_int :: "int \<Rightarrow> char" where
  "char_of_int p = char_of (nat (p mod 256))"

definition tau_ctl :: "char \<Rightarrow> emu \<Rightarrow> emu option" where
  "tau_ctl c e =
     (if c = CHR 0x05 then Some (reportAnswerBack e)
      else if c = CHR 0x07 then Some (send Bell e)
      else if c = CHR 0x08 then on_scr' BackSpace e
      else if c = CHR 0x09 then on_scr Tabulate e
      else if c \<in> {CHR 0x0A, CHR 0x0B, CHR 0x0C} then emu_NewLine e
      else if c = CHR 0x0D then on_scr' Return e
      else if c = CHR 0x0E then on_scr' (useCharset 1) e
      else if c = CHR 0x0F then on_scr' (useCharset 0) e
      else if c \<in> {CHR 0x18, CHR 0x1A} then on_scr (ShowCharacter (CHR 0x02)) e
      else Some e)"

definition tau_esc :: "char \<Rightarrow> emu \<Rightarrow> emu option" where
  "tau_esc c e =
     (if c = CHR ''D'' then on_scr index e
      else if c = CHR ''E'' then on_scr NextLine e
      else if c = CHR ''H'' then on_scr (changeTabStop True) e
      else if c = CHR ''M'' then on_scr reverseIndex e
      else if c = CHR ''Z'' then Some (reportTerminalType e)
      else if c = CHR ''c'' then resetTerminal e
      else if c = CHR ''n'' then on_scr' (useCharset 2) e
      else if c = CHR ''o'' then on_scr' (useCharset 3) e
      else if c = CHR ''7'' then on_scr' saveCursor e
      else if c = CHR ''8'' then on_scr' restoreCursor e
      else if c = CHR ''='' then emu_setMode MODE_AppKeyPad e
      else if c = CHR ''>'' then Some (emu_resetMode MODE_AppKeyPad e)
      else if c = CHR ''<'' then emu_setMode MODE_Ansi e
      else Some e)"

definition tau_rendition :: "int \<Rightarrow> emu \<Rightarrow> emu option" where
  "tau_rendition n e =
     (if n = 0 then on_scr' setDefaultRendition e
      else if n = 1 then on_scr' (setRendition RE_BOLD) e
      else if n = 4 then on_scr' (setRendition RE_UNDERLINE) e
      else if n = 5 then on_scr' (setRendition RE_BLINK) e
      else if n = 7 then on_scr' (setRendition RE_REVERSE) e
      else if n = 22 then on_scr' (resetRendition RE_BOLD) e
      else if n = 24 then on_scr' (resetRendition RE_UNDERLINE) e
      else if n = 25 then on_scr' (resetRendition RE_BLINK) e
      else if n = 27 then on_scr' (resetRendition RE_REVERSE) e
      else if 30 \<le> n \<and> n \<le> 37 then on_scr' (setForeColor (n - 30)) e
      else if n = 39 then on_scr' setForeColorToDefault e
      else if 40 \<le> n \<and> n \<le> 47 then on_scr' (setBackColor (n - 40)) e
      else if n = 49 then on_scr' setBackColorToDefault e
      else if 90 \<le> n \<and> n \<le> 97 then on_scr' (setForeColor (n - 90 + 8)) e
      else if 100 \<le> n \<and> n \<le> 107 then on_scr' (setBackColor (n - 100 + 8)) e
      else Some e)"

definition tau_csi_ps :: "char \<Rightarrow> int \<Rightarrow> emu \<Rightarrow> emu option" where
  "tau_csi_ps c n e =
     (if c = CHR ''K'' \<and> n = 0 then on_scr clearToEndOfLine e
      else if c = CHR ''K'' \<and> n = 1 then on_scr clearToBeginOfLine e
      else if c = CHR ''K'' \<and> n = 2 then on_scr clearEntireLine e
      else if c = CHR ''J'' \<and> n = 0 then on_scr clearToEndOfScreen e
      else if c = CHR ''J'' \<and> n = 1 then on_scr clearToBeginOfScreen e
      else if c = CHR ''J'' \<and> n = 2 then on_scr clearEntireScreen e
      else if c = CHR ''g'' \<and> n = 0 then on_scr (changeTabStop False) e
      else if c = CHR ''g'' \<and> n = 3 then on_scr clearTabStops e
      else if c = CHR ''h'' \<and> n = 4 then on_scr' (setMode MODE_Insert) e
      else if c = CHR ''h'' \<and> n = 20 then emu_setMode MODE_NewLine e
      else if c = CHR ''l'' \<and> n = 4 then on_scr' (resetMode MODE_Insert) e
      else if c = CHR ''l'' \<and> n = 20 then Some (emu_resetMode MODE_NewLine e)
      else if c = CHR ''m'' then tau_rendition n e
      else if c = CHR ''n'' \<and> n = 5 then Some (reportStatus e)
      else if c = CHR ''n'' \<and> n = 6 then Some (reportCursorPosition e)
      else if c = CHR ''x'' \<and> n = 0 then Some (reportTerminalParms 2 e)
      else if c = CHR ''x'' \<and> n = 1 then Some (reportTerminalParms 3 e)
      else Some e)"

definition tau_csi_pn :: "char \<Rightarrow> int \<Rightarrow> int \<Rightarrow> emu \<Rightarrow> emu option" where
  "tau_csi_pn c p q e =
     (if c = CHR ''@'' then on_scr (insertChars p) e
      else if c = CHR ''A'' then on_scr' (cursorUp p) e
      else if c = CHR ''B'' then on_scr' (cursorDown p) e
      else if c = CHR ''C'' then on_scr' (cursorRight p) e
      else if c = CHR ''D'' then on_scr' (cursorLeft p) e
      else if c = CHR ''G'' then on_scr' (setCursorX p) e
      else if c = CHR ''H'' then on_scr' (setCursorYX p q) e
      else if c = CHR ''L'' then on_scr (insertLines p) e
      else if c = CHR ''M'' then on_scr (deleteLines p) e
      else if c = CHR ''P'' then on_scr (deleteChars p) e
      else if c = CHR ''X'' then on_scr (eraseChars p) e
      else if c = CHR ''c'' then Some (reportTerminalType e)
      else if c = CHR ''d'' then on_scr' (setCursorY p) e
      else if c = CHR ''f'' then on_scr' (setCursorYX p q) e
      else if c = CHR ''r'' then on_scr' (setMargins p q) e
      else Some e)"

definition tau_csi_pr :: "char \<Rightarrow> int \<Rightarrow> emu \<Rightarrow> emu option" where
  "tau_csi_pr c n e =
     (if c = CHR ''h'' \<and> n = 1 then emu_setMode MODE_AppCuKeys e
      else if c = CHR ''l'' \<and> n = 1 then Some (emu_resetMode MODE_AppCuKeys e)
      else if c = CHR ''s'' \<and> n = 1 then Some (emu_saveMode MODE_AppCuKeys e)
      else if c = CHR ''r'' \<and> n = 1 then emu_restoreMode MODE_AppCuKeys e
      else if c = CHR ''l'' \<and> n = 2 then Some (emu_resetMode MODE_Ansi e)
      else if c = CHR ''h'' \<and> n = 3 then Some (setColumns 132 e)
      else if c = CHR ''l'' \<and> n = 3 then Some (setColumns 80 e)
      else if c = CHR ''h'' \<and> n = 5 then on_scr' (setMode MODE_Screen) e
      else if c = CHR ''l'' \<and> n = 5 then on_scr' (resetMode MODE_Screen) e
      else if c = CHR ''h'' \<and> n = 6 then on_scr' (setMode MODE_Origin) e
      else if c = CHR ''l'' \<and> n = 6 then on_scr' (resetMode MODE_Origin) e
      else if c = CHR ''s'' \<and> n = 6 then on_scr' (saveMode MODE_Origin) e
      else if c = CHR ''r'' \<and> n = 6 then on_scr' (restoreMode MODE_Origin) e
      else if c = CHR ''h'' \<and> n = 7 then on_scr' (setMode MODE_Wrap) e
      else if c = CHR ''l'' \<and> n = 7 then on_scr' (resetMode MODE_Wrap) e
      else if c = CHR ''s'' \<and> n = 7 then on_scr' (saveMode MODE_Wrap) e
      else if c = CHR ''r'' \<and> n = 7 then on_scr' (restoreMode MODE_Wrap) e
      else if c = CHR ''h'' \<and> n = 25 then emu_setMode MODE_Cursor e
      else if c = CHR ''l'' \<and> n = 25 then Some (emu_resetMode MODE_Cursor e)
      else if c = CHR ''h'' \<and> n \<in> {47, 1047} then emu_setMode MODE_AppScreen e
      else if c = CHR ''l'' \<and> n \<in> {47, 1047} then Some (emu_resetMode MODE_AppScreen e)
      else if c = CHR ''h'' \<and> n = 1000 then emu_setMode MODE_Mouse1000 e
      else if c = CHR ''l'' \<and> n = 1000 then Some (emu_resetMode MODE_Mouse1000 e)
      else if c = CHR ''s'' \<and> n = 1000 then Some (emu_saveMode MODE_Mouse1000 e)
      else if c = CHR ''r'' \<and> n = 1000 then emu_restoreMode MODE_Mouse1000 e
      else if c = CHR ''h'' \<and> n = 1048 then on_scr' saveCursor e
      else if c = CHR ''l'' \<and> n = 1048 then on_scr' restoreCursor e
      else Some e)"

definition tau_vt52 :: "char \<Rightarrow> int \<Rightarrow> int \<Rightarrow> emu \<Rightarrow> emu option" where
  "tau_vt52 c p q e =
     (if c = CHR ''A'' then on_scr' (cursorUp 1) e
      else if c = CHR ''B'' then on_scr' (cursorDown 1) e
      else if c = CHR ''C'' then on_scr' (cursorRight 1) e
      else if c = CHR ''D'' then on_scr' (cursorLeft 1) e
      else if c = CHR ''F'' then on_scr' (setAndUseCharset 0 (CHR ''0'')) e
      else if c = CHR ''G'' then on_scr' (setAndUseCharset 0 (CHR ''B'')) e
      else if c = CHR ''H'' then on_scr' (setCursorYX 1 1) e
      else if c = CHR ''I'' then on_scr reverseIndex e
      else if c = CHR ''J'' then on_scr clearToEndOfScreen e
      else if c = CHR ''K'' then on_scr clearToEndOfLine e
      else if c = CHR ''Y'' then on_scr' (setCursorYX (p - 31) (q - 31)) e
      else if c = CHR ''Z'' then Some (reportTerminalType e)
      else if c = CHR ''<'' then emu_setMode MODE_Ansi e
      else if c = CHR ''='' then emu_setMode MODE_AppKeyPad e
      else if c = CHR ''>'' then Some (emu_resetMode MODE_AppKeyPad e)
      else Some e)"

definition tau :: "token \<Rightarrow> int \<Rightarrow> int \<Rightarrow> emu \<Rightarrow> emu option" where
  "tau t p q e = (case t of
       TY_CHR \<Rightarrow> on_scr (ShowCharacter (char_of_int p)) e
     | TY_CTL c \<Rightarrow> tau_ctl c e
     | TY_ESC c \<Rightarrow> tau_esc c e
     | TY_ESC_CS \<Rightarrow> Some (emu_setCharset (p - 40) (char_of_int q) e)
     | TY_ESC_DE c \<Rightarrow> (if c = CHR ''8'' then on_scr helpAlign e else Some e)
     | TY_CSI_PS c n \<Rightarrow> tau_csi_ps c n e
     | TY_CSI_PN c \<Rightarrow> tau_csi_pn c p q e
     | TY_CSI_PR c n \<Rightarrow> tau_csi_pr c n e
     | TY_VT52 c \<Rightarrow> tau_vt52 c p q e)"

subsection \<open>The scanner\<close>

definition is_CTL :: "char \<Rightarrow> bool" where "is_CTL c \<longleftrightarrow> code c < 32"
definition is_CHR :: "char \<Rightarrow> bool" where "is_CHR c \<longleftrightarrow> 32 \<le> code c"
definition is_CPN :: "char \<Rightarrow> bool" where "is_CPN c \<longleftrightarrow> c \<in> set ''@ABCDGHLMPXcdfry''"
definition is_DIG :: "char \<Rightarrow> bool" where "is_DIG c \<longleftrightarrow> c \<in> set ''0123456789''"
definition is_SCS :: "char \<Rightarrow> bool" where "is_SCS c \<longleftrightarrow> c \<in> set ''()+*''"
definition is_GRP :: "char \<Rightarrow> bool" where "is_GRP c \<longleftrightarrow> c \<in> set ''()+*#[]''"

text \<open>\<open>XtermHack\<close>: \<open>strncpy\<close> with a negative count writes without bound.\<close>

function title_digits :: "char list \<Rightarrow> nat \<Rightarrow> nat \<Rightarrow> int \<Rightarrow> nat \<times> int" where
  "title_digits buf n i arg =
     (if i < n \<and> 48 \<le> code (buf ! i) \<and> code (buf ! i) < 57
      then title_digits buf n (i + 1) (w32 (10 * arg + (int (code (buf ! i)) - 48)))
      else (i, arg))"
  by pat_completeness auto
termination
  by (relation "measure (\<lambda>(buf, n, i, arg). n - i)") auto

declare title_digits.simps [simp del]

definition XtermHack :: "emu \<Rightarrow> emu option" where
  "XtermHack e =
     (let (i, arg) = title_digits (pbuf e) (ppos e) 2 0
      in if pbuf e ! i \<noteq> CHR '';'' then Some e
         else if ppos e < i + 2 then None
         else let str = cstr (take (ppos e - i - 2) (drop (i + 1) (pbuf e)))
              in Some (if arg \<le> 2 then send (ChangeTitle arg str) e else e))"

text \<open>\<open>Dig\<close> and \<open>Arg\<close>.\<close>

definition scan_digit :: "char \<Rightarrow> emu \<Rightarrow> emu" where
  "scan_digit c e = e\<lparr>argv := (argv e)[argc e := w32 (10 * (argv e ! argc e) + int (code c) - 48)]\<rparr>"

definition scan_arg :: "emu \<Rightarrow> emu" where
  "scan_arg e = (let n = min (argc e + 1) (MAXARGS - 1) in e\<lparr>argc := n, argv := (argv e)[n := 0]\<rparr>)"

definition tau_reset :: "token \<Rightarrow> int \<Rightarrow> int \<Rightarrow> emu \<Rightarrow> emu option" where
  "tau_reset t p q e = do { e \<leftarrow> tau t p q e; Some (emu_reset e) }"

fun tau_args :: "(int \<Rightarrow> token) \<Rightarrow> int list \<Rightarrow> emu \<Rightarrow> emu option" where
  "tau_args t [] e = Some e"
| "tau_args t (a # as) e = do { e \<leftarrow> tau (t a) 0 0 e; tau_args t as e }"

definition num :: "char \<Rightarrow> int" where "num c = int (code c)"

definition scan_ansi :: "char \<Rightarrow> emu \<Rightarrow> emu option" where
  "scan_ansi cc e =
     (let s = pbuf e; p = ppos e; a = argv e; n = argc e; Xpe = p \<ge> 2 \<and> s ! 1 = CHR '']''
      in if p = 1 \<and> s ! 0 = ESC then Some e
         else if p = 2 \<and> is_GRP (s ! 1) then Some e
         else if Xpe \<and> code cc = 7 then do { e \<leftarrow> XtermHack e; Some (emu_reset e) }
         else if Xpe then Some e
         else if p = 3 \<and> s ! 2 = CHR ''?'' then Some e
         else if p = 1 \<and> is_CHR (s ! 0) then tau_reset TY_CHR (num (s ! 0)) 0 e
         else if p = 2 \<and> s ! 0 = ESC then tau_reset (TY_ESC (s ! 1)) 0 0 e
         else if p = 3 \<and> is_SCS (s ! 1) then tau_reset TY_ESC_CS (num (s ! 1)) (num (s ! 2)) e
         else if p = 3 \<and> s ! 1 = CHR ''#'' then tau_reset (TY_ESC_DE (s ! 2)) 0 0 e
         else if p \<ge> 3 \<and> s ! 2 \<noteq> CHR ''?'' \<and> is_CPN cc then tau_reset (TY_CSI_PN cc) (a ! 0) (a ! 1) e
         else if p \<ge> 3 \<and> is_DIG cc then Some (scan_digit cc e)
         else if p \<ge> 3 \<and> cc = CHR '';'' then Some (scan_arg e)
         else do { e \<leftarrow> tau_args (if p \<ge> 3 \<and> s ! 2 = CHR ''?'' then CSI_PR cc else CSI_PS cc) (take (n + 1) a) e;
                   Some (emu_reset e) })"

definition scan_vt52 :: "char \<Rightarrow> emu \<Rightarrow> emu option" where
  "scan_vt52 cc e =
     (let s = pbuf e; p = ppos e
      in if p = 1 \<and> s ! 0 = ESC then Some e
         else if p = 1 \<and> is_CHR (s ! 0) then tau_reset TY_CHR (num (s ! 0)) 0 e
         else if p = 2 \<and> s ! 1 = CHR ''Y'' then Some e
         else if p = 3 \<and> s ! 1 = CHR ''Y'' then Some e
         else if p < 4 then tau_reset (TY_VT52 (s ! 1)) 0 0 e
         else tau_reset (TY_VT52 (s ! 1)) (num (s ! 2)) (num (s ! 3)) e)"

text \<open>\<open>onRcvByte\<close>: DEL is ignored, a control character acts at once, the rest goes into the buffer.\<close>

definition store_byte :: "char \<Rightarrow> emu \<Rightarrow> emu" where
  "store_byte cc e = e\<lparr>pbuf := (pbuf e)[ppos e := cc], ppos := min (ppos e + 1) (MAXPBUF - 1)\<rparr>"

definition onRcvByte :: "char \<Rightarrow> emu \<Rightarrow> emu option" where
  "onRcvByte cc e =
     (if code cc = 127 then Some e
      else
        let Xte = ppos e \<ge> 2 \<and> pbuf e ! 1 = CHR '']'' \<and> code cc = 7;
            ctl = is_CTL cc \<and> \<not> Xte;
            e = (if ctl \<and> cc \<in> {CHR 0x18, CHR 0x1A, ESC} then emu_reset e else e)
        in if ctl \<and> cc \<noteq> ESC then tau (TY_CTL cc) 0 0 e
           else let e = store_byte cc e
                in if emu_getMode MODE_Ansi e then scan_ansi cc e else scan_vt52 cc e)"

fun rcv_bytes :: "string \<Rightarrow> emu \<Rightarrow> emu option" where
  "rcv_bytes [] e = Some e"
| "rcv_bytes (c # cs) e = do { e \<leftarrow> onRcvByte c e; rcv_bytes cs e }"

subsection \<open>Showing, input, and the window\<close>

definition showBulk :: "emu \<Rightarrow> emu option" where
  "showBulk e =
     (let e = e\<lparr>bulk_nlcnt := 0, bulk_incnt := 0\<rparr>
      in if connected e
         then do { im \<leftarrow> getCookedImage (scr e);
                   let e = send (SetImage im (lines (scr e)) (columns (scr e))) e;
                   Some (send (SetScroll (histCursor (scr e)) (histLines (scr e))) e) }
         else Some e)"

definition bulkEnd :: "emu \<Rightarrow> emu option" where
  "bulkEnd e = (if bulk_nlcnt e > gui_lines e \<or> bulk_incnt e > 20 then showBulk e else Some (send StartTimer e))"

definition onRcvBlock :: "string \<Rightarrow> emu \<Rightarrow> emu option" where
  "onRcvBlock bs e = do {
     e \<leftarrow> rcv_bytes bs (e\<lparr>bulk_incnt := bulk_incnt e + 1\<rparr>);
     bulkEnd e }"

definition onMouse :: "int \<Rightarrow> int \<Rightarrow> int \<Rightarrow> emu \<Rightarrow> emu" where
  "onMouse cb cx cy e = (if \<not> connected e then e else reportMouseEvent cb cx cy e)"

datatype qkey =
    Key_Return | Key_Backspace | Key_Delete | Key_Up | Key_Down | Key_Right | Key_Left
  | Key_F nat | Key_Home | Key_End | Key_Prior | Key_Next | Key_Insert | Key_Space | Key_Print | Key_other

definition arrow :: "char \<Rightarrow> emu \<Rightarrow> string" where
  "arrow c e = (if \<not> emu_getMode MODE_Ansi e then [ESC, c]
     else if emu_getMode MODE_AppCuKeys e then [ESC, CHR ''O'', c] else [ESC, CHR ''['', c])"

text \<open>The string of a key; \<open>None\<close> for a key that \<open>switch (key)\<close> does not list.\<close>

definition key_string :: "qkey \<Rightarrow> emu \<Rightarrow> string option" where
  "key_string k e = (case k of
       Key_Return \<Rightarrow> Some (if emu_getMode MODE_NewLine e then [CR, LF] else [CR])
     | Key_Backspace \<Rightarrow> Some (if emu_getMode MODE_BsHack e then [CHR 0x7F] else [CHR 0x08])
     | Key_Delete \<Rightarrow> Some (if emu_getMode MODE_BsHack e then ESC # ''[3~'' else [CHR 0x7F])
     | Key_Up \<Rightarrow> Some (arrow (CHR ''A'') e)
     | Key_Down \<Rightarrow> Some (arrow (CHR ''B'') e)
     | Key_Right \<Rightarrow> Some (arrow (CHR ''C'') e)
     | Key_Left \<Rightarrow> Some (arrow (CHR ''D'') e)
     | Key_F n \<Rightarrow>
         (if 1 \<le> n \<and> n \<le> 5
          then Some (if emulation e = ''xterm'' then ESC # ''[1'' @ dec_of_nat n @ ''~''
                     else ESC # ''[['' @ [char_of (64 + n)])
          else if n \<in> {6, 7, 8} then Some (ESC # ''[1'' @ dec_of_nat (n + 1) @ ''~'')
          else if n \<in> {9, 10} then Some (ESC # ''[2'' @ dec_of_nat (n - 9) @ ''~'')
          else if n \<in> {11, 12} then Some (ESC # ''[2'' @ dec_of_nat (n - 8) @ ''~'')
          else None)
     | Key_Home \<Rightarrow> Some (ESC # ''[H'')
     | Key_End \<Rightarrow> Some (ESC # ''[F'')
     | Key_Prior \<Rightarrow> Some (ESC # ''[5~'')
     | Key_Next \<Rightarrow> Some (ESC # ''[6~'')
     | Key_Insert \<Rightarrow> Some (ESC # ''[2~'')
     | _ \<Rightarrow> None)"

definition onKeyPress :: "qkey \<Rightarrow> bool \<Rightarrow> bool \<Rightarrow> int \<Rightarrow> emu \<Rightarrow> emu" where
  "onKeyPress k alt ctrl ascii e =
     (if \<not> connected e then e
      else
        let e = put_scr (setHistCursor (histLines (scr e)) (scr e)) e;
            e = (if alt then sendString [ESC] e else e)
        in case key_string k e of
             Some str \<Rightarrow> sendString str e
           | None \<Rightarrow>
               if ctrl \<and> k = Key_Space then send (SndBlock [NUL]) e
               else if ctrl \<and> k = Key_Print then reportAnswerBack e
               else if ascii > 0 then send (SndBlock [char_of_int ascii]) e
               else e)"

definition onImageSizeChange :: "int \<Rightarrow> int \<Rightarrow> emu \<Rightarrow> emu option" where
  "onImageSizeChange lns cols e =
     (let e = (if alt_scr e then e\<lparr>screen0 := resizeImage lns cols (screen0 e)\<rparr>
               else e\<lparr>screen1 := resizeImage lns cols (screen1 e)\<rparr>)
      in if \<not> connected e then Some e
         else do { e \<leftarrow> showBulk (put_scr (resizeImage lns cols (scr e)) e);
                   Some (send (ImageSizeChanged lns cols) e) })"

definition onHistoryCursorChange :: "int \<Rightarrow> emu \<Rightarrow> emu option" where
  "onHistoryCursorChange cursor e =
     (if \<not> connected e then Some e else showBulk (put_scr (setHistCursor cursor (scr e)) e))"

definition onSelectionBegin :: "int \<Rightarrow> int \<Rightarrow> emu \<Rightarrow> emu option" where
  "onSelectionBegin x y e = (if \<not> connected e then Some e else showBulk (put_scr (setSelBeginXY x y (scr e)) e))"

definition onSelectionExtend :: "int \<Rightarrow> int \<Rightarrow> emu \<Rightarrow> emu option" where
  "onSelectionExtend x y e = (if \<not> connected e then Some e else showBulk (put_scr (setSelExtentXY x y (scr e)) e))"

definition emu_clearSelection :: "emu \<Rightarrow> emu option" where
  "emu_clearSelection e = (if \<not> connected e then Some e else showBulk (put_scr (clearSelection (scr e)) e))"

text \<open>\<open>setConnect\<close> of both classes.\<close>

definition setConnect :: "bool \<Rightarrow> emu \<Rightarrow> emu option" where
  "setConnect c e = do {
     let e = e\<lparr>connected := c\<rparr>;
     e \<leftarrow> (if c then showBulk e else Some (put_scr (clearSelection (scr e)) e));
     if c then (if emu_getMode MODE_Mouse1000 e then emu_setMode MODE_Mouse1000 e else Some (emu_resetMode MODE_Mouse1000 e))
     else Some e }"

end
