(* ===== verification/TermScan.thy ===== *)
theory TermScan
  imports TermEmu
begin

section \<open>The terminal konsole: properties of the emulation\<close>

subsection \<open>The scanner stays within its buffers\<close>

definition scan_ok :: "emu \<Rightarrow> bool" where
  "scan_ok e \<longleftrightarrow> length (pbuf e) = MAXPBUF \<and> ppos e < MAXPBUF \<and> length (argv e) = MAXARGS \<and> argc e < MAXARGS"

text \<open>The fields of the scanner, and the same emulation with others.\<close>

definition with_scan :: "char list \<times> nat \<times> int list \<times> nat \<Rightarrow> emu \<Rightarrow> emu" where
  "with_scan w e = (case w of (b, p, a, n) \<Rightarrow> e\<lparr>pbuf := b, ppos := p, argv := a, argc := n\<rparr>)"

definition scan_of :: "emu \<Rightarrow> char list \<times> nat \<times> int list \<times> nat" where
  "scan_of e = (pbuf e, ppos e, argv e, argc e)"

lemma with_scan_fields [simp]:
  "screen0 (with_scan w e) = screen0 e" "screen1 (with_scan w e) = screen1 e" "alt_scr (with_scan w e) = alt_scr e"
  "emu_curr (with_scan w e) = emu_curr e" "emu_save (with_scan w e) = emu_save e" "out (with_scan w e) = out e"
  "scr (with_scan w e) = scr e" "scan_of (with_scan w e) = w" "with_scan (scan_of e) e = e"
  "with_scan w (with_scan v e) = with_scan w e"
  by (simp_all add: with_scan_def scan_of_def scr_def split: prod.split)

lemma scan_of_ok: "scan_ok e \<longleftrightarrow> (case scan_of e of (b, p, a, n) \<Rightarrow>
    length b = MAXPBUF \<and> p < MAXPBUF \<and> length a = MAXARGS \<and> n < MAXARGS)"
  by (simp add: scan_ok_def scan_of_def)

lemma put_scr_scan [simp]: "put_scr s (with_scan w e) = with_scan w (put_scr s e)" "scan_of (put_scr s e) = scan_of e"
  by (simp_all add: put_scr_def with_scan_def scan_of_def split: prod.split)

lemma send_scan [simp]: "send x (with_scan w e) = with_scan w (send x e)" "scan_of (send x e) = scan_of e"
  by (simp_all add: send_def with_scan_def scan_of_def split: prod.split)

lemma on_scr_scan [simp]:
  "on_scr f (with_scan w e) = map_option (with_scan w) (on_scr f e)"
  "on_scr' g (with_scan w e) = map_option (with_scan w) (on_scr' g e)"
  by (cases "f (scr e)"; simp add: on_scr_def on_scr'_def)+

lemma report_scan [simp]:
  "reportTerminalType (with_scan w e) = with_scan w (reportTerminalType e)"
  "reportStatus (with_scan w e) = with_scan w (reportStatus e)"
  "reportAnswerBack (with_scan w e) = with_scan w (reportAnswerBack e)"
  "reportCursorPosition (with_scan w e) = with_scan w (reportCursorPosition e)"
  "reportTerminalParms p (with_scan w e) = with_scan w (reportTerminalParms p e)"
  "setColumns p (with_scan w e) = with_scan w (setColumns p e)"
  by (simp_all add: reportTerminalType_def reportStatus_def reportAnswerBack_def reportCursorPosition_def
      reportTerminalParms_def setColumns_def sendString_def emu_getMode_def)

lemma mode_scan [simp]:
  "emu_setMode m (with_scan w e) = map_option (with_scan w) (emu_setMode m e)"
  "emu_resetMode m (with_scan w e) = with_scan w (emu_resetMode m e)"
  "emu_saveMode m (with_scan w e) = with_scan w (emu_saveMode m e)"
proof -
  have u: "(with_scan w e)\<lparr>emu_curr := f\<rparr> = with_scan w (e\<lparr>emu_curr := f\<rparr>)"
    "(with_scan w e)\<lparr>screen1 := s, alt_scr := b\<rparr> = with_scan w (e\<lparr>screen1 := s, alt_scr := b\<rparr>)"
    "(with_scan w e)\<lparr>screen0 := s, alt_scr := b\<rparr> = with_scan w (e\<lparr>screen0 := s, alt_scr := b\<rparr>)"
    "(with_scan w e)\<lparr>screen0 := s, screen1 := t\<rparr> = with_scan w (e\<lparr>screen0 := s, screen1 := t\<rparr>)"
    "(with_scan w e)\<lparr>emu_save := f\<rparr> = with_scan w (e\<lparr>emu_save := f\<rparr>)" for e f s t b
    by (simp_all add: with_scan_def split: prod.split)
  show "emu_saveMode m (with_scan w e) = with_scan w (emu_saveMode m e)"
    by (simp add: emu_saveMode_def u)
  show "emu_resetMode m (with_scan w e) = with_scan w (emu_resetMode m e)"
    by (cases m) (simp_all add: emu_resetMode_def Let_def u)
  show "emu_setMode m (with_scan w e) = map_option (with_scan w) (emu_setMode m e)"
    by (cases m; cases "clearEntireScreen (clearSelection (screen1 e))") (simp_all add: emu_setMode_def Let_def u)
qed

lemma restore_scan [simp]: "emu_restoreMode m (with_scan w e) = map_option (with_scan w) (emu_restoreMode m e)"
  by (simp add: emu_restoreMode_def)

text \<open>The sequences \<open>CSI\<close> do not look at the scanner.\<close>

named_theorems scan_free_intros "operations of the emulation that do not look at the scanner"

definition scan_free :: "(emu \<Rightarrow> emu option) \<Rightarrow> bool" where
  "scan_free f \<longleftrightarrow> (\<forall>w e. f (with_scan w e) = map_option (with_scan w) (f e))"

lemma scan_freeD: "scan_free f \<Longrightarrow> f (with_scan w e) = map_option (with_scan w) (f e)"
  by (simp add: scan_free_def del: split_paired_All)

lemma scan_free_if [scan_free_intros]: "scan_free f \<Longrightarrow> scan_free g \<Longrightarrow> scan_free (\<lambda>e. if b then f e else g e)"
  by (simp add: scan_free_def del: split_paired_All)

lemma scan_free_ops [scan_free_intros]:
  "scan_free (\<lambda>e. on_scr f e)" "scan_free (\<lambda>e. on_scr' g e)" "scan_free (\<lambda>e. Some e)" "scan_free (\<lambda>e. emu_setMode m e)"
  "scan_free (\<lambda>e. emu_restoreMode m e)" "scan_free (\<lambda>e. Some (emu_resetMode m e))" "scan_free (\<lambda>e. Some (emu_saveMode m e))"
  "scan_free (\<lambda>e. Some (reportTerminalType e))" "scan_free (\<lambda>e. Some (reportStatus e))"
  "scan_free (\<lambda>e. Some (reportCursorPosition e))" "scan_free (\<lambda>e. Some (reportTerminalParms n e))"
  "scan_free (\<lambda>e. Some (setColumns n e))"
  by (simp_all add: scan_free_def del: split_paired_All)

lemma tau_scan_free:
  "scan_free (tau_csi_pn c p q)" "scan_free (tau_csi_ps c n)" "scan_free (tau_csi_pr c n)"
  unfolding tau_csi_pn_def tau_csi_ps_def tau_csi_pr_def tau_rendition_def
  by (intro scan_free_intros)+

lemma tau_csi_scan [simp]:
  "tau (TY_CSI_PN c) p q (with_scan w e) = map_option (with_scan w) (tau (TY_CSI_PN c) p q e)"
  "tau (TY_CSI_PS c n) p q (with_scan w e) = map_option (with_scan w) (tau (TY_CSI_PS c n) p q e)"
  "tau (TY_CSI_PR c n) p q (with_scan w e) = map_option (with_scan w) (tau (TY_CSI_PR c n) p q e)"
  "tau TY_CHR p q (with_scan w e) = map_option (with_scan w) (tau TY_CHR p q e)"
  by (simp_all add: tau_def tau_scan_free[THEN scan_freeD])

subsection \<open>Control sequences with parameters\<close>

text \<open>The scanner between two tokens, in ANSI mode; and within \<open>ESC [\<close>, or
  \<open>ESC [ ?\<close> with \<open>pr\<close>, the parameters \<open>as\<close> read so far.\<close>

definition ground :: "emu \<Rightarrow> bool" where
  "ground e \<longleftrightarrow> scan_ok e \<and> emu_getMode MODE_Ansi e \<and> ppos e = 0 \<and> argc e = 0 \<and> argv e ! 0 = 0 \<and> argv e ! 1 = 0"

definition csi :: "bool \<Rightarrow> emu \<Rightarrow> emu \<Rightarrow> int list \<Rightarrow> bool" where
  "csi pr e0 e as \<longleftrightarrow> e = with_scan (scan_of e) e0 \<and> scan_ok e \<and> emu_getMode MODE_Ansi e \<and>
     2 \<le> ppos e \<and> pbuf e ! 0 = ESC \<and> pbuf e ! 1 = CHR ''['' \<and> (pr \<longrightarrow> 3 \<le> ppos e) \<and> (3 \<le> ppos e \<longrightarrow> (pbuf e ! 2 = CHR ''?'') = pr) \<and>
     as \<noteq> [] \<and> length as \<le> MAXARGS \<and> argc e = length as - 1 \<and> take (length as) (argv e) = as \<and>
     (length as = 1 \<longrightarrow> argv e ! 1 = 0)"

lemma emu_reset_scan: "emu_reset e = with_scan (pbuf e, 0, (argv e)[0 := 0, 1 := 0], 0) e"
  by (simp add: emu_reset_def with_scan_def)

lemma store_byte_scan:
  "store_byte c e = with_scan ((pbuf e)[ppos e := c], min (ppos e + 1) (MAXPBUF - 1), argv e, argc e) e"
  by (simp add: store_byte_def with_scan_def)

lemma scan_digit_scan: "scan_digit c e = with_scan (pbuf e, ppos e,
    (argv e)[argc e := w32 (10 * (argv e ! argc e) + int (code c) - 48)], argc e) e"
  by (simp add: scan_digit_def with_scan_def)

lemma scan_arg_scan: "scan_arg e = with_scan (pbuf e, ppos e,
    (argv e)[min (argc e + 1) (MAXARGS - 1) := 0], min (argc e + 1) (MAXARGS - 1)) e"
  by (simp add: scan_arg_def with_scan_def Let_def)

lemma with_scan_sel [simp]:
  "pbuf (with_scan (b, p, a, n) e) = b" "ppos (with_scan (b, p, a, n) e) = p" "argv (with_scan (b, p, a, n) e) = a"
  "argc (with_scan (b, p, a, n) e) = n" "emu_getMode m (with_scan w e) = emu_getMode m e"
  by (simp_all add: with_scan_def emu_getMode_def split: prod.split)

lemma code_eqs: "code ESC = 27" "code (CHR ''['') = 91" "code (CHR '';'') = 59"
  by (simp_all add: code_def)

lemma csi_begin:
  assumes g: "ground e"
  shows "\<exists>e'. rcv_bytes [ESC, CHR ''[''] e = Some e' \<and> csi False e e' [0] \<and> ppos e' = 2"
proof -
  define e1 where "e1 = store_byte ESC (emu_reset e)"
  define e2 where "e2 = store_byte (CHR ''['') e1"
  have ok: "length (pbuf e) = 80" "ppos e = 0" "length (argv e) = 15" "emu_getMode MODE_Ansi e"
    using g by (auto simp: ground_def scan_ok_def MAXPBUF_def MAXARGS_def)
  have e1: "e1 = with_scan ((pbuf e)[0 := ESC], 1, (argv e)[0 := 0, 1 := 0], 0) e"
    by (simp add: e1_def store_byte_scan emu_reset_scan MAXPBUF_def)
  have e2: "e2 = with_scan ((pbuf e)[0 := ESC, 1 := CHR ''[''], 2, (argv e)[0 := 0, 1 := 0], 0) e"
    by (simp add: e2_def store_byte_scan e1 MAXPBUF_def numeral_2_eq_2)
  have f1: "ppos e1 = 1" "pbuf e1 ! 0 = ESC" "emu_getMode MODE_Ansi e1" using ok by (simp_all add: e1)
  have f2: "ppos e2 = 2" "pbuf e2 ! 1 = CHR ''[''" "emu_getMode MODE_Ansi e2" using ok by (simp_all add: e2)
  have "onRcvByte ESC e = Some e1"
    using ok f1 by (simp add: onRcvByte_def Let_def is_CTL_def code_eqs scan_ansi_def flip: e1_def)
  moreover have "onRcvByte (CHR ''['') e1 = Some e2"
    using f1 f2 by (simp add: onRcvByte_def Let_def is_CTL_def code_eqs scan_ansi_def is_GRP_def flip: e2_def)
  ultimately have "rcv_bytes [ESC, CHR ''[''] e = Some e2" by simp
  moreover have "csi False e e2 [0]"
    using ok by (simp add: csi_def e2 scan_ok_def MAXPBUF_def MAXARGS_def take_Suc_conv_app_nth)
  ultimately show ?thesis using f2(1) by blast
qed

end
