(* ===== verification/TermCsi.thy ===== *)
theory TermCsi
  imports TermScan
begin

section \<open>The terminal konsole: control sequences with parameters\<close>

text \<open>
  What the scanner of \<open>TEmuVt102.C\<close> makes of \<open>ESC [ p\<^sub>1 ; p\<^sub>2 ; ... c\<close>: the numbers, each separated by a
  semicolon, are passed to \<open>tau\<close>, and the scanner is where it was before.
\<close>

text \<open>The scanner at rest, between two tokens.\<close>

definition at_rest :: "char list \<times> nat \<times> int list \<times> nat \<Rightarrow> bool" where
  "at_rest w \<longleftrightarrow> (case w of (b, p, a, n) \<Rightarrow>
     length b = MAXPBUF \<and> length a = MAXARGS \<and> p = 0 \<and> n = 0 \<and> a ! 0 = 0 \<and> a ! 1 = 0)"

lemma ground_rest: "ground e \<longleftrightarrow> at_rest (scan_of e) \<and> emu_getMode MODE_Ansi e"
  by (auto simp: ground_def at_rest_def scan_of_def scan_ok_def MAXPBUF_def MAXARGS_def)

lemma ground_with_scan [simp]: "at_rest w \<Longrightarrow> ground (with_scan w e) \<longleftrightarrow> emu_getMode MODE_Ansi e"
  by (simp add: ground_rest del: split_paired_All)

lemma reset_rest: "scan_ok e \<Longrightarrow> at_rest (scan_of (emu_reset e))"
  by (simp add: scan_ok_def at_rest_def emu_reset_scan scan_of_def MAXARGS_def)

lemma rcv_bytes_append:
  "rcv_bytes (xs @ ys) e = do { e \<leftarrow> rcv_bytes xs e; rcv_bytes ys e }"
  by (induction xs arbitrary: e) (simp_all split: bind_split)

text \<open>A character that is no control character is stored and scanned.\<close>

lemma onRcvByte_plain: "32 \<le> code c \<Longrightarrow> code c \<noteq> 127 \<Longrightarrow> emu_getMode MODE_Ansi e \<Longrightarrow>
    onRcvByte c e = scan_ansi c (store_byte c e)"
  by (simp add: onRcvByte_def Let_def is_CTL_def store_byte_scan)

lemma csi_mode: "csi pr e0 e as \<Longrightarrow> emu_getMode m e = emu_getMode m e0"
  unfolding csi_def by (metis with_scan_sel(5))

lemma csi_ansi: "csi pr e0 e as \<Longrightarrow> emu_getMode MODE_Ansi e0"
  by (metis csi_def csi_mode)

lemma csi_store:
  assumes s: "csi pr e0 e as" and c: "c \<noteq> CHR ''?''"
  shows "csi pr e0 (store_byte c e) as" "3 \<le> ppos (store_byte c e)" "pr \<longrightarrow> 4 \<le> ppos (store_byte c e)"
proof -
  have ok: "length (pbuf e) = 80" "ppos e < 80" "2 \<le> ppos e" "length (argv e) = 15" "argc e < 15"
    using s by (auto simp: csi_def scan_ok_def MAXPBUF_def MAXARGS_def)
  show "3 \<le> ppos (store_byte c e)" "pr \<longrightarrow> 4 \<le> ppos (store_byte c e)"
    using ok s by (simp_all add: store_byte_scan MAXPBUF_def csi_def)
  have e: "e = with_scan (scan_of e) e0" using s by (simp add: csi_def)
  have n: "pbuf (store_byte c e) = (pbuf e)[ppos e := c]" "ppos (store_byte c e) = min (ppos e + 1) 79"
    "argv (store_byte c e) = argv e" "argc (store_byte c e) = argc e"
    by (simp_all add: store_byte_scan MAXPBUF_def)
  have "store_byte c e = with_scan (scan_of (store_byte c e)) e0"
    by (simp add: store_byte_scan) (subst e, simp)
  moreover have "((pbuf e)[ppos e := c] ! 2 = CHR ''?'') = pr"
    using s ok c by (cases "ppos e = 2") (auto simp: csi_def)
  moreover have "emu_getMode MODE_Ansi (store_byte c e)" using s by (simp add: store_byte_scan csi_def)
  ultimately show "csi pr e0 (store_byte c e) as"
    using s ok unfolding csi_def n by (simp add: scan_ok_def MAXPBUF_def MAXARGS_def n)
qed

lemma csi_scan:
  assumes s: "csi pr e0 e as" and p: "3 \<le> ppos e" "pr \<longrightarrow> 4 \<le> ppos e"
  shows "scan_ansi c e =
    (if \<not> pr \<and> is_CPN c then tau_reset (TY_CSI_PN c) (argv e ! 0) (argv e ! 1) e
     else if is_DIG c then Some (scan_digit c e)
     else if c = CHR '';'' then Some (scan_arg e)
     else do { e \<leftarrow> tau_args (if pr then CSI_PR c else CSI_PS c) as e; Some (emu_reset e) })"
proof -
  have "take (argc e + 1) (argv e) = as" "pbuf e ! 1 = CHR ''[''" "(pbuf e ! 2 = CHR ''?'') = pr"
    using s p by (auto simp: csi_def neq_Nil_conv)
  then show ?thesis
    using p unfolding scan_ansi_def by (cases pr) (simp_all add: Let_def is_GRP_def is_SCS_def)
qed

subsection \<open>Digits and semicolons\<close>

definition small_num :: "nat \<Rightarrow> bool" where "small_num n \<longleftrightarrow> n < 2 ^ 31"

lemma is_DIG_isdigit: "is_DIG c \<longleftrightarrow> isdigit c"
proof -
  have "is_DIG c \<longleftrightarrow> code c \<in> {48, 49, 50, 51, 52, 53, 54, 55, 56, 57}"
    by (simp add: is_DIG_def flip: code_inj) (simp add: code_def)
  moreover have "k \<in> {48, 49, 50, 51, 52, 53, 54, 55, 56, 57} \<longleftrightarrow> 48 \<le> k \<and> k \<le> 57" for k :: nat
    unfolding insert_iff empty_iff by presburger
  ultimately show ?thesis by (simp add: isdigit_def)
qed

lemma csi_digit:
  assumes s: "csi pr e0 e (as @ [v])" and c: "isdigit c"
  shows "\<exists>e'. onRcvByte c e = Some e' \<and> csi pr e0 e' (as @ [w32 (10 * v + int (digit_val c))])"
proof -
  let ?e = "store_byte c e"
  have code: "48 \<le> code c" "code c \<le> 57" using c by (auto simp: isdigit_def)
  then have q: "c \<noteq> CHR ''?''" and cpn: "\<not> is_CPN c"
    by (auto simp: is_CPN_def code_def)
  note e = csi_store[OF s q]
  have "onRcvByte c e = scan_ansi c ?e"
    using s code by (intro onRcvByte_plain) (auto simp: csi_def)
  also have "\<dots> = Some (scan_digit c ?e)"
    using c cpn by (simp add: csi_scan[OF e] is_DIG_isdigit)
  finally have "onRcvByte c e = Some (scan_digit c ?e)" .
  moreover have "csi pr e0 (scan_digit c ?e) (as @ [w32 (10 * v + int (digit_val c))])"
  proof -
    have a: "take (length as + 1) (argv ?e) = as @ [v]" "argc ?e = length as" "length as < length (argv ?e)"
      "length as \<le> 14" "argc ?e < 15" and e0: "?e = with_scan (scan_of ?e) e0"
      and one: "as = [] \<longrightarrow> argv ?e ! 1 = 0"
      using e(1) by (auto simp: csi_def scan_ok_def MAXARGS_def)
    have "(take (length as + 1) (argv ?e)) ! length as = argv ?e ! length as" by (rule nth_take) simp
    then have v: "argv ?e ! length as = v" unfolding a(1) by simp
    have t: "take (length as) (argv ?e) = as"
      using arg_cong[OF a(1), of "take (length as)"] by simp
    have n: "int (digit_val c) = int (code c) - 48" using c code by (simp add: digit_val_def)
    have "scan_digit c ?e = with_scan (scan_of (scan_digit c ?e)) e0"
      by (simp add: scan_digit_scan) (subst e0, simp)
    then show ?thesis
      using e(1) one a csi_ansi[OF e(1)] unfolding csi_def
      by (simp add: scan_digit_scan a v n take_Suc_conv_app_nth t scan_ok_def MAXARGS_def algebra_simps)
  qed
  ultimately show ?thesis by blast
qed

lemma csi_semicolon:
  assumes s: "csi pr e0 e as" and l: "length as < MAXARGS"
  shows "\<exists>e'. onRcvByte (CHR '';'') e = Some e' \<and> csi pr e0 e' (as @ [0])"
proof -
  let ?e = "store_byte (CHR '';'') e"
  have q: "CHR '';'' \<noteq> CHR ''?''" by simp
  note e = csi_store[OF s q]
  have "onRcvByte (CHR '';'') e = scan_ansi (CHR '';'') ?e"
    using s by (intro onRcvByte_plain) (auto simp: csi_def code_eqs)
  also have "\<dots> = Some (scan_arg ?e)"
    by (simp add: csi_scan[OF e] is_CPN_def is_DIG_def)
  finally have "onRcvByte (CHR '';'') e = Some (scan_arg ?e)" .
  moreover have "csi pr e0 (scan_arg ?e) (as @ [0])"
  proof -
    have a: "take (length as) (argv ?e) = as" "argc ?e = length as - 1" "as \<noteq> []" "length as < 15"
      "length (argv ?e) = 15" and e0: "?e = with_scan (scan_of ?e) e0"
      using e(1) l by (auto simp: csi_def scan_ok_def MAXARGS_def)
    then have n: "min (argc ?e + 1) (MAXARGS - 1) = length as"
      by (cases as) (auto simp: MAXARGS_def)
    have "scan_arg ?e = with_scan (scan_of (scan_arg ?e)) e0"
      by (simp add: scan_arg_scan) (subst e0, simp)
    then show ?thesis
      using e(1) a csi_ansi[OF e(1)] unfolding csi_def
      by (simp add: scan_arg_scan n take_Suc_conv_app_nth scan_ok_def MAXARGS_def)
  qed
  ultimately show ?thesis by blast
qed

text \<open>A number is read as its decimal value, as long as it fits into an \<open>int\<close>.\<close>

definition digit_run :: "string \<Rightarrow> bool" where
  "digit_run ds \<longleftrightarrow> (\<forall>c\<in>set ds. isdigit c) \<and> digits_to_nat 10 ds < 2 ^ 31"

definition num_of :: "string \<Rightarrow> int" where
  "num_of ds = int (digits_to_nat 10 ds)"

lemma csi_number:
  assumes "csi pr e0 e (as @ [0])" "digit_run ds"
  shows "\<exists>e'. rcv_bytes ds e = Some e' \<and> csi pr e0 e' (as @ [num_of ds])"
  using assms(2)
proof (induction ds rule: rev_induct)
  case Nil
  with assms(1) show ?case by (simp add: num_of_def digits_to_nat_def)
next
  case (snoc c ds)
  then have run: "digit_run ds" and c: "isdigit c" and b: "digits_to_nat 10 ds * 10 + digit_val c < 2 ^ 31"
    by (auto simp: digit_run_def)
  obtain e1 where e1: "rcv_bytes ds e = Some e1" "csi pr e0 e1 (as @ [num_of ds])"
    using snoc.IH[OF run] by blast
  obtain e2 where e2: "onRcvByte c e1 = Some e2" "csi pr e0 e2 (as @ [w32 (10 * num_of ds + int (digit_val c))])"
    using csi_digit[OF e1(2) c] by blast
  from b have "int (digits_to_nat 10 ds) * 10 + int (digit_val c) < 2 ^ 31"
    by (metis of_nat_add of_nat_less_numeral_power_cancel_iff of_nat_mult of_nat_numeral)
  then have "w32 (10 * num_of ds + int (digit_val c)) = num_of (ds @ [c])"
    by (subst w32_small) (simp_all add: num_of_def)
  with e1 e2 show ?case by (auto simp: rcv_bytes_append)
qed

fun params :: "string list \<Rightarrow> string" where
  "params [] = []"
| "params [d] = d"
| "params (d # ds) = d @ CHR '';'' # params ds"

lemma csi_params:
  "csi pr e0 e (as @ [0]) \<Longrightarrow> ds \<noteq> [] \<Longrightarrow> \<forall>d\<in>set ds. digit_run d \<Longrightarrow> length as + length ds \<le> MAXARGS \<Longrightarrow>
   \<exists>e'. rcv_bytes (params ds) e = Some e' \<and> csi pr e0 e' (as @ map num_of ds)"
proof (induction ds arbitrary: e as rule: params.induct)
  case (2 d)
  then show ?case using csi_number by simp
next
  case (3 d d2 ds)
  obtain e1 where e1: "rcv_bytes d e = Some e1" "csi pr e0 e1 (as @ [num_of d])"
    using csi_number[OF 3(2)] 3(4) by auto
  have "length (as @ [num_of d]) < MAXARGS" using 3(5) by simp
  from csi_semicolon[OF e1(2) this]
  obtain e2 where e2: "onRcvByte (CHR '';'') e1 = Some e2" "csi pr e0 e2 ((as @ [num_of d]) @ [0])" by blast
  obtain e3 where "rcv_bytes (params (d2 # ds)) e2 = Some e3" "csi pr e0 e3 ((as @ [num_of d]) @ map num_of (d2 # ds))"
    using 3(1)[OF e2(2)] 3(4,5) by auto
  with e1 e2 show ?case by (auto simp: rcv_bytes_append)
qed simp

subsection \<open>Whole sequences\<close>

text \<open>What the final byte \<open>c\<close> makes of the parameters.\<close>

definition csi_action :: "bool \<Rightarrow> char \<Rightarrow> int list \<Rightarrow> emu \<Rightarrow> emu option" where
  "csi_action pr c as e =
     (if \<not> pr \<and> is_CPN c then tau (TY_CSI_PN c) (as ! 0) ((as @ [0]) ! 1) e
      else tau_args (if pr then CSI_PR c else CSI_PS c) as e)"

definition csi_final :: "char \<Rightarrow> bool" where
  "csi_final c \<longleftrightarrow> 64 \<le> code c \<and> code c \<noteq> 127"

lemma tau_args_scan:
  "tau_args (CSI_PS c) as (with_scan w e) = map_option (with_scan w) (tau_args (CSI_PS c) as e)"
  "tau_args (CSI_PR c) as (with_scan w e) = map_option (with_scan w) (tau_args (CSI_PR c) as e)"
  by (induction as arbitrary: e) (simp_all add: CSI_PS_def CSI_PR_def bind_map_option comp_def map_option_bind)

lemma csi_finish:
  assumes s: "csi pr e0 e as" and c: "csi_final c"
  shows "\<exists>w. at_rest w \<and> onRcvByte c e = map_option (with_scan w) (csi_action pr c as e0)"
proof -
  let ?e = "store_byte c e"
  have nc: "c \<noteq> CHR ''?''" "c \<noteq> CHR '';''" "\<not> is_DIG c" "32 \<le> code c" "code c \<noteq> 127"
    using c by (auto simp: csi_final_def is_DIG_isdigit isdigit_def code_def)
  note e = csi_store[OF s nc(1)]
  define w where "w = (pbuf ?e, 0::nat, (argv ?e)[0 := 0, 1 := 0], 0::nat)"
  have e0: "?e = with_scan (scan_of ?e) e0" and ok: "scan_ok ?e" using e(1) by (simp_all add: csi_def)
  have fin: "emu_reset (with_scan (scan_of ?e) r) = with_scan w r" for r
    by (simp add: emu_reset_scan w_def) (simp add: scan_of_def)
  have a0: "argv ?e ! 0 = as ! 0 \<and> argv ?e ! 1 = (as @ [0]) ! 1"
  proof -
    have "take (length as) (argv ?e) = as" "as \<noteq> []" "length as = 1 \<longrightarrow> argv ?e ! 1 = 0"
      using e(1) by (simp_all add: csi_def)
    then show ?thesis
      by (metis One_nat_def Suc_lessI length_greater_0_conv nth_append nth_append_length nth_take)
  qed
  have "onRcvByte c e = scan_ansi c ?e"
    using s nc by (intro onRcvByte_plain) (auto simp: csi_def)
  also have "\<dots> = do { e \<leftarrow> csi_action pr c as ?e; Some (emu_reset e) }"
    using nc a0 by (simp add: csi_scan[OF e] csi_action_def tau_reset_def)
  also have "csi_action pr c as ?e = map_option (with_scan (scan_of ?e)) (csi_action pr c as e0)"
    by (subst e0) (simp add: csi_action_def tau_args_scan)
  also have "do { e \<leftarrow> map_option (with_scan (scan_of ?e)) (csi_action pr c as e0); Some (emu_reset e) }
      = map_option (with_scan w) (csi_action pr c as e0)"
    by (cases "csi_action pr c as e0") (simp_all add: fin)
  finally have "onRcvByte c e = map_option (with_scan w) (csi_action pr c as e0)" .
  moreover have "at_rest w"
    using ok by (simp add: w_def at_rest_def scan_ok_def MAXARGS_def)
  ultimately show ?thesis by blast
qed

lemma csi_question:
  assumes s: "csi False e0 e [0]" and p: "ppos e = 2"
  shows "\<exists>e'. onRcvByte (CHR ''?'') e = Some e' \<and> csi True e0 e' [0]"
proof -
  let ?e = "store_byte (CHR ''?'') e"
  have ok: "length (pbuf e) = 80" "length (argv e) = 15" "emu_getMode MODE_Ansi e" "pbuf e ! 1 = CHR ''[''"
    and e0: "e = with_scan (scan_of e) e0"
    using s by (auto simp: csi_def scan_ok_def MAXPBUF_def MAXARGS_def)
  have f: "ppos ?e = 3" "pbuf ?e ! 2 = CHR ''?''" "pbuf ?e ! 1 = CHR ''[''"
    using ok p by (simp_all add: store_byte_scan MAXPBUF_def)
  have "onRcvByte (CHR ''?'') e = scan_ansi (CHR ''?'') ?e"
    by (rule onRcvByte_plain) (simp_all add: code_def ok)
  also have "\<dots> = Some ?e"
    using f by (simp add: scan_ansi_def Let_def is_GRP_def)
  finally have "onRcvByte (CHR ''?'') e = Some ?e" .
  moreover have "?e = with_scan (scan_of ?e) e0"
    by (simp add: store_byte_scan) (subst e0, simp)
  then have "csi True e0 ?e [0]"
    using s f ok csi_ansi[OF s] p unfolding csi_def by (simp add: store_byte_scan scan_ok_def MAXPBUF_def MAXARGS_def)
  ultimately show ?thesis by blast
qed

definition csi_bytes :: "bool \<Rightarrow> string list \<Rightarrow> char \<Rightarrow> string" where
  "csi_bytes pr ds c = [ESC, CHR ''[''] @ (if pr then ''?'' else []) @ params ds @ [c]"

text \<open>At most \<open>MAXARGS\<close> numbers, each of which fits into an \<open>int\<close>.\<close>

definition csi_params_ok :: "string list \<Rightarrow> bool" where
  "csi_params_ok ds \<longleftrightarrow> ds \<noteq> [] \<and> length ds \<le> MAXARGS \<and> (\<forall>d\<in>set ds. digit_run d)"

lemma csi_decoded:
  assumes g: "ground e" and d: "csi_params_ok ds" and c: "csi_final c"
  shows "\<exists>w. at_rest w \<and> rcv_bytes (csi_bytes pr ds c) e = map_option (with_scan w) (csi_action pr c (map num_of ds) e)"
proof -
  obtain e1 where e1: "rcv_bytes [ESC, CHR ''[''] e = Some e1" "csi False e e1 [0]" "ppos e1 = 2"
    using csi_begin[OF g] by blast
  obtain e2 where e2: "rcv_bytes (if pr then ''?'' else []) e1 = Some e2" "csi pr e e2 ([] @ [0])"
    using csi_question[OF e1(2,3)] e1(2) by (cases pr) auto
  obtain e3 where e3: "rcv_bytes (params ds) e2 = Some e3" "csi pr e e3 (map num_of ds)"
    using csi_params[OF e2(2)] d by (auto simp: csi_params_ok_def)
  have "rcv_bytes (csi_bytes pr ds c) e = onRcvByte c e3"
    unfolding csi_bytes_def rcv_bytes_append e1(1) e2(1) e3(1) Option.bind.bind_lunit by (cases "onRcvByte c e3") simp_all
  then show ?thesis using csi_finish[OF e3(2) c] by simp
qed

subsection \<open>Text\<close>

definition plain_text :: "string \<Rightarrow> bool" where
  "plain_text w \<longleftrightarrow> (\<forall>c\<in>set w. 32 \<le> code c \<and> code c \<noteq> 127)"

lemma put_scr_simps [simp]:
  "scr (put_scr s e) = s" "put_scr s (put_scr t e) = put_scr s e" "put_scr (scr e) e = e"
  "emu_getMode m (put_scr s e) = emu_getMode m e" "out (put_scr s e) = out e" "alt_scr (put_scr s e) = alt_scr e"
  by (simp_all add: scr_def put_scr_def emu_getMode_def)

lemma onRcvByte_text:
  assumes g: "ground e" and c: "32 \<le> code c" "code c \<noteq> 127"
  shows "\<exists>w. at_rest w \<and> onRcvByte c e = map_option (\<lambda>s. with_scan w (put_scr s e)) (ShowCharacter c (scr e))"
proof -
  let ?e = "store_byte c e"
  define w where "w = (pbuf ?e, 0::nat, (argv ?e)[0 := 0, 1 := 0], 0::nat)"
  have ok: "length (pbuf e) = 80" "ppos e = 0" "length (argv e) = 15" "emu_getMode MODE_Ansi e"
    using g by (auto simp: ground_def scan_ok_def MAXPBUF_def MAXARGS_def)
  have f: "ppos ?e = 1" "pbuf ?e ! 0 = c" "c \<noteq> ESC"
    using ok c by (auto simp: store_byte_scan MAXPBUF_def code_eqs)
  have "onRcvByte c e = tau_reset TY_CHR (num c) 0 ?e"
    using onRcvByte_plain[OF c ok(4)] f c by (simp add: scan_ansi_def Let_def is_CHR_def)
  also have "\<dots> = map_option (\<lambda>s. with_scan w (put_scr s e)) (ShowCharacter c (scr e))"
    by (cases "ShowCharacter c (scr e)")
      (simp_all add: tau_reset_def tau_def on_scr_def store_byte_scan num_def char_of_int_def code_def emu_reset_scan w_def)
  finally show ?thesis
    by (intro exI[of _ w]) (simp add: w_def at_rest_def ok store_byte_scan MAXPBUF_def MAXARGS_def)
qed

lemma rcv_text:
  "ground e \<Longrightarrow> plain_text t \<Longrightarrow>
   \<exists>w. at_rest w \<and> rcv_bytes t e = map_option (\<lambda>s. with_scan w (put_scr s e)) (show_text t (scr e))"
proof (induction t arbitrary: e)
  case Nil
  then show ?case
    by (intro exI[of _ "scan_of e"]) (simp add: ground_rest)
next
  case (Cons c t)
  obtain w where w: "at_rest w" "onRcvByte c e = map_option (\<lambda>s. with_scan w (put_scr s e)) (ShowCharacter c (scr e))"
    using onRcvByte_text[OF Cons.prems(1), of c] Cons.prems(2) unfolding plain_text_def
    by (metis list.set_intros(1))
  show ?case
  proof (cases "ShowCharacter c (scr e)")
    case None
    then show ?thesis using w by (intro exI[of _ w]) simp
  next
    case (Some s)
    have "ground (with_scan w (put_scr s e))" "plain_text t"
      using w(1) Cons.prems by (simp_all add: ground_rest plain_text_def)
    from Cons.IH[OF this] show ?thesis using w(2) Some by (auto simp: comp_def)
  qed
qed

end
