(* ===== verification/TermStream.thy ===== *)
theory TermStream
  imports TermCsi
begin

section \<open>The terminal konsole: what a program may send\<close>

text \<open>
  Which input the emulation handles without leaving an array: text, the control characters, the escape sequences
  with one letter, and the control sequences apart from those whose operations may fault
  (see \<open>TermProps\<close>).
\<close>

subsection \<open>Operations that keep the emulation in order\<close>

definition emu_sound :: "emu \<Rightarrow> bool" where
  "emu_sound e \<longleftrightarrow> scr_ok (screen0 e) \<and> scr_ok (screen1 e) \<and> scan_ok e"

text \<open>In ANSI mode.\<close>

definition emu_safe :: "emu \<Rightarrow> bool" where
  "emu_safe e \<longleftrightarrow> emu_sound e \<and> emu_curr e MODE_Ansi"

definition keeps :: "(emu \<Rightarrow> emu option) \<Rightarrow> bool" where
  "keeps f \<longleftrightarrow> (\<forall>e. emu_safe e \<longrightarrow>
     (\<exists>e'. f e = Some e' \<and> emu_safe e' \<and> (scan_of e' = scan_of e \<or> at_rest (scan_of e'))))"

named_theorems keeps_intros "operations of the emulation that keep it in order"

lemma keepsI:
  "(\<And>e. emu_safe e \<Longrightarrow> \<exists>e'. f e = Some e' \<and> emu_safe e' \<and> scan_of e' = scan_of e) \<Longrightarrow> keeps f"
  unfolding keeps_def by blast

lemma keepsD:
  assumes "keeps f" "emu_safe e"
  obtains e' where "f e = Some e'" "emu_safe e'" "scan_of e' = scan_of e \<or> at_rest (scan_of e')"
  using assms unfolding keeps_def by blast

lemma keeps_if [keeps_intros]:
  "(b \<Longrightarrow> keeps f) \<Longrightarrow> (\<not> b \<Longrightarrow> keeps g) \<Longrightarrow> keeps (\<lambda>e. if b then f e else g e)"
  by (cases b) (simp_all add: keeps_def)

lemma keeps_Some [keeps_intros]: "keeps (\<lambda>e. Some e)"
  by (rule keepsI) blast

lemma keeps_bind: "keeps f \<Longrightarrow> keeps g \<Longrightarrow> keeps (\<lambda>e. Option.bind (f e) g)"
proof -
  assume f: "keeps f" and g: "keeps g"
  show ?thesis
    unfolding keeps_def
  proof (intro allI impI)
    fix e assume "emu_safe e"
    then obtain e1 where e1: "f e = Some e1" "emu_safe e1" "scan_of e1 = scan_of e \<or> at_rest (scan_of e1)"
      using keepsD[OF f] by metis
    then obtain e2 where "g e1 = Some e2" "emu_safe e2" "scan_of e2 = scan_of e1 \<or> at_rest (scan_of e2)"
      using keepsD[OF g] by metis
    with e1 show "\<exists>e'. Option.bind (f e) g = Some e' \<and> emu_safe e' \<and> (scan_of e' = scan_of e \<or> at_rest (scan_of e'))"
      by auto
  qed
qed

lemma scan_ok_scan_of: "scan_of e' = scan_of e \<Longrightarrow> scan_ok e' = scan_ok e"
  by (simp add: scan_of_ok)

lemma put_scr_safe: "emu_safe e \<Longrightarrow> scr_ok s \<Longrightarrow> emu_safe (put_scr s e)"
  by (simp add: emu_safe_def emu_sound_def put_scr_def scan_ok_def)

lemma scr_of_safe: "emu_safe e \<Longrightarrow> scr_ok (scr e)"
  by (simp add: emu_safe_def emu_sound_def scr_def)

lemma keeps_on_scr: "(\<And>s. scr_ok s \<Longrightarrow> screen_step s (f s)) \<Longrightarrow> keeps (\<lambda>e. on_scr f e)"
proof (rule keepsI)
  fix e assume f: "\<And>s. scr_ok s \<Longrightarrow> screen_step s (f s)" and e: "emu_safe e"
  have "scr_ok (scr e)" using e by (rule scr_of_safe)
  then obtain t where "f (scr e) = Some t" "scr_ok t" using screen_step_ok f by blast
  then show "\<exists>e'. on_scr f e = Some e' \<and> emu_safe e' \<and> scan_of e' = scan_of e"
    using e by (simp add: on_scr_def put_scr_safe)
qed

lemma keeps_on_scr': "(\<And>s. scr_ok s \<Longrightarrow> screen_step s (Some (f s))) \<Longrightarrow> keeps (\<lambda>e. on_scr' f e)"
  using keeps_on_scr[of "\<lambda>s. Some (f s)"] by (simp add: on_scr_def on_scr'_def)

lemma send_safe [simp]: "emu_safe (send x e) = emu_safe e"
  by (simp add: emu_safe_def emu_sound_def send_def scan_ok_def)

lemma keeps_reports [keeps_intros]:
  "keeps (\<lambda>e. Some (reportTerminalType e))" "keeps (\<lambda>e. Some (reportStatus e))" "keeps (\<lambda>e. Some (reportAnswerBack e))"
  "keeps (\<lambda>e. Some (reportCursorPosition e))" "keeps (\<lambda>e. Some (reportTerminalParms n e))"
  "keeps (\<lambda>e. Some (setColumns n e))" "keeps (\<lambda>e. Some (send x e))"
  by (rule keepsI; simp add: reportTerminalType_def reportStatus_def reportAnswerBack_def reportCursorPosition_def
      reportTerminalParms_def setColumns_def sendString_def)+

lemma setMode_sound:
  assumes e: "emu_sound e"
  shows "\<exists>e'. emu_setMode m e = Some e' \<and> emu_sound e' \<and> scan_of e' = scan_of e \<and> emu_curr e' = (emu_curr e)(m := True)"
proof -
  have c: "scr_ok (clearSelection (screen1 e))" using e by (simp add: emu_sound_def attributes_ok)
  obtain t where t: "clearEntireScreen (clearSelection (screen1 e)) = Some t" "scr_ok t"
    using redraws_ok(10)[OF c] by blast
  show ?thesis
    using e t by (cases m) (simp_all add: emu_setMode_def Let_def is_screen_mode_def emu_sound_def cursor_moves_ok send_def
        scan_ok_def scan_of_def)
qed

lemma resetMode_sound:
  "emu_sound e \<Longrightarrow> emu_sound (emu_resetMode m e) \<and> scan_of (emu_resetMode m e) = scan_of e \<and>
     emu_curr (emu_resetMode m e) = (emu_curr e)(m := False)"
  by (cases m) (simp_all add: emu_resetMode_def Let_def is_screen_mode_def emu_sound_def cursor_moves_ok send_def
      scan_ok_def scan_of_def attributes_ok)

lemma saveMode_sound: "emu_sound e \<Longrightarrow> emu_sound (emu_saveMode m e) \<and> scan_of (emu_saveMode m e) = scan_of e \<and>
    emu_curr (emu_saveMode m e) = emu_curr e"
  by (simp add: emu_saveMode_def emu_sound_def scan_ok_def scan_of_def)

lemma setMode_safe: "emu_safe e \<Longrightarrow> \<exists>e'. emu_setMode m e = Some e' \<and> emu_safe e' \<and> scan_of e' = scan_of e"
  using setMode_sound[of e m] by (auto simp: emu_safe_def)

lemma resetMode_safe:
  "emu_safe e \<Longrightarrow> m \<noteq> MODE_Ansi \<Longrightarrow> emu_safe (emu_resetMode m e) \<and> scan_of (emu_resetMode m e) = scan_of e"
  using resetMode_sound[of e m] by (simp add: emu_safe_def)

lemma saveMode_safe: "emu_safe e \<Longrightarrow> emu_safe (emu_saveMode m e) \<and> scan_of (emu_saveMode m e) = scan_of e"
  using saveMode_sound[of e m] by (simp add: emu_safe_def)

lemma keeps_modes [keeps_intros]:
  "keeps (\<lambda>e. emu_setMode m e)" "m \<noteq> MODE_Ansi \<Longrightarrow> keeps (\<lambda>e. Some (emu_resetMode m e))"
  "keeps (\<lambda>e. Some (emu_saveMode m e))" "m \<noteq> MODE_Ansi \<Longrightarrow> keeps (\<lambda>e. emu_restoreMode m e)"
  by (rule keepsI; use setMode_safe resetMode_safe saveMode_safe in \<open>auto simp: emu_restoreMode_def\<close>)+

subsection \<open>Tokens\<close>

lemma keeps_rendition: "keeps (tau_rendition n)"
  unfolding tau_rendition_def
  by (intro keeps_intros; rule keeps_on_scr'; rule screen_step.intros)

text \<open>The control sequences that are safe in every state: not those that insert and delete characters, erase to the
  left, or clear all tab stops, and none with a number of \<open>2\<^sup>3\<^sup>0\<close> or more.\<close>

definition safe_pn :: "char \<Rightarrow> bool" where
  "safe_pn c \<longleftrightarrow> c \<noteq> CHR ''@'' \<and> c \<noteq> CHR ''P''"

lemma keeps_pn: "safe_pn c \<Longrightarrow> arg_ok p \<Longrightarrow> arg_ok q \<Longrightarrow> keeps (tau_csi_pn c p q)"
  unfolding tau_csi_pn_def safe_pn_def
  by (intro keeps_intros; (simp; fail)?; (rule keeps_on_scr keeps_on_scr', rule screen_step.intros; assumption)?)

definition safe_ps :: "char \<Rightarrow> int \<Rightarrow> bool" where
  "safe_ps c n \<longleftrightarrow> \<not> (c = CHR ''K'' \<and> n = 1) \<and> \<not> (c = CHR ''J'' \<and> n = 1) \<and> \<not> (c = CHR ''g'' \<and> n = 3)"

lemma keeps_ps: "safe_ps c n \<Longrightarrow> keeps (tau_csi_ps c n)"
  unfolding tau_csi_ps_def safe_ps_def
  by (intro keeps_intros keeps_rendition; (simp; fail)?; (rule keeps_on_scr keeps_on_scr', rule screen_step.intros; assumption)?)

definition safe_pr :: "char \<Rightarrow> int \<Rightarrow> bool" where
  "safe_pr c n \<longleftrightarrow> \<not> (c = CHR ''l'' \<and> n = 2)"

lemma keeps_pr: "safe_pr c n \<Longrightarrow> keeps (tau_csi_pr c n)"
  unfolding tau_csi_pr_def safe_pr_def
  by (intro keeps_intros; (simp; fail)?; (rule keeps_on_scr keeps_on_scr', rule screen_step.intros; assumption)?)

lemma resetTerminal_safe:
  assumes e: "emu_sound e"
  shows "\<exists>e'. resetTerminal e = Some e' \<and> emu_safe e' \<and> at_rest (scan_of e')"
proof -
  define e1 where "e1 = emu_reset e"
  define e2 where "e2 = emu_saveMode MODE_Mouse1000 (emu_resetMode MODE_Mouse1000 e1)"
  define e3 where "e3 = emu_saveMode MODE_AppCuKeys (emu_resetMode MODE_AppCuKeys e2)"
  define e4 where "e4 = emu_saveMode MODE_AppScreen (emu_resetMode MODE_AppScreen e3)"
  define e5 where "e5 = emu_resetMode MODE_NewLine e4"
  have "emu_sound e1" "at_rest (scan_of e1)"
    using e reset_rest[of e] by (simp_all add: e1_def emu_sound_def emu_reset_def scan_ok_def)
  then have e5: "emu_sound e5 \<and> at_rest (scan_of e5)"
    unfolding e5_def e4_def e3_def e2_def by (simp add: resetMode_sound saveMode_sound)
  then obtain e6 where e6: "emu_setMode MODE_Ansi e5 = Some e6" "emu_safe e6" "at_rest (scan_of e6)"
    using setMode_sound[of e5 MODE_Ansi] unfolding emu_safe_def by (metis fun_upd_same)
  then obtain s0 s1 where s: "reset (screen0 e6) = Some s0" "scr_ok s0" "reset (screen1 e6) = Some s1" "scr_ok s1"
    using reset_ok[OF scr_ok_size] unfolding emu_safe_def emu_sound_def by metis
  have "resetTerminal e = Some (e6\<lparr>screen0 := s0, screen1 := s1\<rparr>)"
    using e6(1) s unfolding e5_def e4_def e3_def e2_def e1_def by (simp add: resetTerminal_def Let_def)
  then show ?thesis
    using e6 s by (simp add: emu_safe_def emu_sound_def scan_ok_def scan_of_def)
qed

lemma keeps_resetTerminal: "keeps resetTerminal"
  unfolding keeps_def emu_safe_def using resetTerminal_safe by (metis emu_safe_def)

lemma keeps_NewLine: "keeps emu_NewLine"
proof (rule keepsI)
  fix e assume e: "emu_safe e"
  then obtain t where "NewLine (scr e) = Some t" "scr_ok t" using NewLine_ok[OF scr_of_safe] by blast
  then show "\<exists>e'. emu_NewLine e = Some e' \<and> emu_safe e' \<and> scan_of e' = scan_of e"
    using put_scr_safe[OF e, of t]
    by (simp add: emu_NewLine_def on_scr_def bulkNewline_def emu_safe_def emu_sound_def scan_ok_def scan_of_def put_scr_def)
qed

lemma keeps_ctl: "keeps (tau_ctl c)"
  unfolding tau_ctl_def
  by (intro keeps_intros keeps_NewLine; (rule keeps_on_scr keeps_on_scr', rule screen_step.intros)?)

lemma keeps_esc: "keeps (tau_esc c)"
  unfolding tau_esc_def
  by (intro keeps_intros keeps_resetTerminal; simp?; (rule keeps_on_scr keeps_on_scr', rule screen_step.intros)?)

lemma tau_cases:
  "tau (TY_CTL c) p q = tau_ctl c" "tau (TY_ESC c) p q = tau_esc c" "tau (TY_CSI_PN c) p q = tau_csi_pn c p q"
  "tau (TY_CSI_PS c n) p q = tau_csi_ps c n" "tau (TY_CSI_PR c n) p q = tau_csi_pr c n"
  by (simp_all add: tau_def fun_eq_iff)

lemma keeps_tau:
  "keeps (tau TY_CHR p q)" "keeps (tau (TY_CTL c) p q)" "keeps (tau (TY_ESC c) p q)" "keeps (tau TY_ESC_CS p q)"
  "keeps (tau (TY_ESC_DE c) p q)" "safe_pn c \<Longrightarrow> arg_ok p \<Longrightarrow> arg_ok q \<Longrightarrow> keeps (tau (TY_CSI_PN c) p q)"
  "safe_ps c n \<Longrightarrow> keeps (tau (TY_CSI_PS c n) p q)" "safe_pr c n \<Longrightarrow> keeps (tau (TY_CSI_PR c n) p q)"
proof -
  show "keeps (tau TY_CHR p q)"
    unfolding tau_def token.case by (rule keeps_on_scr, rule screen_step.intros)
  show "keeps (tau (TY_ESC_DE c) p q)"
    unfolding tau_def token.case by (intro keeps_intros; rule keeps_on_scr; rule screen_step.intros)
  show "keeps (tau TY_ESC_CS p q)"
    unfolding tau_def token.case
    by (rule keepsI) (simp add: emu_setCharset_def emu_safe_def emu_sound_def attributes_ok scan_ok_def scan_of_def)
qed (simp_all add: tau_cases keeps_ctl keeps_esc keeps_pn keeps_ps keeps_pr)

lemma keeps_args: "\<forall>a\<in>set as. keeps (tau (t a) 0 0) \<Longrightarrow> keeps (tau_args t as)"
proof (induction as)
  case Nil
  then show ?case by (simp add: keeps_Some)
next
  case (Cons a as)
  then have "keeps (\<lambda>e. Option.bind (tau (t a) 0 0 e) (tau_args t as))" by (intro keeps_bind) simp_all
  then show ?case by (simp add: keeps_def)
qed

subsection \<open>Input\<close>

datatype piece =
    Text string
  | Ctl char
  | Esc char
  | Charset char char
  | Hash char
  | Seq bool "string list" char

fun piece_bytes :: "piece \<Rightarrow> string" where
  "piece_bytes (Text t) = t"
| "piece_bytes (Ctl c) = [c]"
| "piece_bytes (Esc c) = [ESC, c]"
| "piece_bytes (Charset a b) = [ESC, a, b]"
| "piece_bytes (Hash c) = [ESC, CHR ''#'', c]"
| "piece_bytes (Seq pr ds c) = csi_bytes pr ds c"

definition plain_char :: "char \<Rightarrow> bool" where
  "plain_char c \<longleftrightarrow> 32 \<le> code c \<and> code c \<noteq> 127"

fun piece_safe :: "piece \<Rightarrow> bool" where
  "piece_safe (Text t) = plain_text t"
| "piece_safe (Ctl c) = (is_CTL c \<and> c \<noteq> ESC)"
| "piece_safe (Esc c) = (plain_char c \<and> \<not> is_GRP c)"
| "piece_safe (Charset a b) = (is_SCS a \<and> plain_char b \<and> b \<noteq> CHR ''?'')"
| "piece_safe (Hash c) = (plain_char c \<and> c \<noteq> CHR ''?'')"
| "piece_safe (Seq pr ds c) = (csi_params_ok ds \<and> csi_final c \<and>
     (if pr then \<forall>d\<in>set ds. safe_pr c (num_of d mod 65536)
      else if is_CPN c then safe_pn c \<and> (\<forall>d\<in>set ds. arg_ok (num_of d))
      else \<forall>d\<in>set ds. safe_ps c (num_of d mod 65536)))"

definition stream_bytes :: "piece list \<Rightarrow> string" where
  "stream_bytes ps = concat (map piece_bytes ps)"

text \<open>Between two pieces.\<close>

definition emu_ready :: "emu \<Rightarrow> bool" where
  "emu_ready e \<longleftrightarrow> emu_safe e \<and> at_rest (scan_of e)"

lemma emu_ready_ground: "emu_ready e \<Longrightarrow> ground e"
  by (simp add: emu_ready_def emu_safe_def emu_sound_def ground_rest emu_getMode_def)

lemma with_scan_ready: "emu_safe e \<Longrightarrow> at_rest w \<Longrightarrow> emu_ready (with_scan w e)"
  by (cases w) (auto simp: emu_ready_def emu_safe_def emu_sound_def at_rest_def scan_of_ok MAXPBUF_def MAXARGS_def)

lemma emu_reset_ready: "emu_safe e \<Longrightarrow> emu_ready (emu_reset e)"
  using with_scan_ready reset_rest by (simp add: emu_reset_scan emu_safe_def emu_sound_def)

text \<open>A sequence of stored bytes keeps all but the scanner.\<close>

lemma store_byte_safe: "emu_safe e \<Longrightarrow> emu_safe (store_byte c e)"
  by (auto simp: store_byte_def emu_safe_def emu_sound_def scan_ok_def MAXPBUF_def)

lemma keeps_reset_ready:
  assumes "keeps (tau t p q)" "emu_safe e"
  shows "\<exists>e'. tau_reset t p q e = Some e' \<and> emu_ready e'"
  using keepsD[OF assms] emu_reset_ready unfolding tau_reset_def by (metis Option.bind.bind_lunit)

text \<open>After \<open>ESC\<close>, and after the bytes that follow it.\<close>

definition esc_state :: "emu \<Rightarrow> string \<Rightarrow> bool" where
  "esc_state e w \<longleftrightarrow> emu_safe e \<and> ppos e = length w \<and> take (length w) (pbuf e) = w \<and> length w \<le> 3"

lemma esc_state_nth: "esc_state e w \<Longrightarrow> i < length w \<Longrightarrow> pbuf e ! i = w ! i"
  unfolding esc_state_def by (metis nth_take)

lemma esc_state_begin:
  assumes e: "emu_ready e"
  shows "\<exists>e'. onRcvByte ESC e = Some e' \<and> esc_state e' [ESC]"
proof -
  let ?e = "store_byte ESC (emu_reset e)"
  have ok: "length (pbuf e) = 80" "ppos e = 0" "emu_getMode MODE_Ansi e"
    using emu_ready_ground[OF e] by (auto simp: ground_def scan_ok_def MAXPBUF_def)
  have f: "ppos ?e = 1" "pbuf ?e ! 0 = ESC" "emu_getMode MODE_Ansi ?e" "take 1 (pbuf ?e) = [ESC]"
    using ok by (simp_all add: store_byte_scan emu_reset_scan MAXPBUF_def take_Suc_conv_app_nth)
  have "onRcvByte ESC e = Some ?e"
    using ok f by (simp add: onRcvByte_def Let_def is_CTL_def code_eqs scan_ansi_def)
  moreover have "emu_safe ?e"
    using emu_reset_ready[of e] e store_byte_safe by (auto simp: emu_ready_def)
  ultimately show ?thesis using f by (auto simp: esc_state_def)
qed

lemma esc_state_store:
  assumes e: "esc_state e w" and l: "length w < 3" and c: "plain_char c"
  shows "esc_state (store_byte c e) (w @ [c])" "onRcvByte c e = scan_ansi c (store_byte c e)"
proof -
  have ok: "length (pbuf e) = 80" "ppos e = length w" "emu_getMode MODE_Ansi e" "take (length w) (pbuf e) = w"
    using e by (auto simp: esc_state_def emu_safe_def emu_sound_def scan_ok_def MAXPBUF_def emu_getMode_def)
  show "onRcvByte c e = scan_ansi c (store_byte c e)"
    using c ok by (intro onRcvByte_plain) (auto simp: plain_char_def)
  show "esc_state (store_byte c e) (w @ [c])"
    using e ok l store_byte_safe[of e c]
    by (simp add: esc_state_def store_byte_scan MAXPBUF_def take_Suc_conv_app_nth)
qed

lemma esc_state_two:
  assumes e: "emu_ready e" and a: "plain_char a"
  obtains e2 where "rcv_bytes [ESC, a] e = scan_ansi a e2" "esc_state e2 [ESC, a]"
proof -
  obtain e1 where e1: "onRcvByte ESC e = Some e1" "esc_state e1 [ESC]" using esc_state_begin[OF e] by blast
  have "rcv_bytes [ESC, a] e = scan_ansi a (store_byte a e1)"
    using e1(1) esc_state_store(2)[OF e1(2) _ a] by (cases "scan_ansi a (store_byte a e1)") simp_all
  then show ?thesis using esc_state_store(1)[OF e1(2) _ a] that by simp
qed

lemma esc_state_three:
  assumes e: "emu_ready e" and a: "plain_char a" "is_GRP a" and b: "plain_char b"
  obtains e3 where "rcv_bytes [ESC, a, b] e = scan_ansi b e3" "esc_state e3 [ESC, a, b]"
proof -
  obtain e2 where e2: "rcv_bytes [ESC, a] e = scan_ansi a e2" "esc_state e2 [ESC, a]"
    using esc_state_two[OF e a(1)] .
  have "ppos e2 = 2" "pbuf e2 ! 1 = a" using e2(2) esc_state_nth[OF e2(2), of 1] by (simp_all add: esc_state_def)
  then have "scan_ansi a e2 = Some e2" using a by (simp add: scan_ansi_def Let_def)
  with e2(1) have two: "rcv_bytes [ESC, a] e = Some e2" by (rule trans)
  have "rcv_bytes [ESC, a, b] e = rcv_bytes [b] e2"
    using rcv_bytes_append[of "[ESC, a]" "[b]" e] by (simp only: append.simps two Option.bind.bind_lunit)
  also have "\<dots> = scan_ansi b (store_byte b e2)"
    using esc_state_store(2)[OF e2(2) _ b] by (cases "scan_ansi b (store_byte b e2)") simp_all
  finally have "rcv_bytes [ESC, a, b] e = scan_ansi b (store_byte b e2)" .
  then show ?thesis using esc_state_store(1)[OF e2(2) _ b] that by simp
qed

lemma show_text_ok: "scr_ok s \<Longrightarrow> \<exists>t. show_text w s = Some t \<and> scr_ok t"
proof (induction w arbitrary: s)
  case (Cons c w)
  then obtain t where t: "ShowCharacter c s = Some t" "scr_ok t" using ShowCharacter_ok by blast
  with Cons.IH[OF t(2)] show ?case by auto
qed simp

lemma is_SCS_GRP: "is_SCS a \<Longrightarrow> is_GRP a \<and> plain_char a \<and> a \<noteq> CHR '']''"
  by (auto simp: is_SCS_def is_GRP_def plain_char_def code_def)

lemma emu_safe_ansi: "emu_safe e \<Longrightarrow> emu_getMode MODE_Ansi e"
  by (simp add: emu_safe_def emu_getMode_def)

lemma arg_ok_0 [simp]: "arg_ok 0"
  by (simp add: arg_ok_def)

lemma keeps_csi:
  assumes "piece_safe (Seq pr ds c)"
  shows "keeps (csi_action pr c (map num_of ds))"
proof -
  have nth: "arg_ok ((map num_of ds) ! 0)" "arg_ok ((map num_of ds @ [0]) ! 1)"
    if "\<forall>d\<in>set ds. arg_ok (num_of d)" "ds \<noteq> []"
    using that by (cases ds; cases "tl ds"; auto)+
  show ?thesis
    using assms unfolding csi_action_def[abs_def]
    by (intro keeps_if keeps_args keeps_tau nth)
      (auto simp: csi_params_ok_def CSI_PS_def CSI_PR_def intro!: keeps_args keeps_tau split: if_splits)
qed

lemma escape_ready:
  assumes e: "emu_ready e" and c: "plain_char c" "\<not> is_GRP c"
  shows "\<exists>e'. rcv_bytes [ESC, c] e = Some e' \<and> emu_ready e'"
proof -
  obtain e2 where e2: "rcv_bytes [ESC, c] e = scan_ansi c e2" "esc_state e2 [ESC, c]"
    using esc_state_two[OF e c(1)] .
  have f: "ppos e2 = 2" "pbuf e2 ! 0 = ESC" "pbuf e2 ! 1 = c" "emu_safe e2"
    using e2(2) esc_state_nth[OF e2(2), of 0] esc_state_nth[OF e2(2), of 1] by (simp_all add: esc_state_def)
  have "c \<noteq> CHR '']''" using c by (auto simp: is_GRP_def)
  then have "scan_ansi c e2 = tau_reset (TY_ESC c) 0 0 e2"
    using f c by (simp add: scan_ansi_def Let_def)
  then show ?thesis using keeps_reset_ready[OF keeps_tau(3) f(4)] e2(1) by simp
qed

lemma charset_ready:
  assumes e: "emu_ready e" and a: "is_SCS a" and b: "plain_char b" "b \<noteq> CHR ''?''"
  shows "\<exists>e'. rcv_bytes [ESC, a, b] e = Some e' \<and> emu_ready e'"
proof -
  have c: "is_SCS a" "is_GRP a" "plain_char a" "a \<noteq> CHR '']''" "plain_char b" "b \<noteq> CHR ''?''"
    using a b is_SCS_GRP by auto
  obtain e3 where e3: "rcv_bytes [ESC, a, b] e = scan_ansi b e3" "esc_state e3 [ESC, a, b]"
    using esc_state_three[OF e c(3,2,5)] .
  have f: "ppos e3 = 3" "pbuf e3 ! 1 = a" "pbuf e3 ! 2 = b" "emu_safe e3"
    using e3(2) esc_state_nth[OF e3(2), of 1] esc_state_nth[OF e3(2), of 2] by (simp_all add: esc_state_def)
  then have "scan_ansi b e3 = tau_reset TY_ESC_CS (num a) (num b) e3"
    using c by (simp add: scan_ansi_def Let_def)
  then show ?thesis using keeps_reset_ready[OF keeps_tau(4) f(4)] e3(1) by simp
qed

lemma hash_ready:
  assumes e: "emu_ready e" and c: "plain_char c" "c \<noteq> CHR ''?''"
  shows "\<exists>e'. rcv_bytes [ESC, CHR ''#'', c] e = Some e' \<and> emu_ready e'"
proof -
  have h: "plain_char (CHR ''#'')" "is_GRP (CHR ''#'')" by (simp_all add: plain_char_def is_GRP_def code_def)
  obtain e3 where e3: "rcv_bytes [ESC, CHR ''#'', c] e = scan_ansi c e3" "esc_state e3 [ESC, CHR ''#'', c]"
    using esc_state_three[OF e h c(1)] .
  have f: "ppos e3 = 3" "pbuf e3 ! 1 = CHR ''#''" "pbuf e3 ! 2 = c" "emu_safe e3"
    using e3(2) esc_state_nth[OF e3(2), of 1] esc_state_nth[OF e3(2), of 2] by (simp_all add: esc_state_def)
  then have "scan_ansi c e3 = tau_reset (TY_ESC_DE c) 0 0 e3"
    using c by (simp add: scan_ansi_def Let_def is_SCS_def)
  then show ?thesis using keeps_reset_ready[OF keeps_tau(5) f(4)] e3(1) by simp
qed

lemma piece_ready:
  assumes e: "emu_ready e" and p: "piece_safe p"
  shows "\<exists>e'. rcv_bytes (piece_bytes p) e = Some e' \<and> emu_ready e'"
proof (cases p)
  case (Text t)
  have g: "ground e" using e by (rule emu_ready_ground)
  have s: "emu_safe e" using e by (simp add: emu_ready_def)
  obtain w where w: "at_rest w" "rcv_bytes t e = map_option (\<lambda>s. with_scan w (put_scr s e)) (show_text t (scr e))"
    using rcv_text[OF g, of t] p Text by auto
  obtain s' where "show_text t (scr e) = Some s'" "scr_ok s'"
    using show_text_ok[OF scr_of_safe[OF s]] by blast
  then show ?thesis using w Text with_scan_ready[OF put_scr_safe[OF s]] by simp
next
  case (Ctl c)
  then have c: "is_CTL c" "c \<noteq> ESC" using p by auto
  define e1 where "e1 = (if c \<in> {CHR 0x18, CHR 0x1A, ESC} then emu_reset e else e)"
  have pp: "ppos e = 0" using emu_ready_ground[OF e] by (simp add: ground_def)
  have r1: "emu_ready e1" using e emu_reset_ready by (simp add: e1_def emu_ready_def)
  then obtain e2 where e2: "tau (TY_CTL c) 0 0 e1 = Some e2" "emu_safe e2" "scan_of e2 = scan_of e1 \<or> at_rest (scan_of e2)"
    using keepsD[OF keeps_tau(2)] unfolding emu_ready_def by metis
  have "onRcvByte c e = Some e2"
    using c pp e2(1) by (simp add: onRcvByte_def Let_def is_CTL_def e1_def)
  moreover have "emu_ready e2" using e2 r1 by (auto simp: emu_ready_def)
  ultimately show ?thesis using Ctl by simp
next
  case (Esc c)
  then show ?thesis using escape_ready[OF e] p by simp
next
  case (Charset a b)
  then show ?thesis using charset_ready[OF e] p by simp
next
  case (Hash c)
  then show ?thesis using hash_ready[OF e] p by simp
next
  case (Seq pr ds c)
  have s: "emu_safe e" using e by (simp add: emu_ready_def)
  obtain e2 where e2: "csi_action pr c (map num_of ds) e = Some e2" "emu_safe e2"
    using keepsD[OF keeps_csi s] p Seq by metis
  obtain w where "at_rest w" "rcv_bytes (csi_bytes pr ds c) e = map_option (with_scan w) (csi_action pr c (map num_of ds) e)"
    using csi_decoded[OF emu_ready_ground[OF e], of ds c pr] p Seq by auto
  then show ?thesis using e2 with_scan_ready Seq by simp
qed

text \<open>C10: What a program may send: from any state between two tokens, a stream of text, control characters, escape sequences and control
  sequences is handled to its end without an access outside of the image, the tab stops, the history or the buffers of the scanner, and leaves the emulation between
  two tokens, with both screens in order. A control sequence has at most 15 parameters (\<open>MAXARGS\<close>), each a run of digits below 2^31, below 2^30
  where it moves the cursor, sets margins or edits lines. Excluded are the sequences that insert or delete characters (\<open>@\<close>, \<open>P\<close>), that erase to the left (\<open>1K\<close>, \<open>1J\<close>), clear
  all tab stops (\<open>3g\<close>) or leave ANSI mode (\<open>?2l\<close>), character sets and hash sequences that end in a question mark, and characters 127.\<close>

theorem stream_never_faults:
  assumes "emu_ready e" and "\<forall>p\<in>set ps. piece_safe p"
  shows "\<exists>e'. rcv_bytes (stream_bytes ps) e = Some e' \<and> emu_ready e'"
  using assms
proof (induction ps arbitrary: e)
  case Nil
  then show ?case by (simp add: stream_bytes_def)
next
  case (Cons p ps)
  then obtain e1 where e1: "rcv_bytes (piece_bytes p) e = Some e1" "emu_ready e1" using piece_ready by force
  then obtain e2 where "rcv_bytes (stream_bytes ps) e1 = Some e2" "emu_ready e2" using Cons by auto
  with e1 show ?case by (auto simp: stream_bytes_def rcv_bytes_append)
qed

text \<open>The constructor: whatever the memory held before, it creates the emulation with both screens in order, in
  ANSI mode, the scanner between two tokens.\<close>

theorem VT102Emulation_ready:
  assumes "1 \<le> lns" "lns < 2 ^ 15" "1 \<le> cols" "cols < 2 ^ 15" and "scan_ok g"
  shows "\<exists>e. VT102Emulation g gs mem lns cols term = Some e \<and> emu_ready e \<and> emulation e = term"
proof -
  obtain s0 where s0: "TEScreen (gs 0) (mem 0) lns cols = Some s0" "scr_ok s0" using TEScreen_ok[OF assms(1-4)] by blast
  obtain s1 where s1: "TEScreen (gs 1) (mem 1) lns cols = Some s1" "scr_ok s1" using TEScreen_ok[OF assms(1-4)] by blast
  define e0 where "e0 = g\<lparr>screen0 := setHistMaxLines 2000 s0, screen1 := s1, alt_scr := False, bulk_nlcnt := 0, bulk_incnt := 0,
      connected := False, gui_lines := nat lns\<rparr>"
  have "emu_sound e0"
    using s0(2) s1(2) assms(5) by (simp add: e0_def emu_sound_def attributes_ok scan_ok_def)
  then obtain e1 where e1: "resetTerminal e0 = Some e1" "emu_safe e1" "at_rest (scan_of e1)"
    using resetTerminal_safe by blast
  then obtain e2 where e2: "emu_setMode MODE_BsHack e1 = Some e2" "emu_safe e2" "scan_of e2 = scan_of e1"
    using setMode_safe by blast
  have "VT102Emulation g gs mem lns cols term = Some (e2\<lparr>emulation := term\<rparr>)"
    using s0(1) s1(1) e1(1) e2(1) by (simp add: VT102Emulation_def Let_def e0_def)
  then show ?thesis
    using e1 e2 by (simp add: emu_ready_def emu_safe_def emu_sound_def scan_ok_def scan_of_def)
qed

subsection \<open>Witnesses\<close>

definition tiny_emu :: emu where
  "tiny_emu = \<lparr>screen0 = tiny_screen, screen1 = tiny_screen, alt_scr = False, emu_curr = (\<lambda>m. m = MODE_Ansi),
     emu_save = (\<lambda>_. False), pbuf = replicate 80 NUL, ppos = 0, argv = replicate 15 0, argc = 0, emulation = ''xterm'',
     connected = True, bulk_nlcnt = 0, bulk_incnt = 0, gui_lines = 2, out = []\<rparr>"

lemma tiny_emu_ready [simp]: "emu_ready tiny_emu"
  by (simp add: emu_ready_def emu_safe_def emu_sound_def tiny_emu_def scan_ok_def at_rest_def scan_of_def MAXPBUF_def MAXARGS_def)

lemma tiny_emu_scr [simp]: "scr tiny_emu = tiny_screen"
  by (simp add: tiny_emu_def scr_def)

theorem stream_never_faults_witness:
  "\<exists>e'. rcv_bytes (ESC # ''[2;3Hab'') tiny_emu = Some e' \<and> emu_ready e'"
proof -
  have "\<forall>p\<in>set [Seq False [''2'', ''3''] (CHR ''H''), Text ''ab'']. piece_safe p"
    by (simp add: csi_params_ok_def digit_run_def isdigit_def code_def digits_to_nat_def digit_val_def csi_final_def
        is_CPN_def safe_pn_def num_of_def arg_ok_def plain_text_def MAXARGS_def)
  from stream_never_faults[OF tiny_emu_ready this] show ?thesis
    by (simp add: stream_bytes_def csi_bytes_def)
qed

text \<open>Without the bound on the parameters: a number that fits into an \<open>int\<close> overflows when the cursor is moved down by it, and the next character is written outside of
  the image.\<close>

theorem huge_parameter_faults: "rcv_bytes (ESC # ''[2147483647Bx'') (tiny_emu\<lparr>screen0 := cursorDown 1 (screen0 tiny_emu)\<rparr>) = None"
  by code_simp

theorem VT102Emulation_ready_witness:
  "\<exists>e. VT102Emulation tiny_emu (\<lambda>_. tiny_screen) (\<lambda>_ _. dft) 24 80 ''xterm'' = Some e \<and> emu_ready e"
proof -
  have "scan_ok tiny_emu" by (simp add: scan_ok_def tiny_emu_def MAXPBUF_def MAXARGS_def)
  then show ?thesis
    using VT102Emulation_ready[where g = tiny_emu and lns = 24 and cols = 80] by fastforce
qed

end
