(* ===== verification/TermTalk.thy ===== *)
theory TermTalk
  imports TermStream
begin

section \<open>The terminal konsole: dialogues\<close>

text \<open>
  Control sequences and text together: writing at a place, the report of the cursor, the alternate screen,
  and the title.
\<close>

declare split_paired_Ex [simp del] split_paired_All [simp del]

subsection \<open>The cursor\<close>

lemma digit_run_dec: "n < 2 ^ 31 \<Longrightarrow> digit_run (dec_of_nat n)"
  using dec_of_nat_digits by (simp add: digit_run_def)

lemma num_of_dec [simp]: "num_of (dec_of_nat n) = int n"
  by (simp add: num_of_def)

text \<open>\<open>ESC [ y ; x H\<close>.\<close>

definition cursor_to :: "nat \<Rightarrow> nat \<Rightarrow> string" where
  "cursor_to y x = ESC # ''['' @ dec_of_nat y @ '';'' @ dec_of_nat x @ ''H''"

lemma cursor_to_csi: "cursor_to y x = csi_bytes False [dec_of_nat y, dec_of_nat x] (CHR ''H'')"
  by (simp add: cursor_to_def csi_bytes_def)

lemma cursor_addressed:
  assumes g: "ground e" and s: "scr_ok (scr e)" "\<not> getMode MODE_Origin (scr e)"
    and b: "1 \<le> y" "y < 2 ^ 31" "1 \<le> x" "x < 2 ^ 31"
  shows "\<exists>w. at_rest w \<and> rcv_bytes (cursor_to y x) e = Some (with_scan w (put_scr ((scr e)\<lparr>
    cuX := min (columns (scr e) - 1) (int x - 1), cuY := min (lines (scr e) - 1) (int y - 1)\<rparr>) e))"
proof -
  have d: "csi_params_ok [dec_of_nat y, dec_of_nat x]" "csi_final (CHR ''H'')"
    using b by (auto simp: csi_params_ok_def digit_run_dec csi_final_def MAXARGS_def code_def)
  obtain w where w: "at_rest w" "rcv_bytes (cursor_to y x) e =
      map_option (with_scan w) (csi_action False (CHR ''H'') (map num_of [dec_of_nat y, dec_of_nat x]) e)"
    using csi_decoded[OF g d, of False] unfolding cursor_to_csi by blast
  have "1 \<le> lines (scr e)" "1 \<le> columns (scr e)" using s(1) by (auto simp: scr_ok_def)
  moreover have "int y < 2 ^ 31" "int x < 2 ^ 31" using b(2,4) by simp_all
  ultimately have "setCursorYX (int y) (int x) (scr e) = (scr e)\<lparr>
      cuX := min (columns (scr e) - 1) (int x - 1), cuY := min (lines (scr e) - 1) (int y - 1)\<rparr>"
    using b s(2) by (simp add: setCursorYX_def setCursorX_def setCursorY_def dflt1_def w32_small)
  then have "csi_action False (CHR ''H'') (map num_of [dec_of_nat y, dec_of_nat x]) e = Some (put_scr ((scr e)\<lparr>
      cuX := min (columns (scr e) - 1) (int x - 1), cuY := min (lines (scr e) - 1) (int y - 1)\<rparr>) e)"
    by (simp add: csi_action_def is_CPN_def tau_def tau_csi_pn_def on_scr'_def)
  then show ?thesis using w by (intro exI[of _ w]) simp
qed

text \<open>C29: What a program writes appears where it asked for it: after \<open>ESC [ y ; x H\<close> and a text of printable characters that
  fits on the line, the cells of line \<open>y\<close> from column \<open>x\<close> on hold the text in the current colours, all other cells are as they were,
  and the cursor stands behind the text. The screen is one without origin and insert mode, in the plain character
  set.\<close>

theorem addressed_text_appears:
  assumes "ground e" "scr_ok (scr e)" "\<not> getMode MODE_Origin (scr e)" "\<not> getMode MODE_Insert (scr e)" "\<not> graphic (scr e)"
    "\<not> pound (scr e)" and "plain_text w" "1 \<le> y" "int y \<le> lines (scr e)" "1 \<le> x" "int x - 1 + int (length w) \<le> columns (scr e)"
    "int x \<le> columns (scr e)"
  shows "\<exists>e'. rcv_bytes (cursor_to y x @ w) e = Some e' \<and> ground e' \<and>
    cuX (scr e') = int x - 1 + int (length w) \<and> cuY (scr e') = int y - 1 \<and>
    (\<forall>i j. on_screen (scr e) i j \<longrightarrow> cell (scr e') i j =
       (if j = int y - 1 \<and> int x - 1 \<le> i \<and> i < int x - 1 + int (length w)
        then blank (w ! nat (i - (int x - 1))) (scr e) else cell (scr e) i j))"
proof -
  let ?s = "scr e"
  let ?u = "?s\<lparr>cuX := int x - 1, cuY := int y - 1\<rparr>"
  have sz: "lines ?s < 2 ^ 15" "columns ?s < 2 ^ 15" "1 \<le> columns ?s" using assms(2) by (auto simp: scr_ok_def)
  then have b: "y < 2 ^ 31" "x < 2 ^ 31" using assms(9,12) by simp_all
  obtain v where v: "at_rest v" "rcv_bytes (cursor_to y x) e = Some (with_scan v (put_scr ?u e))"
    using cursor_addressed[OF assms(1-3,8) b(1) assms(10) b(2)] assms(9,12) by auto
  let ?e = "with_scan v (put_scr ?u e)"
  have u: "scr_ok ?u" using assms(2,8-12) by (simp add: scr_ok_def)
  obtain t where t: "show_text w ?u = Some (t\<lparr>cuX := cuX ?u + int (length w)\<rparr>)"
    "drawn (\<lambda>i j. if j = cuY ?u \<and> cuX ?u \<le> i \<and> i < cuX ?u + int (length w) then blank (w ! nat (i - cuX ?u)) ?u else cell ?u i j) ?u t"
    using show_text_writes[OF u, of w] assms(4-6,11) by (auto simp: getMode_def)
  have g: "ground ?e" using v(1) assms(1) by (simp add: ground_rest)
  have "scr ?e = ?u" by simp
  then obtain v2 where v2: "at_rest v2" "rcv_bytes w ?e = Some (with_scan v2 (put_scr (t\<lparr>cuX := cuX ?u + int (length w)\<rparr>) e))"
    using rcv_text[OF g assms(7)] t(1) by (auto simp del: screen.update_convs)
  have "ground (with_scan v2 (put_scr (t\<lparr>cuX := cuX ?u + int (length w)\<rparr>) e))"
    using v2(1) assms(1) by (simp add: ground_rest)
  moreover have "cuY t = int y - 1" using redrawn_fields(4)[OF drawn_redrawn[OF t(2)]] by simp
  moreover have "cell t i j = (if j = int y - 1 \<and> int x - 1 \<le> i \<and> i < int x - 1 + int (length w)
        then blank (w ! nat (i - (int x - 1))) ?s else cell ?s i j)" if "on_screen ?s i j" for i j
    using drawn_cell[OF t(2), of i j] that by (simp add: on_screen_def cell_def loc_def blank_def)
  ultimately show ?thesis using v(2) v2 by (simp add: rcv_bytes_append)
qed

text \<open>The report of the cursor can be sent back: the numbers of the answer to \<open>ESC [ 6 n\<close>, sent as \<open>ESC [ y ; x H\<close> at any later
  time to a screen of the same size without origin mode, put the cursor where it was; a cursor that waits behind the last column
  is put on the last column.\<close>

theorem cursor_report_roundtrip:
  assumes "scr_ok (scr e)" and "ground e'" "scr_ok (scr e')" "\<not> getMode MODE_Origin (scr e')"
    "lines (scr e') = lines (scr e)" "columns (scr e') = columns (scr e)"
  shows "\<exists>y x w. tau (CSI_PS (CHR ''n'') 6) 0 0 e = Some (send (SndBlock (ESC # ''['' @ dec_of_nat y @ '';'' @ dec_of_nat x @ ''R'')) e) \<and>
    rcv_bytes (cursor_to y x) e' =
      Some (with_scan w (put_scr ((scr e')\<lparr>cuX := min (columns (scr e) - 1) (cuX (scr e)), cuY := cuY (scr e)\<rparr>) e'))"
proof -
  let ?y = "nat (cuY (scr e) + 1)" and ?x = "nat (cuX (scr e) + 1)"
  have b: "0 \<le> cuY (scr e)" "cuY (scr e) < lines (scr e)" "lines (scr e) < 2 ^ 15" "0 \<le> cuX (scr e)"
    "cuX (scr e) \<le> columns (scr e)" "columns (scr e) < 2 ^ 15" using assms(1) by (auto simp: scr_ok_def)
  then have n: "1 \<le> ?y" "?y < 2 ^ 31" "1 \<le> ?x" "?x < 2 ^ 31" by auto
  have digits: "no_nul (dec_of_nat n)" for n
    using dec_of_nat_digits[of n] isdigit_neq by (auto simp: no_nul_def)
  have "tau (CSI_PS (CHR ''n'') 6) 0 0 e = Some (reportCursorPosition e)"
    by (simp add: CSI_PS_def tau_def tau_csi_ps_def)
  moreover have "reportCursorPosition e = send (SndBlock (ESC # ''['' @ dec_of_nat ?y @ '';'' @ dec_of_nat ?x @ ''R'')) e"
    using b by (simp add: reportCursorPosition_def sendString_def dec_of_int_def digits)
  moreover obtain w where "rcv_bytes (cursor_to ?y ?x) e' = Some (with_scan w (put_scr ((scr e')\<lparr>
    cuX := min (columns (scr e) - 1) (cuX (scr e)), cuY := cuY (scr e)\<rparr>) e'))"
    using cursor_addressed[OF assms(2-4) n] b assms(5,6) by auto
  ultimately show ?thesis by (intro exI[of _ ?y] exI[of _ ?x] exI[of _ w]) simp
qed

subsection \<open>The alternate screen\<close>

lemma csi_private:
  assumes "ground e" "n < 65536" "csi_final c" "csi_action True c [int n] e = Some e'"
  shows "\<exists>w. at_rest w \<and> rcv_bytes (csi_bytes True [dec_of_nat n] c) e = Some (with_scan w e')"
proof -
  have "csi_params_ok [dec_of_nat n]" using assms(2) by (simp add: csi_params_ok_def digit_run_dec MAXARGS_def)
  from csi_decoded[OF assms(1) this assms(3), of True] show ?thesis using assms(4) by auto
qed

text \<open>C30: The alternate screen: a program that switches to it, writes and switches back leaves the primary screen as it
  was, but for a selection. The text may hold any printable characters.\<close>

theorem alternate_screen_protects:
  assumes "emu_ready e" "\<not> alt_scr e" "plain_text t"
  shows "\<exists>e'. rcv_bytes (csi_bytes True [''47''] (CHR ''h'') @ t @ csi_bytes True [''47''] (CHR ''l'')) e = Some e' \<and>
    scr e' = clearSelection (scr e) \<and> \<not> alt_scr e' \<and> emu_ready e'"
proof -
  have safe: "emu_safe e" and g: "ground e" using assms(1) emu_ready_ground by (simp_all add: emu_ready_def)
  have n: "''47'' = dec_of_nat 47" by (simp add: dec_of_nat.simps digit_char_def char_of_eq code_def)
  have fin: "csi_final (CHR ''h'')" "csi_final (CHR ''l'')" by (simp_all add: csi_final_def code_def)
  obtain e1 where e1: "emu_setMode MODE_AppScreen e = Some e1" "emu_safe e1" "scan_of e1 = scan_of e"
    using setMode_safe[OF safe] by blast
  have e1': "alt_scr e1" "screen0 e1 = screen0 e"
    using e1(1) by (auto simp: emu_setMode_def Let_def is_screen_mode_def split: bind_splits)
  have "csi_action True (CHR ''h'') [int 47] e = Some e1"
    using e1(1) by (simp add: csi_action_def CSI_PR_def tau_def tau_csi_pr_def)
  from csi_private[OF g _ fin(1) this] obtain w1 where
    w1: "at_rest w1" "rcv_bytes (csi_bytes True [''47''] (CHR ''h'')) e = Some (with_scan w1 e1)"
    unfolding n by auto
  let ?e1 = "with_scan w1 e1"
  have g1: "ground ?e1" using with_scan_ready[OF e1(2) w1(1)] by (rule emu_ready_ground)
  obtain s where s: "show_text t (scr e1) = Some s" "scr_ok s"
    using show_text_ok[OF scr_of_safe[OF e1(2)]] by blast
  obtain w2 where w2: "at_rest w2" "rcv_bytes t ?e1 = Some (with_scan w2 (put_scr s e1))"
    using rcv_text[OF g1 assms(3)] s by auto
  let ?e2 = "with_scan w2 (put_scr s e1)"
  have r2: "emu_ready ?e2" by (rule with_scan_ready[OF put_scr_safe[OF e1(2) s(2)] w2(1)])
  have "csi_action True (CHR ''l'') [int 47] ?e2 = Some (emu_resetMode MODE_AppScreen ?e2)"
    by (simp add: csi_action_def CSI_PR_def tau_def tau_csi_pr_def)
  from csi_private[OF emu_ready_ground[OF r2] _ fin(2) this] obtain w3 where
    w3: "at_rest w3" "rcv_bytes (csi_bytes True [''47''] (CHR ''l'')) ?e2 = Some (with_scan w3 (emu_resetMode MODE_AppScreen ?e2))"
    unfolding n by auto
  let ?e3 = "with_scan w3 (emu_resetMode MODE_AppScreen ?e2)"
  have "emu_ready ?e3"
    using resetMode_safe[of ?e2 MODE_AppScreen] r2 w3(1) by (intro with_scan_ready) (auto simp: emu_ready_def)
  moreover have "scr ?e3 = clearSelection (scr e) \<and> \<not> alt_scr ?e3"
    using e1' assms(2) by (simp add: emu_resetMode_def Let_def is_screen_mode_def scr_def put_scr_def)
  ultimately show ?thesis using w1(2) w2(2) w3(2) by (auto simp: rcv_bytes_append)
qed

text \<open>\<open>ESC [ 3 g\<close> faults in every state.\<close>

theorem clear_tabs_faults:
  assumes "ground e" "scr_ok (scr e)"
  shows "rcv_bytes (csi_bytes False [''3''] (CHR ''g'')) e = None"
proof -
  have n: "''3'' = dec_of_nat 3" by (simp add: dec_of_nat.simps digit_char_def char_of_eq code_def)
  have "csi_params_ok [dec_of_nat 3]" "csi_final (CHR ''g'')"
    by (simp_all add: csi_params_ok_def digit_run_dec MAXARGS_def csi_final_def code_def)
  from csi_decoded[OF assms(1) this, of False] assms(2) show ?thesis
    unfolding n by (auto simp: csi_action_def is_CPN_def CSI_PS_def tau_def tau_csi_ps_def on_scr_def clearTabStops_faults)
qed

subsection \<open>The title\<close>

text \<open>The scanner with the bytes \<open>w\<close> of an unfinished token.\<close>

definition buffered :: "emu \<Rightarrow> emu \<Rightarrow> string \<Rightarrow> bool" where
  "buffered e0 e w \<longleftrightarrow> e = with_scan (scan_of e) e0 \<and> scan_ok e \<and> emu_getMode MODE_Ansi e \<and>
     ppos e = length w \<and> take (length w) (pbuf e) = w"

lemma buffered_nth: "buffered e0 e w \<Longrightarrow> i < length w \<Longrightarrow> pbuf e ! i = w ! i"
  unfolding buffered_def by (metis nth_take)

lemma buffered_store:
  assumes b: "buffered e0 e w" and l: "length w < 79"
  shows "buffered e0 (store_byte c e) (w @ [c])"
proof -
  have ok: "length (pbuf e) = 80" "ppos e = length w" "take (length w) (pbuf e) = w" "e = with_scan (scan_of e) e0" "scan_ok e"
    "emu_getMode MODE_Ansi e"
    using b by (auto simp: buffered_def scan_ok_def MAXPBUF_def)
  have "store_byte c e = with_scan (scan_of (store_byte c e)) e0"
    by (simp add: store_byte_scan) (subst ok(4), simp)
  moreover have "emu_getMode MODE_Ansi (store_byte c e)" using ok(6) by (simp add: store_byte_scan)
  moreover have "scan_ok (store_byte c e)" "ppos (store_byte c e) = length w + 1"
    using ok l by (simp_all add: store_byte_scan scan_ok_def MAXPBUF_def)
  moreover have "take (length w + 1) (pbuf (store_byte c e)) = w @ [c]"
    using ok l by (simp add: store_byte_scan take_Suc_conv_app_nth)
  ultimately show ?thesis by (simp add: buffered_def)
qed

lemma title_begin:
  assumes g: "ground e"
  shows "\<exists>e'. rcv_bytes [ESC, CHR '']''] e = Some e' \<and> buffered e e' [ESC, CHR '']'']"
proof -
  let ?e1 = "store_byte ESC (emu_reset e)"
  have ok: "length (pbuf e) = 80" "ppos e = 0" "length (argv e) = 15" "emu_getMode MODE_Ansi e" "scan_ok e"
    using g by (auto simp: ground_def scan_ok_def MAXPBUF_def MAXARGS_def)
  have "emu_reset e = with_scan (scan_of (emu_reset e)) e" by (simp add: emu_reset_scan)
  then have b0: "buffered e (emu_reset e) []"
    using ok by (simp add: buffered_def) (simp add: emu_reset_scan scan_ok_def MAXPBUF_def MAXARGS_def)
  from buffered_store[OF this, of ESC] have b1: "buffered e ?e1 [ESC]" by simp
  from buffered_store[OF this, of "CHR '']''"] have b2: "buffered e (store_byte (CHR '']'') ?e1) [ESC, CHR '']'']" by simp
  have f1: "ppos ?e1 = 1" "pbuf ?e1 ! 0 = ESC" "emu_getMode MODE_Ansi ?e1"
    using b1 buffered_nth[OF b1, of 0] by (simp_all add: buffered_def)
  have f2: "ppos (store_byte (CHR '']'') ?e1) = 2" "pbuf (store_byte (CHR '']'') ?e1) ! 1 = CHR '']''"
    using b2 buffered_nth[OF b2, of 1] by (simp_all add: buffered_def)
  have "onRcvByte ESC e = Some ?e1"
    using ok f1 by (simp add: onRcvByte_def Let_def is_CTL_def code_eqs scan_ansi_def)
  moreover have "onRcvByte (CHR '']'') ?e1 = scan_ansi (CHR '']'') (store_byte (CHR '']'') ?e1)"
    by (rule onRcvByte_plain) (simp_all add: f1 code_def)
  then have "onRcvByte (CHR '']'') ?e1 = Some (store_byte (CHR '']'') ?e1)"
    using f2 by (simp add: scan_ansi_def Let_def is_GRP_def)
  ultimately show ?thesis using b2 by auto
qed

lemma title_byte:
  assumes b: "buffered e0 e w" and t: "2 \<le> length w" "w ! 1 = CHR '']''" and l: "length w < 79" and c: "plain_char c"
  shows "onRcvByte c e = Some (store_byte c e) \<and> buffered e0 (store_byte c e) (w @ [c])"
proof -
  note b2 = buffered_store[OF b l, of c]
  have f: "ppos (store_byte c e) = length w + 1" "pbuf (store_byte c e) ! 1 = CHR '']''"
    using b2 buffered_nth[OF b2, of 1] t by (cases w; auto simp: buffered_def nth_append)+
  have "onRcvByte c e = scan_ansi c (store_byte c e)"
    using b c by (intro onRcvByte_plain) (auto simp: buffered_def plain_char_def)
  also have "\<dots> = Some (store_byte c e)"
    using f t(1) c by (simp add: scan_ansi_def Let_def plain_char_def)
  finally show ?thesis using b2 by simp
qed

lemma title_bytes:
  "buffered e0 e w \<Longrightarrow> 2 \<le> length w \<Longrightarrow> w ! 1 = CHR '']'' \<Longrightarrow> length w + length t \<le> 79 \<Longrightarrow> \<forall>c\<in>set t. plain_char c \<Longrightarrow>
   \<exists>e'. rcv_bytes t e = Some e' \<and> buffered e0 e' (w @ t)"
proof (induction t arbitrary: e w)
  case (Cons c t)
  have c: "onRcvByte c e = Some (store_byte c e)" "buffered e0 (store_byte c e) (w @ [c])"
    using title_byte[OF Cons.prems(1-3), of c] Cons.prems(4,5) by auto
  obtain e' where "rcv_bytes t (store_byte c e) = Some e'" "buffered e0 e' ((w @ [c]) @ t)"
    using Cons.IH[OF c(2)] Cons.prems(2-5) by (auto simp: nth_append)
  then show ?case using c(1) by auto
qed simp

abbreviation BEL :: char where "BEL \<equiv> CHR 0x07"

lemma title_end:
  assumes b: "buffered e0 e w" and t: "2 \<le> length w" "w ! 1 = CHR '']''"
  shows "onRcvByte BEL e = do { e \<leftarrow> XtermHack (store_byte BEL e); Some (emu_reset e) }"
proof -
  have f: "ppos e = length w" "pbuf e ! 1 = CHR '']''" "emu_getMode MODE_Ansi e" "length (pbuf e) = 80"
    using b buffered_nth[OF b, of 1] t by (auto simp: buffered_def scan_ok_def MAXPBUF_def)
  have g: "3 \<le> ppos (store_byte BEL e)" "pbuf (store_byte BEL e) ! 1 = CHR '']''" "emu_getMode MODE_Ansi (store_byte BEL e)"
    using f t b by (auto simp: store_byte_scan MAXPBUF_def nth_list_update buffered_def)
  have bel: "code BEL = 7" by (simp add: code_def)
  have "onRcvByte BEL e = scan_ansi BEL (store_byte BEL e)"
    using f t(1) g(3) by (simp add: onRcvByte_def Let_def bel)
  also have "\<dots> = do { e \<leftarrow> XtermHack (store_byte BEL e); Some (emu_reset e) }"
    using g by (simp add: scan_ansi_def Let_def bel)
  finally show ?thesis .
qed

lemma title_digits_run:
  "i \<le> k \<Longrightarrow> k \<le> n \<Longrightarrow> \<forall>j. i \<le> j \<and> j < k \<longrightarrow> 48 \<le> code (buf ! j) \<and> code (buf ! j) < 57 \<Longrightarrow>
   k < n \<longrightarrow> \<not> (48 \<le> code (buf ! k) \<and> code (buf ! k) < 57) \<Longrightarrow> fst (title_digits buf n i arg) = k"
proof (induction "k - i" arbitrary: i arg)
  case 0
  then show ?case by (subst title_digits.simps) auto
next
  case (Suc m)
  then have "i < k" by simp
  then show ?case using Suc by (subst title_digits.simps) auto
qed

lemma rcv_three:
  assumes "rcv_bytes a e = Some e1" "rcv_bytes t e1 = Some e2"
  shows "rcv_bytes (a @ t @ [c]) e = onRcvByte c e2"
  unfolding rcv_bytes_append[of a] rcv_bytes_append[of t] using assms by (cases "onRcvByte c e2") simp_all

text \<open>Titles: \<open>ESC ] d ; text BEL\<close> with \<open>d\<close> from 0 to 2 and a printable text of at most 74 characters tells the window exactly
  this text, and leaves all but the scanner as it was.\<close>

theorem title_told:
  assumes "ground e" "d < 3" "plain_text str" "length str \<le> 74"
  shows "\<exists>w. at_rest w \<and> rcv_bytes (ESC # '']'' @ char_of (48 + d) # '';'' @ str @ [BEL]) e =
    Some (with_scan w (send (ChangeTitle (int d) str) e))"
proof -
  let ?t = "char_of (48 + d) # '';'' @ str"
  have cd: "code (char_of (48 + d)) = 48 + d" using assms(2) by simp
  obtain e1 where e1: "rcv_bytes [ESC, CHR '']''] e = Some e1" "buffered e e1 [ESC, CHR '']'']"
    using title_begin[OF assms(1)] by blast
  have "\<forall>c\<in>set ?t. plain_char c"
    using assms(2,3) cd by (auto simp: plain_text_def plain_char_def code_eqs)
  then obtain e2 where e2: "rcv_bytes ?t e1 = Some e2" "buffered e e2 ([ESC, CHR '']''] @ ?t)"
    using title_bytes[OF e1(2), of ?t] assms(4) by auto
  let ?w = "[ESC, CHR '']''] @ ?t" let ?e = "store_byte BEL e2"
  have b: "buffered e ?e (?w @ [BEL])" using buffered_store[OF e2(2)] assms(4) by simp
  have len: "length (?w @ [BEL]) = length str + 5" by simp
  have p: "ppos ?e = length str + 5" and e0: "?e = with_scan (scan_of ?e) e" and ok: "scan_ok ?e"
    and tk: "take (length str + 5) (pbuf ?e) = ?w @ [BEL]"
    using b unfolding buffered_def len by blast+
  have n2: "pbuf ?e ! 2 = char_of (48 + d)" and n3: "pbuf ?e ! 3 = CHR '';''"
    using buffered_nth[OF b, of 2] buffered_nth[OF b, of 3] by simp_all
  have dg: "title_digits (pbuf ?e) (ppos ?e) 2 0 = (3, int d)"
    using assms(2) by (subst title_digits.simps, subst title_digits.simps) (simp add: p n2 n3 cd code_eqs w32_small)
  have nul: "no_nul str" using assms(3) by (auto simp: plain_text_def no_nul_def code_def)
  have "take (length str) (drop 4 (pbuf ?e)) = take (length str) (drop 4 (take (length str + 5) (pbuf ?e)))"
    by (simp add: take_drop)
  then have "take (length str) (drop 4 (pbuf ?e)) = str" by (simp add: tk)
  then have "XtermHack ?e = Some (send (ChangeTitle (int d) str) ?e)"
    using assms(2) nul unfolding XtermHack_def dg by (simp add: n3 p Let_def)
  moreover have "emu_reset (send (ChangeTitle (int d) str) ?e) =
      with_scan (pbuf ?e, 0, (argv ?e)[0 := 0, 1 := 0], 0) (send (ChangeTitle (int d) str) e)"
  proof -
    have "send (ChangeTitle (int d) str) ?e = with_scan (scan_of ?e) (send (ChangeTitle (int d) str) e)"
      by (subst e0) simp
    then show ?thesis by (simp add: emu_reset_scan) (simp add: scan_of_def)
  qed
  moreover have "at_rest (pbuf ?e, 0, (argv ?e)[0 := 0, 1 := 0], 0)"
    using ok by (simp add: at_rest_def scan_ok_def MAXARGS_def)
  moreover have "onRcvByte BEL e2 = do { e \<leftarrow> XtermHack ?e; Some (emu_reset e) }"
    by (rule title_end[OF e2(2)]) simp_all
  moreover have "rcv_bytes (ESC # '']'' @ char_of (48 + d) # '';'' @ str @ [BEL]) e = onRcvByte BEL e2"
    using rcv_three[OF e1(1) e2(1), of BEL] by simp
  ultimately show ?thesis by auto
qed

text \<open>The title overflows: 76 digits between 0 and 8, a semicolon and \<open>BEL\<close> fill the buffer of the scanner
  so that the length of the text is negative, and \<open>strncpy\<close> writes without bound.\<close>

theorem title_overflow:
  assumes "ground e" "length ds = 76" "\<forall>c\<in>set ds. 48 \<le> code c \<and> code c < 57"
  shows "rcv_bytes (ESC # '']'' @ ds @ '';'' @ [BEL]) e = None"
proof -
  let ?t = "ds @ '';''" let ?w = "[ESC, CHR '']''] @ ds @ '';''"
  obtain e1 where e1: "rcv_bytes [ESC, CHR '']''] e = Some e1" "buffered e e1 [ESC, CHR '']'']"
    using title_begin[OF assms(1)] by blast
  have "\<forall>c\<in>set ?t. plain_char c" using assms(3) by (auto simp: plain_char_def code_eqs)
  then obtain e2 where e2: "rcv_bytes ?t e1 = Some e2" "buffered e e2 ?w"
    using title_bytes[OF e1(2), of ?t] assms(2) by auto
  let ?e = "store_byte BEL e2"
  have p: "ppos ?e = 79" and nth: "pbuf ?e ! i = ?w ! i" if "i < 79" for i
  proof -
    show "ppos ?e = 79" using e2(2) assms(2) by (simp add: buffered_def store_byte_scan MAXPBUF_def)
    show "pbuf ?e ! i = ?w ! i"
      using buffered_nth[OF e2(2), of i] that e2(2) assms(2) by (simp add: store_byte_scan buffered_def)
  qed
  have dig: "48 \<le> code (pbuf ?e ! j) \<and> code (pbuf ?e ! j) < 57" if "2 \<le> j" "j < 78" for j
  proof -
    define i where "i = j - 2"
    have i: "j = Suc (Suc i)" "i < 76" using that by (auto simp: i_def)
    then have "pbuf ?e ! j = ds ! i" using nth[of j] assms(2) by (simp add: nth_append)
    then show ?thesis using assms(2,3) i by simp
  qed
  have semi: "pbuf ?e ! 78 = CHR '';''" using nth[of 78] assms(2) by (simp add: nth_append nth_Cons')
  have "fst (title_digits (pbuf ?e) (ppos ?e) 2 0) = 78"
    by (rule title_digits_run) (use dig semi p[of 0] in \<open>auto simp: code_eqs\<close>)
  then obtain a where a: "title_digits (pbuf ?e) (ppos ?e) 2 0 = (78, a)" by (metis prod.collapse)
  have "XtermHack ?e = None"
    unfolding XtermHack_def a using semi p[of 0] by (simp add: Let_def)
  moreover have "onRcvByte BEL e2 = do { e \<leftarrow> XtermHack ?e; Some (emu_reset e) }"
    by (rule title_end[OF e2(2)]) simp_all
  moreover have "rcv_bytes (ESC # '']'' @ ds @ '';'' @ [BEL]) e = onRcvByte BEL e2"
    using rcv_three[OF e1(1) e2(1), of BEL] by simp
  ultimately show ?thesis by simp
qed

subsection \<open>Witnesses\<close>

lemma tiny_emu_ground [simp]: "ground tiny_emu"
  by (rule emu_ready_ground) simp

theorem addressed_text_appears_witness:
  "\<exists>e'. rcv_bytes (cursor_to 2 2 @ ''ab'') tiny_emu = Some e' \<and> cuX (scr e') = 3 \<and> ca_c (cell (scr e') 2 1) = CHR ''b'' \<and>
     cell (scr e') 0 1 = dft"
proof -
  have p: "plain_text ''ab''" by (simp add: plain_text_def code_def)
  obtain e' where e: "rcv_bytes (cursor_to 2 2 @ ''ab'') tiny_emu = Some e'" "cuX (scr e') = 3"
    "\<forall>i j. on_screen (scr tiny_emu) i j \<longrightarrow> cell (scr e') i j =
       (if j = 1 \<and> 1 \<le> i \<and> i < 3 then blank (''ab'' ! nat (i - 1)) (scr tiny_emu) else cell (scr tiny_emu) i j)"
    using addressed_text_appears[of tiny_emu "''ab''" 2 2] p by (auto simp: getMode_def)
  have "on_screen (scr tiny_emu) 2 1" "on_screen (scr tiny_emu) 0 1" by (simp_all add: on_screen_def)
  then have "cell (scr e') 2 1 = blank (CHR ''b'') (scr tiny_emu)" "cell (scr e') 0 1 = cell (scr tiny_emu) 0 1"
    using e(3) by simp_all
  moreover have "cell tiny_screen 0 1 = dft" by (simp add: cell_def loc_def eval_nat_numeral)
  ultimately show ?thesis using e(1,2) by (simp add: blank_def)
qed

theorem cursor_report_roundtrip_witness:
  "\<exists>y x w. rcv_bytes (cursor_to y x) tiny_emu = Some (with_scan w (put_scr (tiny_screen\<lparr>cuX := 2, cuY := 1\<rparr>) tiny_emu))"
proof -
  have "lines pending_screen = 2" "columns pending_screen = 3" "cuX pending_screen = 3" "cuY pending_screen = 1"
    by (simp_all add: pending_screen_def)
  then show ?thesis
    using cursor_report_roundtrip[of "put_scr pending_screen tiny_emu" tiny_emu] by (simp add: getMode_def) blast
qed

theorem alternate_screen_protects_witness:
  "\<exists>e'. rcv_bytes (csi_bytes True [''47''] (CHR ''h'') @ ''top'' @ csi_bytes True [''47''] (CHR ''l'')) tiny_emu = Some e' \<and>
    scr e' = clearSelection tiny_screen"
proof -
  have "plain_text ''top''" by (simp add: plain_text_def code_def)
  moreover have "\<not> alt_scr tiny_emu" by (simp add: tiny_emu_def)
  ultimately show ?thesis using alternate_screen_protects[of tiny_emu "''top''"] by auto
qed

theorem title_told_witness:
  "\<exists>w. rcv_bytes (ESC # '']0;mail'' @ [BEL]) tiny_emu = Some (with_scan w (send (ChangeTitle 0 ''mail'') tiny_emu))"
proof -
  have "plain_text ''mail''" by (simp add: plain_text_def code_def)
  moreover have "char_of (48 + (0::nat)) = CHR ''0''" by (simp add: char_of_eq code_def)
  ultimately show ?thesis using title_told[of tiny_emu 0 "''mail''"] by auto
qed

theorem title_overflow_witness:
  "rcv_bytes (ESC # '']'' @ replicate 76 (CHR ''1'') @ '';'' @ [BEL]) tiny_emu = None"
  by (rule title_overflow) (simp_all add: code_def)

end
