(* ===== verification/TermSelect.thy ===== *)
theory TermSelect
  imports TermTalk "HOL-Library.Signed_Division"
begin

section \<open>The terminal konsole: the text of a selection\<close>

text \<open>
  \<open>getSelText\<close> of \<open>konsole/src/TEScreen.C\<close>, its use by the emulation, and the words that a double click selects in
  \<open>TEWidget.C\<close>. The positions \<open>sel_TL\<close> and \<open>sel_BR\<close> count the cells of history and image together. The buffer has a size
  that is computed first; writing behind it gives \<open>None\<close>, like a read outside of a line or of the image.
\<close>

subsection \<open>Copying\<close>

fun copy_cells :: "nat \<Rightarrow> int \<Rightarrow> ca list \<Rightarrow> string option" where
  "copy_cells 0 i xs = Some []"
| "copy_cells (Suc n) i xs = do { c \<leftarrow> read_at i xs; t \<leftarrow> copy_cells n (i + 1) xs; Some (ca_c c # t) }"

definition put_sel :: "int \<Rightarrow> string \<Rightarrow> string \<Rightarrow> string option" where
  "put_sel cap t m = (if int (length (m @ t)) \<le> cap then Some (m @ t) else None)"

text \<open>\<open>while ((eol > s) && isspace(image[i].c)) eol--\<close>, at most \<open>n\<close> times; \<open>i\<close> is the place in the image.\<close>

fun strip_eol :: "nat \<Rightarrow> int \<Rightarrow> ca list \<Rightarrow> int option" where
  "strip_eol 0 i xs = Some i"
| "strip_eol (Suc n) i xs = do { c \<leftarrow> read_at i xs; if isspace (ca_c c) then strip_eol n (i - 1) xs else Some i }"

definition line_sep :: "bool \<Rightarrow> int \<Rightarrow> screen \<Rightarrow> string" where
  "line_sep preserve eol sc = [if preserve \<or> eol smod columns sc = 0 then LF else SP]"

text \<open>A line of the history: the characters, and the new value of \<open>s\<close>. No cell is copied when \<open>hX\<close> is behind the end.\<close>

definition sel_hist_line :: "screen \<Rightarrow> bool \<Rightarrow> int \<Rightarrow> int \<Rightarrow> int \<Rightarrow> (string \<times> int) option" where
  "sel_hist_line sc preserve s hY hX = do {
     l \<leftarrow> read_at hY (histBuffer sc);
     let eol = (if hY = sel_BR sc sdiv columns sc \<and> int (length l) \<ge> sel_BR sc smod columns sc
         then sel_BR sc smod columns sc + 1 else int (length l));
     t \<leftarrow> copy_cells (nat (eol - hX)) hX l;
     let s = s + int (length t);
     if s \<le> sel_BR sc
     then if (eol + 1) smod columns sc = 0
       then do { c \<leftarrow> read_at (columns sc - 1) l; Some (t @ (if ca_c c = SP then [SP] else []), s) }
       else Some (t @ line_sep preserve eol sc, ((s + 1) sdiv columns sc + 1) * columns sc)
     else Some (t, s) }"

text \<open>A line of the image.\<close>

definition sel_screen_line :: "screen \<Rightarrow> bool \<Rightarrow> int \<Rightarrow> (string \<times> int) option" where
  "sel_screen_line sc preserve s =
     (let off = loc sc 0 (histLines sc - 1) + columns sc; eol = (s sdiv columns sc + 1) * columns sc - 1
      in do {
        eol \<leftarrow> (if eol < sel_BR sc then map_option (\<lambda>i. i + off) (strip_eol (nat (eol - s)) (eol - off) (img sc)) else Some (sel_BR sc));
        t \<leftarrow> copy_cells (nat (eol - s + 1)) (s - off) (img sc);
        u \<leftarrow> (if eol < sel_BR sc
          then if (eol + 1) smod columns sc = 0
            then do { c \<leftarrow> read_at (eol - off) (img sc); Some (if ca_c c = SP then [SP] else []) }
            else Some (line_sep preserve eol sc)
          else Some []);
        Some (t @ u, (eol sdiv columns sc + 1) * columns sc) })"

text \<open>The number of columns is never below one; a division by zero gives \<open>None\<close>.\<close>

function sel_loop :: "screen \<Rightarrow> bool \<Rightarrow> int \<Rightarrow> int \<Rightarrow> int \<Rightarrow> int \<Rightarrow> string \<Rightarrow> string option" where
  "sel_loop sc preserve cap s hY hX m =
     (if columns sc < 1 then None
      else if s > sel_BR sc then Some m
      else if s < loc sc 0 (histLines sc - 1)
      then (case sel_hist_line sc preserve s hY hX of
          None \<Rightarrow> None
        | Some (t, s) \<Rightarrow> (case put_sel cap t m of None \<Rightarrow> None | Some m \<Rightarrow> sel_loop sc preserve cap s (hY + 1) 0 m))
      else (case sel_screen_line sc preserve s of
          None \<Rightarrow> None
        | Some (t, s) \<Rightarrow> (case put_sel cap t m of None \<Rightarrow> None | Some m \<Rightarrow> sel_loop sc preserve cap s hY hX m)))"
  by pat_completeness auto

lemma next_line_gt: "1 \<le> c \<Longrightarrow> s < (s sdiv c + 1) * c" for c s :: int
proof -
  assume c: "1 \<le> c"
  then have "s mod c < c" by simp
  moreover have "(s div c + 1) * c = s - s mod c + c" by (simp add: minus_mod_eq_mult_div algebra_simps)
  ultimately have "s < (s div c + 1) * c" by simp
  also have "\<dots> \<le> (s sdiv c + 1) * c" using c by (intro mult_right_mono) (simp_all add: signed_divide_int_eq_divide_int)
  finally show ?thesis .
qed

lemma strip_eol_ge: "strip_eol n i xs = Some j \<Longrightarrow> i - int n \<le> j"
  by (induction n arbitrary: i) (auto split: bind_splits if_splits, force)

lemma sel_hist_line_ge:
  assumes "sel_hist_line sc preserve s hY hX = Some (t, s')" "1 \<le> columns sc"
  shows "s \<le> s' \<and> 0 \<le> hY \<and> hY < int (length (histBuffer sc))"
proof -
  have N: "s \<le> ((s + int n + 1) sdiv columns sc + 1) * columns sc" for n
    using next_line_gt[OF assms(2), of "s + int n + 1"] by simp
  show ?thesis
    using assms by (auto simp: sel_hist_line_def read_at_def Let_def N split: bind_splits if_splits)
qed

lemma sel_screen_line_gt:
  assumes "sel_screen_line sc preserve s = Some (t, s')" "1 \<le> columns sc" "s \<le> sel_BR sc"
  shows "s < s'"
proof -
  define eol0 where "eol0 = (s sdiv columns sc + 1) * columns sc - 1"
  have g: "s \<le> eol0" using next_line_gt[OF assms(2), of s] by (simp add: eol0_def)
  have st: "s \<le> j + off" if "strip_eol (nat (eol0 - s)) (eol0 - off) (img sc) = Some j" for j off
    using strip_eol_ge[OF that] g by simp
  obtain eol where e: "s' = (eol sdiv columns sc + 1) * columns sc" "s \<le> eol"
    using assms(1,3) st unfolding sel_screen_line_def Let_def eol0_def[symmetric]
    by (auto split: bind_splits if_splits)
  then show ?thesis using next_line_gt[OF assms(2), of eol] by simp
qed

termination sel_loop
  by (relation "measure (\<lambda>(sc, p, cap, s, hY, hX, m). nat (sel_BR sc - s + 1) + nat (int (length (histBuffer sc)) - hY))")
    (auto dest!: sel_hist_line_ge sel_screen_line_gt)

definition getSelText :: "bool \<Rightarrow> screen \<Rightarrow> string option" where
  "getSelText preserve sc =
     (if columns sc < 1 then None
      else let hY = sel_TL sc sdiv columns sc; hX = sel_TL sc smod columns sc;
               d = (sel_BR sc - sel_TL sc) sdiv columns sc + 1
           in sel_loop sc preserve (d * (columns sc + 1) + 2) (sel_TL sc) hY hX [])"

definition setSelection :: "bool \<Rightarrow> emu \<Rightarrow> emu option" where
  "setSelection preserve e =
     (if \<not> connected e then Some e
      else do { t \<leftarrow> getSelText preserve (scr e); Some (send (SetSelection (cstr t)) e) })"

subsection \<open>The text of a selection on the screen\<close>

text \<open>The specification. Of each line but the last, the blanks at the end are left out, though never the first cell selected. A line that is full to the
  margin is joined with the next one, with its blank if it ends with one; after others comes a line feed, or a blank when line breaks are not kept, unless only the
  first column is left of the line.\<close>

definition strip1 :: "string \<Rightarrow> string" where
  "strip1 t = take 1 t @ rev (dropWhile isspace (rev (drop 1 t)))"

definition ref_line :: "bool \<Rightarrow> nat \<Rightarrow> nat \<Rightarrow> string \<Rightarrow> string" where
  "ref_line preserve w x l =
     (let t = strip1 l
      in t @ (if x + length t = w then (if last t = SP then [SP] else []) else [if preserve \<or> x + length t = 1 then LF else SP]))"

fun ref_text :: "bool \<Rightarrow> nat \<Rightarrow> nat \<Rightarrow> string list \<Rightarrow> string" where
  "ref_text preserve w x [] = []"
| "ref_text preserve w x [l] = l"
| "ref_text preserve w x (l # ls) = ref_line preserve w x l @ ref_text preserve w 0 ls"

text \<open>The part of line \<open>y\<close> from column \<open>x\<close> on that is not behind the end of the selection, which is at column \<open>xb\<close> of line \<open>yb\<close>.\<close>

definition sel_part :: "screen \<Rightarrow> int \<Rightarrow> int \<Rightarrow> int \<Rightarrow> int \<Rightarrow> string" where
  "sel_part sc xb yb x y = drop (nat x) (take (nat (if y = yb then xb + 1 else columns sc)) (map ca_c (row sc y)))"

lemma copy_cells_Some: "0 \<le> i \<Longrightarrow> i + int n \<le> int (length xs) \<Longrightarrow> copy_cells n i xs = Some (map ca_c (take n (drop (nat i) xs)))"
proof (induction n arbitrary: i)
  case (Suc n)
  have "nat (i + 1) = Suc (nat i)" using Suc.prems by simp
  moreover have "nat i < length xs" using Suc.prems by simp
  ultimately show ?case using Suc by (simp add: read_at_Some take_Suc_conv_app_nth Cons_nth_drop_Suc[symmetric])
qed simp

lemma strip_eol_Some:
  assumes "int n \<le> i + 1" "i < int (length xs)"
  shows "strip_eol n i xs = Some (i - int (length (takeWhile isspace (rev (map ca_c (take n (drop (nat (i + 1 - int n)) xs)))))))"
  using assms
proof (induction n arbitrary: i)
  case (Suc n)
  define k where "k = nat (i - int n)"
  have k: "nat (i + 1 - int (Suc n)) = k" "nat (i - 1 + 1 - int n) = k" "nat i = k + n" "k + n < length xs"
    using Suc.prems by (auto simp: k_def)
  have "take (Suc n) (drop k xs) = take n (drop k xs) @ [xs ! (k + n)]" using k(4) by (simp add: take_Suc_conv_app_nth)
  then show ?case using Suc.IH[of "i - 1"] Suc.prems k by (simp add: read_at_Some)
qed simp

lemma sdiv_pos: "0 \<le> a \<Longrightarrow> 1 \<le> c \<Longrightarrow> a sdiv c = a div c" "0 \<le> a \<Longrightarrow> 1 \<le> c \<Longrightarrow> a smod c = a mod c" for a c :: int
  by (auto simp: signed_divide_int_def signed_modulo_int_def sgn_if)

lemma strip1_take: "l \<noteq> [] \<Longrightarrow> strip1 l = take (length l - length (takeWhile isspace (rev (drop 1 l)))) l"
proof (cases l)
  case (Cons c r)
  have "rev (dropWhile isspace (rev r)) = take (length r - length (takeWhile isspace (rev r))) r"
    by (metis length_rev rev_rev_ident rev_drop dropWhile_eq_drop)
  moreover have "length (takeWhile isspace (rev r)) \<le> length r" by (metis length_rev length_takeWhile_le)
  ultimately show ?thesis using Cons by (simp add: strip1_def Suc_diff_le)
qed simp

lemma sel_part_image:
  assumes ok: "scr_ok sc" and y: "0 \<le> y" "y < lines sc" and x: "0 \<le> x" "xb < columns sc"
  shows "sel_part sc xb yb x y =
    map ca_c (take (nat ((if y = yb then xb + 1 else columns sc) - x)) (drop (nat (y * columns sc + x)) (img sc)))"
proof -
  have "nat (y * columns sc) + nat x = nat (y * columns sc + x)" using y x ok by (simp add: scr_ok_def nat_add_distrib)
  moreover have "nat (a - x) = nat a - nat x" for a using x by linarith
  moreover have "min (nat (1 + xb)) (nat (columns sc)) = nat (1 + xb)" using x by simp
  ultimately show ?thesis
    by (simp add: sel_part_def row_take_drop[OF ok y] drop_map take_map drop_take add.commute)
qed

lemma sel_screen_line_spec:
  assumes ok: "scr_ok sc" and y: "0 \<le> y" "y \<le> yb" "yb < lines sc" and x: "0 \<le> x" "x < columns sc" "0 \<le> xb" "xb < columns sc"
    and BR: "sel_BR sc = (yb + histLines sc) * columns sc + xb" and le: "y = yb \<Longrightarrow> x \<le> xb"
  shows "sel_screen_line sc p ((y + histLines sc) * columns sc + x) =
    Some (if y = yb then sel_part sc xb yb x y else ref_line p (nat (columns sc)) (nat x) (sel_part sc xb yb x y), (y + histLines sc + 1) * columns sc)"
proof -
  define w where "w = columns sc"
  define h where "h = histLines sc"
  define s where "s = (y + h) * w + x"
  have c: "1 \<le> w" "0 \<le> h" "int (length (img sc)) = lines sc * w" using ok by (auto simp: scr_ok_def w_def h_def)
  have s0: "0 \<le> (y + h) * w" using c y by simp
  have off: "loc sc 0 (h - 1) + w = h * w" by (simp add: loc_def w_def algebra_simps)
  have sd: "s sdiv w = y + h" using s0 c x by (simp add: s_def sdiv_pos w_def)
  have lw: "y * w + w \<le> int (length (img sc))" "0 \<le> y * w"
    using c y mult_right_mono[of "y + 1" "lines sc" w] by (simp_all add: algebra_simps)
  have so: "s - h * w = y * w + x" by (simp add: s_def algebra_simps)
  show ?thesis
  proof (cases "y = yb")
    case True
    have e: "\<not> (y + h + 1) * w - 1 < sel_BR sc" using True BR x by (simp add: w_def h_def algebra_simps)
    have b: "sel_BR sc sdiv w = y + h" "sel_BR sc - s + 1 = xb + 1 - x"
      using True BR s0 x c by (simp_all add: sdiv_pos w_def h_def s_def)
    have "copy_cells (nat (xb - x + 1)) (y * w + x) (img sc) = Some (sel_part sc xb yb x y)"
      using True y x le lw by (subst copy_cells_Some) (simp_all add: w_def sel_part_image[OF ok] algebra_simps)
    then show ?thesis
      unfolding sel_screen_line_def Let_def off w_def[symmetric] h_def[symmetric] s_def[symmetric] sd if_not_P[OF e]
      using True b so by simp
  next
    case False
    define l where "l = sel_part sc xb yb x y"
    define n where "n = nat (w - 1 - x)"
    define k where "k = length (takeWhile isspace (rev (drop 1 l)))"
    define eol where "eol = (y + h + 1) * w - 1 - int k"
    have l: "l = map ca_c (take (Suc n) (drop (nat (y * w + x)) (img sc)))"
      using False y x by (simp add: l_def sel_part_image[OF ok] n_def w_def Suc_nat_eq_nat_zadd1)
    have n: "int n = w - 1 - x" using x by (simp add: n_def w_def)
    have len: "length l = Suc n" using n lw x by (simp add: l)
    have kn: "k \<le> n" using length_takeWhile_le[of isspace "rev (drop 1 l)"] len by (simp add: k_def)
    have d1: "drop 1 l = map ca_c (take n (drop (nat (y * w + x + 1)) (img sc)))"
      using lw x by (simp add: l drop_map drop_take nat_add_distrib)
    have ne: "l \<noteq> []" using len by auto
    have st: "strip1 l = take (Suc n - k) l" using strip1_take[OF ne] len by (simp add: k_def)
    have lt: "length (strip1 l) = Suc n - k" using st len by simp
    have e: "(y + h + 1) * w - 1 < sel_BR sc"
    proof -
      have "(y + 1 + h) * w \<le> (yb + h) * w" using False y c by (intro mult_right_mono) auto
      then show ?thesis using BR x by (simp add: w_def h_def algebra_simps)
    qed
    have strip: "strip_eol (nat ((y + h + 1) * w - 1 - s)) ((y + h + 1) * w - 1 - h * w) (img sc) = Some (eol - h * w)"
    proof -
      have "strip_eol n (y * w + w - 1) (img sc) =
          Some (y * w + w - 1 - int (length (takeWhile isspace (rev (map ca_c (take n (drop (nat (y * w + w - 1 + 1 - int n)) (img sc))))))))"
        using lw n x by (intro strip_eol_Some) auto
      moreover have "y * w + w - 1 + 1 - int n = y * w + x + 1" using n by simp
      moreover have "nat ((y + h + 1) * w - 1 - s) = n" "(y + h + 1) * w - 1 - h * w = y * w + w - 1"
        "eol - h * w = y * w + w - 1 - int k"
        by (simp_all add: n_def s_def eol_def algebra_simps)
      ultimately show ?thesis by (simp only: k_def d1)
    qed
    have "nat (eol - s + 1) = Suc n - k" using n kn by (simp add: eol_def s_def algebra_simps)
    moreover have "copy_cells (Suc n - k) (y * w + x) (img sc) = Some (strip1 l)"
      using lw n x kn unfolding st by (subst copy_cells_Some) (auto simp: l take_map)
    ultimately have copy: "copy_cells (nat (eol - s + 1)) (s - h * w) (img sc) = Some (strip1 l)" by (simp add: so)
    have eb: "eol < sel_BR sc" using e by (simp add: eol_def)
    have kw: "int k < w" using kn n x by simp
    have es: "0 \<le> eol" "eol = (y + h) * w + (w - 1 - int k)" using s0 kw by (simp_all add: eol_def algebra_simps)
    then have em: "eol smod w = w - 1 - int k" "eol sdiv w = y + h" using c kw by (simp_all add: sdiv_pos)
    have e1: "(eol + 1) smod w = 0 \<longleftrightarrow> k = 0"
    proof -
      have "eol + 1 = (w - int k) + (y + h) * w" using es(2) by simp
      then have "(eol + 1) mod w = (w - int k) mod w" by (simp only: mod_mult_self1)
      then have "(eol + 1) smod w = (w - int k) mod w" using es(1) c by (simp add: sdiv_pos)
      also have "\<dots> = (if k = 0 then 0 else w - int k)" using kw mod_pos_pos_trivial[of "w - int k" w] by (cases "k = 0") simp_all
      also have "\<dots> = 0 \<longleftrightarrow> k = 0" using kw by simp
      finally show ?thesis .
    qed
    have len1: "nat x + length (strip1 l) = nat w \<longleftrightarrow> k = 0" "nat x + length (strip1 l) = 1 \<longleftrightarrow> eol smod w = 0"
      unfolding em(1) using lt kn n x(1) by auto
    have rd: "read_at (eol - h * w) (img sc) = Some (img sc ! nat (y * w + w - 1))" if "k = 0"
      using that lw c by (subst read_at_Some) (simp_all add: eol_def algebra_simps)
    have lst: "last (strip1 l) = ca_c (img sc ! nat (y * w + w - 1))" if "k = 0"
    proof -
      have "strip1 l = l" using st len that by simp
      moreover have "last l = l ! n" using ne len by (simp add: last_conv_nth)
      moreover have "nat (y * w + x) + n = nat (y * w + w - 1)" using n lw x by simp
      ultimately show ?thesis using len lw x n by (simp add: l)
    qed
    have "sel_screen_line sc p s = Some (ref_line p (nat w) (nat x) l, (y + h + 1) * w)"
      unfolding sel_screen_line_def Let_def w_def[symmetric] h_def[symmetric] off sd if_P[OF e] strip
      using copy eb e1 rd lst len1 em(2) by (simp add: ref_line_def Let_def line_sep_def w_def[symmetric])
    then show ?thesis using False by (simp add: l_def s_def w_def h_def)
  qed
qed

lemma ref_line_length: "length (ref_line p w x l) \<le> length l + 1"
proof -
  have "length (dropWhile isspace (rev (drop 1 l))) \<le> length l - 1" using length_dropWhile_le[of isspace "rev (drop 1 l)"] by simp
  then have "length (strip1 l) \<le> length l" by (cases l) (simp_all add: strip1_def)
  then show ?thesis by (simp add: ref_line_def Let_def)
qed

lemma sel_part_length:
  "length (sel_part sc xb yb x y) \<le> nat ((if y = yb then xb + 1 else columns sc) - x)" if "0 \<le> x"
proof -
  have "nat (a - x) = nat a - nat x" for a using that by linarith
  then show ?thesis by (auto simp: sel_part_def)
qed

lemma behind_history:
  assumes "scr_ok sc" "0 \<le> y" "0 \<le> x"
  shows "\<not> (y + histLines sc) * columns sc + x < loc sc 0 (histLines sc - 1)"
proof -
  have "0 \<le> (y + 1) * columns sc" using assms by (simp add: scr_ok_def)
  moreover have "(y + histLines sc) * columns sc + x = loc sc 0 (histLines sc - 1) + (y + 1) * columns sc + x"
    by (simp add: loc_def algebra_simps)
  ultimately show ?thesis using assms(3) by linarith
qed

lemma sel_loop_screen:
  assumes ok: "scr_ok sc" and yb: "yb < lines sc" "0 \<le> xb" "xb < columns sc" and BR: "sel_BR sc = (yb + histLines sc) * columns sc + xb"
    and y: "0 \<le> y" "y \<le> yb" and x: "0 \<le> x" "x < columns sc" "y = yb \<Longrightarrow> x \<le> xb"
    and cap: "int (length m) + (sel_BR sc - ((y + histLines sc) * columns sc + x) + 1) + (yb - y) \<le> cap"
  shows "sel_loop sc p cap ((y + histLines sc) * columns sc + x) hY hX m =
    Some (m @ ref_text p (nat (columns sc)) (nat x) (sel_part sc xb yb x y # map (sel_part sc xb yb 0) [y + 1..yb]))"
  using y x cap
proof (induction "nat (yb - y)" arbitrary: x y m)
  case 0
  let ?s = "(y + histLines sc) * columns sc + x" and ?t = "sel_part sc xb yb x y"
  have e: "y = yb" using 0 by simp
  have c: "\<not> columns sc < 1" "\<not> ?s > sel_BR sc" using ok 0 BR e by (auto simp: scr_ok_def)
  note c = c behind_history[OF ok 0(2,4)]
  have line: "sel_screen_line sc p ?s = Some (?t, (y + histLines sc + 1) * columns sc)"
    using sel_screen_line_spec[OF ok 0(2) 0(3) yb(1) 0(4,5) yb(2,3) BR 0(6), of p] e by simp
  have put: "put_sel cap ?t m = Some (m @ ?t)"
    using 0(6)[OF e] 0(7) BR e sel_part_length[OF 0(4), of sc xb yb y] by (simp add: put_sel_def split: if_splits)
  have stop: "sel_loop sc p cap ((y + histLines sc + 1) * columns sc) hY hX (m @ ?t) = Some (m @ ?t)"
    using c(1) yb BR e by (subst sel_loop.simps) (simp add: algebra_simps)
  have l: "[y + 1..yb] = []" using e by simp
  show ?case by (subst sel_loop.simps) (simp only: c if_False line put stop option.case prod.case l list.map ref_text.simps)
next
  case (Suc n)
  let ?s = "(y + histLines sc) * columns sc + x" and ?t = "ref_line p (nat (columns sc)) (nat x) (sel_part sc xb yb x y)"
  let ?s' = "(y + 1 + histLines sc) * columns sc + 0"
  have e: "y \<noteq> yb" "y + 1 \<le> yb" using Suc(2) by auto
  have le: "?s' \<le> sel_BR sc"
    using BR yb ok e(2) mult_right_mono[of "y + 1" yb "columns sc"] by (simp add: scr_ok_def algebra_simps)
  have s': "?s' = ?s + (columns sc - x)" by (simp add: algebra_simps)
  have c: "\<not> columns sc < 1" "\<not> ?s > sel_BR sc" using ok Suc(6) le unfolding s' by (simp_all add: scr_ok_def)
  note c = c behind_history[OF ok Suc(3,5)]
  have line: "sel_screen_line sc p ?s = Some (?t, ?s')"
    using sel_screen_line_spec[OF ok Suc(3,4) yb(1) Suc(5,6) yb(2,3) BR Suc(7), of p] e by (simp add: algebra_simps)
  have len: "int (length ?t) \<le> columns sc - x + 1"
    using ref_line_length[of p "nat (columns sc)" "nat x" "sel_part sc xb yb x y"] sel_part_length[OF Suc(5), of sc xb yb y] e Suc(6) by simp
  have put: "put_sel cap ?t m = Some (m @ ?t)"
    using Suc(8) len le e(2) unfolding s' by (simp add: put_sel_def)
  have "int (length (m @ ?t)) + (sel_BR sc - ?s' + 1) + (yb - (y + 1)) \<le> cap" using Suc(8) len unfolding s' by simp
  moreover have "n = nat (yb - (y + 1))" using Suc(2) by simp
  moreover have "0 \<le> y + 1" "0 < columns sc" using Suc(3) ok by (simp_all add: scr_ok_def)
  ultimately have rest: "sel_loop sc p cap ?s' hY hX (m @ ?t) =
      Some ((m @ ?t) @ ref_text p (nat (columns sc)) 0 (sel_part sc xb yb 0 (y + 1) # map (sel_part sc xb yb 0) [y + 1 + 1..yb]))"
    using Suc(1)[of "y + 1" 0 "m @ ?t"] e(2) yb(2) by simp
  have u: "[y + 1..yb] = (y + 1) # [y + 1 + 1..yb]" using e(2) by (rule upto_rec1)
  show ?case by (subst sel_loop.simps) (simp only: c if_False line put rest option.case prod.case u list.map ref_text.simps append_assoc)
qed

text \<open>C39: The text of a selection that lies on the screen, below the history, is copied without leaving the image or the buffer, and is what the reference says: the
  selected parts of the lines, each without the blanks at its end and with the separator that its length asks for.\<close>

theorem selection_text:
  assumes "scr_ok sc" "histLines sc * columns sc \<le> sel_TL sc" "sel_TL sc \<le> sel_BR sc" "sel_BR sc < (histLines sc + lines sc) * columns sc"
  shows "(let w = columns sc; h = histLines sc; xb = sel_BR sc mod w; ya = sel_TL sc div w - h; yb = sel_BR sc div w - h; xa = sel_TL sc mod w
     in getSelText preserve sc = Some (ref_text preserve (nat w) (nat xa) (sel_part sc xb yb xa ya # map (sel_part sc xb yb 0) [ya + 1..yb])))"
proof -
  define w where "w = columns sc"
  define h where "h = histLines sc"
  define ya where "ya = sel_TL sc div w - h"
  define yb where "yb = sel_BR sc div w - h"
  define xa where "xa = sel_TL sc mod w"
  define xb where "xb = sel_BR sc mod w"
  have w: "1 \<le> w" "0 \<le> h" using assms(1) by (auto simp: scr_ok_def w_def h_def)
  have TL: "sel_TL sc = (ya + h) * w + xa" and BR: "sel_BR sc = (yb + h) * w + xb" by (simp_all add: ya_def xa_def yb_def xb_def)
  have x: "0 \<le> xa" "xa < w" "0 \<le> xb" "xb < w" using w by (simp_all add: xa_def xb_def)
  have ya: "0 \<le> ya" using zdiv_mono1[OF assms(2), of w] w by (simp add: ya_def h_def w_def)
  have le: "ya \<le> yb" using assms(3) w by (simp add: ya_def yb_def zdiv_mono1)
  have yb: "yb < lines sc"
  proof (rule ccontr)
    assume "\<not> yb < lines sc"
    then have "(h + lines sc) * w \<le> (yb + h) * w" using w by (intro mult_right_mono) auto
    then show False using assms(4) x(3) unfolding BR by (simp add: w_def h_def)
  qed
  have xle: "xa \<le> xb" if "ya = yb" using assms(3) that unfolding TL BR by simp
  define q where "q = (sel_BR sc - sel_TL sc) div w"
  define r where "r = (sel_BR sc - sel_TL sc) mod w"
  have qr: "sel_BR sc - sel_TL sc = q * w + r" "0 \<le> r" "r < w" using w by (simp_all add: q_def r_def)
  have sd: "(sel_BR sc - sel_TL sc) sdiv w = q" using assms(3) w by (simp add: sdiv_pos q_def)
  have "(yb - ya) * w < (q + 2) * w" using qr x unfolding TL BR by (simp add: algebra_simps)
  then have "yb - ya < q + 2" using w by simp
  then have "int (length []) + (sel_BR sc - ((ya + h) * w + xa) + 1) + (yb - ya) \<le> ((sel_BR sc - sel_TL sc) sdiv w + 1) * (w + 1) + 2"
    using qr w unfolding sd TL[symmetric] by (simp add: algebra_simps)
  from sel_loop_screen[OF assms(1) yb x(3) _ BR[unfolded h_def w_def] ya le x(1) _ xle, folded h_def w_def, OF x(4,2) _ this]
  have "getSelText preserve sc = Some (ref_text preserve (nat w) (nat xa) (sel_part sc xb yb xa ya # map (sel_part sc xb yb 0) [ya + 1..yb]))"
    using w unfolding getSelText_def Let_def w_def[symmetric] TL[symmetric] by simp
  then show ?thesis by (simp add: Let_def w_def h_def ya_def yb_def xa_def xb_def)
qed

text \<open>The words \<open>ab\<close> and \<open>c\<close> in the two lines of a small screen, all of it selected.\<close>

definition two_words :: screen where
  "two_words = tiny_screen\<lparr>img := map (\<lambda>c. dft\<lparr>ca_c := c\<rparr>) ''ab c  '', sel_begin := 0, sel_TL := 0, sel_BR := 5\<rparr>"

theorem selection_text_witness:
  "getSelText True two_words = Some (''ab'' @ [LF] @ ''c  '') \<and> getSelText False two_words = Some ''ab c  ''"
proof -
  have ok: "scr_ok two_words" by (simp add: two_words_def scr_ok_def tiny_screen_def)
  have f: "columns two_words = 3" "histLines two_words = 0" "sel_TL two_words = 0" "sel_BR two_words = 5" "lines two_words = 2"
    by (simp_all add: two_words_def tiny_screen_def)
  have t: "ref_text True (nat 3) (nat 0) (sel_part two_words 2 1 0 0 # map (sel_part two_words 2 1 0) [0 + 1..1]) = ''ab'' @ [LF] @ ''c  ''"
    "ref_text False (nat 3) (nat 0) (sel_part two_words 2 1 0 0 # map (sel_part two_words 2 1 0) [0 + 1..1]) = ''ab c  ''"
    by code_simp+
  show ?thesis using selection_text[OF ok, unfolded f, of True] selection_text[OF ok, unfolded f, of False] t by (simp add: Let_def)
qed

subsection \<open>Selections that are copied from outside of the image\<close>

lemma copy_cells_neg: "i < 0 \<Longrightarrow> 0 < n \<Longrightarrow> copy_cells n i xs = None"
  by (cases n) (simp_all add: read_at_def)

lemma sel_screen_line_None:
  assumes "s < loc sc 0 (histLines sc - 1) + columns sc" "s \<le> sel_BR sc" "1 \<le> columns sc"
  shows "sel_screen_line sc p s = None"
proof -
  define off where "off = loc sc 0 (histLines sc - 1) + columns sc"
  define eol0 where "eol0 = (s sdiv columns sc + 1) * columns sc - 1"
  have "s \<le> eol0" using next_line_gt[OF assms(3), of s] by (simp add: eol0_def)
  then have "s \<le> j + off" if "strip_eol (nat (eol0 - s)) (eol0 - off) (img sc) = Some j" for j
    using strip_eol_ge[OF that] by simp
  moreover have "copy_cells (nat (eol - s + 1)) (s - off) (img sc) = None" if "s \<le> eol" for eol
    using that assms(1) by (intro copy_cells_neg) (simp_all add: off_def)
  ultimately show ?thesis
    using assms(2) unfolding sel_screen_line_def Let_def off_def[symmetric] eol0_def[symmetric]
    by (auto split: bind_splits if_splits)
qed

lemma minus_one_smod: "1 \<le> c \<Longrightarrow> (- 1) sdiv c = (if c = 1 then - 1 else 0)" "2 \<le> c \<Longrightarrow> (- 1) smod c = - 1" for c :: int
  by (simp_all add: signed_divide_int_def signed_modulo_int_def)

lemma smod_ge: "- 1 \<le> a \<Longrightarrow> 1 \<le> c \<Longrightarrow> - 1 \<le> a smod c" for a c :: int
proof (cases "a = - 1")
  case True
  then show "1 \<le> c \<Longrightarrow> - 1 \<le> a smod c" by (cases "c = 1") (simp_all add: signed_modulo_int_def)
next
  case False
  assume "- 1 \<le> a" "1 \<le> c"
  then have "a smod c = a mod c" using False by (simp add: sdiv_pos)
  also have "0 \<le> \<dots>" by (rule pos_mod_sign) (use \<open>1 \<le> c\<close> in simp)
  finally show "- 1 \<le> a smod c" by linarith
qed

text \<open>A selection that begins in the last line of the history is copied from in front of the image, and so is one that begins at -1, the value that
  \<open>clearSelection\<close> leaves: the program may clear the selection while the user is dragging it, and then \<open>setSelExtentXY\<close> sets its end.\<close>

theorem selection_faults:
  assumes "scr_ok sc" "sel_TL sc \<le> sel_BR sc"
    and "sel_TL sc = - 1 \<or> (1 \<le> histLines sc \<and> loc sc 0 (histLines sc - 1) \<le> sel_TL sc \<and> sel_TL sc < loc sc 0 (histLines sc))"
  shows "getSelText preserve sc = None"
proof -
  let ?w = "columns sc" and ?b = "loc sc 0 (histLines sc - 1)"
  have w: "1 \<le> ?w" "0 \<le> histLines sc" using assms(1) by (auto simp: scr_ok_def)
  have off: "?b + ?w = loc sc 0 (histLines sc)" "0 \<le> loc sc 0 (histLines sc)" using w by (simp_all add: loc_def algebra_simps)
  have "sel_hist_line sc preserve (- 1) (- 1 sdiv ?w) (- 1 smod ?w) = None" if "sel_TL sc = - 1"
  proof (cases "?w = 1")
    case False
    then have h: "- 1 sdiv ?w = 0" "- 1 smod ?w = - 1" using w minus_one_smod[of ?w] by auto
    have "- 1 \<le> sel_BR sc smod ?w" using smod_ge[OF _ w(1)] assms(2) that by simp
    moreover have "copy_cells (nat (eol - (- 1))) (- 1) l = None" if "0 \<le> eol" for eol l
      using that by (intro copy_cells_neg) auto
    ultimately show ?thesis unfolding sel_hist_line_def h Let_def by (auto split: bind_splits)
  qed (simp add: sel_hist_line_def read_at_def)
  then show ?thesis
    using assms(2,3) w off sel_screen_line_None[of "sel_TL sc" sc preserve]
    by (auto simp: getSelText_def Let_def sel_loop.simps[of sc preserve _ "sel_TL sc"])
qed

theorem selection_faults_witness:
  "getSelText True (setSelExtentXY 1 1 (clearSelection two_words)) = None"
proof -
  let ?s = "setSelExtentXY 1 1 (clearSelection two_words)"
  have "scr_ok ?s" "sel_TL ?s = - 1" "sel_BR ?s = 4"
    by (simp_all add: setSelExtentXY_def clearSelection_def Let_def loc_def two_words_def scr_ok_def tiny_screen_def)
  then show ?thesis using selection_faults[of ?s True] by simp
qed

text \<open>A full line of the history makes the copy leave out the line after it: the position has reached the next line already when the code
  rounds it up to the next line.\<close>

definition full_history :: screen where
  "full_history = tiny_screen\<lparr>img := replicate 6 (dft\<lparr>ca_c := CHR ''x''\<rparr>), histLines := 3, histCursor := 3, histMaxLines := 5,
     histBuffer := map (map (\<lambda>c. dft\<lparr>ca_c := c\<rparr>)) [''abc'', ''d'', ''e''], sel_begin := 0, sel_TL := 0, sel_BR := 11\<rparr>"

lemma full_line_skips_one:
  "getSelText True full_history = None \<and>
   getSelText True (full_history\<lparr>histBuffer := map (map (\<lambda>c. dft\<lparr>ca_c := c\<rparr>)) [''a'', ''bcd'', ''e'']\<rparr>) = Some (''a'' @ [LF] @ ''bcd'' @ [LF] @ ''xxx'')"
  by code_simp

subsection \<open>Double clicks\<close>

text \<open>The class of a character; \<open>strchr\<close> also finds the NUL at the end of its string.\<close>

definition charClass :: "char \<Rightarrow> char" where
  "charClass ch = (if isspace ch then SP
     else if isalnum ch \<or> ch \<in> set ''@-./_~'' \<or> ch = NUL then CHR ''a'' else char_of (1::nat))"

fun word_left :: "ca list \<Rightarrow> char \<Rightarrow> nat \<Rightarrow> int \<Rightarrow> nat option" where
  "word_left im selClass 0 i = Some 0"
| "word_left im selClass (Suc x) i = do {
     c \<leftarrow> read_at (i - 1) im;
     if charClass (ca_c c) = selClass then word_left im selClass x (i - 1) else Some (Suc x) }"

text \<open>\<open>n\<close> columns are left on the right.\<close>

fun word_right :: "ca list \<Rightarrow> char \<Rightarrow> nat \<Rightarrow> nat \<Rightarrow> int \<Rightarrow> nat option" where
  "word_right im selClass 0 x i = Some x"
| "word_right im selClass (Suc n) x i = do {
     c \<leftarrow> read_at (i + 1) im;
     if charClass (ca_c c) = selClass then word_right im selClass n (x + 1) (i + 1) else Some x }"

text \<open>\<open>mouseDoubleClickEvent\<close> at a cell of the widget's image, with the slots of the emulation that its signals are connected to.\<close>

definition mouseDoubleClick :: "ca list \<Rightarrow> nat \<Rightarrow> bool \<Rightarrow> nat \<Rightarrow> nat \<Rightarrow> emu \<Rightarrow> emu option" where
  "mouseDoubleClick im cols preserve x y e = do {
     e \<leftarrow> emu_clearSelection e;
     let i = int (y * cols + x);
     c \<leftarrow> read_at i im;
     let selClass = charClass (ca_c c);
     l \<leftarrow> word_left im selClass x i;
     e \<leftarrow> onSelectionBegin (int l) (int y) e;
     r \<leftarrow> word_right im selClass (cols - 1 - x) x i;
     e \<leftarrow> onSelectionExtend (int r) (int y) e;
     setSelection preserve e }"

lemma word_left_run:
  assumes "i = int (b + x)" "i \<le> int (length im)"
  shows "\<exists>l. word_left im k x i = Some l \<and> l \<le> x \<and> (\<forall>j. l \<le> j \<and> j < x \<longrightarrow> charClass (ca_c (im ! (b + j))) = k) \<and>
    (0 < l \<longrightarrow> charClass (ca_c (im ! (b + l - 1))) \<noteq> k)"
  using assms
proof (induction x arbitrary: i)
  case (Suc x)
  have r: "read_at (i - 1) im = Some (im ! (b + x))" using Suc.prems by (simp add: read_at_def nat_add_distrib)
  show ?case
  proof (cases "charClass (ca_c (im ! (b + x))) = k")
    case True
    from Suc.IH[of "i - 1"] Suc.prems obtain l where "word_left im k x (i - 1) = Some l" "l \<le> x"
      "\<forall>j. l \<le> j \<and> j < x \<longrightarrow> charClass (ca_c (im ! (b + j))) = k" "0 < l \<longrightarrow> charClass (ca_c (im ! (b + l - 1))) \<noteq> k" by auto
    then show ?thesis using r True by (intro exI[of _ l]) (auto simp: less_Suc_eq)
  qed (use r in auto)
qed simp

lemma word_right_run:
  assumes "i = int (b + x)" "int (b + x + n) < int (length im)"
  shows "\<exists>r. word_right im k n x i = Some r \<and> x \<le> r \<and> r \<le> x + n \<and> (\<forall>j. x < j \<and> j \<le> r \<longrightarrow> charClass (ca_c (im ! (b + j))) = k) \<and>
    (r < x + n \<longrightarrow> charClass (ca_c (im ! (b + r + 1))) \<noteq> k)"
  using assms
proof (induction n arbitrary: x i)
  case (Suc n)
  have r: "read_at (i + 1) im = Some (im ! (b + x + 1))" using Suc.prems by (simp add: read_at_def nat_add_distrib)
  show ?case
  proof (cases "charClass (ca_c (im ! (b + x + 1))) = k")
    case True
    from Suc.IH[of "i + 1" "x + 1"] Suc.prems obtain q where q: "word_right im k n (x + 1) (i + 1) = Some q" "x + 1 \<le> q" "q \<le> x + 1 + n"
      "\<forall>j. x + 1 < j \<and> j \<le> q \<longrightarrow> charClass (ca_c (im ! (b + j))) = k" "q < x + 1 + n \<longrightarrow> charClass (ca_c (im ! (b + q + 1))) \<noteq> k" by auto
    have "charClass (ca_c (im ! (b + j))) = k" if "x < j" "j \<le> q" for j
      using that q(4) True by (cases "j = x + 1") auto
    then show ?thesis using r True q by (intro exI[of _ q]) auto
  qed (use r in auto)
qed auto

text \<open>A word of one letter in the first column: the correction for a pointer at the margin makes the selection empty.\<close>

lemma first_column_empty:
  assumes "scr_ok sc" "0 \<le> y"
  shows "getSelText preserve (setSelExtentXY 0 y (setSelBeginXY 0 y sc)) = Some []"
proof -
  have w: "1 \<le> columns sc" using assms(1) by (simp add: scr_ok_def)
  then show ?thesis
    by (simp add: getSelText_def Let_def setSelExtentXY_def setSelBeginXY_def loc_def)
qed

end
