(* ===== verification/KwmBase.thy ===== *)
theory KwmBase
  imports Prelude "HOL-Library.Signed_Division"
begin

section \<open>The window manager kwm: windows and their data\<close>

text \<open>
  The data of \<open>kwm/client.h\<close>, \<open>kwm/manager.h\<close> and \<open>kwm/options.h\<close> as far as the placement, the geometry, the
  stacking order and the virtual desktops need it. A client is known by a number (its address); \<open>cl\<close> is the
  memory that holds the clients. X windows are numbers, \<open>None\<close> of X is 0. What kwm asks of the
  X server and of libkdecore is a parameter: \<open>region\<close> is \<open>KWM::getWindowRegion\<close>, \<open>menubar\<close> the geometry of the system menu bar,
  \<open>menubar_height\<close> its \<open>heightForWidth\<close>.
\<close>

subsection \<open>Rectangles\<close>

text \<open>\<open>QRect\<close>: position and size; \<open>right()\<close> and \<open>bottom()\<close> are the last column and line within.\<close>

record qrect =
  rx :: int
  ry :: int
  rw :: int
  rh :: int

definition r_right :: "qrect \<Rightarrow> int" where "r_right r = rx r + rw r - 1"
definition r_bottom :: "qrect \<Rightarrow> int" where "r_bottom r = ry r + rh r - 1"

definition moveTopLeft :: "int \<Rightarrow> int \<Rightarrow> qrect \<Rightarrow> qrect" where
  "moveTopLeft x y r = r\<lparr>rx := x, ry := y\<rparr>"

definition moveBottomRight :: "int \<Rightarrow> int \<Rightarrow> qrect \<Rightarrow> qrect" where
  "moveBottomRight x y r = r\<lparr>rx := x - rw r + 1, ry := y - rh r + 1\<rparr>"

definition moveBy :: "int \<Rightarrow> int \<Rightarrow> qrect \<Rightarrow> qrect" where
  "moveBy dx dy r = r\<lparr>rx := rx r + dx, ry := ry r + dy\<rparr>"

definition setTop :: "int \<Rightarrow> qrect \<Rightarrow> qrect" where
  "setTop t r = r\<lparr>ry := t, rh := rh r + (ry r - t)\<rparr>"

definition r_contains :: "qrect \<Rightarrow> int \<Rightarrow> int \<Rightarrow> bool" where
  "r_contains r x y \<longleftrightarrow> rx r \<le> x \<and> x \<le> r_right r \<and> ry r \<le> y \<and> y \<le> r_bottom r"

subsection \<open>Clients\<close>

type_synonym xwindow = nat
type_synonym client_id = nat

datatype win_state = WithdrawnState | NormalState | IconicState

text \<open>\<open>XSizeHints\<close>; each flag of \<open>size.flags\<close> is a field of its own.\<close>

record size_hints =
  PMaxSize :: bool
  PMinSize :: bool
  PBaseSize :: bool
  PResizeInc :: bool
  PWinGravity :: bool
  min_width :: int
  min_height :: int
  max_width :: int
  max_height :: int
  base_width :: int
  base_height :: int
  width_inc :: int
  height_inc :: int
  win_gravity :: int

text \<open>The values of \<open>getDecoration()\<close>.\<close>

definition noDecoration :: int where "noDecoration = 0"
definition normalDecoration :: int where "normalDecoration = 1"
definition tinyDecoration :: int where "tinyDecoration = 2"

text \<open>\<open>shown\<close> tells whether the frame is on the screen (\<open>QWidget::show\<close> and \<open>hide\<close>).\<close>

record kclient =
  window :: xwindow
  winId :: xwindow
  trans :: xwindow
  leader :: xwindow
  decoration :: int
  wants_focus :: bool
  is_menubar :: bool
  desktop :: int
  geometry :: qrect
  geometry_restore :: qrect
  size_of :: size_hints
  old_cursor_x :: int
  old_cursor_y :: int
  state :: win_state
  is_active :: bool
  maximized :: bool
  maximize_mode :: int
  sticky :: bool
  iconified :: bool
  shaded :: bool
  stays_on_top :: bool
  hidden_for_modules :: bool
  unmap_events :: nat
  Pdeletewindow :: bool
  shown :: bool

definition isOnDesktop :: "int \<Rightarrow> kclient \<Rightarrow> bool" where
  "isOnDesktop d c \<longleftrightarrow> desktop c = d \<or> sticky c"

subsection \<open>The manager\<close>

datatype placement = SMART_PLACEMENT | CASCADE_PLACEMENT | RANDOM_PLACEMENT | INTERACTIVE_PLACEMENT | MANUAL_PLACEMENT

datatype focus_policy = CLICK_TO_FOCUS | FOCUS_FOLLOWS_MOUSE | CLASSIC_FOCUS_FOLLOWS_MOUSE | CLASSIC_SLOPPY_FOCUS

record kwm_options =
  BORDER :: int
  Placement :: placement
  interactive_trigger :: int
  BorderSnapZone :: int
  WindowSnapZone :: int
  FocusPolicy :: focus_policy
  GimmickMode :: bool

definition BORDER_THIN :: int where "BORDER_THIN = 4"
definition BUTTON_SIZE :: int where "BUTTON_SIZE = 20"
definition TITLEBAR_HEIGHT :: int where "TITLEBAR_HEIGHT = 20"

definition CLASSIC_FOCUS :: "kwm_options \<Rightarrow> bool" where
  "CLASSIC_FOCUS opts \<longleftrightarrow> FocusPolicy opts \<in> {CLASSIC_FOCUS_FOLLOWS_MOUSE, CLASSIC_SLOPPY_FOCUS}"

text \<open>What kwm tells others: \<open>sendToModules\<close>, the X focus (\<open>None\<close>: the dummy window), the configuration of a window,
  the order of the windows, the windows mapped and unmapped, and requests to end.\<close>

datatype kwm_event = ModuleAdd client_id | ModuleDialogAdd client_id | ModuleRemove client_id | ModuleRaise client_id | ModuleLower client_id
  | ModuleActivate "client_id option" | ModuleChange client_id | ModuleDesktop int
  | Focus "xwindow option" | SendConfig client_id | Restack "xwindow list" | MapWindow xwindow | UnmapWindow xwindow
  | RaiseFrame client_id | RaiseSystemMenuBar | WmDelete client_id | KillWindow xwindow

record manager =
  cl :: "client_id \<Rightarrow> kclient"
  clients :: "client_id list"
  clients_sorted :: "client_id list"
  clients_traversing :: "client_id list"
  current_desktop :: int
  number_of_desktops :: int
  opts :: kwm_options
  region :: "int \<Rightarrow> qrect"
  menubar :: "qrect option"
  random_px :: int
  random_py :: int
  cascade_x :: "int \<Rightarrow> int"
  cascade_y :: "int \<Rightarrow> int"
  cascade_col :: "int \<Rightarrow> int"
  cascade_row :: "int \<Rightarrow> int"
  rootwin :: xwindow
  top_windows :: "xwindow list"
  gimmick :: xwindow
  focus_grabbed :: bool
  mouse_grabber :: "client_id option"
  standalone_menubars :: bool
  menubar_height :: "int \<Rightarrow> int"
  log :: "kwm_event list"

definition upd_client :: "client_id \<Rightarrow> (kclient \<Rightarrow> kclient) \<Rightarrow> manager \<Rightarrow> manager" where
  "upd_client c f m = m\<lparr>cl := (cl m)(c := f (cl m c))\<rparr>"

definition upd_geometry :: "(qrect \<Rightarrow> qrect) \<Rightarrow> kclient \<Rightarrow> kclient" where
  "upd_geometry f c = c\<lparr>geometry := f (geometry c)\<rparr>"

definition event :: "kwm_event \<Rightarrow> manager \<Rightarrow> manager" where
  "event e m = m\<lparr>log := log m @ [e]\<rparr>"

text \<open>\<open>sendToModules\<close> ignores a client that is hidden for the modules.\<close>

definition sendToModules :: "(client_id \<Rightarrow> kwm_event) \<Rightarrow> client_id \<Rightarrow> manager \<Rightarrow> manager" where
  "sendToModules a i m = (if hidden_for_modules (cl m i) then m else event (a i) m)"

text \<open>The maximal rectangle for windows, below the system menu bar.\<close>

definition maxRect :: "manager \<Rightarrow> qrect" where
  "maxRect m = (let r = region m (current_desktop m)
     in case menubar m of None \<Rightarrow> r | Some b \<Rightarrow> setTop (r_bottom b) r)"

lemma upd_client_simps [simp]:
  "cl (upd_client c f m) = (cl m)(c := f (cl m c))" "clients (upd_client c f m) = clients m"
  "clients_sorted (upd_client c f m) = clients_sorted m" "clients_traversing (upd_client c f m) = clients_traversing m"
  "current_desktop (upd_client c f m) = current_desktop m" "number_of_desktops (upd_client c f m) = number_of_desktops m"
  "opts (upd_client c f m) = opts m" "region (upd_client c f m) = region m" "menubar (upd_client c f m) = menubar m"
  "maxRect (upd_client c f m) = maxRect m" "log (upd_client c f m) = log m" "rootwin (upd_client c f m) = rootwin m"
  by (simp_all add: upd_client_def maxRect_def)

lemma event_simps [simp]:
  "cl (event e m) = cl m" "clients (event e m) = clients m" "clients_sorted (event e m) = clients_sorted m"
  "clients_traversing (event e m) = clients_traversing m" "current_desktop (event e m) = current_desktop m"
  "number_of_desktops (event e m) = number_of_desktops m" "opts (event e m) = opts m" "region (event e m) = region m"
  "menubar (event e m) = menubar m" "rootwin (event e m) = rootwin m" "log (event e m) = log m @ [e]"
  "focus_grabbed (event e m) = focus_grabbed m"
  by (simp_all add: event_def)

lemma sendToModules_simps [simp]:
  "cl (sendToModules a i m) = cl m" "clients (sendToModules a i m) = clients m"
  "clients_sorted (sendToModules a i m) = clients_sorted m" "clients_traversing (sendToModules a i m) = clients_traversing m"
  "current_desktop (sendToModules a i m) = current_desktop m" "number_of_desktops (sendToModules a i m) = number_of_desktops m"
  "opts (sendToModules a i m) = opts m" "region (sendToModules a i m) = region m" "menubar (sendToModules a i m) = menubar m"
  "rootwin (sendToModules a i m) = rootwin m" "focus_grabbed (sendToModules a i m) = focus_grabbed m"
  by (simp_all add: sendToModules_def)

end
