(* ===== verification/KwmGeometry.thy ===== *)
theory KwmGeometry
  imports KwmBase
begin

section \<open>The window manager kwm: the geometry of a window\<close>

text \<open>
  \<open>adjustSize\<close>, \<open>maximize\<close> and \<open>unMaximize\<close> of \<open>kwm/client.C\<close>, \<open>gravitate\<close>, \<open>snapIt\<close> and the fitting of
  a new window in \<open>kwm/manager.C\<close>, and the calculations of a drag in \<open>kwm/drag.C\<close>.
\<close>

subsection \<open>Size hints\<close>

text \<open>The decoration: how much wider and higher the frame is than the window.\<close>

definition frame_width :: "int \<Rightarrow> kclient \<Rightarrow> int" where
  "frame_width b c = (if decoration c = noDecoration then 0
     else if decoration c = tinyDecoration then 2 * BORDER_THIN else 2 * b)"

definition frame_height :: "int \<Rightarrow> kclient \<Rightarrow> int" where
  "frame_height b c = (if decoration c = noDecoration then 0
     else if decoration c = tinyDecoration then 2 * BORDER_THIN else 2 * b + TITLEBAR_HEIGHT)"

text \<open>The first \<open>switch\<close> of \<open>adjustSize\<close>: the least frame.\<close>

definition least_width :: "int \<Rightarrow> kclient \<Rightarrow> int \<Rightarrow> int" where
  "least_width b c dx =
     (if decoration c = noDecoration then dx
      else if decoration c = tinyDecoration
      then (if dx < 2 * BORDER_THIN + BUTTON_SIZE then 2 * BORDER_THIN + BUTTON_SIZE + 1 else dx)
      else if dx < 2 * b + BUTTON_SIZE then 2 * b + BUTTON_SIZE + 1 else dx)"

definition least_height :: "int \<Rightarrow> kclient \<Rightarrow> int \<Rightarrow> int" where
  "least_height b c dy =
     (if decoration c = noDecoration then dy
      else if decoration c = tinyDecoration
      then (if dy < 2 * BORDER_THIN + 20 + 1 then 2 * BORDER_THIN + 20 + 1 else dy)
      else if dy < 2 * b + TITLEBAR_HEIGHT + 20 + 1 then 2 * b + TITLEBAR_HEIGHT + 20 + 1 else dy)"

text \<open>The hints for the size of the window itself.\<close>

definition hint_size :: "bool \<Rightarrow> int \<Rightarrow> bool \<Rightarrow> int \<Rightarrow> bool \<Rightarrow> int \<Rightarrow> int \<Rightarrow> int" where
  "hint_size pmax mx pmin mn pbase bs d =
     (let d = (if pmax \<and> d > mx then mx else d)
      in if pmin then (if d < mn then mn else d)
         else if pbase \<and> d < bs then bs else d)"

text \<open>The resize increment: the size \<open>d\<close> asked for differs from the size \<open>g\<close> by whole steps.\<close>

definition stepped :: "bool \<Rightarrow> int \<Rightarrow> int \<Rightarrow> int \<Rightarrow> int" where
  "stepped pinc inc g d = (if pinc then g - ((g - d) sdiv inc) * inc else d)"

text \<open>\<open>adjustSize\<close>: the hints may be any \<open>int\<close>, all other numbers are coordinates; \<open>None\<close> is the division by a resize increment of zero.\<close>

definition adjusted_width :: "int \<Rightarrow> kclient \<Rightarrow> int" where
  "adjusted_width b c =
     (let h = size_of c;
          dx = stepped (PResizeInc h) (width_inc h) (rw (geometry_restore c)) (max 1 (rw (geometry c)));
          dx = least_width b c dx - frame_width b c;
          dx = hint_size (PMaxSize h) (max_width h) (PMinSize h) (min_width h) (PBaseSize h) (base_width h) dx
      in to_int32 (dx + frame_width b c))"

definition adjusted_height :: "int \<Rightarrow> kclient \<Rightarrow> int" where
  "adjusted_height b c =
     (let h = size_of c;
          dy = stepped (PResizeInc h) (height_inc h) (rh (geometry_restore c)) (max 1 (rh (geometry c)));
          dy = least_height b c dy - frame_height b c;
          dy = hint_size (PMaxSize h) (max_height h) (PMinSize h) (min_height h) (PBaseSize h) (base_height h) dy
      in to_int32 (dy + frame_height b c))"

definition adjustSize :: "int \<Rightarrow> kclient \<Rightarrow> kclient option" where
  "adjustSize b c =
     (if PResizeInc (size_of c) \<and> (width_inc (size_of c) = 0 \<or> height_inc (size_of c) = 0) then None
      else Some (upd_geometry (\<lambda>g. g\<lparr>rw := adjusted_width b c, rh := adjusted_height b c\<rparr>) c))"

definition fixedSize :: "kclient \<Rightarrow> bool" where
  "fixedSize c \<longleftrightarrow> (let h = size_of c in PMaxSize h \<and> PMinSize h \<and> max_width h \<le> min_width h \<and> max_height h \<le> min_height h)"

subsection \<open>Gravity\<close>

definition NorthWestGravity :: int where "NorthWestGravity = 1"
definition NorthGravity :: int where "NorthGravity = 2"
definition NorthEastGravity :: int where "NorthEastGravity = 3"
definition WestGravity :: int where "WestGravity = 4"
definition CenterGravity :: int where "CenterGravity = 5"
definition EastGravity :: int where "EastGravity = 6"
definition SouthWestGravity :: int where "SouthWestGravity = 7"
definition SouthGravity :: int where "SouthGravity = 8"
definition SouthEastGravity :: int where "SouthEastGravity = 9"
definition StaticGravity :: int where "StaticGravity = 10"

lemmas gravity_defs = NorthWestGravity_def NorthGravity_def NorthEastGravity_def WestGravity_def CenterGravity_def
  EastGravity_def SouthWestGravity_def SouthGravity_def SouthEastGravity_def StaticGravity_def

definition gravity_offset :: "int \<Rightarrow> int \<Rightarrow> int \<Rightarrow> int \<times> int" where
  "gravity_offset g d t =
     (if g = NorthWestGravity then (0, 0)
      else if g = NorthGravity then (- d, 0)
      else if g = NorthEastGravity then (- 2 * d, 0)
      else if g = WestGravity then (0, - d - t)
      else if g = CenterGravity \<or> g = StaticGravity then (- d, - d - t)
      else if g = EastGravity then (- 2 * d, - d - t)
      else if g = SouthWestGravity then (0, - 2 * d - t)
      else if g = SouthGravity then (- d, - 2 * d - t)
      else if g = SouthEastGravity then (- 2 * d, - 2 * d - t)
      else (0, 0))"

definition gravitate :: "int \<Rightarrow> bool \<Rightarrow> kclient \<Rightarrow> kclient" where
  "gravitate b invert c =
     (if decoration c = noDecoration then c
      else
        let t = (if decoration c \<noteq> normalDecoration then 0 else TITLEBAR_HEIGHT);
            border = (if decoration c = normalDecoration then b else BORDER_THIN);
            gravity = (if PWinGravity (size_of c) then win_gravity (size_of c) else NorthWestGravity);
            (dx, dy) = gravity_offset gravity (border - 1) t
        in upd_geometry (\<lambda>g.
             if invert
             then let g = moveBy (- dx) (- dy) g in g\<lparr>rw := rw g - 2 * border, rh := rh g - 2 * border - t\<rparr>
             else let g = moveBy dx dy g in g\<lparr>rw := rw g + 2 * border, rh := rh g + 2 * border + t\<rparr>) c)"

subsection \<open>Dragging\<close>

definition set_size :: "int \<Rightarrow> int \<Rightarrow> kclient \<Rightarrow> kclient" where
  "set_size w h = upd_geometry (\<lambda>g. g\<lparr>rw := w, rh := h\<rparr>)"

definition resizecalc :: "int \<Rightarrow> kclient \<Rightarrow> int \<Rightarrow> int \<Rightarrow> kclient option" where
  "resizecalc b c x y = (let g = geometry c in adjustSize b (set_size (x + 1 - rx g) (y + 1 - ry g) c))"

definition resizecalc_bl :: "int \<Rightarrow> kclient \<Rightarrow> int \<Rightarrow> int \<Rightarrow> kclient option" where
  "resizecalc_bl b c x y = (let g = geometry c in do {
     c \<leftarrow> adjustSize b (set_size (rx g + rw g - x) (y + 1 - ry g) c);
     Some (upd_geometry (\<lambda>n. moveBy (rw g - rw n) 0 n) c) })"

definition resizecalc_tl :: "int \<Rightarrow> kclient \<Rightarrow> int \<Rightarrow> int \<Rightarrow> kclient option" where
  "resizecalc_tl b c x y = (let g = geometry c in do {
     c \<leftarrow> adjustSize b (set_size (rx g + rw g - x) (ry g + rh g - y) c);
     Some (upd_geometry (\<lambda>n. moveBy (rw g - rw n) (rh g - rh n) n) c) })"

definition resizecalc_tr :: "int \<Rightarrow> kclient \<Rightarrow> int \<Rightarrow> int \<Rightarrow> kclient option" where
  "resizecalc_tr b c x y = (let g = geometry c in do {
     c \<leftarrow> adjustSize b (set_size (x + 1 - rx g) (ry g + rh g - y) c);
     Some (upd_geometry (\<lambda>n. moveBy 0 (rh g - rh n) n) c) })"

definition resizecalc_l :: "int \<Rightarrow> kclient \<Rightarrow> int \<Rightarrow> int \<Rightarrow> kclient option" where
  "resizecalc_l b c x y = (let g = geometry c in do {
     c \<leftarrow> adjustSize b (set_size (rx g + rw g - x) (rh g) c);
     Some (upd_geometry (\<lambda>n. moveBy (rw g - rw n) 0 n) c) })"

definition resizecalc_r :: "int \<Rightarrow> kclient \<Rightarrow> int \<Rightarrow> int \<Rightarrow> kclient option" where
  "resizecalc_r b c x y = (let g = geometry c in adjustSize b (set_size (x + 1 - rx g) (rh g) c))"

definition resizecalc_t :: "int \<Rightarrow> kclient \<Rightarrow> int \<Rightarrow> int \<Rightarrow> kclient option" where
  "resizecalc_t b c x y = (let g = geometry c in do {
     c \<leftarrow> adjustSize b (set_size (rw g) (ry g + rh g - y) c);
     Some (upd_geometry (\<lambda>n. moveBy 0 (rh g - rh n) n) c) })"

definition resizecalc_b :: "int \<Rightarrow> kclient \<Rightarrow> int \<Rightarrow> int \<Rightarrow> kclient option" where
  "resizecalc_b b c x y = (let g = geometry c in adjustSize b (set_size (rw g) (y + 1 - ry g) c))"

text \<open>The calculation that \<open>resizedrag\<close> chooses for a corner or an edge.\<close>

definition resize_step :: "int \<Rightarrow> int \<Rightarrow> kclient \<Rightarrow> int \<Rightarrow> int \<Rightarrow> kclient option" where
  "resize_step mode =
     (if mode = 1 then resizecalc else if mode = 2 then resizecalc_bl else if mode = 3 then resizecalc_tl
      else if mode = 4 then resizecalc_tr else if mode = 5 then resizecalc_l else if mode = 6 then resizecalc_r
      else if mode = 7 then resizecalc_t else if mode = 8 then resizecalc_b else (\<lambda>b c x y. Some c))"

subsection \<open>Snapping\<close>

text \<open>The height that a shaded window shows.\<close>

definition vis_height :: "int \<Rightarrow> kclient \<Rightarrow> int" where
  "vis_height b c = (if shaded c then TITLEBAR_HEIGHT + 2 * b else rh (geometry c))"

text \<open>The four numbers that the loops of \<open>snapIt\<close> update: the distances and the place. A step moves a coordinate to \<open>n\<close> when the distance \<open>d\<close>
  is in the zone and less than before.\<close>

definition snap_to :: "int \<Rightarrow> int \<Rightarrow> int \<Rightarrow> int \<times> int \<Rightarrow> int \<times> int" where
  "snap_to snap d n = (\<lambda>(delta, old). if \<bar>d\<bar> < snap \<and> \<bar>d\<bar> < delta then (\<bar>d\<bar>, n) else (delta, old))"

text \<open>The border of the screen. The first test of each direction does not look at the distance before.\<close>

definition snap_border :: "int \<Rightarrow> int \<Rightarrow> int \<Rightarrow> int \<Rightarrow> int \<Rightarrow> int \<times> int \<Rightarrow> int \<times> int" where
  "snap_border snap lo hi p len = (\<lambda>(delta, old).
     let st = (if \<bar>p - lo\<bar> < snap then (\<bar>p - lo\<bar>, lo) else (delta, old))
     in snap_to snap (hi - (p + len)) (hi - len) st)"

text \<open>Whether two stretches lie beside each other, as \<open>snapIt\<close> tests it.\<close>

definition beside :: "int \<Rightarrow> int \<Rightarrow> int \<Rightarrow> int \<Rightarrow> bool" where
  "beside c r l lr \<longleftrightarrow> (c \<le> lr \<and> c \<ge> l) \<or> (r \<ge> l \<and> r \<le> lr) \<or> (l \<ge> c \<and> lr \<le> r)"

definition snap_edges :: "int \<Rightarrow> int \<Rightarrow> int \<Rightarrow> int \<Rightarrow> int \<Rightarrow> int \<times> int \<Rightarrow> int \<times> int" where
  "snap_edges snap p len l lr st = snap_to snap (p + len - l) (l - len) (snap_to snap (lr - p) lr st)"

definition snap_client :: "int \<Rightarrow> int \<Rightarrow> kclient \<Rightarrow> kclient \<Rightarrow> (int \<times> int) \<times> (int \<times> int) \<Rightarrow> (int \<times> int) \<times> (int \<times> int)" where
  "snap_client b snap c l = (\<lambda>(sx, sy).
     let cx = rx (geometry c); cy = ry (geometry c); w = rw (geometry c); h = vis_height b c;
         lx = rx (geometry l); ly = ry (geometry l); lrx = lx + rw (geometry l); lry = ly + vis_height b l
     in (if beside cy (cy + h) ly lry then snap_edges snap cx w lx lrx sx else sx,
         if beside cx (cx + w) lx lrx then snap_edges snap cy h ly lry sy else sy))"

definition snap_partner :: "manager \<Rightarrow> client_id \<Rightarrow> bool" where
  "snap_partner m l \<longleftrightarrow> isOnDesktop (current_desktop m) (cl m l) \<and> \<not> iconified (cl m l) \<and> trans (cl m l) = 0"

definition snap_place :: "client_id \<Rightarrow> manager \<Rightarrow> (int \<times> int) \<times> (int \<times> int)" where
  "snap_place i m =
     (let r = region m (current_desktop m); b = BORDER (opts m); c = cl m i; g = geometry c; snap = BorderSnapZone (opts m);
          sx = (r_right r, rx g); sy = (r_bottom r, ry g);
          sx = (if snap \<noteq> 0 then snap_border snap (rx r) (r_right r) (rx g) (rw g) sx else sx);
          sy = (if snap \<noteq> 0 then snap_border snap (ry r) (r_bottom r) (ry g) (vis_height b c) sy else sy)
      in fold (\<lambda>l. snap_client b (WindowSnapZone (opts m)) c (cl m l)) (filter (snap_partner m) (clients m)) (sx, sy))"

definition snapIt :: "client_id \<Rightarrow> manager \<Rightarrow> manager" where
  "snapIt i m = (let ((_, nx), (_, ny)) = snap_place i m in upd_client i (upd_geometry (moveTopLeft nx ny)) m)"

definition dragcalc :: "client_id \<Rightarrow> int \<Rightarrow> int \<Rightarrow> manager \<Rightarrow> manager" where
  "dragcalc i x y m =
     (let c = cl m i;
          m = upd_client i (upd_geometry (moveTopLeft (x - old_cursor_x c) (y - old_cursor_y c))) m
      in if WindowSnapZone (opts m) \<noteq> 0 \<or> BorderSnapZone (opts m) \<noteq> 0 then snapIt i m else m)"

subsection \<open>Fitting a new window\<close>

text \<open>The part of \<open>manage\<close> that moves a window with a place of its own into the visible area; \<open>r\<close> is the area.\<close>

definition fit_visible :: "qrect \<Rightarrow> qrect \<Rightarrow> qrect" where
  "fit_visible r g =
     (let g = (if rx g < rx r then moveTopLeft (rx r) (ry g) g else g);
          g = (if ry g < ry r then moveTopLeft (rx g) (ry r) g else g);
          g = (if r_right g > r_right r \<and> rw g \<le> rw r then moveBottomRight (r_right r) (r_bottom g) g else g)
      in if r_bottom g > r_bottom r \<and> rh g \<le> rh r then moveBottomRight (r_right g) (r_bottom r) g else g)"

subsection \<open>Properties of the size\<close>

lemma upd_geometry_simps [simp]:
  "geometry (upd_geometry f c) = f (geometry c)" "size_of (upd_geometry f c) = size_of c"
  "decoration (upd_geometry f c) = decoration c" "geometry_restore (upd_geometry f c) = geometry_restore c"
  "frame_width b (upd_geometry f c) = frame_width b c" "frame_height b (upd_geometry f c) = frame_height b c"
  "shaded (upd_geometry f c) = shaded c" "upd_geometry f (upd_geometry g c) = upd_geometry (f \<circ> g) c"
  by (simp_all add: upd_geometry_def frame_width_def frame_height_def)

lemma adjustSize_geometry:
  "adjustSize b c = Some c' \<Longrightarrow>
   c' = upd_geometry (\<lambda>g. g\<lparr>rw := rw (geometry c'), rh := rh (geometry c')\<rparr>) c"
  by (auto simp: adjustSize_def split: if_splits)

lemma adjustSize_place:
  assumes "adjustSize b c = Some c'"
  shows "rx (geometry c') = rx (geometry c)" "ry (geometry c') = ry (geometry c)" "decoration c' = decoration c"
    "size_of c' = size_of c" "geometry_restore c' = geometry_restore c"
  by (subst adjustSize_geometry[OF assms], simp)+

text \<open>A drag of a corner or an edge keeps the opposite corner or edge where it is, whatever the hints make of
  the size: right and bottom edge when the top left corner is dragged, and so on.\<close>

theorem resize_keeps_opposite_edge:
  assumes "resize_step mode b c x y = Some c'"
  shows "(mode \<in> {1, 4, 6, 7, 8} \<longrightarrow> rx (geometry c') = rx (geometry c)) \<and>
    (mode \<in> {2, 3, 5} \<longrightarrow> r_right (geometry c') = r_right (geometry c)) \<and>
    (mode \<in> {1, 2, 5, 6, 8} \<longrightarrow> ry (geometry c') = ry (geometry c)) \<and>
    (mode \<in> {3, 4, 7} \<longrightarrow> r_bottom (geometry c') = r_bottom (geometry c))"
  using assms adjustSize_place
  by (auto simp: resize_step_def resizecalc_def resizecalc_bl_def resizecalc_tl_def resizecalc_tr_def resizecalc_l_def
      resizecalc_r_def resizecalc_t_def resizecalc_b_def Let_def moveBy_def set_size_def r_right_def r_bottom_def
      split: if_splits bind_splits)

lemma sdiv_mult_le: "\<bar>(a sdiv i) * i\<bar> \<le> \<bar>a\<bar>" for a i :: int
proof -
  have "\<bar>(a sdiv i) * i\<bar> \<le> \<bar>a\<bar> div \<bar>i\<bar> * \<bar>i\<bar>"
    by (cases "i = 0") (simp_all add: signed_divide_int_def abs_mult abs_sgn_eq pos_imp_zdiv_nonneg_iff)
  also have "\<bar>a\<bar> div \<bar>i\<bar> * \<bar>i\<bar> = \<bar>a\<bar> - \<bar>a\<bar> mod \<bar>i\<bar>" by (simp add: minus_mod_eq_div_mult)
  also have "\<dots> \<le> \<bar>a\<bar>" by (cases "i = 0") simp_all
  finally show ?thesis .
qed

text \<open>Coordinates and hints of a sensible size.\<close>

definition sizes_small :: "int \<Rightarrow> kclient \<Rightarrow> bool" where
  "sizes_small b c \<longleftrightarrow> 0 \<le> b \<and> b < 2 ^ 15 \<and> (\<forall>g\<in>{geometry c, geometry_restore c}. \<bar>rw g\<bar> < 2 ^ 15 \<and> \<bar>rh g\<bar> < 2 ^ 15) \<and>
     (\<forall>f\<in>{min_width, min_height, max_width, max_height, base_width, base_height}. \<bar>f (size_of c)\<bar> < 2 ^ 30)"

lemma stepped_le: "\<bar>stepped pinc inc g d\<bar> \<le> 2 * \<bar>g\<bar> + \<bar>d\<bar>"
  using sdiv_mult_le[of "g - d" inc] by (auto simp: stepped_def)

lemma stepped_small:
  assumes "\<bar>g\<bar> < 2 ^ 15" "\<bar>d\<bar> < 2 ^ 15"
  shows "\<bar>stepped pinc inc g (max 1 d)\<bar> < 2 ^ 18"
proof -
  have "\<bar>max 1 d\<bar> \<le> 2 ^ 15" using assms(2) by simp
  then show ?thesis using stepped_le[of pinc inc g "max 1 d"] assms(1) by simp
qed

lemma stepped_dvd: "pinc \<Longrightarrow> inc dvd g - stepped pinc inc g d"
  by (simp add: stepped_def)

lemma hint_size_bounds:
  "pmin \<Longrightarrow> mn \<le> hint_size pmax mx pmin mn pbase bs d"
  "\<not> pmin \<Longrightarrow> pbase \<Longrightarrow> bs \<le> hint_size pmax mx pmin mn pbase bs d"
  "pmax \<Longrightarrow> (pmin \<longrightarrow> mn \<le> mx) \<Longrightarrow> (\<not> pmin \<and> pbase \<longrightarrow> bs \<le> mx) \<Longrightarrow> hint_size pmax mx pmin mn pbase bs d \<le> mx"
  "hint_size pmax mx pmin mn pbase bs d \<in> {d, mx, mn, bs}"
  by (auto simp: hint_size_def Let_def)

lemma least_bounds:
  "least_width b c d - frame_width b c \<in> {d - frame_width b c, BUTTON_SIZE + 1}"
  "least_height b c d - frame_height b c \<in> {d - frame_height b c, 21}"
  by (auto simp: least_width_def least_height_def frame_width_def frame_height_def)

lemma pick_small:
  assumes "v \<in> {x - f, k}" "\<bar>x\<bar> < 2 ^ 18" "0 \<le> f" "f < 2 ^ 17" "0 \<le> k" "k \<le> 21"
  shows "\<bar>v\<bar> < (2::int) ^ 19"
proof -
  have "v = x - f \<or> v = k" using assms(1) by blast
  then show ?thesis using assms(2-) by (elim disjE) (simp_all add: abs_less_iff)
qed

lemma adjustSize_Some:
  "adjustSize b c = Some c' \<Longrightarrow> rw (geometry c') = adjusted_width b c \<and> rh (geometry c') = adjusted_height b c"
  by (auto simp: adjustSize_def split: if_splits)

lemma to_int32_cancel: "\<bar>x + f\<bar> < 2 ^ 31 \<Longrightarrow> to_int32 (x + f) - f = x"
  by simp

lemma frame_bounds:
  assumes "0 \<le> b" "b < 2 ^ 15"
  shows "0 \<le> frame_width b c" "frame_width b c < 2 ^ 17" "0 \<le> frame_height b c" "frame_height b c < 2 ^ 17"
  using assms by (simp_all add: frame_width_def frame_height_def BORDER_THIN_def TITLEBAR_HEIGHT_def)

text \<open>The size that \<open>adjustSize\<close> computes for the window, in one direction.\<close>

lemma adjustSize_sizes:
  assumes "adjustSize b c = Some c'" "sizes_small b c" "h = size_of c"
  shows "rw (geometry c') - frame_width b c = hint_size (PMaxSize h) (max_width h) (PMinSize h) (min_width h) (PBaseSize h) (base_width h)
      (least_width b c (stepped (PResizeInc h) (width_inc h) (rw (geometry_restore c)) (max 1 (rw (geometry c)))) - frame_width b c)"
    "rh (geometry c') - frame_height b c = hint_size (PMaxSize h) (max_height h) (PMinSize h) (min_height h) (PBaseSize h) (base_height h)
      (least_height b c (stepped (PResizeInc h) (height_inc h) (rh (geometry_restore c)) (max 1 (rh (geometry c)))) - frame_height b c)"
proof -
  have sm: "0 \<le> b" "b < 2 ^ 15" "\<bar>rw (geometry c)\<bar> < 2 ^ 15" "\<bar>rh (geometry c)\<bar> < 2 ^ 15" "\<bar>rw (geometry_restore c)\<bar> < 2 ^ 15"
    "\<bar>rh (geometry_restore c)\<bar> < 2 ^ 15"
    "\<bar>min_width h\<bar> < 2 ^ 30" "\<bar>min_height h\<bar> < 2 ^ 30" "\<bar>max_width h\<bar> < 2 ^ 30" "\<bar>max_height h\<bar> < 2 ^ 30"
    "\<bar>base_width h\<bar> < 2 ^ 30" "\<bar>base_height h\<bar> < 2 ^ 30"
    using assms(2,3) by (auto simp: sizes_small_def)
  have f: "0 \<le> frame_width b c" "frame_width b c < 2 ^ 17" "0 \<le> frame_height b c" "frame_height b c < 2 ^ 17"
    by (rule frame_bounds[OF sm(1,2)])+
  let ?w = "stepped (PResizeInc h) (width_inc h) (rw (geometry_restore c)) (max 1 (rw (geometry c)))"
  let ?h = "stepped (PResizeInc h) (height_inc h) (rh (geometry_restore c)) (max 1 (rh (geometry c)))"
  have ws: "\<bar>?w\<bar> < 2 ^ 18" "\<bar>?h\<bar> < 2 ^ 18"
    by (rule stepped_small[OF sm(5) sm(3)], rule stepped_small[OF sm(6) sm(4)])
  have k: "0 \<le> BUTTON_SIZE + 1" "BUTTON_SIZE + 1 \<le> 21" "(0::int) \<le> 21" "(21::int) \<le> 21" by (simp_all add: BUTTON_SIZE_def)
  have l: "\<bar>least_width b c ?w - frame_width b c\<bar> < 2 ^ 19" "\<bar>least_height b c ?h - frame_height b c\<bar> < 2 ^ 19"
    by (rule pick_small[OF least_bounds(1) ws(1) f(1,2) k(1,2)], rule pick_small[OF least_bounds(2) ws(2) f(3,4) k(3,4)])
  have small: "\<bar>hint_size pmax mx pmin mn pbase bs d + f\<bar> < 2 ^ 31"
    if "\<bar>mx\<bar> < 2 ^ 30" "\<bar>mn\<bar> < 2 ^ 30" "\<bar>bs\<bar> < 2 ^ 30" "\<bar>d\<bar> < 2 ^ 19" "0 \<le> f" "f < 2 ^ 17" for pmax mx pmin mn pbase bs d f
    using hint_size_bounds(4)[of pmax mx pmin mn pbase bs d] that by auto
  show "rw (geometry c') - frame_width b c = hint_size (PMaxSize h) (max_width h) (PMinSize h) (min_width h) (PBaseSize h) (base_width h)
      (least_width b c ?w - frame_width b c)"
    using adjustSize_Some[OF assms(1)] assms(3) to_int32_cancel[OF small[OF sm(9,7,11) l(1) f(1,2)]]
    by (simp only: adjusted_width_def Let_def)
  show "rh (geometry c') - frame_height b c = hint_size (PMaxSize h) (max_height h) (PMinSize h) (min_height h) (PBaseSize h) (base_height h)
      (least_height b c ?h - frame_height b c)"
    using adjustSize_Some[OF assms(1)] assms(3) to_int32_cancel[OF small[OF sm(10,8,12) l(2) f(3,4)]]
    by (simp only: adjusted_height_def Let_def)
qed

text \<open>C37: The size hints, where no increment is zero: \<open>adjustSize\<close> keeps the place. The inner size of the window, without its frame, is at least the minimal size,
  or, without one, the base size; in each direction it is no bigger than the maximal size, where that is not below this least size; and the change of the size is a
  multiple of the increment, unless the inner size is one of these bounds or the least size of kwm. The border and the sizes of the window are below 2^15, the
  hints below 2^30.\<close>

theorem adjustSize_hints:
  assumes "adjustSize b c = Some c'" "sizes_small b c"
    and "h = size_of c" "w = rw (geometry c') - frame_width b c" "v = rh (geometry c') - frame_height b c"
  shows "rx (geometry c') = rx (geometry c) \<and> ry (geometry c') = ry (geometry c) \<and>
    (PMinSize h \<longrightarrow> min_width h \<le> w \<and> min_height h \<le> v) \<and>
    (PBaseSize h \<and> \<not> PMinSize h \<longrightarrow> base_width h \<le> w \<and> base_height h \<le> v) \<and>
    (PMaxSize h \<and> (PMinSize h \<longrightarrow> min_width h \<le> max_width h) \<and> (\<not> PMinSize h \<and> PBaseSize h \<longrightarrow> base_width h \<le> max_width h)
       \<longrightarrow> w \<le> max_width h) \<and>
    (PMaxSize h \<and> (PMinSize h \<longrightarrow> min_height h \<le> max_height h) \<and> (\<not> PMinSize h \<and> PBaseSize h \<longrightarrow> base_height h \<le> max_height h)
       \<longrightarrow> v \<le> max_height h) \<and>
    (PResizeInc h \<longrightarrow> width_inc h dvd rw (geometry_restore c) - rw (geometry c')
       \<or> w \<in> {max_width h, min_width h, base_width h, BUTTON_SIZE + 1}) \<and>
    (PResizeInc h \<longrightarrow> height_inc h dvd rh (geometry_restore c) - rh (geometry c')
       \<or> v \<in> {max_height h, min_height h, base_height h, 21})"
proof -
  let ?w = "stepped (PResizeInc h) (width_inc h) (rw (geometry_restore c)) (max 1 (rw (geometry c)))"
  let ?v = "stepped (PResizeInc h) (height_inc h) (rh (geometry_restore c)) (max 1 (rh (geometry c)))"
  note sz = adjustSize_sizes[OF assms(1,2,3), folded assms(4,5)]
  have "w \<in> {least_width b c ?w - frame_width b c, max_width h, min_width h, base_width h}"
    "v \<in> {least_height b c ?v - frame_height b c, max_height h, min_height h, base_height h}"
    unfolding sz by (rule hint_size_bounds(4))+
  then have "w \<in> {?w - frame_width b c, max_width h, min_width h, base_width h, BUTTON_SIZE + 1}"
    "v \<in> {?v - frame_height b c, max_height h, min_height h, base_height h, 21}"
    using least_bounds(1)[of b c ?w] least_bounds(2)[of b c ?v] by auto
  then have "rw (geometry c') = ?w \<or> w \<in> {max_width h, min_width h, base_width h, BUTTON_SIZE + 1}"
    "rh (geometry c') = ?v \<or> v \<in> {max_height h, min_height h, base_height h, 21}"
    using assms(4,5) by auto
  moreover have "PResizeInc h \<longrightarrow> width_inc h dvd rw (geometry_restore c) - ?w"
    "PResizeInc h \<longrightarrow> height_inc h dvd rh (geometry_restore c) - ?v"
    by (simp_all add: stepped_dvd)
  ultimately have inc: "PResizeInc h \<longrightarrow> width_inc h dvd rw (geometry_restore c) - rw (geometry c')
       \<or> w \<in> {max_width h, min_width h, base_width h, BUTTON_SIZE + 1}"
    "PResizeInc h \<longrightarrow> height_inc h dvd rh (geometry_restore c) - rh (geometry c')
       \<or> v \<in> {max_height h, min_height h, base_height h, 21}"
    by fastforce+
  have "PMinSize h \<longrightarrow> min_width h \<le> w \<and> min_height h \<le> v"
    "PBaseSize h \<and> \<not> PMinSize h \<longrightarrow> base_width h \<le> w \<and> base_height h \<le> v"
    "PMaxSize h \<and> (PMinSize h \<longrightarrow> min_width h \<le> max_width h) \<and> (\<not> PMinSize h \<and> PBaseSize h \<longrightarrow> base_width h \<le> max_width h)
       \<longrightarrow> w \<le> max_width h"
    "PMaxSize h \<and> (PMinSize h \<longrightarrow> min_height h \<le> max_height h) \<and> (\<not> PMinSize h \<and> PBaseSize h \<longrightarrow> base_height h \<le> max_height h)
       \<longrightarrow> v \<le> max_height h"
    unfolding sz by (simp_all add: hint_size_bounds(1-3))
  then show ?thesis using adjustSize_place(1,2)[OF assms(1)] inc by blast
qed


lemmas one_client_defs = sizes_small_def adjustSize_def adjusted_width_def adjusted_height_def stepped_def
  hint_size_def least_width_def least_height_def frame_width_def frame_height_def noDecoration_def tinyDecoration_def
  normalDecoration_def BORDER_THIN_def BUTTON_SIZE_def TITLEBAR_HEIGHT_def upd_geometry_def Let_def

text \<open>An xterm: 6 by 13 pixels a character, a normal decoration with a border of 4.\<close>

definition no_hints :: size_hints where
  "no_hints = \<lparr>PMaxSize = False, PMinSize = False, PBaseSize = False, PResizeInc = False, PWinGravity = False,
     min_width = 0, min_height = 0, max_width = 0, max_height = 0, base_width = 0, base_height = 0,
     width_inc = 0, height_inc = 0, win_gravity = 0\<rparr>"

definition a_client :: "int \<Rightarrow> int \<Rightarrow> int \<Rightarrow> int \<Rightarrow> kclient" where
  "a_client x y w h = \<lparr>window = 1, winId = 2, trans = 0, leader = 0, decoration = normalDecoration, wants_focus = True,
     is_menubar = False, desktop = 1, geometry = \<lparr>rx = x, ry = y, rw = w, rh = h\<rparr>,
     geometry_restore = \<lparr>rx = x, ry = y, rw = w, rh = h\<rparr>, size_of = no_hints, old_cursor_x = 0, old_cursor_y = 0,
     state = NormalState, is_active = False, maximized = False, maximize_mode = 0, sticky = False, iconified = False,
     shaded = False, stays_on_top = False, hidden_for_modules = False, unmap_events = 0, Pdeletewindow = True, shown = True\<rparr>"

definition xterm :: kclient where
  "xterm = (a_client 10 10 492 344)\<lparr>size_of := no_hints\<lparr>PMinSize := True, min_width := 10, min_height := 17,
     PBaseSize := True, base_width := 4, base_height := 4, PResizeInc := True, width_inc := 6, height_inc := 13\<rparr>\<rparr>"

theorem resize_keeps_opposite_edge_witness:
  "\<exists>c'. resize_step 3 4 xterm 100 100 = Some c' \<and> r_right (geometry c') = r_right (geometry xterm) \<and> geometry c' \<noteq> geometry xterm"
proof -
  have "map_option geometry (resize_step 3 4 xterm 100 100) = Some \<lparr>rx = 100, ry = 88, rw = 402, rh = 266\<rparr>" by code_simp
  then obtain c' where c': "resize_step 3 4 xterm 100 100 = Some c'" "geometry c' = \<lparr>rx = 100, ry = 88, rw = 402, rh = 266\<rparr>" by blast
  then show ?thesis using resize_keeps_opposite_edge[OF c'(1)] by (auto simp: xterm_def a_client_def)
qed

theorem adjustSize_hints_witness:
  "\<exists>c'. adjustSize 4 (set_size 300 5 xterm) = Some c' \<and> 17 \<le> rh (geometry c') - frame_height 4 (set_size 300 5 xterm) \<and>
     6 dvd 492 - rw (geometry c')"
proof -
  let ?c = "set_size 300 5 xterm"
  have "map_option geometry (adjustSize 4 ?c) = Some \<lparr>rx = 10, ry = 10, rw = 300, rh = 49\<rparr>" by code_simp
  then obtain c' where c': "adjustSize 4 ?c = Some c'" "rw (geometry c') = 300" by auto
  have s: "sizes_small 4 ?c" by (simp add: sizes_small_def set_size_def xterm_def a_client_def no_hints_def)
  show ?thesis using adjustSize_hints[OF c'(1) s refl refl refl] c'
    by (simp add: set_size_def xterm_def a_client_def no_hints_def)
qed

subsection \<open>Properties of gravity and fitting\<close>

lemma gravitate_inverse: "gravitate b (\<not> i) (gravitate b i c) = c"
  by (cases i; cases "decoration c = noDecoration")
    (simp_all add: gravitate_def Let_def upd_geometry_def moveBy_def split_beta cong: if_cong split del: if_split)

lemma gravity_offset_cases:
  assumes "gravity_offset w d t = (dx, dy)"
  shows "w \<in> {NorthWestGravity, WestGravity, SouthWestGravity} \<Longrightarrow> dx = 0"
    "w \<in> {NorthEastGravity, EastGravity, SouthEastGravity} \<Longrightarrow> dx = - 2 * d"
    "w \<in> {NorthWestGravity, NorthGravity, NorthEastGravity} \<Longrightarrow> dy = 0"
    "w \<in> {SouthWestGravity, SouthGravity, SouthEastGravity} \<Longrightarrow> dy = - 2 * d - t"
    "w \<in> {NorthGravity, CenterGravity, StaticGravity, SouthGravity} \<Longrightarrow> dx = - d"
    "w \<in> {WestGravity, CenterGravity, StaticGravity, EastGravity} \<Longrightarrow> dy = - d - t"
  using assms unfolding gravity_offset_def gravity_defs by auto

text \<open>The two directions of \<open>gravitate\<close> are inverse to each other: a window that kwm releases is where it was when it was
  taken over. And the frame keeps the reference point of the gravity, for a window with a border of one pixel: the left edge
  of the western gravities, the right edge of the eastern, the upper of the northern, the lower of the southern ones; otherwise the window
  itself stays where it is.\<close>

theorem gravitate_roundtrip:
  "gravitate b (\<not> i) (gravitate b i c) = c \<and>
   (let g = geometry c; c' = gravitate b False c; g' = geometry c'; w = win_gravity (size_of c);
        border = (if decoration c = normalDecoration then b else BORDER_THIN);
        t = (if decoration c = normalDecoration then TITLEBAR_HEIGHT else 0)
    in decoration c \<noteq> noDecoration \<and> PWinGravity (size_of c) \<longrightarrow>
      (w \<in> {NorthWestGravity, WestGravity, SouthWestGravity} \<longrightarrow> rx g' = rx g) \<and>
      (w \<in> {NorthEastGravity, EastGravity, SouthEastGravity} \<longrightarrow> r_right g' = r_right g + 2) \<and>
      (w \<in> {NorthWestGravity, NorthGravity, NorthEastGravity} \<longrightarrow> ry g' = ry g) \<and>
      (w \<in> {SouthWestGravity, SouthGravity, SouthEastGravity} \<longrightarrow> r_bottom g' = r_bottom g + 2) \<and>
      (w \<in> {NorthGravity, CenterGravity, StaticGravity, SouthGravity} \<longrightarrow> rx g' + border = rx g + 1) \<and>
      (w \<in> {WestGravity, CenterGravity, StaticGravity, EastGravity} \<longrightarrow> ry g' + border + t = ry g + 1))"
proof -
  let ?w = "win_gravity (size_of c)" and ?b = "if decoration c = normalDecoration then b else BORDER_THIN"
  let ?t = "if decoration c = normalDecoration then TITLEBAR_HEIGHT else 0"
  obtain dx dy where o: "gravity_offset ?w (?b - 1) ?t = (dx, dy)" by fastforce
  have "geometry (gravitate b False c) = \<lparr>rx = rx (geometry c) + dx, ry = ry (geometry c) + dy,
      rw = rw (geometry c) + 2 * ?b, rh = rh (geometry c) + 2 * ?b + ?t\<rparr>"
    if "decoration c \<noteq> noDecoration" "PWinGravity (size_of c)"
    using o that by (auto simp: gravitate_def Let_def moveBy_def if_distrib)
  then show ?thesis
    unfolding gravitate_inverse Let_def using gravity_offset_cases[OF o] by (simp add: r_right_def r_bottom_def)
qed

theorem gravitate_roundtrip_witness:
  "ry (geometry (gravitate 4 False (a_client 100 100 50 50))) = 100 \<and>
   rx (geometry (gravitate 4 False ((a_client 100 100 50 50)\<lparr>size_of := no_hints\<lparr>PWinGravity := True, win_gravity := StaticGravity\<rparr>\<rparr>))) + 4 = 101"
  using gravitate_roundtrip[of 4 False "(a_client 100 100 50 50)\<lparr>size_of := no_hints\<lparr>PWinGravity := True, win_gravity := StaticGravity\<rparr>\<rparr>"]
  by (simp add: a_client_def no_hints_def noDecoration_def normalDecoration_def gravitate_def gravity_offset_def Let_def moveBy_def)

text \<open>A new window is moved into the visible area: its size stays, in each direction in which it fits it lies within the area afterwards,
  where it does not fit its upper left is not outside to the left or above; a window within the area stays where it is.\<close>

theorem fit_visible_inside:
  "rw (fit_visible r g) = rw g \<and> rh (fit_visible r g) = rh g \<and> rx r \<le> rx (fit_visible r g) \<and> ry r \<le> ry (fit_visible r g) \<and>
   (rw g \<le> rw r \<longrightarrow> r_right (fit_visible r g) \<le> r_right r) \<and> (rh g \<le> rh r \<longrightarrow> r_bottom (fit_visible r g) \<le> r_bottom r) \<and>
   (rx r \<le> rx g \<and> r_right g \<le> r_right r \<longrightarrow> rx (fit_visible r g) = rx g) \<and>
   (ry r \<le> ry g \<and> r_bottom g \<le> r_bottom r \<longrightarrow> ry (fit_visible r g) = ry g)"
  by (auto simp: fit_visible_def Let_def moveTopLeft_def moveBottomRight_def r_right_def r_bottom_def)

theorem fit_visible_inside_witness:
  "fit_visible \<lparr>rx = 0, ry = 20, rw = 800, rh = 580\<rparr> \<lparr>rx = 700, ry = 0, rw = 200, rh = 100\<rparr> = \<lparr>rx = 600, ry = 20, rw = 200, rh = 100\<rparr> \<and>
   r_right (fit_visible \<lparr>rx = 0, ry = 20, rw = 800, rh = 580\<rparr> \<lparr>rx = 700, ry = 0, rw = 200, rh = 100\<rparr>) \<le> 799"
  using fit_visible_inside[of "\<lparr>rx = 0, ry = 20, rw = 800, rh = 580\<rparr>" "\<lparr>rx = 700, ry = 0, rw = 200, rh = 100\<rparr>"]
  by (simp add: fit_visible_def Let_def moveTopLeft_def moveBottomRight_def r_right_def r_bottom_def)

end
