(* ===== verification/KwmSnap.thy ===== *)
theory KwmSnap
  imports KwmGeometry
begin

section \<open>The window manager kwm: where a dragged window snaps\<close>

text \<open>
  Properties of \<open>snapIt\<close> of \<open>kwm/manager.C\<close> (modelled in KwmGeometry): its four running numbers are, in each direction,
  the nearest of a list of edges.
\<close>

subsection \<open>The edges\<close>

text \<open>The specification: an edge is a zone and the coordinate that the window gets when it snaps to it.\<close>

definition client_edges :: "int \<Rightarrow> bool \<Rightarrow> int \<Rightarrow> int \<Rightarrow> int \<Rightarrow> (int \<times> int) list" where
  "client_edges z b len l lr = (if b then [(z, lr), (z, l - len)] else [])"

definition edges_x :: "client_id \<Rightarrow> manager \<Rightarrow> (int \<times> int) list" where
  "edges_x i m =
     (let r = region m (current_desktop m); b = BORDER (opts m); c = cl m i; g = geometry c; z = BorderSnapZone (opts m)
      in [(z, rx r), (z, r_right r - rw g)] @
         concat (map (\<lambda>l. let lg = geometry (cl m l)
             in client_edges (WindowSnapZone (opts m))
                  (beside (ry g) (ry g + vis_height b c) (ry lg) (ry lg + vis_height b (cl m l)))
                  (rw g) (rx lg) (rx lg + rw lg)) (filter (snap_partner m) (clients m))))"

definition edges_y :: "client_id \<Rightarrow> manager \<Rightarrow> (int \<times> int) list" where
  "edges_y i m =
     (let r = region m (current_desktop m); b = BORDER (opts m); c = cl m i; g = geometry c; z = BorderSnapZone (opts m)
      in [(z, ry r), (z, r_bottom r - vis_height b c)] @
         concat (map (\<lambda>l. let lg = geometry (cl m l)
             in client_edges (WindowSnapZone (opts m))
                  (beside (rx g) (rx g + rw g) (rx lg) (rx lg + rw lg))
                  (vis_height b c) (ry lg) (ry lg + vis_height b (cl m l))) (filter (snap_partner m) (clients m))))"

definition nearest :: "int \<Rightarrow> (int \<times> int) list \<Rightarrow> int \<times> int \<Rightarrow> int \<times> int" where
  "nearest p ts = fold (\<lambda>(z, t). snap_to z (t - p) t) ts"

lemma snap_to_abs: "\<bar>d\<bar> = \<bar>d'\<bar> \<Longrightarrow> snap_to z d = snap_to z d'"
  by (simp add: snap_to_def fun_eq_iff)

lemma snap_edges_nearest: "(if b then snap_edges z p len l lr st else st) = nearest p (client_edges z b len l lr) st"
  using snap_to_abs[of "p + len - l" "l - len - p" z] by (simp add: snap_edges_def nearest_def client_edges_def)

lemma snap_border_nearest:
  assumes "0 \<le> z" "z \<le> \<delta>"
  shows "(if z \<noteq> 0 then snap_border z lo hi p len (\<delta>, n) else (\<delta>, n)) = nearest p [(z, lo), (z, hi - len)] (\<delta>, n)"
proof -
  have "\<bar>hi - (p + len)\<bar> = \<bar>hi - len - p\<bar>" by simp
  from snap_to_abs[OF this] show ?thesis
    using assms by (auto simp: snap_border_def nearest_def snap_to_def Let_def abs_minus_commute)
qed

lemma nearest_append: "nearest p (xs @ ys) st = nearest p ys (nearest p xs st)"
  by (simp add: nearest_def)

lemma fold_snap_client:
  "fold (\<lambda>l. snap_client b z c (cl m l)) ls (sx, sy) =
   (nearest (rx (geometry c)) (concat (map (\<lambda>l. let lg = geometry (cl m l)
       in client_edges z (beside (ry (geometry c)) (ry (geometry c) + vis_height b c) (ry lg) (ry lg + vis_height b (cl m l)))
            (rw (geometry c)) (rx lg) (rx lg + rw lg)) ls)) sx,
    nearest (ry (geometry c)) (concat (map (\<lambda>l. let lg = geometry (cl m l)
       in client_edges z (beside (rx (geometry c)) (rx (geometry c) + rw (geometry c)) (rx lg) (rx lg + rw lg))
            (vis_height b c) (ry lg) (ry lg + vis_height b (cl m l))) ls)) sy)"
  by (induction ls arbitrary: sx sy)
    (simp_all add: snap_client_def Let_def snap_edges_nearest nearest_append, simp_all add: nearest_def)

lemma snap_place_nearest:
  assumes "0 \<le> BorderSnapZone (opts m)" "BorderSnapZone (opts m) \<le> r_right (region m (current_desktop m))"
    "BorderSnapZone (opts m) \<le> r_bottom (region m (current_desktop m))"
  shows "snap_place i m =
    (let r = region m (current_desktop m); g = geometry (cl m i)
     in (nearest (rx g) (edges_x i m) (r_right r, rx g), nearest (ry g) (edges_y i m) (r_bottom r, ry g)))"
  by (simp only: snap_place_def Let_def snap_border_nearest[OF assms(1,2)] snap_border_nearest[OF assms(1,3)] fold_snap_client
      edges_x_def edges_y_def nearest_append)

text \<open>The meaning of \<open>nearest\<close>: nothing within its zone is nearer than the edge found.\<close>

definition found :: "int \<Rightarrow> int \<Rightarrow> (int \<times> int) set \<Rightarrow> int \<times> int \<Rightarrow> bool" where
  "found p mx ts = (\<lambda>(\<delta>, n). (\<forall>(z, t)\<in>ts. \<bar>t - p\<bar> < z \<and> \<bar>t - p\<bar> < mx \<longrightarrow> \<delta> \<le> \<bar>t - p\<bar>) \<and>
     ((\<delta> = mx \<and> n = p) \<or> (\<delta> = \<bar>n - p\<bar> \<and> \<delta> < mx \<and> (\<exists>z. (z, n) \<in> ts \<and> \<delta> < z))))"

lemma found_step:
  assumes "found p mx ts st"
  shows "found p mx (insert (z, t) ts) (snap_to z (t - p) t st)"
proof -
  obtain \<delta> n where st: "st = (\<delta>, n)" by fastforce
  have le: "\<delta> \<le> \<bar>t' - p\<bar>" if "(z', t') \<in> ts" "\<bar>t' - p\<bar> < z'" "\<bar>t' - p\<bar> < mx" for z' t'
    using assms that st by (fastforce simp: found_def)
  show ?thesis
  proof (cases "\<bar>t - p\<bar> < z \<and> \<bar>t - p\<bar> < \<delta>")
    case True
    then have "\<bar>t - p\<bar> < mx" using assms st by (auto simp: found_def)
    then show ?thesis using True le st by (fastforce simp: found_def snap_to_def)
  next
    case False
    then have "snap_to z (t - p) t st = (\<delta>, n)" using st by (auto simp: snap_to_def)
    moreover have "\<delta> \<le> mx" using assms st by (auto simp: found_def)
    ultimately show ?thesis using False le assms st by (auto simp: found_def)
  qed
qed

lemma nearest_found: "found p mx ts st \<Longrightarrow> found p mx (ts \<union> set es) (nearest p es st)"
proof (induction es arbitrary: ts st)
  case (Cons e es)
  from found_step[OF Cons.prems, of "fst e" "snd e"] Cons.IH[of "insert e ts"] show ?case
    by (simp add: nearest_def split_beta)
qed (simp add: nearest_def)

lemma nearest_correct:
  assumes "nearest p es (mx, p) = (\<delta>, n)" "\<forall>(z, t)\<in>set es. z \<le> mx"
  shows "(n = p \<or> (\<exists>z. (z, n) \<in> set es \<and> \<bar>n - p\<bar> < z)) \<and> (\<forall>(z, t)\<in>set es. \<bar>t - p\<bar> < z \<longrightarrow> \<bar>n - p\<bar> \<le> \<bar>t - p\<bar>) \<and>
    ((\<exists>(z, t)\<in>set es. \<bar>t - p\<bar> < z) \<longrightarrow> (\<exists>z. (z, n) \<in> set es))"
proof -
  have "found p mx {} (mx, p)" by (simp add: found_def)
  from nearest_found[OF this, of es] have f: "found p mx (set es) (\<delta>, n)" using assms(1) by simp
  have *: "\<bar>t - p\<bar> < mx" if "(z, t) \<in> set es" "\<bar>t - p\<bar> < z" for z t
    using assms(2) that by fastforce
  have **: "\<delta> \<le> \<bar>t - p\<bar>" if "(z, t) \<in> set es" "\<bar>t - p\<bar> < z" for z t
    using f that *[OF that] unfolding found_def by fastforce
  show ?thesis using f * ** unfolding found_def by fastforce
qed

subsection \<open>Properties\<close>

text \<open>The zones are a part of the screen.\<close>

definition zones_small :: "manager \<Rightarrow> bool" where
  "zones_small m \<longleftrightarrow> (let r = region m (current_desktop m); M = min (r_right r) (r_bottom r)
     in 0 \<le> BorderSnapZone (opts m) \<and> BorderSnapZone (opts m) \<le> M \<and> WindowSnapZone (opts m) \<le> M)"

lemma edges_zones:
  assumes "zones_small m"
  shows "\<forall>(z, t)\<in>set (edges_x i m). z \<le> r_right (region m (current_desktop m))"
    "\<forall>(z, t)\<in>set (edges_y i m). z \<le> r_bottom (region m (current_desktop m))"
  using assms by (auto simp: zones_small_def edges_x_def edges_y_def Let_def client_edges_def)

lemma snapIt_geometry:
  assumes "zones_small m" "g = geometry (cl m i)" "r = region m (current_desktop m)"
  shows "geometry (cl (snapIt i m) i) = g\<lparr>rx := snd (nearest (rx g) (edges_x i m) (r_right r, rx g)),
    ry := snd (nearest (ry g) (edges_y i m) (r_bottom r, ry g))\<rparr>" "j \<noteq> i \<Longrightarrow> cl (snapIt i m) j = cl m j"
proof -
  have z: "0 \<le> BorderSnapZone (opts m)" "BorderSnapZone (opts m) \<le> r_right (region m (current_desktop m))"
    "BorderSnapZone (opts m) \<le> r_bottom (region m (current_desktop m))"
    using assms(1) by (auto simp: zones_small_def Let_def)
  show "geometry (cl (snapIt i m) i) = g\<lparr>rx := snd (nearest (rx g) (edges_x i m) (r_right r, rx g)),
      ry := snd (nearest (ry g) (edges_y i m) (r_bottom r, ry g))\<rparr>"
    using assms(2,3) by (simp add: snapIt_def snap_place_nearest[OF z] Let_def split_beta moveTopLeft_def)
  show "j \<noteq> i \<Longrightarrow> cl (snapIt i m) j = cl m j" by (simp add: snapIt_def Let_def split_beta)
qed

text \<open>C36: A window that is dragged snaps, in each direction by itself, to the nearest of the edges whose zones it is in; out of all the zones it stays where
  the pointer put it. The edges are those of the screen and, in each direction, those of the windows on the desktop that lie beside it and are neither icons nor
  dialogs; the window that is dragged is one of these itself (see \<open>snaps_to_itself\<close>). The zones are not negative at the border of the screen and no bigger
  than the screen. The size of the window and the other windows do not change.\<close>

theorem snapIt_nearest:
  assumes "zones_small m" "g = geometry (cl m i)" "g' = geometry (cl (snapIt i m) i)"
  shows "rw g' = rw g \<and> rh g' = rh g \<and> (\<forall>j. j \<noteq> i \<longrightarrow> cl (snapIt i m) j = cl m j) \<and>
    (rx g' = rx g \<or> (\<exists>z. (z, rx g') \<in> set (edges_x i m) \<and> \<bar>rx g' - rx g\<bar> < z)) \<and>
    (ry g' = ry g \<or> (\<exists>z. (z, ry g') \<in> set (edges_y i m) \<and> \<bar>ry g' - ry g\<bar> < z)) \<and>
    (\<forall>(z, t)\<in>set (edges_x i m). \<bar>t - rx g\<bar> < z \<longrightarrow> \<bar>rx g' - rx g\<bar> \<le> \<bar>t - rx g\<bar>) \<and>
    (\<forall>(z, t)\<in>set (edges_y i m). \<bar>t - ry g\<bar> < z \<longrightarrow> \<bar>ry g' - ry g\<bar> \<le> \<bar>t - ry g\<bar>) \<and>
    ((\<exists>(z, t)\<in>set (edges_x i m). \<bar>t - rx g\<bar> < z) \<longrightarrow> rx g' \<in> snd ` set (edges_x i m)) \<and>
    ((\<exists>(z, t)\<in>set (edges_y i m). \<bar>t - ry g\<bar> < z) \<longrightarrow> ry g' \<in> snd ` set (edges_y i m))"
proof -
  let ?r = "region m (current_desktop m)"
  obtain dx nx dy ny where n: "nearest (rx g) (edges_x i m) (r_right ?r, rx g) = (dx, nx)"
    "nearest (ry g) (edges_y i m) (r_bottom ?r, ry g) = (dy, ny)" by fastforce
  have g': "g' = g\<lparr>rx := nx, ry := ny\<rparr>" using snapIt_geometry(1)[OF assms(1,2) refl] n assms(3) by simp
  have im: "(\<exists>z. (z, n) \<in> E) = (n \<in> snd ` E)" for n and E :: "(int \<times> int) set" by force
  show ?thesis
    using nearest_correct[OF n(1) edges_zones(1)[OF assms(1)]] nearest_correct[OF n(2) edges_zones(2)[OF assms(1)]]
      snapIt_geometry(2)[OF assms(1,2) refl] by (simp add: g' im)
qed

text \<open>The loop over the windows does not leave out the window that is dragged: its own lower edge is an edge to snap to. A window that is
  not a transient and shows less than the zone, for example a shaded one, jumps by up to its own height whenever it is not
  exactly at an edge: it cannot be put anywhere else.\<close>

theorem snaps_to_itself:
  assumes "zones_small m" "i \<in> set (clients m)" "snap_partner m i"
    and "0 < vis_height (BORDER (opts m)) (cl m i)" "vis_height (BORDER (opts m)) (cl m i) < WindowSnapZone (opts m)"
    and "0 \<le> rw (geometry (cl m i))" "ry (geometry (cl m i)) \<notin> snd ` set (edges_y i m)"
  shows "ry (geometry (cl (snapIt i m) i)) \<noteq> ry (geometry (cl m i)) \<and>
    \<bar>ry (geometry (cl (snapIt i m) i)) - ry (geometry (cl m i))\<bar> \<le> vis_height (BORDER (opts m)) (cl m i)"
proof -
  let ?r = "region m (current_desktop m)" and ?g = "geometry (cl m i)"
  obtain dy ny where n: "nearest (ry ?g) (edges_y i m) (r_bottom ?r, ry ?g) = (dy, ny)" by fastforce
  have own: "(WindowSnapZone (opts m), ry ?g + vis_height (BORDER (opts m)) (cl m i)) \<in> set (edges_y i m)"
    using assms(2,3,6) by (force simp: edges_y_def Let_def client_edges_def beside_def)
  have "(\<exists>z. (z, ny) \<in> set (edges_y i m)) \<and> \<bar>ny - ry ?g\<bar> \<le> vis_height (BORDER (opts m)) (cl m i)"
    using nearest_correct[OF n edges_zones(2)[OF assms(1)]] own assms(4,5) by fastforce
  moreover have "ry (geometry (cl (snapIt i m) i)) = ny" using snapIt_geometry(1)[OF assms(1) refl refl] n by simp
  ultimately show ?thesis using assms(7) by force
qed

text \<open>Two windows on a screen of 800 by 600.\<close>

definition some_opts :: kwm_options where
  "some_opts = \<lparr>BORDER = 4, Placement = SMART_PLACEMENT, interactive_trigger = - 1, BorderSnapZone = 10, WindowSnapZone = 10,
     FocusPolicy = CLICK_TO_FOCUS, GimmickMode = False\<rparr>"

definition a_manager :: "kclient list \<Rightarrow> manager" where
  "a_manager cs = \<lparr>cl = (\<lambda>i. if i < length cs then cs ! i else a_client 0 0 100 100), clients = [0..<length cs],
     clients_sorted = [0..<length cs], clients_traversing = [0..<length cs], current_desktop = 1, number_of_desktops = 4,
     opts = some_opts, region = (\<lambda>_. \<lparr>rx = 0, ry = 0, rw = 800, rh = 600\<rparr>), menubar = None, random_px = 0, random_py = 0,
     cascade_x = (\<lambda>_. 0), cascade_y = (\<lambda>_. 0), cascade_col = (\<lambda>_. 0), cascade_row = (\<lambda>_. 0),
     rootwin = 99, top_windows = [], gimmick = 0, focus_grabbed = False, mouse_grabber = None, standalone_menubars = False,
     menubar_height = (\<lambda>_. 20), log = []\<rparr>"

lemmas a_manager_defs = a_manager_def a_client_def some_opts_def

theorem snapIt_nearest_witness:
  "rx (geometry (cl (snapIt 1 (a_manager [a_client 100 100 200 200, a_client 305 150 100 100])) 1)) = 300 \<and>
   rw (geometry (cl (snapIt 1 (a_manager [a_client 100 100 200 200, a_client 305 150 100 100])) 1)) = 100"
proof -
  let ?m = "a_manager [a_client 100 100 200 200, a_client 305 150 100 100]"
  have z: "zones_small ?m" by (simp add: zones_small_def Let_def a_manager_defs r_right_def r_bottom_def)
  have "rx (geometry (cl (snapIt 1 ?m) 1)) = 300" by code_simp
  moreover have "rw (geometry (cl ?m 1)) = 100" by (simp add: a_manager_defs)
  ultimately show ?thesis using snapIt_nearest[OF z refl refl, of 1] by simp
qed

theorem snaps_to_itself_witness:
  "ry (geometry (cl (snapIt 0 ((a_manager [(a_client 100 100 200 200)\<lparr>shaded := True\<rparr>])\<lparr>opts := some_opts\<lparr>WindowSnapZone := 50\<rparr>\<rparr>)) 0)) \<noteq> 100"
proof -
  let ?m = "(a_manager [(a_client 100 100 200 200)\<lparr>shaded := True\<rparr>])\<lparr>opts := some_opts\<lparr>WindowSnapZone := 50\<rparr>\<rparr>"
  have e: "set (edges_y 0 ?m) = {(10, 0), (10, 571), (50, 128), (50, 72)}" by code_simp
  show ?thesis
    using snaps_to_itself[of ?m 0] unfolding e
    by (simp add: zones_small_def Let_def a_manager_defs r_right_def r_bottom_def snap_partner_def isOnDesktop_def vis_height_def
        TITLEBAR_HEIGHT_def)
qed

end
