(* ===== verification/KwmPlace.thy ===== *)
theory KwmPlace
  imports KwmSnap
begin

section \<open>The window manager kwm: the placement of new windows\<close>

text \<open>
  \<open>doPlacement\<close> and the policies behind it in \<open>kwm/manager.C\<close>. The loops over \<open>clients\<close> become folds over the boxes of the windows that the
  loop does not skip. \<open>smartPlacement\<close> may loop forever for a window without extent, so its loop is a partial function.
\<close>

subsection \<open>smartPlacement\<close>

text \<open>A box: left, upper, right and lower edge.\<close>

type_synonym box = "int \<times> int \<times> int \<times> int"

definition place_box :: "int \<Rightarrow> kclient \<Rightarrow> box" where
  "place_box b c = (let g = geometry c in (rx g, ry g, rx g + rw g, ry g + vis_height b c))"

definition sp_obstacle :: "manager \<Rightarrow> client_id \<Rightarrow> client_id \<Rightarrow> bool" where
  "sp_obstacle m i l \<longleftrightarrow> isOnDesktop (current_desktop m) (cl m l) \<and> \<not> iconified (cl m l) \<and> l \<noteq> i"

text \<open>The second loop asks whether the window to be placed is iconified.\<close>

definition sp_obstacle_y :: "manager \<Rightarrow> client_id \<Rightarrow> client_id \<Rightarrow> bool" where
  "sp_obstacle_y m i l \<longleftrightarrow> isOnDesktop (current_desktop m) (cl m l) \<and> l \<noteq> i \<and> \<not> iconified (cl m i)"

definition boxes :: "manager \<Rightarrow> (client_id \<Rightarrow> bool) \<Rightarrow> box list" where
  "boxes m P = map (\<lambda>l. place_box (BORDER (opts m)) (cl m l)) (filter P (clients m))"

definition overlaps :: "box \<Rightarrow> box \<Rightarrow> bool" where
  "overlaps = (\<lambda>(cxl, cyt, cxr, cyb) (xl, yt, xr, yb). cxl < xr \<and> cxr > xl \<and> cyt < yb \<and> cyb > yt)"

definition overlap_area :: "box \<Rightarrow> box \<Rightarrow> int" where
  "overlap_area = (\<lambda>(cxl, cyt, cxr, cyb) (xl, yt, xr, yb). (min cxr xr - max cxl xl) * (min cyb yb - max cyt yt))"

fun add_overlaps :: "int \<Rightarrow> box \<Rightarrow> box list \<Rightarrow> int \<Rightarrow> int" where
  "add_overlaps overlap c [] over_temp = over_temp"
| "add_overlaps overlap c (l # ls) over_temp =
     (if overlaps c l
      then let over_temp = to_int32 (over_temp + to_int32 (overlap_area c l))
           in if over_temp > overlap \<and> overlap \<noteq> -1 then over_temp else add_overlaps overlap c ls over_temp
      else add_overlaps overlap c ls over_temp)"

definition spGetOverlap :: "manager \<Rightarrow> client_id \<Rightarrow> int \<Rightarrow> int \<Rightarrow> int \<Rightarrow> int" where
  "spGetOverlap m i x y overlap =
     (let r = region m (current_desktop m); ch = vis_height (BORDER (opts m)) (cl m i); cw = rw (geometry (cl m i))
      in if y + ch > r_bottom r then -1
         else if x + cw > r_right r then -2
         else add_overlaps overlap (x, y, x + cw, y + ch) (boxes m (sp_obstacle m i)) 0)"

definition closer :: "int \<Rightarrow> int \<Rightarrow> int \<Rightarrow> int" where
  "closer x temp other = (if temp > x then (if other < temp then other else temp) else other)"

definition next_x :: "box list \<Rightarrow> int \<Rightarrow> int \<Rightarrow> int \<Rightarrow> int \<Rightarrow> int \<Rightarrow> int" where
  "next_x bs right cw ch x y =
     fold (\<lambda>(xl, yt, xr, yb) other. if y < yb \<and> yt < ch + y then closer x (xl - cw) (closer x xr other) else other) bs
       (if right - cw > x then right - cw else right)"

definition next_y :: "box list \<Rightarrow> int \<Rightarrow> int \<Rightarrow> int \<Rightarrow> int" where
  "next_y bs bottom ch y =
     fold (\<lambda>(xl, yt, xr, yb) other. closer y (yt - ch) (closer y yb other)) bs
       (if bottom - ch > y then bottom - ch else bottom)"

text \<open>A step from one position to the next one.\<close>

definition sp_step :: "manager \<Rightarrow> client_id \<Rightarrow> int \<Rightarrow> int \<Rightarrow> int \<Rightarrow> int \<times> int" where
  "sp_step m i x y overlap =
     (let r = maxRect m; ch = vis_height (BORDER (opts m)) (cl m i); cw = rw (geometry (cl m i))
      in if overlap > 0 then (next_x (boxes m (sp_obstacle m i)) (r_right r) cw ch x y, y)
         else (rx r, next_y (boxes m (sp_obstacle_y m i)) (r_bottom r) ch y))"

text \<open>The loop; the result is \<open>over_min\<close>, \<open>xopt\<close> and \<open>yopt\<close>.\<close>

partial_function (option) sp_loop :: "manager \<Rightarrow> client_id \<Rightarrow> int \<Rightarrow> int \<Rightarrow> int \<Rightarrow> int \<times> int \<times> int \<Rightarrow> (int \<times> int \<times> int) option" where
  "sp_loop m i x y overlap best =
     (if overlap = 0 \<or> overlap = -1 then Some best
      else let (x, y) = sp_step m i x y overlap;
               overlap = spGetOverlap m i x y (fst best)
           in sp_loop m i x y overlap (if 0 \<le> overlap \<and> overlap < fst best then (overlap, x, y) else best))"

declare sp_loop.simps [code]

text \<open>The percentage of the desktop that is overlapped decides whether the user places the window; \<open>None\<close> is a division by zero.\<close>

definition sp_interactive :: "int \<Rightarrow> manager \<Rightarrow> manager option" where
  "sp_interactive over_min m =
     (let r = maxRect m; area = to_int32 (rh r * rw r)
      in if interactive_trigger (opts m) < 0 then Some m
         else if area = 0 then None
         else Some (m\<lparr>opts := (opts m)\<lparr>Placement :=
           if interactive_trigger (opts m) < to_int32 (over_min * 100) sdiv area then MANUAL_PLACEMENT else SMART_PLACEMENT\<rparr>\<rparr>))"

definition smartPlacement :: "client_id \<Rightarrow> manager \<Rightarrow> manager option" where
  "smartPlacement i m =
     (let x = rx (maxRect m); y = ry (maxRect m); overlap = spGetOverlap m i x y (-1)
      in do {
        (over_min, xopt, yopt) \<leftarrow> sp_loop m i x y overlap (overlap, x, y);
        m \<leftarrow> sp_interactive over_min m;
        Some (upd_client i (upd_geometry (moveTopLeft xopt yopt)) m) })"

subsection \<open>The other policies\<close>

definition randomPlacement :: "client_id \<Rightarrow> manager \<Rightarrow> manager" where
  "randomPlacement i m =
     (let r = maxRect m; b = BORDER (opts m); g = geometry (cl m i);
          px = (if random_px m < rx r then rx r else random_px m);
          py = (if random_py m < ry r then ry r else random_py m);
          px = px + (TITLEBAR_HEIGHT + b);
          py = py + (2 * TITLEBAR_HEIGHT + b);
          px = (if px > rw r sdiv 2 then rx r + TITLEBAR_HEIGHT + b else px);
          py = (if py > rh r sdiv 2 then ry r + TITLEBAR_HEIGHT + b else py);
          (tx, px) = (if px + rw g > r_right r then (max 0 (r_right r - rw g), rx r) else (px, px));
          (ty, py) = (if py + rh g > r_bottom r then (max 0 (r_bottom r - rh g), ry r) else (py, py))
      in (upd_client i (upd_geometry (moveTopLeft tx ty)) m)\<lparr>random_px := px, random_py := py\<rparr>)"

text \<open>The four static arrays have eight entries; \<open>None\<close> is an access outside of them. The flag tells whether the iteration of
  \<open>clients\<close>, which \<open>smartPlacement\<close> shares with \<open>deskCascade\<close>, is still where it was.\<close>

definition smart_flag :: "client_id \<Rightarrow> manager \<Rightarrow> bool" where
  "smart_flag i m \<longleftrightarrow> spGetOverlap m i (rx (maxRect m)) (ry (maxRect m)) (-1) = -1"

definition by_smart :: "client_id \<Rightarrow> manager \<Rightarrow> (bool \<times> manager) option" where
  "by_smart i m = map_option (Pair (smart_flag i m)) (smartPlacement i m)"

definition to_uint16 :: "int \<Rightarrow> int" where "to_uint16 n = n mod 2 ^ 16"

definition cascadePlacement :: "client_id \<Rightarrow> bool \<Rightarrow> manager \<Rightarrow> (bool \<times> manager) option" where
  "cascadePlacement i re_init m =
     (let delta_x = 2 * TITLEBAR_HEIGHT + BORDER (opts m); delta_y = TITLEBAR_HEIGHT + BORDER (opts m);
          d = current_desktop m - 1; r = maxRect m; ch = rh (geometry (cl m i)); cw = rw (geometry (cl m i));
          H = r_bottom r; W = r_right r; X = rx r; Y = ry r
      in if \<not> (0 \<le> d \<and> d < 8) then None
      else let
          m = (if re_init then m\<lparr>cascade_x := (cascade_x m)(d := X), cascade_y := (cascade_y m)(d := Y),
                 cascade_col := (cascade_col m)(d := 0), cascade_row := (cascade_row m)(d := 0)\<rparr> else m);
          xp = cascade_x m d; yp = cascade_y m d;
          yp = (if yp + ch > H then Y else yp)
      in if xp + cw > W \<and> yp = 0 then by_smart i m
      else let
          xp = (if xp + cw > W then X else xp);
          unset = (cascade_x m d = 0 \<and> cascade_y m d = 0);
          m = (if unset \<and> xp \<noteq> 0 \<and> yp = 0 then m\<lparr>cascade_col := (cascade_col m)(d := to_uint16 (cascade_col m d + 1))\<rparr> else m);
          xp = (if unset \<and> xp \<noteq> 0 \<and> yp = 0 then delta_x * cascade_col m d else xp);
          m = (if unset \<and> yp \<noteq> 0 \<and> xp = 0 then m\<lparr>cascade_row := (cascade_row m)(d := to_uint16 (cascade_row m d + 1))\<rparr> else m);
          yp = (if unset \<and> yp \<noteq> 0 \<and> xp = 0 then delta_y * cascade_row m d else yp)
      in if unset \<and> (xp + cw > W \<or> yp + ch > H) then by_smart i m
      else let
          xp = (if xp = 0 then X else xp); yp = (if yp = 0 then Y else yp)
      in Some (True, (upd_client i (upd_geometry (moveTopLeft xp yp)) m)
             \<lparr>cascade_x := (cascade_x m)(d := xp + delta_x), cascade_y := (cascade_y m)(d := yp + delta_y)\<rparr>))"

definition doPlacement :: "client_id \<Rightarrow> manager \<Rightarrow> manager option" where
  "doPlacement i m =
     (if Placement (opts m) = SMART_PLACEMENT \<or> Placement (opts m) = MANUAL_PLACEMENT \<or> interactive_trigger (opts m) \<ge> 0
      then smartPlacement i m
      else if Placement (opts m) = CASCADE_PLACEMENT then map_option snd (cascadePlacement i False m)
      else Some (randomPlacement i m))"

subsection \<open>Rearranging the windows of a desktop\<close>

definition sendConfig :: "client_id \<Rightarrow> manager \<Rightarrow> manager" where
  "sendConfig i m = event (SendConfig i) m"

definition desk_skips :: "manager \<Rightarrow> client_id \<Rightarrow> bool" where
  "desk_skips m l \<longleftrightarrow> \<not> isOnDesktop (current_desktop m) (cl m l) \<or> iconified (cl m l) \<or> sticky (cl m l) \<or> is_menubar (cl m l)"

fun unclutter_loop :: "client_id list \<Rightarrow> manager \<Rightarrow> manager option" where
  "unclutter_loop [] m = Some m"
| "unclutter_loop (l # ls) m =
     (if desk_skips m l then unclutter_loop ls m
      else do { m \<leftarrow> smartPlacement l m; unclutter_loop ls (sendConfig l m) })"

definition deskUnclutter :: "manager \<Rightarrow> manager option" where
  "deskUnclutter m =
     (let save = (if interactive_trigger (opts m) \<ge> 0 then interactive_trigger (opts m) else -1);
          m = (if interactive_trigger (opts m) \<ge> 0 then m\<lparr>opts := (opts m)\<lparr>interactive_trigger := -1\<rparr>\<rparr> else m)
      in do {
        m \<leftarrow> unclutter_loop (rev (clients m)) m;
        Some (m\<lparr>opts := (opts m)\<lparr>interactive_trigger := save\<rparr>\<rparr>) })"

text \<open>\<open>smartPlacement\<close> runs to the end of \<open>clients\<close>, so that \<open>clients.next()\<close> is 0 afterwards.\<close>

fun cascade_loop :: "client_id list \<Rightarrow> manager \<Rightarrow> manager option" where
  "cascade_loop [] m = Some m"
| "cascade_loop (l # ls) m =
     (if desk_skips m l then cascade_loop ls m
      else do {
        (goes_on, m) \<leftarrow> cascadePlacement l False m;
        let m = sendConfig l m;
        if goes_on then cascade_loop ls m else Some m })"

definition deskCascade :: "manager \<Rightarrow> manager option" where
  "deskCascade m = (case clients m of
     [] \<Rightarrow> Some m
   | l # ls \<Rightarrow> do {
       (goes_on, m) \<leftarrow> cascadePlacement l True m;
       let m = sendConfig l m;
       if goes_on then cascade_loop ls m else Some m })"

subsection \<open>The next position\<close>

lemma closest_fold:
  assumes "(x::int) < other"
  shows "x < fold (closer x) ts other \<and> fold (closer x) ts other \<le> other \<and> (\<forall>t\<in>set ts. x < t \<longrightarrow> fold (closer x) ts other \<le> t)"
  using assms
proof (induction ts arbitrary: other)
  case (Cons t ts)
  have "x < closer x t other" "closer x t other \<le> other" "x < t \<Longrightarrow> closer x t other \<le> t"
    using Cons.prems by (auto simp: closer_def)
  then show ?case using Cons.IH[of "closer x t other"] by fastforce
qed simp

lemma next_x_closest:
  "next_x bs right cw ch x y = fold (closer x)
     (concat (map (\<lambda>(xl, yt, xr, yb). if y < yb \<and> yt < ch + y then [xr, xl - cw] else []) bs))
     (if right - cw > x then right - cw else right)"
  unfolding next_x_def
  by (induction bs rule: rev_induct) (auto simp: fold_append)

lemma next_y_closest:
  "next_y bs bottom ch y = fold (closer y) (concat (map (\<lambda>(xl, yt, xr, yb). [yb, yt - ch]) bs))
     (if bottom - ch > y then bottom - ch else bottom)"
  unfolding next_y_def
  by (induction bs rule: rev_induct) (auto simp: fold_append)

lemma next_x:
  assumes "x < right"
  shows "x < next_x bs right cw ch x y" "x < right - cw \<Longrightarrow> next_x bs right cw ch x y \<le> right - cw"
    "(xl, yt, xr, yb) \<in> set bs \<Longrightarrow> y < yb \<Longrightarrow> yt < ch + y \<Longrightarrow> x < xr \<Longrightarrow> next_x bs right cw ch x y \<le> xr"
    "(xl, yt, xr, yb) \<in> set bs \<Longrightarrow> y < yb \<Longrightarrow> yt < ch + y \<Longrightarrow> x < xl - cw \<Longrightarrow> next_x bs right cw ch x y \<le> xl - cw"
    "cw \<ge> 0 \<Longrightarrow> next_x bs right cw ch x y \<le> right"
proof -
  let ?ts = "concat (map (\<lambda>(xl, yt, xr, yb). if y < yb \<and> yt < ch + y then [xr, xl - cw] else []) bs)"
    and ?o = "if right - cw > x then right - cw else right"
  have o: "x < ?o" using assms by simp
  note c = closest_fold[OF o, of ?ts, folded next_x_closest]
  show "x < next_x bs right cw ch x y" "x < right - cw \<Longrightarrow> next_x bs right cw ch x y \<le> right - cw" using c by auto
  have m: "xr \<in> set ?ts" "xl - cw \<in> set ?ts" if "(xl, yt, xr, yb) \<in> set bs" "y < yb" "yt < ch + y"
    using that by force+
  show "(xl, yt, xr, yb) \<in> set bs \<Longrightarrow> y < yb \<Longrightarrow> yt < ch + y \<Longrightarrow> x < xr \<Longrightarrow> next_x bs right cw ch x y \<le> xr" using c m by blast
  show "(xl, yt, xr, yb) \<in> set bs \<Longrightarrow> y < yb \<Longrightarrow> yt < ch + y \<Longrightarrow> x < xl - cw \<Longrightarrow> next_x bs right cw ch x y \<le> xl - cw" using c m by blast
  show "cw \<ge> 0 \<Longrightarrow> next_x bs right cw ch x y \<le> right" using c assms by (simp split: if_splits)
qed

lemma next_y:
  assumes "y < bottom"
  shows "y < next_y bs bottom ch y" "y < bottom - ch \<Longrightarrow> next_y bs bottom ch y \<le> bottom - ch"
    "(xl, yt, xr, yb) \<in> set bs \<Longrightarrow> y < yb \<Longrightarrow> next_y bs bottom ch y \<le> yb"
    "ch \<ge> 0 \<Longrightarrow> next_y bs bottom ch y \<le> bottom"
proof -
  let ?ts = "concat (map (\<lambda>(xl, yt, xr, yb). [yb, yt - ch]) bs)" and ?o = "if bottom - ch > y then bottom - ch else bottom"
  have o: "y < ?o" using assms by simp
  note c = closest_fold[OF o, of ?ts, folded next_y_closest]
  show "y < next_y bs bottom ch y" "y < bottom - ch \<Longrightarrow> next_y bs bottom ch y \<le> bottom - ch" using c by auto
  show "(xl, yt, xr, yb) \<in> set bs \<Longrightarrow> y < yb \<Longrightarrow> next_y bs bottom ch y \<le> yb" using c by force
  show "ch \<ge> 0 \<Longrightarrow> next_y bs bottom ch y \<le> bottom" using c assms by (simp split: if_splits)
qed

subsection \<open>The overlap\<close>

definition total_overlap :: "box \<Rightarrow> box list \<Rightarrow> int" where
  "total_overlap c bs = (\<Sum>b\<leftarrow>filter (overlaps c) bs. overlap_area c b)"

definition box_ok :: "box \<Rightarrow> bool" where
  "box_ok = (\<lambda>(xl, yt, xr, yb). xl < xr \<and> yt < yb)"

lemma overlap_area_bounds:
  assumes "overlaps (x, y, x + cw, y + ch) b" "box_ok b" "0 < cw" "0 < ch"
  shows "0 < overlap_area (x, y, x + cw, y + ch) b" "overlap_area (x, y, x + cw, y + ch) b \<le> cw * ch"
proof -
  obtain xl yt xr yb where b: "b = (xl, yt, xr, yb)" by (cases b)
  let ?w = "min (x + cw) xr - max x xl" and ?h = "min (y + ch) yb - max y yt"
  have w: "0 < ?w" "?w \<le> cw" and h: "0 < ?h" "?h \<le> ch" using assms by (auto simp: b overlaps_def box_ok_def)
  show "0 < overlap_area (x, y, x + cw, y + ch) b" using mult_pos_pos[OF w(1) h(1)] by (simp add: b overlap_area_def)
  show "overlap_area (x, y, x + cw, y + ch) b \<le> cw * ch"
    using mult_mono[OF w(2) h(2)] w h assms(3) by (simp add: b overlap_area_def)
qed

lemma total_overlap_bounds:
  assumes "\<forall>b\<in>set bs. box_ok b" "0 < cw" "0 < ch"
  shows "0 \<le> total_overlap (x, y, x + cw, y + ch) bs \<and> total_overlap (x, y, x + cw, y + ch) bs \<le> int (length bs) * (cw * ch) \<and>
    (total_overlap (x, y, x + cw, y + ch) bs = 0 \<longleftrightarrow> (\<forall>b\<in>set bs. \<not> overlaps (x, y, x + cw, y + ch) b))"
  using assms(1)
proof (induction bs)
  case (Cons b bs)
  let ?c = "(x, y, x + cw, y + ch)"
  have cc: "0 \<le> cw * ch" using assms(2,3) by simp
  have len: "int (length (b # bs)) * (cw * ch) = cw * ch + int (length bs) * (cw * ch)" by (simp add: algebra_simps)
  have IH: "0 \<le> total_overlap ?c bs" "total_overlap ?c bs \<le> int (length bs) * (cw * ch)"
    "total_overlap ?c bs = 0 \<longleftrightarrow> (\<forall>b\<in>set bs. \<not> overlaps ?c b)" and ok: "box_ok b"
    using Cons by simp_all
  show ?case
  proof (cases "overlaps ?c b")
    case True
    then have "total_overlap ?c (b # bs) = overlap_area ?c b + total_overlap ?c bs" by (simp add: total_overlap_def)
    then show ?thesis using IH(1,2) overlap_area_bounds[OF True ok assms(2,3)] True unfolding len by simp
  next
    case False
    then have "total_overlap ?c (b # bs) = total_overlap ?c bs" by (simp add: total_overlap_def)
    then show ?thesis using IH cc False unfolding len by simp
  qed
qed (simp add: total_overlap_def)

text \<open>What the sum of \<open>spGetOverlap\<close> is: the overlap, or, when it is cut short, a positive number that is not the least so far.\<close>

lemma add_overlaps:
  assumes "\<forall>b\<in>set bs. box_ok b" "0 < cw" "0 < ch" "0 \<le> t" "t + int (length bs) * (cw * ch) < 2 ^ 31"
  shows "add_overlaps ov (x, y, x + cw, y + ch) bs t = t + total_overlap (x, y, x + cw, y + ch) bs \<or>
    (ov \<noteq> -1 \<and> ov < add_overlaps ov (x, y, x + cw, y + ch) bs t \<and> t < add_overlaps ov (x, y, x + cw, y + ch) bs t \<and>
     0 < total_overlap (x, y, x + cw, y + ch) bs)"
  using assms(1,4,5)
proof (induction bs arbitrary: t)
  case (Cons b bs)
  let ?c = "(x, y, x + cw, y + ch)"
  have cc: "0 \<le> cw * ch" using assms(2,3) by simp
  have n: "0 \<le> int (length bs) * (cw * ch)" using cc by simp
  show ?case
  proof (cases "overlaps ?c b")
    case True
    have a: "0 < overlap_area ?c b" "overlap_area ?c b \<le> cw * ch"
      using overlap_area_bounds[OF True] Cons.prems(1) assms(2,3) by auto
    have l: "t + overlap_area ?c b + int (length bs) * (cw * ch) < 2 ^ 31"
      using Cons.prems(3) a by (simp add: algebra_simps)
    have s: "to_int32 (overlap_area ?c b) = overlap_area ?c b" "to_int32 (t + overlap_area ?c b) = t + overlap_area ?c b"
      using a n l Cons.prems(2) by (intro to_int32_id; linarith)+
    have tot: "total_overlap ?c (b # bs) = overlap_area ?c b + total_overlap ?c bs" using True by (simp add: total_overlap_def)
    have pos: "0 \<le> total_overlap ?c bs" using total_overlap_bounds[of bs cw ch x y] Cons.prems(1) assms(2,3) by simp
    have step: "add_overlaps ov ?c (b # bs) t = (if t + overlap_area ?c b > ov \<and> ov \<noteq> -1 then t + overlap_area ?c b
        else add_overlaps ov ?c bs (t + overlap_area ?c b))"
      using True by (simp only: add_overlaps.simps s if_True Let_def)
    show ?thesis
    proof (cases "t + overlap_area ?c b > ov \<and> ov \<noteq> -1")
      case True
      then show ?thesis using step tot pos a by simp
    next
      case False
      have "add_overlaps ov ?c (b # bs) t = add_overlaps ov ?c bs (t + overlap_area ?c b)" using step False by simp
      then show ?thesis using Cons.IH[of "t + overlap_area ?c b"] Cons.prems a l tot pos by auto
    qed
  next
    case False
    then have "total_overlap ?c (b # bs) = total_overlap ?c bs" by (simp add: total_overlap_def)
    moreover have "t + int (length bs) * (cw * ch) < 2 ^ 31" using Cons.prems(3) cc by (simp add: algebra_simps)
    ultimately show ?thesis using Cons.IH[of t] Cons.prems False by auto
  qed
qed (simp add: total_overlap_def)

subsection \<open>The search\<close>

text \<open>All windows have an extent, the desktop has an area, and no sum of overlaps reaches \<open>2 ^ 31\<close>.\<close>

definition placeable :: "client_id \<Rightarrow> manager \<Rightarrow> bool" where
  "placeable i m \<longleftrightarrow> (let cw = rw (geometry (cl m i)); ch = vis_height (BORDER (opts m)) (cl m i) in
     0 < cw \<and> 0 < ch \<and> (\<forall>l\<in>set (clients m). 0 < rw (geometry (cl m l)) \<and> 0 < vis_height (BORDER (opts m)) (cl m l)) \<and>
     int (length (clients m)) * (cw * ch) < 2 ^ 31 \<and> (interactive_trigger (opts m) < 0 \<or> to_int32 (rh (maxRect m) * rw (maxRect m)) \<noteq> 0))"

text \<open>Whether the window fits at a place, the overlap it has there with the others, and whether the place is free.\<close>

definition fits :: "client_id \<Rightarrow> manager \<Rightarrow> int \<Rightarrow> int \<Rightarrow> bool" where
  "fits i m x y \<longleftrightarrow> (let r = maxRect m in rx r \<le> x \<and> ry r \<le> y \<and> x + rw (geometry (cl m i)) \<le> r_right r \<and>
     y + vis_height (BORDER (opts m)) (cl m i) \<le> r_bottom r)"

definition overlap_at :: "client_id \<Rightarrow> manager \<Rightarrow> int \<Rightarrow> int \<Rightarrow> int" where
  "overlap_at i m x y = total_overlap (x, y, x + rw (geometry (cl m i)), y + vis_height (BORDER (opts m)) (cl m i))
     (boxes m (sp_obstacle m i))"

definition free_at :: "client_id \<Rightarrow> manager \<Rightarrow> int \<Rightarrow> int \<Rightarrow> bool" where
  "free_at i m x y \<longleftrightarrow> fits i m x y \<and> (\<forall>b\<in>set (boxes m (sp_obstacle m i)).
     \<not> overlaps (x, y, x + rw (geometry (cl m i)), y + vis_height (BORDER (opts m)) (cl m i)) b)"

lemma maxRect_edges [simp]:
  "r_right (maxRect m) = r_right (region m (current_desktop m))" "r_bottom (maxRect m) = r_bottom (region m (current_desktop m))"
  by (simp_all add: maxRect_def Let_def setTop_def r_right_def r_bottom_def split: option.split)

lemma boxes_ok:
  assumes "placeable i m"
  shows "\<forall>b\<in>set (boxes m P). box_ok b"
  using assms by (auto simp: placeable_def boxes_def place_box_def box_ok_def Let_def)

lemma placeable_total:
  assumes "placeable i m"
  shows "0 \<le> overlap_at i m x y \<and> (fits i m x y \<longrightarrow> (overlap_at i m x y = 0 \<longleftrightarrow> free_at i m x y))"
  using total_overlap_bounds[OF boxes_ok[OF assms]] assms by (simp add: overlap_at_def free_at_def placeable_def Let_def)

lemma spGetOverlap:
  assumes "placeable i m" "rx (maxRect m) \<le> x" "ry (maxRect m) \<le> y" "ov = spGetOverlap m i x y ov0"
  shows "(ov = -1 \<longrightarrow> y + vis_height (BORDER (opts m)) (cl m i) > r_bottom (maxRect m)) \<and>
    (ov = -2 \<longrightarrow> x + rw (geometry (cl m i)) > r_right (maxRect m) \<and> y + vis_height (BORDER (opts m)) (cl m i) \<le> r_bottom (maxRect m)) \<and>
    (ov \<ge> 0 \<longrightarrow> fits i m x y) \<and> ov \<ge> -2 \<and> (ov = 0 \<longrightarrow> overlap_at i m x y = 0) \<and> (ov > 0 \<longrightarrow> overlap_at i m x y > 0) \<and>
    (ov \<ge> 0 \<and> (ov < ov0 \<or> ov0 = -1) \<longrightarrow> ov = overlap_at i m x y)"
proof -
  let ?ch = "vis_height (BORDER (opts m)) (cl m i)" and ?cw = "rw (geometry (cl m i))" and ?bs = "boxes m (sp_obstacle m i)"
  have p: "0 < ?cw" "0 < ?ch" "int (length (clients m)) * (?cw * ?ch) < 2 ^ 31" using assms(1) by (auto simp: placeable_def Let_def)
  have "length ?bs \<le> length (clients m)" by (simp add: boxes_def)
  then have "int (length ?bs) * (?cw * ?ch) \<le> int (length (clients m)) * (?cw * ?ch)" using p by (intro mult_right_mono) auto
  from order.strict_trans1[OF this p(3)] have "0 + int (length ?bs) * (?cw * ?ch) < 2 ^ 31" by (simp only: add_0)
  note a = add_overlaps[OF boxes_ok[OF assms(1)] p(1,2) order.refl this, of ov0 x y]
  have t: "0 \<le> overlap_at i m x y" using placeable_total[OF assms(1)] by simp
  show ?thesis
  proof (cases "y + ?ch > r_bottom (maxRect m) \<or> x + ?cw > r_right (maxRect m)")
    case True
    then show ?thesis using assms(4) by (auto simp: spGetOverlap_def Let_def)
  next
    case False
    then have ov: "ov = add_overlaps ov0 (x, y, x + ?cw, y + ?ch) ?bs 0" using assms(4) by (auto simp: spGetOverlap_def Let_def)
    have f: "fits i m x y" using False assms(2,3) by (simp add: fits_def Let_def)
    show ?thesis using a t f unfolding ov[symmetric] overlap_at_def by auto
  qed
qed

text \<open>What the loop keeps: the best place so far, and that no place in front of the current one, row by row, is free.\<close>

definition best_ok :: "client_id \<Rightarrow> manager \<Rightarrow> int \<times> int \<times> int \<Rightarrow> bool" where
  "best_ok i m = (\<lambda>(om, xo, yo). let left = rx (maxRect m); upper = ry (maxRect m) in
     (om \<ge> 0 \<longrightarrow> fits i m xo yo \<and> om = overlap_at i m xo yo \<and> om \<le> overlap_at i m left upper) \<and>
     (om < 0 \<longrightarrow> xo = left \<and> yo = upper \<and> \<not> fits i m left upper))"

definition sp_inv :: "client_id \<Rightarrow> manager \<Rightarrow> int \<Rightarrow> int \<Rightarrow> int \<Rightarrow> int \<times> int \<times> int \<Rightarrow> bool" where
  "sp_inv i m x y ov best \<longleftrightarrow>
     (let ch = vis_height (BORDER (opts m)) (cl m i); cw = rw (geometry (cl m i)) in
     rx (maxRect m) \<le> x \<and> ry (maxRect m) \<le> y \<and> ov \<ge> -2 \<and> (ov = -1 \<longrightarrow> y + ch > r_bottom (maxRect m)) \<and>
     (ov = -2 \<longrightarrow> x + cw > r_right (maxRect m) \<and> y + ch \<le> r_bottom (maxRect m)) \<and>
     (ov \<ge> 0 \<longrightarrow> fits i m x y) \<and> (ov > 0 \<longrightarrow> overlap_at i m x y > 0) \<and> (ov = 0 \<longrightarrow> fst best = 0) \<and> best_ok i m best \<and>
     (\<not> iconified (cl m i) \<longrightarrow> (\<forall>a b. free_at i m a b \<longrightarrow> y < b \<or> (b = y \<and> x \<le> a))))"

lemma fits_leftmost: "fits i m x y \<Longrightarrow> fits i m (rx (maxRect m)) (ry (maxRect m))"
  by (auto simp: fits_def Let_def)

lemma free_after_x:
  assumes "placeable i m" "overlap_at i m x y > 0" "fits i m x y" "free_at i m a y" "x \<le> a"
  shows "next_x (boxes m (sp_obstacle m i)) (r_right (maxRect m)) (rw (geometry (cl m i))) (vis_height (BORDER (opts m)) (cl m i)) x y \<le> a"
proof (rule ccontr)
  let ?cw = "rw (geometry (cl m i))" and ?ch = "vis_height (BORDER (opts m)) (cl m i)" and ?bs = "boxes m (sp_obstacle m i)"
  assume n: "\<not> ?thesis"
  have x: "x < r_right (maxRect m)" using assms(1,3) by (auto simp: placeable_def fits_def Let_def)
  have "\<not> free_at i m x y" using placeable_total[OF assms(1), of x y] assms(2,3) by simp
  then obtain xl yt xr yb where b: "(xl, yt, xr, yb) \<in> set ?bs" "x < xr" "x + ?cw > xl" "y < yb" "y + ?ch > yt"
    using assms(3) by (fastforce simp: free_at_def overlaps_def)
  have "next_x ?bs (r_right (maxRect m)) ?cw ?ch x y \<le> xr" using b by (intro next_x(3)[OF x]) auto
  then have "overlaps (a, y, a + ?cw, y + ?ch) (xl, yt, xr, yb)" using n b assms(5) by (auto simp: overlaps_def)
  then show False using assms(4) b(1) by (auto simp: free_at_def)
qed

lemma free_after_y:
  assumes "placeable i m" "\<not> iconified (cl m i)" "ry (maxRect m) \<le> y" "y + vis_height (BORDER (opts m)) (cl m i) \<le> r_bottom (maxRect m)"
    and "\<And>a. \<not> free_at i m a y" "free_at i m a b" "y < b"
  shows "next_y (boxes m (sp_obstacle_y m i)) (r_bottom (maxRect m)) (vis_height (BORDER (opts m)) (cl m i)) y \<le> b"
proof (rule ccontr)
  let ?cw = "rw (geometry (cl m i))" and ?ch = "vis_height (BORDER (opts m)) (cl m i)"
  assume n: "\<not> ?thesis"
  have y: "y < r_bottom (maxRect m)" using assms(1,4) by (auto simp: placeable_def Let_def)
  have "fits i m a y" using assms(3,4,6) by (simp add: free_at_def fits_def Let_def)
  then obtain xl yt xr yb where b: "(xl, yt, xr, yb) \<in> set (boxes m (sp_obstacle m i))" "a < xr" "a + ?cw > xl" "y < yb" "y + ?ch > yt"
    using assms(5)[of a] by (fastforce simp: free_at_def overlaps_def)
  have "(xl, yt, xr, yb) \<in> set (boxes m (sp_obstacle_y m i))"
    using b(1) assms(2) by (auto simp: boxes_def sp_obstacle_def sp_obstacle_y_def)
  then have "next_y (boxes m (sp_obstacle_y m i)) (r_bottom (maxRect m)) ?ch y \<le> yb" using b(4) by (intro next_y(3)[OF y]) auto
  then have "overlaps (a, b, a + ?cw, b + ?ch) (xl, yt, xr, yb)" using n b assms(7) by (auto simp: overlaps_def)
  then show False using assms(6) b(1) by (auto simp: free_at_def)
qed

lemma sp_step_inv:
  assumes "placeable i m" "sp_inv i m x y ov best" "ov \<noteq> 0" "ov \<noteq> -1" "sp_step m i x y ov = (x', y')"
  shows "rx (maxRect m) \<le> x' \<and> ry (maxRect m) \<le> y' \<and>
    (\<not> iconified (cl m i) \<longrightarrow> (\<forall>a b. free_at i m a b \<longrightarrow> y' < b \<or> (b = y' \<and> x' \<le> a))) \<and>
    (y < y' \<and> y < r_bottom (maxRect m) \<or> y' = y \<and> x < x' \<and> x < r_right (maxRect m))"
proof -
  let ?cw = "rw (geometry (cl m i))" and ?ch = "vis_height (BORDER (opts m)) (cl m i)"
  have p: "0 < ?cw" "0 < ?ch" using assms(1) by (auto simp: placeable_def Let_def)
  have inv: "rx (maxRect m) \<le> x" "ry (maxRect m) \<le> y" "ov = -2 \<or> ov > 0"
    "\<not> iconified (cl m i) \<Longrightarrow> free_at i m a b \<Longrightarrow> y < b \<or> (b = y \<and> x \<le> a)" for a b
    using assms(2-4) by (auto simp: sp_inv_def Let_def)
  show ?thesis
  proof (cases "ov > 0")
    case True
    then have f: "fits i m x y" "overlap_at i m x y > 0" using assms(2) by (auto simp: sp_inv_def Let_def)
    then have x: "x < r_right (maxRect m)" using p by (auto simp: fits_def Let_def)
    have s: "x' = next_x (boxes m (sp_obstacle m i)) (r_right (maxRect m)) ?cw ?ch x y" "y' = y"
      using assms(5) True by (auto simp: sp_step_def Let_def)
    have "x < x'" unfolding s by (rule next_x(1)[OF x])
    moreover have "y < b \<or> (b = y \<and> x' \<le> a)" if "\<not> iconified (cl m i)" "free_at i m a b" for a b
      using inv(4)[OF that] free_after_x[OF assms(1) f(2,1)] that(2) unfolding s(1) by blast
    ultimately show ?thesis using inv(1,2) x s(2) by auto
  next
    case False
    then have o: "x + ?cw > r_right (maxRect m)" "y + ?ch \<le> r_bottom (maxRect m)"
      using assms(2) inv(3) by (auto simp: sp_inv_def Let_def)
    then have y: "y < r_bottom (maxRect m)" using p by simp
    have s: "y' = next_y (boxes m (sp_obstacle_y m i)) (r_bottom (maxRect m)) ?ch y" "x' = rx (maxRect m)"
      using assms(5) False by (auto simp: sp_step_def Let_def)
    have "y < y'" unfolding s by (rule next_y(1)[OF y])
    moreover have "y' \<le> b \<and> x' \<le> a" if n: "\<not> iconified (cl m i)" "free_at i m a b" for a b
    proof -
      have no: "\<not> free_at i m a' y" for a'
        using inv(4)[OF n(1), of a' y] o(1) by (auto simp: free_at_def fits_def Let_def)
      have "y < b" using inv(4)[OF n] no n(2) by auto
      then show ?thesis using free_after_y[OF assms(1) n(1) inv(2) o(2) no n(2)] n(2) s
        by (simp add: free_at_def fits_def Let_def)
    qed
    ultimately show ?thesis using inv(2) y s(2) by fastforce
  qed
qed

lemma sp_loop_finds:
  assumes "placeable i m" "sp_inv i m x y ov best"
  shows "\<exists>om xo yo. sp_loop m i x y ov best = Some (om, xo, yo) \<and> best_ok i m (om, xo, yo) \<and>
    (\<not> iconified (cl m i) \<and> (\<exists>a b. free_at i m a b) \<longrightarrow> om = 0)"
  using assms(2)
proof (induction "(nat (r_bottom (maxRect m) + 1 - y), nat (r_right (maxRect m) + 1 - x))" arbitrary: x y ov best
    rule: wf_induct[OF wf_lex_prod[OF wf_less_than wf_less_than], consumes 0])
  case (1 x y ov best)
  show ?case
  proof (cases "ov = 0 \<or> ov = -1")
    case True
    then have "\<not> iconified (cl m i) \<and> (\<exists>a b. free_at i m a b) \<longrightarrow> fst best = 0"
      using "1.prems" by (fastforce simp: sp_inv_def free_at_def fits_def Let_def)
    then show ?thesis using True "1.prems" by (cases best) (simp add: sp_loop.simps sp_inv_def Let_def)
  next
    case False
    obtain x' y' where s: "sp_step m i x y ov = (x', y')" by fastforce
    let ?ov = "spGetOverlap m i x' y' (fst best)"
    let ?best = "if 0 \<le> ?ov \<and> ?ov < fst best then (?ov, x', y') else best"
    note st = sp_step_inv[OF assms(1) "1.prems" _ _ s]
    have st: "rx (maxRect m) \<le> x'" "ry (maxRect m) \<le> y'"
      "\<not> iconified (cl m i) \<longrightarrow> (\<forall>a b. free_at i m a b \<longrightarrow> y' < b \<or> (b = y' \<and> x' \<le> a))"
      "y < y' \<and> y < r_bottom (maxRect m) \<or> y' = y \<and> x < x' \<and> x < r_right (maxRect m)"
      using st False by auto
    note g = spGetOverlap[OF assms(1) st(1,2) refl, of "fst best"]
    have bo: "best_ok i m best" using "1.prems" by (simp add: sp_inv_def Let_def)
    have nn: "fst best \<ge> 0" if "?ov \<ge> 0"
    proof (rule ccontr)
      assume "\<not> ?thesis"
      then have "\<not> fits i m (rx (maxRect m)) (ry (maxRect m))" using bo by (cases best) (auto simp: best_ok_def Let_def)
      moreover have "fits i m x' y'" using g that by blast
      ultimately show False using fits_leftmost by blast
    qed
    have "best_ok i m ?best" using bo g by (cases best) (auto simp: best_ok_def Let_def)
    moreover have "?ov = 0 \<longrightarrow> fst ?best = 0" using nn by auto
    ultimately have inv: "sp_inv i m x' y' ?ov ?best" using st g by (simp add: sp_inv_def Let_def)
    have "((nat (r_bottom (maxRect m) + 1 - y'), nat (r_right (maxRect m) + 1 - x')),
        nat (r_bottom (maxRect m) + 1 - y), nat (r_right (maxRect m) + 1 - x)) \<in> less_than <*lex*> less_than"
      using st(4) by auto
    from "1.hyps"[rule_format, OF this _ inv] show ?thesis
      using False by (subst sp_loop.simps) (simp add: s Let_def)
  qed
qed

subsection \<open>Properties of the placement\<close>

lemma sp_start:
  assumes "placeable i m" "ov = spGetOverlap m i (rx (maxRect m)) (ry (maxRect m)) (-1)"
  shows "sp_inv i m (rx (maxRect m)) (ry (maxRect m)) ov (ov, rx (maxRect m), ry (maxRect m))"
proof -
  let ?left = "rx (maxRect m)" and ?up = "ry (maxRect m)"
  note g = spGetOverlap[OF assms(1) order.refl order.refl assms(2)]
  have early: "?up < b \<or> (b = ?up \<and> ?left \<le> a)" if "free_at i m a b" for a b
    using that by (auto simp: free_at_def fits_def Let_def)
  have "fits i m ?left ?up \<Longrightarrow> ov \<noteq> -1 \<and> ov \<noteq> -2" using g by (auto simp: fits_def Let_def)
  then have "ov < 0 \<Longrightarrow> \<not> fits i m ?left ?up" using g by linarith
  moreover have "ov \<ge> 0 \<Longrightarrow> fits i m ?left ?up \<and> ov = overlap_at i m ?left ?up" using g by blast
  ultimately have "best_ok i m (ov, ?left, ?up)" by (simp add: best_ok_def Let_def)
  then show ?thesis using g early unfolding sp_inv_def Let_def by simp
qed

lemma sp_interactive_frame:
  assumes "placeable i m"
  shows "\<exists>P. sp_interactive om m = Some (m\<lparr>opts := (opts m)\<lparr>Placement := P\<rparr>\<rparr>)"
proof (cases "interactive_trigger (opts m) < 0")
  case True
  have "m\<lparr>opts := (opts m)\<lparr>Placement := Placement (opts m)\<rparr>\<rparr> = m" by simp
  then show ?thesis using True by (intro exI[of _ "Placement (opts m)"]) (simp add: sp_interactive_def)
next
  case False
  then have "to_int32 (rh (maxRect m) * rw (maxRect m)) \<noteq> 0" using assms by (simp add: placeable_def Let_def)
  then show ?thesis using False by (simp only: sp_interactive_def Let_def if_False) blast
qed

lemma smartPlacement_place:
  assumes "placeable i m"
  shows "\<exists>P om xo yo. smartPlacement i m = Some (upd_client i (upd_geometry (moveTopLeft xo yo)) (m\<lparr>opts := (opts m)\<lparr>Placement := P\<rparr>\<rparr>)) \<and>
    best_ok i m (om, xo, yo) \<and> (\<not> iconified (cl m i) \<and> (\<exists>a b. free_at i m a b) \<longrightarrow> om = 0)"
proof -
  obtain om xo yo where l: "sp_loop m i (rx (maxRect m)) (ry (maxRect m)) (spGetOverlap m i (rx (maxRect m)) (ry (maxRect m)) (-1))
      (spGetOverlap m i (rx (maxRect m)) (ry (maxRect m)) (-1), rx (maxRect m), ry (maxRect m)) = Some (om, xo, yo)"
    "best_ok i m (om, xo, yo)" "\<not> iconified (cl m i) \<and> (\<exists>a b. free_at i m a b) \<longrightarrow> om = 0"
    using sp_loop_finds[OF assms sp_start[OF assms refl]] by blast
  obtain P where "sp_interactive om m = Some (m\<lparr>opts := (opts m)\<lparr>Placement := P\<rparr>\<rparr>)" using sp_interactive_frame[OF assms] by blast
  then have "smartPlacement i m = Some (upd_client i (upd_geometry (moveTopLeft xo yo)) (m\<lparr>opts := (opts m)\<lparr>Placement := P\<rparr>\<rparr>))"
    using l(1) by (simp add: smartPlacement_def Let_def)
  then show ?thesis using l(2,3) by blast
qed

text \<open>C13: Smart placement always returns; it moves the new window only; whenever there is any free place for it on the desktop, not only one at
  the edges that the search looks at, the window is put at a free place; and if it fits at all, it lies within the area and overlaps
  the others by no more than in the upper left corner.\<close>

theorem smartPlacement_finds_room:
  assumes "placeable i m" "\<not> iconified (cl m i)"
  shows "\<exists>m'. smartPlacement i m = Some m' \<and> (let x = rx (geometry (cl m' i)); y = ry (geometry (cl m' i)) in
    cl m' i = upd_geometry (moveTopLeft x y) (cl m i) \<and> (\<forall>j. j \<noteq> i \<longrightarrow> cl m' j = cl m j) \<and>
    ((\<exists>a b. free_at i m a b) \<longrightarrow> free_at i m x y) \<and>
    (fits i m (rx (maxRect m)) (ry (maxRect m)) \<longrightarrow>
       fits i m x y \<and> overlap_at i m x y \<le> overlap_at i m (rx (maxRect m)) (ry (maxRect m))))"
proof -
  obtain P om xo yo where
    s: "smartPlacement i m = Some (upd_client i (upd_geometry (moveTopLeft xo yo)) (m\<lparr>opts := (opts m)\<lparr>Placement := P\<rparr>\<rparr>))"
    and b: "best_ok i m (om, xo, yo)" "(\<exists>a b. free_at i m a b) \<Longrightarrow> om = 0"
    using smartPlacement_place[OF assms(1)] assms(2) by blast
  show ?thesis
    using s b placeable_total[OF assms(1), of xo yo]
    by (auto simp: Let_def best_ok_def moveTopLeft_def comp_def)
qed

theorem smartPlacement_finds_room_witness:
  "\<exists>m'. smartPlacement 1 (a_manager [a_client 0 0 500 400, a_client 10 10 400 150]) = Some m' \<and>
     free_at 1 (a_manager [a_client 0 0 500 400, a_client 10 10 400 150]) (rx (geometry (cl m' 1))) (ry (geometry (cl m' 1)))"
proof -
  let ?m = "a_manager [a_client 0 0 500 400, a_client 10 10 400 150]"
  have p: "placeable 1 ?m"
    by (simp add: placeable_def Let_def a_manager_defs vis_height_def)
  have f: "free_at 1 ?m 0 400" by code_simp
  have "\<not> iconified (cl ?m 1)" by (simp add: a_manager_defs)
  from smartPlacement_finds_room[OF p this] f show ?thesis by (metis (no_types, lifting))
qed

lemma sp_interactive_overflow:
  "interactive_trigger (opts m) = 50 \<Longrightarrow> rw (maxRect m) = 800 \<Longrightarrow> rh (maxRect m) = 600 \<Longrightarrow>
   sp_interactive 30000000 m = Some (m\<lparr>opts := (opts m)\<lparr>Placement := SMART_PLACEMENT\<rparr>\<rparr>)"
  by (simp add: sp_interactive_def to_int32_def signed_divide_int_def)

text \<open>The static arrays of the cascade have eight entries, but kwm allows 32 desktops: on the ninth desktop and beyond, cascading
  a new window or all windows accesses memory outside of them.\<close>

theorem cascade_ninth_desktop:
  assumes "current_desktop m > 8"
  shows "(Placement (opts m) = CASCADE_PLACEMENT \<and> interactive_trigger (opts m) < 0 \<longrightarrow> doPlacement i m = None) \<and>
    (clients m \<noteq> [] \<longrightarrow> deskCascade m = None)"
  using assms by (auto simp: doPlacement_def deskCascade_def cascadePlacement_def Let_def split: list.split)

theorem cascade_ninth_desktop_witness:
  "doPlacement 0 ((a_manager [a_client 0 0 10 10])\<lparr>current_desktop := 9, opts := some_opts\<lparr>Placement := CASCADE_PLACEMENT\<rparr>\<rparr>) = None"
  using cascade_ninth_desktop[of "(a_manager [a_client 0 0 10 10])\<lparr>current_desktop := 9, opts := some_opts\<lparr>Placement := CASCADE_PLACEMENT\<rparr>\<rparr>" 0]
  by (simp add: some_opts_def)

text \<open>What rearranging keeps.\<close>

definition moved :: "manager \<Rightarrow> manager \<Rightarrow> bool" where
  "moved m m' \<longleftrightarrow> clients m' = clients m \<and> region m' = region m \<and> current_desktop m' = current_desktop m \<and> menubar m' = menubar m \<and>
     BORDER (opts m') = BORDER (opts m) \<and> interactive_trigger (opts m') = interactive_trigger (opts m) \<and>
     (\<forall>j. \<exists>x y. cl m' j = upd_geometry (moveTopLeft x y) (cl m j))"

lemma moveTopLeft_same [simp]: "upd_geometry (moveTopLeft (rx (geometry c)) (ry (geometry c))) c = c"
  by (simp add: upd_geometry_def moveTopLeft_def)

lemma moveTopLeft_twice [simp]: "moveTopLeft x y \<circ> moveTopLeft x' y' = moveTopLeft x y"
  by (simp add: moveTopLeft_def fun_eq_iff)

lemma moved_refl: "moved m m"
  unfolding moved_def by (metis moveTopLeft_same)

lemma moved_trans: "moved m m' \<Longrightarrow> moved m' m'' \<Longrightarrow> moved m m''"
  unfolding moved_def by (metis moveTopLeft_twice upd_geometry_simps(8))

lemma moved_same:
  assumes "moved m m'"
  shows "maxRect m' = maxRect m" "rw (geometry (cl m' j)) = rw (geometry (cl m j))" "vis_height b (cl m' j) = vis_height b (cl m j)"
    "desk_skips m' j = desk_skips m j"
    "placeable j m' = placeable j m" "fits j m' x y = fits j m x y" "iconified (cl m' j) = iconified (cl m j)"
proof -
  have c: "\<exists>x y. cl m' j = upd_geometry (moveTopLeft x y) (cl m j)" for j using assms by (simp add: moved_def)
  have s: "clients m' = clients m" "region m' = region m" "current_desktop m' = current_desktop m" "menubar m' = menubar m"
    "BORDER (opts m') = BORDER (opts m)" "interactive_trigger (opts m') = interactive_trigger (opts m)" using assms by (simp_all add: moved_def)
  show r: "maxRect m' = maxRect m" by (simp add: maxRect_def s)
  show w: "rw (geometry (cl m' j)) = rw (geometry (cl m j))" for j using c[of j] by (auto simp: moveTopLeft_def)
  have h: "vis_height b (cl m' j) = vis_height b (cl m j)" for b j using c[of j] by (auto simp: moveTopLeft_def vis_height_def)
  show "vis_height b (cl m' j) = vis_height b (cl m j)" by (rule h)
  show "desk_skips m' j = desk_skips m j" "iconified (cl m' j) = iconified (cl m j)"
    using c[of j] s by (auto simp: desk_skips_def isOnDesktop_def upd_geometry_def)
  show "placeable j m' = placeable j m" by (simp add: placeable_def w h s r)
  show "fits j m' x y = fits j m x y" by (simp add: fits_def w h s r)
qed

lemma smartPlacement_moved:
  assumes "placeable i m" "\<not> iconified (cl m i)" "interactive_trigger (opts m) < 0"
  shows "\<exists>m'. smartPlacement i m = Some m' \<and> moved m m' \<and> (\<forall>j. j \<noteq> i \<longrightarrow> cl m' j = cl m j) \<and> log m' = log m \<and>
    (fits i m (rx (maxRect m)) (ry (maxRect m)) \<longrightarrow> fits i m (rx (geometry (cl m' i))) (ry (geometry (cl m' i))))"
proof -
  obtain P om xo yo where
    s: "smartPlacement i m = Some (upd_client i (upd_geometry (moveTopLeft xo yo)) (m\<lparr>opts := (opts m)\<lparr>Placement := P\<rparr>\<rparr>))"
    and b: "best_ok i m (om, xo, yo)"
    using smartPlacement_place[OF assms(1)] by blast
  let ?m = "upd_client i (upd_geometry (moveTopLeft xo yo)) (m\<lparr>opts := (opts m)\<lparr>Placement := P\<rparr>\<rparr>)"
  have "\<exists>x y. cl ?m j = upd_geometry (moveTopLeft x y) (cl m j)" for j
    by (cases "j = i") (auto, metis moveTopLeft_same)
  then have "moved m ?m" by (simp add: moved_def)
  then show ?thesis using s b by (auto simp: best_ok_def Let_def moveTopLeft_def)
qed

lemma unclutter_loop:
  assumes "\<forall>l\<in>set ls. \<not> desk_skips m l \<longrightarrow> placeable l m" "distinct ls" "interactive_trigger (opts m) < 0"
  shows "\<exists>m'. unclutter_loop ls m = Some m' \<and> moved m m' \<and> (\<forall>j. j \<notin> set ls \<or> desk_skips m j \<longrightarrow> cl m' j = cl m j) \<and>
    log m' = log m @ map SendConfig (filter (\<lambda>l. \<not> desk_skips m l) ls) \<and>
    (\<forall>j\<in>set ls. \<not> desk_skips m j \<and> fits j m (rx (maxRect m)) (ry (maxRect m)) \<longrightarrow>
       fits j m (rx (geometry (cl m' j))) (ry (geometry (cl m' j))))"
  using assms
proof (induction ls arbitrary: m)
  case Nil
  then show ?case by (simp add: moved_refl)
next
  case (Cons l ls)
  show ?case
  proof (cases "desk_skips m l")
    case True
    from Cons.IH[of m] Cons.prems obtain m' where m': "unclutter_loop ls m = Some m'" "moved m m'"
      "\<forall>j. j \<notin> set ls \<or> desk_skips m j \<longrightarrow> cl m' j = cl m j"
      "log m' = log m @ map SendConfig (filter (\<lambda>l. \<not> desk_skips m l) ls)"
      "\<forall>j\<in>set ls. \<not> desk_skips m j \<and> fits j m (rx (maxRect m)) (ry (maxRect m)) \<longrightarrow>
        fits j m (rx (geometry (cl m' j))) (ry (geometry (cl m' j)))"
      by auto
    then show ?thesis using True by (intro exI[of _ m']) auto
  next
    case False
    have "\<not> iconified (cl m l)" using False by (simp add: desk_skips_def)
    with smartPlacement_moved[of l m] False Cons.prems obtain m1 where m1: "smartPlacement l m = Some m1" "moved m m1"
      "\<forall>j. j \<noteq> l \<longrightarrow> cl m1 j = cl m j" "log m1 = log m"
      "fits l m (rx (maxRect m)) (ry (maxRect m)) \<longrightarrow> fits l m (rx (geometry (cl m1 l))) (ry (geometry (cl m1 l)))"
      by auto
    let ?m1 = "sendConfig l m1"
    have mv: "moved m ?m1" using m1(2) by (simp add: moved_def sendConfig_def event_def)
    note sm = moved_same[OF mv]
    have "interactive_trigger (opts ?m1) < 0" using mv Cons.prems(3) by (simp add: moved_def)
    from Cons.IH[OF _ _ this] Cons.prems(1,2) obtain m' where m': "unclutter_loop ls ?m1 = Some m'" "moved ?m1 m'"
      "\<forall>j. j \<notin> set ls \<or> desk_skips ?m1 j \<longrightarrow> cl m' j = cl ?m1 j"
      "log m' = log ?m1 @ map SendConfig (filter (\<lambda>l. \<not> desk_skips m l) ls)"
      "\<forall>j\<in>set ls. \<not> desk_skips m j \<and> fits j m (rx (maxRect m)) (ry (maxRect m)) \<longrightarrow>
        fits j m (rx (geometry (cl m' j))) (ry (geometry (cl m' j)))"
      unfolding sm by (metis distinct.simps(2) list.set_intros(2))
    have "cl m' l = cl m1 l" using m'(3) Cons.prems(2) by (simp add: sendConfig_def event_def)
    moreover have "\<forall>j. desk_skips m j \<longrightarrow> cl m1 j = cl m j" using m1(3) False by metis
    ultimately show ?thesis
      using m' m1 False moved_trans[OF mv m'(2)] sm(4) Cons.prems(2) by (auto simp: sendConfig_def event_def)
  qed
qed

text \<open>Uncluttering the desktop always returns, moves only windows of the desktop that are not sticky, iconified or the menu bar, puts each of them that fits
  into the area, sends each its new configuration, from the last window to the first, and leaves the option for interactive placement as it was.\<close>

theorem deskUnclutter_places:
  assumes "\<forall>l\<in>set (clients m). \<not> desk_skips m l \<longrightarrow> placeable l m" "distinct (clients m)"
  shows "\<exists>m'. deskUnclutter m = Some m' \<and> clients m' = clients m \<and>
    interactive_trigger (opts m') = max (-1) (interactive_trigger (opts m)) \<and>
    (\<forall>j. j \<notin> set (clients m) \<or> desk_skips m j \<longrightarrow> cl m' j = cl m j) \<and>
    (\<forall>j. \<exists>x y. cl m' j = upd_geometry (moveTopLeft x y) (cl m j)) \<and>
    log m' = log m @ map SendConfig (filter (\<lambda>l. \<not> desk_skips m l) (rev (clients m))) \<and>
    (\<forall>j\<in>set (clients m). \<not> desk_skips m j \<and> fits j m (rx (maxRect m)) (ry (maxRect m)) \<longrightarrow>
       fits j m (rx (geometry (cl m' j))) (ry (geometry (cl m' j))))"
proof -
  define m0 where "m0 = (if interactive_trigger (opts m) \<ge> 0 then m\<lparr>opts := (opts m)\<lparr>interactive_trigger := -1\<rparr>\<rparr> else m)"
  have s: "cl m0 = cl m" "clients m0 = clients m" "log m0 = log m" "maxRect m0 = maxRect m" "interactive_trigger (opts m0) < 0"
    "desk_skips m0 l = desk_skips m l" "fits l m0 x y = fits l m x y" for l x y
    by (auto simp: m0_def maxRect_def desk_skips_def fits_def)
  have "placeable l m \<Longrightarrow> placeable l m0" for l by (auto simp: placeable_def m0_def Let_def maxRect_def)
  then have "\<forall>l\<in>set (rev (clients m)). \<not> desk_skips m0 l \<longrightarrow> placeable l m0" using assms(1) s by auto
  from unclutter_loop[OF this _ s(5)] assms(2) obtain m' where m': "unclutter_loop (rev (clients m)) m0 = Some m'" "moved m0 m'"
    "\<forall>j. j \<notin> set (clients m) \<or> desk_skips m j \<longrightarrow> cl m' j = cl m j"
    "log m' = log m @ map SendConfig (filter (\<lambda>l. \<not> desk_skips m l) (rev (clients m)))"
    "\<forall>j\<in>set (clients m). \<not> desk_skips m j \<and> fits j m (rx (maxRect m)) (ry (maxRect m)) \<longrightarrow>
       fits j m (rx (geometry (cl m' j))) (ry (geometry (cl m' j)))"
    unfolding s by auto
  have "deskUnclutter m = Some (m'\<lparr>opts := (opts m')\<lparr>interactive_trigger := if interactive_trigger (opts m) \<ge> 0 then interactive_trigger (opts m) else -1\<rparr>\<rparr>)"
    using m'(1) by (cases "interactive_trigger (opts m) \<ge> 0") (simp_all add: deskUnclutter_def m0_def)
  then show ?thesis using m' s(1,2) by (auto simp: moved_def)
qed

theorem deskUnclutter_places_witness:
  "\<exists>m'. deskUnclutter (a_manager [a_client 0 0 500 400, a_client 10 10 400 150]) = Some m' \<and>
     fits 1 (a_manager [a_client 0 0 500 400, a_client 10 10 400 150]) (rx (geometry (cl m' 1))) (ry (geometry (cl m' 1)))"
proof -
  let ?m = "a_manager [a_client 0 0 500 400, a_client 10 10 400 150]"
  have l: "[0..<2] = [0::nat, 1]" by (simp add: upt_rec)
  have a: "\<forall>l\<in>set (clients ?m). \<not> desk_skips ?m l \<longrightarrow> placeable l ?m" "distinct (clients ?m)"
    by (auto simp: placeable_def Let_def a_manager_defs vis_height_def less_Suc_eq)
  have "1 \<in> set (clients ?m)" "\<not> desk_skips ?m 1" "fits 1 ?m (rx (maxRect ?m)) (ry (maxRect ?m))"
    by (simp_all add: a_manager_defs desk_skips_def isOnDesktop_def fits_def maxRect_def r_right_def r_bottom_def vis_height_def Let_def)
  then show ?thesis using deskUnclutter_places[OF a] by blast
qed

end
