(* ===== verification/KwmStack.thy ===== *)
theory KwmStack
  imports KwmPlace
begin

section \<open>The window manager kwm: the order of the windows\<close>

text \<open>
  The lists of clients in \<open>kwm/manager.C\<close>: \<open>clients_sorted\<close> is the stacking order, lowest first, \<open>clients_traversing\<close> the order in
  which they had the focus. \<open>removeRef\<close> of \<open>QList\<close> removes the first occurrence. A window and its main window are related by the hints
  \<open>trans\<close> (transient for) and \<open>leader\<close> that clients set as they like, so \<open>mainClient\<close> may never return.
\<close>

subsection \<open>Operations\<close>

definition getClient :: "manager \<Rightarrow> xwindow \<Rightarrow> client_id option" where
  "getClient m w = find (\<lambda>i. window (cl m i) = w \<or> winId (cl m i) = w) (clients m)"

partial_function (option) mainClient :: "manager \<Rightarrow> client_id \<Rightarrow> client_id option" where
  "mainClient m i =
     (let c = cl m i
      in if trans c \<noteq> 0 \<and> trans c \<noteq> rootwin m \<and> trans c \<noteq> window c
         then (case getClient m (trans c) of Some j \<Rightarrow> mainClient m j | None \<Rightarrow> Some i)
         else if leader c \<noteq> 0 \<and> leader c \<noteq> window c
         then (case getClient m (leader c) of Some j \<Rightarrow> mainClient m j | None \<Rightarrow> Some i)
         else Some i)"

declare mainClient.simps [code]

definition isDialog :: "manager \<Rightarrow> client_id \<Rightarrow> bool option" where
  "isDialog m i = map_option (\<lambda>j. j \<noteq> i) (mainClient m i)"

definition belongs_to :: "manager \<Rightarrow> client_id \<Rightarrow> client_id \<Rightarrow> bool" where
  "belongs_to m cc ccc \<longleftrightarrow> trans (cl m cc) = window (cl m ccc) \<or> leader (cl m cc) = window (cl m ccc)"

definition removeRefs :: "client_id list \<Rightarrow> client_id list \<Rightarrow> client_id list" where
  "removeRefs xs l = fold remove1 xs l"

text \<open>One round of the \<open>do\<close> loop: a window that belongs to two of \<open>tmp\<close> is found twice.\<close>

definition next_round :: "manager \<Rightarrow> client_id list \<Rightarrow> client_id list \<Rightarrow> client_id list" where
  "next_round m sorted_tmp tmp = concat (map (\<lambda>cc. concat (map (\<lambda>ccc. if belongs_to m cc ccc then [cc] else []) tmp)) sorted_tmp)"

function raise_rounds :: "manager \<Rightarrow> client_id list \<Rightarrow> client_id list \<Rightarrow> client_id list \<Rightarrow> client_id list" where
  "raise_rounds m sorted_tmp tmp tmp2 =
     (let sorted_tmp = removeRefs tmp2 sorted_tmp; tmp = tmp @ tmp2; tmp2 = next_round m sorted_tmp tmp
      in if tmp2 = [] then tmp else raise_rounds m sorted_tmp tmp tmp2)"
  by pat_completeness auto

lemma removeRefs_length: "length (removeRefs xs l) \<le> length l"
  by (induction xs arbitrary: l) (simp_all add: removeRefs_def, metis le_trans length_remove1 diff_le_self order.refl)

lemma removeRefs_shorter: "set xs \<inter> set l \<noteq> {} \<Longrightarrow> length (removeRefs xs l) < length l"
proof (induction xs arbitrary: l)
  case (Cons x xs)
  have step: "removeRefs (x # xs) l = removeRefs xs (remove1 x l)" by (simp add: removeRefs_def)
  show ?case
  proof (cases "x \<in> set l")
    case True
    then have "length (remove1 x l) < length l" using length_pos_if_in_set[OF True] by (simp add: length_remove1)
    then show ?thesis using removeRefs_length[of xs "remove1 x l"] unfolding step by simp
  next
    case False
    then show ?thesis using Cons unfolding step by (simp add: remove1_idem)
  qed
qed simp

lemma next_round_set: "set (next_round m l tmp) = {cc \<in> set l. \<exists>ccc\<in>set tmp. belongs_to m cc ccc}"
  by (auto simp: next_round_def split: if_splits)

termination raise_rounds
proof (relation "measure (\<lambda>(m, sorted_tmp, tmp, tmp2). length sorted_tmp + (if set tmp2 \<inter> set sorted_tmp = {} then 1 else 0))")
  fix m l tmp tmp2 l' tmp' tmp2'
  assume a: "l' = removeRefs tmp2 l" "tmp' = tmp @ tmp2" "tmp2' = next_round m l' tmp'" "tmp2' \<noteq> []"
  have "set tmp2' \<subseteq> set l'" using a(3) next_round_set[of m l' tmp'] by auto
  then have "set tmp2' \<inter> set l' \<noteq> {}" using a(4) by (simp add: Int_absorb2)
  then show "((m, l', tmp', tmp2'), m, l, tmp, tmp2) \<in>
      measure (\<lambda>(m, sorted_tmp, tmp, tmp2). length sorted_tmp + (if set tmp2 \<inter> set sorted_tmp = {} then 1 else 0))"
    using removeRefs_length[of tmp2 l] removeRefs_shorter[of tmp2 l] a(1) by auto
qed simp

definition raise_list :: "bool \<Rightarrow> manager \<Rightarrow> client_id \<Rightarrow> client_id list" where
  "raise_list ignore m i =
     (let tmp = raise_rounds m (remove1 i (clients_sorted m)) [i] []
      in if ignore then tmp
         else fold (\<lambda>c tmp. if stays_on_top (cl m c) \<and> c \<notin> set tmp then tmp @ [c] else tmp) (clients_sorted m) tmp)"

fun do_raise :: "client_id list \<Rightarrow> manager \<Rightarrow> manager" where
  "do_raise [] m = m"
| "do_raise (c # cs) m = do_raise cs (sendToModules ModuleRaise c (m\<lparr>clients_sorted := remove1 c (clients_sorted m) @ [c]\<rparr>))"

definition current :: "manager \<Rightarrow> client_id option" where
  "current m = (if clients_traversing m \<noteq> [] \<and> is_active (cl m (last (clients_traversing m)))
     then Some (last (clients_traversing m)) else None)"

definition raiseClient :: "client_id \<Rightarrow> manager \<Rightarrow> manager option" where
  "raiseClient i m = do {
     main \<leftarrow> (if stays_on_top (cl m i) then Some i else mainClient m i);
     let ignore = stays_on_top (cl m i) \<or> stays_on_top (cl m main);
     let tmp = raise_list ignore m i;
     let m = do_raise tmp m;
     Some (event (Restack ((if ignore then [] else rev (top_windows m)) @
       (if GimmickMode (opts m) \<and> current m = Some (hd tmp) \<and> gimmick m \<noteq> 0 then [gimmick m] else []) @
       rev (map (\<lambda>c. winId (cl m c)) tmp))) m) }"

text \<open>\<open>tree\<close> is the answer of \<open>XQueryTree\<close> for the root window with, for each window, whether it has the decoration of an icon of the desktop,
  and its geometry.\<close>

definition rects_meet :: "qrect \<Rightarrow> qrect \<Rightarrow> bool" where
  "rects_meet a b \<longleftrightarrow> (rx a \<le> rx b \<and> r_right b \<le> r_right a \<and> ry a \<le> ry b \<and> r_bottom b \<le> r_bottom a) \<or>
     max (rx a) (rx b) \<le> min (r_right a) (r_right b) \<and> max (ry a) (ry b) \<le> min (r_bottom a) (r_bottom b)"

definition lowerClient :: "(xwindow \<times> bool \<times> qrect) list \<Rightarrow> client_id \<Rightarrow> manager \<Rightarrow> manager" where
  "lowerClient tree i m =
     (let m = sendToModules ModuleLower i (m\<lparr>clients_sorted := i # remove1 i (clients_sorted m)\<rparr>);
          icons = filter (\<lambda>(w, icon, r). getClient m w = None \<and> icon) tree;
          hide = map fst (filter (\<lambda>(w, icon, r). rects_meet (geometry (cl m i)) r) icons);
          stack = (if GimmickMode (opts m) \<and> current m = Some i \<and> gimmick m \<noteq> 0 then [gimmick m] else []) @
            winId (cl m i) # map fst icons
      in m\<lparr>log := log m @ map UnmapWindow hide @ [Restack stack] @ map MapWindow hide\<rparr>)"

definition addClient :: "client_id \<Rightarrow> manager \<Rightarrow> manager" where
  "addClient i m = m\<lparr>clients := clients m @ [i], clients_sorted := clients_sorted m @ [i],
     clients_traversing := (if hidden_for_modules (cl m i) then clients_traversing m else i # clients_traversing m)\<rparr>"

text \<open>The walks through a list: the one after \<open>c\<close>, or the first one.\<close>

definition next_in :: "client_id list \<Rightarrow> client_id option \<Rightarrow> client_id option" where
  "next_in l c = (case c of None \<Rightarrow> (if l = [] then None else Some (hd l))
     | Some c \<Rightarrow> (case tl (dropWhile (\<lambda>x. x \<noteq> c) l) of
         x # _ \<Rightarrow> Some x
       | [] \<Rightarrow> (if l = [] then None else Some (hd l))))"

definition nextClient :: "manager \<Rightarrow> client_id option \<Rightarrow> client_id option" where
  "nextClient m = next_in (clients_traversing m)"

definition previousClient :: "manager \<Rightarrow> client_id option \<Rightarrow> client_id option" where
  "previousClient m = next_in (rev (clients_traversing m))"

definition nextStaticClient :: "manager \<Rightarrow> client_id option \<Rightarrow> client_id option" where
  "nextStaticClient m = next_in (clients m)"

definition previousStaticClient :: "manager \<Rightarrow> client_id option \<Rightarrow> client_id option" where
  "previousStaticClient m = next_in (rev (clients m))"

definition topClientOnDesktop :: "manager \<Rightarrow> client_id option" where
  "topClientOnDesktop m =
     find (\<lambda>i. isOnDesktop (current_desktop m) (cl m i) \<and> \<not> is_menubar (cl m i)) (rev (clients_sorted m))"

definition clientAtPosition :: "manager \<Rightarrow> int \<Rightarrow> int \<Rightarrow> client_id option" where
  "clientAtPosition m x y = find (\<lambda>i. r_contains (geometry (cl m i)) x y) (rev (clients_sorted m))"

definition killWindowAtPosition :: "int \<Rightarrow> int \<Rightarrow> manager \<Rightarrow> manager" where
  "killWindowAtPosition x y m =
     (case find (\<lambda>i. r_contains (geometry (cl m i)) x y \<and> isOnDesktop (current_desktop m) (cl m i) \<and> \<not> iconified (cl m i))
         (rev (clients_sorted m)) of
        None \<Rightarrow> m
      | Some i \<Rightarrow> event (KillWindow (window (cl m i))) m)"

subsection \<open>The main window\<close>

text \<open>The window that the hints name, if kwm knows it.\<close>

definition hinted :: "manager \<Rightarrow> client_id \<Rightarrow> client_id option" where
  "hinted m i = (let c = cl m i
     in if trans c \<noteq> 0 \<and> trans c \<noteq> rootwin m \<and> trans c \<noteq> window c then getClient m (trans c)
        else if leader c \<noteq> 0 \<and> leader c \<noteq> window c then getClient m (leader c) else None)"

definition hints_rel :: "manager \<Rightarrow> (client_id \<times> client_id) set" where
  "hints_rel m = {(i, j). hinted m i = Some j}"

lemma hinted_case:
  "(case hinted m i of Some j \<Rightarrow> f j | None \<Rightarrow> x) =
   (let c = cl m i
    in if trans c \<noteq> 0 \<and> trans c \<noteq> rootwin m \<and> trans c \<noteq> window c
       then (case getClient m (trans c) of Some j \<Rightarrow> f j | None \<Rightarrow> x)
       else if leader c \<noteq> 0 \<and> leader c \<noteq> window c
       then (case getClient m (leader c) of Some j \<Rightarrow> f j | None \<Rightarrow> x) else x)"
  by (simp add: hinted_def Let_def)

lemma mainClient_hinted: "mainClient m i = (case hinted m i of Some j \<Rightarrow> mainClient m j | None \<Rightarrow> Some i)"
  by (subst mainClient.simps) (simp only: hinted_case Let_def)

lemma getClient_known: "getClient m w = Some i \<Longrightarrow> i \<in> set (clients m)"
  by (auto simp: getClient_def find_Some_iff)

lemma hinted_known: "(i, j) \<in> hints_rel m \<Longrightarrow> j \<in> set (clients m)"
  by (auto simp: hints_rel_def hinted_def Let_def getClient_known split: if_splits)

lemma mainClient_result:
  assumes "mainClient m i = Some r"
  shows "hinted m r = None \<and> (i, r) \<in> (hints_rel m)\<^sup>* \<and> (\<forall>j. (i, j) \<in> (hints_rel m)\<^sup>* \<longrightarrow> (j, j) \<notin> (hints_rel m)\<^sup>+)"
proof (rule mainClient.raw_induct[where P = "\<lambda>m i r. hinted m r = None \<and> (i, r) \<in> (hints_rel m)\<^sup>* \<and>
    (\<forall>j. (i, j) \<in> (hints_rel m)\<^sup>* \<longrightarrow> (j, j) \<notin> (hints_rel m)\<^sup>+)", OF _ assms])
  fix f m i r
  let ?P = "\<lambda>m i r. hinted m r = None \<and> (i, r) \<in> (hints_rel m)\<^sup>* \<and> (\<forall>j. (i, j) \<in> (hints_rel m)\<^sup>* \<longrightarrow> (j, j) \<notin> (hints_rel m)\<^sup>+)"
  assume ih: "\<And>m i r. f m i = Some r \<Longrightarrow> ?P m i r" and b: "(let c = cl m i
      in if trans c \<noteq> 0 \<and> trans c \<noteq> rootwin m \<and> trans c \<noteq> window c
         then (case getClient m (trans c) of Some j \<Rightarrow> f m j | None \<Rightarrow> Some i)
         else if leader c \<noteq> 0 \<and> leader c \<noteq> window c
         then (case getClient m (leader c) of Some j \<Rightarrow> f m j | None \<Rightarrow> Some i)
         else Some i) = Some r"
  have body: "(case hinted m i of Some j \<Rightarrow> f m j | None \<Rightarrow> Some i) = Some r"
    using b by (simp only: hinted_case Let_def)
  show "?P m i r"
  proof (cases "hinted m i")
    case None
    then have no: "(i, k) \<notin> hints_rel m" for k by (simp add: hints_rel_def)
    have "i = j" if "(i, j) \<in> (hints_rel m)\<^sup>*" for j using that no by (blast elim: converse_rtranclE)
    moreover have "(i, i) \<notin> (hints_rel m)\<^sup>+" using no by (blast elim: converse_tranclE)
    ultimately show ?thesis using None body by auto
  next
    case (Some k)
    then have step: "(i, k) \<in> hints_rel m" and only: "(i, k') \<in> hints_rel m \<Longrightarrow> k' = k" for k' by (auto simp: hints_rel_def)
    have IH: "hinted m r = None" "(k, r) \<in> (hints_rel m)\<^sup>*" "\<And>j. (k, j) \<in> (hints_rel m)\<^sup>* \<Longrightarrow> (j, j) \<notin> (hints_rel m)\<^sup>+"
      using ih[of m k r] body Some by auto
    have "(i, i) \<notin> (hints_rel m)\<^sup>+"
    proof
      assume "(i, i) \<in> (hints_rel m)\<^sup>+"
      then have "(k, i) \<in> (hints_rel m)\<^sup>*" using only by (auto elim: converse_tranclE)
      from IH(3)[OF this] show False using \<open>(i, i) \<in> (hints_rel m)\<^sup>+\<close> by blast
    qed
    moreover have "j = i \<or> (k, j) \<in> (hints_rel m)\<^sup>*" if "(i, j) \<in> (hints_rel m)\<^sup>*" for j
      using that only by (metis converse_rtranclE)
    ultimately show ?thesis using IH step by (metis converse_rtrancl_into_rtrancl)
  qed
qed

lemma mainClient_returns:
  assumes "\<forall>j. (i, j) \<in> (hints_rel m)\<^sup>* \<longrightarrow> (j, j) \<notin> (hints_rel m)\<^sup>+"
  shows "\<exists>r. mainClient m i = Some r"
proof -
  let ?R = "{(a, b). (i, a) \<in> (hints_rel m)\<^sup>* \<and> (a, b) \<in> hints_rel m}"
  have "?R \<subseteq> insert i (set (clients m)) \<times> set (clients m)"
  proof -
    have "a \<in> insert i (set (clients m))" if "(i, a) \<in> (hints_rel m)\<^sup>*" for a
      using that by (cases rule: rtranclE) (auto dest: hinted_known)
    then show ?thesis by (auto dest: hinted_known)
  qed
  then have fin: "finite ?R" using finite_subset by fastforce
  have "acyclic ?R"
  proof (rule acyclicI, intro allI notI)
    fix a assume c: "(a, a) \<in> ?R\<^sup>+"
    have "?R\<^sup>+ \<subseteq> (hints_rel m)\<^sup>+" by (rule trancl_mono_subset) blast
    moreover have "(i, a) \<in> (hints_rel m)\<^sup>*" using c by (auto elim: converse_tranclE)
    ultimately show False using c assms by blast
  qed
  then have wf: "wf (?R\<inverse>)" using fin by (simp add: finite_acyclic_wf_converse)
  have "(i, a) \<in> (hints_rel m)\<^sup>* \<longrightarrow> (\<exists>r. mainClient m a = Some r)" for a
  proof (induction a rule: wf_induct[OF wf])
    case (1 a)
    show ?case
    proof (intro impI)
      assume a: "(i, a) \<in> (hints_rel m)\<^sup>*"
      show "\<exists>r. mainClient m a = Some r"
      proof (cases "hinted m a")
        case None
        then show ?thesis by (subst mainClient_hinted) simp
      next
        case (Some b)
        then have "(a, b) \<in> hints_rel m" by (simp add: hints_rel_def)
        then have "\<exists>r. mainClient m b = Some r" using 1 a by (auto intro: rtrancl_into_rtrancl)
        then show ?thesis using Some by (subst mainClient_hinted) simp
      qed
    qed
  qed
  then show ?thesis by blast
qed

text \<open>C33: \<open>mainClient\<close> returns exactly when the hints, followed from the window, do not run in a circle; it then returns a window that
  the hints lead to and that belongs to no other. Two windows that are transient for each other make kwm recurse forever.\<close>

theorem mainClient_returns_iff:
  "((\<exists>r. mainClient m i = Some r) \<longleftrightarrow> (\<forall>j. (i, j) \<in> (hints_rel m)\<^sup>* \<longrightarrow> (j, j) \<notin> (hints_rel m)\<^sup>+)) \<and>
   (\<forall>r. mainClient m i = Some r \<longrightarrow> hinted m r = None \<and> (i, r) \<in> (hints_rel m)\<^sup>*)"
  using mainClient_result mainClient_returns by blast

theorem mainClient_returns_iff_witness:
  "mainClient (a_manager [(a_client 0 0 9 9)\<lparr>window := 1, winId := 6, trans := 2\<rparr>, (a_client 0 0 9 9)\<lparr>window := 2, winId := 7, trans := 1\<rparr>]) 0 = None"
proof -
  let ?m = "a_manager [(a_client 0 0 9 9)\<lparr>window := 1, winId := 6, trans := 2\<rparr>, (a_client 0 0 9 9)\<lparr>window := 2, winId := 7, trans := 1\<rparr>]"
  have "hinted ?m 0 = Some 1" "hinted ?m 1 = Some 0" by code_simp+
  then have "(0, 1) \<in> hints_rel ?m" "(1, 0) \<in> hints_rel ?m" by (simp_all add: hints_rel_def)
  then have "(0, 0) \<in> (hints_rel ?m)\<^sup>+" by (meson trancl.simps)
  then have "\<not> (\<exists>r. mainClient ?m 0 = Some r)" using mainClient_returns_iff[of ?m 0] by blast
  then show ?thesis by (cases "mainClient ?m 0") simp_all
qed

subsection \<open>Raising\<close>

text \<open>The windows above the one raised: those that belong to it, directly or not.\<close>

definition retinue :: "manager \<Rightarrow> client_id \<Rightarrow> client_id set" where
  "retinue m i = {j. (i, j) \<in> {(b, a). a \<in> set (clients_sorted m) - {i} \<and> belongs_to m a b}\<^sup>+}"

lemma set_removeRefs: "distinct l \<Longrightarrow> set (removeRefs xs l) = set l - set xs \<and> distinct (removeRefs xs l)"
  by (induction xs arbitrary: l) (auto simp: removeRefs_def)

lemma raise_rounds_closure:
  assumes "distinct l" "set tmp2 \<subseteq> set l"
  shows "\<exists>zs. raise_rounds m l tmp tmp2 = tmp @ zs \<and> set tmp2 \<subseteq> set zs \<and> set zs \<subseteq> set l \<and>
    (\<forall>cc\<in>set l - set zs. \<forall>ccc\<in>set (tmp @ zs). \<not> belongs_to m cc ccc) \<and>
    (\<forall>z\<in>set zs. (\<exists>t\<in>set tmp2. (t, z) \<in> {(b, a). a \<in> set l \<and> belongs_to m a b}\<^sup>*) \<or>
       (\<exists>t\<in>set tmp. (t, z) \<in> {(b, a). a \<in> set l \<and> belongs_to m a b}\<^sup>+))"
  using assms
proof (induction m l tmp tmp2 rule: raise_rounds.induct)
  case (1 m l tmp tmp2)
  let ?l = "removeRefs tmp2 l" and ?tmp = "tmp @ tmp2" and ?R = "\<lambda>l. {(b, a). a \<in> set l \<and> belongs_to m a b}"
  let ?tmp2 = "next_round m ?l ?tmp"
  have l: "set ?l = set l - set tmp2" "distinct ?l" using set_removeRefs[OF "1.prems"(1)] by auto
  have n: "set ?tmp2 = {cc \<in> set ?l. \<exists>ccc\<in>set ?tmp. belongs_to m cc ccc}" by (rule next_round_set)
  show ?case
  proof (cases "?tmp2 = []")
    case True
    then have "raise_rounds m l tmp tmp2 = tmp @ tmp2" by (subst raise_rounds.simps) (simp add: Let_def)
    moreover have "\<forall>cc\<in>set l - set tmp2. \<forall>ccc\<in>set ?tmp. \<not> belongs_to m cc ccc" using n True l by fastforce
    ultimately show ?thesis using "1.prems"(2) by (intro exI[of _ tmp2]) auto
  next
    case False
    then have r: "raise_rounds m l tmp tmp2 = raise_rounds m ?l ?tmp ?tmp2" by (subst raise_rounds.simps) (simp add: Let_def)
    have "set ?tmp2 \<subseteq> set ?l" using n by auto
    from "1.IH"[OF refl refl refl False l(2) this] obtain zs where zs: "raise_rounds m ?l ?tmp ?tmp2 = ?tmp @ zs" "set zs \<subseteq> set ?l"
      "\<forall>cc\<in>set ?l - set zs. \<forall>ccc\<in>set (?tmp @ zs). \<not> belongs_to m cc ccc"
      "\<forall>z\<in>set zs. (\<exists>t\<in>set ?tmp2. (t, z) \<in> (?R ?l)\<^sup>*) \<or> (\<exists>t\<in>set ?tmp. (t, z) \<in> (?R ?l)\<^sup>+)" by blast
    have sub: "?R ?l \<subseteq> ?R l" using l by auto
    have "(\<exists>t\<in>set tmp2. (t, z) \<in> (?R l)\<^sup>*) \<or> (\<exists>t\<in>set tmp. (t, z) \<in> (?R l)\<^sup>+)" if z: "z \<in> set zs" for z
    proof -
      have "\<exists>t\<in>set ?tmp. (t, z) \<in> (?R ?l)\<^sup>+"
      proof (cases "\<exists>t\<in>set ?tmp2. (t, z) \<in> (?R ?l)\<^sup>*")
        case True
        then obtain t where t: "t \<in> set ?tmp2" "(t, z) \<in> (?R ?l)\<^sup>*" by blast
        then obtain t' where "t' \<in> set ?tmp" "(t', t) \<in> ?R ?l" using n by auto
        then show ?thesis using t(2) by (meson rtrancl_into_trancl2)
      next
        case False
        then show ?thesis using zs(4) z by blast
      qed
      then have "\<exists>t\<in>set ?tmp. (t, z) \<in> (?R l)\<^sup>+" using trancl_mono_subset[OF sub] by blast
      then show ?thesis by (auto intro: trancl_into_rtrancl)
    qed
    then show ?thesis using r zs l "1.prems"(2) by (intro exI[of _ "tmp2 @ zs"]) auto
  qed
qed

lemma raise_rounds_retinue:
  assumes "distinct (clients_sorted m)"
  shows "\<exists>zs. raise_rounds m (remove1 i (clients_sorted m)) [i] [] = i # zs \<and> set zs = retinue m i"
proof -
  let ?l = "remove1 i (clients_sorted m)" and ?R = "{(b, a). a \<in> set (clients_sorted m) - {i} \<and> belongs_to m a b}"
  have l: "distinct ?l" "set ?l = set (clients_sorted m) - {i}" using assms by simp_all
  from raise_rounds_closure[OF l(1), of "[]" m "[i]"] obtain zs where zs:
    "raise_rounds m ?l [i] [] = i # zs" "\<forall>cc\<in>set ?l - set zs. \<forall>ccc\<in>set (i # zs). \<not> belongs_to m cc ccc"
    "\<forall>z\<in>set zs. (i, z) \<in> ?R\<^sup>+" unfolding l(2) by auto
  have "z \<in> set zs" if "(i, z) \<in> ?R\<^sup>+" for z
    using that
  proof (induction rule: trancl_induct)
    case (base y)
    then show ?case using zs(2) l(2) by auto
  next
    case (step y z)
    then show ?case using zs(2) l(2) by auto
  qed
  then have "set zs = retinue m i" using zs(3) by (auto simp: retinue_def)
  then show ?thesis using zs(1) by blast
qed

lemma stays_on_top_fold:
  "distinct cs \<Longrightarrow> fold (\<lambda>c tmp. if P c \<and> c \<notin> set tmp then tmp @ [c] else tmp) cs tmp = tmp @ filter (\<lambda>c. P c \<and> c \<notin> set tmp) cs"
proof (induction cs arbitrary: tmp)
  case (Cons c cs)
  have "filter (\<lambda>x. P x \<and> x \<notin> set (tmp @ [c])) cs = filter (\<lambda>x. P x \<and> x \<notin> set tmp) cs"
    using Cons.prems by (intro filter_cong) auto
  then show ?case using Cons by auto
qed simp

lemma raise_order:
  "distinct s \<Longrightarrow> fold (\<lambda>c s. remove1 c s @ [c]) xs s = filter (\<lambda>l. l \<notin> set xs) s @ remdups xs"
proof (induction xs arbitrary: s)
  case (Cons x xs)
  have "distinct (remove1 x s @ [x])" using Cons.prems by simp
  from Cons.IH[OF this] show ?case
    using Cons.prems by (auto simp: distinct_remove1_removeAll removeAll_filter_not_eq intro!: filter_cong)
qed simp

lemma do_raise_frame:
  "clients_sorted (do_raise xs m) = fold (\<lambda>c s. remove1 c s @ [c]) xs (clients_sorted m)"
  "cl (do_raise xs m) = cl m" "clients (do_raise xs m) = clients m" "clients_traversing (do_raise xs m) = clients_traversing m"
  "current_desktop (do_raise xs m) = current_desktop m"
  by (induction xs arbitrary: m) simp_all

lemma raise_list_set:
  assumes "distinct (clients_sorted m)"
  shows "\<exists>ys. raise_list ignore m i = i # ys \<and> i \<notin> set ys \<and>
    set ys = retinue m i \<union> (if ignore then {} else {j \<in> set (clients_sorted m). stays_on_top (cl m j) \<and> j \<noteq> i})"
proof -
  obtain zs where zs: "raise_rounds m (remove1 i (clients_sorted m)) [i] [] = i # zs" "set zs = retinue m i"
    using raise_rounds_retinue[OF assms] by blast
  have ni: "i \<notin> retinue m i" by (auto simp: retinue_def elim: tranclE)
  let ?ys = "zs @ (if ignore then [] else filter (\<lambda>c. stays_on_top (cl m c) \<and> c \<notin> set (i # zs)) (clients_sorted m))"
  have "raise_list ignore m i = i # ?ys"
    using zs(1) stays_on_top_fold[OF assms, of "\<lambda>c. stays_on_top (cl m c)" "i # zs"] by (auto simp: raise_list_def Let_def)
  then show ?thesis using ni zs(2) by (intro exI[of _ ?ys]) auto
qed

lemma raiseClient_sorted:
  assumes "raiseClient i m = Some m'" "distinct (clients_sorted m)"
    and "ignore \<longleftrightarrow> stays_on_top (cl m i) \<or> (\<exists>r. mainClient m i = Some r \<and> stays_on_top (cl m r))"
    and "raise_list ignore m i = i # ys" "i \<notin> set ys"
  shows "clients_sorted m' = filter (\<lambda>l. l \<noteq> i \<and> l \<notin> set ys) (clients_sorted m) @ i # remdups ys"
    "cl m' = cl m" "clients m' = clients m" "clients_traversing m' = clients_traversing m"
proof -
  have sorted: "clients_sorted m' = fold (\<lambda>c s. remove1 c s @ [c]) (i # ys) (clients_sorted m)"
    using assms(1,3,4) by (auto simp: raiseClient_def do_raise_frame Let_def split: bind_splits if_splits)
  show "clients_sorted m' = filter (\<lambda>l. l \<noteq> i \<and> l \<notin> set ys) (clients_sorted m) @ i # remdups ys"
    unfolding sorted raise_order[OF assms(2)] using assms(5) by simp
  show "cl m' = cl m" "clients m' = clients m" "clients_traversing m' = clients_traversing m"
    using assms(1,3) by (auto simp: raiseClient_def do_raise_frame Let_def split: bind_splits if_splits)
qed

text \<open>C14: Raising a window: directly above it come the windows that belong to it, by any number of steps, and all windows that stay on top,
  unless it or its main window stays on top itself; below are all others in the order they had. Nothing else changes.\<close>

theorem raiseClient_stack:
  assumes "raiseClient i m = Some m'" "distinct (clients_sorted m)"
    and "ignore \<longleftrightarrow> stays_on_top (cl m i) \<or> (\<exists>r. mainClient m i = Some r \<and> stays_on_top (cl m r))"
  shows "\<exists>above. clients_sorted m' = filter (\<lambda>l. l \<noteq> i \<and> l \<notin> set above) (clients_sorted m) @ i # above \<and>
    distinct above \<and> i \<notin> set above \<and>
    set above = retinue m i \<union> (if ignore then {} else {j \<in> set (clients_sorted m). stays_on_top (cl m j)}) \<and>
    cl m' = cl m \<and> clients m' = clients m \<and> clients_traversing m' = clients_traversing m"
proof -
  obtain ys where ys: "raise_list ignore m i = i # ys" "i \<notin> set ys"
    "set ys = retinue m i \<union> (if ignore then {} else {j \<in> set (clients_sorted m). stays_on_top (cl m j) \<and> j \<noteq> i})"
    using raise_list_set[OF assms(2)] by blast
  then have "set ys = retinue m i \<union> (if ignore then {} else {j \<in> set (clients_sorted m). stays_on_top (cl m j)})"
    using assms(3) by auto
  then show ?thesis using raiseClient_sorted[OF assms ys(1,2)] ys(2) by (intro exI[of _ "remdups ys"]) auto
qed

text \<open>Window 1 is a dialog of window 0, window 2 the dialog of the dialog, window 4 stays on top.\<close>

definition five_clients :: manager where
  "five_clients = a_manager
     [(a_client 0 0 100 100)\<lparr>window := 10, winId := 20\<rparr>, (a_client 0 0 100 100)\<lparr>window := 11, winId := 21, trans := 10\<rparr>,
      (a_client 0 0 100 100)\<lparr>window := 12, winId := 22, trans := 11\<rparr>, (a_client 50 50 100 100)\<lparr>window := 13, winId := 23\<rparr>,
      (a_client 0 0 100 100)\<lparr>window := 14, winId := 24, stays_on_top := True\<rparr>]"

theorem raiseClient_stack_witness:
  "\<exists>m'. raiseClient 0 (five_clients\<lparr>clients_sorted := [2, 1, 0, 3, 4]\<rparr>) = Some m' \<and> clients_sorted m' = [3, 0, 1, 2, 4] \<and>
     cl m' = cl five_clients"
proof -
  let ?m = "five_clients\<lparr>clients_sorted := [2, 1, 0, 3, 4]\<rparr>"
  have "map_option clients_sorted (raiseClient 0 ?m) = Some [3, 0, 1, 2, 4]" by code_simp
  then obtain m' where m': "raiseClient 0 ?m = Some m'" "clients_sorted m' = [3, 0, 1, 2, 4]" by auto
  have "map_option (\<lambda>r. stays_on_top (cl ?m r)) (mainClient ?m 0) = Some False" "stays_on_top (cl ?m 0) = False" by code_simp+
  then have "\<not> (stays_on_top (cl ?m 0) \<or> (\<exists>r. mainClient ?m 0 = Some r \<and> stays_on_top (cl ?m r)))" by auto
  from raiseClient_stack[OF m'(1), of False] this have "cl m' = cl ?m" by auto
  then show ?thesis using m' by simp
qed

subsection \<open>Walks and positions\<close>

lemma dropWhile_nth: "distinct l \<Longrightarrow> k < length l \<Longrightarrow> dropWhile (\<lambda>x. x \<noteq> l ! k) l = drop k l"
proof (induction l arbitrary: k)
  case (Cons a l)
  then show ?case by (cases k) auto
qed simp

lemma next_in_nth:
  assumes "distinct l" "k < length l"
  shows "next_in l (Some (l ! k)) = Some (l ! ((k + 1) mod length l))"
proof -
  have t: "tl (drop k l) = drop (Suc k) l" by (simp add: drop_Suc tl_drop)
  show ?thesis
  proof (cases "k + 1 < length l")
    case True
    then have "drop (Suc k) l = l ! (k + 1) # drop (k + 2) l" using Cons_nth_drop_Suc[of "k + 1" l] by simp
    then show ?thesis using True by (simp add: next_in_def dropWhile_nth[OF assms] t)
  next
    case False
    then have "drop (Suc k) l = []" "k + 1 = length l" "l \<noteq> []" using assms(2) by auto
    then show ?thesis by (simp add: next_in_def dropWhile_nth[OF assms] t hd_conv_nth)
  qed
qed

lemma prev_in_nth:
  assumes "distinct l" "k < length l"
  shows "next_in (rev l) (Some (l ! ((k + 1) mod length l))) = Some (l ! k)"
proof -
  let ?n = "length l" and ?k = "(k + 1) mod length l"
  have k: "?k < ?n" by (rule mod_less_divisor[OF order.strict_trans1[OF le0 assms(2)]])
  then have "l ! ?k = rev l ! (?n - 1 - ?k)" by (simp add: rev_nth)
  moreover have "?n - 1 - ?k < length (rev l)" using k by simp
  ultimately have "next_in (rev l) (Some (l ! ?k)) = Some (rev l ! ((?n - 1 - ?k + 1) mod ?n))"
    using next_in_nth[of "rev l" "?n - 1 - ?k"] assms(1) by simp
  moreover have "rev l ! ((?n - 1 - ?k + 1) mod ?n) = l ! k"
  proof (cases "k + 1 < ?n")
    case True
    then have "?n - 1 - ?k + 1 = ?n - (k + 1)" by simp
    then show ?thesis using True by (simp add: rev_nth Suc_diff_Suc)
  next
    case False
    then have n: "?n = Suc k" using assms(2) by simp
    show ?thesis unfolding n by (simp add: rev_nth n)
  qed
  ultimately show ?thesis by simp
qed

text \<open>The walks for the task switch go round the lists: the next of the window at position \<open>k\<close> is the one at \<open>k + 1\<close>, after the last comes the first, and the walk
  back is the inverse, in the order of the focus as in the fixed order.\<close>

theorem client_walks:
  assumes "distinct (clients_traversing m)" "distinct (clients m)"
  shows "(\<forall>k < length (clients_traversing m). let c = clients_traversing m ! k; d = clients_traversing m ! ((k + 1) mod length (clients_traversing m))
      in nextClient m (Some c) = Some d \<and> previousClient m (Some d) = Some c) \<and>
    (\<forall>k < length (clients m). let c = clients m ! k; d = clients m ! ((k + 1) mod length (clients m))
      in nextStaticClient m (Some c) = Some d \<and> previousStaticClient m (Some d) = Some c)"
  using next_in_nth prev_in_nth assms
  by (simp add: nextClient_def previousClient_def nextStaticClient_def previousStaticClient_def Let_def)

theorem client_walks_witness:
  "nextClient five_clients (Some 4) = Some 0 \<and> previousClient five_clients (Some 0) = Some 4"
proof -
  have l: "clients_traversing five_clients = [0, 1, 2, 3, 4]" "clients five_clients = [0, 1, 2, 3, 4]" by code_simp+
  then have "distinct (clients_traversing five_clients)" "distinct (clients five_clients)" by simp_all
  from client_walks[OF this] show ?thesis unfolding l by (simp add: Let_def All_less_Suc2)
qed

text \<open>The window hit is the topmost one on the screen; but a shaded window counts with its full height, also where another window is seen.\<close>

lemma killWindowAtPosition_shaded:
  assumes "clients_sorted m = ls @ [i]" "shaded (cl m i)" "isOnDesktop (current_desktop m) (cl m i)" "\<not> iconified (cl m i)"
    and "r_contains (geometry (cl m i)) x y" "y \<ge> ry (geometry (cl m i)) + vis_height (BORDER (opts m)) (cl m i)"
  shows "killWindowAtPosition x y m = event (KillWindow (window (cl m i))) m"
  using assms by (simp add: killWindowAtPosition_def)

end
