(* ===== verification/KwmFocus.thy ===== *)
theory KwmFocus
  imports KwmStack
begin

section \<open>The window manager kwm: focus and icons\<close>

text \<open>
  \<open>activateClient\<close>, \<open>noFocus\<close> and what they call in \<open>kwm/manager.C\<close>, \<open>iconify\<close> and \<open>unIconify\<close> of \<open>kwm/client.C\<close>. These functions call each other; as
  the hints of the windows may run in circles, each takes a number that bounds the depth of the calls, and \<open>None\<close> means
  that the depth does not suffice. The animations of kwm are off (\<open>ResizeAnimation\<close> is 0); colormaps, timers and painting are left out.
\<close>

subsection \<open>Small steps\<close>

definition setactive :: "bool \<Rightarrow> client_id \<Rightarrow> manager \<Rightarrow> manager" where
  "setactive on i = upd_client i (\<lambda>c. c\<lparr>is_active := on\<rparr>)"

definition setWindowState :: "client_id \<Rightarrow> win_state \<Rightarrow> manager \<Rightarrow> manager" where
  "setWindowState i s = upd_client i (\<lambda>c. c\<lparr>state := s\<rparr>)"

definition showClient :: "client_id \<Rightarrow> manager \<Rightarrow> manager" where
  "showClient i m = upd_client i (\<lambda>c. c\<lparr>shown := True\<rparr>)
     (if shaded (cl m i) then m else event (MapWindow (window (cl m i))) m)"

definition hideClient :: "client_id \<Rightarrow> manager \<Rightarrow> manager" where
  "hideClient i m =
     (let m = upd_client i (\<lambda>c. c\<lparr>shown := False\<rparr>) m
      in if shaded (cl m i) then m
         else upd_client i (\<lambda>c. c\<lparr>unmap_events := unmap_events c + 1\<rparr>) (event (UnmapWindow (window (cl m i))) m))"

definition focusToNull :: "manager \<Rightarrow> manager" where
  "focusToNull m = event (Focus None) m"

definition focusToClient :: "client_id \<Rightarrow> manager \<Rightarrow> manager" where
  "focusToClient i m = (if shaded (cl m i) then focusToNull m else event (Focus (Some (window (cl m i)))) m)"

definition set_traversing :: "client_id list \<Rightarrow> manager \<Rightarrow> manager" where
  "set_traversing l m = m\<lparr>clients_traversing := l\<rparr>"

definition to_back :: "client_id \<Rightarrow> manager \<Rightarrow> manager" where
  "to_back i m = (if i \<in> set (clients_traversing m)
     then set_traversing (remove1 i (clients_traversing m) @ [i]) m else m)"

definition to_front :: "client_id \<Rightarrow> manager \<Rightarrow> manager" where
  "to_front i m = (if i \<in> set (clients_traversing m)
     then set_traversing (i # remove1 i (clients_traversing m)) m else m)"

definition raiseMenubarsOf :: "client_id \<Rightarrow> manager \<Rightarrow> manager" where
  "raiseMenubarsOf i m =
     (let bars = filter (\<lambda>j. j \<noteq> i \<and> trans (cl m j) = window (cl m i) \<and> is_menubar (cl m j)) (clients m)
      in if \<not> standalone_menubars m then event RaiseSystemMenuBar m
         else if bars = [] then event RaiseSystemMenuBar m
         else m\<lparr>log := log m @ map RaiseFrame bars\<rparr>)"

fun fold_opt :: "('a \<Rightarrow> 's \<Rightarrow> 's option) \<Rightarrow> 'a list \<Rightarrow> 's \<Rightarrow> 's option" where
  "fold_opt f [] s = Some s"
| "fold_opt f (x # xs) s = do { s \<leftarrow> f x s; fold_opt f xs s }"

text \<open>\<open>hidden_for_modules\<close> set: the window also leaves the focus order.\<close>

definition hide_for_modules :: "client_id \<Rightarrow> manager \<Rightarrow> manager" where
  "hide_for_modules j m =
     (let m = upd_client j (\<lambda>c. c\<lparr>hidden_for_modules := True\<rparr>) (sendToModules ModuleRemove j m)
      in set_traversing (remove1 j (clients_traversing m)) m)"

definition show_for_modules :: "client_id \<Rightarrow> manager \<Rightarrow> manager option" where
  "show_for_modules j m = do {
     let m = upd_client j (\<lambda>c. c\<lparr>hidden_for_modules := False\<rparr>) m;
     dialog \<leftarrow> isDialog m j;
     let m = (if dialog then sendToModules ModuleDialogAdd j m else m);
     let m = sendToModules ModuleAdd j m;
     Some (set_traversing (j # clients_traversing m) m) }"

text \<open>The candidate of \<open>noFocus\<close>: the window that had the focus last and is still on the screen.\<close>

definition focus_candidate :: "manager \<Rightarrow> client_id option" where
  "focus_candidate m = (if CLASSIC_FOCUS (opts m) then None
     else find (\<lambda>i. \<not> is_active (cl m i) \<and> state (cl m i) = NormalState) (rev (clients_traversing m)))"

subsection \<open>The operations\<close>

text \<open>The calls that the functions make of each other; each function is defined over \<open>call\<close>, which performs them.\<close>

datatype kwm_call = ActivateClient "client_id option" bool | IconifyFloatingOf client_id | IconifyTransientOf client_id
  | UnIconifyTransientOf client_id | NoFocus | Iconify bool client_id | UnIconify bool client_id
  | OntoDesktop int client_id | OntoDesktopTransientOf client_id

definition activateClient :: "(kwm_call \<Rightarrow> manager \<Rightarrow> manager option) \<Rightarrow> client_id option \<Rightarrow> bool \<Rightarrow> manager \<Rightarrow> manager option" where
  "activateClient call c set_revert m =
     (let cc = current m
      in if (case c of Some i \<Rightarrow> \<not> wants_focus (cl m i) | None \<Rightarrow> False) \<or> focus_grabbed m \<or> c = cc then Some m
      else do {
        m \<leftarrow> (case cc of
           None \<Rightarrow> Some m
         | Some j \<Rightarrow> do {
             let m = setactive False j m;
             main \<leftarrow> mainClient m j;
             other \<leftarrow> (case c of None \<Rightarrow> Some True | Some i \<Rightarrow> map_option (\<lambda>k. main \<noteq> k) (mainClient m i));
             if other then call (IconifyFloatingOf main) m else Some m });
        case c of
          None \<Rightarrow> Some (focusToNull m)
        | Some i \<Rightarrow> do {
            let m = setactive True i m;
            main \<leftarrow> mainClient m i;
            m \<leftarrow> call (UnIconifyTransientOf main) m;
            let m = to_back i (focusToClient i m);
            let m = (case cc of Some j \<Rightarrow> if set_revert then m else to_front j m | None \<Rightarrow> m);
            let m = raiseMenubarsOf main m;
            Some (sendToModules (\<lambda>i. ModuleActivate (Some i)) i m) } })"

definition iconifyFloatingOf :: "(kwm_call \<Rightarrow> manager \<Rightarrow> manager option) \<Rightarrow> client_id \<Rightarrow> manager \<Rightarrow> manager option" where
  "iconifyFloatingOf call c m =
     (if FocusPolicy (opts m) = FOCUS_FOLLOWS_MOUSE then Some m
      else fold_opt (\<lambda>j m.
        if j \<noteq> c \<and> trans (cl m j) = window (cl m c)
        then do {
          m \<leftarrow> (if decoration (cl m j) = tinyDecoration \<and> \<not> is_menubar (cl m j)
             then map_option (hide_for_modules j) (call (Iconify False j) m) else Some m);
          call (IconifyFloatingOf j) m }
        else Some m) (clients m) m)"

definition iconifyTransientOf :: "(kwm_call \<Rightarrow> manager \<Rightarrow> manager option) \<Rightarrow> client_id \<Rightarrow> manager \<Rightarrow> manager option" where
  "iconifyTransientOf call c m =
     fold_opt (\<lambda>j m.
       if j \<noteq> c \<and> belongs_to m j c
       then map_option (\<lambda>m. if hidden_for_modules (cl m j) then m else hide_for_modules j m) (call (Iconify False j) m)
       else Some m) (clients m) m"

definition unIconifyTransientOf :: "(kwm_call \<Rightarrow> manager \<Rightarrow> manager option) \<Rightarrow> client_id \<Rightarrow> manager \<Rightarrow> manager option" where
  "unIconifyTransientOf call c m =
     fold_opt (\<lambda>j m.
       if j \<noteq> c \<and> belongs_to m j c
       then do {
         m \<leftarrow> (if hidden_for_modules (cl m j) \<and> \<not> is_menubar (cl m j) then show_for_modules j m else Some m);
         call (UnIconify False j) m }
       else Some m) (clients m) m"

definition noFocus :: "(kwm_call \<Rightarrow> manager \<Rightarrow> manager option) \<Rightarrow> manager \<Rightarrow> manager option" where
  "noFocus call m =
     (case focus_candidate m of
        Some c \<Rightarrow> call (ActivateClient (Some c) False) m
      | None \<Rightarrow> do {
          m \<leftarrow> (case current m of
             None \<Rightarrow> Some m
           | Some c \<Rightarrow> do {
               let m = setactive False c m;
               main \<leftarrow> mainClient m c;
               call (IconifyFloatingOf main) m });
          Some (event (ModuleActivate None) (focusToNull m)) })"

definition iconify :: "(kwm_call \<Rightarrow> manager \<Rightarrow> manager option) \<Rightarrow> bool \<Rightarrow> client_id \<Rightarrow> manager \<Rightarrow> manager option" where
  "iconify call animation i m =
     (if iconified (cl m i) then Some m
      else do {
        dialog \<leftarrow> (if animation then isDialog m i else Some False);
        if dialog then do { main \<leftarrow> mainClient m i; call (Iconify True main) m }
        else do {
          m \<leftarrow> (case current m of
             None \<Rightarrow> Some m
           | Some j \<Rightarrow> if i \<noteq> j \<and> belongs_to m j i then call (ActivateClient (Some i) True) m else Some m);
          m \<leftarrow> call (IconifyTransientOf i) m;
          let m = upd_client i (\<lambda>c. c\<lparr>iconified := True\<rparr>) m;
          m \<leftarrow> (if state (cl m i) = NormalState
             then let m = hideClient i m in if is_active (cl m i) then call NoFocus m else Some m
             else Some m);
          Some (setWindowState i IconicState (sendToModules ModuleChange i m)) } })"

definition unIconify :: "(kwm_call \<Rightarrow> manager \<Rightarrow> manager option) \<Rightarrow> bool \<Rightarrow> client_id \<Rightarrow> manager \<Rightarrow> manager option" where
  "unIconify call animation i m =
     (if state (cl m i) = WithdrawnState \<or> \<not> iconified (cl m i) then Some m
      else do {
        let m = sendToModules ModuleChange i (upd_client i (\<lambda>c. c\<lparr>iconified := False\<rparr>) m);
        m \<leftarrow> (if isOnDesktop (current_desktop m) (cl m i)
           then raiseClient i (setWindowState i NormalState (showClient i m))
           else raiseClient i m);
        m \<leftarrow> call (UnIconifyTransientOf i) m;
        if isOnDesktop (current_desktop m) (cl m i) \<and> animation \<and> \<not> CLASSIC_FOCUS (opts m)
        then call (ActivateClient (Some i) True) m else Some m })"

definition ontoDesktop :: "(kwm_call \<Rightarrow> manager \<Rightarrow> manager option) \<Rightarrow> int \<Rightarrow> client_id \<Rightarrow> manager \<Rightarrow> manager option" where
  "ontoDesktop call new_desktop i m =
     (if new_desktop = desktop (cl m i) \<or> sticky (cl m i) \<or> new_desktop < 1 \<or> new_desktop > number_of_desktops m then Some m
      else do {
        main \<leftarrow> mainClient m i;
        if main \<noteq> i \<and> desktop (cl m main) \<noteq> new_desktop then call (OntoDesktop new_desktop main) m
        else do {
          let m = sendToModules ModuleChange i (upd_client i (\<lambda>c. c\<lparr>desktop := new_desktop\<rparr>) m);
          m \<leftarrow> (if state (cl m i) = NormalState
             then let m = setWindowState i IconicState (hideClient i m) in if is_active (cl m i) then call NoFocus m else Some m
             else Some m);
          m \<leftarrow> call (OntoDesktopTransientOf i) m;
          if desktop (cl m i) = current_desktop m \<and> \<not> iconified (cl m i)
          then do {
            m \<leftarrow> raiseClient i (setWindowState i NormalState (showClient i m));
            if CLASSIC_FOCUS (opts m) then Some m else call (ActivateClient (Some i) True) m }
          else Some m } })"

definition ontoDesktopTransientOf :: "(kwm_call \<Rightarrow> manager \<Rightarrow> manager option) \<Rightarrow> client_id \<Rightarrow> manager \<Rightarrow> manager option" where
  "ontoDesktopTransientOf call c m =
     fold_opt (\<lambda>j m. if j \<noteq> c \<and> belongs_to m j c then call (OntoDesktop (desktop (cl m c)) j) m else Some m) (clients m) m"

text \<open>A call of depth at most \<open>n\<close>.\<close>

primrec kwm_run :: "nat \<Rightarrow> kwm_call \<Rightarrow> manager \<Rightarrow> manager option" where
  "kwm_run 0 c m = None"
| "kwm_run (Suc n) c m = (case c of
      ActivateClient i set_revert \<Rightarrow> activateClient (kwm_run n) i set_revert m
    | IconifyFloatingOf i \<Rightarrow> iconifyFloatingOf (kwm_run n) i m
    | IconifyTransientOf i \<Rightarrow> iconifyTransientOf (kwm_run n) i m
    | UnIconifyTransientOf i \<Rightarrow> unIconifyTransientOf (kwm_run n) i m
    | NoFocus \<Rightarrow> noFocus (kwm_run n) m
    | Iconify animation i \<Rightarrow> iconify (kwm_run n) animation i m
    | UnIconify animation i \<Rightarrow> unIconify (kwm_run n) animation i m
    | OntoDesktop d i \<Rightarrow> ontoDesktop (kwm_run n) d i m
    | OntoDesktopTransientOf i \<Rightarrow> ontoDesktopTransientOf (kwm_run n) i m)"

end
