(* ===== verification/KwmDesk.thy ===== *)
theory KwmDesk
  imports KwmFocus
begin

section \<open>The window manager kwm: virtual desktops and the life of a window\<close>

text \<open>
  Switching the desktop, taking over and giving up windows, and counting the unmap events, in \<open>kwm/manager.C\<close>; maximizing and shading in
  \<open>kwm/client.C\<close>. The first argument of an operation is the depth of calls that \<open>kwm_run\<close> may use.
\<close>

subsection \<open>Desktops\<close>

definition hide_leaving :: "client_id \<Rightarrow> manager \<Rightarrow> manager" where
  "hide_leaving i m =
     (if isOnDesktop (current_desktop m) (cl m i) \<and> \<not> iconified (cl m i) \<and> \<not> sticky (cl m i) \<and> mouse_grabber m \<noteq> Some i
      then setWindowState i IconicState (hideClient i m) else m)"

definition show_arriving :: "client_id \<Rightarrow> manager \<Rightarrow> manager" where
  "show_arriving i m =
     (let m = (if isOnDesktop (current_desktop m) (cl m i) \<and> \<not> iconified (cl m i) \<and> \<not> sticky (cl m i) \<and> state (cl m i) \<noteq> NormalState
        then setWindowState i NormalState (showClient i m) else m)
      in if sticky (cl m i) \<and> \<not> iconified (cl m i) \<and> current m \<noteq> Some i then to_front i m else m)"

definition sendConfig_changed :: "client_id \<Rightarrow> manager \<Rightarrow> manager" where
  "sendConfig_changed i m = sendToModules ModuleChange i (sendConfig i m)"

definition menubar_rect :: "qrect \<Rightarrow> int \<Rightarrow> qrect" where
  "menubar_rect r h = \<lparr>rx = rx r, ry = (if ry r - 1 \<le> 0 then -2 else ry r - 1), rw = rw r, rh = h\<rparr>"

definition resetSystemMenuBar :: "manager \<Rightarrow> manager" where
  "resetSystemMenuBar m = (let r = region m (current_desktop m)
     in m\<lparr>menubar := map_option (\<lambda>_. menubar_rect r (menubar_height m (rw r))) (menubar m)\<rparr>)"

definition updateMenuBars :: "manager \<Rightarrow> manager" where
  "updateMenuBars m =
     (let m = resetSystemMenuBar m; r = region m (current_desktop m)
      in if \<not> standalone_menubars m then m
         else fold (\<lambda>i m. if is_menubar (cl m i) \<and> isOnDesktop (current_desktop m) (cl m i)
           then sendConfig_changed i (upd_client i (upd_geometry (\<lambda>g. menubar_rect r (rh g))) m) else m) (clients m) m)"

definition switchDesktop :: "nat \<Rightarrow> int \<Rightarrow> manager \<Rightarrow> manager option" where
  "switchDesktop n new_desktop m =
     (if new_desktop = current_desktop m \<or> new_desktop < 1 \<or> new_desktop > number_of_desktops m then Some m
      else do {
        let m = (case current m of Some c \<Rightarrow> if sticky (cl m c) then m else setactive False c m | None \<Rightarrow> m);
        let m = fold hide_leaving (clients_sorted m) m;
        let m = event (ModuleDesktop new_desktop) (m\<lparr>current_desktop := new_desktop\<rparr>);
        let m = fold show_arriving (rev (clients_sorted m)) m;
        m \<leftarrow> (if current m = None then kwm_run n NoFocus m else Some m);
        Some (updateMenuBars m) })"

datatype direction = Up | Down | Left | Right

definition desktop_in_direction :: "direction \<Rightarrow> manager \<Rightarrow> int" where
  "desktop_in_direction d m = (case d of
     Up \<Rightarrow> if current_desktop m mod 2 = 1 then current_desktop m + 1 else current_desktop m - 1
   | Down \<Rightarrow> if current_desktop m mod 2 = 1 then current_desktop m + 1 else current_desktop m - 1
   | Left \<Rightarrow> (let nd = current_desktop m - 2 in if nd < 1 then nd + number_of_desktops m else nd)
   | Right \<Rightarrow> (let nd = current_desktop m + 2 in if nd > number_of_desktops m then nd - number_of_desktops m else nd))"

text \<open>Without moving the pointer.\<close>

definition moveDesktopInDirection :: "nat \<Rightarrow> direction \<Rightarrow> client_id option \<Rightarrow> manager \<Rightarrow> manager option" where
  "moveDesktopInDirection n d c m =
     (let nd = desktop_in_direction d m;
          m = (case c of None \<Rightarrow> m | Some i \<Rightarrow> sendToModules ModuleChange i (upd_client i (\<lambda>c. c\<lparr>desktop := nd\<rparr>) m))
      in switchDesktop n nd m)"

text \<open>The number of desktops that \<open>main.C\<close> announces for the number \<open>n\<close> of the configuration.\<close>

definition configured_desktops :: "int \<Rightarrow> int" where
  "configured_desktops n =
     (let n = (n sdiv 2) * 2; n = (if n < 2 then 2 else n) in if n > 32 then 32 else n)"

text \<open>The desktop commands of \<open>clientMessage\<close>; \<open>toInt\<close> is \<open>QString::toInt\<close>.\<close>

definition desktop_command :: "(string \<Rightarrow> int) \<Rightarrow> string \<Rightarrow> manager \<Rightarrow> int option" where
  "desktop_command toInt com m =
     (let cur = current_desktop m; n = number_of_desktops m
      in if com = ''desktop+1'' then Some (if cur + 1 > n then cur + 1 - n else cur + 1)
         else if com = ''desktop+2'' then Some (if cur + 2 > n then cur + 2 - n else cur + 2)
         else if com = ''desktop-1'' then Some (if cur - 1 < 1 then cur - 1 + n else cur - 1)
         else if com = ''desktop-2'' then Some (if cur - 2 < 1 then cur - 2 + n else cur - 2)
         else if com = ''desktop%%2'' then Some (if cur mod 2 = 1 then cur + 1 else cur - 1)
         else if take 7 com = ''desktop'' then Some (toInt (drop 7 com))
         else None)"

definition clientMessage_desktop :: "(string \<Rightarrow> int) \<Rightarrow> nat \<Rightarrow> string \<Rightarrow> manager \<Rightarrow> manager option" where
  "clientMessage_desktop toInt n com m = (case desktop_command toInt com m of
     None \<Rightarrow> Some m | Some d \<Rightarrow> switchDesktop n d m)"

subsection \<open>Giving up a window\<close>

definition removeClient :: "nat \<Rightarrow> client_id \<Rightarrow> manager \<Rightarrow> manager option" where
  "removeClient n i m =
     (let do_nofocus = (current m = Some i);
          m = m\<lparr>clients := remove1 i (clients m), clients_sorted := remove1 i (clients_sorted m),
            clients_traversing := remove1 i (clients_traversing m)\<rparr>
      in do {
        m \<leftarrow> (if do_nofocus then kwm_run n NoFocus m else Some m);
        Some (sendToModules ModuleRemove i m) })"

definition removeTopWindow :: "xwindow \<Rightarrow> manager \<Rightarrow> manager" where
  "removeTopWindow w m = m\<lparr>top_windows := remove1 w (top_windows m)\<rparr>"

definition destroyNotify :: "nat \<Rightarrow> xwindow \<Rightarrow> manager \<Rightarrow> manager option" where
  "destroyNotify n w m =
     (let m = removeTopWindow w m
      in case getClient m w of None \<Rightarrow> Some m
         | Some i \<Rightarrow> if window (cl m i) \<noteq> w then Some m else removeClient n i m)"

text \<open>\<open>destroyed\<close>: a destroy event waits in the queue; \<open>ours\<close>: the window is still a child of the frame.\<close>

definition withdraw :: "nat \<Rightarrow> bool \<Rightarrow> bool \<Rightarrow> client_id \<Rightarrow> manager \<Rightarrow> manager option" where
  "withdraw n destroyed ours i m =
     (let m = upd_client i (\<lambda>c. c\<lparr>shown := False\<rparr>) m
      in if destroyed then destroyNotify n (window (cl m i)) m
         else let m = (if ours
             then setWindowState i WithdrawnState (event (UnmapWindow (window (cl m i)))
               (upd_client i (gravitate (BORDER (opts m)) True) m)) else m)
           in removeClient n i m)"

text \<open>The window \<open>w\<close> got the new parent \<open>parent\<close>; the event was sent to \<open>ev\<close>.\<close>

definition reparentNotify :: "nat \<Rightarrow> bool \<Rightarrow> bool \<Rightarrow> xwindow \<Rightarrow> xwindow \<Rightarrow> xwindow \<Rightarrow> manager \<Rightarrow> manager option" where
  "reparentNotify n destroyed ours ev w parent m = (case getClient m ev of
     None \<Rightarrow> Some m
   | Some ec \<Rightarrow> if getClient m w = Some ec \<and> parent \<noteq> winId (cl m ec) then withdraw n destroyed ours ec m else Some m)"

text \<open>An \<open>UnmapNotify\<close> of the window \<open>w\<close> sent to \<open>ev\<close>. \<open>reparented\<close> is the event, window and parent of a \<open>ReparentNotify\<close> in the queue.\<close>

definition unmapNotify :: "nat \<Rightarrow> bool \<Rightarrow> bool \<Rightarrow> xwindow \<Rightarrow> xwindow \<Rightarrow> bool \<Rightarrow> (xwindow \<times> xwindow \<times> xwindow) option \<Rightarrow> manager \<Rightarrow> manager option" where
  "unmapNotify n destroyed ours w ev send_event reparented m = (case getClient m w of
     None \<Rightarrow> Some m
   | Some i \<Rightarrow>
       if \<not> (window (cl m i) = w \<and> winId (cl m i) = ev) then Some m
       else case reparented of
         Some (ev', w', parent) \<Rightarrow> reparentNotify n destroyed ours ev' w' parent m
       | None \<Rightarrow>
           if unmap_events (cl m i) > 0 then Some (upd_client i (\<lambda>c. c\<lparr>unmap_events := unmap_events c - 1\<rparr>) m)
           else if state (cl m i) = IconicState \<and> \<not> send_event then Some m
           else withdraw n destroyed ours i m)"

definition closeClient :: "nat \<Rightarrow> client_id \<Rightarrow> manager \<Rightarrow> manager option" where
  "closeClient n i m =
     (if Pdeletewindow (cl m i) then Some (event (WmDelete i) m)
      else removeClient n i (event (KillWindow (window (cl m i))) m))"

text \<open>A request to map a window that kwm knows and that is not withdrawn.\<close>

definition mapRequest :: "nat \<Rightarrow> client_id \<Rightarrow> manager \<Rightarrow> manager option" where
  "mapRequest n i m = (case state (cl m i) of
     IconicState \<Rightarrow> kwm_run n (UnIconify True i) m
   | WithdrawnState \<Rightarrow> None
   | NormalState \<Rightarrow> do {
       m \<leftarrow> raiseClient i (showClient i m);
       let m = setWindowState i NormalState m;
       if CLASSIC_FOCUS (opts m) then Some m else kwm_run n (ActivateClient (Some i) True) m })"

subsection \<open>Shading and maximizing\<close>

definition toggleShade :: "nat \<Rightarrow> client_id \<Rightarrow> manager \<Rightarrow> manager option" where
  "toggleShade n i m =
     (if decoration (cl m i) \<noteq> normalDecoration \<or> state (cl m i) \<noteq> NormalState then Some m
      else let m = upd_client i (\<lambda>c. c\<lparr>shaded := \<not> shaded c\<rparr>) m
      in do {
        m \<leftarrow> (if shaded (cl m i)
          then do {
            m \<leftarrow> (if is_active (cl m i) then kwm_run n NoFocus m else Some m);
            Some (upd_client i (\<lambda>c. c\<lparr>unmap_events := unmap_events c + 1, state := NormalState\<rparr>)
              (event (UnmapWindow (window (cl m i))) m)) }
          else let m = setWindowState i NormalState (event (MapWindow (window (cl m i))) m)
            in Some (if is_active (cl m i) then focusToClient i m else m));
        Some (sendConfig i m) })"

definition maxi_rect :: "client_id \<Rightarrow> manager \<Rightarrow> qrect" where
  "maxi_rect i m = (let r = region m (desktop (cl m i))
     in case menubar m of
          Some b \<Rightarrow> setTop (r_bottom b) r
        | None \<Rightarrow> (case clientAtPosition m (rx r) (ry r) of
            Some j \<Rightarrow> if trans (cl m j) = window (cl m i) \<and> is_menubar (cl m j) then setTop (r_bottom (geometry (cl m j))) r else r
          | None \<Rightarrow> r))"

definition horizontal :: int where "horizontal = 1"
definition vertical :: int where "vertical = 2"
definition fullscreen :: int where "fullscreen = 3"

definition maximize :: "nat \<Rightarrow> int \<Rightarrow> client_id \<Rightarrow> manager \<Rightarrow> manager option" where
  "maximize n mode i m =
     (if maximized (cl m i) then Some m
      else do {
        m \<leftarrow> (if shaded (cl m i) then toggleShade n i m else Some m);
        let m = upd_client i (\<lambda>c. c\<lparr>maximized := True, maximize_mode := mode, geometry_restore := geometry c\<rparr>) m;
        let r = maxi_rect i m;
        let m = upd_client i (upd_geometry (\<lambda>g.
          if mode = vertical then (moveTopLeft (rx g) (ry r) g)\<lparr>rh := rh r\<rparr>
          else if mode = horizontal then (moveTopLeft (rx r) (ry g) g)\<lparr>rw := rw r\<rparr>
          else r)) m;
        c \<leftarrow> adjustSize (BORDER (opts m)) (cl m i);
        Some (sendConfig_changed i (upd_client i (\<lambda>_. c) m)) })"

definition unMaximize :: "nat \<Rightarrow> client_id \<Rightarrow> manager \<Rightarrow> manager option" where
  "unMaximize n i m =
     (if \<not> maximized (cl m i) then Some m
      else do {
        m \<leftarrow> (if shaded (cl m i) then toggleShade n i m else Some m);
        Some (sendConfig_changed i (upd_client i (\<lambda>c. c\<lparr>maximized := False, geometry := geometry_restore c\<rparr>) m)) })"

definition updateMaximizedWindows :: "nat \<Rightarrow> manager \<Rightarrow> manager option" where
  "updateMaximizedWindows n m =
     fold_opt (\<lambda>i m. if maximized (cl m i) \<and> isOnDesktop (current_desktop m) (cl m i)
       then maximize n (maximize_mode (cl m i)) i (upd_client i (\<lambda>c. c\<lparr>maximized := False, geometry := geometry_restore c\<rparr>) m)
       else Some m) (clients m) m"

end
