(* ===== verification/KwmSwitch.thy ===== *)
theory KwmSwitch
  imports KwmDesk
begin

section \<open>The window manager kwm: properties of the desktops\<close>

text \<open>
  What a switch of the desktop shows and hides, that it ends, that its own unmap events are not taken for those of the programs, and who gets the focus.
  The calls that can happen while no window has the focus only bring back transient windows.
\<close>

subsection \<open>Calls that bring back transient windows\<close>

text \<open>The window is on the screen exactly when it is on the desktop and not an icon.\<close>

definition win_ok :: "int \<Rightarrow> kclient \<Rightarrow> bool" where
  "win_ok d c \<longleftrightarrow> state c \<noteq> WithdrawnState \<and> (shown c \<longleftrightarrow> state c = NormalState) \<and>
     (state c = NormalState \<longleftrightarrow> isOnDesktop d c \<and> \<not> iconified c)"

definition client_keeps :: "kclient \<Rightarrow> kclient \<Rightarrow> bool" where
  "client_keeps c c' \<longleftrightarrow> (iconified c' \<longrightarrow> iconified c) \<and>
     (\<exists>s sh ic h. c' = c\<lparr>state := s, shown := sh, iconified := ic, hidden_for_modules := h\<rparr>)"

definition no_unmap :: "kwm_event list \<Rightarrow> bool" where
  "no_unmap es \<longleftrightarrow> (\<forall>w. UnmapWindow w \<notin> set es)"

definition keeps :: "manager \<Rightarrow> manager \<Rightarrow> bool" where
  "keeps m m' \<longleftrightarrow> clients m' = clients m \<and> current_desktop m' = current_desktop m \<and> opts m' = opts m \<and> rootwin m' = rootwin m \<and>
     focus_grabbed m' = focus_grabbed m \<and>
     (distinct (clients_sorted m) \<longrightarrow> distinct (clients_sorted m') \<and> set (clients_sorted m) \<subseteq> set (clients_sorted m') \<and>
       set (clients_sorted m') \<subseteq> set (clients_sorted m) \<union> set (clients m)) \<and>
     (\<exists>es. log m' = log m @ es \<and> no_unmap es) \<and>
     (\<exists>xs. clients_traversing m' = xs @ clients_traversing m \<and> set xs \<subseteq> set (clients m)) \<and>
     (\<forall>i. client_keeps (cl m i) (cl m' i) \<and> (win_ok (current_desktop m) (cl m i) \<longrightarrow> win_ok (current_desktop m) (cl m' i)))"

lemma client_keeps_refl: "client_keeps c c"
  unfolding client_keeps_def
  by (intro conjI exI[of _ "state c"] exI[of _ "shown c"] exI[of _ "iconified c"] exI[of _ "hidden_for_modules c"]) simp_all

lemma client_keeps_trans: "client_keeps a b \<Longrightarrow> client_keeps b c \<Longrightarrow> client_keeps a c"
  unfolding client_keeps_def by (elim conjE exE, intro conjI) (blast, force)

lemma keeps_refl: "keeps m m"
  by (auto simp: keeps_def client_keeps_refl no_unmap_def)

lemma keeps_trans:
  assumes "keeps a b" "keeps b c"
  shows "keeps a c"
proof -
  obtain es es' where l: "log b = log a @ es" "log c = log b @ es'" "no_unmap es" "no_unmap es'" using assms by (auto simp: keeps_def)
  obtain xs ys where t: "clients_traversing b = xs @ clients_traversing a" "set xs \<subseteq> set (clients a)"
    "clients_traversing c = ys @ clients_traversing b" "set ys \<subseteq> set (clients b)" using assms by (auto simp: keeps_def)
  have c: "client_keeps (cl a i) (cl c i)" for i using assms client_keeps_trans[of "cl a i" "cl b i" "cl c i"] by (simp add: keeps_def)
  have e: "\<exists>es. log c = log a @ es \<and> no_unmap es" using l by (intro exI[of _ "es @ es'"]) (simp add: no_unmap_def)
  have x: "\<exists>xs. clients_traversing c = xs @ clients_traversing a \<and> set xs \<subseteq> set (clients a)"
    using t assms by (intro exI[of _ "ys @ xs"]) (auto simp: keeps_def)
  have s: "distinct (clients_sorted a) \<longrightarrow> distinct (clients_sorted c) \<and> set (clients_sorted a) \<subseteq> set (clients_sorted c) \<and>
      set (clients_sorted c) \<subseteq> set (clients_sorted a) \<union> set (clients a)"
    "clients c = clients a" "current_desktop c = current_desktop a" "opts c = opts a" "rootwin c = rootwin a"
    "focus_grabbed c = focus_grabbed a"
    using assms by (auto simp: keeps_def)
  have w: "win_ok (current_desktop a) (cl a i) \<longrightarrow> win_ok (current_desktop a) (cl c i)" for i using assms by (simp add: keeps_def)
  show ?thesis unfolding keeps_def using s e x w c by blast
qed

definition same_hints :: "kclient \<Rightarrow> kclient \<Rightarrow> bool" where
  "same_hints c c' \<longleftrightarrow> trans c' = trans c \<and> leader c' = leader c \<and> window c' = window c \<and> winId c' = winId c"

lemma hinted_cong:
  assumes "\<And>j. same_hints (cl m j) (cl m' j)" "clients m' = clients m" "rootwin m' = rootwin m"
  shows "hinted m' = hinted m" "belongs_to m' = belongs_to m"
  using assms by (simp_all add: same_hints_def hinted_def getClient_def belongs_to_def Let_def fun_eq_iff)

lemma same_hints_upd: "same_hints (cl m i) (f (cl m i)) \<Longrightarrow> same_hints (cl m j) (cl (upd_client i f m) j)"
  by (cases "j = i") (simp_all add: same_hints_def)

lemma client_keeps_hints: "client_keeps c c' \<Longrightarrow> same_hints c c'"
  by (auto simp: client_keeps_def same_hints_def)

lemma hinted_keeps: "keeps m m' \<Longrightarrow> hinted m' = hinted m" "keeps m m' \<Longrightarrow> belongs_to m' = belongs_to m"
  by (rule hinted_cong; simp add: keeps_def client_keeps_hints)+

lemma mainClient_cong:
  assumes "hinted m' = hinted m" "mainClient m i = Some r"
  shows "mainClient m' i = Some r"
proof (rule mainClient.raw_induct[where P = "\<lambda>n i r. n = m \<longrightarrow> mainClient m' i = Some r", OF _ assms(2), THEN mp, OF _ refl])
  fix f n i r
  assume ih: "\<And>n i r. f n i = Some r \<Longrightarrow> n = m \<longrightarrow> mainClient m' i = Some r" and b: "(let c = cl n i
      in if trans c \<noteq> 0 \<and> trans c \<noteq> rootwin n \<and> trans c \<noteq> window c
         then (case getClient n (trans c) of Some j \<Rightarrow> f n j | None \<Rightarrow> Some i)
         else if leader c \<noteq> 0 \<and> leader c \<noteq> window c
         then (case getClient n (leader c) of Some j \<Rightarrow> f n j | None \<Rightarrow> Some i)
         else Some i) = Some r"
  have "(case hinted n i of Some j \<Rightarrow> f n j | None \<Rightarrow> Some i) = Some r" using b by (simp only: hinted_case Let_def)
  then show "n = m \<longrightarrow> mainClient m' i = Some r"
    using ih assms(1) by (subst mainClient_hinted) (auto split: option.splits)
qed

lemma mainClient_keeps: "keeps m m' \<Longrightarrow> mainClient m i = Some r \<Longrightarrow> mainClient m' i = Some r"
  by (rule mainClient_cong[OF hinted_keeps(1)])

lemma do_raise_eq:
  "\<exists>es. do_raise xs m = m\<lparr>clients_sorted := fold (\<lambda>c s. remove1 c s @ [c]) xs (clients_sorted m), log := log m @ es\<rparr> \<and> no_unmap es"
proof (induction xs arbitrary: m)
  case Nil
  then show ?case by (intro exI[of _ "[]"]) (simp add: no_unmap_def)
next
  case (Cons x xs)
  let ?m = "m\<lparr>clients_sorted := remove1 x (clients_sorted m) @ [x]\<rparr>"
  have "\<exists>es. sendToModules ModuleRaise x ?m = ?m\<lparr>log := log m @ es\<rparr> \<and> no_unmap es"
    by (auto simp: sendToModules_def event_def no_unmap_def intro: exI[of _ "[]"])
  then obtain es where es: "sendToModules ModuleRaise x ?m = ?m\<lparr>log := log m @ es\<rparr>" "no_unmap es" by blast
  from Cons.IH[of "?m\<lparr>log := log m @ es\<rparr>"] obtain es' where es':
    "do_raise xs (?m\<lparr>log := log m @ es\<rparr>) = ?m\<lparr>clients_sorted := fold (\<lambda>c s. remove1 c s @ [c]) xs (remove1 x (clients_sorted m) @ [x]),
       log := (log m @ es) @ es'\<rparr>" "no_unmap es'" by auto
  show ?case using es es' by (intro exI[of _ "es @ es'"]) (simp add: no_unmap_def)
qed

lemma raiseClient_eq:
  assumes "raiseClient i m = Some m'"
  shows "\<exists>es. m' = m\<lparr>clients_sorted := clients_sorted m', log := log m @ es\<rparr> \<and> no_unmap es"
proof -
  obtain xs ws where m': "m' = event (Restack ws) (do_raise xs m)"
    using assms by (auto simp: raiseClient_def Let_def split: bind_splits)
  from do_raise_eq[of xs m] obtain es where es: "do_raise xs m = m\<lparr>clients_sorted := fold (\<lambda>c s. remove1 c s @ [c]) xs (clients_sorted m), log := log m @ es\<rparr>"
    "no_unmap es" by blast
  show ?thesis unfolding m' es by (intro exI[of _ "es @ [Restack ws]"]) (use es in \<open>simp add: event_def no_unmap_def\<close>)
qed

lemma raiseClient_keeps:
  assumes "raiseClient i m = Some m'" "i \<in> set (clients m)"
  shows "keeps m m'" "cl m' = cl m"
proof -
  obtain es where es: "m' = m\<lparr>clients_sorted := clients_sorted m', log := log m @ es\<rparr>" "no_unmap es" using raiseClient_eq[OF assms(1)] by blast
  have f: "clients m' = clients m" "current_desktop m' = current_desktop m" "opts m' = opts m" "rootwin m' = rootwin m"
    "focus_grabbed m' = focus_grabbed m" "cl m' = cl m" "clients_traversing m' = clients_traversing m" "log m' = log m @ es"
    by (subst es(1), simp)+
  have "distinct (clients_sorted m') \<and> set (clients_sorted m) \<subseteq> set (clients_sorted m') \<and>
      set (clients_sorted m') \<subseteq> set (clients_sorted m) \<union> set (clients m)" if d: "distinct (clients_sorted m)"
  proof -
    define ig where "ig \<longleftrightarrow> stays_on_top (cl m i) \<or> (\<exists>r. mainClient m i = Some r \<and> stays_on_top (cl m r))"
    obtain ys where ys: "raise_list ig m i = i # ys" "i \<notin> set ys" "set ys \<subseteq> retinue m i \<union> set (clients_sorted m)"
      using raise_list_set[OF d, of ig i] by (cases ig) auto
    have a: "clients_sorted m' = filter (\<lambda>l. l \<noteq> i \<and> l \<notin> set (remdups ys)) (clients_sorted m) @ i # remdups ys"
      "distinct (remdups ys)" "i \<notin> set (remdups ys)" "set (remdups ys) \<subseteq> retinue m i \<union> set (clients_sorted m)"
      using raiseClient_sorted(1)[OF assms(1) d ig_def ys(1,2)] ys(2,3) by simp_all
    have "retinue m i \<subseteq> set (clients_sorted m)" by (auto simp: retinue_def elim: tranclE)
    then show ?thesis using a d assms(2) by auto
  qed
  then show "keeps m m'" using f es(2) by (auto simp: keeps_def client_keeps_refl)
  show "cl m' = cl m" by (rule f)
qed

lemma keeps_frame:
  assumes "m' = m\<lparr>cl := (cl m)(i := c), log := log m @ es\<rparr>" "no_unmap es" "client_keeps (cl m i) c"
    and "win_ok (current_desktop m) (cl m i) \<longrightarrow> win_ok (current_desktop m) c"
  shows "keeps m m'"
  using assms by (auto simp: keeps_def client_keeps_refl)

lemma no_unmap_simps [simp]: "no_unmap []" "no_unmap (e # es) \<longleftrightarrow> (\<forall>w. e \<noteq> UnmapWindow w) \<and> no_unmap es" "no_unmap (xs @ ys) \<longleftrightarrow> no_unmap xs \<and> no_unmap ys"
  by (auto simp: no_unmap_def)

lemma sendToModules_eq:
  assumes "\<And>j w. a j \<noteq> UnmapWindow w"
  shows "\<exists>es. sendToModules a i m = m\<lparr>log := log m @ es\<rparr> \<and> no_unmap es"
  using assms by (cases "hidden_for_modules (cl m i)") (auto simp: sendToModules_def event_def intro: exI[of _ "[]"])

lemma client_keeps_upd:
  "(ic \<longrightarrow> iconified c) \<Longrightarrow> client_keeps c (c\<lparr>state := s, shown := sh, iconified := ic, hidden_for_modules := h\<rparr>)"
  by (auto simp: client_keeps_def)

text \<open>The two ways in which \<open>unIconify\<close> goes on, up to the raising.\<close>

lemma unIconify_shown:
  assumes "iconified (cl m i)" "isOnDesktop (current_desktop m) (cl m i)"
  shows "keeps m (setWindowState i NormalState (showClient i (sendToModules ModuleChange i (upd_client i (\<lambda>c. c\<lparr>iconified := False\<rparr>) m))))"
proof -
  let ?m = "upd_client i (\<lambda>c. c\<lparr>iconified := False\<rparr>) m"
  obtain es where es: "sendToModules ModuleChange i ?m = ?m\<lparr>log := log ?m @ es\<rparr>" "no_unmap es"
    using sendToModules_eq[of ModuleChange] by blast
  obtain es' where es': "showClient i (?m\<lparr>log := log ?m @ es\<rparr>) =
      upd_client i (\<lambda>c. c\<lparr>shown := True\<rparr>) (?m\<lparr>log := log m @ es @ es'\<rparr>)" "no_unmap es'"
    by (cases "shaded (cl m i)")
      (auto simp: showClient_def event_def intro: that[of "[]"] that[of "[MapWindow (window (cl m i))]"])
  let ?c = "(cl m i)\<lparr>state := NormalState, shown := True, iconified := False, hidden_for_modules := hidden_for_modules (cl m i)\<rparr>"
  have ceq: "(cl m i)\<lparr>iconified := False, shown := True, state := NormalState\<rparr> = ?c" by simp
  have "setWindowState i NormalState (showClient i (sendToModules ModuleChange i ?m)) = m\<lparr>cl := (cl m)(i := ?c), log := log m @ es @ es'\<rparr>"
    unfolding es es' by (simp add: setWindowState_def upd_client_def ceq)
  then show ?thesis
    using assms es(2) es'(2) by (intro keeps_frame[where i = i and c = ?c and es = "es @ es'", OF _ _ client_keeps_upd])
      (auto simp: win_ok_def isOnDesktop_def)
qed

lemma unIconify_away:
  assumes "iconified (cl m i)" "\<not> isOnDesktop (current_desktop m) (cl m i)"
  shows "keeps m (sendToModules ModuleChange i (upd_client i (\<lambda>c. c\<lparr>iconified := False\<rparr>) m))"
proof -
  let ?m = "upd_client i (\<lambda>c. c\<lparr>iconified := False\<rparr>) m"
  obtain es where es: "sendToModules ModuleChange i ?m = ?m\<lparr>log := log ?m @ es\<rparr>" "no_unmap es"
    using sendToModules_eq[of ModuleChange] by blast
  let ?c = "(cl m i)\<lparr>state := state (cl m i), shown := shown (cl m i), iconified := False, hidden_for_modules := hidden_for_modules (cl m i)\<rparr>"
  have "sendToModules ModuleChange i ?m = m\<lparr>cl := (cl m)(i := ?c), log := log m @ es\<rparr>"
    unfolding es by (simp add: upd_client_def)
  then show ?thesis
    using assms es(2) by (intro keeps_frame[where i = i and c = ?c and es = es, OF _ _ client_keeps_upd])
      (auto simp: win_ok_def isOnDesktop_def)
qed

lemma show_for_modules_keeps:
  assumes "show_for_modules j m = Some m'" "j \<in> set (clients m)"
  shows "keeps m m'" "\<And>k. iconified (cl m' k) = iconified (cl m k)"
proof -
  let ?m = "upd_client j (\<lambda>c. c\<lparr>hidden_for_modules := False\<rparr>) m"
  obtain d where d: "isDialog ?m j = Some d" using assms(1) by (cases "isDialog ?m j") (auto simp: show_for_modules_def Let_def)
  have m': "m' = set_traversing (j # clients_traversing m) (sendToModules ModuleAdd j (if d then sendToModules ModuleDialogAdd j ?m else ?m))"
    using assms(1) d by (cases d) (auto simp: show_for_modules_def Let_def)
  obtain es where es: "(if d then sendToModules ModuleDialogAdd j ?m else ?m) = ?m\<lparr>log := log m @ es\<rparr>" "no_unmap es"
    using sendToModules_eq[of ModuleDialogAdd j ?m] by (cases d) (auto intro: that[of "[]"])
  obtain es' where es': "sendToModules ModuleAdd j (?m\<lparr>log := log m @ es\<rparr>) = ?m\<lparr>log := (log m @ es) @ es'\<rparr>" "no_unmap es'"
    using sendToModules_eq[of ModuleAdd j "?m\<lparr>log := log m @ es\<rparr>"] by auto
  let ?c = "(cl m j)\<lparr>state := state (cl m j), shown := shown (cl m j), iconified := iconified (cl m j), hidden_for_modules := False\<rparr>"
  have e: "m' = m\<lparr>cl := (cl m)(j := ?c), log := log m @ es @ es', clients_traversing := j # clients_traversing m\<rparr>"
    unfolding m' es es' by (simp add: set_traversing_def upd_client_def)
  have "client_keeps (cl m j) ?c" by (rule client_keeps_upd) simp
  moreover have "win_ok (current_desktop m) (cl m j) \<longrightarrow> win_ok (current_desktop m) ?c" by (simp add: win_ok_def isOnDesktop_def)
  ultimately have "client_keeps (cl m j) ?c \<and> (win_ok (current_desktop m) (cl m j) \<longrightarrow> win_ok (current_desktop m) ?c)" ..
  then show "keeps m m'" using es(2) es'(2) assms(2) by (auto simp: keeps_def client_keeps_refl e)
  show "iconified (cl m' k) = iconified (cl m k)" for k by (simp add: e)
qed

lemma fold_opt_rel:
  assumes "fold_opt f xs s = Some s'" "R s s" "\<And>x t t'. x \<in> set xs \<Longrightarrow> R s t \<Longrightarrow> f x t = Some t' \<Longrightarrow> R s t'"
  shows "R s s'"
proof -
  have "R s t \<Longrightarrow> fold_opt f ys t = Some s' \<Longrightarrow> set ys \<subseteq> set xs \<Longrightarrow> R s s'" for ys t
    by (induction ys arbitrary: t) (auto split: bind_splits intro: assms(3))
  then show ?thesis using assms(1,2) by blast
qed

text \<open>Bringing back transient windows keeps everything in order.\<close>

lemma unicon_keeps:
  "kwm_run n c m = Some m' \<Longrightarrow> (\<exists>i. c = UnIconifyTransientOf i \<or> (c = UnIconify False i \<and> i \<in> set (clients m))) \<Longrightarrow> keeps m m'"
proof (induction n arbitrary: c m m')
  case (Suc n)
  note IH = Suc.IH
  consider i where "c = UnIconifyTransientOf i" | i where "c = UnIconify False i" "i \<in> set (clients m)" using Suc.prems(2) by blast
  then show ?case
  proof cases
    case 1
    then have "fold_opt (\<lambda>j m. if j \<noteq> i \<and> belongs_to m j i
       then do {
         m \<leftarrow> (if hidden_for_modules (cl m j) \<and> \<not> is_menubar (cl m j) then show_for_modules j m else Some m);
         kwm_run n (UnIconify False j) m }
       else Some m) (clients m) m = Some m'" using Suc.prems(1) by (simp add: unIconifyTransientOf_def)
    then show ?thesis
    proof (rule fold_opt_rel[where R = keeps, OF _ keeps_refl])
      fix j t t'
      assume j: "j \<in> set (clients m)" and t: "keeps m t" and s: "(if j \<noteq> i \<and> belongs_to t j i
       then do {
         m \<leftarrow> (if hidden_for_modules (cl t j) \<and> \<not> is_menubar (cl t j) then show_for_modules j t else Some t);
         kwm_run n (UnIconify False j) m }
       else Some t) = Some t'"
      have jt: "j \<in> set (clients t)" using j t by (simp add: keeps_def)
      show "keeps m t'"
      proof (cases "j \<noteq> i \<and> belongs_to t j i")
        case True
        then obtain u where u: "(if hidden_for_modules (cl t j) \<and> \<not> is_menubar (cl t j) then show_for_modules j t else Some t) = Some u"
          "kwm_run n (UnIconify False j) u = Some t'" using s by (auto split: bind_splits)
        have k: "keeps t u" using u(1) show_for_modules_keeps(1)[OF _ jt] keeps_refl by (auto split: if_splits)
        then have "j \<in> set (clients u)" using jt by (simp add: keeps_def)
        then have "keeps u t'" using IH[OF u(2)] by blast
        then show ?thesis using t k keeps_trans by blast
      qed (use s t in auto)
    qed
  next
    case 2
    show ?thesis
    proof (cases "state (cl m i) = WithdrawnState \<or> \<not> iconified (cl m i)")
      case True
      then show ?thesis using Suc.prems(1) 2 by (simp add: unIconify_def keeps_refl)
    next
      case False
      let ?m = "sendToModules ModuleChange i (upd_client i (\<lambda>c. c\<lparr>iconified := False\<rparr>) m)"
      let ?s = "if isOnDesktop (current_desktop m) (cl m i) then setWindowState i NormalState (showClient i ?m) else ?m"
      have od: "isOnDesktop (current_desktop ?m) (cl ?m i) = isOnDesktop (current_desktop m) (cl m i)" by (simp add: isOnDesktop_def)
      obtain u where u: "raiseClient i ?s = Some u" "kwm_run n (UnIconifyTransientOf i) u = Some m'"
        using Suc.prems(1) 2 False od by (auto simp: unIconify_def Let_def split: bind_splits if_splits)
      have k: "keeps m ?s" using unIconify_shown[of m i] unIconify_away[of m i] False by auto
      then have "keeps ?s u" using raiseClient_keeps(1)[OF u(1)] 2 by (simp add: keeps_def)
      moreover have "keeps u m'" using IH[OF u(2)] by blast
      ultimately show ?thesis using k keeps_trans by blast
    qed
  qed
qed simp

subsection \<open>These calls end\<close>

definition mains_ok :: "manager \<Rightarrow> bool" where
  "mains_ok m \<longleftrightarrow> (\<forall>i\<in>set (clients m). \<exists>r. mainClient m i = Some r)"

definition icons :: "manager \<Rightarrow> nat" where
  "icons m = card {i \<in> set (clients m). iconified (cl m i)}"

lemma keeps_clients: "keeps m m' \<Longrightarrow> clients m' = clients m"
  by (simp add: keeps_def)

lemma mains_ok_keeps: "keeps m m' \<Longrightarrow> mains_ok m \<Longrightarrow> mains_ok m'"
  using mainClient_keeps[of m m'] unfolding mains_ok_def keeps_def by metis

lemma icons_keeps_set: "keeps m m' \<Longrightarrow> {i \<in> set (clients m'). iconified (cl m' i)} \<subseteq> {i \<in> set (clients m). iconified (cl m i)}"
  by (auto simp: keeps_def client_keeps_def)

lemma icons_keeps: "keeps m m' \<Longrightarrow> icons m' \<le> icons m"
  unfolding icons_def by (rule card_mono) (simp_all add: icons_keeps_set)

lemma icons_length: "icons m \<le> length (clients m)"
  unfolding icons_def by (rule order.trans[OF card_mono card_length]) auto

lemma raiseClient_returns: "mains_ok m \<Longrightarrow> i \<in> set (clients m) \<Longrightarrow> \<exists>m'. raiseClient i m = Some m'"
  by (auto simp: raiseClient_def mains_ok_def Let_def)

lemma fold_opt_exists:
  assumes "R s s" "\<And>x t. x \<in> set xs \<Longrightarrow> R s t \<Longrightarrow> \<exists>t'. f x t = Some t' \<and> R s t'"
  shows "\<exists>s'. fold_opt f xs s = Some s'"
proof -
  have "R s t \<Longrightarrow> set ys \<subseteq> set xs \<Longrightarrow> \<exists>s'. fold_opt f ys t = Some s'" for ys t
  proof (induction ys arbitrary: t)
    case (Cons y ys)
    then show ?case using assms(2)[of y t] by fastforce
  qed simp
  then show ?thesis using assms(1) by blast
qed

lemma show_for_modules_returns:
  assumes "mains_ok m" "j \<in> set (clients m)"
  shows "\<exists>m'. show_for_modules j m = Some m'"
proof -
  obtain r where r: "mainClient m j = Some r" using assms by (auto simp: mains_ok_def)
  have "hinted (upd_client j (\<lambda>c. c\<lparr>hidden_for_modules := False\<rparr>) m) = hinted m"
    by (rule hinted_cong(1)) (simp_all add: same_hints_upd same_hints_def)
  from mainClient_cong[OF this r] show ?thesis by (auto simp: show_for_modules_def isDialog_def Let_def)
qed

lemma unicon_returns:
  assumes "mains_ok m"
  shows "(2 * icons m + 2 \<le> n \<longrightarrow> (\<exists>m'. kwm_run n (UnIconifyTransientOf c) m = Some m')) \<and>
    (\<forall>i\<in>set (clients m). 2 * icons m + 1 \<le> n \<longrightarrow> (\<exists>m'. kwm_run n (UnIconify False i) m = Some m'))"
  using assms
proof (induction n arbitrary: m c)
  case (Suc n)
  have A: "\<exists>m'. kwm_run (Suc n) (UnIconifyTransientOf c) m = Some m'" if n: "2 * icons m + 2 \<le> Suc n" for c
  proof -
    let ?f = "\<lambda>j m. if j \<noteq> c \<and> belongs_to m j c
       then do {
         m \<leftarrow> (if hidden_for_modules (cl m j) \<and> \<not> is_menubar (cl m j) then show_for_modules j m else Some m);
         kwm_run n (UnIconify False j) m }
       else Some m"
    have "\<exists>m'. fold_opt ?f (clients m) m = Some m'"
    proof (rule fold_opt_exists[where R = keeps, OF keeps_refl])
      fix j t assume j: "j \<in> set (clients m)" and t: "keeps m t"
      have jt: "j \<in> set (clients t)" "mains_ok t" using j t Suc.prems mains_ok_keeps by (auto simp: keeps_def)
      show "\<exists>t'. ?f j t = Some t' \<and> keeps m t'"
      proof (cases "j \<noteq> c \<and> belongs_to t j c")
        case True
        obtain u where u: "(if hidden_for_modules (cl t j) \<and> \<not> is_menubar (cl t j) then show_for_modules j t else Some t) = Some u"
          using show_for_modules_returns[OF jt(2,1)] by fastforce
        have k: "keeps t u" using u show_for_modules_keeps(1)[OF _ jt(1)] keeps_refl by (auto split: if_splits)
        then have ku: "j \<in> set (clients u)" "mains_ok u" "icons u \<le> icons m"
          using jt mains_ok_keeps icons_keeps[OF keeps_trans[OF t k]] by (auto simp: keeps_def)
        then obtain t' where t': "kwm_run n (UnIconify False j) u = Some t'" using Suc.IH[of u] n by fastforce
        have "keeps u t'" using unicon_keeps[OF t'] ku(1) by blast
        then have "keeps m t'" using t k keeps_trans by blast
        then show ?thesis using True u t' by simp
      qed (use t in auto)
    qed
    then show ?thesis by (simp add: unIconifyTransientOf_def)
  qed
  have B: "\<exists>m'. kwm_run (Suc n) (UnIconify False i) m = Some m'" if i: "i \<in> set (clients m)" and n: "2 * icons m + 1 \<le> Suc n" for i
  proof (cases "state (cl m i) = WithdrawnState \<or> \<not> iconified (cl m i)")
    case True
    then show ?thesis by (simp add: unIconify_def)
  next
    case False
    let ?m = "sendToModules ModuleChange i (upd_client i (\<lambda>c. c\<lparr>iconified := False\<rparr>) m)"
    let ?s = "if isOnDesktop (current_desktop m) (cl m i) then setWindowState i NormalState (showClient i ?m) else ?m"
    have od: "isOnDesktop (current_desktop ?m) (cl ?m i) = isOnDesktop (current_desktop m) (cl m i)" by (simp add: isOnDesktop_def)
    have k: "keeps m ?s" using unIconify_shown[of m i] unIconify_away[of m i] False by auto
    have ni: "\<not> iconified (cl ?s i)"
      by (cases "isOnDesktop (current_desktop m) (cl m i)"; cases "shaded (cl m i)") (simp_all add: setWindowState_def showClient_def)
    obtain u where u: "raiseClient i ?s = Some u"
      using raiseClient_returns[OF mains_ok_keeps[OF k Suc.prems], of i] i unfolding keeps_clients[OF k] by blast
    have im: "i \<in> set (clients ?s)" using i unfolding keeps_clients[OF k] .
    have ki: "keeps ?s u" "cl u = cl ?s" by (rule raiseClient_keeps[OF u im])+
    then have ku: "keeps m u" using k keeps_trans by blast
    have "icons u < icons m"
      unfolding icons_def
    proof (rule psubset_card_mono)
      show "{i \<in> set (clients u). iconified (cl u i)} \<subset> {i \<in> set (clients m). iconified (cl m i)}"
      proof (rule psubsetI)
        show "{i \<in> set (clients u). iconified (cl u i)} \<subseteq> {i \<in> set (clients m). iconified (cl m i)}"
          by (rule icons_keeps_set[OF ku])
        have "i \<notin> {i \<in> set (clients u). iconified (cl u i)}" using ni by (simp add: ki(2))
        moreover have "i \<in> {i \<in> set (clients m). iconified (cl m i)}" using i False by simp
        ultimately show "{i \<in> set (clients u). iconified (cl u i)} \<noteq> {i \<in> set (clients m). iconified (cl m i)}" by blast
      qed
    qed simp
    then obtain m' where "kwm_run n (UnIconifyTransientOf i) u = Some m'"
      using Suc.IH[OF mains_ok_keeps[OF ku Suc.prems], of i] n by auto
    then show ?thesis using u False od by (auto simp: unIconify_def Let_def)
  qed
  show ?case using A B by blast
qed simp

subsection \<open>Giving the focus while no window has it\<close>

definition calm :: "manager \<Rightarrow> manager \<Rightarrow> bool" where
  "calm m m' \<longleftrightarrow> clients m' = clients m \<and> current_desktop m' = current_desktop m \<and> opts m' = opts m \<and>
     (distinct (clients_sorted m) \<longrightarrow> distinct (clients_sorted m') \<and> set (clients_sorted m) \<subseteq> set (clients_sorted m') \<and>
       set (clients_sorted m') \<subseteq> set (clients_sorted m) \<union> set (clients m)) \<and>
     (\<exists>es. log m' = log m @ es \<and> no_unmap es) \<and>
     (\<forall>i. client_keeps ((cl m i)\<lparr>is_active := is_active (cl m' i)\<rparr>) (cl m' i) \<and>
       (win_ok (current_desktop m) (cl m i) \<longrightarrow> win_ok (current_desktop m) (cl m' i)))"

lemma client_keeps_active: "client_keeps c c' \<Longrightarrow> is_active c' = is_active c"
  by (auto simp: client_keeps_def)

lemma client_keeps_fields:
  "client_keeps c c' \<Longrightarrow> desktop c' = desktop c \<and> sticky c' = sticky c \<and> window c' = window c \<and> shaded c' = shaded c \<and>
     unmap_events c' = unmap_events c \<and> (iconified c' \<longrightarrow> iconified c)"
  by (auto simp: client_keeps_def)

lemma calm_clients: "calm m m' \<Longrightarrow> clients m' = clients m" "calm m m' \<Longrightarrow> current_desktop m' = current_desktop m"
  by (simp_all add: calm_def)

lemma calm_refl: "calm m m"
  by (auto simp: calm_def client_keeps_refl intro: exI[of _ "[]"])

lemma calm_after:
  assumes "keeps (setactive a i m) m2" "clients m' = clients m2" "current_desktop m' = current_desktop m2" "opts m' = opts m2"
    "clients_sorted m' = clients_sorted m2" "log m' = log m2 @ es" "no_unmap es" "cl m' = cl m2"
  shows "calm m m'"
proof -
  let ?m = "setactive a i m"
  have k: "client_keeps (cl ?m j) (cl m2 j)" "win_ok (current_desktop m) (cl ?m j) \<longrightarrow> win_ok (current_desktop m) (cl m2 j)" for j
    using assms(1) by (auto simp: keeps_def setactive_def)
  have "(cl m j)\<lparr>is_active := is_active (cl ?m j)\<rparr> = cl ?m j" for j by (cases "j = i") (simp_all add: setactive_def)
  then have "client_keeps ((cl m j)\<lparr>is_active := is_active (cl m2 j)\<rparr>) (cl m2 j)" for j
    using k(1)[of j] client_keeps_active[OF k(1)[of j]] by simp
  moreover have "win_ok (current_desktop m) (cl m j) \<longrightarrow> win_ok (current_desktop m) (cl m2 j)" for j
    using k(2)[of j] by (cases "j = i") (auto simp: setactive_def win_ok_def isOnDesktop_def)
  moreover obtain es' where "log m2 = log m @ es'" "no_unmap es'" using assms(1) by (auto simp: keeps_def setactive_def)
  ultimately show ?thesis
    using assms unfolding calm_def by (auto simp: keeps_def setactive_def)
qed

lemma to_back_frame [simp]:
  "cl (to_back i m) = cl m" "clients (to_back i m) = clients m" "clients_sorted (to_back i m) = clients_sorted m"
  "current_desktop (to_back i m) = current_desktop m" "opts (to_back i m) = opts m" "log (to_back i m) = log m"
  by (simp_all add: to_back_def set_traversing_def)

lemma raiseMenubarsOf_frame:
  "\<exists>es. raiseMenubarsOf i m = m\<lparr>log := log m @ es\<rparr> \<and> no_unmap es \<and> (\<forall>w. Focus w \<notin> set es)"
  by (auto simp: raiseMenubarsOf_def event_def Let_def no_unmap_def)

definition focus_of :: "kclient \<Rightarrow> kwm_event" where
  "focus_of c = Focus (if shaded c then None else Some (window c))"

text \<open>The window has got the focus: it is the active one and the X focus went to it last.\<close>

definition focused :: "client_id \<Rightarrow> manager \<Rightarrow> bool" where
  "focused i m \<longleftrightarrow> is_active (cl m i) \<and> (i \<in> set (clients_traversing m) \<longrightarrow> current m = Some i) \<and>
     (\<exists>es es'. log m = es @ [focus_of (cl m i)] @ es' \<and> (\<forall>w. Focus w \<notin> set es'))"

lemma activate_idle:
  assumes "current m = None" "mains_ok m" "i \<in> set (clients m)" "2 * icons m + 3 \<le> n"
    and "wants_focus (cl m i)" "\<not> focus_grabbed m"
  shows "\<exists>m'. kwm_run n (ActivateClient (Some i) r) m = Some m' \<and> calm m m' \<and> focused i m'"
proof -
  obtain n' where n: "n = Suc n'" "2 * icons m + 2 \<le> n'" using assms(4) by (cases n) auto
  let ?m = "setactive True i m"
  have h: "hinted ?m = hinted m" by (rule hinted_cong(1)) (simp_all add: setactive_def same_hints_upd same_hints_def)
  have mo: "mains_ok ?m" using assms(2) mainClient_cong[OF h] unfolding mains_ok_def by (fastforce simp: setactive_def)
  have ic: "icons ?m = icons m" unfolding icons_def by (rule arg_cong[where f = card]) (auto simp: setactive_def)
  obtain main where main: "mainClient ?m i = Some main" using mo assms(3) by (auto simp: mains_ok_def setactive_def)
  obtain m2 where m2: "kwm_run n' (UnIconifyTransientOf main) ?m = Some m2" using unicon_returns[OF mo, of n' main] n(2) ic by auto
  have k: "keeps ?m m2" using unicon_keeps[OF m2] by blast
  have ci: "client_keeps (cl ?m i) (cl m2 i)" using k by (simp add: keeps_def)
  have act: "is_active (cl m2 i)" using client_keeps_active[OF ci] by (simp add: setactive_def)
  let ?m3 = "to_back i (focusToClient i m2)"
  have f: "focusToClient i m2 = event (focus_of (cl m2 i)) m2" by (simp add: focusToClient_def focusToNull_def focus_of_def)
  obtain es where es: "raiseMenubarsOf main ?m3 = ?m3\<lparr>log := log ?m3 @ es\<rparr>" "no_unmap es" "\<forall>w. Focus w \<notin> set es"
    using raiseMenubarsOf_frame by blast
  let ?m4 = "?m3\<lparr>log := log ?m3 @ es\<rparr>"
  let ?m' = "sendToModules (\<lambda>i. ModuleActivate (Some i)) i ?m4"
  have run: "kwm_run n (ActivateClient (Some i) r) m = Some ?m'"
    using assms(1,5,6) main m2 es(1) by (simp add: n(1) activateClient_def Let_def)
  obtain es' where es': "?m' = ?m4\<lparr>log := log ?m4 @ es'\<rparr>" "no_unmap es'" "\<forall>w. Focus w \<notin> set es'"
    by (cases "hidden_for_modules (cl ?m4 i)") (auto simp: sendToModules_def event_def intro: that[of "[]"])
  have l: "log ?m' = log m2 @ [focus_of (cl m2 i)] @ es @ es'" unfolding es' by (simp add: f)
  have c: "calm m ?m'"
    by (rule calm_after[OF k, of _ "[focus_of (cl m2 i)] @ es @ es'"]) (use es(2) es'(2) l in \<open>simp_all add: f focus_of_def\<close>)
  have cur: "current ?m' = Some i" if "i \<in> set (clients_traversing ?m')"
  proof -
    have "i \<in> set (clients_traversing m2)" using that by (auto simp: to_back_def f set_traversing_def split: if_splits)
    then have "clients_traversing ?m' = remove1 i (clients_traversing m2) @ [i]" by (simp add: to_back_def f set_traversing_def)
    then show ?thesis using act by (simp add: current_def f)
  qed
  have "focused i ?m'"
    unfolding focused_def using cur act es(3) es'(3) l
    by (intro conjI exI[of _ "log m2"] exI[of _ "es @ es'"]) (simp_all add: f)
  then show ?thesis using run c by blast
qed

text \<open>\<open>noFocus\<close> when no window has the focus: the candidate gets it, if there is one and it takes it.\<close>

lemma noFocus_idle:
  assumes "current m = None" "mains_ok m" "set (clients_traversing m) \<subseteq> set (clients m)" "2 * icons m + 4 \<le> n"
  shows "\<exists>m'. kwm_run n NoFocus m = Some m' \<and> calm m m' \<and>
    (\<forall>c. focus_candidate m = Some c \<and> wants_focus (cl m c) \<and> \<not> focus_grabbed m \<longrightarrow> focused c m')"
proof -
  obtain n' where n: "n = Suc n'" "2 * icons m + 3 \<le> n'" using assms(4) by (cases n) auto
  show ?thesis
  proof (cases "focus_candidate m")
    case None
    have "kwm_run n NoFocus m = Some (event (ModuleActivate None) (focusToNull m))"
      using None assms(1) by (simp add: n(1) noFocus_def)
    moreover have "calm m (event (ModuleActivate None) (focusToNull m))"
      by (auto simp: calm_def focusToNull_def client_keeps_refl)
    ultimately show ?thesis using None by simp
  next
    case (Some c)
    then have "c \<in> set (clients_traversing m)" by (auto simp: focus_candidate_def find_Some_iff split: if_splits) (metis nth_mem length_rev set_rev)
    then have c: "c \<in> set (clients m)" using assms(3) by blast
    have run: "kwm_run n NoFocus m = kwm_run n' (ActivateClient (Some c) False) m" using Some by (simp add: n(1) noFocus_def)
    show ?thesis
    proof (cases "wants_focus (cl m c) \<and> \<not> focus_grabbed m")
      case True
      then show ?thesis using activate_idle[OF assms(1,2) c n(2)] Some run by auto
    next
      case False
      then have "kwm_run n' (ActivateClient (Some c) False) m = Some m"
        using n(2) by (cases n') (auto simp: activateClient_def Let_def)
      then show ?thesis using run False Some calm_refl by auto
    qed
  qed
qed

subsection \<open>Switching the desktop\<close>

definition leaves :: "manager \<Rightarrow> client_id \<Rightarrow> bool" where
  "leaves m i \<longleftrightarrow> isOnDesktop (current_desktop m) (cl m i) \<and> \<not> iconified (cl m i) \<and> \<not> sticky (cl m i) \<and> mouse_grabber m \<noteq> Some i"

definition arrives :: "manager \<Rightarrow> client_id \<Rightarrow> bool" where
  "arrives m i \<longleftrightarrow> isOnDesktop (current_desktop m) (cl m i) \<and> \<not> iconified (cl m i) \<and> \<not> sticky (cl m i) \<and> state (cl m i) \<noteq> NormalState"

definition hidden_client :: "kclient \<Rightarrow> kclient" where
  "hidden_client c = c\<lparr>state := IconicState, shown := False, unmap_events := (if shaded c then unmap_events c else unmap_events c + 1)\<rparr>"

definition shown_client :: "kclient \<Rightarrow> kclient" where
  "shown_client c = c\<lparr>shown := True, state := NormalState\<rparr>"

lemma hidden_client_cases:
  "shaded c \<Longrightarrow> c\<lparr>shown := False, state := IconicState\<rparr> = hidden_client c"
  "\<not> shaded c \<Longrightarrow> c\<lparr>shown := False, unmap_events := Suc (unmap_events c), state := IconicState\<rparr> = hidden_client c"
  by (simp_all add: hidden_client_def)

lemma hidden_client_same [simp]:
  "desktop (hidden_client c) = desktop c" "sticky (hidden_client c) = sticky c" "iconified (hidden_client c) = iconified c"
  "isOnDesktop d (hidden_client c) = isOnDesktop d c" "state (hidden_client c) = IconicState"
  by (simp_all add: hidden_client_def isOnDesktop_def)

lemma hide_leaving_frame:
  "\<exists>es. hide_leaving i m = m\<lparr>cl := (if leaves m i then (cl m)(i := hidden_client (cl m i)) else cl m), log := log m @ es\<rparr> \<and>
     es = (if leaves m i \<and> \<not> shaded (cl m i) then [UnmapWindow (window (cl m i))] else [])"
  by (auto simp: hide_leaving_def leaves_def hideClient_def setWindowState_def upd_client_def event_def Let_def hidden_client_cases)

lemma hide_fold:
  "distinct xs \<Longrightarrow> \<exists>es. fold hide_leaving xs m = m\<lparr>cl := (\<lambda>i. if i \<in> set xs \<and> leaves m i then hidden_client (cl m i) else cl m i), log := log m @ es\<rparr> \<and>
     es = map (\<lambda>i. UnmapWindow (window (cl m i))) (filter (\<lambda>i. leaves m i \<and> \<not> shaded (cl m i)) xs)"
proof (induction xs arbitrary: m)
  case (Cons x xs)
  obtain es where es: "hide_leaving x m = m\<lparr>cl := (if leaves m x then (cl m)(x := hidden_client (cl m x)) else cl m), log := log m @ es\<rparr>"
    "es = (if leaves m x \<and> \<not> shaded (cl m x) then [UnmapWindow (window (cl m x))] else [])"
    using hide_leaving_frame by blast
  let ?m = "m\<lparr>cl := (if leaves m x then (cl m)(x := hidden_client (cl m x)) else cl m), log := log m @ es\<rparr>"
  have o: "i \<in> set xs \<Longrightarrow> cl ?m i = cl m i" for i using Cons.prems by auto
  have l: "i \<in> set xs \<Longrightarrow> leaves ?m i = leaves m i" for i using Cons.prems by (auto simp: leaves_def)
  from Cons.IH[of ?m] Cons.prems have f: "fold hide_leaving xs ?m = ?m\<lparr>cl := (\<lambda>i. if i \<in> set xs \<and> leaves ?m i then hidden_client (cl ?m i) else cl ?m i),
      log := log ?m @ map (\<lambda>i. UnmapWindow (window (cl ?m i))) (filter (\<lambda>i. leaves ?m i \<and> \<not> shaded (cl ?m i)) xs)\<rparr>" by simp
  have "filter (\<lambda>i. leaves ?m i \<and> \<not> shaded (cl ?m i)) xs = filter (\<lambda>i. leaves m i \<and> \<not> shaded (cl m i)) xs"
    using o l by (intro filter_cong) auto
  then have g: "map (\<lambda>i. UnmapWindow (window (cl ?m i))) (filter (\<lambda>i. leaves ?m i \<and> \<not> shaded (cl ?m i)) xs) =
      map (\<lambda>i. UnmapWindow (window (cl m i))) (filter (\<lambda>i. leaves m i \<and> \<not> shaded (cl m i)) xs)"
    using o by (simp only: set_filter cong: map_cong) (auto intro!: map_cong)
  have h: "(\<lambda>i. if i \<in> set xs \<and> leaves ?m i then hidden_client (cl ?m i) else cl ?m i) =
      (\<lambda>i. if i \<in> set (x # xs) \<and> leaves m i then hidden_client (cl m i) else cl m i)"
    using o l Cons.prems by (auto simp: fun_eq_iff)
  have "fold hide_leaving (x # xs) m = fold hide_leaving xs ?m" by (simp add: es(1))
  also have "\<dots> = m\<lparr>cl := (\<lambda>i. if i \<in> set (x # xs) \<and> leaves m i then hidden_client (cl m i) else cl m i),
      log := log m @ es @ map (\<lambda>i. UnmapWindow (window (cl m i))) (filter (\<lambda>i. leaves m i \<and> \<not> shaded (cl m i)) xs)\<rparr>"
    unfolding f g h by simp
  finally show ?case using es(2) by simp
next
  case Nil
  show ?case by (intro exI[of _ "[]"]) simp
qed

lemma show_arriving_frame:
  "\<exists>es ts. show_arriving i m = m\<lparr>cl := (if arrives m i then (cl m)(i := shown_client (cl m i)) else cl m), log := log m @ es, clients_traversing := ts\<rparr> \<and>
     no_unmap es \<and> set ts = set (clients_traversing m)"
proof -
  have t: "\<exists>ts. to_front i m = m\<lparr>clients_traversing := ts\<rparr> \<and> set ts = set (clients_traversing m)" for m
  proof (cases "i \<in> set (clients_traversing m)")
    case True
    have "x \<in> set (i # remove1 i (clients_traversing m)) \<longleftrightarrow> x \<in> set (clients_traversing m)" for x
      using True by (cases "x = i") simp_all
    then have "set (i # remove1 i (clients_traversing m)) = set (clients_traversing m)" by blast
    then show ?thesis using True by (auto simp: to_front_def set_traversing_def)
  next
    case False
    then show ?thesis by (intro exI[of _ "clients_traversing m"]) (simp add: to_front_def)
  qed
  let ?m = "if arrives m i then setWindowState i NormalState (showClient i m) else m"
  have "\<exists>es. ?m = m\<lparr>cl := (if arrives m i then (cl m)(i := shown_client (cl m i)) else cl m), log := log m @ es\<rparr> \<and> no_unmap es"
    by (cases "shaded (cl m i)") (auto simp: showClient_def setWindowState_def upd_client_def event_def shown_client_def
        intro: exI[of _ "[]"] exI[of _ "[MapWindow (window (cl m i))]"])
  then obtain es where es: "?m = m\<lparr>cl := (if arrives m i then (cl m)(i := shown_client (cl m i)) else cl m), log := log m @ es\<rparr>" "no_unmap es" by blast
  have s: "show_arriving i m = (if sticky (cl ?m i) \<and> \<not> iconified (cl ?m i) \<and> current ?m \<noteq> Some i then to_front i ?m else ?m)"
    by (simp only: show_arriving_def arrives_def Let_def)
  obtain ts where ts: "to_front i ?m = ?m\<lparr>clients_traversing := ts\<rparr>" "set ts = set (clients_traversing ?m)" using t by blast
  have tr: "set (clients_traversing ?m) = set (clients_traversing m)" by (subst es(1)) simp
  show ?thesis
  proof (cases "sticky (cl ?m i) \<and> \<not> iconified (cl ?m i) \<and> current ?m \<noteq> Some i")
    case True
    then have "show_arriving i m = ?m\<lparr>clients_traversing := ts\<rparr>" using s ts by simp
    then show ?thesis using es ts(2) tr by (intro exI[of _ es] exI[of _ ts]) simp
  next
    case False
    then have "show_arriving i m = ?m" using s by auto
    then show ?thesis using es by (intro exI[of _ es] exI[of _ "clients_traversing m"]) simp
  qed
qed

lemma show_fold:
  "distinct xs \<Longrightarrow> \<exists>es ts. fold show_arriving xs m = m\<lparr>cl := (\<lambda>i. if i \<in> set xs \<and> arrives m i then shown_client (cl m i) else cl m i),
       log := log m @ es, clients_traversing := ts\<rparr> \<and> no_unmap es \<and> set ts = set (clients_traversing m)"
proof (induction xs arbitrary: m)
  case Nil
  then show ?case by (intro exI[of _ "[]"] exI[of _ "clients_traversing m"]) simp
next
  case (Cons x xs)
  obtain es ts where es: "show_arriving x m = m\<lparr>cl := (if arrives m x then (cl m)(x := shown_client (cl m x)) else cl m), log := log m @ es, clients_traversing := ts\<rparr>"
    "no_unmap es" "set ts = set (clients_traversing m)" using show_arriving_frame by blast
  let ?m = "m\<lparr>cl := (if arrives m x then (cl m)(x := shown_client (cl m x)) else cl m), log := log m @ es, clients_traversing := ts\<rparr>"
  have o: "i \<in> set xs \<Longrightarrow> cl ?m i = cl m i" for i using Cons.prems by auto
  have l: "i \<in> set xs \<Longrightarrow> arrives ?m i = arrives m i" for i using Cons.prems by (auto simp: arrives_def)
  obtain es' ts' where e': "fold show_arriving xs ?m = ?m\<lparr>cl := (\<lambda>i. if i \<in> set xs \<and> arrives ?m i then shown_client (cl ?m i) else cl ?m i),
       log := log ?m @ es', clients_traversing := ts'\<rparr>" "no_unmap es'" "set ts' = set ts" using Cons.IH[of ?m] Cons.prems by auto
  have "(\<lambda>i. if i \<in> set xs \<and> arrives ?m i then shown_client (cl ?m i) else cl ?m i) =
      (\<lambda>i. if i \<in> set (x # xs) \<and> arrives m i then shown_client (cl m i) else cl m i)"
    using o l Cons.prems by (auto simp: fun_eq_iff)
  then have "fold show_arriving (x # xs) m = m\<lparr>cl := (\<lambda>i. if i \<in> set (x # xs) \<and> arrives m i then shown_client (cl m i) else cl m i),
       log := log m @ es @ es', clients_traversing := ts'\<rparr>"
    using es e' by simp
  then show ?case using es e' by (intro exI[of _ "es @ es'"] exI[of _ ts']) simp
qed

text \<open>What the loops of \<open>switchDesktop\<close> make of a window.\<close>

definition switched :: "int \<Rightarrow> int \<Rightarrow> kclient \<Rightarrow> kclient" where
  "switched d new c =
     (let c = (if isOnDesktop d c \<and> \<not> iconified c \<and> \<not> sticky c then hidden_client c else c)
      in if isOnDesktop new c \<and> \<not> iconified c \<and> \<not> sticky c \<and> state c \<noteq> NormalState then shown_client c else c)"

lemma switched_ok: "win_ok d c \<Longrightarrow> d \<noteq> new \<Longrightarrow> win_ok new (switched d new c)"
  by (auto simp: switched_def win_ok_def isOnDesktop_def hidden_client_def shown_client_def Let_def)

lemma switched_same:
  "desktop (switched d new c) = desktop c" "sticky (switched d new c) = sticky c" "iconified (switched d new c) = iconified c"
  "same_hints c (switched d new c)" "is_active (switched d new c) = is_active c"
  by (simp_all add: switched_def hidden_client_def shown_client_def Let_def same_hints_def)

lemma updateMenuBars_frame:
  "\<exists>es g b. updateMenuBars m = m\<lparr>cl := (\<lambda>i. (cl m i)\<lparr>geometry := g i\<rparr>), log := log m @ es, menubar := b\<rparr> \<and> no_unmap es"
proof -
  have f: "\<exists>es g. fold (\<lambda>i m. if P i m then sendConfig_changed i (upd_client i (upd_geometry h) m) else m) xs m =
      m\<lparr>cl := (\<lambda>i. (cl m i)\<lparr>geometry := g i\<rparr>), log := log m @ es\<rparr> \<and> no_unmap es" for P h xs m
  proof (induction xs arbitrary: m)
    case Nil
    have "m = m\<lparr>cl := (\<lambda>i. (cl m i)\<lparr>geometry := geometry (cl m i)\<rparr>), log := log m @ []\<rparr>" by simp
    then show ?case by (intro exI[of _ "[]"] exI[of _ "\<lambda>i. geometry (cl m i)"]) simp
  next
    case (Cons x xs)
    let ?m = "if P x m then sendConfig_changed x (upd_client x (upd_geometry h) m) else m"
    obtain es g where eg: "?m = m\<lparr>cl := (\<lambda>i. (cl m i)\<lparr>geometry := g i\<rparr>), log := log m @ es\<rparr>" "no_unmap es"
    proof (cases "P x m")
      case True
      let ?u = "upd_client x (upd_geometry h) m"
      obtain es where es: "sendToModules ModuleChange x (event (SendConfig x) ?u) = event (SendConfig x) ?u\<lparr>log := log (event (SendConfig x) ?u) @ es\<rparr>"
        "no_unmap es" using sendToModules_eq[of ModuleChange] by blast
      have "cl ?u = (\<lambda>i. (cl m i)\<lparr>geometry := if i = x then h (geometry (cl m x)) else geometry (cl m i)\<rparr>)"
        by (auto simp: upd_geometry_def fun_eq_iff)
      then have h: "?m = m\<lparr>cl := (\<lambda>i. (cl m i)\<lparr>geometry := if i = x then h (geometry (cl m x)) else geometry (cl m i)\<rparr>),
          log := log m @ SendConfig x # es\<rparr>"
        using True es(1) by (simp add: sendConfig_changed_def sendConfig_def event_def upd_client_def)
      show ?thesis by (rule that[OF h]) (use es(2) in simp)
    next
      case False
      then have h: "?m = m\<lparr>cl := (\<lambda>i. (cl m i)\<lparr>geometry := geometry (cl m i)\<rparr>), log := log m @ []\<rparr>" by simp
      show ?thesis by (rule that[OF h]) simp
    qed
    from Cons.IH[of ?m] obtain es' g' where e': "fold (\<lambda>i m. if P i m then sendConfig_changed i (upd_client i (upd_geometry h) m) else m) xs ?m =
        ?m\<lparr>cl := (\<lambda>i. (cl ?m i)\<lparr>geometry := g' i\<rparr>), log := log ?m @ es'\<rparr>" "no_unmap es'" by blast
    then have "fold (\<lambda>i m. if P i m then sendConfig_changed i (upd_client i (upd_geometry h) m) else m) (x # xs) m =
        m\<lparr>cl := (\<lambda>i. (cl m i)\<lparr>geometry := g' i\<rparr>), log := log m @ es @ es'\<rparr>"
      unfolding eg(1) by (simp add: eg(1))
    then show ?case using eg(2) e'(2) by (intro exI[of _ "es @ es'"] exI[of _ g']) simp
  qed
  obtain b where b: "resetSystemMenuBar m = m\<lparr>menubar := b\<rparr>" by (simp add: resetSystemMenuBar_def Let_def)
  show ?thesis
  proof (cases "standalone_menubars m")
    case True
    let ?m = "m\<lparr>menubar := b\<rparr>"
    have u: "updateMenuBars m = fold (\<lambda>i m. if is_menubar (cl m i) \<and> isOnDesktop (current_desktop m) (cl m i)
        then sendConfig_changed i (upd_client i (upd_geometry (\<lambda>g. menubar_rect (region ?m (current_desktop ?m)) (rh g))) m) else m) (clients m) ?m"
      using True by (simp add: updateMenuBars_def b Let_def)
    obtain es g where "updateMenuBars m = ?m\<lparr>cl := (\<lambda>i. (cl ?m i)\<lparr>geometry := g i\<rparr>), log := log ?m @ es\<rparr>" "no_unmap es"
      unfolding u using f[of "\<lambda>i m. is_menubar (cl m i) \<and> isOnDesktop (current_desktop m) (cl m i)"] by blast
    then show ?thesis by (intro exI[of _ es] exI[of _ g] exI[of _ b]) simp
  next
    case False
    have "updateMenuBars m = m\<lparr>cl := (\<lambda>i. (cl m i)\<lparr>geometry := geometry (cl m i)\<rparr>), log := log m @ [], menubar := b\<rparr>"
      using False by (simp add: updateMenuBars_def b Let_def)
    then show ?thesis by (intro exI[of _ "[]"] exI[of _ "\<lambda>i. geometry (cl m i)"] exI[of _ b]) simp
  qed
qed

definition desk_ok :: "manager \<Rightarrow> bool" where
  "desk_ok m \<longleftrightarrow> distinct (clients m) \<and> distinct (clients_sorted m) \<and> set (clients_sorted m) = set (clients m) \<and>
     set (clients_traversing m) \<subseteq> set (clients m) \<and> (\<forall>i\<in>set (clients m). win_ok (current_desktop m) (cl m i))"

definition own_unmaps :: "manager \<Rightarrow> client_id \<Rightarrow> kwm_event list" where
  "own_unmaps m i = (if isOnDesktop (current_desktop m) (cl m i) \<and> \<not> iconified (cl m i) \<and> \<not> sticky (cl m i) \<and> \<not> shaded (cl m i)
     then [UnmapWindow (window (cl m i))] else [])"

lemma isOnDesktop_active: "isOnDesktop d (c\<lparr>is_active := a\<rparr>) = isOnDesktop d c"
  by (simp add: isOnDesktop_def)

lemma switchDesktop_run:
  assumes "desk_ok m" "mains_ok m" "mouse_grabber m = None" "1 \<le> new" "new \<le> number_of_desktops m" "new \<noteq> current_desktop m"
    and "2 * length (clients m) + 4 \<le> n"
  shows "\<exists>m4 m5 es a. switchDesktop n new m = Some (updateMenuBars m5) \<and> calm m4 m5 \<and> clients m4 = clients m \<and>
    clients_sorted m4 = clients_sorted m \<and> current_desktop m4 = new \<and> opts m4 = opts m \<and> focus_grabbed m4 = focus_grabbed m \<and>
    log m4 = log m @ concat (map (own_unmaps m) (clients_sorted m)) @ es \<and> no_unmap es \<and>
    (\<forall>i\<in>set (clients m). cl m4 i = switched (current_desktop m) new ((cl m i)\<lparr>is_active := a i\<rparr>)) \<and>
    (current m4 \<noteq> None \<longrightarrow> m5 = m4) \<and>
    (current m4 = None \<longrightarrow> (\<forall>c. focus_candidate m4 = Some c \<and> wants_focus (cl m4 c) \<and> \<not> focus_grabbed m4 \<longrightarrow> focused c m5))"
proof -
  let ?d = "current_desktop m"
  define m1 where "m1 = (case current m of Some c \<Rightarrow> if sticky (cl m c) then m else setactive False c m | None \<Rightarrow> m)"
  have "\<exists>a. m1 = m\<lparr>cl := (\<lambda>i. (cl m i)\<lparr>is_active := a i\<rparr>)\<rparr>"
  proof -
    have same: "m = m\<lparr>cl := (\<lambda>i. (cl m i)\<lparr>is_active := is_active (cl m i)\<rparr>)\<rparr>" by simp
    have off: "setactive False c m = m\<lparr>cl := (\<lambda>i. (cl m i)\<lparr>is_active := if i = c then False else is_active (cl m i)\<rparr>)\<rparr>" for c
    proof -
      have "cl (setactive False c m) = (\<lambda>i. (cl m i)\<lparr>is_active := if i = c then False else is_active (cl m i)\<rparr>)"
        by (auto simp: setactive_def fun_eq_iff)
      then show ?thesis by (simp add: setactive_def upd_client_def)
    qed
    show ?thesis
    proof (cases "\<exists>c. current m = Some c \<and> \<not> sticky (cl m c)")
      case True
      then obtain c where "current m = Some c" "\<not> sticky (cl m c)" by blast
      then show ?thesis unfolding m1_def by (intro exI[of _ "\<lambda>i. if i = c then False else is_active (cl m i)"]) (simp add: off)
    next
      case False
      then have "m1 = m" unfolding m1_def by (cases "current m") auto
      then show ?thesis using same by (intro exI[of _ "\<lambda>i. is_active (cl m i)"]) simp
    qed
  qed
  then obtain a where m1: "m1 = m\<lparr>cl := (\<lambda>i. (cl m i)\<lparr>is_active := a i\<rparr>)\<rparr>" by blast
  have m1s: "clients m1 = clients m" "clients_sorted m1 = clients_sorted m" "opts m1 = opts m" "focus_grabbed m1 = focus_grabbed m"
    "rootwin m1 = rootwin m" "clients_traversing m1 = clients_traversing m" "log m1 = log m" "current_desktop m1 = current_desktop m"
    "cl m1 = (\<lambda>i. (cl m i)\<lparr>is_active := a i\<rparr>)" by (simp_all add: m1)
  have srt: "distinct (clients_sorted m)" "set (clients_sorted m) = set (clients m)" using assms(1) by (simp_all add: desk_ok_def)
  have lv: "leaves m1 i \<longleftrightarrow> isOnDesktop ?d (cl m i) \<and> \<not> iconified (cl m i) \<and> \<not> sticky (cl m i)" for i
    using assms(3) by (simp add: leaves_def m1 isOnDesktop_def)
  obtain m2 where m2: "fold hide_leaving (clients_sorted m1) m1 = m2"
    "m2 = m1\<lparr>cl := (\<lambda>i. if i \<in> set (clients_sorted m1) \<and> leaves m1 i then hidden_client (cl m1 i) else cl m1 i),
      log := log m1 @ map (\<lambda>i. UnmapWindow (window (cl m1 i))) (filter (\<lambda>i. leaves m1 i \<and> \<not> shaded (cl m1 i)) (clients_sorted m1))\<rparr>"
    using hide_fold[of "clients_sorted m1" m1] srt(1) by (auto simp: m1s(2))
  have ul: "map (\<lambda>i. UnmapWindow (window (cl m1 i))) (filter (\<lambda>i. leaves m1 i \<and> \<not> shaded (cl m1 i)) xs) = concat (map (own_unmaps m) xs)" for xs
    by (induction xs) (auto simp: lv own_unmaps_def m1s)
  let ?m3 = "event (ModuleDesktop new) (m2\<lparr>current_desktop := new\<rparr>)"
  obtain m4 es ts where m4: "fold show_arriving (rev (clients_sorted ?m3)) ?m3 = m4"
    "m4 = ?m3\<lparr>cl := (\<lambda>i. if i \<in> set (rev (clients_sorted ?m3)) \<and> arrives ?m3 i then shown_client (cl ?m3 i) else cl ?m3 i),
       log := log ?m3 @ es, clients_traversing := ts\<rparr>" "no_unmap es" "set ts = set (clients_traversing ?m3)"
    using show_fold[of "rev (clients_sorted ?m3)" ?m3] srt(1) by (simp add: m2(2) m1s) blast
  have f4: "clients m4 = clients m" "clients_sorted m4 = clients_sorted m" "current_desktop m4 = new" "opts m4 = opts m"
    "focus_grabbed m4 = focus_grabbed m" "rootwin m4 = rootwin m" "set (clients_traversing m4) \<subseteq> set (clients m)"
    "log m4 = log m @ concat (map (own_unmaps m) (clients_sorted m)) @ ModuleDesktop new # es"
    using assms(1) m4(4) unfolding m4(2) m2(2) ul by (simp_all add: m1s desk_ok_def event_def)
  have c4: "cl m4 i = switched ?d new ((cl m i)\<lparr>is_active := a i\<rparr>)" if "i \<in> set (clients m)" for i
    using that unfolding m4(2) m2(2)
    by (auto simp: lv m1s srt(2) arrives_def switched_def Let_def event_def if_distrib[of "isOnDesktop new"] isOnDesktop_active)
  have h4: "hinted m4 = hinted m"
  proof (rule hinted_cong(1))
    have "same_hints (cl m j) (hidden_client c) = same_hints (cl m j) c" "same_hints (cl m j) (shown_client c) = same_hints (cl m j) c" for j c
      by (simp_all add: same_hints_def hidden_client_def shown_client_def)
    then show "same_hints (cl m j) (cl m4 j)" for j
      unfolding m4(2) m2(2) by (simp add: m1s same_hints_def event_def)
  qed (use f4 in simp_all)
  have mo: "mains_ok m4" using assms(2) mainClient_cong[OF h4] f4(1) by (fastforce simp: mains_ok_def)
  have n: "2 * icons m4 + 4 \<le> n" using icons_length[of m4] assms(7) f4(1) by simp
  obtain m5 where m5: "(if current m4 = None then kwm_run n NoFocus m4 else Some m4) = Some m5" "calm m4 m5"
    "current m4 \<noteq> None \<longrightarrow> m5 = m4"
    "current m4 = None \<longrightarrow> (\<forall>c. focus_candidate m4 = Some c \<and> wants_focus (cl m4 c) \<and> \<not> focus_grabbed m4 \<longrightarrow> focused c m5)"
    using noFocus_idle[OF _ mo _ n] f4(1,7) calm_refl[of m4] by (cases "current m4 = None") auto
  have m4': "fold show_arriving (rev (clients_sorted m2)) ?m3 = m4" using m4(1) by simp
  have "switchDesktop n new m = Some (updateMenuBars m5)"
    using assms(4-6) m5(1) by (cases "current m4 = None") (auto simp: switchDesktop_def m1_def[symmetric] m2(1) m4' Let_def simp del: fold_rev)
  then show ?thesis using m5(2-) f4 c4 m4(3)
    by (intro exI[of _ m4] exI[of _ m5] exI[of _ "ModuleDesktop new # es"] exI[of _ a]) auto
qed

text \<open>C11: Switching to another desktop that exists, while no window is being moved or resized, always returns, however the hints of the windows look,
  as long as the links to main windows do not run in circles. Where the windows on the screen were those of the old desktop that are no icons, and the sticky ones
  (\<open>desk_ok\<close>), they are afterwards exactly those of the new desktop that are no icons, and the sticky ones; no window is lost from the stacking order, no window
  changes its desktop or its being sticky, and none becomes an icon.\<close>

theorem switchDesktop_shows:
  assumes "desk_ok m" "mains_ok m" "mouse_grabber m = None" "1 \<le> new" "new \<le> number_of_desktops m" "new \<noteq> current_desktop m"
    and "2 * length (clients m) + 4 \<le> n"
  shows "\<exists>m'. switchDesktop n new m = Some m' \<and> current_desktop m' = new \<and> clients m' = clients m \<and>
    distinct (clients_sorted m') \<and> set (clients_sorted m') = set (clients m) \<and>
    (\<forall>i\<in>set (clients m). win_ok new (cl m' i) \<and> desktop (cl m' i) = desktop (cl m i) \<and> sticky (cl m' i) = sticky (cl m i) \<and>
       (iconified (cl m' i) \<longrightarrow> iconified (cl m i)))"
proof -
  obtain m4 m5 a where sw: "switchDesktop n new m = Some (updateMenuBars m5)" "calm m4 m5" "clients m4 = clients m"
    "clients_sorted m4 = clients_sorted m" "current_desktop m4 = new"
    "\<forall>i\<in>set (clients m). cl m4 i = switched (current_desktop m) new ((cl m i)\<lparr>is_active := a i\<rparr>)"
    using switchDesktop_run[OF assms] by (elim exE conjE) (rule that; assumption)
  obtain es g b where u: "updateMenuBars m5 = m5\<lparr>cl := (\<lambda>i. (cl m5 i)\<lparr>geometry := g i\<rparr>), log := log m5 @ es, menubar := b\<rparr>"
    using updateMenuBars_frame by blast
  have s: "clients m5 = clients m" "current_desktop m5 = new" "distinct (clients_sorted m5)" "set (clients_sorted m5) = set (clients m)"
  proof -
    have "distinct (clients_sorted m4)" "set (clients_sorted m4) = set (clients m)" using sw(4) assms(1) by (simp_all add: desk_ok_def)
    moreover have "clients m5 = clients m4 \<and> current_desktop m5 = current_desktop m4 \<and> (distinct (clients_sorted m4) \<longrightarrow>
        distinct (clients_sorted m5) \<and> set (clients_sorted m4) \<subseteq> set (clients_sorted m5) \<and>
        set (clients_sorted m5) \<subseteq> set (clients_sorted m4) \<union> set (clients m4))" using sw(2) unfolding calm_def by blast
    ultimately show "clients m5 = clients m" "current_desktop m5 = new" "distinct (clients_sorted m5)" "set (clients_sorted m5) = set (clients m)"
      using sw(3,5) by auto
  qed
  have w: "win_ok new (cl m5 i) \<and> desktop (cl m5 i) = desktop (cl m i) \<and> sticky (cl m5 i) = sticky (cl m i) \<and>
      (iconified (cl m5 i) \<longrightarrow> iconified (cl m i))" if i: "i \<in> set (clients m)" for i
  proof -
    have "win_ok (current_desktop m) (cl m i)" using assms(1) i by (simp add: desk_ok_def)
    then have "win_ok (current_desktop m) ((cl m i)\<lparr>is_active := a i\<rparr>)" by (simp add: win_ok_def isOnDesktop_def)
    from switched_ok[OF this assms(6)[symmetric]] have "win_ok new (cl m4 i)" by (simp add: sw(6)[rule_format, OF i])
    then have w: "win_ok new (cl m5 i)" using sw(2,5) by (simp add: calm_def)
    have "client_keeps ((cl m4 i)\<lparr>is_active := is_active (cl m5 i)\<rparr>) (cl m5 i)" using sw(2) by (simp add: calm_def)
    from client_keeps_fields[OF this] show ?thesis using w by (simp add: sw(6)[rule_format, OF i] switched_same)
  qed
  have "win_ok new (c\<lparr>geometry := h\<rparr>) = win_ok new c" for c h by (simp add: win_ok_def isOnDesktop_def)
  then show ?thesis using sw(1) s w by (simp add: u)
qed

lemma mains_ok_flat:
  assumes "\<forall>i. trans (cl m i) = 0 \<and> leader (cl m i) = 0"
  shows "mains_ok m"
proof -
  have "mainClient m i = Some i" for i using assms by (subst mainClient.simps) (simp add: Let_def)
  then show ?thesis by (simp add: mains_ok_def)
qed

text \<open>Three windows, the last on the second desktop.\<close>

definition two_desktops :: manager where
  "two_desktops = a_manager [(a_client 0 0 100 100)\<lparr>window := 10, winId := 20\<rparr>, (a_client 0 0 100 100)\<lparr>window := 11, winId := 21, sticky := True\<rparr>,
     (a_client 0 0 100 100)\<lparr>window := 12, winId := 22, desktop := 2, state := IconicState, shown := False\<rparr>]"

lemma two_desktops:
  "desk_ok two_desktops" "mains_ok two_desktops" "mouse_grabber two_desktops = None" "number_of_desktops two_desktops = 4"
  "current_desktop two_desktops = 1" "clients two_desktops = [0, 1, 2]"
proof -
  have u: "[0..<3] = [0::nat, 1, 2]" by code_simp
  then show "clients two_desktops = [0, 1, 2]" by (simp add: two_desktops_def a_manager_def)
  have "\<forall>i\<in>{0, 1, 2::nat}. win_ok 1 (cl two_desktops i)"
    by (simp add: two_desktops_def a_manager_def a_client_def win_ok_def isOnDesktop_def)
  then show "desk_ok two_desktops" using u by (simp add: desk_ok_def two_desktops_def a_manager_def)
  show "mains_ok two_desktops"
    by (rule mains_ok_flat) (auto simp: two_desktops_def a_manager_def a_client_def nth_Cons split: nat.split)
qed (simp_all add: two_desktops_def a_manager_def)

theorem switchDesktop_shows_witness:
  "\<exists>m'. switchDesktop 10 2 two_desktops = Some m' \<and> shown (cl m' 2) \<and> shown (cl m' 1) \<and> \<not> shown (cl m' 0)"
proof -
  have d: "1 \<le> (2::int)" "2 \<le> number_of_desktops two_desktops" "2 \<noteq> current_desktop two_desktops" "2 * length (clients two_desktops) + 4 \<le> 10"
    by (simp_all add: two_desktops)
  from switchDesktop_shows[OF two_desktops(1-3) d] obtain m' where m': "switchDesktop 10 2 two_desktops = Some m'"
    "\<And>i. i \<in> {0, 1, 2} \<Longrightarrow> win_ok 2 (cl m' i) \<and> desktop (cl m' i) = desktop (cl two_desktops i) \<and>
       sticky (cl m' i) = sticky (cl two_desktops i) \<and> (iconified (cl m' i) \<longrightarrow> iconified (cl two_desktops i))"
    by (auto simp: two_desktops)
  have "\<forall>i\<in>{0, 1, 2}. \<not> iconified (cl two_desktops i) \<and> desktop (cl two_desktops i) = (if i = 2 then 2 else 1) \<and> (sticky (cl two_desktops i) \<longleftrightarrow> i = 1)"
    by (simp add: two_desktops_def a_manager_def a_client_def)
  then show ?thesis using m' m'(2)[of 0] m'(2)[of 1] m'(2)[of 2] by (auto simp: win_ok_def isOnDesktop_def)
qed

end
