(* ===== verification/KwmLife.thy ===== *)
theory KwmLife
  imports KwmSwitch
begin

section \<open>The window manager kwm: properties of the life of a window\<close>

text \<open>
  The unmap events that kwm causes itself, the focus after a window is gone, the directions of the desktops, maximizing; and states in which
  \<open>iconify\<close> and \<open>noFocus\<close> go wrong.
\<close>

subsection \<open>Unmap events\<close>

lemma getClient_cong:
  assumes "\<And>j. j \<in> set (clients m) \<Longrightarrow> same_hints (cl m j) (cl m' j)" "clients m' = clients m"
  shows "getClient m' w = getClient m w"
  using assms by (simp add: getClient_def same_hints_def cong: find_cong)

lemma notified:
  assumes "getClient m w = Some i" "window (cl m i) = w" "winId (cl m i) = ev" "k \<le> unmap_events (cl m i)"
  shows "\<exists>m'. fold_opt (\<lambda>_. unmapNotify n d ours w ev s None) (replicate k ()) m = Some m' \<and> clients m' = clients m \<and>
    unmap_events (cl m' i) = unmap_events (cl m i) - k"
  using assms
proof (induction k arbitrary: m)
  case (Suc k)
  let ?m = "upd_client i (\<lambda>c. c\<lparr>unmap_events := unmap_events c - 1\<rparr>) m"
  have u: "unmapNotify n d ours w ev s None m = Some ?m" using Suc.prems by (simp add: unmapNotify_def)
  have "getClient ?m w = getClient m w" by (rule getClient_cong) (simp_all add: same_hints_def)
  then have g: "getClient ?m w = Some i" "window (cl ?m i) = w" "winId (cl ?m i) = ev" "k \<le> unmap_events (cl ?m i)"
    using Suc.prems by (simp_all add: le_diff_conv2)
  from Suc.IH[OF g] obtain m' where m': "fold_opt (\<lambda>_. unmapNotify n d ours w ev s None) (replicate k ()) ?m = Some m'"
    "clients m' = clients m" "unmap_events (cl m' i) = unmap_events (cl m i) - 1 - k"
    by auto
  then show ?case using u by (intro exI[of _ m']) simp
qed simp

lemma count_no_unmap: "no_unmap es \<Longrightarrow> count_list es (UnmapWindow w) = 0"
  by (simp add: no_unmap_def count_list_0_iff)

lemma count_own_unmaps:
  assumes "distinct xs" "\<forall>j\<in>set xs. window (cl m j) = window (cl m i) \<longrightarrow> j = i"
  shows "count_list (concat (map (own_unmaps m) xs)) (UnmapWindow (window (cl m i))) = (if i \<in> set xs then length (own_unmaps m i) else 0)"
  using assms by (induction xs) (auto simp: own_unmaps_def)

text \<open>C32: When kwm switches the desktop, it unmaps windows itself and is told of it later. However many such notices come for a window, as many as kwm
  caused, the window is not given up, and the count of expected notices is what it was before.\<close>

theorem switch_unmaps_ignored:
  assumes "desk_ok m" "mains_ok m" "mouse_grabber m = None" "1 \<le> new" "new \<le> number_of_desktops m" "new \<noteq> current_desktop m"
    and "2 * length (clients m) + 4 \<le> n"
    and "i \<in> set (clients m)" "getClient m (window (cl m i)) = Some i" "\<forall>j\<in>set (clients m). window (cl m j) = window (cl m i) \<longrightarrow> j = i"
  shows "\<exists>m'. switchDesktop n new m = Some m' \<and>
    (let k = count_list (drop (length (log m)) (log m')) (UnmapWindow (window (cl m i))) in
     \<exists>m''. fold_opt (\<lambda>_. unmapNotify n d ours (window (cl m i)) (winId (cl m i)) False None) (replicate k ()) m' = Some m'' \<and>
       clients m'' = clients m \<and> unmap_events (cl m'' i) = unmap_events (cl m i) \<and>
       (shown (cl m i) \<and> \<not> shown (cl m' i) \<and> \<not> shaded (cl m i) \<longrightarrow> k = 1))"
proof -
  let ?w = "UnmapWindow (window (cl m i))"
  obtain m4 m5 es a where sw: "switchDesktop n new m = Some (updateMenuBars m5)" "calm m4 m5" "clients m4 = clients m"
    "log m4 = log m @ concat (map (own_unmaps m) (clients_sorted m)) @ es" "no_unmap es"
    "\<forall>i\<in>set (clients m). cl m4 i = switched (current_desktop m) new ((cl m i)\<lparr>is_active := a i\<rparr>)" "current_desktop m4 = new"
    using switchDesktop_run[OF assms(1-7)] by (elim exE conjE) (rule that; assumption)
  obtain es5 where l5: "log m5 = log m4 @ es5" "no_unmap es5" using sw(2) by (auto simp: calm_def)
  obtain es6 g b where u: "updateMenuBars m5 = m5\<lparr>cl := (\<lambda>i. (cl m5 i)\<lparr>geometry := g i\<rparr>), log := log m5 @ es6, menubar := b\<rparr>" "no_unmap es6"
    using updateMenuBars_frame by blast
  let ?m' = "updateMenuBars m5"
  have c5: "clients m5 = clients m" using calm_clients(1)[OF sw(2)] sw(3) by simp
  have k5: "client_keeps ((cl m4 j)\<lparr>is_active := is_active (cl m5 j)\<rparr>) (cl m5 j)" for j using sw(2) by (simp add: calm_def)
  have h: "same_hints (cl m j) (cl ?m' j)" if "j \<in> set (clients m)" for j
  proof -
    have "same_hints (cl m j) (cl m4 j)" using switched_same(4)[of "(cl m j)\<lparr>is_active := a j\<rparr>"] sw(6) that by (simp add: same_hints_def)
    then show ?thesis using client_keeps_hints[OF k5[of j]] by (simp add: u same_hints_def)
  qed
  have g: "getClient ?m' (window (cl m i)) = Some i" using getClient_cong[of m ?m'] h assms(9) c5 by (simp add: u)
  have wi: "window (cl ?m' i) = window (cl m i)" "winId (cl ?m' i) = winId (cl m i)" using h[OF assms(8)] by (simp_all add: same_hints_def)
  have srt: "distinct (clients_sorted m)" "set (clients_sorted m) = set (clients m)" using assms(1) by (simp_all add: desk_ok_def)
  have "drop (length (log m)) (log ?m') = concat (map (own_unmaps m) (clients_sorted m)) @ es @ es5 @ es6"
    by (simp add: u l5 sw(4))
  then have k: "count_list (drop (length (log m)) (log ?m')) ?w = length (own_unmaps m i)"
    using count_own_unmaps[OF srt(1), of m i] assms(8,10) srt(2) sw(5) l5(2) u(2) by (simp add: count_no_unmap)
  have ev: "unmap_events (cl ?m' i) = unmap_events (cl m i) + length (own_unmaps m i)"
  proof -
    have "unmap_events (cl m4 i) = unmap_events (cl m i) + length (own_unmaps m i)"
      using sw(6) assms(8) by (auto simp: switched_def own_unmaps_def hidden_client_def shown_client_def Let_def isOnDesktop_active)
    moreover have "unmap_events (cl m5 i) = unmap_events (cl m4 i)" using client_keeps_fields[OF k5[of i]] by simp
    ultimately show ?thesis by (simp add: u)
  qed
  have one: "length (own_unmaps m i) = 1" if "shown (cl m i)" "\<not> shown (cl ?m' i)" "\<not> shaded (cl m i)"
  proof (rule ccontr)
    assume "length (own_unmaps m i) \<noteq> 1"
    moreover have ok: "win_ok (current_desktop m) (cl m i)" using assms(1,8) by (simp add: desk_ok_def)
    ultimately have "sticky (cl m i)" "\<not> iconified (cl m i)" using that(1,3) by (auto simp: own_unmaps_def win_ok_def split: if_splits)
    moreover have "win_ok new (cl m5 i)"
    proof -
      have "win_ok (current_desktop m) ((cl m i)\<lparr>is_active := a i\<rparr>)" using ok by (simp add: win_ok_def isOnDesktop_def)
      from switched_ok[OF this assms(6)[symmetric]] show ?thesis using sw(2,6,7) assms(8) by (simp add: calm_def)
    qed
    moreover have "sticky (cl m5 i) = sticky (cl m i)" "iconified (cl m5 i) \<longrightarrow> iconified (cl m i)"
      using client_keeps_fields[OF k5[of i]] sw(6) assms(8) by (simp_all add: switched_same)
    ultimately show False using that(2) by (simp add: u win_ok_def isOnDesktop_def)
  qed
  have cm: "clients ?m' = clients m" by (simp add: u c5)
  from notified[OF g wi, of "length (own_unmaps m i)" n d ours False] ev obtain m'' where
    "fold_opt (\<lambda>_. unmapNotify n d ours (window (cl m i)) (winId (cl m i)) False None) (replicate (length (own_unmaps m i)) ()) ?m' = Some m''"
    "clients m'' = clients m" "unmap_events (cl m'' i) = unmap_events (cl m i)" using cm by auto
  then show ?thesis using sw(1) k one by (auto simp: Let_def)
qed

lemma two_desktops_windows:
  "window (cl two_desktops 0) = 10" "winId (cl two_desktops 0) = 20" "unmap_events (cl two_desktops 0) = 0" "0 \<in> set (clients two_desktops)"
  "getClient two_desktops 10 = Some 0" "\<forall>j\<in>set (clients two_desktops). window (cl two_desktops j) = 10 \<longrightarrow> j = 0"
proof -
  show "window (cl two_desktops 0) = 10" "winId (cl two_desktops 0) = 20" "unmap_events (cl two_desktops 0) = 0"
    by (simp_all add: two_desktops_def a_manager_def a_client_def)
  show "0 \<in> set (clients two_desktops)" by (simp add: two_desktops)
  show "getClient two_desktops 10 = Some 0" by code_simp
  show "\<forall>j\<in>set (clients two_desktops). window (cl two_desktops j) = 10 \<longrightarrow> j = 0"
    by (simp add: two_desktops, simp add: two_desktops_def a_manager_def a_client_def)
qed

theorem switch_unmaps_ignored_witness:
  "\<exists>m' k m''. switchDesktop 10 2 two_desktops = Some m' \<and>
     fold_opt (\<lambda>_. unmapNotify 10 False True 10 20 False None) (replicate k ()) m' = Some m'' \<and> 0 \<in> set (clients m'') \<and> unmap_events (cl m'' 0) = 0"
proof -
  have d: "1 \<le> (2::int)" "2 \<le> number_of_desktops two_desktops" "2 \<noteq> current_desktop two_desktops" "2 * length (clients two_desktops) + 4 \<le> 10"
    by (simp_all add: two_desktops)
  have g: "getClient two_desktops (window (cl two_desktops 0)) = Some 0"
    "\<forall>j\<in>set (clients two_desktops). window (cl two_desktops j) = window (cl two_desktops 0) \<longrightarrow> j = 0"
    by (simp_all add: two_desktops_windows)
  show ?thesis
    using switch_unmaps_ignored[OF two_desktops(1-3) d two_desktops_windows(4) g, where d = False and ours = True] two_desktops_windows
    by (fastforce simp: Let_def)
qed

subsection \<open>The focus after a window is gone\<close>

lemma find_rev: "find P (rev xs) = (if filter P xs = [] then None else Some (last (filter P xs)))"
  by (induction xs rule: rev_induct) auto


text \<open>Three windows; the one that opened last is active.\<close>

definition three_windows :: manager where
  "three_windows = a_manager [(a_client 0 0 100 100)\<lparr>window := 10, winId := 20\<rparr>, (a_client 0 0 100 100)\<lparr>window := 11, winId := 21\<rparr>,
     (a_client 0 0 100 100)\<lparr>window := 12, winId := 22, is_active := True\<rparr>]"

lemma three_windows:
  "clients three_windows = [0, 1, 2]" "clients_traversing three_windows = [0, 1, 2]" "current three_windows = Some 2"
  "is_active (cl three_windows j) \<longleftrightarrow> j = 2" "\<not> CLASSIC_FOCUS (opts three_windows)" "\<not> focus_grabbed three_windows"
  "state (cl three_windows 0) = NormalState" "state (cl three_windows 1) = NormalState" "wants_focus (cl three_windows 1)"
  "mains_ok (three_windows\<lparr>clients := [0, 1]\<rparr>)"
proof -
  have u: "[0..<3] = [0::nat, 1, 2]" by code_simp
  show c: "clients three_windows = [0, 1, 2]" "clients_traversing three_windows = [0, 1, 2]"
    using u by (simp_all add: three_windows_def a_manager_def)
  show a: "is_active (cl three_windows j) \<longleftrightarrow> j = 2" for j
    by (auto simp: three_windows_def a_manager_def a_client_def nth_Cons split: nat.split)
  show "current three_windows = Some 2" using c a by (simp add: current_def)
  show "mains_ok (three_windows\<lparr>clients := [0, 1]\<rparr>)"
    by (rule mains_ok_flat) (auto simp: three_windows_def a_manager_def a_client_def nth_Cons split: nat.split)
qed (simp_all add: three_windows_def a_manager_defs CLASSIC_FOCUS_def)



text \<open>When the window that had the focus last before the removed one does not want the focus, the focus goes nowhere: no window is active, and the X focus is not
  set at all, not even to the dummy window, although another window may want it.\<close>

theorem removeClient_focus_lost:
  assumes "current m = Some i" "distinct (clients_traversing m)" "\<forall>j. is_active (cl m j) \<longrightarrow> j = i"
    and "\<not> CLASSIC_FOCUS (opts m)" "2 \<le> n"
    and "filter (\<lambda>j. j \<noteq> i \<and> state (cl m j) = NormalState) (clients_traversing m) \<noteq> []"
    and "c = last (filter (\<lambda>j. j \<noteq> i \<and> state (cl m j) = NormalState) (clients_traversing m))" "\<not> wants_focus (cl m c)"
  shows "\<exists>m'. removeClient n i m = Some m' \<and> current m' = None \<and>
    log m' = log m @ (if hidden_for_modules (cl m i) then [] else [ModuleRemove i])"
proof -
  let ?m = "m\<lparr>clients := remove1 i (clients m), clients_sorted := remove1 i (clients_sorted m),
      clients_traversing := remove1 i (clients_traversing m)\<rparr>"
  have tr: "clients_traversing ?m = filter (\<lambda>j. j \<noteq> i) (clients_traversing m)"
    using assms(2) by (simp add: distinct_remove1_removeAll removeAll_filter_not_eq) (metis (full_types))
  have "filter (\<lambda>j. \<not> is_active (cl m j) \<and> state (cl m j) = NormalState) (clients_traversing ?m) =
      filter (\<lambda>j. j \<noteq> i \<and> state (cl m j) = NormalState) (clients_traversing m)"
    unfolding tr using assms(3) by (auto intro!: filter_cong)
  then have "focus_candidate ?m = Some c"
    using assms(4,6,7) by (simp add: focus_candidate_def find_rev del: filter_filter)
  moreover obtain k where "n = Suc (Suc k)" using le_Suc_ex[OF assms(5)] by auto
  ultimately have "kwm_run n NoFocus ?m = Some ?m" using assms(8) by (simp add: noFocus_def activateClient_def)
  then have "removeClient n i m = Some (sendToModules ModuleRemove i ?m)"
    using assms(1) by (simp add: removeClient_def Let_def)
  moreover have "current ?m = None"
  proof (cases "clients_traversing ?m = []")
    case False
    from last_in_set[OF this] have "last (clients_traversing ?m) \<noteq> i" using assms(2) by simp
    then show ?thesis using assms(3) by (auto simp: current_def)
  qed (simp add: current_def)
  ultimately show ?thesis by (intro exI[of _ "sendToModules ModuleRemove i ?m"]) (simp add: sendToModules_def current_def event_def split: if_splits)
qed

theorem removeClient_focus_lost_witness:
  "\<exists>m'. removeClient 10 2 (three_windows\<lparr>cl := (cl three_windows)(1 := (cl three_windows 1)\<lparr>wants_focus := False\<rparr>)\<rparr>) = Some m' \<and> current m' = None"
proof -
  let ?m = "three_windows\<lparr>cl := (cl three_windows)(1 := (cl three_windows 1)\<lparr>wants_focus := False\<rparr>)\<rparr>"
  have a: "\<forall>j. is_active (cl ?m j) \<longrightarrow> j = 2" using three_windows(4) by simp
  have c: "current ?m = Some 2" using three_windows(4) by (simp add: current_def three_windows(2))
  have f: "filter (\<lambda>j. j \<noteq> 2 \<and> state (cl ?m j) = NormalState) (clients_traversing ?m) = [0, 1]"
    using three_windows(7,8) by (simp add: three_windows(2))
  have "distinct (clients_traversing ?m)" "\<not> CLASSIC_FOCUS (opts ?m)" "\<not> wants_focus (cl ?m 1)"
    using three_windows(5) by (simp_all add: three_windows(2))
  from removeClient_focus_lost[OF c this(1) a this(2) _ _ _ this(3), of 10] show ?thesis unfolding f by auto
qed

subsection \<open>The directions of the desktops\<close>

fun opposite :: "direction \<Rightarrow> direction" where
  "opposite Up = Down" | "opposite Down = Up" | "opposite Left = Right" | "opposite Right = Left"

lemma configured_desktops_even: "even (configured_desktops k)" "2 \<le> configured_desktops k" "configured_desktops k \<le> 32"
  by (auto simp: configured_desktops_def Let_def)

text \<open>With the number of desktops that kwm announces, whatever the configuration says, each direction and each relative command leads from a desktop to
  a desktop in range, and the opposite direction leads back.\<close>

theorem desktop_directions:
  assumes "number_of_desktops m = configured_desktops k" "1 \<le> current_desktop m" "current_desktop m \<le> number_of_desktops m"
  shows "(let nd = desktop_in_direction d m
      in 1 \<le> nd \<and> nd \<le> number_of_desktops m \<and> desktop_in_direction (opposite d) (m\<lparr>current_desktop := nd\<rparr>) = current_desktop m) \<and>
    (\<forall>com\<in>{''desktop+1'', ''desktop+2'', ''desktop-1'', ''desktop-2'', ''desktop%%2''}.
       \<exists>nd. desktop_command toInt com m = Some nd \<and> 1 \<le> nd \<and> nd \<le> number_of_desktops m)"
proof -
  obtain h where n: "number_of_desktops m = 2 * h" "1 \<le> h" using configured_desktops_even[of k] assms(1) by (elim evenE) simp
  obtain j where "current_desktop m = 2 * j \<or> current_desktop m = 2 * j + 1" by (metis evenE oddE)
  then have "(let nd = desktop_in_direction d m
      in 1 \<le> nd \<and> nd \<le> number_of_desktops m \<and> desktop_in_direction (opposite d) (m\<lparr>current_desktop := nd\<rparr>) = current_desktop m) \<and>
    (\<exists>nd. desktop_command toInt ''desktop%%2'' m = Some nd \<and> 1 \<le> nd \<and> nd \<le> number_of_desktops m)"
    by (elim disjE; use n assms(2,3) in \<open>cases d; simp add: desktop_in_direction_def desktop_command_def Let_def; presburger\<close>)
  moreover have "\<exists>nd. desktop_command toInt com m = Some nd \<and> 1 \<le> nd \<and> nd \<le> number_of_desktops m"
    if "com \<in> {''desktop+1'', ''desktop+2'', ''desktop-1'', ''desktop-2''}" for com
    using that configured_desktops_even(2)[of k, folded assms(1)] assms(2,3) by (auto simp: desktop_command_def Let_def)
  ultimately show ?thesis by simp
qed

theorem desktop_directions_witness:
  "desktop_in_direction Left (a_manager []) = 3 \<and> desktop_in_direction Right ((a_manager [])\<lparr>current_desktop := 3\<rparr>) = 1"
proof -
  have "configured_desktops 5 = 4" by code_simp
  moreover have "desktop_in_direction Left (a_manager []) = 3" by code_simp
  ultimately show ?thesis using desktop_directions[of "a_manager []" 5 Left] by (simp add: a_manager_def Let_def)
qed

subsection \<open>Maximizing\<close>

lemma adjustSize_only_geometry: "adjustSize b c = Some c' \<Longrightarrow> c' = c\<lparr>geometry := geometry c'\<rparr>"
  by (auto simp: adjustSize_def upd_geometry_def split: if_splits)

lemma maximize_unshaded:
  assumes "maximize n mode i m = Some m'" "\<not> maximized (cl m i)" "\<not> shaded (cl m i)"
  shows "\<exists>g. cl m' = (cl m)(i := (cl m i)\<lparr>maximized := True, maximize_mode := mode, geometry_restore := geometry (cl m i), geometry := g\<rparr>)"
    "clients m' = clients m"
proof -
  let ?m = "upd_client i (\<lambda>c. c\<lparr>maximized := True, maximize_mode := mode, geometry_restore := geometry c\<rparr>) m"
  obtain f c where c: "adjustSize (BORDER (opts m)) (cl (upd_client i (upd_geometry f) ?m) i) = Some c"
    "m' = sendConfig_changed i (upd_client i (\<lambda>_. c) (upd_client i (upd_geometry f) ?m))"
    using assms by (auto simp: maximize_def Let_def split: bind_splits)
  from adjustSize_only_geometry[OF c(1)]
  have "\<exists>g. c = (cl m i)\<lparr>maximized := True, maximize_mode := mode, geometry_restore := geometry (cl m i), geometry := g\<rparr>"
    by (intro exI[of _ "geometry c"]) (simp add: upd_geometry_def)
  then show "\<exists>g. cl m' = (cl m)(i := (cl m i)\<lparr>maximized := True, maximize_mode := mode, geometry_restore := geometry (cl m i), geometry := g\<rparr>)"
    by (auto simp: c(2) sendConfig_changed_def sendConfig_def)
  show "clients m' = clients m" by (simp add: c(2) sendConfig_changed_def sendConfig_def)
qed

text \<open>The resize increments do not make \<open>adjustSize\<close> divide by zero.\<close>

definition steps_ok :: "kclient \<Rightarrow> bool" where
  "steps_ok c \<longleftrightarrow> (PResizeInc (size_of c) \<longrightarrow> width_inc (size_of c) \<noteq> 0 \<and> height_inc (size_of c) \<noteq> 0)"

lemma adjustSize_steps: "adjustSize b c = None \<longleftrightarrow> \<not> steps_ok c"
  by (auto simp: adjustSize_def steps_ok_def)

lemma maximize_steps:
  assumes "\<not> maximized (cl m i)" "\<not> shaded (cl m i)"
  shows "maximize n mode i m = None \<longleftrightarrow> \<not> steps_ok (cl m i)"
  using assms adjustSize_steps[of "BORDER (opts m)"]
  by (simp add: maximize_def Let_def upd_geometry_def adjustSize_steps bind_eq_None_conv) (simp add: steps_ok_def)

definition plain :: "manager \<Rightarrow> bool" where
  "plain m \<longleftrightarrow> (\<forall>j. \<not> shaded (cl m j) \<and> steps_ok (cl m j))"

definition restores :: "manager \<Rightarrow> manager \<Rightarrow> bool" where
  "restores m m' \<longleftrightarrow> clients m' = clients m \<and>
     (\<forall>j. maximized (cl m' j) = maximized (cl m j) \<and> geometry_restore (cl m' j) = geometry_restore (cl m j))"

lemma maximize_plain:
  assumes "plain m" "\<not> maximized (cl m i)"
  shows "\<exists>m'. maximize n mode i m = Some m' \<and> plain m' \<and> clients m' = clients m \<and> (\<forall>j. j \<noteq> i \<longrightarrow> cl m' j = cl m j) \<and>
    maximized (cl m' i) \<and> geometry_restore (cl m' i) = geometry (cl m i)"
proof -
  have "maximize n mode i m \<noteq> None" using maximize_steps[OF assms(2)] assms(1) by (simp add: plain_def)
  then obtain m' where m': "maximize n mode i m = Some m'" by blast
  with maximize_unshaded[OF m' assms(2)] assms(1) obtain g where
    "cl m' = (cl m)(i := (cl m i)\<lparr>maximized := True, maximize_mode := mode, geometry_restore := geometry (cl m i), geometry := g\<rparr>)"
    "clients m' = clients m" by (auto simp: plain_def)
  then show ?thesis using m' assms(1) by (auto simp: plain_def steps_ok_def)
qed

lemma updateMaximizedWindows_plain:
  assumes "plain m"
  shows "\<exists>m'. updateMaximizedWindows n m = Some m' \<and> plain m' \<and> restores m m'"
proof -
  let ?f = "\<lambda>i m. if maximized (cl m i) \<and> isOnDesktop (current_desktop m) (cl m i)
       then maximize n (maximize_mode (cl m i)) i (upd_client i (\<lambda>c. c\<lparr>maximized := False, geometry := geometry_restore c\<rparr>) m)
       else Some m"
  have step: "\<exists>m'. ?f i m = Some m' \<and> plain m' \<and> restores m m'" if p: "plain m" for i m
  proof (cases "maximized (cl m i) \<and> isOnDesktop (current_desktop m) (cl m i)")
    case True
    let ?m = "upd_client i (\<lambda>c. c\<lparr>maximized := False, geometry := geometry_restore c\<rparr>) m"
    have "plain ?m" using p by (simp add: plain_def steps_ok_def)
    from maximize_plain[OF this, of i n "maximize_mode (cl m i)"] obtain m' where
      m': "maximize n (maximize_mode (cl m i)) i ?m = Some m'" "plain m'" "clients m' = clients m" "\<forall>j. j \<noteq> i \<longrightarrow> cl m' j = cl m j"
      "maximized (cl m' i)" "geometry_restore (cl m' i) = geometry_restore (cl m i)" by auto
    have "maximized (cl m' j) = maximized (cl m j) \<and> geometry_restore (cl m' j) = geometry_restore (cl m j)" for j
      using m'(4-6) True by (cases "j = i") auto
    then show ?thesis using m' True by (auto simp: restores_def)
  qed (use p in \<open>auto simp: restores_def\<close>)
  have "\<exists>m'. fold_opt ?f is m = Some m' \<and> plain m' \<and> restores m m'" if "plain m" for "is" m
    using that
  proof (induction "is" arbitrary: m)
    case (Cons i "is")
    from step[OF Cons.prems, of i] obtain m1 where m1: "?f i m = Some m1" "plain m1" "restores m m1" by blast
    from Cons.IH[OF m1(2)] obtain m2 where "fold_opt ?f is m1 = Some m2" "plain m2" "restores m1 m2" by blast
    then show ?case using m1 by (intro exI[of _ m2]) (simp add: restores_def)
  qed (simp add: restores_def)
  from this[OF assms] show ?thesis by (simp add: updateMaximizedWindows_def)
qed

text \<open>C38: A window that is maximized, is fitted again whenever the region or the menu bar of the desktop changes, and is at last unmaximized, has the geometry it had before. The size
  hints must not have a resize increment of zero, and no window is shaded.\<close>

theorem maximize_roundtrip:
  assumes "plain m" "\<not> maximized (cl m i)"
  shows "\<exists>m1. maximize n mode i m = Some m1 \<and>
    (\<exists>m2. updateMaximizedWindows n (m1\<lparr>current_desktop := d, region := r, menubar := b\<rparr>) = Some m2 \<and>
      (\<exists>m3. unMaximize n i m2 = Some m3 \<and> geometry (cl m3 i) = geometry (cl m i) \<and> \<not> maximized (cl m3 i)))"
proof -
  obtain m1 where m1: "maximize n mode i m = Some m1" "plain m1" "maximized (cl m1 i)" "geometry_restore (cl m1 i) = geometry (cl m i)"
    using maximize_plain[OF assms] by blast
  let ?m = "m1\<lparr>current_desktop := d, region := r, menubar := b\<rparr>"
  have "plain ?m" using m1(2) by (simp add: plain_def)
  from updateMaximizedWindows_plain[OF this] obtain m2 where m2: "updateMaximizedWindows n ?m = Some m2" "plain m2" "restores ?m m2" by blast
  have "maximized (cl m2 i)" "geometry_restore (cl m2 i) = geometry (cl m i)" "\<not> shaded (cl m2 i)"
    using m1 m2 by (simp_all add: restores_def plain_def)
  then show ?thesis using m1(1) m2(1) by (simp add: unMaximize_def Let_def sendConfig_changed_def sendConfig_def)
qed

text \<open>A window whose hints have a resize increment of zero divides by zero when it is maximized: the window manager ends.\<close>

theorem maximize_zero_increment:
  assumes "\<not> maximized (cl m i)" "\<not> shaded (cl m i)"
  shows "maximize n mode i m = None \<longleftrightarrow> PResizeInc (size_of (cl m i)) \<and> (width_inc (size_of (cl m i)) = 0 \<or> height_inc (size_of (cl m i)) = 0)"
  using maximize_steps[OF assms] by (auto simp: steps_ok_def)

lemma a_manager_plain: "\<forall>c\<in>set cs. \<not> shaded c \<and> steps_ok c \<Longrightarrow> plain (a_manager cs)"
  by (auto simp: plain_def a_manager_def a_client_def no_hints_def steps_ok_def)

theorem maximize_roundtrip_witness:
  "\<exists>m1. maximize 5 3 0 (a_manager [xterm]) = Some m1 \<and>
    (\<exists>m2. updateMaximizedWindows 5 (m1\<lparr>current_desktop := 1, region := \<lambda>_. \<lparr>rx = 0, ry = 40, rw = 800, rh = 560\<rparr>, menubar := None\<rparr>) = Some m2 \<and>
      (\<exists>m3. unMaximize 5 0 m2 = Some m3 \<and> geometry (cl m3 0) = geometry xterm \<and> \<not> maximized (cl m3 0)))"
proof -
  have "plain (a_manager [xterm])" by (rule a_manager_plain) (simp add: xterm_def a_client_def no_hints_def steps_ok_def)
  moreover have "\<not> maximized (cl (a_manager [xterm]) 0)" "cl (a_manager [xterm]) 0 = xterm"
    by (simp_all add: a_manager_def xterm_def a_client_def)
  ultimately show ?thesis using maximize_roundtrip[of "a_manager [xterm]" 0] by (simp del: fun_upd_apply)
qed

theorem maximize_zero_increment_witness:
  "maximize 5 3 0 (a_manager [xterm\<lparr>size_of := no_hints\<lparr>PResizeInc := True\<rparr>\<rparr>]) = None"
proof -
  let ?m = "a_manager [xterm\<lparr>size_of := no_hints\<lparr>PResizeInc := True\<rparr>\<rparr>]"
  have "\<not> maximized (cl ?m 0)" "\<not> shaded (cl ?m 0)" by (simp_all add: a_manager_def xterm_def a_client_def)
  from maximize_zero_increment[OF this] show ?thesis by (simp add: a_manager_def no_hints_def)
qed

subsection \<open>Dialogs of dialogs\<close>

text \<open>A window (0) with a dialog (1) that has a dialog (2) of its own, which is active; and another window.\<close>

definition nested_dialogs :: manager where
  "nested_dialogs = (a_manager [(a_client 0 0 100 100)\<lparr>window := 10, winId := 20\<rparr>, (a_client 0 0 100 100)\<lparr>window := 11, winId := 21, trans := 10\<rparr>,
     (a_client 0 0 100 100)\<lparr>window := 12, winId := 22, trans := 11, is_active := True\<rparr>, (a_client 0 0 100 100)\<lparr>window := 13, winId := 23\<rparr>])
     \<lparr>clients_traversing := [3, 0, 1, 2]\<rparr>"

text \<open>When the window is iconified, its dialog is an icon for a moment only: the focus that the inner dialog loses goes to the dialog, which then is no icon any
  more. In the end the window is an icon, both dialogs are on the screen, and the modules do not know of the first one.\<close>

lemma iconify_leaves_dialogs:
  "map_option (\<lambda>m. map (\<lambda>i. (iconified (cl m i), shown (cl m i), hidden_for_modules (cl m i))) [0, 1, 2]) (kwm_run 20 (Iconify True 0) nested_dialogs) =
   Some [(True, False, False), (False, True, True), (False, True, False)]"
  by code_simp

end
