(* ===== verification/Spec2Isabelle.thy ===== *)
theory Spec2Isabelle
  imports CookieSession CookieWire MagicFind HttpSlave HtmlCache UrlCompletion KioSlaves KioWeb TermTalk TermSelect KwmLife
begin

text \<open>
  A verification of parts of kdebase, the base programs of KDE 1 (C++, directory \<^verbatim>\<open>src/\<close>): the file manager and web browser \<^verbatim>\<open>kfm\<close>, the terminal emulator
  \<^verbatim>\<open>konsole\<close> and the window manager \<^verbatim>\<open>kwm\<close>. The theories model the code that holds the logic of these programs; painting, menus and configuration
  dialogs are left out.

  \<^bold>\<open>How the code is modelled.\<close> An object is a record of its members, a method a function from the state to the new state. What is undefined behaviour in C++
  (an access outside of an array, through an invalid pointer, a division by zero) makes the result \<open>None\<close>, so that freedom from it is a statement, and so is
  its absence. Errors that the code reports are values of its own types. An \<open>int\<close> is an integer that is brought back to 32 bits (\<open>to_int32\<close>, \<open>w32\<close>) where the code
  can leave the range; unsigned longs of the magic file are words of 64 bits. A \<open>char *\<close> is the list of the bytes from the pointer to the end of its buffer, and C
  functions stop at the NUL. Loops that always end are recursive functions with a termination proof; loops that may not end are partial functions, whose \<open>None\<close> is
  divergence; the calls of the window manager that call each other take a bound on their depth. Qt, kdelibs, the X server, the C library's calls into the
  operating system, the network and the clock are parameters: arguments, fields of an environment record, or an oracle that answers the calls made so far. Laws
  that the proofs need of them are assumptions of a locale or hypotheses of the theorem. The order of the definitions in each theory is that of the code.

  \<^bold>\<open>The prelude.\<close> \<open>Prelude\<close> has the C functions on strings and numbers, with their inverses, and the interface of \<open>QList::inSort\<close> as the locales \<open>qlist_insort\<close> and
  \<open>key_compare\<close>: the result is the old list with the new item, and sorted by the comparison. They are interpreted for the comparisons of the code: \<open>strcmp\<close>, the length
  of cookie paths (\<open>CookieText\<close>), the order of directory entries (\<open>KioListing\<close>).

  \<^bold>\<open>kfm: cookies\<close> (\<^verbatim>\<open>kfm/kcookiejar.cpp\<close>, \<^verbatim>\<open>kcookiewin.cpp\<close>, \<^verbatim>\<open>kfmman.cpp\<close>, \<^verbatim>\<open>kfmview.cpp\<close>).
  \<^item> \<open>CookieText\<close>: a cookie, the parsers of the \<open>Set-Cookie\<close> lines, dates and URLs.
  \<^item> \<open>CookieJar\<close>: the jar, its lists by domain and its advices; \<open>findCookies\<close> equals a filter of the list of the domain and a formatting of the result.
  \<^item> \<open>CookieFile\<close>: saving and loading; the text that is written is read back as the cookies it was made of.
  \<^item> \<open>CookieSession\<close>: servers, the user's answers, the configuration and files that other programs change, as a step relation. The locale \<open>cookie_store\<close> states what
    the session needs of a jar (each cookie it holds is safe and sits in the list of its domain); the jar provides it.
  \<^item> \<open>CookieWire\<close>: from the header of an answer to that of a request: no cookie of a server ends the header early; a cookie file with an open quote can.

  \<^bold>\<open>kfm: the type of a file\<close> (\<^verbatim>\<open>kfm/kmimemagic.cpp\<close>).
  \<^item> \<open>MagicBase\<close>, \<open>MagicParse\<close>: the data, and the parser of the magic file.
  \<^item> \<open>MagicMatch\<close>: the rules on data: \<open>match\<close> finds the first group that holds, and its level counter walks the tree that the levels of the entries describe.
  \<^item> \<open>MagicAscii\<close>: text and tar archives; which type is answered for which words. The \<open>double\<close>s of the code are rationals.
  \<^item> \<open>MagicFind\<close>: the requests for a buffer and for a file. \<open>process\<close> follows symbolic links; its first argument bounds their number.

  \<^bold>\<open>kfm: transfers\<close> (\<^verbatim>\<open>kfm/kioslave/\<close>).
  \<^item> \<open>HttpSlave\<close> (\<^verbatim>\<open>http.cpp\<close>): authorization, content negotiation, hosts without proxy, the request, the header of the answer, reading.
  \<^item> \<open>FtpControl\<close>, \<open>FtpSlave\<close> (\<^verbatim>\<open>ftp.cpp\<close>): the buffered control connection, commands and replies, login, data connections, transfers. The buffer of a line has 256
    bytes, that of the connection 1024; the code's own bounds appear in the theorems (lines of at most 254 characters, lines of a listing of at most 1023).
  \<^item> \<open>FtpDialogue\<close>, \<open>FtpSafety\<close>: replies are read exactly, however the network cuts them; each command is one line (locale \<open>framing\<close>, for the two sets of
    characters that may end a command); the faults of the slave.
  \<^item> \<open>KioFile\<close>, \<open>KioListing\<close> (\<^verbatim>\<open>file.cpp\<close>): files on a file system, access strings, entries of a directory in order, listings of FTP servers.
  \<^item> \<open>KioTransfer\<close> (\<^verbatim>\<open>main.cpp\<close>): the requests \<open>get\<close>, \<open>copy\<close>, \<open>mkdir\<close>, \<open>del\<close> over the methods of a protocol.
  \<^item> \<open>KioDeliver\<close>: the contracts between the loops and the slaves: \<open>byte_source\<close> hands out what is left of its data, \<open>byte_sink\<close> takes what is written while there
    is room, \<open>transfer\<close> is both; the loops are proved against them. \<open>KioSlaves\<close> and \<open>KioWeb\<close> show that the slaves for files, FTP and HTTP meet them, and what
    happens where they do not.

  \<^bold>\<open>kfm: cache and completion.\<close> \<open>HtmlCache\<close> (\<^verbatim>\<open>kfm/htmlcache.cpp\<close>): the views, their jobs and the cached pages as a state machine, with an invariant over all
  its runs, and the index file. \<open>UrlCompletion\<close> (\<^verbatim>\<open>kfm/kURLcompletion.cpp\<close>): completion and rotation of file names.

  \<^bold>\<open>konsole\<close> (\<^verbatim>\<open>konsole/src/\<close>).
  \<^item> \<open>TermImage\<close>, \<open>TermScreen\<close> (\<^verbatim>\<open>TEScreen.C\<close>): cells, cursor, margins, modes, history, selection, every access to an array with its bounds.
  \<^item> \<open>TermInv\<close>, \<open>TermOps\<close>, \<open>TermHistory\<close>, \<open>TermProps\<close>: the effect of the operations cell by cell, the invariant, and which operations leave their arrays when.
    Sizes are below 2^15 and arguments below 2^30, so that sums and products of coordinates stay below 2^31.
  \<^item> \<open>TermPaper\<close>: history and image as one roll of paper, which the screen implements.
  \<^item> \<open>TermEmu\<close>, \<open>TermScan\<close>, \<open>TermCsi\<close>, \<open>TermStream\<close>, \<open>TermTalk\<close> (\<^verbatim>\<open>TEmuVt102.C\<close>, \<^verbatim>\<open>TEmulation.C\<close>): the scanner, the tokens, modes and reports; which streams are
    handled without a fault; what text and control sequences show.
  \<^item> \<open>TermSelect\<close>: the text of a selection.

  \<^bold>\<open>kwm\<close> (\<^verbatim>\<open>kwm/manager.C\<close>, \<^verbatim>\<open>client.C\<close>, \<^verbatim>\<open>drag.C\<close>).
  \<^item> \<open>KwmBase\<close>, \<open>KwmGeometry\<close>, \<open>KwmSnap\<close>, \<open>KwmPlace\<close>: size hints, snapping, maximizing, the placement of new windows.
  \<^item> \<open>KwmStack\<close>: the stacking order and the order of the focus; raising a window raises its retinue.
  \<^item> \<open>KwmFocus\<close>, \<open>KwmDesk\<close>, \<open>KwmSwitch\<close>, \<open>KwmLife\<close>: activation, icons, desktops, the end of a window. \<open>kwm_run\<close> performs the calls that these functions make of each
    other to a given depth; \<open>2 * length (clients m) + 4\<close> is enough for a switch of the desktop and for the removal of a window, because each window that is
    brought back from its icon costs two calls, and none is brought back twice. The theorems prove that the calls return.

  \<^bold>\<open>The properties\<close> are the theorems whose text begins with \<open>C\<close> and a number. They state contents and orders (what is sent, shown, stored, listed), invariants over all runs
  of the state machines, round trips of the files, termination of the loops, and the exact conditions of the faults found in the code. Each one that has hypotheses is
  followed by a witness that applies it to concrete values.

  \<^bold>\<open>What is not modelled\<close>: widgets, painting, menus, drag and drop, the properties dialog and the bookmarks of kfm; the slaves that run external programs (tar, gzip, CGI);
  the pool of slaves and its generated message stubs; SSL; decoration, session management and the loops that read the pointer in kwm; the pseudo terminal and the
  widget of konsole (but for the words of a double click); the other programs of the package, which are small graphical tools or ports of programs from elsewhere.
\<close>

end
